(* ===== verification/Presence.thy ===== *)
theory Presence
  imports Prelude
begin

text \<open>
  \<open>packages/domain/events.py\<close> and \<open>packages/domain/timeutil.py\<close>: the three-way identity
  decision, the merging of detections into presence windows, and the time helpers. An
  interval is a pair of timestamps.
\<close>

section \<open>Identity classification\<close>

datatype identity_status = Unknown | Uncertain | Known

text \<open>The statuses in the order of the claim they make.\<close>

instantiation identity_status :: linorder
begin

definition identity_rank :: "identity_status \<Rightarrow> nat" where
  "identity_rank s = (case s of Unknown \<Rightarrow> 0 | Uncertain \<Rightarrow> 1 | Known \<Rightarrow> 2)"

definition less_eq_identity_status :: "identity_status \<Rightarrow> identity_status \<Rightarrow> bool" where
  "less_eq_identity_status s t \<longleftrightarrow> identity_rank s \<le> identity_rank t"

definition less_identity_status :: "identity_status \<Rightarrow> identity_status \<Rightarrow> bool" where
  "less_identity_status s t \<longleftrightarrow> identity_rank s < identity_rank t"

instance
  by standard
    (auto simp: less_eq_identity_status_def less_identity_status_def identity_rank_def
      split: identity_status.splits)

end

definition classify_identity :: "real option \<Rightarrow> real \<Rightarrow> real \<Rightarrow> identity_status" where
  "classify_identity similarity threshold uncertain_delta =
     (case similarity of
        None \<Rightarrow> Unknown
      | Some s \<Rightarrow>
          if s \<ge> threshold then Known
          else if s \<ge> threshold - uncertain_delta then Uncertain
          else Unknown)"

definition identity_value :: "identity_status \<Rightarrow> string" where
  \<comment> \<open>the literal the code returns\<close>
  "identity_value s =
     (case s of Known \<Rightarrow> ''known'' | Uncertain \<Rightarrow> ''uncertain'' | Unknown \<Rightarrow> ''unknown'')"

lemma classify_Known_iff:
  "classify_identity sim thr d = Known \<longleftrightarrow> (\<exists>s. sim = Some s \<and> thr \<le> s)"
  by (auto simp: classify_identity_def split: option.splits)

lemma classify_Uncertain_iff:
  "classify_identity sim thr d = Uncertain \<longleftrightarrow> (\<exists>s. sim = Some s \<and> thr - d \<le> s \<and> s < thr)"
  by (auto simp: classify_identity_def split: option.splits)

text \<open>
  An identity is asserted exactly at or above the threshold, the uncertain band is
  exactly the \<open>uncertain_delta\<close> below it, no face gives no claim, and more similarity
  never weakens the claim.
\<close>

theorem identity_classification:
  "(classify_identity (Some s) thr d = Known \<longleftrightarrow> thr \<le> s) \<and>
   (classify_identity (Some s) thr d = Uncertain \<longleftrightarrow> thr - d \<le> s \<and> s < thr) \<and>
   classify_identity None thr d = Unknown \<and>
   mono (\<lambda>x. classify_identity (Some x) thr d) \<and>
   antimono (\<lambda>t. classify_identity (Some s) t d)"
  by (auto simp: classify_identity_def monotone_def less_eq_identity_status_def identity_rank_def)

section \<open>Merging intervals\<close>

type_synonym interval = "timestamp \<times> timestamp"

definition merge_step :: "real \<Rightarrow> interval list \<Rightarrow> interval \<Rightarrow> interval list" where
  \<comment> \<open>the loop body: swap a reversed interval, then extend the last window or open one\<close>
  "merge_step gap merged iv =
     (let (start, stop) = (if fst iv > snd iv then (snd iv, fst iv) else iv) in
      if merged \<noteq> [] \<and> total_seconds (start - snd (last merged)) \<le> gap
      then butlast merged @ [(fst (last merged), max (snd (last merged)) stop)]
      else merged @ [(start, stop)])"

definition merge_intervals :: "interval list \<Rightarrow> real \<Rightarrow> interval list" where
  "merge_intervals intervals gap = foldl (merge_step gap) [] (sort_key fst intervals)"

definition aggregate_track ::
  "timestamp \<Rightarrow> timestamp \<Rightarrow> timestamp list \<Rightarrow> real \<Rightarrow> interval list" where
  "aggregate_track first_seen last_seen detections merge_gap_seconds =
     (let pts = map (\<lambda>t. (t, t)) detections;
          intervals = (if pts \<noteq> [] then pts else [(first_seen, last_seen)])
      in merge_intervals intervals merge_gap_seconds)"

definition proper :: "interval \<Rightarrow> bool" where
  "proper iv \<longleftrightarrow> fst iv \<le> snd iv"

definition apart :: "real \<Rightarrow> interval \<Rightarrow> interval \<Rightarrow> bool" where
  "apart gap p q \<longleftrightarrow> gap < total_seconds (fst q - snd p)"

lemma merge_step_Nil: "proper iv \<Longrightarrow> merge_step gap [] iv = [iv]"
  by (auto simp: merge_step_def proper_def)

lemma merge_step_snoc:
  "proper iv \<Longrightarrow> merge_step gap (m @ [w]) iv =
     (if apart gap w iv then m @ [w, iv] else m @ [(fst w, max (snd w) (snd iv))])"
  by (cases iv) (auto simp: merge_step_def proper_def apart_def)

text \<open>What the scan has established after a sorted prefix of proper intervals.\<close>

definition covers :: "interval list \<Rightarrow> interval list \<Rightarrow> bool" where
  "covers m ivs \<longleftrightarrow> (\<forall>iv \<in> set ivs. \<exists>w \<in> set m. fst w \<le> fst iv \<and> snd iv \<le> snd w)"

definition near_seen :: "real \<Rightarrow> interval list \<Rightarrow> interval \<Rightarrow> bool" where
  "near_seen gap ivs w \<longleftrightarrow>
     (\<forall>t. fst w \<le> t \<and> t \<le> snd w \<longrightarrow>
        (\<exists>iv \<in> set ivs. fst iv \<le> t \<and> total_seconds (t - snd iv) \<le> gap))"

definition merged_ok :: "real \<Rightarrow> interval list \<Rightarrow> interval list \<Rightarrow> bool" where
  "merged_ok gap ivs m \<longleftrightarrow>
     list_all proper ivs \<and> list_all proper m \<and> sorted_wrt (apart gap) m \<and>
     fst ` set m \<subseteq> fst ` set ivs \<and> snd ` set m \<subseteq> snd ` set ivs \<and>
     covers m ivs \<and> list_all (near_seen gap ivs) m"

lemma total_seconds_le_mono:
  "a \<le> b \<Longrightarrow> total_seconds b \<le> g \<Longrightarrow> total_seconds a \<le> g"
  using total_seconds_mono order_trans by blast

lemma near_seen_more: "near_seen gap ivs w \<Longrightarrow> near_seen gap (ivs @ [iv]) w"
  by (auto simp: near_seen_def)

lemma near_seen_self: "0 \<le> gap \<Longrightarrow> near_seen gap (ivs @ [iv]) iv"
  using total_seconds_le_mono [of _ 0 gap] by (auto simp: near_seen_def)

lemma near_seen_extend:
  assumes ok: "merged_ok gap ivs (m @ [w])" and g: "0 \<le> gap" and near: "\<not> apart gap w iv"
  shows "near_seen gap (ivs @ [iv]) (fst w, max (snd w) (snd iv))"
  unfolding near_seen_def
proof (intro allI impI)
  fix t assume t: "fst (fst w, max (snd w) (snd iv)) \<le> t \<and> t \<le> snd (fst w, max (snd w) (snd iv))"
  consider "t \<le> snd w" | "snd w < t" "fst iv \<le> t" | "snd w < t" "t < fst iv" by linarith
  then show "\<exists>x \<in> set (ivs @ [iv]). fst x \<le> t \<and> total_seconds (t - snd x) \<le> gap"
  proof cases
    case 1
    then show ?thesis using ok t by (auto simp: merged_ok_def near_seen_def)
  next
    case 2
    then have "t - snd iv \<le> 0" using t by (simp add: max_def split: if_splits)
    then have "total_seconds (t - snd iv) \<le> gap"
      by (rule total_seconds_le_mono) (simp add: g)
    with 2 show ?thesis by auto
  next
    case 3
    have "snd w \<in> snd ` set ivs" using ok by (simp add: merged_ok_def)
    then obtain x where x: "x \<in> set ivs" "snd x = snd w" by auto
    then have "fst x \<le> t" using ok 3 by (auto simp: merged_ok_def list_all_iff proper_def)
    moreover have "total_seconds (t - snd x) \<le> gap"
      by (rule total_seconds_le_mono [of _ "fst iv - snd w"]) (use near 3 x in \<open>simp_all add: apart_def\<close>)
    ultimately show ?thesis using x by auto
  qed
qed

lemma apart_trans_proper:
  assumes "0 \<le> gap" and "apart gap u v" and "proper v" and "apart gap v w"
  shows "apart gap u w"
proof -
  have "0 < total_seconds (fst v - snd u)" using assms by (simp add: apart_def)
  then have "snd u \<le> fst v" using total_seconds_le_mono [of "fst v - snd u" 0 0] by fastforce
  then have "total_seconds (fst w - snd v) \<le> total_seconds (fst w - snd u)"
    using assms(3) by (simp add: proper_def)
  with assms(4) show ?thesis unfolding apart_def by (rule less_le_trans)
qed

lemma merged_ok_open:
  assumes ok: "merged_ok gap ivs m" and iv: "proper iv" and g: "0 \<le> gap"
    and away: "m \<noteq> [] \<Longrightarrow> apart gap (last m) iv"
  shows "merged_ok gap (ivs @ [iv]) (m @ [iv])"
proof -
  have "\<forall>w \<in> set m. apart gap w iv"
  proof (cases m rule: rev_cases)
    case (snoc u w)
    then show ?thesis
      using ok away iv g by (auto simp: merged_ok_def sorted_wrt_append intro: apart_trans_proper)
  qed simp
  then show ?thesis
    using ok iv near_seen_self [OF g]
    by (auto simp: merged_ok_def sorted_wrt_append covers_def list_all_iff near_seen_more)
qed

lemma covers_extend:
  "covers (m @ [w]) ivs \<Longrightarrow> fst w \<le> fst iv \<Longrightarrow>
   covers (m @ [(fst w, max (snd w) (snd iv))]) (ivs @ [iv])"
  by (simp add: covers_def) (metis max.coboundedI1)

lemma apart_extend:
  "sorted_wrt (apart gap) (m @ [w]) \<Longrightarrow> sorted_wrt (apart gap) (m @ [(fst w, e)])"
  by (simp add: sorted_wrt_append apart_def)

lemma merged_ok_extend:
  assumes ok: "merged_ok gap ivs (m @ [w])" and iv: "proper iv" and g: "0 \<le> gap"
    and near: "\<not> apart gap w iv" and order: "fst w \<le> fst iv"
  shows "merged_ok gap (ivs @ [iv]) (m @ [(fst w, max (snd w) (snd iv))])"
proof -
  have o: "list_all proper ivs" "list_all proper m" "proper w" "sorted_wrt (apart gap) (m @ [w])"
    "fst ` set m \<subseteq> fst ` set ivs" "fst w \<in> fst ` set ivs"
    "snd ` set m \<subseteq> snd ` set ivs" "snd w \<in> snd ` set ivs"
    "covers (m @ [w]) ivs" "list_all (near_seen gap ivs) m"
    using ok by (simp_all add: merged_ok_def)
  have "list_all (near_seen gap (ivs @ [iv])) m"
    using o(10) by (rule list.pred_mono_strong) (rule near_seen_more)
  moreover have "proper (fst w, max (snd w) (snd iv))"
    using o(3) by (simp add: proper_def le_max_iff_disj)
  moreover have "max (snd w) (snd iv) \<in> insert (snd iv) (snd ` set ivs)"
    using o(8) by (simp add: max_def)
  ultimately show ?thesis
    unfolding merged_ok_def
    using o iv near_seen_extend [OF ok g near] covers_extend [OF o(9) order] apart_extend [OF o(4)]
    by (simp add: subset_insertI2)
qed

lemma merged_ok_scan:
  assumes "sorted (map fst ivs)" and "list_all proper ivs" and "0 \<le> gap"
  shows "merged_ok gap ivs (foldl (merge_step gap) [] ivs)"
  using assms
proof (induction ivs rule: rev_induct)
  case Nil
  show ?case by (simp add: merged_ok_def covers_def)
next
  case (snoc iv ivs)
  define m where "m = foldl (merge_step gap) [] ivs"
  have ok: "merged_ok gap ivs m" and iv: "proper iv"
    using snoc by (simp_all add: m_def sorted_append)
  show ?case
  proof (cases m rule: rev_cases)
    case Nil
    then show ?thesis
      using merged_ok_open [OF ok iv \<open>0 \<le> gap\<close>] iv by (simp add: m_def [symmetric] merge_step_Nil)
  next
    case (snoc u w)
    have "fst w \<in> fst ` set ivs" using ok snoc by (simp add: merged_ok_def)
    then have "fst w \<le> fst iv" using snoc.prems(1) by (auto simp: sorted_append)
    then show ?thesis
      using merged_ok_open [OF ok iv \<open>0 \<le> gap\<close>]
        merged_ok_extend [of gap ivs u w iv] ok iv \<open>0 \<le> gap\<close> snoc
      by (auto simp: m_def [symmetric] merge_step_snoc)
  qed
qed

lemma merged_ok_merge:
  assumes "list_all proper ivs" and "0 \<le> gap"
  shows "merged_ok gap (sort_key fst ivs) (merge_intervals ivs gap)"
  unfolding merge_intervals_def
  using assms by (intro merged_ok_scan) (simp_all add: list_all_iff)

lemma merge_scan_apart:
  "list_all proper ws \<Longrightarrow> sorted_wrt (apart gap) ws \<Longrightarrow> foldl (merge_step gap) [] ws = ws"
proof (induction ws rule: rev_induct)
  case (snoc w ws)
  then show ?case
    by (cases ws rule: rev_cases) (auto simp: sorted_wrt_append merge_step_Nil merge_step_snoc)
qed simp

lemma apart_sorted_fst:
  assumes "list_all proper ws" and "sorted_wrt (apart gap) ws" and "0 \<le> gap"
  shows "sorted (map fst ws)"
proof -
  have "sorted_wrt (\<lambda>p q. fst p \<le> fst q) ws"
  proof (rule sorted_wrt_mono_rel [OF _ assms(2)])
    fix p q assume "p \<in> set ws" and "q \<in> set ws" and a: "apart gap p q"
    then have "proper p" using assms(1) by (simp add: list_all_iff)
    moreover have "\<not> total_seconds (fst q - snd p) \<le> 0" using a assms(3) by (simp add: apart_def)
    then have "snd p \<le> fst q" using total_seconds_le_mono [of "fst q - snd p" 0 0] by fastforce
    ultimately show "fst p \<le> fst q" by (simp add: proper_def)
  qed
  then show ?thesis by (simp add: sorted_map)
qed

text \<open>
  The presence windows of a stream of intervals are proper, in order and more than
  \<open>gap\<close> seconds apart; every interval lies in a window; window ends are ends of intervals;
  no moment of a window is further than \<open>gap\<close> after a sighting; and merging is stable.
\<close>

theorem merge_intervals_correct:
  assumes "list_all proper ivs" and "0 \<le> gap"
  shows "list_all proper (merge_intervals ivs gap) \<and>
    sorted_wrt (apart gap) (merge_intervals ivs gap) \<and>
    covers (merge_intervals ivs gap) ivs \<and>
    fst ` set (merge_intervals ivs gap) \<subseteq> fst ` set ivs \<and>
    snd ` set (merge_intervals ivs gap) \<subseteq> snd ` set ivs \<and>
    list_all (near_seen gap ivs) (merge_intervals ivs gap) \<and>
    merge_intervals (merge_intervals ivs gap) gap = merge_intervals ivs gap"
proof -
  have m: "merged_ok gap (sort_key fst ivs) (merge_intervals ivs gap)"
    using assms by (rule merged_ok_merge)
  then have p: "list_all proper (merge_intervals ivs gap)"
    and a: "sorted_wrt (apart gap) (merge_intervals ivs gap)"
    by (simp_all add: merged_ok_def)
  have "sort_key fst (merge_intervals ivs gap) = merge_intervals ivs gap"
    using apart_sorted_fst [OF p a assms(2)] by (simp add: sorted_sort_id sort_key_id_if_sorted)
  then have "merge_intervals (merge_intervals ivs gap) gap = merge_intervals ivs gap"
    using merge_scan_apart [OF p a] by (simp add: merge_intervals_def [of "merge_intervals ivs gap"])
  moreover have "near_seen gap (sort_key fst ivs) = near_seen gap ivs"
    by (intro ext) (simp add: near_seen_def)
  moreover have "covers (merge_intervals ivs gap) ivs"
    using m by (simp add: merged_ok_def covers_def)
  ultimately show ?thesis using m p a by (simp add: merged_ok_def)
qed

theorem merge_intervals_correct_witness:
  "merge_intervals [(9000000, 10000000), (0, 1000000), (2000000, 4000000)] 2
     = [(0, 4000000), (9000000, 10000000)] \<and>
   sorted_wrt (apart 2) (merge_intervals [(9000000, 10000000), (0, 1000000), (2000000, 4000000)] 2)"
  using merge_intervals_correct [of "[(9000000, 10000000), (0, 1000000), (2000000, 4000000)]" 2]
  by (simp add: proper_def merge_intervals_def merge_step_def total_seconds_def)

section \<open>Tracks\<close>

text \<open>Sightings that follow each other closely make one presence window.\<close>

lemma merge_points_run:
  assumes "sorted (t # ts)"
    and "\<forall>i < length ts. total_seconds (ts ! i - (t # ts) ! i) \<le> gap"
  shows "foldl (merge_step gap) (m @ [(a, t)]) (map (\<lambda>t. (t, t)) ts) = m @ [(a, last (t # ts))]"
  using assms
proof (induction ts arbitrary: t)
  case (Cons u ts)
  have near: "total_seconds (u - t) \<le> gap" and "t \<le> u"
    using Cons.prems(1) Cons.prems(2) [rule_format, of 0] by auto
  moreover have "\<forall>i < length ts. total_seconds (ts ! i - (u # ts) ! i) \<le> gap"
  proof (intro allI impI)
    fix i assume "i < length ts"
    then show "total_seconds (ts ! i - (u # ts) ! i) \<le> gap"
      using Cons.prems(2) [rule_format, of "Suc i"] by simp
  qed
  ultimately show ?case
    using Cons.IH [of u] Cons.prems
    by (simp add: merge_step_snoc proper_def apart_def max_def)
qed simp

text \<open>
  A person seen at times no more than the gap apart is one presence window, however
  many sightings there are; with no sighting the window is the track's own extent.
\<close>

theorem aggregate_track_one_window:
  assumes "sorted (t # ts)" and "\<forall>i < length ts. total_seconds (ts ! i - (t # ts) ! i) \<le> gap"
    and "first \<le> final"
  shows "aggregate_track first final (t # ts) gap = [(t, last (t # ts))] \<and>
         aggregate_track first final [] gap = [(first, final)]"
proof -
  have "map fst (map (\<lambda>t. (t, t)) (t # ts)) = t # ts" by (simp add: o_def)
  then have "sort_key fst (map (\<lambda>t. (t, t)) (t # ts)) = map (\<lambda>t. (t, t)) (t # ts)"
    using assms(1) by (metis sort_key_id_if_sorted)
  then have "aggregate_track first final (t # ts) gap = foldl (merge_step gap) [(t, t)] (map (\<lambda>t. (t, t)) ts)"
    by (simp add: aggregate_track_def merge_intervals_def merge_step_Nil proper_def)
  then show ?thesis
    using merge_points_run [of t ts gap "[]" t] assms
    by (simp add: aggregate_track_def merge_intervals_def merge_step_Nil proper_def)
qed

theorem aggregate_track_one_window_witness:
  "aggregate_track 0 5000000 [1000000, 2000000, 4000000] 3 = [(1000000, 4000000)]"
  using aggregate_track_one_window [of 1000000 "[2000000, 4000000]" 3 0 5000000]
  by (simp add: total_seconds_def less_Suc_eq)

section \<open>Timestamps\<close>

text \<open>
  A \<open>datetime\<close> is a wall clock reading in microseconds, with a UTC offset unless it is
  naive. \<open>to_utc\<close> gives the reading at offset zero; the rest of the model works on it.
\<close>

datatype datetime_val = Naive int | Aware int int

definition to_utc :: "datetime_val \<Rightarrow> datetime_val" where
  "to_utc d = (case d of Naive w \<Rightarrow> Aware w 0 | Aware w off \<Rightarrow> Aware (w - off) 0)"

definition overlaps :: "timestamp \<Rightarrow> timestamp \<Rightarrow> timestamp \<Rightarrow> timestamp \<Rightarrow> bool" where
  "overlaps a_start a_end b_start b_end \<longleftrightarrow> a_start \<le> b_end \<and> b_start \<le> a_end"

lemma to_utc_idem [simp]: "to_utc (to_utc d) = to_utc d"
  by (simp add: to_utc_def split: datetime_val.split)

lemma overlaps_common_moment:
  assumes "a \<le> b" and "c \<le> d"
  shows "overlaps a b c d \<longleftrightarrow> (\<exists>t. a \<le> t \<and> t \<le> b \<and> c \<le> t \<and> t \<le> d)"
proof
  assume "overlaps a b c d"
  then show "\<exists>t. a \<le> t \<and> t \<le> b \<and> c \<le> t \<and> t \<le> d"
    using assms by (intro exI [of _ "max a c"]) (auto simp: overlaps_def)
qed (auto simp: overlaps_def)

end
