(* ===== verification/Geometry.thy ===== *)
theory Geometry
  imports Prelude
begin

text \<open>
  The pure geometry of the program. From \<open>packages/ai/rules.py\<close>: the ray-casting zone
  test, the proper-crossing test for tripwires and the crossing direction. From
  \<open>packages/ai/tracker.py\<close>, \<open>packages/ai/detectors.py\<close> and \<open>packages/ai/face_onnx.py\<close>: the
  three intersection-over-union measures. From \<open>packages/ai/pipeline.py\<close>: the covered
  fraction of a box. Boxes are \<open>(x, y, w, h)\<close> with the origin top left.
\<close>

section \<open>Definitions\<close>

fun pip_scan :: "point \<Rightarrow> point \<Rightarrow> point list \<Rightarrow> bool \<Rightarrow> bool" where
  \<comment> \<open>the loop body of \<open>point_in_polygon\<close>: \<open>(xj, yj)\<close> is the previous vertex\<close>
  "pip_scan (x, y) (xj, yj) [] inside = inside"
| "pip_scan (x, y) (xj, yj) ((xi, yi) # vs) inside =
     (let intersect = ((yi > y) \<noteq> (yj > y)) \<and> x < (xj - xi) * (y - yi) / (yj - yi) + xi
      in pip_scan (x, y) (xi, yi) vs (if intersect then \<not> inside else inside))"

definition point_in_polygon :: "point \<Rightarrow> point list \<Rightarrow> bool" where
  "point_in_polygon pt poly =
     (if length poly < 3 then False else pip_scan pt (last poly) poly False)"

definition orient :: "point \<Rightarrow> point \<Rightarrow> point \<Rightarrow> real" where
  "orient a b c = (fst b - fst a) * (snd c - snd a) - (snd b - snd a) * (fst c - fst a)"

definition segments_intersect :: "point \<Rightarrow> point \<Rightarrow> point \<Rightarrow> point \<Rightarrow> bool" where
  "segments_intersect p1 p2 p3 p4 =
     (let d1 = orient p3 p4 p1; d2 = orient p3 p4 p2;
          d3 = orient p1 p2 p3; d4 = orient p1 p2 p4
      in ((d1 > 0) \<noteq> (d2 > 0)) \<and> ((d3 > 0) \<noteq> (d4 > 0)))"

definition crossing_direction :: "point \<Rightarrow> point \<Rightarrow> point \<Rightarrow> point \<Rightarrow> real" where
  "crossing_direction prev cur line_a line_b =
     (let side_prev = (fst line_b - fst line_a) * (snd prev - snd line_a)
                      - (snd line_b - snd line_a) * (fst prev - fst line_a);
          side_cur = (fst line_b - fst line_a) * (snd cur - snd line_a)
                     - (snd line_b - snd line_a) * (fst cur - fst line_a)
      in if side_prev = 0 \<and> side_cur = 0 then 0
         else if side_cur > side_prev then 1 else -1)"

definition center :: "bbox \<Rightarrow> point" where
  \<comment> \<open>\<open>RuleEngine._center\<close>, and \<open>_center\<close> of the tracker\<close>
  "center b = (case b of (x, y, w, h) \<Rightarrow> (x + w / 2, y + h / 2))"

definition tracker_center :: "bbox \<Rightarrow> point" where
  "tracker_center b = (case b of (x, y, w, h) \<Rightarrow> (x + w / 2, y + h / 2))"

definition tracker_iou :: "bbox \<Rightarrow> bbox \<Rightarrow> real" where
  "tracker_iou a b = (case (a, b) of ((ax, ay, aw, ah), (bx, by', bw, bh)) \<Rightarrow>
     (let ix = max 0 (min (ax + aw) (bx + bw) - max ax bx);
          iy = max 0 (min (ay + ah) (by' + bh) - max ay by');
          inter = ix * iy;
          union = aw * ah + bw * bh - inter
      in if union > 0 then inter / union else 0))"

definition iou :: "bbox \<Rightarrow> bbox \<Rightarrow> real" where
  "iou a b = (case (a, b) of ((ax, ay, aw, ah), (bx, by', bw, bh)) \<Rightarrow>
     (let ix = max 0 (min (ax + aw) (bx + bw) - max ax bx);
          iy = max 0 (min (ay + ah) (by' + bh) - max ay by');
          inter = ix * iy;
          union = aw * ah + bw * bh - inter
      in if union > 0 then inter / union else 0))"

definition scrfd_iou :: "bbox \<Rightarrow> bbox \<Rightarrow> real" where
  "scrfd_iou a b = (case (a, b) of ((ax, ay, aw, ah), (bx, by', bw, bh)) \<Rightarrow>
     (let x1 = max ax bx; y1 = max ay by';
          x2 = min (ax + aw) (bx + bw); y2 = min (ay + ah) (by' + bh);
          inter = max 0 (x2 - x1) * max 0 (y2 - y1);
          union = aw * ah + bw * bh - inter
      in if union \<noteq> 0 then inter / union else 0))"

definition bbox_overlap_fraction :: "bbox \<Rightarrow> bbox \<Rightarrow> real" where
  "bbox_overlap_fraction box msk = (case (box, msk) of ((bx, by', bw, bh), (mx, my, mw, mh)) \<Rightarrow>
     (let ix = max 0 (min (bx + bw) (mx + mw) - max bx mx);
          iy = max 0 (min (by' + bh) (my + mh) - max by' my);
          area = bw * bh
      in if area > 0 then ix * iy / area else 0))"

definition valid_box :: "bbox \<Rightarrow> bool" where
  "valid_box b = (case b of (_, _, w, h) \<Rightarrow> 0 \<le> w \<and> 0 \<le> h)"

definition box_area :: "bbox \<Rightarrow> real" where
  "box_area b = (case b of (_, _, w, h) \<Rightarrow> w * h)"

section \<open>Overlap measures\<close>

text \<open>The part two intervals share is no longer than either.\<close>

definition shared_len :: "real \<Rightarrow> real \<Rightarrow> real \<Rightarrow> real \<Rightarrow> real" where
  "shared_len a w b v = max 0 (min (a + w) (b + v) - max a b)"

definition shared_area :: "bbox \<Rightarrow> bbox \<Rightarrow> real" where
  "shared_area p q = (case (p, q) of ((ax, ay, aw, ah), (bx, by', bw, bh)) \<Rightarrow>
     shared_len ax aw bx bw * shared_len ay ah by' bh)"

lemma shared_len_nonneg [simp]: "0 \<le> shared_len a w b v"
  by (simp add: shared_len_def)

lemma shared_len_sym: "shared_len a w b v = shared_len b v a w"
  by (simp add: shared_len_def min.commute max.commute)

lemma shared_len_le: "0 \<le> w \<Longrightarrow> shared_len a w b v \<le> w"
  by (simp add: shared_len_def min_def max_def)

lemma shared_len_self [simp]: "0 \<le> w \<Longrightarrow> shared_len a w a w = w"
  by (simp add: shared_len_def)

lemma shared_area_nonneg [simp]: "0 \<le> shared_area p q"
  by (cases p, cases q) (simp add: shared_area_def)

lemma shared_area_sym: "shared_area p q = shared_area q p"
  by (cases p, cases q) (simp add: shared_area_def shared_len_sym)

lemma shared_area_le: "valid_box p \<Longrightarrow> shared_area p q \<le> box_area p"
  by (cases p, cases q)
     (simp add: shared_area_def box_area_def valid_box_def mult_mono shared_len_le)

lemma shared_area_self: "valid_box p \<Longrightarrow> shared_area p p = box_area p"
  by (cases p) (simp add: shared_area_def box_area_def valid_box_def)

lemma iou_area:
  "iou p q = (let i = shared_area p q; u = box_area p + box_area q - i in if u > 0 then i / u else 0)"
  by (cases p, cases q) (simp only: iou_def shared_area_def box_area_def shared_len_def prod.case Let_def)

lemma scrfd_iou_area:
  "scrfd_iou p q = (let i = shared_area p q; u = box_area p + box_area q - i in if u \<noteq> 0 then i / u else 0)"
  by (cases p, cases q)
     (simp only: scrfd_iou_def shared_area_def box_area_def shared_len_def prod.case Let_def)

lemma bbox_overlap_fraction_area:
  "bbox_overlap_fraction p q = (if box_area p > 0 then shared_area p q / box_area p else 0)"
  by (cases p, cases q)
     (simp only: bbox_overlap_fraction_def shared_area_def box_area_def shared_len_def prod.case Let_def)

text \<open>
  What non-maximum suppression and association need of a measure: it is symmetric, and
  on boxes with non-negative sides it is a fraction.
\<close>

locale overlap_measure =
  fixes ov :: "bbox \<Rightarrow> bbox \<Rightarrow> real"
  assumes ov_sym: "ov a b = ov b a"
    and ov_nonneg: "valid_box a \<Longrightarrow> valid_box b \<Longrightarrow> 0 \<le> ov a b"
    and ov_le_one: "valid_box a \<Longrightarrow> valid_box b \<Longrightarrow> ov a b \<le> 1"
    and ov_self: "valid_box a \<Longrightarrow> 0 < box_area a \<Longrightarrow> ov a a = 1"
begin

lemma ov_fraction: "valid_box a \<Longrightarrow> valid_box b \<Longrightarrow> ov a b \<in> {0..1}"
  by (simp add: ov_nonneg ov_le_one)

lemma ov_above_one_never: "valid_box a \<Longrightarrow> valid_box b \<Longrightarrow> 1 < t \<Longrightarrow> \<not> t \<le> ov a b"
  using ov_le_one [of a b] by simp

end

lemma tracker_iou_eq_iou: "tracker_iou = iou"
  by (intro ext) (simp only: tracker_iou_def iou_def)

lemma iou_sym: "iou p q = iou q p"
  by (simp add: iou_area shared_area_sym [of p q] add.commute)

lemma union_ge_shared:
  assumes "valid_box p" and "valid_box q"
  shows "shared_area p q \<le> box_area p + box_area q - shared_area p q"
  using shared_area_le [OF assms(1), of q] shared_area_le [OF assms(2), of p]
  by (simp add: shared_area_sym [of q p])

lemma iou_fraction: "valid_box p \<Longrightarrow> valid_box q \<Longrightarrow> 0 \<le> iou p q \<and> iou p q \<le> 1"
  using union_ge_shared [of p q] by (simp add: iou_area Let_def divide_le_eq)

lemma iou_self: "valid_box p \<Longrightarrow> 0 < box_area p \<Longrightarrow> iou p p = 1"
  by (simp add: iou_area shared_area_self)

lemma scrfd_iou_eq_iou:
  assumes "valid_box p" and "valid_box q"
  shows "scrfd_iou p q = iou p q"
proof -
  have "0 \<le> box_area p + box_area q - shared_area p q"
    using union_ge_shared [OF assms] shared_area_nonneg [of p q] by linarith
  then show ?thesis by (simp add: iou_area scrfd_iou_area Let_def)
qed

interpretation detector_overlap: overlap_measure iou
  by unfold_locales (simp_all add: iou_sym iou_fraction iou_self)

interpretation tracker_overlap: overlap_measure tracker_iou
  unfolding tracker_iou_eq_iou by (rule detector_overlap.overlap_measure_axioms)

interpretation scrfd_overlap: overlap_measure scrfd_iou
proof unfold_locales
  show "scrfd_iou p q = scrfd_iou q p" for p q
    by (simp add: scrfd_iou_area shared_area_sym [of p q] add.commute)
qed (simp_all add: scrfd_iou_eq_iou iou_fraction iou_self)

lemma bbox_overlap_fraction_bounds:
  "valid_box p \<Longrightarrow> 0 \<le> bbox_overlap_fraction p q \<and> bbox_overlap_fraction p q \<le> 1"
  using shared_area_le [of p q] by (simp add: bbox_overlap_fraction_area divide_le_eq)
section \<open>Zones\<close>

text \<open>The crossing of an edge with the horizontal line through the point lies on the edge.\<close>

lemma edge_crossing_between:
  fixes xi xj yi yj y :: real
  assumes "(yi > y) \<noteq> (yj > y)"
  shows "min xj xi \<le> (xj - xi) * (y - yi) / (yj - yi) + xi"
    and "(xj - xi) * (y - yi) / (yj - yi) + xi \<le> max xj xi"
proof -
  define t where "t = (y - yi) / (yj - yi)"
  have t: "0 \<le> t" "0 \<le> 1 - t"
    using assms by (auto simp: t_def zero_le_divide_iff divide_le_eq)
  have "(xj - xi) * (y - yi) / (yj - yi) = (xj - xi) * t"
    by (simp add: t_def)
  then have c: "(xj - xi) * (y - yi) / (yj - yi) + xi = t * xj + (1 - t) * xi"
    by (simp only:) (simp add: algebra_simps)
  have lo: "min xj xi = t * min xj xi + (1 - t) * min xj xi"
    and hi: "max xj xi = t * max xj xi + (1 - t) * max xj xi"
    by (simp_all add: algebra_simps)
  show "min xj xi \<le> (xj - xi) * (y - yi) / (yj - yi) + xi"
    unfolding c by (subst lo) (intro add_mono mult_left_mono t; simp)
  show "(xj - xi) * (y - yi) / (yj - yi) + xi \<le> max xj xi"
    unfolding c by (subst hi) (intro add_mono mult_left_mono t; simp)
qed

text \<open>
  Scanning toggles at an edge only if the edge straddles the horizontal line through the
  point. A point with no vertex strictly to its right on that line meets no edge.
\<close>

lemma pip_scan_right_of:
  assumes "xj \<le> x" and "\<forall>v \<in> set vs. fst v \<le> x"
  shows "pip_scan (x, y) (xj, yj) vs inside = inside"
  using assms
proof (induction vs arbitrary: xj yj inside)
  case Nil
  show ?case by simp
next
  case (Cons v vs)
  obtain xi yi where v: "v = (xi, yi)" by (cases v)
  have "\<not> x < (xj - xi) * (y - yi) / (yj - yi) + xi" if "(yi > y) \<noteq> (yj > y)"
    using edge_crossing_between(2) [OF that, of xj xi] Cons.prems v by auto
  with Cons v show ?case by (auto simp: Let_def)
qed

lemma pip_scan_same_side:
  assumes "(yj > y) = b" and "\<forall>v \<in> set vs. (snd v > y) = b"
  shows "pip_scan (x, y) (xj, yj) vs inside = inside"
  using assms by (induction vs arbitrary: xj yj inside) auto

text \<open>
  Left of every vertex, each straddling edge toggles, so the answer is the parity of the
  changes of side along the closed polygon, which is even.
\<close>

lemma pip_scan_left_of:
  assumes "x < xj" and "\<forall>v \<in> set vs. x < fst v"
  shows "pip_scan (x, y) (xj, yj) vs inside =
    (inside \<noteq> ((yj > y) \<noteq> (snd (last ((xj, yj) # vs)) > y)))"
  using assms
proof (induction vs arbitrary: xj yj inside)
  case Nil
  show ?case by simp
next
  case (Cons v vs)
  obtain xi yi where v: "v = (xi, yi)" by (cases v)
  have "x < (xj - xi) * (y - yi) / (yj - yi) + xi" if "(yi > y) \<noteq> (yj > y)"
    using edge_crossing_between(1) [OF that, of xj xi] Cons.prems v by auto
  then have "pip_scan (x, y) (xj, yj) (v # vs) inside =
      pip_scan (x, y) (xi, yi) vs (inside \<noteq> ((yi > y) \<noteq> (yj > y)))"
    by (cases "(yi > y) \<noteq> (yj > y)") (simp_all add: v Let_def)
  then show ?case using Cons v by auto
qed

text \<open>A point in a zone lies within the zone's bounding box: no alarm fires outside it.\<close>

lemma point_in_polygon_bounded:
  assumes "point_in_polygon (x, y) poly"
  shows "(\<exists>v \<in> set poly. fst v \<le> x) \<and> (\<exists>v \<in> set poly. x < fst v) \<and>
         (\<exists>v \<in> set poly. snd v \<le> y) \<and> (\<exists>v \<in> set poly. y < snd v)"
proof -
  obtain xl yl where l: "last poly = (xl, yl)" by (cases "last poly")
  from assms have ne: "poly \<noteq> []" and scan: "pip_scan (x, y) (xl, yl) poly False"
    by (auto simp: point_in_polygon_def l split: if_splits)
  then have lin: "(xl, yl) \<in> set poly" using l last_in_set by metis
  show ?thesis
  proof (intro conjI; rule ccontr)
    assume "\<not> (\<exists>v \<in> set poly. fst v \<le> x)"
    then show False using pip_scan_left_of [of x xl poly y yl False] scan lin l ne by force
  next
    assume "\<not> (\<exists>v \<in> set poly. x < fst v)"
    then show False using pip_scan_right_of [of xl x poly y yl False] scan lin by force
  next
    assume "\<not> (\<exists>v \<in> set poly. snd v \<le> y)"
    then show False using pip_scan_same_side [of y yl True poly x xl False] scan lin by force
  next
    assume "\<not> (\<exists>v \<in> set poly. y < snd v)"
    then show False using pip_scan_same_side [of y yl False poly x xl False] scan lin by force
  qed
qed

text \<open>On an axis-parallel rectangle the test is membership in the half-open rectangle.\<close>

lemma point_in_rectangle:
  assumes "x0 < x1" and "y0 < y1"
  shows "point_in_polygon (x, y) [(x0, y0), (x1, y0), (x1, y1), (x0, y1)] \<longleftrightarrow>
         x0 \<le> x \<and> x < x1 \<and> y0 \<le> y \<and> y < y1"
  using assms by (simp add: point_in_polygon_def Let_def) linarith

section \<open>Tripwires\<close>

definition on_segment :: "point \<Rightarrow> point \<Rightarrow> point \<Rightarrow> bool" where
  "on_segment a b p \<longleftrightarrow>
     (\<exists>t. 0 \<le> t \<and> t \<le> 1 \<and> p = (fst a + t * (fst b - fst a), snd a + t * (snd b - snd a)))"

lemma orient_side_parameter:
  assumes "((d1::real) > 0) \<noteq> (d2 > 0)"
  shows "d1 \<noteq> d2" "0 \<le> d1 / (d1 - d2)" "d1 / (d1 - d2) \<le> 1"
  using assms by (auto simp: zero_le_divide_iff divide_le_eq)

text \<open>
  Soundness of the tripwire test: if it fires, the path from the previous to the current
  centre and the wire have a common point.
\<close>

lemma segments_intersect_common_point:
  assumes "segments_intersect p1 p2 p3 p4"
  shows "\<exists>p. on_segment p1 p2 p \<and> on_segment p3 p4 p"
proof -
  obtain x1 y1 x2 y2 x3 y3 x4 y4 where
    p: "p1 = (x1, y1)" "p2 = (x2, y2)" "p3 = (x3, y3)" "p4 = (x4, y4)"
    by (cases p1, cases p2, cases p3, cases p4) auto
  define d1 d2 d3 d4 where d: "d1 = orient p3 p4 p1" "d2 = orient p3 p4 p2"
    "d3 = orient p1 p2 p3" "d4 = orient p1 p2 p4"
  have s: "(d1 > 0) \<noteq> (d2 > 0)" "(d3 > 0) \<noteq> (d4 > 0)"
    using assms by (auto simp: segments_intersect_def Let_def d)
  define t u where tu: "t = d1 / (d1 - d2)" "u = d3 / (d3 - d4)"
  note bounds = orient_side_parameter [OF s(1)] orient_side_parameter [OF s(2)]
  have eqs: "d1 = (x4 - x3) * (y1 - y3) - (y4 - y3) * (x1 - x3)"
    "d2 = (x4 - x3) * (y2 - y3) - (y4 - y3) * (x2 - x3)"
    "d3 = (x2 - x1) * (y3 - y1) - (y2 - y1) * (x3 - x1)"
    "d4 = (x2 - x1) * (y4 - y1) - (y2 - y1) * (x4 - x1)"
    by (simp_all add: d p orient_def)
  have D: "d3 - d4 = - (d1 - d2)" by (simp add: eqs algebra_simps)
  have nz: "d1 - d2 \<noteq> 0" using bounds(1) by simp
  have X: "d1 * (x2 - x1) + d3 * (x4 - x3) = (x3 - x1) * (d1 - d2)"
    by (simp add: eqs algebra_simps)
  have Y: "d1 * (y2 - y1) + d3 * (y4 - y3) = (y3 - y1) * (d1 - d2)"
    by (simp add: eqs algebra_simps)
  have u: "u = - (d3 / (d1 - d2))" unfolding tu D by (rule divide_minus_right)
  have "x1 + t * (x2 - x1) = x3 + u * (x4 - x3)"
    using X nz by (simp add: tu(1) u field_simps)
  moreover have "y1 + t * (y2 - y1) = y3 + u * (y4 - y3)"
    using Y nz by (simp add: tu(1) u field_simps)
  ultimately show ?thesis
    unfolding on_segment_def p using bounds tu by (intro exI [of _ "(x1 + t * (x2 - x1), y1 + t * (y2 - y1))"]) auto
qed

lemma crossing_direction_values: "crossing_direction p q a b \<in> {-1, 0, 1}"
  by (auto simp: crossing_direction_def Let_def)

text \<open>Going back over the wire reverses the reported direction.\<close>

lemma crossing_direction_flip:
  assumes "((orient a b p) > 0) \<noteq> (orient a b q > 0)"
  shows "crossing_direction q p a b = - crossing_direction p q a b"
    and "crossing_direction p q a b = (if orient a b q > 0 then 1 else -1)"
  using assms by (auto simp: crossing_direction_def orient_def Let_def)

end
