(* ===== verification/Tracking.thy ===== *)
theory Tracking
  imports Geometry
begin

text \<open>
  \<open>packages/ai/tracker.py\<close> and the data classes of \<open>packages/ai/interfaces.py\<close>: the
  SORT-style tracker. Its state is the table of live tracks by id and the id counters by
  camera. A missing key of the table is a \<open>KeyError\<close>: the operations return an option.
\<close>

section \<open>State\<close>

record detection =
  d_label :: string
  d_confidence :: real
  d_bbox :: bbox

record track =
  tr_id :: string
  tr_bbox :: bbox
  tr_confidence :: real
  tr_center :: point
  tr_trajectory :: "point list"
  tr_label :: string

record recognition =
  rg_person :: "string option"
  rg_similarity :: "real option"
  rg_status :: string

record track_state =
  st_bbox :: bbox
  st_vel :: bbox
  st_age :: int
  st_label :: string
  st_traj :: "point list"

record tracker =
  tk_iou :: real
  tk_max_age :: int
  tk_vel_smooth :: real
  tk_state :: "(string, track_state) dict"
  tk_counters :: "(string, nat) dict"

definition new_tracker :: "real \<Rightarrow> int \<Rightarrow> real \<Rightarrow> tracker" where
  "new_tracker iou_threshold max_age vel_smooth =
     \<lparr>tk_iou = iou_threshold, tk_max_age = max_age, tk_vel_smooth = vel_smooth,
      tk_state = [], tk_counters = []\<rparr>"

section \<open>Operations\<close>

definition track_name :: "string \<Rightarrow> nat \<Rightarrow> string" where
  "track_name camera_id n = camera_id @ ''-track-'' @ str_nat n"

definition next_id :: "string \<Rightarrow> tracker \<Rightarrow> tracker \<times> string" where
  "next_id camera_id t =
     (let n = (case dict_get (tk_counters t) camera_id of None \<Rightarrow> 0 | Some k \<Rightarrow> k) + 1
      in (t\<lparr>tk_counters := dict_set camera_id n (tk_counters t)\<rparr>, track_name camera_id n))"

definition predict_box :: "track_state \<Rightarrow> bbox" where
  "predict_box st =
     (if st_age st > 0
      then (case (st_bbox st, st_vel st) of ((bx, by', bw, bh), (vx, vy, vw, vh)) \<Rightarrow>
              (bx + vx, by' + vy, max 0 (bw + vw), max 0 (bh + vh)))
      else st_bbox st)"

definition best_match ::
  "string list \<Rightarrow> bbox \<Rightarrow> (string \<times> bbox) list \<Rightarrow> string option \<times> real" where
  \<comment> \<open>the inner loop of \<open>update\<close>: the unused prediction that overlaps most\<close>
  "best_match used b predictions =
     foldl (\<lambda>(best_id, best_iou) (tid, pred).
              if tid \<in> set used then (best_id, best_iou)
              else (let score = tracker_iou b pred in
                    if score > best_iou then (Some tid, score) else (best_id, best_iou)))
       (None, 0) predictions"

definition smooth :: "real \<Rightarrow> real \<Rightarrow> real \<Rightarrow> real \<Rightarrow> real" where
  "smooth s new old v = (new - old) * s + v * (1 - s)"

definition smooth_velocity :: "real \<Rightarrow> bbox \<Rightarrow> bbox \<Rightarrow> bbox \<Rightarrow> bbox" where
  "smooth_velocity s new old vel =
     (case (new, old, vel) of ((n0, n1, n2, n3), (o0, o1, o2, o3), (v0, v1, v2, v3)) \<Rightarrow>
        (smooth s n0 o0 v0, smooth s n1 o1 v1, smooth s n2 o2 v2, smooth s n3 o3 v3))"

definition round_point :: "point \<Rightarrow> point" where
  "round_point p = (round_to 3 (fst p), round_to 3 (snd p))"

definition push_point :: "point \<Rightarrow> point list \<Rightarrow> point list" where
  "push_point p traj =
     (let traj' = traj @ [p] in if length traj' > 20 then tl traj' else traj')"

definition last_n :: "nat \<Rightarrow> 'a list \<Rightarrow> 'a list" where
  \<comment> \<open>\<open>xs[-n:]\<close> for positive n\<close>
  "last_n n xs = drop (length xs - n) xs"

definition matched_state :: "real \<Rightarrow> detection \<Rightarrow> track_state \<Rightarrow> track_state" where
  "matched_state vs det st =
     st\<lparr>st_bbox := d_bbox det,
        st_vel := smooth_velocity vs (d_bbox det) (st_bbox st) (st_vel st),
        st_age := 0,
        st_label := d_label det,
        st_traj := push_point (round_point (tracker_center (d_bbox det))) (st_traj st)\<rparr>"

definition fresh_state :: "detection \<Rightarrow> track_state" where
  "fresh_state det =
     \<lparr>st_bbox = d_bbox det, st_vel = (0, 0, 0, 0), st_age = 0, st_label = d_label det,
      st_traj = [round_point (tracker_center (d_bbox det))]\<rparr>"

definition track_of :: "string \<Rightarrow> detection \<Rightarrow> point list \<Rightarrow> track" where
  "track_of tid det traj =
     \<lparr>tr_id = tid, tr_bbox = d_bbox det, tr_confidence = d_confidence det,
      tr_center = tracker_center (d_bbox det), tr_trajectory = traj, tr_label = d_label det\<rparr>"

definition track_detection ::
  "string \<Rightarrow> (string \<times> bbox) list \<Rightarrow> detection \<Rightarrow> tracker \<times> string list \<Rightarrow>
   (track \<times> tracker \<times> string list) option" where
  \<comment> \<open>the loop body of \<open>update\<close>: extend the matched track, or open a new one\<close>
  "track_detection camera_id predictions det s =
     (let (t, used) = s; (best_id, best_iou) = best_match used (d_bbox det) predictions in
      if best_id \<noteq> None \<and> best_id \<noteq> Some [] \<and> best_iou \<ge> tk_iou t
      then (case dict_get (tk_state t) (the best_id) of
              None \<Rightarrow> None
            | Some st \<Rightarrow>
                (let st' = matched_state (tk_vel_smooth t) det st in
                 Some (track_of (the best_id) det (last_n 20 (st_traj st')),
                       t\<lparr>tk_state := dict_set (the best_id) st' (tk_state t)\<rparr>,
                       the best_id # used)))
      else (let (t', tid) = next_id camera_id t; st = fresh_state det in
            Some (track_of tid det (st_traj st),
                  t'\<lparr>tk_state := dict_set tid st (tk_state t')\<rparr>, used)))"

fun track_detections ::
  "string \<Rightarrow> (string \<times> bbox) list \<Rightarrow> detection list \<Rightarrow> tracker \<times> string list \<Rightarrow>
   (track list \<times> tracker \<times> string list) option" where
  "track_detections camera_id predictions [] s = Some ([], s)"
| "track_detections camera_id predictions (det # dets) s =
     (case track_detection camera_id predictions det s of
        None \<Rightarrow> None
      | Some (tr, s') \<Rightarrow>
          (case track_detections camera_id predictions dets s' of
             None \<Rightarrow> None
           | Some (out, s'') \<Rightarrow> Some (tr # out, s'')))"

fun age_tracks :: "int \<Rightarrow> string list \<Rightarrow> (string, track_state) dict \<Rightarrow> (string, track_state) dict" where
  "age_tracks max_age used [] = []"
| "age_tracks max_age used ((tid, st) # rest) =
     (if tid \<in> set used then (tid, st) # age_tracks max_age used rest
      else (let st' = st\<lparr>st_age := st_age st + 1\<rparr> in
            if st_age st' > max_age then age_tracks max_age used rest
            else (tid, st') # age_tracks max_age used rest))"

definition predictions_of :: "tracker \<Rightarrow> (string \<times> bbox) list" where
  "predictions_of t = map (\<lambda>(tid, st). (tid, predict_box st)) (tk_state t)"

definition tracker_update :: "string \<Rightarrow> detection list \<Rightarrow> tracker \<Rightarrow> (track list \<times> tracker) option" where
  "tracker_update camera_id detections t =
     (case track_detections camera_id (predictions_of t) (sorted_desc d_confidence detections) (t, []) of
        None \<Rightarrow> None
      | Some (out, t', used) \<Rightarrow>
          Some (out, t'\<lparr>tk_state := age_tracks (tk_max_age t') used (tk_state t')\<rparr>))"

section \<open>Track names\<close>

lemma takeWhile_digits_track_name:
  "takeWhile is_digit (rev (track_name c n)) = rev (str_nat n)"
  using str_nat_digits [of n] by (auto simp: track_name_def takeWhile_append is_digit_def)

lemma track_name_inj [simp]: "track_name c m = track_name d n \<longleftrightarrow> c = d \<and> m = n"
proof
  assume e: "track_name c m = track_name d n"
  then have "rev (str_nat m) = rev (str_nat n)"
    using takeWhile_digits_track_name [of c m] takeWhile_digits_track_name [of d n] by simp
  with e show "c = d \<and> m = n" by (simp add: track_name_def)
qed simp

lemma track_name_nonempty [simp]: "track_name c n \<noteq> []"
  by (simp add: track_name_def)

section \<open>Association\<close>

text \<open>The inner loop finds the best unused prediction, and one only if it overlaps at all.\<close>

definition best_ok :: "string list \<Rightarrow> bbox \<Rightarrow> (string \<times> bbox) list \<Rightarrow> string option \<times> real \<Rightarrow> bool" where
  "best_ok used b preds r \<longleftrightarrow>
     (\<forall>(tid, p) \<in> set preds. tid \<notin> set used \<longrightarrow> tracker_iou b p \<le> snd r) \<and>
     (case fst r of
        None \<Rightarrow> snd r = 0
      | Some tid \<Rightarrow> tid \<notin> set used \<and> 0 < snd r \<and> (\<exists>p. (tid, p) \<in> set preds \<and> tracker_iou b p = snd r))"

lemma best_match_snoc:
  "best_match used b (preds @ [(tid, p)]) =
     (if tid \<notin> set used \<and> tracker_iou b p > snd (best_match used b preds)
      then (Some tid, tracker_iou b p) else best_match used b preds)"
  by (simp add: best_match_def Let_def case_prod_unfold)

lemma best_match_ok: "best_ok used b preds (best_match used b preds)"
proof (induction preds rule: rev_induct)
  case Nil
  show ?case by (simp add: best_ok_def best_match_def)
next
  case (snoc x preds)
  obtain tid p where x: "x = (tid, p)" by (cases x)
  show ?case
  proof (cases "tid \<notin> set used \<and> tracker_iou b p > snd (best_match used b preds)")
    case True
    moreover have "0 \<le> snd (best_match used b preds)"
      using snoc by (auto simp: best_ok_def split: option.splits)
    moreover have "tracker_iou b p' \<le> tracker_iou b p"
      if "(tid', p') \<in> set preds" "tid' \<notin> set used" for tid' p'
      using snoc that True by (fastforce simp: best_ok_def)
    ultimately show ?thesis
      by (auto simp: x best_match_snoc best_ok_def simp del: split_paired_Ex split_paired_All)
  next
    case False
    then show ?thesis
      using snoc by (auto simp: x best_match_snoc best_ok_def not_less split: option.splits)
  qed
qed

text \<open>The two ways a detection is tracked.\<close>

lemma track_detection_cases:
  assumes keys: "set (map fst preds) \<subseteq> set (dict_keys (tk_state t))"
    and named: "[] \<notin> set (map fst preds)"
  obtains
    (matched) tid st pred where "(tid, pred) \<in> set preds" "tid \<notin> set used"
      "0 < tracker_iou (d_bbox det) pred" "tk_iou t \<le> tracker_iou (d_bbox det) pred"
      "dict_get (tk_state t) tid = Some st"
      "track_detection cam preds det (t, used) =
         Some (track_of tid det (last_n 20 (st_traj (matched_state (tk_vel_smooth t) det st))),
               t\<lparr>tk_state := dict_set tid (matched_state (tk_vel_smooth t) det st) (tk_state t)\<rparr>,
               tid # used)"
  | (fresh) "\<And>tid pred. (tid, pred) \<in> set preds \<Longrightarrow> tid \<notin> set used \<Longrightarrow>
         tracker_iou (d_bbox det) pred \<le> 0 \<or> tracker_iou (d_bbox det) pred < tk_iou t"
      "track_detection cam preds det (t, used) =
         (let (t', tid) = next_id cam t in
          Some (track_of tid det (st_traj (fresh_state det)),
                t'\<lparr>tk_state := dict_set tid (fresh_state det) (tk_state t')\<rparr>, used))"
proof -
  obtain bid biou where bm: "best_match used (d_bbox det) preds = (bid, biou)"
    by (cases "best_match used (d_bbox det) preds")
  then have ok: "best_ok used (d_bbox det) preds (bid, biou)" by (metis best_match_ok)
  show thesis
  proof (cases "bid \<noteq> None \<and> bid \<noteq> Some [] \<and> biou \<ge> tk_iou t")
    case True
    then obtain tid where tid: "bid = Some tid" by blast
    with ok obtain pred where p: "(tid, pred) \<in> set preds" "tid \<notin> set used"
      "tracker_iou (d_bbox det) pred = biou" "0 < biou"
      by (auto simp: best_ok_def)
    then have "tid \<in> set (map fst preds)" by force
    then have "dict_get (tk_state t) tid \<noteq> None" using keys dict_get_iff_keys by fast
    then obtain st where "dict_get (tk_state t) tid = Some st" by blast
    with p tid True show thesis
      by (intro matched [of tid pred st]) (simp_all add: track_detection_def bm Let_def)
  next
    case False
    show thesis
    proof (rule fresh)
      fix tid pred assume "(tid, pred) \<in> set preds" "tid \<notin> set used"
      then have "tracker_iou (d_bbox det) pred \<le> biou" using ok by (auto simp: best_ok_def)
      moreover have "biou = 0 \<or> biou < tk_iou t"
      proof (cases bid)
        case None
        then show ?thesis using ok by (simp add: best_ok_def)
      next
        case (Some tid')
        then have "tid' \<in> set (map fst preds)" using ok by (force simp: best_ok_def)
        then have "tid' \<noteq> []" using named by metis
        with Some False show ?thesis by auto
      qed
      ultimately show "tracker_iou (d_bbox det) pred \<le> 0 \<or> tracker_iou (d_bbox det) pred < tk_iou t"
        by auto
    qed (simp only: track_detection_def bm if_not_P [OF False] Let_def prod.case)
  qed
qed

section \<open>The tracker's invariant\<close>

definition counter_of :: "tracker \<Rightarrow> string \<Rightarrow> nat" where
  "counter_of t c = (case dict_get (tk_counters t) c of None \<Rightarrow> 0 | Some k \<Rightarrow> k)"

definition issued :: "tracker \<Rightarrow> string \<Rightarrow> bool" where
  \<comment> \<open>an id some camera's counter has passed\<close>
  "issued t tid \<longleftrightarrow> (\<exists>c n. tid = track_name c n \<and> 1 \<le> n \<and> n \<le> counter_of t c)"

definition track_state_ok :: "int \<Rightarrow> track_state \<Rightarrow> bool" where
  "track_state_ok max_age st \<longleftrightarrow>
     0 \<le> st_age st \<and> st_age st \<le> max_age \<and> st_traj st \<noteq> [] \<and> length (st_traj st) \<le> 20"

definition tracker_ok :: "tracker \<Rightarrow> bool" where
  "tracker_ok t \<longleftrightarrow>
     0 \<le> tk_max_age t \<and> dict_ok (tk_state t) \<and>
     (\<forall>tid \<in> set (dict_keys (tk_state t)). issued t tid) \<and>
     (\<forall>(tid, st) \<in> set (tk_state t). track_state_ok (tk_max_age t) st)"

lemma new_tracker_ok: "0 \<le> max_age \<Longrightarrow> tracker_ok (new_tracker iou_thr max_age vs)"
  by (simp add: tracker_ok_def new_tracker_def)

lemma next_id_simps:
  "next_id c t = (t\<lparr>tk_counters := dict_set c (counter_of t c + 1) (tk_counters t)\<rparr>,
                  track_name c (counter_of t c + 1))"
  by (simp add: next_id_def counter_of_def Let_def)

lemma counter_of_next_id [simp]:
  "counter_of (fst (next_id c t)) d = (if d = c then counter_of t c + 1 else counter_of t d)"
  by (simp add: next_id_simps) (simp add: counter_of_def)

lemma issued_next_id: "issued t tid \<Longrightarrow> issued (fst (next_id c t)) tid"
  by (auto simp: issued_def) (metis le_SucI)

lemma issued_fresh: "issued (fst (next_id c t)) (snd (next_id c t))"
  unfolding issued_def by (rule exI [of _ c], rule exI [of _ "counter_of t c + 1"]) (simp add: next_id_simps counter_of_def)

lemma next_id_not_issued: "\<not> issued t (snd (next_id c t))"
  by (simp add: issued_def next_id_simps)

lemma issued_nonempty: "issued t tid \<Longrightarrow> tid \<noteq> []"
  by (auto simp: issued_def)

lemma push_point_bounds:
  "length traj \<le> 20 \<Longrightarrow> push_point p traj \<noteq> [] \<and> length (push_point p traj) \<le> 20"
  by (cases traj) (auto simp: push_point_def Let_def)

lemma last_n_all [simp]: "length xs \<le> n \<Longrightarrow> last_n n xs = xs"
  by (simp add: last_n_def)

lemma matched_state_ok:
  "track_state_ok m st \<Longrightarrow> track_state_ok m (matched_state vs det st)"
  using push_point_bounds by (simp add: track_state_ok_def matched_state_def)

lemma fresh_state_ok: "0 \<le> m \<Longrightarrow> track_state_ok m (fresh_state det)"
  by (simp add: track_state_ok_def fresh_state_def)

lemma issued_state [simp]: "issued (t\<lparr>tk_state := s\<rparr>) tid = issued t tid"
  by (simp add: issued_def counter_of_def)

section \<open>One update\<close>

text \<open>The invariant of the detection loop; \<open>old\<close> are the ids the predictions were made for.\<close>

definition frame_ok :: "string set \<Rightarrow> tracker \<times> string list \<Rightarrow> bool" where
  "frame_ok old s \<longleftrightarrow> tracker_ok (fst s) \<and> old \<subseteq> set (dict_keys (tk_state (fst s))) \<and> set (snd s) \<subseteq> old"

lemma tracker_ok_set:
  assumes "tracker_ok t" and "issued t tid" and "track_state_ok (tk_max_age t) st"
  shows "tracker_ok (t\<lparr>tk_state := dict_set tid st (tk_state t)\<rparr>)"
  using assms dict_ok_set_values [of "tk_state t" "track_state_ok (tk_max_age t)" st tid]
  by (auto simp: tracker_ok_def)

lemma tracker_ok_next_id: "tracker_ok t \<Longrightarrow> tracker_ok (fst (next_id c t))"
  using issued_next_id by (auto simp: tracker_ok_def next_id_simps)

lemma tracker_ok_lookup:
  "tracker_ok t \<Longrightarrow> dict_get (tk_state t) tid = Some st \<Longrightarrow>
   issued t tid \<and> track_state_ok (tk_max_age t) st"
  by (metis (mono_tags, lifting) case_prodD dict_get_SomeD dict_get_iff_keys option.distinct(1) tracker_ok_def)

text \<open>
  One detection: the id returned was unused, and is live afterwards; a new id was never
  live before.
\<close>

definition detection_ok :: "tracker \<Rightarrow> string list \<Rightarrow> tracker \<Rightarrow> string list \<Rightarrow> string \<Rightarrow> bool" where
  "detection_ok t used t' used' tid \<longleftrightarrow>
     set (dict_keys (tk_state t)) \<subseteq> set (dict_keys (tk_state t')) \<and>
     tid \<in> set (dict_keys (tk_state t')) \<and>
     (used' = tid # used \<and> tid \<notin> set used \<or> used' = used \<and> tid \<notin> set (dict_keys (tk_state t)))"

definition writes_entry :: "tracker \<Rightarrow> track \<Rightarrow> tracker \<Rightarrow> bool" where
  "writes_entry t tr t' \<longleftrightarrow>
     (\<forall>k. k \<noteq> tr_id tr \<longrightarrow> dict_get (tk_state t') k = dict_get (tk_state t) k) \<and>
     (\<exists>st. dict_get (tk_state t') (tr_id tr) = Some st \<and> st_age st = 0 \<and> st_bbox st = tr_bbox tr)"

definition writes_entries :: "tracker \<Rightarrow> track list \<Rightarrow> tracker \<Rightarrow> bool" where
  "writes_entries t out t' \<longleftrightarrow>
     (\<forall>k. k \<notin> tr_id ` set out \<longrightarrow> dict_get (tk_state t') k = dict_get (tk_state t) k) \<and>
     (\<forall>tr \<in> set out. \<exists>st. dict_get (tk_state t') (tr_id tr) = Some st \<and> st_age st = 0 \<and>
        st_bbox st = tr_bbox tr)"

lemma track_detection_ok:
  assumes ok: "frame_ok (set (map fst preds)) (t, used)"
  obtains tr t' used' where "track_detection cam preds det (t, used) = Some (tr, t', used')"
    "frame_ok (set (map fst preds)) (t', used')" "detection_ok t used t' used' (tr_id tr)"
    "tr_bbox tr = d_bbox det" "tr_label tr = d_label det" "length (tr_trajectory tr) \<le> 20"
    "\<And>tid. tid \<in> set used' - set used \<Longrightarrow> tid = tr_id tr \<and>
       (\<exists>p. (tid, p) \<in> set preds \<and> tk_iou t \<le> tracker_iou (tr_bbox tr) p)"
    "tk_iou t' = tk_iou t" "tk_max_age t' = tk_max_age t" "writes_entry t tr t'"
proof -
  have keys: "set (map fst preds) \<subseteq> set (dict_keys (tk_state t))" and t: "tracker_ok t"
    using ok by (simp_all add: frame_ok_def)
  have "[] \<notin> set (map fst preds)"
    using keys t issued_nonempty unfolding tracker_ok_def by blast
  with keys show thesis
  proof (cases rule: track_detection_cases [where det = det and used = used and cam = cam])
    case (matched tid st pred)
    let ?st = "matched_state (tk_vel_smooth t) det st"
    let ?t = "t\<lparr>tk_state := dict_set tid ?st (tk_state t)\<rparr>"
    have "tracker_ok ?t"
      using tracker_ok_lookup [OF t matched(5)] by (intro tracker_ok_set [OF t]) (simp_all add: matched_state_ok)
    moreover have "tid \<in> fst ` set preds" using matched(1) by force
    moreover have "length (last_n 20 (st_traj ?st)) \<le> 20" by (simp add: last_n_def)
    ultimately show thesis
      using matched ok
      by (intro that [of "track_of tid det (last_n 20 (st_traj ?st))" ?t "tid # used"])
        (auto simp: frame_ok_def detection_ok_def track_of_def writes_entry_def matched_state_def
          simp del: split_paired_Ex)
  next
    case fresh
    let ?t = "fst (next_id cam t)" and ?tid = "snd (next_id cam t)"
    have s: "tk_state ?t = tk_state t" "tk_max_age ?t = tk_max_age t" "tk_iou ?t = tk_iou t"
      by (simp_all add: next_id_simps)
    have "tracker_ok (?t\<lparr>tk_state := dict_set ?tid (fresh_state det) (tk_state ?t)\<rparr>)"
      using t by (intro tracker_ok_set tracker_ok_next_id issued_fresh fresh_state_ok)
        (simp_all add: s tracker_ok_def)
    moreover have "?tid \<notin> set (dict_keys (tk_state t))"
      using t next_id_not_issued by (auto simp: tracker_ok_def)
    ultimately show thesis
      using fresh(2) ok
      by (intro that [of "track_of ?tid det (st_traj (fresh_state det))"
            "?t\<lparr>tk_state := dict_set ?tid (fresh_state det) (tk_state ?t)\<rparr>" used])
        (auto simp: frame_ok_def detection_ok_def track_of_def s case_prod_unfold Let_def
          fresh_state_def writes_entry_def)
  qed
qed

definition frame_out_ok ::
  "(string \<times> bbox) list \<Rightarrow> tracker \<Rightarrow> string list \<Rightarrow> track list \<Rightarrow> tracker \<Rightarrow> string list \<Rightarrow> bool" where
  "frame_out_ok preds t used out t' used' \<longleftrightarrow>
     distinct (map tr_id out) \<and> set used \<subseteq> set used' \<and>
     set (dict_keys (tk_state t)) \<subseteq> set (dict_keys (tk_state t')) \<and>
     (\<forall>tr \<in> set out. tr_id tr \<in> set (dict_keys (tk_state t')) \<and> length (tr_trajectory tr) \<le> 20 \<and>
        (tr_id tr \<in> set used' \<and> tr_id tr \<notin> set used \<and>
           (\<exists>p. (tr_id tr, p) \<in> set preds \<and> tk_iou t \<le> tracker_iou (tr_bbox tr) p) \<or>
         tr_id tr \<notin> set used' \<and> tr_id tr \<notin> set (dict_keys (tk_state t)))) \<and>
     set used' \<subseteq> set used \<union> tr_id ` set out"

lemma frame_out_Cons:
  assumes head: "detection_ok t used t1 used1 (tr_id tr)" "length (tr_trajectory tr) \<le> 20"
      "\<And>tid. tid \<in> set used1 - set used \<Longrightarrow> tid = tr_id tr \<and>
         (\<exists>p. (tid, p) \<in> set preds \<and> tk_iou t \<le> tracker_iou (tr_bbox tr) p)"
    and tail: "frame_out_ok preds t1 used1 out t' used'" and thr: "tk_iou t1 = tk_iou t"
    and old: "set used' \<subseteq> set (dict_keys (tk_state t))"
  shows "frame_out_ok preds t used (tr # out) t' used'"
proof -
  have sub: "set (dict_keys (tk_state t)) \<subseteq> set (dict_keys (tk_state t1))"
    "set (dict_keys (tk_state t1)) \<subseteq> set (dict_keys (tk_state t'))"
    "tr_id tr \<in> set (dict_keys (tk_state t1))" "set used1 \<subseteq> set used'"
    using head(1) tail by (simp_all add: detection_ok_def frame_out_ok_def)
  have new: "tr_id tr \<notin> tr_id ` set out"
  proof
    assume "tr_id tr \<in> tr_id ` set out"
    then obtain u where u: "u \<in> set out" "tr_id u = tr_id tr" by force
    then have "tr_id u \<in> set used' \<and> tr_id u \<notin> set used1" 
      using tail sub(3) unfolding frame_out_ok_def by auto
    then show False using head(1) u(2) old unfolding detection_ok_def by auto
  qed
  have each: "tr_id u \<in> set used' \<and> tr_id u \<notin> set used \<and>
           (\<exists>p. (tr_id u, p) \<in> set preds \<and> tk_iou t \<le> tracker_iou (tr_bbox u) p) \<or>
         tr_id u \<notin> set used' \<and> tr_id u \<notin> set (dict_keys (tk_state t))"
    if "u \<in> set (tr # out)" for u
  proof (cases "u = tr")
    case True
    show ?thesis
    proof (cases "used1 = used")
      case True
      then show ?thesis using head(1) old \<open>u = tr\<close> by (auto simp: detection_ok_def)
    next
      case False
      then have "tr_id tr \<in> set used1 - set used" using head(1) by (auto simp: detection_ok_def)
      then show ?thesis using head(3) sub(4) \<open>u = tr\<close> by blast
    qed
  next
    case False
    then have "u \<in> set out" using that by simp
    then have "tr_id u \<in> set used' \<and> tr_id u \<notin> set used1 \<and>
           (\<exists>p. (tr_id u, p) \<in> set preds \<and> tk_iou t \<le> tracker_iou (tr_bbox u) p) \<or>
         tr_id u \<notin> set used' \<and> tr_id u \<notin> set (dict_keys (tk_state t1))"
      using tail thr unfolding frame_out_ok_def by auto
    moreover have "set used \<subseteq> set used1" using head(1) by (auto simp: detection_ok_def)
    ultimately show ?thesis using sub(1) by blast
  qed
  have "set used \<subseteq> set used1" "set used1 \<subseteq> insert (tr_id tr) (set used)"
    using head(1) by (auto simp: detection_ok_def)
  then show ?thesis
    using new each sub tail head(2) unfolding frame_out_ok_def by auto
qed

lemma writes_entries_Cons:
  assumes one: "writes_entry t tr t1" and rest: "writes_entries t1 out t'"
    and new: "tr_id tr \<notin> tr_id ` set out"
  shows "writes_entries t (tr # out) t'"
proof -
  have "dict_get (tk_state t') (tr_id tr) = dict_get (tk_state t1) (tr_id tr)"
    using rest new by (simp add: writes_entries_def)
  then show ?thesis
    using one rest unfolding writes_entry_def writes_entries_def by auto
qed

lemma track_detections_ok:
  assumes "frame_ok (set (map fst preds)) (t, used)"
  shows "\<exists>out t' used'. track_detections cam preds dets (t, used) = Some (out, t', used') \<and>
    frame_ok (set (map fst preds)) (t', used') \<and> frame_out_ok preds t used out t' used' \<and>
    map tr_bbox out = map d_bbox dets \<and> map tr_label out = map d_label dets \<and>
    tk_iou t' = tk_iou t \<and> tk_max_age t' = tk_max_age t \<and> writes_entries t out t'"
  using assms
proof (induction dets arbitrary: t used)
  case Nil
  then show ?case by (simp add: frame_out_ok_def writes_entries_def)
next
  case (Cons det dets)
  obtain tr t1 used1 where one: "track_detection cam preds det (t, used) = Some (tr, t1, used1)"
    "frame_ok (set (map fst preds)) (t1, used1)" "detection_ok t used t1 used1 (tr_id tr)"
    "tr_bbox tr = d_bbox det" "tr_label tr = d_label det" "length (tr_trajectory tr) \<le> 20"
    "\<And>tid. tid \<in> set used1 - set used \<Longrightarrow> tid = tr_id tr \<and>
       (\<exists>p. (tid, p) \<in> set preds \<and> tk_iou t \<le> tracker_iou (tr_bbox tr) p)"
    "tk_iou t1 = tk_iou t" "tk_max_age t1 = tk_max_age t" "writes_entry t tr t1"
    by (rule track_detection_ok [OF Cons.prems, where cam = cam and det = det]) blast
  from Cons.IH [OF one(2)] obtain out t' used' where rest:
    "track_detections cam preds dets (t1, used1) = Some (out, t', used')"
    "frame_ok (set (map fst preds)) (t', used')" "frame_out_ok preds t1 used1 out t' used'"
    "map tr_bbox out = map d_bbox dets" "map tr_label out = map d_label dets"
    "tk_iou t' = tk_iou t1" "tk_max_age t' = tk_max_age t1" "writes_entries t1 out t'"
    by blast
  have "set used' \<subseteq> set (dict_keys (tk_state t))"
    using rest(2) Cons.prems unfolding frame_ok_def by auto
  then have "frame_out_ok preds t used (tr # out) t' used'"
    by (intro frame_out_Cons [OF one(3,6) _ rest(3) one(8)] one(7))
  moreover from this have "writes_entries t (tr # out) t'"
    by (intro writes_entries_Cons [OF one(10) rest(8)]) (simp add: frame_out_ok_def)
  ultimately show ?case using one rest by simp
qed

section \<open>Ageing\<close>

lemma age_tracks_keys: "set (dict_keys (age_tracks m used d)) \<subseteq> set (dict_keys d)"
  by (induction m used d rule: age_tracks.induct) (auto simp: Let_def)

lemma age_tracks_ok: "dict_ok d \<Longrightarrow> dict_ok (age_tracks m used d)"
proof (induction m used d rule: age_tracks.induct)
  case (2 m used tid st rest)
  then have "tid \<notin> set (dict_keys (age_tracks m used rest))"
    using age_tracks_keys [of m used rest] by (auto simp: dict_ok_def)
  with 2 show ?case by (auto simp: dict_ok_def Let_def)
qed simp

lemma dict_get_None: "k \<notin> set (dict_keys d) \<Longrightarrow> dict_get d k = None"
  using dict_get_iff_keys [of d k] by blast

lemma dict_get_Cons: "dict_get ((k', v) # d) k = (if k' = k then Some v else dict_get d k)"
  by (simp add: dict_get_def)

text \<open>What ageing does to each entry: a seen track is kept as it is, an unseen one ages.\<close>

lemma age_tracks_get:
  "dict_ok d \<Longrightarrow> dict_get (age_tracks m used d) tid =
     (case dict_get d tid of
        None \<Rightarrow> None
      | Some st \<Rightarrow> if tid \<in> set used then Some st
                   else if st_age st + 1 > m then None else Some (st\<lparr>st_age := st_age st + 1\<rparr>))"
proof (induction m used d rule: age_tracks.induct)
  case (2 m used k st rest)
  have "k \<notin> set (dict_keys rest)" and ok: "dict_ok rest" using 2(4) by (simp_all add: dict_ok_def)
  then have "dict_get rest k = None" "dict_get (age_tracks m used rest) k = None"
    using age_tracks_keys [of m used rest] by (auto intro!: dict_get_None)
  then show ?case
    using 2 ok by (cases "k = tid") (auto simp: dict_get_Cons Let_def)
qed simp

section \<open>The update as a whole\<close>

lemma age_tracks_tracker_ok:
  assumes "tracker_ok t"
  shows "tracker_ok (t\<lparr>tk_state := age_tracks (tk_max_age t) used (tk_state t)\<rparr>)"
proof -
  let ?d = "age_tracks (tk_max_age t) used (tk_state t)"
  have ok: "dict_ok (tk_state t)" and ok': "dict_ok ?d"
    using assms age_tracks_ok by (auto simp: tracker_ok_def)
  have "track_state_ok (tk_max_age t) st" if "(tid, st) \<in> set ?d" for tid st
  proof -
    have g: "dict_get ?d tid = Some st" using that ok' by (simp add: dict_get_in)
    then obtain st0 where st0: "dict_get (tk_state t) tid = Some st0"
      by (auto simp: age_tracks_get [OF ok] split: option.splits)
    with assms have "track_state_ok (tk_max_age t) st0" by (blast dest: tracker_ok_lookup)
    then show ?thesis
      using g st0 by (auto simp: age_tracks_get [OF ok] track_state_ok_def split: if_splits)
  qed
  then show ?thesis
    using assms ok' age_tracks_keys [of "tk_max_age t" used "tk_state t"]
    by (auto simp: tracker_ok_def)
qed

lemma predictions_keys [simp]: "map fst (predictions_of t) = dict_keys (tk_state t)"
  by (simp add: predictions_of_def dict_keys_def case_prod_unfold)

lemma predictions_in:
  "dict_ok (tk_state t) \<Longrightarrow> (tid, p) \<in> set (predictions_of t) \<Longrightarrow>
   \<exists>st. dict_get (tk_state t) tid = Some st \<and> p = predict_box st"
  by (auto simp: predictions_of_def dict_get_in)

lemma tracker_update_frame:
  assumes "tracker_ok t"
  shows "\<exists>out t1 used. tracker_update cam dets t =
      Some (out, t1\<lparr>tk_state := age_tracks (tk_max_age t1) used (tk_state t1)\<rparr>) \<and>
    tracker_ok t1 \<and> set used \<subseteq> set (dict_keys (tk_state t)) \<and>
    frame_out_ok (predictions_of t) t [] out t1 used \<and>
    map tr_bbox out = map d_bbox (sorted_desc d_confidence dets) \<and>
    map tr_label out = map d_label (sorted_desc d_confidence dets) \<and> tk_max_age t1 = tk_max_age t \<and>
    writes_entries t out t1"
proof -
  have "frame_ok (set (map fst (predictions_of t))) (t, [])"
    using assms by (simp add: frame_ok_def)
  from track_detections_ok [OF this, of cam "sorted_desc d_confidence dets"]
  obtain out t1 used where
    "track_detections cam (predictions_of t) (sorted_desc d_confidence dets) (t, []) = Some (out, t1, used)"
    "frame_ok (set (map fst (predictions_of t))) (t1, used)"
    "frame_out_ok (predictions_of t) t [] out t1 used" "writes_entries t out t1"
    "map tr_bbox out = map d_bbox (sorted_desc d_confidence dets)"
    "map tr_label out = map d_label (sorted_desc d_confidence dets)" "tk_max_age t1 = tk_max_age t"
    by blast
  then show ?thesis
    by (intro exI [of _ out] exI [of _ t1] exI [of _ used]) (simp add: tracker_update_def frame_ok_def)
qed

lemma carried_over_overlaps:
  assumes "frame_out_ok (predictions_of t) t [] out t1 used" and "dict_ok (tk_state t)"
    and "tr \<in> set out" and "dict_get (tk_state t) (tr_id tr) = Some st"
  shows "tr_id tr \<in> set used \<and> tk_iou t \<le> tracker_iou (tr_bbox tr) (predict_box st)"
proof -
  have "tr_id tr \<in> set (dict_keys (tk_state t))"
    using assms(4) by (metis dict_get_iff_keys option.distinct(1))
  then obtain p where "tr_id tr \<in> set used" "(tr_id tr, p) \<in> set (predictions_of t)"
    "tk_iou t \<le> tracker_iou (tr_bbox tr) p"
    using assms(1,3) unfolding frame_out_ok_def by blast
  with predictions_in [OF assms(2), of "tr_id tr" p] assms(4) show ?thesis by fastforce
qed

text \<open>
  A tracker update never fails and keeps the tracker's invariant. It returns one track
  for each detection, in order of confidence, with that detection's box and label; no two
  tracks of a frame share an id; and an id is carried over from the previous frame only to
  a box that overlaps the track's predicted box by at least the threshold.
\<close>

theorem tracker_update_correct:
  assumes "tracker_ok t"
  shows "\<exists>out t'. tracker_update cam dets t = Some (out, t') \<and> tracker_ok t' \<and>
    map tr_bbox out = map d_bbox (sorted_desc d_confidence dets) \<and>
    map tr_label out = map d_label (sorted_desc d_confidence dets) \<and>
    distinct (map tr_id out) \<and>
    (\<forall>tr \<in> set out. \<forall>st. dict_get (tk_state t) (tr_id tr) = Some st \<longrightarrow>
       tk_iou t \<le> tracker_iou (tr_bbox tr) (predict_box st))"
proof -
  obtain out t1 used where u: "tracker_update cam dets t =
      Some (out, t1\<lparr>tk_state := age_tracks (tk_max_age t1) used (tk_state t1)\<rparr>)"
    "tracker_ok t1" "frame_out_ok (predictions_of t) t [] out t1 used"
    "map tr_bbox out = map d_bbox (sorted_desc d_confidence dets)"
    "map tr_label out = map d_label (sorted_desc d_confidence dets)"
    using tracker_update_frame [OF assms] by blast
  have "dict_ok (tk_state t)" using assms by (simp add: tracker_ok_def)
  note carried = carried_over_overlaps [OF u(3) this]
  have "distinct (map tr_id out)" using u(3) by (simp add: frame_out_ok_def)
  then show ?thesis
    using u(1,4,5) age_tracks_tracker_ok [OF u(2)] carried by blast
qed

theorem tracker_update_correct_witness:
  "tracker_ok (new_tracker (1/2) 30 (1/2)) \<and>
   (\<exists>out t'. tracker_update ''cam'' [\<lparr>d_label = ''person'', d_confidence = 9/10, d_bbox = (0, 0, 1, 1)\<rparr>]
      (new_tracker (1/2) 30 (1/2)) = Some (out, t') \<and> tracker_ok t' \<and> map tr_label out = [''person''])"
  using tracker_update_correct [OF new_tracker_ok [of 30 "1/2" "1/2"], of "''cam''"
      "[\<lparr>d_label = ''person'', d_confidence = 9/10, d_bbox = (0, 0, 1, 1)\<rparr>]"]
  by (auto simp: sorted_desc_def new_tracker_ok)

text \<open>The entry of an id after the update, from the one before it and the tracks returned.\<close>

lemma updated_entry:
  assumes t: "tracker_ok t" and u: "tracker_update cam dets t = Some (out, t')"
  shows "tid \<notin> tr_id ` set out \<Longrightarrow> dict_get (tk_state t') tid =
      (case dict_get (tk_state t) tid of
         None \<Rightarrow> None
       | Some st \<Rightarrow> if st_age st + 1 > tk_max_age t then None else Some (st\<lparr>st_age := st_age st + 1\<rparr>))"
    and "tr \<in> set out \<Longrightarrow> dict_get (tk_state t) (tr_id tr) \<noteq> None \<Longrightarrow>
      \<exists>st. dict_get (tk_state t') (tr_id tr) = Some st \<and> st_age st = 0 \<and> st_bbox st = tr_bbox tr"
    and "tr \<in> set out \<Longrightarrow> dict_get (tk_state t) (tr_id tr) = None \<Longrightarrow>
      (if tk_max_age t < 1 then dict_get (tk_state t') (tr_id tr) = None
       else \<exists>st. dict_get (tk_state t') (tr_id tr) = Some st \<and> st_age st = 1 \<and> st_bbox st = tr_bbox tr)"
proof -
  obtain t1 used where f: "t' = t1\<lparr>tk_state := age_tracks (tk_max_age t1) used (tk_state t1)\<rparr>"
    "tracker_ok t1" "set used \<subseteq> set (dict_keys (tk_state t))"
    "frame_out_ok (predictions_of t) t [] out t1 used" "tk_max_age t1 = tk_max_age t"
    "writes_entries t out t1"
    using tracker_update_frame [OF t, of cam dets] u by auto
  have ok: "dict_ok (tk_state t)" "dict_ok (tk_state t1)"
    using t f(2) by (simp_all add: tracker_ok_def)
  have used: "set used \<subseteq> tr_id ` set out" using f(4) by (simp add: frame_out_ok_def)
  note get = age_tracks_get [OF ok(2), of "tk_max_age t" used]
  show "tid \<notin> tr_id ` set out \<Longrightarrow> dict_get (tk_state t') tid =
      (case dict_get (tk_state t) tid of
         None \<Rightarrow> None
       | Some st \<Rightarrow> if st_age st + 1 > tk_max_age t then None else Some (st\<lparr>st_age := st_age st + 1\<rparr>))"
    using used f(1,5,6) get [of tid] by (auto simp: writes_entries_def split: option.splits)
  assume tr: "tr \<in> set out"
  then obtain st where st: "dict_get (tk_state t1) (tr_id tr) = Some st" "st_age st = 0"
    "st_bbox st = tr_bbox tr"
    using f(6) unfolding writes_entries_def by blast
  show "\<exists>st. dict_get (tk_state t') (tr_id tr) = Some st \<and> st_age st = 0 \<and> st_bbox st = tr_bbox tr"
    if "dict_get (tk_state t) (tr_id tr) \<noteq> None"
    using that carried_over_overlaps [OF f(4) ok(1) tr] get [of "tr_id tr"] st f(1,5) by auto
  show "if tk_max_age t < 1 then dict_get (tk_state t') (tr_id tr) = None
       else \<exists>st. dict_get (tk_state t') (tr_id tr) = Some st \<and> st_age st = 1 \<and> st_bbox st = tr_bbox tr"
    if "dict_get (tk_state t) (tr_id tr) = None"
  proof -
    have "tr_id tr \<notin> set used" using that f(3) dict_get_iff_keys by fast
    then show ?thesis using get [of "tr_id tr"] st f(1,5) by auto
  qed
qed

text \<open>
  A track that is not seen in a frame keeps its state and ages by one, and is dropped
  when its age would pass \<open>max_age\<close>; a track that is seen again has age zero. A track opened
  in this frame already ends it with age one, because the ageing loop passes over it too.
\<close>

theorem tracker_ageing:
  assumes "tracker_ok t" and "tracker_update cam dets t = Some (out, t')"
  shows "(\<forall>tid st. dict_get (tk_state t) tid = Some st \<and> tid \<notin> tr_id ` set out \<longrightarrow>
           dict_get (tk_state t') tid =
             (if st_age st + 1 > tk_max_age t then None else Some (st\<lparr>st_age := st_age st + 1\<rparr>))) \<and>
         (\<forall>tr \<in> set out. dict_get (tk_state t) (tr_id tr) \<noteq> None \<longrightarrow>
           (\<exists>st. dict_get (tk_state t') (tr_id tr) = Some st \<and> st_age st = 0)) \<and>
         (\<forall>tr \<in> set out. dict_get (tk_state t) (tr_id tr) = None \<and> 1 \<le> tk_max_age t \<longrightarrow>
           (\<exists>st. dict_get (tk_state t') (tr_id tr) = Some st \<and> st_age st = 1))"
proof -
  note e = updated_entry [OF assms]
  show ?thesis
  proof (intro conjI ballI allI impI)
    fix tid st assume "dict_get (tk_state t) tid = Some st \<and> tid \<notin> tr_id ` set out"
    then show "dict_get (tk_state t') tid =
       (if st_age st + 1 > tk_max_age t then None else Some (st\<lparr>st_age := st_age st + 1\<rparr>))"
      using e(1) [of tid] by simp
  next
    fix tr assume "tr \<in> set out" and "dict_get (tk_state t) (tr_id tr) \<noteq> None"
    then show "\<exists>st. dict_get (tk_state t') (tr_id tr) = Some st \<and> st_age st = 0"
      using e(2) [of tr] by blast
  next
    fix tr assume "tr \<in> set out" and n: "dict_get (tk_state t) (tr_id tr) = None \<and> 1 \<le> tk_max_age t"
    then have "if tk_max_age t < 1 then dict_get (tk_state t') (tr_id tr) = None
       else \<exists>st. dict_get (tk_state t') (tr_id tr) = Some st \<and> st_age st = 1 \<and> st_bbox st = tr_bbox tr"
      by (intro e(3)) simp_all
    with n show "\<exists>st. dict_get (tk_state t') (tr_id tr) = Some st \<and> st_age st = 1" by auto
  qed
qed

definition walker :: detection where
  "walker = \<lparr>d_label = ''person'', d_confidence = 9/10, d_bbox = (0, 0, 1, 1)\<rparr>"

theorem tracker_ageing_witness:
  "\<exists>out t'. tracker_update ''cam'' [walker] (new_tracker (1/2) 30 (1/2)) = Some (out, t') \<and>
     (\<exists>tr st. out = [tr] \<and> dict_get (tk_state t') (tr_id tr) = Some st \<and> st_age st = 1)"
proof -
  have run: "tracker_update ''cam'' [walker] (new_tracker (1/2) 30 (1/2)) =
      Some ([track_of ''cam-track-1'' walker [(1/2, 1/2)]],
            \<lparr>tk_iou = 1/2, tk_max_age = 30, tk_vel_smooth = 1/2,
             tk_state = [(''cam-track-1'', (fresh_state walker)\<lparr>st_age := 1\<rparr>)],
             tk_counters = [(''cam'', 1)]\<rparr>)"
    by code_simp
  have "dict_get (tk_state (new_tracker (1/2) 30 (1/2))) ''cam-track-1'' = None \<and>
      1 \<le> tk_max_age (new_tracker (1/2) 30 (1/2))"
    by (simp add: new_tracker_def)
  with tracker_ageing [OF new_tracker_ok run] run show ?thesis
    by (simp add: track_of_def)
qed

section \<open>Runs\<close>

text \<open>A tracker fed with frames: the invariant holds after every run, and no frame fails.\<close>

definition tracker_run1 :: "string \<times> detection list \<Rightarrow> tracker \<Rightarrow> tracker" where
  "tracker_run1 e t = (case tracker_update (fst e) (snd e) t of None \<Rightarrow> t | Some (out, t') \<Rightarrow> t')"

interpretation tracker_runs: safe_run tracker_run1 tracker_ok
proof unfold_locales
  fix t e assume "tracker_ok t"
  then obtain out t1 used where "tracker_update (fst e) (snd e) t =
      Some (out, t1\<lparr>tk_state := age_tracks (tk_max_age t1) used (tk_state t1)\<rparr>)" "tracker_ok t1"
    using tracker_update_frame by blast
  then show "tracker_ok (tracker_run1 e t)" by (simp add: tracker_run1_def age_tracks_tracker_ok)
qed

text \<open>
  After any sequence of frames from any cameras, every live track has been missing for
  at most \<open>max_age\<close> updates, carries between one and twenty trajectory points, and has an id
  that some camera's counter has issued; ids are unique.
\<close>

theorem tracker_run_invariant:
  assumes "0 \<le> max_age"
  shows "tracker_ok (fold tracker_run1 frames (new_tracker iou_thr max_age vs))"
  by (rule tracker_runs.run_inv) (rule new_tracker_ok [OF assms])

theorem tracker_run_invariant_witness:
  "tracker_ok (fold tracker_run1 [(''a'', [walker]), (''b'', []), (''a'', [walker])] (new_tracker (3/10) 30 (1/2)))"
  by (rule tracker_run_invariant) simp

end
