(* ===== verification/Rule_Engine.thy ===== *)
theory Rule_Engine
  imports Geometry
begin

text \<open>
  \<open>packages/ai/rules.py\<close>: the behaviour analytics engine. A rule is a constructor per rule
  class; the memory of a track and of the engine are records; an evaluator takes the memory
  and gives it back with the events fired. The zone memories hold a timestamp under the
  rule's id and \<open>True\<close> under a marked id; taking a timestamp minus \<open>True\<close> is a \<open>TypeError\<close>.
\<close>

section \<open>Data\<close>

datatype event_kind =
    LineCross | Intrusion | Loitering | ObjectLeft | ObjectRemoved | Crowd

datatype event_detail =
    NoDetail | Direction real | Dwell real | Stationary real | Count nat

record analytic_event =
  ae_rule :: string
  ae_kind :: event_kind
  ae_camera :: string
  ae_track :: string
  ae_label :: string
  ae_bbox :: bbox
  ae_ts :: timestamp
  ae_score :: real
  ae_detail :: event_detail

datatype rule =
    LineCrossingRule string point point string "real option" "string list"
  | ZoneIntrusionRule string "point list" string real "string list"
  | LoiteringRule string "point list" string real "string list"
  | ObjectLeftRule string "point list" string real "string list"
  | CrowdCountRule string "point list" string real "string list"

datatype zone_mark = Since timestamp | Marked

record track_mem =
  tm_last_center :: "point option"
  tm_inside_zones :: "(string, zone_mark) dict"
  tm_loiter_zones :: "(string, zone_mark) dict"
  tm_crossed_lines :: "string list"
  tm_bbox :: bbox
  tm_label :: string

record engine =
  en_camera :: string
  en_rules :: "rule list"
  en_mem :: "(string, track_mem) dict"
  en_crowd :: "(string, bool) dict"

type_synonym tracked = "string \<times> string \<times> bbox"

definition empty_mem :: track_mem where
  "empty_mem = \<lparr>tm_last_center = None, tm_inside_zones = [], tm_loiter_zones = [],
     tm_crossed_lines = [], tm_bbox = (0, 0, 0, 0), tm_label = ''person''\<rparr>"

definition new_engine :: "string \<Rightarrow> engine" where
  "new_engine camera_id = \<lparr>en_camera = camera_id, en_rules = [], en_mem = [], en_crowd = []\<rparr>"

fun rule_id :: "rule \<Rightarrow> string" where
  "rule_id (LineCrossingRule rid _ _ _ _ _) = rid"
| "rule_id (ZoneIntrusionRule rid _ _ _ _) = rid"
| "rule_id (LoiteringRule rid _ _ _ _) = rid"
| "rule_id (ObjectLeftRule rid _ _ _ _) = rid"
| "rule_id (CrowdCountRule rid _ _ _ _) = rid"

fun rule_labels :: "rule \<Rightarrow> string list" where
  "rule_labels (LineCrossingRule _ _ _ _ _ ls) = ls"
| "rule_labels (ZoneIntrusionRule _ _ _ _ ls) = ls"
| "rule_labels (LoiteringRule _ _ _ _ ls) = ls"
| "rule_labels (ObjectLeftRule _ _ _ _ ls) = ls"
| "rule_labels (CrowdCountRule _ _ _ _ ls) = ls"

fun with_camera :: "string \<Rightarrow> rule \<Rightarrow> rule" where
  \<comment> \<open>\<open>rule.camera_id = self.camera_id\<close> when the rule names no camera\<close>
  "with_camera cam (LineCrossingRule rid a b c d ls) = LineCrossingRule rid a b (if c = [] then cam else c) d ls"
| "with_camera cam (ZoneIntrusionRule rid z c w ls) = ZoneIntrusionRule rid z (if c = [] then cam else c) w ls"
| "with_camera cam (LoiteringRule rid z c w ls) = LoiteringRule rid z (if c = [] then cam else c) w ls"
| "with_camera cam (ObjectLeftRule rid z c w ls) = ObjectLeftRule rid z (if c = [] then cam else c) w ls"
| "with_camera cam (CrowdCountRule rid z c w ls) = CrowdCountRule rid z (if c = [] then cam else c) w ls"

definition add_rule :: "rule \<Rightarrow> engine \<Rightarrow> engine" where
  "add_rule r e = e\<lparr>en_rules := en_rules e @ [with_camera (en_camera e) r]\<rparr>"

definition get_mem :: "engine \<Rightarrow> string \<Rightarrow> track_mem" where
  "get_mem e tid = (case dict_get (en_mem e) tid of None \<Rightarrow> empty_mem | Some m \<Rightarrow> m)"

definition label_matches :: "string list \<Rightarrow> string \<Rightarrow> bool" where
  "label_matches labels label \<longleftrightarrow> labels = [] \<or> label \<in> set labels"

definition fired_key :: "string \<Rightarrow> string" where
  "fired_key rid = ''_fired_'' @ rid"

definition left_key :: "string \<Rightarrow> string" where
  "left_key rid = ''_left_fired_'' @ rid"

section \<open>Evaluators\<close>

definition eval_line ::
  "string \<Rightarrow> rule \<Rightarrow> string \<Rightarrow> string \<Rightarrow> bbox \<Rightarrow> point option \<Rightarrow> point \<Rightarrow> timestamp \<Rightarrow> track_mem \<Rightarrow>
   track_mem \<times> analytic_event list" where
  "eval_line cam rule tid label box prev cur ts m =
     (case rule of
        LineCrossingRule rid a b _ want _ \<Rightarrow>
          (case prev of
             None \<Rightarrow> (m, [])
           | Some p \<Rightarrow>
               if \<not> segments_intersect p cur a b then (m, [])
               else (let dir = crossing_direction p cur a b in
                     if want \<noteq> None \<and> Some dir \<noteq> want then (m, [])
                     else if rid \<in> set (tm_crossed_lines m) then (m, [])
                     else (m\<lparr>tm_crossed_lines := rid # tm_crossed_lines m\<rparr>,
                           [\<lparr>ae_rule = rid, ae_kind = LineCross, ae_camera = cam, ae_track = tid,
                             ae_label = label, ae_bbox = box, ae_ts = ts, ae_score = 1,
                             ae_detail = Direction dir\<rparr>])))
      | _ \<Rightarrow> (m, []))"

definition first_seen_in :: "string \<Rightarrow> timestamp \<Rightarrow> (string, zone_mark) dict \<Rightarrow> (string, zone_mark) dict" where
  \<comment> \<open>\<open>if rid not in zones: zones[rid] = ts\<close>\<close>
  "first_seen_in rid ts zones = (if dict_get zones rid = None then dict_set rid (Since ts) zones else zones)"

definition dwell_of :: "string \<Rightarrow> timestamp \<Rightarrow> (string, zone_mark) dict \<Rightarrow> py_error + real" where
  \<comment> \<open>\<open>(ts - zones[rid]).total_seconds()\<close>\<close>
  "dwell_of rid ts zones =
     (case dict_get zones rid of
        None \<Rightarrow> Inl KeyError
      | Some Marked \<Rightarrow> Inl TypeError
      | Some (Since t0) \<Rightarrow> Inr (total_seconds (ts - t0)))"

definition eval_zone ::
  "string \<Rightarrow> string \<Rightarrow> point list \<Rightarrow> real \<Rightarrow> string \<Rightarrow> string \<Rightarrow> bbox \<Rightarrow> point \<Rightarrow> timestamp \<Rightarrow>
   track_mem \<Rightarrow> py_error + (track_mem \<times> analytic_event list)" where
  "eval_zone cam rid zone min_dwell tid label box c ts m =
     (if point_in_polygon c zone then
        (let zones = first_seen_in rid ts (tm_inside_zones m); m1 = m\<lparr>tm_inside_zones := zones\<rparr> in
         case dwell_of rid ts zones of
           Inl err \<Rightarrow> Inl err
         | Inr dwell \<Rightarrow>
             if min_dwell \<noteq> 0 \<and> dwell < min_dwell then Inr (m1, [])
             else if dict_get zones (fired_key rid) = Some Marked then Inr (m1, [])
             else Inr (m1\<lparr>tm_inside_zones := dict_set (fired_key rid) Marked zones\<rparr>,
                       [\<lparr>ae_rule = rid, ae_kind = Intrusion, ae_camera = cam, ae_track = tid,
                         ae_label = label, ae_bbox = box, ae_ts = ts, ae_score = 1,
                         ae_detail = Dwell (round_to 2 dwell)\<rparr>]))
      else Inr (m\<lparr>tm_inside_zones := dict_del (fired_key rid) (dict_del rid (tm_inside_zones m))\<rparr>, []))"

definition eval_loiter ::
  "string \<Rightarrow> string \<Rightarrow> point list \<Rightarrow> real \<Rightarrow> string \<Rightarrow> string \<Rightarrow> bbox \<Rightarrow> point \<Rightarrow> timestamp \<Rightarrow>
   track_mem \<Rightarrow> py_error + (track_mem \<times> analytic_event list)" where
  "eval_loiter cam rid zone dwell_sec tid label box c ts m =
     (if point_in_polygon c zone then
        (let zones = first_seen_in rid ts (tm_loiter_zones m); m1 = m\<lparr>tm_loiter_zones := zones\<rparr> in
         case dwell_of rid ts zones of
           Inl err \<Rightarrow> Inl err
         | Inr dwell \<Rightarrow>
             if dwell \<ge> dwell_sec \<and> dict_get zones (fired_key rid) \<noteq> Some Marked
             then Inr (m1\<lparr>tm_loiter_zones := dict_set (fired_key rid) Marked zones\<rparr>,
                       [\<lparr>ae_rule = rid, ae_kind = Loitering, ae_camera = cam, ae_track = tid,
                         ae_label = label, ae_bbox = box, ae_ts = ts, ae_score = 1,
                         ae_detail = Dwell (round_to 2 dwell)\<rparr>])
             else Inr (m1, []))
      else Inr (m\<lparr>tm_loiter_zones := dict_del (fired_key rid) (dict_del rid (tm_loiter_zones m))\<rparr>, []))"

definition eval_object_left ::
  "string \<Rightarrow> string \<Rightarrow> point list \<Rightarrow> real \<Rightarrow> string \<Rightarrow> string \<Rightarrow> bbox \<Rightarrow> point \<Rightarrow> timestamp \<Rightarrow>
   track_mem \<Rightarrow> py_error + (track_mem \<times> analytic_event list)" where
  "eval_object_left cam rid zone stationary_sec tid label box c ts m =
     (if point_in_polygon c zone then
        (let zones = first_seen_in rid ts (tm_loiter_zones m); m1 = m\<lparr>tm_loiter_zones := zones\<rparr> in
         case dwell_of rid ts zones of
           Inl err \<Rightarrow> Inl err
         | Inr dwell \<Rightarrow>
             if dwell \<ge> stationary_sec \<and> dict_get zones (left_key rid) \<noteq> Some Marked
             then Inr (m1\<lparr>tm_loiter_zones := dict_set (left_key rid) Marked zones\<rparr>,
                       [\<lparr>ae_rule = rid, ae_kind = ObjectLeft, ae_camera = cam, ae_track = tid,
                         ae_label = label, ae_bbox = box, ae_ts = ts, ae_score = 1,
                         ae_detail = Stationary (round_to 2 dwell)\<rparr>])
             else Inr (m1, []))
      else if dict_get (tm_loiter_zones m) (left_key rid) = Some Marked \<and> label \<noteq> ''person''
      then Inr (m\<lparr>tm_loiter_zones := dict_del (left_key rid) (tm_loiter_zones m)\<rparr>,
                [\<lparr>ae_rule = rid, ae_kind = ObjectRemoved, ae_camera = cam, ae_track = tid,
                  ae_label = label, ae_bbox = box, ae_ts = ts, ae_score = 1,
                  ae_detail = NoDetail\<rparr>])
      else Inr (m\<lparr>tm_loiter_zones := dict_del (left_key rid) (dict_del rid (tm_loiter_zones m))\<rparr>, []))"

fun eval_rule ::
  "string \<Rightarrow> rule \<Rightarrow> tracked \<Rightarrow> point option \<Rightarrow> timestamp \<Rightarrow> track_mem \<Rightarrow>
   py_error + (track_mem \<times> analytic_event list)" where
  \<comment> \<open>the dispatch on the rule's class in \<open>evaluate\<close>\<close>
  "eval_rule cam (LineCrossingRule rid a b rc d ls) (tid, label, box) prev ts m =
     Inr (eval_line cam (LineCrossingRule rid a b rc d ls) tid label box prev (center box) ts m)"
| "eval_rule cam (ZoneIntrusionRule rid z _ w _) (tid, label, box) prev ts m =
     eval_zone cam rid z w tid label box (center box) ts m"
| "eval_rule cam (LoiteringRule rid z _ w _) (tid, label, box) prev ts m =
     eval_loiter cam rid z w tid label box (center box) ts m"
| "eval_rule cam (ObjectLeftRule rid z _ w _) (tid, label, box) prev ts m =
     eval_object_left cam rid z w tid label box (center box) ts m"
| "eval_rule cam (CrowdCountRule rid z _ w _) (tid, label, box) prev ts m = Inr (m, [])"

fun eval_rules ::
  "string \<Rightarrow> rule list \<Rightarrow> tracked \<Rightarrow> point option \<Rightarrow> timestamp \<Rightarrow> track_mem \<Rightarrow>
   py_error + (track_mem \<times> analytic_event list)" where
  "eval_rules cam [] trk prev ts m = Inr (m, [])"
| "eval_rules cam (r # rs) trk prev ts m =
     (if label_matches (rule_labels r) (fst (snd trk)) then
        (case eval_rule cam r trk prev ts m of
           Inl err \<Rightarrow> Inl err
         | Inr (m', evs) \<Rightarrow>
             (case eval_rules cam rs trk prev ts m' of
                Inl err \<Rightarrow> Inl err
              | Inr (m'', evs') \<Rightarrow> Inr (m'', evs @ evs')))
      else eval_rules cam rs trk prev ts m)"

definition eval_track ::
  "tracked \<Rightarrow> timestamp \<Rightarrow> engine \<Rightarrow> py_error + (engine \<times> analytic_event list)" where
  "eval_track trk ts e =
     (case trk of (tid, label, box) \<Rightarrow>
        (let m = get_mem e tid;
             m1 = m\<lparr>tm_bbox := box, tm_label := label, tm_last_center := Some (center box)\<rparr> in
         case eval_rules (en_camera e) (en_rules e) trk (tm_last_center m) ts m1 of
           Inl err \<Rightarrow> Inl err
         | Inr (m2, evs) \<Rightarrow> Inr (e\<lparr>en_mem := dict_set tid m2 (en_mem e)\<rparr>, evs)))"

fun eval_tracks ::
  "tracked list \<Rightarrow> timestamp \<Rightarrow> engine \<Rightarrow> py_error + (engine \<times> analytic_event list)" where
  "eval_tracks [] ts e = Inr (e, [])"
| "eval_tracks (trk # trks) ts e =
     (case eval_track trk ts e of
        Inl err \<Rightarrow> Inl err
      | Inr (e', evs) \<Rightarrow>
          (case eval_tracks trks ts e' of
             Inl err \<Rightarrow> Inl err
           | Inr (e'', evs') \<Rightarrow> Inr (e'', evs @ evs')))"

definition crowd_count :: "tracked list \<Rightarrow> point list \<Rightarrow> string list \<Rightarrow> nat" where
  "crowd_count tracks zone labels =
     length (filter (\<lambda>(tid, label, box). label_matches labels label \<and> point_in_polygon (center box) zone) tracks)"

definition bbox_size :: "bbox \<Rightarrow> real" where
  "bbox_size b = (case b of (_, _, w, h) \<Rightarrow> w * h)"

fun first_max :: "('a \<Rightarrow> real) \<Rightarrow> 'a list \<Rightarrow> 'a option" where
  \<comment> \<open>\<open>max(xs, key=k)\<close>: the first of the greatest, \<open>ValueError\<close> on the empty list\<close>
  "first_max k [] = None"
| "first_max k (x # xs) =
     (case first_max k xs of None \<Rightarrow> Some x | Some y \<Rightarrow> if k y > k x then Some y else Some x)"

definition crowd_box :: "tracked list \<Rightarrow> string list \<Rightarrow> py_error + bbox" where
  "crowd_box tracks labels =
     (if tracks = [] then Inr (0, 0, 0, 0)
      else (case first_max (\<lambda>(_, _, b). bbox_size b) (filter (\<lambda>(_, l, _). label_matches labels l) tracks) of
              None \<Rightarrow> Inl ValueError
            | Some (_, _, b) \<Rightarrow> Inr b))"

fun eval_crowd ::
  "string \<Rightarrow> rule list \<Rightarrow> tracked list \<Rightarrow> timestamp \<Rightarrow> (string, bool) dict \<Rightarrow>
   py_error + ((string, bool) dict \<times> analytic_event list)" where
  "eval_crowd cam [] tracks ts crowd = Inr (crowd, [])"
| "eval_crowd cam (CrowdCountRule rid zone rc threshold labels # rs) tracks ts crowd =
     (let n = crowd_count tracks zone labels;
          fired = (dict_get crowd rid = Some True) in
      if of_nat n \<ge> threshold \<and> \<not> fired then
        (case crowd_box tracks labels of
           Inl err \<Rightarrow> Inl err
         | Inr rep \<Rightarrow>
             (case eval_crowd cam rs tracks ts (dict_set rid True crowd) of
                Inl err \<Rightarrow> Inl err
              | Inr (crowd', evs) \<Rightarrow>
                  Inr (crowd', \<lparr>ae_rule = rid, ae_kind = Crowd, ae_camera = cam, ae_track = [],
                                 ae_label = ''person'', ae_bbox = rep, ae_ts = ts,
                                 ae_score = of_nat n, ae_detail = Count n\<rparr> # evs)))
      else eval_crowd cam rs tracks ts
             (if of_nat n < threshold then dict_set rid False crowd else crowd))"
| "eval_crowd cam (r # rs) tracks ts crowd = eval_crowd cam rs tracks ts crowd"

definition evaluate ::
  "tracked list \<Rightarrow> timestamp \<Rightarrow> engine \<Rightarrow> py_error + (engine \<times> analytic_event list)" where
  "evaluate tracks ts e =
     (case eval_tracks tracks ts e of
        Inl err \<Rightarrow> Inl err
      | Inr (e1, evs) \<Rightarrow>
          (case eval_crowd (en_camera e1) (en_rules e1) tracks ts (en_crowd e1) of
             Inl err \<Rightarrow> Inl err
           | Inr (crowd, evs') \<Rightarrow>
               Inr (e1\<lparr>en_crowd := crowd,
                       en_mem := filter (\<lambda>(tid, _). tid \<in> set (map fst tracks)) (en_mem e1)\<rparr>,
                    evs @ evs')))"

section \<open>Rules from stored specifications\<close>

definition obj_get :: "(string \<times> json) list \<Rightarrow> string \<Rightarrow> json \<Rightarrow> json" where
  \<comment> \<open>\<open>spec.get(key, default)\<close>\<close>
  "obj_get o' k d = (case dict_get o' k of None \<Rightarrow> d | Some v \<Rightarrow> v)"

fun json_point :: "json \<Rightarrow> py_error + point" where
  \<comment> \<open>\<open>tuple(p)\<close>; a sequence that is not a pair of numbers fails only when a frame is evaluated\<close>
  "json_point (JList [JNum x, JNum y]) = Inr (x, y)"
| "json_point (JList _) = Inl Unmodelled"
| "json_point (JObj _) = Inl Unmodelled"
| "json_point (JStr _) = Inl Unmodelled"
| "json_point _ = Inl TypeError"

fun json_points :: "json list \<Rightarrow> py_error + point list" where
  "json_points [] = Inr []"
| "json_points (p # ps) =
     (case json_point p of Inl err \<Rightarrow> Inl err
      | Inr q \<Rightarrow> (case json_points ps of Inl err \<Rightarrow> Inl err | Inr qs \<Rightarrow> Inr (q # qs)))"

definition spec_zone :: "(string \<times> json) list \<Rightarrow> py_error + point list" where
  \<comment> \<open>\<open>[tuple(p) for p in spec["zone"]]\<close>\<close>
  "spec_zone o' =
     (case dict_get o' ''zone'' of
        None \<Rightarrow> Inl KeyError
      | Some (JList ps) \<Rightarrow> json_points ps
      | Some (JObj _) \<Rightarrow> Inl Unmodelled
      | Some (JStr _) \<Rightarrow> Inl Unmodelled
      | Some _ \<Rightarrow> Inl TypeError)"

definition spec_point :: "(string \<times> json) list \<Rightarrow> string \<Rightarrow> py_error + point" where
  "spec_point o' k = (case dict_get o' k of None \<Rightarrow> Inl KeyError | Some p \<Rightarrow> json_point p)"

definition spec_number :: "(string \<times> json) list \<Rightarrow> string \<Rightarrow> real \<Rightarrow> py_error + real" where
  "spec_number o' k d =
     (case dict_get o' k of None \<Rightarrow> Inr d | Some (JNum x) \<Rightarrow> Inr x | Some _ \<Rightarrow> Inl Unmodelled)"

fun json_strings :: "json list \<Rightarrow> py_error + string list" where
  "json_strings [] = Inr []"
| "json_strings (JStr s # js) = (case json_strings js of Inl err \<Rightarrow> Inl err | Inr ss \<Rightarrow> Inr (s # ss))"
| "json_strings (_ # js) = Inl Unmodelled"

definition spec_labels :: "(string \<times> json) list \<Rightarrow> py_error + string list" where
  \<comment> \<open>\<open>tuple(spec.get("labels", ()))\<close>: a string gives its characters\<close>
  "spec_labels o' =
     (case dict_get o' ''labels'' of
        None \<Rightarrow> Inr []
      | Some (JList js) \<Rightarrow> json_strings js
      | Some (JStr s) \<Rightarrow> Inr (map (\<lambda>c. [c]) s)
      | Some (JObj kvs) \<Rightarrow> Inr (map fst kvs)
      | Some _ \<Rightarrow> Inl TypeError)"

definition spec_direction :: "(string \<times> json) list \<Rightarrow> py_error + real option" where
  "spec_direction o' =
     (case obj_get o' ''direction'' JNull of
        JNull \<Rightarrow> Inr None | JNum x \<Rightarrow> Inr (Some x) | _ \<Rightarrow> Inl Unmodelled)"

definition spec_rule_id :: "string \<Rightarrow> (string \<times> json) list \<Rightarrow> py_error + string" where
  \<comment> \<open>\<open>spec.get("rule_id") or f"{rtype}-{camera_id}"\<close>\<close>
  "spec_rule_id camera_id o' =
     (let r = obj_get o' ''rule_id'' JNull in
      if json_truthy r then (case r of JStr s \<Rightarrow> Inr s | _ \<Rightarrow> Inl Unmodelled)
      else (case obj_get o' ''type'' JNull of
              JStr t \<Rightarrow> Inr (t @ ''-'' @ camera_id) | _ \<Rightarrow> Inr (''None-'' @ camera_id)))"

definition or_labels :: "string list \<Rightarrow> string list \<Rightarrow> string list" where
  "or_labels ls d = (if ls = [] then d else ls)"

definition rule_from_dict :: "string \<Rightarrow> (string \<times> json) list \<Rightarrow> py_error + rule" where
  "rule_from_dict camera_id o' =
     (let rtype = obj_get o' ''type'' JNull in
      bind_ok (spec_rule_id camera_id o') (\<lambda>rid.
      bind_ok (spec_labels o') (\<lambda>labels.
        if rtype = JStr ''line_cross'' then
          bind_ok (spec_point o' ''a'') (\<lambda>a. bind_ok (spec_point o' ''b'') (\<lambda>b.
          bind_ok (spec_direction o') (\<lambda>d.
            Inr (LineCrossingRule rid a b camera_id d (or_labels labels [''person'', ''vehicle''])))))
        else if rtype = JStr ''intrusion'' then
          bind_ok (spec_zone o') (\<lambda>zone. bind_ok (spec_number o' ''min_dwell_sec'' 0) (\<lambda>w.
            Inr (ZoneIntrusionRule rid zone camera_id w (or_labels labels [''person'', ''vehicle'']))))
        else if rtype = JStr ''loitering'' then
          bind_ok (spec_zone o') (\<lambda>zone. bind_ok (spec_number o' ''dwell_sec'' 30) (\<lambda>w.
            Inr (LoiteringRule rid zone camera_id w (or_labels labels [''person'']))))
        else if rtype = JStr ''object_left'' then
          bind_ok (spec_zone o') (\<lambda>zone. bind_ok (spec_number o' ''stationary_sec'' 30) (\<lambda>w.
            Inr (ObjectLeftRule rid zone camera_id w (or_labels labels [''bag'', ''package'']))))
        else if rtype = JStr ''crowd'' then
          bind_ok (spec_zone o') (\<lambda>zone. bind_ok (spec_number o' ''threshold'' 10) (\<lambda>w.
            Inr (CrowdCountRule rid zone camera_id w (or_labels labels [''person'']))))
        else Inl ValueError)))"

fun add_specs :: "string \<Rightarrow> json list \<Rightarrow> engine \<Rightarrow> py_error + engine" where
  "add_specs camera_id [] e = Inr e"
| "add_specs camera_id (JObj o' # specs) e =
     (case rule_from_dict camera_id o' of
        Inr r \<Rightarrow> add_specs camera_id specs (add_rule r e)
      | Inl KeyError \<Rightarrow> add_specs camera_id specs e
      | Inl ValueError \<Rightarrow> add_specs camera_id specs e
      | Inl err \<Rightarrow> Inl err)"
| "add_specs camera_id (_ # specs) e = Inl AttributeError"

definition rule_engine_from_json :: "string \<Rightarrow> json list option \<Rightarrow> py_error + engine" where
  "rule_engine_from_json camera_id rules_json =
     add_specs camera_id (case rules_json of None \<Rightarrow> [] | Some js \<Rightarrow> js) (new_engine camera_id)"

section \<open>Well-formed rule sets\<close>

text \<open>
  No rule's id is the marked id of another: then the timestamps and the marks of the zone
  memories cannot meet under one key.
\<close>

definition ids_ok :: "string set \<Rightarrow> bool" where
  "ids_ok ids \<longleftrightarrow> (\<forall>r \<in> ids. \<forall>s \<in> ids. r \<noteq> fired_key s \<and> r \<noteq> left_key s)"

definition zones_ok :: "string set \<Rightarrow> (string, zone_mark) dict \<Rightarrow> bool" where
  "zones_ok ids zones \<longleftrightarrow> (\<forall>rid \<in> ids. dict_get zones rid \<noteq> Some Marked)"

definition mem_ok :: "string set \<Rightarrow> track_mem \<Rightarrow> bool" where
  "mem_ok ids m \<longleftrightarrow> zones_ok ids (tm_inside_zones m) \<and> zones_ok ids (tm_loiter_zones m)"

definition engine_ids :: "engine \<Rightarrow> string set" where
  "engine_ids e = rule_id ` set (en_rules e)"

definition crowd_ok :: "rule \<Rightarrow> bool" where
  \<comment> \<open>an empty scene is below the threshold\<close>
  "crowd_ok r = (case r of CrowdCountRule _ _ _ threshold _ \<Rightarrow> 0 < threshold | _ \<Rightarrow> True)"

definition engine_ok :: "engine \<Rightarrow> bool" where
  "engine_ok e \<longleftrightarrow> ids_ok (engine_ids e) \<and> list_all crowd_ok (en_rules e) \<and> dict_ok (en_mem e) \<and>
     (\<forall>(tid, m) \<in> set (en_mem e). mem_ok (engine_ids e) m)"

lemma fired_key_inj [simp]: "fired_key r = fired_key s \<longleftrightarrow> r = s"
  by (simp add: fired_key_def)

lemma left_key_inj [simp]: "left_key r = left_key s \<longleftrightarrow> r = s"
  by (simp add: left_key_def)

lemma fired_not_left [simp]: "fired_key r \<noteq> left_key s" "left_key s \<noteq> fired_key r"
  by (simp_all add: fired_key_def left_key_def)

lemma fired_key_not_self [simp]: "fired_key r \<noteq> r" "r \<noteq> fired_key r"
  by (metis append_self_conv2 fired_key_def list.distinct(1))+

lemma left_key_not_self [simp]: "left_key r \<noteq> r" "r \<noteq> left_key r"
  by (metis append_self_conv2 left_key_def list.distinct(1))+

lemma ids_okD:
  "ids_ok ids \<Longrightarrow> r \<in> ids \<Longrightarrow> s \<in> ids \<Longrightarrow> r \<noteq> fired_key s \<and> r \<noteq> left_key s"
  by (auto simp: ids_ok_def)

lemma dwell_of_first_seen:
  "dwell_of rid ts (first_seen_in rid ts zones) =
     (case dict_get zones rid of
        None \<Rightarrow> Inr 0 | Some Marked \<Rightarrow> Inl TypeError | Some (Since t0) \<Rightarrow> Inr (total_seconds (ts - t0)))"
  by (auto simp: dwell_of_def first_seen_in_def split: option.splits zone_mark.splits)

lemma first_seen_in_get:
  "dict_get (first_seen_in rid ts zones) k =
     (if k = rid \<and> dict_get zones rid = None then Some (Since ts) else dict_get zones k)"
  by (simp add: first_seen_in_def)

lemma zones_ok_first_seen [invar_intros]: "zones_ok ids z \<Longrightarrow> zones_ok ids (first_seen_in rid ts z)"
  by (simp add: zones_ok_def first_seen_in_get)

lemma zones_ok_mark [invar_intros]:
  "zones_ok ids z \<Longrightarrow> ids_ok ids \<Longrightarrow> rid \<in> ids \<Longrightarrow>
   zones_ok ids (dict_set (fired_key rid) Marked z) \<and> zones_ok ids (dict_set (left_key rid) Marked z)"
  by (auto simp: zones_ok_def ids_ok_def)

lemma zones_ok_del [invar_intros]: "zones_ok ids z \<Longrightarrow> zones_ok ids (dict_del k z)"
  by (simp add: zones_ok_def)

lemma dwell_of_ok:
  assumes "zones_ok ids z" and "rid \<in> ids"
  obtains d where "dwell_of rid ts (first_seen_in rid ts z) = Inr d"
proof (cases "dict_get z rid")
  case None
  then show thesis using that by (simp add: dwell_of_first_seen)
next
  case (Some mk)
  then show thesis using that assms by (cases mk) (auto simp: dwell_of_first_seen zones_ok_def)
qed

section \<open>Events are justified\<close>

definition reports :: "string \<Rightarrow> string \<Rightarrow> tracked \<Rightarrow> timestamp \<Rightarrow> analytic_event \<Rightarrow> bool" where
  "reports cam rid trk ts ev \<longleftrightarrow> ae_rule ev = rid \<and> ae_camera ev = cam \<and>
     ae_track ev = fst trk \<and> ae_label ev = fst (snd trk) \<and> ae_bbox ev = snd (snd trk) \<and> ae_ts ev = ts"

definition justified :: "rule \<Rightarrow> tracked \<Rightarrow> point option \<Rightarrow> analytic_event \<Rightarrow> bool" where
  "justified r trk prev ev \<longleftrightarrow>
     (let c = center (snd (snd trk)) in
      case r of
        LineCrossingRule _ a b _ d _ \<Rightarrow> ae_kind ev = LineCross \<and>
          (\<exists>p. prev = Some p \<and> segments_intersect p c a b \<and> d \<in> {None, Some (crossing_direction p c a b)})
      | ZoneIntrusionRule _ z _ _ _ \<Rightarrow> ae_kind ev = Intrusion \<and> point_in_polygon c z
      | LoiteringRule _ z _ _ _ \<Rightarrow> ae_kind ev = Loitering \<and> point_in_polygon c z
      | ObjectLeftRule _ z _ _ _ \<Rightarrow>
          (if point_in_polygon c z then ae_kind ev = ObjectLeft
           else ae_kind ev = ObjectRemoved \<and> fst (snd trk) \<noteq> ''person'')
      | CrowdCountRule _ _ _ _ _ \<Rightarrow> False)"

definition step_ok ::
  "string \<Rightarrow> string set \<Rightarrow> rule \<Rightarrow> tracked \<Rightarrow> point option \<Rightarrow> timestamp \<Rightarrow> track_mem \<times> analytic_event list \<Rightarrow> bool" where
  "step_ok cam ids r trk prev ts res \<longleftrightarrow>
     mem_ok ids (fst res) \<and> length (snd res) \<le> 1 \<and>
     (\<forall>ev \<in> set (snd res). reports cam (rule_id r) trk ts ev \<and> justified r trk prev ev)"

lemma eval_line_ok:
  "mem_ok ids m \<Longrightarrow> r = LineCrossingRule rid a b rc d ls \<Longrightarrow>
   step_ok cam ids r (tid, label, box) prev ts (eval_line cam r tid label box prev (center box) ts m)"
  by (auto simp: eval_line_def step_ok_def Let_def mem_ok_def reports_def justified_def split: option.splits)

lemma eval_zone_ok:
  assumes "ids_ok ids" and "mem_ok ids m" and "rid \<in> ids"
  shows "\<exists>res. eval_zone cam rid z w tid label box (center box) ts m = Inr res \<and>
    step_ok cam ids (ZoneIntrusionRule rid z rc w ls) (tid, label, box) prev ts res"
proof -
  have z: "zones_ok ids (tm_inside_zones m)" using assms by (simp add: mem_ok_def)
  obtain d where d: "dwell_of rid ts (first_seen_in rid ts (tm_inside_zones m)) = Inr d"
    using dwell_of_ok [OF z assms(3)] .
  show ?thesis
    using assms z zones_ok_first_seen [OF z, of rid ts]
      zones_ok_mark [OF zones_ok_first_seen [OF z, of rid ts] assms(1,3)]
    by (auto simp: eval_zone_def d Let_def step_ok_def mem_ok_def zones_ok_del reports_def justified_def)
qed

lemma eval_loiter_ok:
  assumes "ids_ok ids" and "mem_ok ids m" and "rid \<in> ids"
  shows "\<exists>res. eval_loiter cam rid z w tid label box (center box) ts m = Inr res \<and>
    step_ok cam ids (LoiteringRule rid z rc w ls) (tid, label, box) prev ts res"
proof -
  have z: "zones_ok ids (tm_loiter_zones m)" using assms by (simp add: mem_ok_def)
  obtain d where d: "dwell_of rid ts (first_seen_in rid ts (tm_loiter_zones m)) = Inr d"
    using dwell_of_ok [OF z assms(3)] .
  show ?thesis
    using assms z zones_ok_first_seen [OF z, of rid ts]
      zones_ok_mark [OF zones_ok_first_seen [OF z, of rid ts] assms(1,3)]
    by (auto simp: eval_loiter_def d Let_def step_ok_def mem_ok_def zones_ok_del reports_def justified_def)
qed

lemma eval_object_left_ok:
  assumes "ids_ok ids" and "mem_ok ids m" and "rid \<in> ids"
  shows "\<exists>res. eval_object_left cam rid z w tid label box (center box) ts m = Inr res \<and>
    step_ok cam ids (ObjectLeftRule rid z rc w ls) (tid, label, box) prev ts res"
proof -
  have z: "zones_ok ids (tm_loiter_zones m)" using assms by (simp add: mem_ok_def)
  obtain d where d: "dwell_of rid ts (first_seen_in rid ts (tm_loiter_zones m)) = Inr d"
    using dwell_of_ok [OF z assms(3)] .
  show ?thesis
    using assms z zones_ok_first_seen [OF z, of rid ts]
      zones_ok_mark [OF zones_ok_first_seen [OF z, of rid ts] assms(1,3)]
    by (auto simp: eval_object_left_def d Let_def step_ok_def mem_ok_def zones_ok_del reports_def justified_def)
qed

lemma eval_rule_ok:
  assumes "ids_ok ids" and "mem_ok ids m" and "rule_id r \<in> ids"
  shows "\<exists>res. eval_rule cam r trk prev ts m = Inr res \<and> step_ok cam ids r trk prev ts res"
proof -
  obtain tid label box where trk: "trk = (tid, label, box)" by (cases trk)
  show ?thesis
  proof (cases r)
    case (LineCrossingRule rid a b rc d ls)
    then show ?thesis using eval_line_ok [OF assms(2)] by (simp add: trk)
  next
    case (ZoneIntrusionRule rid z rc w ls)
    then show ?thesis using eval_zone_ok [OF assms(1,2)] assms(3) by (simp add: trk)
  next
    case (LoiteringRule rid z rc w ls)
    then show ?thesis using eval_loiter_ok [OF assms(1,2)] assms(3) by (simp add: trk)
  next
    case (ObjectLeftRule rid z rc w ls)
    then show ?thesis using eval_object_left_ok [OF assms(1,2)] assms(3) by (simp add: trk)
  next
    case (CrowdCountRule rid z rc w ls)
    then show ?thesis using assms(2) by (simp add: trk step_ok_def)
  qed
qed

text \<open>All rules on one track: the events are justified, each by a rule that takes its label.\<close>

definition from_rules ::
  "string \<Rightarrow> rule list \<Rightarrow> tracked \<Rightarrow> point option \<Rightarrow> timestamp \<Rightarrow> analytic_event \<Rightarrow> bool" where
  "from_rules cam rs trk prev ts ev \<longleftrightarrow>
     (\<exists>r \<in> set rs. label_matches (rule_labels r) (fst (snd trk)) \<and>
        reports cam (rule_id r) trk ts ev \<and> justified r trk prev ev)"

lemma eval_rules_ok:
  assumes "ids_ok ids" and "mem_ok ids m" and "rule_id ` set rs \<subseteq> ids"
  shows "\<exists>m' evs. eval_rules cam rs trk prev ts m = Inr (m', evs) \<and> mem_ok ids m' \<and>
    (\<forall>ev \<in> set evs. from_rules cam rs trk prev ts ev)"
  using assms
proof (induction rs arbitrary: m)
  case Nil
  then show ?case by simp
next
  case (Cons r rs)
  have more: "from_rules cam (r # rs) trk prev ts ev" if "from_rules cam rs trk prev ts ev" for ev
    using that by (auto simp: from_rules_def)
  show ?case
  proof (cases "label_matches (rule_labels r) (fst (snd trk))")
    case True
    obtain m1 evs1 where one: "eval_rule cam r trk prev ts m = Inr (m1, evs1)"
      "step_ok cam ids r trk prev ts (m1, evs1)"
      using eval_rule_ok [OF Cons.prems(1,2), of r cam trk prev ts] Cons.prems(3) by auto
    obtain m2 evs2 where rest: "eval_rules cam rs trk prev ts m1 = Inr (m2, evs2)" "mem_ok ids m2"
      "\<forall>ev \<in> set evs2. from_rules cam rs trk prev ts ev"
      using Cons.IH [of m1] Cons.prems one(2) by (auto simp: step_ok_def)
    have "\<forall>ev \<in> set evs1. from_rules cam (r # rs) trk prev ts ev"
      using one(2) True by (auto simp: step_ok_def from_rules_def)
    then show ?thesis using one(1) rest True more by auto
  next
    case False
    then show ?thesis using Cons more by fastforce
  qed
qed

definition last_center_of :: "engine \<Rightarrow> string \<Rightarrow> point option" where
  "last_center_of e tid = tm_last_center (get_mem e tid)"

lemma empty_mem_ok [simp]: "mem_ok ids empty_mem"
  by (simp add: mem_ok_def zones_ok_def empty_mem_def)

lemma get_mem_ok: "engine_ok e \<Longrightarrow> mem_ok (engine_ids e) (get_mem e tid)"
  by (auto simp: get_mem_def engine_ok_def split: option.splits dest!: dict_get_SomeD)

lemma eval_track_ok:
  assumes "engine_ok e"
  shows "\<exists>m' evs. eval_track trk ts e = Inr (e\<lparr>en_mem := dict_set (fst trk) m' (en_mem e)\<rparr>, evs) \<and>
    engine_ok (e\<lparr>en_mem := dict_set (fst trk) m' (en_mem e)\<rparr>) \<and>
    (\<forall>ev \<in> set evs. from_rules (en_camera e) (en_rules e) trk (last_center_of e (fst trk)) ts ev)"
proof -
  obtain tid label box where trk: "trk = (tid, label, box)" by (cases trk)
  define m where "m = get_mem e tid"
  define m1 where "m1 = m\<lparr>tm_bbox := box, tm_label := label, tm_last_center := Some (center box)\<rparr>"
  have ids: "ids_ok (engine_ids e)" using assms by (simp add: engine_ok_def)
  have "mem_ok (engine_ids e) m" unfolding m_def by (rule get_mem_ok [OF assms])
  then have "mem_ok (engine_ids e) m1" by (simp add: m1_def mem_ok_def)
  moreover have "rule_id ` set (en_rules e) \<subseteq> engine_ids e" by (simp add: engine_ids_def)
  ultimately
  have "\<exists>m' evs. eval_rules (en_camera e) (en_rules e) trk (tm_last_center m) ts m1 = Inr (m', evs) \<and>
    mem_ok (engine_ids e) m' \<and>
    (\<forall>ev \<in> set evs. from_rules (en_camera e) (en_rules e) trk (tm_last_center m) ts ev)"
    by (rule eval_rules_ok [OF ids])
  then
  obtain m' evs where r: "eval_rules (en_camera e) (en_rules e) trk (tm_last_center m) ts m1 = Inr (m', evs)"
    "mem_ok (engine_ids e) m'"
    "\<forall>ev \<in> set evs. from_rules (en_camera e) (en_rules e) trk (tm_last_center m) ts ev"
    by blast
  have "engine_ok (e\<lparr>en_mem := dict_set tid m' (en_mem e)\<rparr>)"
    using assms r(2) dict_ok_set_values [of "en_mem e" "mem_ok (engine_ids e)" m' tid]
    by (simp add: engine_ok_def engine_ids_def)
  then show ?thesis
    using r by (intro exI [of _ m'] exI [of _ evs])
      (simp add: eval_track_def trk Let_def m_def [symmetric] m1_def [symmetric] last_center_of_def)
qed

text \<open>
  Every track of the frame: the events are those of some track, whose previous centre is
  known if an earlier frame, or an earlier entry of this one, gave it.
\<close>

definition from_frame :: "engine \<Rightarrow> tracked list \<Rightarrow> timestamp \<Rightarrow> analytic_event \<Rightarrow> bool" where
  "from_frame e tracks ts ev \<longleftrightarrow>
     (\<exists>trk \<in> set tracks. from_rules (en_camera e) (en_rules e) trk (last_center_of e (fst trk)) ts ev)"

lemma last_center_of_other:
  "tid \<noteq> tid' \<Longrightarrow> last_center_of (e\<lparr>en_mem := dict_set tid m (en_mem e)\<rparr>) tid' = last_center_of e tid'"
  by (simp add: last_center_of_def get_mem_def)

lemma eval_tracks_ok:
  assumes "engine_ok e" and "distinct (map fst tracks)"
  shows "\<exists>mem evs. eval_tracks tracks ts e = Inr (e\<lparr>en_mem := mem\<rparr>, evs) \<and>
    engine_ok (e\<lparr>en_mem := mem\<rparr>) \<and> set (dict_keys mem) = set (dict_keys (en_mem e)) \<union> set (map fst tracks) \<and>
    (\<forall>ev \<in> set evs. from_frame e tracks ts ev)"
  using assms
proof (induction tracks arbitrary: e)
  case Nil
  then show ?case by (intro exI [of _ "en_mem e"] exI [of _ "[]"]) simp
next
  case (Cons trk tracks)
  obtain m' evs where one: "eval_track trk ts e = Inr (e\<lparr>en_mem := dict_set (fst trk) m' (en_mem e)\<rparr>, evs)"
    "engine_ok (e\<lparr>en_mem := dict_set (fst trk) m' (en_mem e)\<rparr>)"
    "\<forall>ev \<in> set evs. from_rules (en_camera e) (en_rules e) trk (last_center_of e (fst trk)) ts ev"
    using eval_track_ok [OF Cons.prems(1), of trk ts] by auto
  let ?e = "e\<lparr>en_mem := dict_set (fst trk) m' (en_mem e)\<rparr>"
  obtain mem evs' where rest: "eval_tracks tracks ts ?e = Inr (?e\<lparr>en_mem := mem\<rparr>, evs')"
    "engine_ok (?e\<lparr>en_mem := mem\<rparr>)" "set (dict_keys mem) = set (dict_keys (en_mem ?e)) \<union> set (map fst tracks)"
    "\<forall>ev \<in> set evs'. from_frame ?e tracks ts ev"
    using Cons.IH [OF one(2)] Cons.prems(2) by auto
  have later: "from_frame e (trk # tracks) ts ev" if ev: "from_frame ?e tracks ts ev" for ev
  proof -
    from ev obtain u where u: "u \<in> set tracks"
      "from_rules (en_camera ?e) (en_rules ?e) u (last_center_of ?e (fst u)) ts ev"
      by (auto simp: from_frame_def)
    moreover have "fst trk \<noteq> fst u" using Cons.prems(2) u(1) by force
    ultimately show ?thesis by (auto simp: from_frame_def last_center_of_other)
  qed
  have "from_frame e (trk # tracks) ts ev" if "ev \<in> set (evs @ evs')" for ev
    using that one(3) rest(4) later by (auto simp: from_frame_def)
  then show ?case
    using one(1) rest by (intro exI [of _ mem] exI [of _ "evs @ evs'"]) simp
qed

section \<open>Crowds\<close>

definition crowd_event :: "string \<Rightarrow> rule list \<Rightarrow> tracked list \<Rightarrow> timestamp \<Rightarrow> analytic_event \<Rightarrow> bool" where
  "crowd_event cam rs tracks ts ev \<longleftrightarrow>
     (\<exists>rid z rc thr ls. CrowdCountRule rid z rc thr ls \<in> set rs \<and> ae_rule ev = rid \<and>
        ae_kind ev = Crowd \<and> ae_camera ev = cam \<and> ae_ts ev = ts \<and>
        thr \<le> of_nat (crowd_count tracks z ls) \<and> ae_detail ev = Count (crowd_count tracks z ls) \<and>
        (\<exists>trk \<in> set tracks. label_matches ls (fst (snd trk)) \<and> ae_bbox ev = snd (snd trk)))"

lemma first_max_in: "first_max k xs = Some x \<Longrightarrow> x \<in> set xs"
  by (induction xs arbitrary: x) (auto split: option.splits if_splits)

lemma first_max_some: "xs \<noteq> [] \<Longrightarrow> \<exists>x. first_max k xs = Some x"
  by (cases xs) (auto split: option.split)

lemma crowd_box_ok:
  assumes "0 < crowd_count tracks z ls"
  shows "\<exists>trk \<in> set tracks. label_matches ls (fst (snd trk)) \<and> crowd_box tracks ls = Inr (snd (snd trk))"
proof -
  have "filter (\<lambda>(tid, l, b). label_matches ls l \<and> point_in_polygon (center b) z) tracks \<noteq> []"
    using assms by (simp add: crowd_count_def)
  then obtain u where "u \<in> set tracks" "label_matches ls (fst (snd u))"
    by (auto simp: filter_empty_conv)
  then have "u \<in> set (filter (\<lambda>(_, l, _). label_matches ls l) tracks)"
    by (simp add: case_prod_unfold)
  then have ne: "tracks \<noteq> []" "filter (\<lambda>(_, l, _). label_matches ls l) tracks \<noteq> []"
    by (metis list.set(1) empty_iff filter.simps(1))+
  then obtain trk where t: "first_max (\<lambda>(_, _, b). bbox_size b)
      (filter (\<lambda>(_, l, _). label_matches ls l) tracks) = Some trk"
    using first_max_some by blast
  have "trk \<in> set tracks \<and> label_matches ls (fst (snd trk))"
    using first_max_in [OF t] by (auto simp: case_prod_unfold)
  moreover have "crowd_box tracks ls = Inr (snd (snd trk))"
    using ne t by (cases trk) (simp add: crowd_box_def)
  ultimately show ?thesis by blast
qed

lemma eval_crowd_ok:
  assumes "list_all crowd_ok rs"
  shows "\<exists>crowd' evs. eval_crowd cam rs tracks ts crowd = Inr (crowd', evs) \<and>
    (\<forall>ev \<in> set evs. crowd_event cam rs tracks ts ev)"
  using assms
proof (induction rs arbitrary: crowd)
  case Nil
  show ?case by simp
next
  case (Cons r rs)
  have ok: "list_all crowd_ok rs" using Cons.prems by simp
  have more: "crowd_event cam (r # rs) tracks ts ev" if "crowd_event cam rs tracks ts ev" for ev
    using that unfolding crowd_event_def by (meson list.set_intros(2))
  obtain crowd1 ev1 where step: "\<And>crowd' evs. eval_crowd cam rs tracks ts crowd1 = Inr (crowd', evs) \<Longrightarrow>
      eval_crowd cam (r # rs) tracks ts crowd = Inr (crowd', ev1 @ evs)"
    "\<forall>ev \<in> set ev1. crowd_event cam (r # rs) tracks ts ev"
  proof (cases r)
    case (CrowdCountRule rid zone rc thr labels)
    define n where "n = crowd_count tracks zone labels"
    show thesis
    proof (cases "of_nat n \<ge> thr \<and> dict_get crowd rid \<noteq> Some True")
      case True
      moreover have "0 < thr" using Cons.prems CrowdCountRule by (simp add: crowd_ok_def)
      ultimately have "0 < n" by (cases n) auto
      then obtain trk where trk: "trk \<in> set tracks" "label_matches labels (fst (snd trk))"
        "crowd_box tracks labels = Inr (snd (snd trk))"
        using crowd_box_ok [of tracks zone labels] unfolding n_def by blast
      let ?ev = "\<lparr>ae_rule = rid, ae_kind = Crowd, ae_camera = cam, ae_track = [],
         ae_label = ''person'', ae_bbox = snd (snd trk), ae_ts = ts,
         ae_score = of_nat n, ae_detail = Count n\<rparr>"
      have "crowd_event cam (r # rs) tracks ts ?ev"
        unfolding crowd_event_def using trk True
        by (intro exI [of _ rid] exI [of _ zone] exI [of _ rc] exI [of _ thr] exI [of _ labels])
          (auto simp: n_def CrowdCountRule)
      then show thesis
        using True trk(3)
        by (intro that [of "dict_set rid True crowd" "[?ev]"])
          (simp_all add: CrowdCountRule n_def [symmetric] Let_def)
    next
      case False
      then show thesis
        by (intro that [of "if of_nat n < thr then dict_set rid False crowd else crowd" "[]"])
          (auto simp add: CrowdCountRule n_def [symmetric] Let_def)
    qed
  qed (rule that [of crowd "[]"]; simp)+
  then show ?case using Cons.IH [OF ok, of crowd1] more by fastforce
qed

section \<open>Evaluation of a frame\<close>

lemma evaluate_frame:
  assumes "engine_ok e" and "distinct (map fst tracks)"
  shows "\<exists>e' evs. evaluate tracks ts e = Inr (e', evs) \<and> engine_ok e' \<and>
    en_rules e' = en_rules e \<and> en_camera e' = en_camera e \<and>
    set (dict_keys (en_mem e')) = set (map fst tracks) \<and>
    (\<forall>ev \<in> set evs. from_frame e tracks ts ev \<or> crowd_event (en_camera e) (en_rules e) tracks ts ev)"
proof -
  obtain mem evs where t: "eval_tracks tracks ts e = Inr (e\<lparr>en_mem := mem\<rparr>, evs)"
    "engine_ok (e\<lparr>en_mem := mem\<rparr>)"
    "set (dict_keys mem) = set (dict_keys (en_mem e)) \<union> set (map fst tracks)"
    "\<forall>ev \<in> set evs. from_frame e tracks ts ev"
    using eval_tracks_ok [OF assms] by blast
  have crowds: "list_all crowd_ok (en_rules e)" using assms(1) by (simp add: engine_ok_def)
  obtain crowd evs' where c: "eval_crowd (en_camera e) (en_rules e) tracks ts (en_crowd e) = Inr (crowd, evs')"
    "\<forall>ev \<in> set evs'. crowd_event (en_camera e) (en_rules e) tracks ts ev"
    using eval_crowd_ok [OF crowds, of "en_camera e" tracks ts "en_crowd e"] by blast
  let ?e = "e\<lparr>en_mem := mem, en_crowd := crowd,
      en_mem := filter (\<lambda>(tid, _). tid \<in> set (map fst tracks)) mem\<rparr>"
  have "engine_ok ?e" using t(2) by (auto simp: engine_ok_def engine_ids_def)
  moreover have "set (dict_keys (en_mem ?e)) = set (map fst tracks)"
    using t(3) by (auto simp: dict_keys_filter)
  ultimately show ?thesis
  proof (intro exI conjI)
    show "evaluate tracks ts e = Inr (?e, evs @ evs')" using t(1) c(1) by (simp add: evaluate_def)
    show "\<forall>ev \<in> set (evs @ evs'). from_frame e tracks ts ev \<or>
        crowd_event (en_camera e) (en_rules e) tracks ts ev"
      using t(4) c(2) by (simp only: set_append ball_Un) blast
  qed simp_all
qed

text \<open>
  Evaluating a frame never fails when rule ids are unmarked, crowd thresholds positive
  and track ids distinct. The engine stays well formed and remembers exactly the tracks of
  the frame. Every event is that of one of its rules: a track's event reports that track's
  label and box at this time, the rule takes the label, and the geometry bears it out
  (the wire was crossed in the wanted direction, the centre is in the zone, or it has left
  it); a crowd event counts at least the threshold and shows a track the rule takes.
\<close>

theorem evaluate_sound:
  assumes "engine_ok e" and "distinct (map fst tracks)"
  shows "\<exists>e' evs. evaluate tracks ts e = Inr (e', evs) \<and> engine_ok e' \<and> en_rules e' = en_rules e \<and>
    set (dict_keys (en_mem e')) = set (map fst tracks) \<and>
    (\<forall>ev \<in> set evs. from_frame e tracks ts ev \<or> crowd_event (en_camera e) (en_rules e) tracks ts ev)"
  using evaluate_frame [OF assms] by blast

section \<open>Dwell alarms: the reference\<close>

text \<open>
  What a dwell rule promises of a track observed inside or outside its zone: one alarm for
  each maximal stay, at the first moment the time since the entry is due.
\<close>

function stays :: "(bool \<times> timestamp) list \<Rightarrow> timestamp list list" where
  "stays [] = []"
| "stays ((False, t) # obs) = stays obs"
| "stays ((True, t) # obs) = (t # map snd (takeWhile fst obs)) # stays (dropWhile fst obs)"
  by pat_completeness auto
termination
  by (relation "measure length") (auto simp: le_imp_less_Suc length_dropWhile_le)

definition stay_alarm :: "(real \<Rightarrow> bool) \<Rightarrow> timestamp list \<Rightarrow> timestamp list" where
  "stay_alarm due st = (case find (\<lambda>t. due (total_seconds (t - hd st))) st of None \<Rightarrow> [] | Some t \<Rightarrow> [t])"

definition dwell_alarms :: "(real \<Rightarrow> bool) \<Rightarrow> (bool \<times> timestamp) list \<Rightarrow> timestamp list" where
  "dwell_alarms due obs = concat (map (stay_alarm due) (stays obs))"

text \<open>The rule's memory of one track, and its step, apart from how the engine stores them.\<close>

type_synonym dwell_state = "timestamp option \<times> bool"

definition dwell_step :: "(real \<Rightarrow> bool) \<Rightarrow> bool \<times> timestamp \<Rightarrow> dwell_state \<Rightarrow> dwell_state \<times> timestamp list" where
  "dwell_step due ob v =
     (if fst ob then
        (let t0 = (case fst v of None \<Rightarrow> snd ob | Some t \<Rightarrow> t);
             fire = due (total_seconds (snd ob - t0)) \<and> \<not> snd v
         in ((Some t0, snd v \<or> fire), if fire then [snd ob] else []))
      else ((None, False), []))"

fun dwell_run :: "(real \<Rightarrow> bool) \<Rightarrow> (bool \<times> timestamp) list \<Rightarrow> dwell_state \<Rightarrow> timestamp list" where
  "dwell_run due [] v = []"
| "dwell_run due (ob # obs) v = snd (dwell_step due ob v) @ dwell_run due obs (fst (dwell_step due ob v))"

lemma dwell_run_staying:
  "dwell_run due obs (Some t0, b) =
     (if b then [] else
        (case find (\<lambda>t. due (total_seconds (t - t0))) (map snd (takeWhile fst obs)) of None \<Rightarrow> [] | Some t \<Rightarrow> [t]))
     @ dwell_run due (dropWhile fst obs) (None, False)"
  by (induction obs arbitrary: b) (auto simp: dwell_step_def Let_def)

lemma dwell_run_alarms: "dwell_run due obs (None, False) = dwell_alarms due obs"
proof (induction obs rule: stays.induct)
  case (3 t obs)
  then show ?case
    by (auto simp: dwell_alarms_def stay_alarm_def dwell_step_def Let_def dwell_run_staying)
qed (simp_all add: dwell_alarms_def dwell_step_def)

section \<open>Dwell alarms: the engine refines the reference\<close>

definition dwell_view :: "string \<Rightarrow> (string, zone_mark) dict \<Rightarrow> dwell_state" where
  "dwell_view rid zones =
     (case dict_get zones rid of Some (Since t) \<Rightarrow> Some t | _ \<Rightarrow> None,
      dict_get zones (fired_key rid) = Some Marked)"

definition mem_view :: "string \<Rightarrow> track_mem \<Rightarrow> dwell_state \<times> dwell_state" where
  "mem_view rid m = (dwell_view rid (tm_inside_zones m), dwell_view rid (tm_loiter_zones m))"

text \<open>What a rule requires before it alarms, and which of the two memories it uses.\<close>

fun dwell_rule :: "rule \<Rightarrow> (point list \<times> (real \<Rightarrow> bool)) option" where
  "dwell_rule (ZoneIntrusionRule _ z _ w _) = Some (z, \<lambda>d. w = 0 \<or> w \<le> d)"
| "dwell_rule (LoiteringRule _ z _ w _) = Some (z, \<lambda>d. w \<le> d)"
| "dwell_rule _ = None"

fun rule_view :: "rule \<Rightarrow> track_mem \<Rightarrow> dwell_state" where
  "rule_view (ZoneIntrusionRule rid _ _ _ _) m = dwell_view rid (tm_inside_zones m)"
| "rule_view r m = dwell_view (rule_id r) (tm_loiter_zones m)"

lemma rule_view_mem_view:
  "mem_view (rule_id r) m = mem_view (rule_id r) m' \<Longrightarrow> rule_view r m = rule_view r m'"
  by (cases r) (simp_all add: mem_view_def)

lemma dwell_view_other:
  assumes "rid' \<noteq> rid" and "ids_ok ids" and "rid \<in> ids" and "rid' \<in> ids"
    and "k \<in> {rid', fired_key rid', left_key rid'}"
  shows "dwell_view rid (dict_set k v z) = dwell_view rid z \<and> dwell_view rid (dict_del k z) = dwell_view rid z"
proof -
  have "k \<noteq> rid" "k \<noteq> fired_key rid"
    using assms ids_okD [OF assms(2,3,4)] ids_okD [OF assms(2,4,3)] by auto
  then show ?thesis by (simp add: dwell_view_def)
qed

lemma eval_rule_other:
  assumes e: "eval_rule cam r trk prev ts m = Inr (m', evs)"
    and ids: "rule_id r \<noteq> rid" "ids_ok ids" "rid \<in> ids" "rule_id r \<in> ids"
  shows "mem_view rid m' = mem_view rid m"
proof -
  obtain tid label box where trk: "trk = (tid, label, box)" by (cases trk)
  note same = dwell_view_other [OF ids(1) ids(2) ids(3) ids(4)]
  have first: "dwell_view rid (first_seen_in (rule_id r) ts z) = dwell_view rid z" for z
    using same [of "rule_id r"] by (simp add: first_seen_in_def)
  show ?thesis
    using e first same
    by (cases r)
      (auto simp: trk mem_view_def eval_line_def eval_zone_def eval_loiter_def eval_object_left_def Let_def
        split: if_splits sum.splits option.splits)
qed

lemma eval_rule_dwell:
  assumes e: "eval_rule cam r trk prev ts m = Inr (m', evs)" and d: "dwell_rule r = Some (z, due)"
  shows "(rule_view r m', map ae_ts evs) =
    dwell_step due (point_in_polygon (center (snd (snd trk))) z, ts) (rule_view r m)"
proof -
  obtain tid label box where trk: "trk = (tid, label, box)" by (cases trk)
  show ?thesis
  proof (cases r)
    case (ZoneIntrusionRule rid z' rc w ls)
    then show ?thesis
      using e d
      by (auto simp: trk eval_zone_def dwell_step_def Let_def dwell_view_def dwell_of_first_seen first_seen_in_get
          split: if_splits option.splits zone_mark.splits)
  next
    case (LoiteringRule rid z' rc w ls)
    then show ?thesis
      using e d
      by (auto simp: trk eval_loiter_def dwell_step_def Let_def dwell_view_def dwell_of_first_seen first_seen_in_get
          split: if_splits option.splits zone_mark.splits)
  qed (use d in auto)
qed

definition alarms_of :: "string \<Rightarrow> string \<Rightarrow> analytic_event list \<Rightarrow> timestamp list" where
  "alarms_of rid tid evs = map ae_ts (filter (\<lambda>ev. ae_rule ev = rid \<and> ae_track ev = tid) evs)"

lemma alarms_of_append [simp]: "alarms_of rid tid (xs @ ys) = alarms_of rid tid xs @ alarms_of rid tid ys"
  by (simp add: alarms_of_def)

lemma alarms_of_Nil: "\<forall>ev \<in> set evs. ae_rule ev = rid \<longrightarrow> ae_track ev \<noteq> tid \<Longrightarrow> alarms_of rid tid evs = []"
  by (auto simp: alarms_of_def filter_empty_conv)

lemma alarms_of_all:
  "\<forall>ev \<in> set evs. ae_rule ev = rid \<and> ae_track ev = tid \<Longrightarrow> alarms_of rid tid evs = map ae_ts evs"
  by (simp add: alarms_of_def)

lemma eval_rules_other:
  assumes "eval_rules cam rs trk prev ts m = Inr (m', evs)"
    and "ids_ok ids" and "mem_ok ids m" and "rule_id ` set rs \<subseteq> ids" and "rid \<in> ids"
    and "rid \<notin> rule_id ` set rs"
  shows "mem_view rid m' = mem_view rid m \<and> alarms_of rid tid evs = []"
  using assms
proof (induction rs arbitrary: m evs)
  case Nil
  then show ?case by (simp add: alarms_of_def)
next
  case (Cons r rs)
  show ?case
  proof (cases "label_matches (rule_labels r) (fst (snd trk))")
    case True
    then obtain m1 e1 e2 where s: "eval_rule cam r trk prev ts m = Inr (m1, e1)"
      "eval_rules cam rs trk prev ts m1 = Inr (m', e2)" "evs = e1 @ e2"
      using Cons.prems(1) by (auto split: sum.splits)
    have ok: "step_ok cam ids r trk prev ts (m1, e1)"
      using eval_rule_ok [OF Cons.prems(2,3), of r cam trk prev ts] Cons.prems(4) s(1) by auto
    then have "alarms_of rid tid e1 = []"
      using Cons.prems(6) by (intro alarms_of_Nil) (auto simp: step_ok_def reports_def)
    moreover have "mem_view rid m1 = mem_view rid m"
      using Cons.prems by (intro eval_rule_other [OF s(1)]) auto
    moreover have "mem_view rid m' = mem_view rid m1 \<and> alarms_of rid tid e2 = []"
      using ok Cons.prems by (intro Cons.IH [OF s(2)]) (auto simp: step_ok_def)
    ultimately show ?thesis by (simp add: s(3))
  next
    case False
    then show ?thesis using Cons by simp
  qed
qed

lemma eval_rules_dwell:
  assumes "eval_rules cam rs trk prev ts m = Inr (m', evs)"
    and "ids_ok ids" and "mem_ok ids m" and "rule_id ` set rs \<subseteq> ids" and "distinct (map rule_id rs)"
    and "r \<in> set rs" and "dwell_rule r = Some (z, due)"
    and "label_matches (rule_labels r) (fst (snd trk))"
  shows "(rule_view r m', alarms_of (rule_id r) (fst trk) evs) =
    dwell_step due (point_in_polygon (center (snd (snd trk))) z, ts) (rule_view r m)"
  using assms
proof (induction rs arbitrary: m evs)
  case (Cons q rs)
  show ?case
  proof (cases "label_matches (rule_labels q) (fst (snd trk))")
    case True
    then obtain m1 e1 e2 where s: "eval_rule cam q trk prev ts m = Inr (m1, e1)"
      "eval_rules cam rs trk prev ts m1 = Inr (m', e2)" "evs = e1 @ e2"
      using Cons.prems(1) by (auto split: sum.splits)
    have ok: "step_ok cam ids q trk prev ts (m1, e1)"
      using eval_rule_ok [OF Cons.prems(2,3), of q cam trk prev ts] Cons.prems(4) s(1) by auto
    then have m1: "mem_ok ids m1" by (simp add: step_ok_def)
    have sub: "rule_id ` set rs \<subseteq> ids" "rule_id r \<in> ids" using Cons.prems by auto
    show ?thesis
    proof (cases "q = r")
      case True
      have "rule_id r \<notin> rule_id ` set rs" using Cons.prems(5) True by force
      from eval_rules_other [OF s(2) Cons.prems(2) m1 sub this, of "fst trk"]
      have "rule_view r m' = rule_view r m1" "alarms_of (rule_id r) (fst trk) e2 = []"
        using rule_view_mem_view by blast+
      moreover have "alarms_of (rule_id r) (fst trk) e1 = map ae_ts e1"
        using ok True by (intro alarms_of_all) (simp add: step_ok_def reports_def)
      ultimately show ?thesis using eval_rule_dwell [OF _ Cons.prems(7)] s(1,3) True by simp
    next
      case False
      then have r: "r \<in> set rs" and ne: "rule_id q \<noteq> rule_id r" using Cons.prems(5,6) by auto
      have "rule_view r m1 = rule_view r m"
        using Cons.prems(4) sub
        by (intro rule_view_mem_view eval_rule_other [OF s(1) ne Cons.prems(2)]) auto
      moreover have "alarms_of (rule_id r) (fst trk) e1 = []"
        using ok ne by (intro alarms_of_Nil) (auto simp: step_ok_def reports_def)
      moreover have "(rule_view r m', alarms_of (rule_id r) (fst trk) e2) =
          dwell_step due (point_in_polygon (center (snd (snd trk))) z, ts) (rule_view r m1)"
        using Cons.prems r sub by (intro Cons.IH [OF s(2) Cons.prems(2) m1]) auto
      ultimately show ?thesis by (simp add: s(3))
    qed
  next
    case False
    with Cons.prems have "q \<noteq> r" by auto
    with False Cons show ?thesis by simp
  qed
qed simp

text \<open>One frame, seen from one rule and one track of it.\<close>

definition engine_view :: "rule \<Rightarrow> string \<Rightarrow> engine \<Rightarrow> dwell_state" where
  "engine_view r tid e = rule_view r (get_mem e tid)"

lemma rule_view_bookkeeping [simp]:
  "rule_view r (m\<lparr>tm_bbox := b, tm_label := l, tm_last_center := c\<rparr>) = rule_view r m"
  by (cases r) simp_all

lemma get_mem_set [simp]:
  "get_mem (e\<lparr>en_mem := dict_set tid m (en_mem e)\<rparr>) tid' = (if tid' = tid then m else get_mem e tid')"
  by (simp add: get_mem_def)

lemma eval_track_other:
  assumes "eval_track trk ts e = Inr (e', evs)" and "engine_ok e" and "fst trk \<noteq> tid"
  shows "engine_view r tid e' = engine_view r tid e \<and> alarms_of rid tid evs = []"
proof -
  obtain m' evs' where o: "eval_track trk ts e = Inr (e\<lparr>en_mem := dict_set (fst trk) m' (en_mem e)\<rparr>, evs')"
    "\<forall>ev \<in> set evs'. from_rules (en_camera e) (en_rules e) trk (last_center_of e (fst trk)) ts ev"
    using eval_track_ok [OF assms(2), of trk ts] by blast
  then have e: "evs' = evs" "e' = e\<lparr>en_mem := dict_set (fst trk) m' (en_mem e)\<rparr>" using assms(1) by simp_all
  have "alarms_of rid tid evs = []"
    using o(2) assms(3) by (intro alarms_of_Nil) (auto simp: e(1) from_rules_def reports_def)
  then show ?thesis using assms(3) by (simp add: e(2) engine_view_def)
qed

lemma eval_track_dwell:
  assumes "eval_track trk ts e = Inr (e', evs)" and "engine_ok e" and "distinct (map rule_id (en_rules e))"
    and r: "r \<in> set (en_rules e)" "dwell_rule r = Some (z, due)"
      "label_matches (rule_labels r) (fst (snd trk))"
  shows "(engine_view r (fst trk) e', alarms_of (rule_id r) (fst trk) evs) =
    dwell_step due (point_in_polygon (center (snd (snd trk))) z, ts) (engine_view r (fst trk) e)"
proof -
  obtain tid label box where trk: "trk = (tid, label, box)" by (cases trk)
  define m1 where "m1 = (get_mem e tid)\<lparr>tm_bbox := box, tm_label := label, tm_last_center := Some (center box)\<rparr>"
  obtain m2 where m2: "eval_rules (en_camera e) (en_rules e) trk (tm_last_center (get_mem e tid)) ts m1 = Inr (m2, evs)"
    "e' = e\<lparr>en_mem := dict_set tid m2 (en_mem e)\<rparr>"
    using assms(1) by (auto simp: eval_track_def trk Let_def m1_def split: sum.splits)
  have ids: "ids_ok (engine_ids e)" using assms(2) by (simp add: engine_ok_def)
  have m1: "mem_ok (engine_ids e) m1" using get_mem_ok [OF assms(2), of tid] by (simp add: m1_def mem_ok_def)
  have sub: "rule_id ` set (en_rules e) \<subseteq> engine_ids e" by (simp add: engine_ids_def)
  from eval_rules_dwell [OF m2(1) ids m1 sub assms(3) r]
  show ?thesis by (simp add: engine_view_def m2(2) trk) (simp add: m1_def)
qed

lemma eval_tracks_other:
  assumes "eval_tracks tracks ts e = Inr (e', evs)" and "engine_ok e" and "tid \<notin> fst ` set tracks"
  shows "engine_view r tid e' = engine_view r tid e \<and> alarms_of rid tid evs = []"
  using assms
proof (induction tracks arbitrary: e evs)
  case Nil
  then show ?case by (simp add: alarms_of_def)
next
  case (Cons trk tracks)
  obtain e1 v1 v2 where s: "eval_track trk ts e = Inr (e1, v1)" "eval_tracks tracks ts e1 = Inr (e', v2)"
    "evs = v1 @ v2"
    using Cons.prems(1) by (auto split: sum.splits)
  have "engine_ok e1" using eval_track_ok [OF Cons.prems(2), of trk ts] s(1) by auto
  moreover have "engine_view r tid e1 = engine_view r tid e \<and> alarms_of rid tid v1 = []"
    using Cons.prems(3) by (intro eval_track_other [OF s(1) Cons.prems(2)]) auto
  ultimately show ?case using Cons.IH [OF s(2)] Cons.prems(3) by (simp add: s(3))
qed

lemma eval_tracks_dwell:
  assumes "eval_tracks tracks ts e = Inr (e', evs)" and "engine_ok e" and "distinct (map fst tracks)"
    and "distinct (map rule_id (en_rules e))"
    and r: "r \<in> set (en_rules e)" "dwell_rule r = Some (z, due)"
    and trk: "map_of tracks tid = Some (label, box)" "label_matches (rule_labels r) label"
  shows "(engine_view r tid e', alarms_of (rule_id r) tid evs) =
    dwell_step due (point_in_polygon (center box) z, ts) (engine_view r tid e)"
  using assms
proof (induction tracks arbitrary: e evs)
  case (Cons u tracks)
  obtain e1 v1 v2 where s: "eval_track u ts e = Inr (e1, v1)" "eval_tracks tracks ts e1 = Inr (e', v2)"
    "evs = v1 @ v2"
    using Cons.prems(1) by (auto split: sum.splits)
  have e1: "engine_ok e1" "en_rules e1 = en_rules e"
    using eval_track_ok [OF Cons.prems(2), of u ts] s(1) by auto
  show ?case
  proof (cases "fst u = tid")
    case True
    then have u: "u = (tid, label, box)" using Cons.prems(7) by (cases u) auto
    have "tid \<notin> fst ` set tracks" using Cons.prems(3) True by auto
    from eval_tracks_other [OF s(2) e1(1) this, of r "rule_id r"]
    show ?thesis
      using eval_track_dwell [OF s(1) Cons.prems(2,4,5,6)] Cons.prems(8) by (simp add: u s(3))
  next
    case False
    have "map_of tracks tid = Some (label, box)" using Cons.prems(7) False by (cases u) auto
    then have "(engine_view r tid e', alarms_of (rule_id r) tid v2) =
        dwell_step due (point_in_polygon (center box) z, ts) (engine_view r tid e1)"
      using Cons.prems e1 by (intro Cons.IH [OF s(2)]) simp_all
    then show ?thesis
      using eval_track_other [OF s(1) Cons.prems(2) False, of r "rule_id r"] by (simp add: s(3))
  qed
qed simp

lemma evaluate_dwell:
  assumes "evaluate tracks ts e = Inr (e', evs)" and "engine_ok e" and "distinct (map fst tracks)"
    and "distinct (map rule_id (en_rules e))"
    and r: "r \<in> set (en_rules e)" "dwell_rule r = Some (z, due)"
    and trk: "map_of tracks tid = Some (label, box)" "label_matches (rule_labels r) label"
  shows "(engine_view r tid e', alarms_of (rule_id r) tid evs) =
    dwell_step due (point_in_polygon (center box) z, ts) (engine_view r tid e)"
proof -
  obtain e1 v1 crowd v2 where s: "eval_tracks tracks ts e = Inr (e1, v1)"
    "eval_crowd (en_camera e1) (en_rules e1) tracks ts (en_crowd e1) = Inr (crowd, v2)"
    "e' = e1\<lparr>en_crowd := crowd, en_mem := filter (\<lambda>(tid, _). tid \<in> set (map fst tracks)) (en_mem e1)\<rparr>"
    "evs = v1 @ v2"
    using assms(1) by (auto simp: evaluate_def split: sum.splits)
  have rules: "en_rules e1 = en_rules e"
    using eval_tracks_ok [OF assms(2,3), of ts] s(1) by auto
  have "tid \<in> set (map fst tracks)" using trk(1) map_of_SomeD by force
  then have "engine_view r tid e' = engine_view r tid e1"
    by (simp add: s(3) engine_view_def get_mem_def dict_get_filter_keys)
  moreover have "list_all crowd_ok (en_rules e1)" using assms(2) rules by (simp add: engine_ok_def)
  then have "\<forall>ev \<in> set v2. crowd_event (en_camera e1) (en_rules e1) tracks ts ev"
    using eval_crowd_ok [of "en_rules e1" "en_camera e1" tracks ts "en_crowd e1"] s(2) by auto
  moreover have "rid \<noteq> rule_id r" if "CrowdCountRule rid z' rc w ls \<in> set (en_rules e)" for rid z' rc w ls
  proof
    assume "rid = rule_id r"
    then have "r = CrowdCountRule rid z' rc w ls"
      using that r(1) assms(4) by (intro inj_onD [of rule_id "set (en_rules e)"]) (simp_all add: distinct_map)
    then have "dwell_rule r = None" by (metis dwell_rule.simps(5))
    with r(2) show False by simp
  qed
  ultimately have "alarms_of (rule_id r) tid v2 = []"
    by (intro alarms_of_Nil) (auto simp: crowd_event_def rules)
  with \<open>engine_view r tid e' = engine_view r tid e1\<close> show ?thesis
    using eval_tracks_dwell [OF s(1) assms(2-8)] by (simp add: s(4))
qed

section \<open>Runs of frames\<close>

fun evaluate_run ::
  "(tracked list \<times> timestamp) list \<Rightarrow> engine \<Rightarrow> py_error + (engine \<times> analytic_event list)" where
  "evaluate_run [] e = Inr (e, [])"
| "evaluate_run (f # fs) e =
     bind_ok (evaluate (fst f) (snd f) e) (\<lambda>(e', evs).
     bind_ok (evaluate_run fs e') (\<lambda>(e'', evs'). Inr (e'', evs @ evs')))"

definition sighting :: "point list \<Rightarrow> string \<Rightarrow> tracked list \<times> timestamp \<Rightarrow> bool \<times> timestamp" where
  \<comment> \<open>whether the track's centre is in the zone in this frame\<close>
  "sighting z tid f =
     (case map_of (fst f) tid of None \<Rightarrow> False | Some (_, box) \<Rightarrow> point_in_polygon (center box) z, snd f)"

definition frames_ok :: "rule \<Rightarrow> string \<Rightarrow> (tracked list \<times> timestamp) list \<Rightarrow> bool" where
  \<comment> \<open>every frame shows the track, under a label the rule takes, and no id twice\<close>
  "frames_ok r tid fs \<longleftrightarrow> list_all (\<lambda>f. distinct (map fst (fst f)) \<and>
     (case map_of (fst f) tid of None \<Rightarrow> False | Some (label, _) \<Rightarrow> label_matches (rule_labels r) label)) fs"

lemma evaluate_run_dwell:
  assumes "engine_ok e" and "distinct (map rule_id (en_rules e))"
    and "r \<in> set (en_rules e)" and "dwell_rule r = Some (z, due)" and "frames_ok r tid fs"
  shows "\<exists>e' evs. evaluate_run fs e = Inr (e', evs) \<and>
    alarms_of (rule_id r) tid evs = dwell_run due (map (sighting z tid) fs) (engine_view r tid e)"
  using assms
proof (induction fs arbitrary: e)
  case Nil
  show ?case by (simp add: alarms_of_def)
next
  case (Cons f fs)
  obtain label box where t: "distinct (map fst (fst f))" "map_of (fst f) tid = Some (label, box)"
    "label_matches (rule_labels r) label" "frames_ok r tid fs"
    using Cons.prems(5) by (auto simp: frames_ok_def split: option.splits)
  obtain e1 v1 where s: "evaluate (fst f) (snd f) e = Inr (e1, v1)" "engine_ok e1" "en_rules e1 = en_rules e"
    using evaluate_frame [OF Cons.prems(1) t(1), of "snd f"] by (elim exE conjE)
  obtain e2 v2 where rest: "evaluate_run fs e1 = Inr (e2, v2)"
    "alarms_of (rule_id r) tid v2 = dwell_run due (map (sighting z tid) fs) (engine_view r tid e1)"
    using Cons.IH [OF s(2)] Cons.prems(2-4) s(3) t(4) by auto
  have "(engine_view r tid e1, alarms_of (rule_id r) tid v1) =
      dwell_step due (sighting z tid f) (engine_view r tid e)"
    using evaluate_dwell [OF s(1) Cons.prems(1) t(1) Cons.prems(2-4) t(2,3)] by (simp add: sighting_def t(2))
  then have "engine_view r tid e1 = fst (dwell_step due (sighting z tid f) (engine_view r tid e))"
    "alarms_of (rule_id r) tid v1 = snd (dwell_step due (sighting z tid f) (engine_view r tid e))"
    by (metis fst_conv, metis snd_conv)
  then show ?case using s(1) rest by simp
qed

text \<open>
  C4. Zone intrusion and loitering alarms are exact. Over any run of frames that show a
  track the engine did not know, however its other rules and tracks interleave, the alarms
  of a rule for the track are those of the reference: one per maximal stay of the centre in
  the zone, raised in the first frame in which the time since entry is due.
\<close>

theorem dwell_alarms_exact:
  assumes "engine_ok e" and "distinct (map rule_id (en_rules e))" and "dict_get (en_mem e) tid = None"
    and "r \<in> set (en_rules e)" and "dwell_rule r = Some (z, due)" and "frames_ok r tid fs"
  shows "\<exists>e' evs. evaluate_run fs e = Inr (e', evs) \<and>
    alarms_of (rule_id r) tid evs = dwell_alarms due (map (sighting z tid) fs)"
proof -
  have "engine_view r tid e = (None, False)"
    using assms(3) by (cases r) (simp_all add: engine_view_def get_mem_def dwell_view_def empty_mem_def)
  then show ?thesis
    using evaluate_run_dwell [OF assms(1,2,4,5,6)] by (simp add: dwell_run_alarms)
qed

text \<open>A door zone watched for loitering, beside a tripwire; a person stays, leaves and returns.\<close>

definition door :: "point list" where
  "door = [(0, 0), (1/2, 0), (1/2, 1), (0, 1)]"

definition loiter_rule :: rule where
  "loiter_rule = LoiteringRule ''door'' door ''cam'' 30 [''person'']"

definition wire_rule :: rule where
  "wire_rule = LineCrossingRule ''wire'' (1/2, 0) (1/2, 1) ''cam'' None [''person'']"

definition door_engine :: engine where
  "door_engine = add_rule wire_rule (add_rule loiter_rule (new_engine ''cam''))"

definition seen_at :: "real \<Rightarrow> timestamp \<Rightarrow> tracked list \<times> timestamp" where
  "seen_at x s = ([(''t'', ''person'', (x, 2/5, 1/5, 1/5))], s * 1000000)"

definition visit :: "(tracked list \<times> timestamp) list" where
  "visit = [seen_at (1/5) 0, seen_at (1/5) 20, seen_at (1/5) 40, seen_at (1/5) 45, seen_at (3/5) 50, seen_at (1/5) 60, seen_at (1/5) 89]"

lemma door_engine_ok: "engine_ok door_engine" "distinct (map rule_id (en_rules door_engine))"
  by (simp_all add: engine_ok_def door_engine_def add_rule_def wire_rule_def loiter_rule_def new_engine_def
      engine_ids_def ids_ok_def fired_key_def left_key_def crowd_ok_def)

lemma visit_frames_ok: "r \<in> set (en_rules door_engine) \<Longrightarrow> frames_ok r ''t'' visit"
  by (auto simp: frames_ok_def visit_def seen_at_def label_matches_def door_engine_def add_rule_def wire_rule_def
      loiter_rule_def new_engine_def)

theorem dwell_alarms_exact_witness:
  "\<exists>e' evs. evaluate_run visit door_engine = Inr (e', evs) \<and> alarms_of ''door'' ''t'' evs = [40000000]"
proof -
  have r: "loiter_rule \<in> set (en_rules door_engine)"
    by (simp add: door_engine_def add_rule_def loiter_rule_def new_engine_def)
  have d: "dwell_rule loiter_rule = Some (door, \<lambda>d. 30 \<le> d)" by (simp add: loiter_rule_def)
  have n: "dict_get (en_mem door_engine) ''t'' = None"
    by (simp add: door_engine_def add_rule_def new_engine_def)
  have "dwell_alarms (\<lambda>d. 30 \<le> d) (map (sighting door ''t'') visit) = [40000000]" by code_simp
  with dwell_alarms_exact [OF door_engine_ok n r d visit_frames_ok [OF r]]
  show ?thesis by (simp add: loiter_rule_def)
qed

theorem evaluate_sound_witness:
  "\<exists>e' evs. evaluate (fst (seen_at (1/5) 0)) 0 door_engine = Inr (e', evs) \<and> dict_keys (en_mem e') = [''t'']"
proof -
  have "distinct (map fst (fst (seen_at (1/5) 0)))" by (simp add: seen_at_def)
  from evaluate_sound [OF door_engine_ok(1) this, of 0]
  obtain e' evs where r: "evaluate (fst (seen_at (1/5) 0)) 0 door_engine = Inr (e', evs)"
    "engine_ok e'" "set (dict_keys (en_mem e')) = set (map fst (fst (seen_at (1/5) 0)))"
    by blast
  then have "set (dict_keys (en_mem e')) = {''t''}" "distinct (dict_keys (en_mem e'))"
    by (simp_all add: seen_at_def engine_ok_def dict_ok_def)
  then have "dict_keys (en_mem e') = [''t'']"
    by (cases "dict_keys (en_mem e')") (auto simp: subset_singleton_iff)
  with r show ?thesis by blast
qed

section \<open>Tripwire alarms\<close>

text \<open>
  A rule that has fired for a track is in \<open>crossed_lines\<close>, and only rules not there fire:
  the alarms of a run are bounded by what the memory can still take.
\<close>

definition crossings :: "string \<Rightarrow> string \<Rightarrow> analytic_event list \<Rightarrow> nat" where
  "crossings rid tid evs =
     length (filter (\<lambda>ev. ae_kind ev = LineCross \<and> ae_rule ev = rid \<and> ae_track ev = tid) evs)"

definition spent :: "string \<Rightarrow> track_mem \<Rightarrow> nat" where
  "spent rid m = (if rid \<in> set (tm_crossed_lines m) then 1 else 0)"

lemma crossings_simps [simp]:
  "crossings rid tid [] = 0" "crossings rid tid (xs @ ys) = crossings rid tid xs + crossings rid tid ys"
  by (simp_all add: crossings_def)

lemma eval_rule_spent:
  assumes "eval_rule cam r trk prev ts m = Inr (m', evs)"
  shows "crossings rid (fst trk) evs + spent rid m \<le> spent rid m'"
proof -
  obtain tid label box where trk: "trk = (tid, label, box)" by (cases trk)
  show ?thesis
    using assms
    by (cases r)
      (auto simp: trk spent_def crossings_def eval_line_def eval_zone_def eval_loiter_def eval_object_left_def
        Let_def split: if_splits sum.splits option.splits)
qed

lemma eval_rules_spent:
  "eval_rules cam rs trk prev ts m = Inr (m', evs) \<Longrightarrow>
   crossings rid (fst trk) evs + spent rid m \<le> spent rid m'"
proof (induction rs arbitrary: m evs)
  case (Cons r rs)
  show ?case
  proof (cases "label_matches (rule_labels r) (fst (snd trk))")
    case True
    then obtain m1 e1 e2 where s: "eval_rule cam r trk prev ts m = Inr (m1, e1)"
      "eval_rules cam rs trk prev ts m1 = Inr (m', e2)" "evs = e1 @ e2"
      using Cons.prems by (auto split: sum.splits)
    show ?thesis using eval_rule_spent [OF s(1), of rid] Cons.IH [OF s(2)] by (simp add: s(3))
  next
    case False
    then show ?thesis using Cons by simp
  qed
qed simp

end
