(* ===== verification/Rule_Alarms.thy ===== *)
theory Rule_Alarms
  imports Rule_Engine
begin

text \<open>
  What the engine of \<open>packages/ai/rules.py\<close> promises over runs of frames of its tripwire and
  crowd alarms, and of the loading of stored rule specifications.
\<close>

section \<open>Tripwires\<close>

lemma eval_track_spent:
  assumes "eval_track trk ts e = Inr (e', evs)"
  shows "crossings rid tid evs + spent rid (get_mem e tid) \<le> spent rid (get_mem e' tid) \<or>
    fst trk \<noteq> tid \<and> get_mem e' tid = get_mem e tid"
proof (cases "fst trk = tid")
  case True
  obtain label box where trk: "trk = (tid, label, box)" using True by (cases trk) auto
  define m1 where "m1 = (get_mem e tid)\<lparr>tm_bbox := box, tm_label := label, tm_last_center := Some (center box)\<rparr>"
  obtain m2 where m2: "eval_rules (en_camera e) (en_rules e) trk (tm_last_center (get_mem e tid)) ts m1 = Inr (m2, evs)"
    "e' = e\<lparr>en_mem := dict_set tid m2 (en_mem e)\<rparr>"
    using assms by (auto simp: eval_track_def trk Let_def m1_def split: sum.splits)
  have "spent rid m1 = spent rid (get_mem e tid)" by (simp add: spent_def m1_def)
  then show ?thesis using eval_rules_spent [OF m2(1), of rid] by (simp add: m2(2) trk)
next
  case False
  then show ?thesis
    using assms by (cases trk) (auto simp: eval_track_def Let_def split: sum.splits)
qed

lemma crossings_other:
  "\<forall>ev \<in> set evs. ae_track ev \<noteq> tid \<or> ae_kind ev \<noteq> LineCross \<Longrightarrow> crossings rid tid evs = 0"
  by (auto simp: crossings_def filter_empty_conv)

lemma eval_tracks_spent:
  assumes "eval_tracks tracks ts e = Inr (e', evs)" and "engine_ok e"
  shows "crossings rid tid evs + spent rid (get_mem e tid) \<le> spent rid (get_mem e' tid)"
  using assms
proof (induction tracks arbitrary: e evs)
  case (Cons trk tracks)
  obtain e1 v1 v2 where s: "eval_track trk ts e = Inr (e1, v1)" "eval_tracks tracks ts e1 = Inr (e', v2)"
    "evs = v1 @ v2"
    using Cons.prems(1) by (auto split: sum.splits)
  obtain m' evs' where o: "eval_track trk ts e = Inr (e\<lparr>en_mem := dict_set (fst trk) m' (en_mem e)\<rparr>, evs')"
    "engine_ok (e\<lparr>en_mem := dict_set (fst trk) m' (en_mem e)\<rparr>)"
    "\<forall>ev \<in> set evs'. from_rules (en_camera e) (en_rules e) trk (last_center_of e (fst trk)) ts ev"
    using eval_track_ok [OF Cons.prems(2), of trk ts] by blast
  have "crossings rid tid v1 = 0" if "fst trk \<noteq> tid"
    using that o(1,3) s(1) by (intro crossings_other) (auto simp: from_rules_def reports_def)
  then have "crossings rid tid v1 + spent rid (get_mem e tid) \<le> spent rid (get_mem e1 tid)"
    using eval_track_spent [OF s(1), of rid tid] by auto
  moreover have "crossings rid tid v2 + spent rid (get_mem e1 tid) \<le> spent rid (get_mem e' tid)"
    using o(1,2) s(1) by (intro Cons.IH [OF s(2)]) simp
  ultimately show ?case by (simp add: s(3))
qed simp

lemma eval_crowd_kinds:
  "eval_crowd cam rs tracks ts crowd = Inr (crowd', evs) \<Longrightarrow> \<forall>ev \<in> set evs. ae_kind ev = Crowd"
proof (induction rs arbitrary: crowd evs)
  case (Cons r rs)
  show ?case
  proof (cases r)
    case (CrowdCountRule rid z rc w ls)
    then show ?thesis using Cons by (fastforce simp: Let_def split: if_splits sum.splits)
  qed (use Cons in auto)
qed simp

lemma evaluate_spent:
  assumes "evaluate tracks ts e = Inr (e', evs)" and "engine_ok e" and "tid \<in> fst ` set tracks"
  shows "crossings rid tid evs + spent rid (get_mem e tid) \<le> spent rid (get_mem e' tid)"
proof -
  obtain e1 v1 crowd v2 where s: "eval_tracks tracks ts e = Inr (e1, v1)"
    "eval_crowd (en_camera e1) (en_rules e1) tracks ts (en_crowd e1) = Inr (crowd, v2)"
    "e' = e1\<lparr>en_crowd := crowd, en_mem := filter (\<lambda>(tid, _). tid \<in> set (map fst tracks)) (en_mem e1)\<rparr>"
    "evs = v1 @ v2"
    using assms(1) by (auto simp: evaluate_def split: sum.splits)
  have "get_mem e' tid = get_mem e1 tid"
    using assms(3) by (simp add: s(3) get_mem_def dict_get_filter_keys)
  moreover have "crossings rid tid v2 = 0"
    using eval_crowd_kinds [OF s(2)] by (intro crossings_other) auto
  ultimately show ?thesis using eval_tracks_spent [OF s(1) assms(2), of rid tid] by (simp add: s(4))
qed

lemma evaluate_run_spent:
  assumes "evaluate_run fs e = Inr (e', evs)" and "engine_ok e"
    and "list_all (\<lambda>f. distinct (map fst (fst f)) \<and> tid \<in> fst ` set (fst f)) fs"
  shows "crossings rid tid evs + spent rid (get_mem e tid) \<le> spent rid (get_mem e' tid)"
  using assms
proof (induction fs arbitrary: e evs)
  case (Cons f fs)
  obtain e1 v1 v2 where s: "evaluate (fst f) (snd f) e = Inr (e1, v1)" "evaluate_run fs e1 = Inr (e', v2)"
    "evs = v1 @ v2"
    using Cons.prems(1) by (auto simp: bind_ok_Inr)
  have "engine_ok e1"
    using evaluate_frame [OF Cons.prems(2), of "fst f" "snd f"] Cons.prems(3) s(1) by auto
  then have "crossings rid tid v2 + spent rid (get_mem e1 tid) \<le> spent rid (get_mem e' tid)"
    using Cons.prems(3) by (intro Cons.IH [OF s(2)]) simp_all
  moreover have "crossings rid tid v1 + spent rid (get_mem e tid) \<le> spent rid (get_mem e1 tid)"
    using Cons.prems(3) by (intro evaluate_spent [OF s(1) Cons.prems(2)]) simp
  ultimately show ?case by (simp add: s(3))
qed simp

text \<open>
  A tripwire alarms at most once for a track while the track stays in view, however
  often it crosses; a track that has already set it off never does again.
\<close>

theorem tripwire_once:
  assumes "evaluate_run fs e = Inr (e', evs)" and "engine_ok e"
    and "list_all (\<lambda>f. distinct (map fst (fst f)) \<and> tid \<in> fst ` set (fst f)) fs"
  shows "crossings rid tid evs \<le> 1 \<and>
    (rid \<in> set (tm_crossed_lines (get_mem e tid)) \<longrightarrow> crossings rid tid evs = 0)"
  using evaluate_run_spent [OF assms, of rid] by (auto simp: spent_def split: if_splits)

theorem tripwire_once_witness:
  "\<exists>e' evs. evaluate_run visit door_engine = Inr (e', evs) \<and> crossings ''wire'' ''t'' evs = 1"
proof -
  have v: "list_all (\<lambda>f. distinct (map fst (fst f)) \<and> ''t'' \<in> fst ` set (fst f)) visit"
    by (simp add: visit_def seen_at_def)
  obtain e' evs where run: "evaluate_run visit door_engine = Inr (e', evs)"
    "0 < crossings ''wire'' ''t'' evs"
  proof -
    have "case evaluate_run visit door_engine of Inl err \<Rightarrow> False
      | Inr (e', evs) \<Rightarrow> 0 < crossings ''wire'' ''t'' evs" by code_simp
    then show thesis using that by (auto split: sum.splits)
  qed
  with tripwire_once [OF run(1) door_engine_ok(1) v, of "''wire''"] show ?thesis by auto
qed

section \<open>Crowds\<close>

text \<open>The moments a condition becomes true, from whether it held before.\<close>

fun rising :: "(bool \<times> timestamp) list \<Rightarrow> bool \<Rightarrow> timestamp list" where
  "rising [] b = []"
| "rising ((c, t) # obs) b = (if c \<and> \<not> b then [t] else []) @ rising obs c"

definition crowd_alarms :: "string \<Rightarrow> analytic_event list \<Rightarrow> timestamp list" where
  "crowd_alarms rid evs = map ae_ts (filter (\<lambda>ev. ae_rule ev = rid \<and> ae_kind ev = Crowd) evs)"

definition crowded :: "rule \<Rightarrow> tracked list \<Rightarrow> bool" where
  "crowded r tracks =
     (case r of CrowdCountRule _ z _ thr ls \<Rightarrow> thr \<le> of_nat (crowd_count tracks z ls) | _ \<Rightarrow> False)"

lemma crowd_alarms_simps [simp]:
  "crowd_alarms rid [] = []" "crowd_alarms rid (xs @ ys) = crowd_alarms rid xs @ crowd_alarms rid ys"
  "crowd_alarms rid (ev # xs) = (if ae_rule ev = rid \<and> ae_kind ev = Crowd then [ae_ts ev] else []) @ crowd_alarms rid xs"
  by (simp_all add: crowd_alarms_def)

lemma eval_crowd_Cons:
  assumes "eval_crowd cam (CrowdCountRule rid z rc thr ls # rs) tracks ts crowd = Inr (crowd', evs)"
  obtains c1 evs' where "eval_crowd cam rs tracks ts c1 = Inr (crowd', evs')"
    "\<And>k. k \<noteq> rid \<Longrightarrow> dict_get c1 k = dict_get crowd k"
    "(dict_get c1 rid = Some True) = (thr \<le> of_nat (crowd_count tracks z ls))"
    "\<And>k. crowd_alarms k evs = (if k = rid \<and> thr \<le> of_nat (crowd_count tracks z ls) \<and> dict_get crowd rid \<noteq> Some True
       then [ts] else []) @ crowd_alarms k evs'"
proof (cases "thr \<le> of_nat (crowd_count tracks z ls) \<and> dict_get crowd rid \<noteq> Some True")
  case True
  then obtain b evs' where "crowd_box tracks ls = Inr b"
    "eval_crowd cam rs tracks ts (dict_set rid True crowd) = Inr (crowd', evs')"
    "evs = \<lparr>ae_rule = rid, ae_kind = Crowd, ae_camera = cam, ae_track = [],
             ae_label = ''person'', ae_bbox = b, ae_ts = ts,
             ae_score = of_nat (crowd_count tracks z ls), ae_detail = Count (crowd_count tracks z ls)\<rparr> # evs'"
    using assms by (auto simp: Let_def split: sum.splits)
  then show thesis using True by (intro that [of "dict_set rid True crowd" evs']) auto
next
  case False
  then show thesis
    using assms
    by (intro that [of "if of_nat (crowd_count tracks z ls) < thr then dict_set rid False crowd else crowd" evs])
      (auto simp: Let_def)
qed

lemma justified_not_crowd: "justified r trk prev ev \<Longrightarrow> ae_kind ev \<noteq> Crowd"
  by (cases r) (auto simp: justified_def Let_def split: if_splits)

lemma from_frame_not_crowd: "from_frame e tracks ts ev \<Longrightarrow> ae_kind ev \<noteq> Crowd"
  unfolding from_frame_def from_rules_def using justified_not_crowd by blast

lemma eval_crowd_other:
  assumes "eval_crowd cam rs tracks ts crowd = Inr (crowd', evs)" and "rid \<notin> rule_id ` set rs"
  shows "dict_get crowd' rid = dict_get crowd rid \<and> crowd_alarms rid evs = []"
  using assms
proof (induction rs arbitrary: crowd evs)
  case (Cons r rs)
  show ?case
  proof (cases r)
    case (CrowdCountRule rid' z rc thr ls)
    from Cons.prems(1) [unfolded this] obtain c1 evs' where
      "eval_crowd cam rs tracks ts c1 = Inr (crowd', evs')"
      "dict_get c1 rid = dict_get crowd rid" "crowd_alarms rid evs = crowd_alarms rid evs'"
      by (rule eval_crowd_Cons) (use Cons.prems(2) CrowdCountRule in auto)
    then show ?thesis using Cons by simp
  qed (use Cons in auto)
qed simp

lemma eval_crowd_rising:
  assumes "eval_crowd cam rs tracks ts crowd = Inr (crowd', evs)" and "distinct (map rule_id rs)"
    and "r \<in> set rs" and "r = CrowdCountRule rid z rc thr ls"
  shows "(dict_get crowd' rid = Some True) = crowded r tracks \<and>
    crowd_alarms rid evs = (if crowded r tracks \<and> dict_get crowd rid \<noteq> Some True then [ts] else [])"
  using assms
proof (induction rs arbitrary: crowd evs)
  case (Cons q rs)
  show ?case
  proof (cases "q = r")
    case True
    then have q: "q = CrowdCountRule rid z rc thr ls" using Cons.prems(4) by simp
    have out: "rid \<notin> rule_id ` set rs" using Cons.prems(2) q by auto
    from Cons.prems(1) [unfolded q] show ?thesis
    proof (rule eval_crowd_Cons)
      fix c1 evs'
      assume rest: "eval_crowd cam rs tracks ts c1 = Inr (crowd', evs')"
        and c1: "(dict_get c1 rid = Some True) = (thr \<le> of_nat (crowd_count tracks z ls))"
        and al: "\<And>k. crowd_alarms k evs = (if k = rid \<and> thr \<le> of_nat (crowd_count tracks z ls) \<and>
           dict_get crowd rid \<noteq> Some True then [ts] else []) @ crowd_alarms k evs'"
      show ?thesis
        using eval_crowd_other [OF rest out] c1 al [of rid] by (simp add: crowded_def Cons.prems(4))
    qed
  next
    case False
    then have r: "r \<in> set rs" using Cons.prems(3) by simp
    then have "rule_id r \<in> rule_id ` set rs" by (rule imageI)
    then have ne: "rule_id q \<noteq> rid" using Cons.prems(2,4) by auto
    show ?thesis
    proof (cases q)
      case (CrowdCountRule rid' z' rc' thr' ls')
      from Cons.prems(1) [unfolded this] obtain c1 evs' where
        "eval_crowd cam rs tracks ts c1 = Inr (crowd', evs')"
        "dict_get c1 rid = dict_get crowd rid" "crowd_alarms rid evs = crowd_alarms rid evs'"
        by (rule eval_crowd_Cons) (use ne CrowdCountRule in auto)
      then show ?thesis using Cons r by simp
    qed (use Cons r in auto)
  qed
qed simp

lemma evaluate_rising:
  assumes "evaluate tracks ts e = Inr (e', evs)" and "engine_ok e" and "distinct (map fst tracks)"
    and "distinct (map rule_id (en_rules e))"
    and "r \<in> set (en_rules e)" and "r = CrowdCountRule rid z rc thr ls"
  shows "(dict_get (en_crowd e') rid = Some True) = crowded r tracks \<and>
    crowd_alarms rid evs = (if crowded r tracks \<and> dict_get (en_crowd e) rid \<noteq> Some True then [ts] else [])"
proof -
  obtain mem v1 where t: "eval_tracks tracks ts e = Inr (e\<lparr>en_mem := mem\<rparr>, v1)"
    "\<forall>ev \<in> set v1. from_frame e tracks ts ev"
    using eval_tracks_ok [OF assms(2,3), of ts] by (elim exE conjE)
  then obtain crowd v2 where s:
    "eval_crowd (en_camera e) (en_rules e) tracks ts (en_crowd e) = Inr (crowd, v2)"
    "en_crowd e' = crowd" "evs = v1 @ v2"
    using assms(1) by (auto simp: evaluate_def split: sum.splits)
  have "crowd_alarms rid v1 = []"
    using t(2) from_frame_not_crowd unfolding crowd_alarms_def by (simp add: filter_empty_conv) blast
  then show ?thesis using eval_crowd_rising [OF s(1) assms(4-6)] by (simp add: s(2,3))
qed

text \<open>
  Crowd alarms are exact: over any run of frames the alarms of a crowd rule are the
  frames in which the count of its zone reaches the threshold and did not in the frame
  before.
\<close>

theorem crowd_alarms_exact:
  assumes "engine_ok e" and "distinct (map rule_id (en_rules e))"
    and "r \<in> set (en_rules e)" and "r = CrowdCountRule rid z rc thr ls"
    and "list_all (\<lambda>f. distinct (map fst (fst f))) fs"
  shows "\<exists>e' evs. evaluate_run fs e = Inr (e', evs) \<and>
    crowd_alarms rid evs =
      rising (map (\<lambda>f. (crowded r (fst f), snd f)) fs) (dict_get (en_crowd e) rid = Some True)"
  using assms
proof (induction fs arbitrary: e)
  case Nil
  show ?case by simp
next
  case (Cons f fs)
  have d: "distinct (map fst (fst f))" using Cons.prems(5) by simp
  obtain e1 v1 where s: "evaluate (fst f) (snd f) e = Inr (e1, v1)" "engine_ok e1" "en_rules e1 = en_rules e"
    using evaluate_frame [OF Cons.prems(1) d, of "snd f"] by (elim exE conjE)
  obtain e2 v2 where rest: "evaluate_run fs e1 = Inr (e2, v2)"
    "crowd_alarms rid v2 = rising (map (\<lambda>f. (crowded r (fst f), snd f)) fs) (dict_get (en_crowd e1) rid = Some True)"
    using Cons.IH [OF s(2)] Cons.prems(2-5) s(3) by auto
  show ?case
    using evaluate_rising [OF s(1) Cons.prems(1) d Cons.prems(2-4)] s(1) rest by simp
qed

definition hall_rule :: rule where
  "hall_rule = CrowdCountRule ''hall'' door ''cam'' 2 [''person'']"

definition hall :: "nat \<Rightarrow> timestamp \<Rightarrow> tracked list \<times> timestamp" where
  "hall n s = (map (\<lambda>i. (str_nat i, ''person'', (1/5, 2/5, 1/5, 1/5))) [0..<n], s)"

theorem crowd_alarms_exact_witness:
  "\<exists>e' evs. evaluate_run [hall 1 0, hall 2 1, hall 3 2, hall 1 3, hall 2 4] (add_rule hall_rule (new_engine ''cam'')) =
     Inr (e', evs) \<and> crowd_alarms ''hall'' evs = [1, 4]"
proof -
  let ?e = "add_rule hall_rule (new_engine ''cam'')"
  let ?fs = "[hall 1 0, hall 2 1, hall 3 2, hall 1 3, hall 2 4]"
  have e: "engine_ok ?e" "distinct (map rule_id (en_rules ?e))" "hall_rule \<in> set (en_rules ?e)"
    by (simp_all add: engine_ok_def add_rule_def hall_rule_def new_engine_def
        engine_ids_def ids_ok_def fired_key_def left_key_def crowd_ok_def)
  have d: "list_all (\<lambda>f. distinct (map fst (fst f))) ?fs" by code_simp
  have v: "rising (map (\<lambda>f. (crowded hall_rule (fst f), snd f)) ?fs) (dict_get (en_crowd ?e) ''hall'' = Some True) = [1, 4]"
    by code_simp
  show ?thesis using crowd_alarms_exact [OF e hall_rule_def d] by (simp only: v)
qed

section \<open>Loading stored rules\<close>

definition loaded :: "string \<Rightarrow> json \<Rightarrow> rule list" where
  \<comment> \<open>what one stored specification contributes\<close>
  "loaded cam js =
     (case js of
        JObj kvs \<Rightarrow> (case rule_from_dict cam kvs of Inr r \<Rightarrow> [with_camera cam r] | Inl _ \<Rightarrow> [])
      | _ \<Rightarrow> [])"

definition skippable :: "string \<Rightarrow> json \<Rightarrow> bool" where
  "skippable cam js \<longleftrightarrow>
     (case js of
        JObj kvs \<Rightarrow> (case rule_from_dict cam kvs of Inr r \<Rightarrow> True | Inl err \<Rightarrow> err \<in> {KeyError, ValueError})
      | _ \<Rightarrow> False)"

lemma add_specs_char:
  "en_camera e = cam \<Longrightarrow>
   add_specs cam specs e = Inr e' \<longleftrightarrow>
     list_all (skippable cam) specs \<and>
     e' = e\<lparr>en_rules := en_rules e @ concat (map (loaded cam) specs)\<rparr>"
proof (induction specs arbitrary: e)
  case Nil
  then show ?case by auto
next
  case (Cons js specs)
  show ?case
  proof (cases js)
    case (JObj kvs)
    show ?thesis
    proof (cases "rule_from_dict cam kvs")
      case (Inl err)
      then show ?thesis using Cons JObj by (cases err) (simp_all add: skippable_def loaded_def)
    next
      case (Inr r)
      then show ?thesis using Cons JObj by (simp add: skippable_def loaded_def add_rule_def)
    qed
  qed (simp_all add: skippable_def)
qed

text \<open>
  Loading stored rules yields an engine exactly if every specification is an object
  whose translation succeeds or fails with a \<open>KeyError\<close> or \<open>ValueError\<close>; then the engine has
  the rules of the good specifications, in their order, with fresh memory, and the malformed
  ones are skipped. Any other malformation is not skipped: it stops the load.
\<close>

theorem rule_engine_from_json_exact:
  "rule_engine_from_json cam (Some specs) = Inr e \<longleftrightarrow>
     list_all (skippable cam) specs \<and>
     e = (new_engine cam)\<lparr>en_rules := concat (map (loaded cam) specs)\<rparr>"
  by (simp add: rule_engine_from_json_def add_specs_char new_engine_def)

text \<open>
  A stored rule is skipped when it lacks its zone or names no known type, but one whose
  zone is a number, or that is not an object, stops the load of the whole engine.
\<close>

theorem rule_engine_load_faults:
  "rule_engine_from_json cam (Some [JObj [(''type'', JStr ''loitering'')], JObj [(''type'', JStr ''lasers'')]]) =
     Inr (new_engine cam) \<and>
   rule_engine_from_json cam (Some [JObj [(''type'', JStr ''loitering''), (''zone'', JNum 5)]]) = Inl TypeError \<and>
   rule_engine_from_json cam (Some [JStr ''loitering'']) = Inl AttributeError"
  by (simp add: rule_engine_from_json_def rule_from_dict_def spec_rule_id_def spec_labels_def spec_zone_def
      obj_get_def dict_get_def json_truthy_def Let_def)

end
