(* ===== verification/Matching.thy ===== *)
theory Matching
  imports Presence Tracking "HOL-Library.Multiset"
begin

text \<open>
  \<open>packages/ai/matcher.py\<close>: cosine similarity and the search among enrolled identities;
  \<open>packages/ai/vlm.py\<close>: the semantic index; \<open>packages/ai/face.py\<close>: the reference face box,
  brightness grid and embedding. The hash function is a parameter.
\<close>

section \<open>Cosine similarity\<close>

definition dot :: "real list \<Rightarrow> real list \<Rightarrow> real" where
  \<comment> \<open>\<open>sum(x * y for x, y in zip(a, b))\<close>\<close>
  "dot a b = sum_list (map (\<lambda>(x, y). x * y) (zip a b))"

definition cosine :: "real list \<Rightarrow> real list \<Rightarrow> real" where
  "cosine a b =
     (if length a \<noteq> length b \<or> a = [] then 0
      else (let na = sqrt (dot a a); nb = sqrt (dot b b) in
            if na = 0 \<or> nb = 0 then 0 else dot a b / (na * nb)))"

lemma dot_Nil [simp]: "dot [] b = 0" "dot a [] = 0"
  by (simp_all add: dot_def)

lemma dot_Cons [simp]: "dot (x # a) (y # b) = x * y + dot a b"
  by (simp add: dot_def)

lemma dot_self_nonneg [simp]: "0 \<le> dot a a"
  by (induction a) simp_all

lemma dot_self_zero: "dot a a = 0 \<longleftrightarrow> (\<forall>x \<in> set a. x = 0)"
  by (induction a) (auto simp: add_nonneg_eq_0_iff)

lemma dot_sym: "dot a b = dot b a"
  by (induction a b rule: list_induct2') (auto simp: mult.commute)

text \<open>The Cauchy--Schwarz inequality for the code's sums.\<close>

lemma cauchy_schwarz_step:
  fixes s A B x y :: real
  assumes "s\<^sup>2 \<le> A * B" and "0 \<le> A" and "0 \<le> B"
  shows "(x * y + s)\<^sup>2 \<le> (x\<^sup>2 + A) * (y\<^sup>2 + B)"
proof -
  have "\<bar>s\<bar> \<le> sqrt A * sqrt B"
    using real_le_rsqrt [OF assms(1)] real_sqrt_le_mono [OF assms(1)] by (simp add: real_sqrt_mult)
  then have "2 * (x * y * s) \<le> 2 * (\<bar>x\<bar> * sqrt B) * (\<bar>y\<bar> * sqrt A)"
    using mult_left_mono [of "\<bar>s\<bar>" "sqrt A * sqrt B" "2 * \<bar>x * y\<bar>"] abs_ge_self [of "x * y * s"]
    by (simp add: abs_mult mult.assoc mult.left_commute) (smt (verit) mult.assoc mult.commute mult.left_commute)
  also have "\<dots> \<le> (\<bar>x\<bar> * sqrt B)\<^sup>2 + (\<bar>y\<bar> * sqrt A)\<^sup>2"
    by (rule sum_squares_bound)
  also have "\<dots> = x\<^sup>2 * B + y\<^sup>2 * A" using assms by (simp add: power_mult_distrib)
  finally have "2 * (x * y * s) \<le> x\<^sup>2 * B + y\<^sup>2 * A" .
  with assms(1) show ?thesis
    by (simp add: power2_eq_square algebra_simps)
qed

lemma dot_cauchy_schwarz: "length a = length b \<Longrightarrow> (dot a b)\<^sup>2 \<le> dot a a * dot b b"
proof (induction a b rule: list_induct2)
  case (Cons x xs y ys)
  then show ?case
    using cauchy_schwarz_step [of "dot xs ys" "dot xs xs" "dot ys ys" x y]
    by (simp add: power2_eq_square)
qed simp

lemma cosine_bounded: "\<bar>cosine a b\<bar> \<le> 1"
proof (cases "length a = length b \<and> dot a a \<noteq> 0 \<and> dot b b \<noteq> 0 \<and> a \<noteq> []")
  case True
  have "sqrt ((dot a b)\<^sup>2) \<le> sqrt (dot a a * dot b b)"
    using dot_cauchy_schwarz True by (intro real_sqrt_le_mono) simp
  then have "\<bar>dot a b\<bar> \<le> sqrt (dot a a) * sqrt (dot b b)" by (simp add: real_sqrt_mult)
  moreover have "0 < sqrt (dot a a) * sqrt (dot b b)"
    using True dot_self_nonneg [of a] dot_self_nonneg [of b] by (simp add: less_le)
  ultimately show ?thesis using True by (simp add: cosine_def Let_def abs_divide divide_le_eq)
next
  case False
  then show ?thesis by (auto simp: cosine_def Let_def)
qed

lemma cosine_sym: "cosine a b = cosine b a"
  by (auto simp: cosine_def Let_def dot_sym [of a b] mult.commute)

lemma cosine_self: "dot a a \<noteq> 0 \<Longrightarrow> cosine a a = 1"
  by (cases a) (auto simp: cosine_def Let_def abs_of_nonneg)

section \<open>Identity search\<close>

type_synonym enrolment = "string \<times> real list \<times> string"

definition search_step ::
  "real list \<Rightarrow> string \<Rightarrow> string option \<times> real \<Rightarrow> enrolment \<Rightarrow> string option \<times> real" where
  "search_step v model_version best en =
     (case en of (pid, emb, ver) \<Rightarrow>
        if ver \<noteq> model_version then best
        else (let score = cosine v emb in
              if score > snd best then (Some pid, score) else best))"

definition vector_search :: "real \<Rightarrow> real list \<Rightarrow> string \<Rightarrow> enrolment list \<Rightarrow> recognition" where
  \<comment> \<open>\<open>VectorMatcher.search\<close>; \<open>best_id\<close> counts only when it is a non-empty string\<close>
  "vector_search threshold v model_version enrolled =
     (let (best_id, best_score) = foldl (search_step v model_version) (None, -1) enrolled;
          sim = (if best_id \<noteq> None \<and> best_id \<noteq> Some [] then Some best_score else None)
      in \<lparr>rg_person = best_id, rg_similarity = sim,
          rg_status = identity_value (classify_identity sim threshold (5/100))\<rparr>)"

definition same_version :: "string \<Rightarrow> enrolment list \<Rightarrow> enrolment list" where
  "same_version mv enrolled = filter (\<lambda>(_, _, ver). ver = mv) enrolled"

lemma search_same_version:
  "foldl (search_step v mv) b enrolled = foldl (search_step v mv) b (same_version mv enrolled)"
  by (induction enrolled arbitrary: b) (auto simp: same_version_def search_step_def)

text \<open>What the scan has found: the greatest score over the same model, and someone who has it.\<close>

definition found_ok :: "real list \<Rightarrow> string \<Rightarrow> enrolment list \<Rightarrow> string option \<times> real \<Rightarrow> bool" where
  "found_ok v mv enrolled r \<longleftrightarrow> -1 \<le> snd r \<and>
     (\<forall>(p, e, ver) \<in> set enrolled. ver = mv \<longrightarrow> cosine v e \<le> snd r) \<and>
     (case fst r of None \<Rightarrow> snd r = -1
      | Some p \<Rightarrow> -1 < snd r \<and> (\<exists>e. (p, e, mv) \<in> set enrolled \<and> cosine v e = snd r))"

lemma search_step_eq:
  "search_step v mv r (p, e, ver) = (if ver = mv \<and> cosine v e > snd r then (Some p, cosine v e) else r)"
  by (simp add: search_step_def Let_def)

lemma search_found_ok: "found_ok v mv enrolled (foldl (search_step v mv) (None, -1) enrolled)"
proof (induction enrolled rule: rev_induct)
  case Nil
  show ?case by (simp add: found_ok_def)
next
  case (snoc en enrolled)
  obtain p e ver where en: "en = (p, e, ver)" by (cases en)
  define r where "r = foldl (search_step v mv) (None, -1) enrolled"
  have r: "found_ok v mv enrolled r" using snoc by (simp add: r_def)
  show ?case
  proof (cases "ver = mv \<and> cosine v e > snd r")
    case True
    moreover have "\<forall>(p', e', ver') \<in> set enrolled. ver' = mv \<longrightarrow> cosine v e' \<le> cosine v e"
      using r True by (fastforce simp: found_ok_def)
    ultimately show ?thesis
      using r by (auto simp: found_ok_def en search_step_eq r_def [symmetric])
  next
    case False
    then have "foldl (search_step v mv) (None, -1) (enrolled @ [en]) = r"
      by (auto simp: en search_step_eq r_def [symmetric])
    moreover have "found_ok v mv (enrolled @ [en]) r"
      using r False by (auto simp: found_ok_def en split: option.splits)
    ultimately show ?thesis by simp
  qed
qed

definition named_enrolments :: "enrolment list \<Rightarrow> bool" where
  "named_enrolments enrolled \<longleftrightarrow> list_all (\<lambda>(p, _, _). p \<noteq> []) enrolled"

text \<open>
  The search compares embeddings of one model version only: enrolments of other
  versions never change its answer. Among named people the person returned is enrolled
  under that version with the greatest similarity, which is a true cosine; the status is
  that of the similarity, and with nobody comparable there is no person and no claim.
\<close>

theorem vector_search_correct:
  assumes "named_enrolments enrolled"
  shows "vector_search thr v mv enrolled = vector_search thr v mv (same_version mv enrolled) \<and>
    (case rg_person (vector_search thr v mv enrolled) of
       None \<Rightarrow> rg_similarity (vector_search thr v mv enrolled) = None \<and>
         rg_status (vector_search thr v mv enrolled) = ''unknown'' \<and>
         (\<forall>(p, e, ver) \<in> set enrolled. ver = mv \<longrightarrow> cosine v e = -1)
     | Some p \<Rightarrow> (\<exists>e s. (p, e, mv) \<in> set enrolled \<and> cosine v e = s \<and> \<bar>s\<bar> \<le> 1 \<and>
         rg_similarity (vector_search thr v mv enrolled) = Some s \<and>
         (\<forall>(q, e', ver) \<in> set enrolled. ver = mv \<longrightarrow> cosine v e' \<le> s) \<and>
         (rg_status (vector_search thr v mv enrolled) = ''known'' \<longleftrightarrow> thr \<le> s)))"
proof -
  obtain bid s where f: "foldl (search_step v mv) (None, -1) enrolled = (bid, s)" by fastforce
  have ok: "found_ok v mv enrolled (bid, s)" using search_found_ok [of v mv enrolled] f by simp
  have same: "vector_search thr v mv enrolled = vector_search thr v mv (same_version mv enrolled)"
    by (simp add: vector_search_def search_same_version [of v mv _ enrolled])
  show ?thesis
  proof (cases bid)
    case None
    moreover have "cosine v e = -1" if "(p, e, mv) \<in> set enrolled" for p e
      using that ok None cosine_bounded [of v e] by (fastforce simp: found_ok_def)
    moreover have "vector_search thr v mv enrolled = \<lparr>rg_person = None, rg_similarity = None, rg_status = ''unknown''\<rparr>"
      by (simp add: vector_search_def f None classify_identity_def identity_value_def)
    ultimately show ?thesis by (auto simp: same [symmetric])
  next
    case (Some p)
    then obtain e where e: "(p, e, mv) \<in> set enrolled" "cosine v e = s" using ok by (auto simp: found_ok_def)
    then have "p \<noteq> []" using assms by (auto simp: named_enrolments_def list_all_iff)
    then have r: "vector_search thr v mv enrolled = \<lparr>rg_person = Some p, rg_similarity = Some s,
        rg_status = identity_value (classify_identity (Some s) thr (5/100))\<rparr>"
      by (simp add: vector_search_def f Some Let_def)
    have "identity_value (classify_identity (Some s) thr (5/100)) = ''known'' \<longleftrightarrow> thr \<le> s"
      by (simp add: classify_identity_def identity_value_def)
    with e ok show ?thesis
      using cosine_bounded [of v e] by (auto simp: found_ok_def r same [symmetric])
  qed
qed

theorem vector_search_correct_witness:
  "rg_person (vector_search (8/10) [1, 0] ''v1''
     [(''ann'', [1, 0], ''v0''), (''bob'', [1, 0], ''v1''), (''eve'', [0, 1], ''v1'')]) = Some ''bob'' \<and>
   rg_status (vector_search (8/10) [1, 0] ''v1''
     [(''ann'', [1, 0], ''v0''), (''bob'', [1, 0], ''v1''), (''eve'', [0, 1], ''v1'')]) = ''known''"
proof -
  let ?en = "[(''ann'', [1, 0], ''v0''), (''bob'', [1, 0], ''v1''), (''eve'', [0, 1], ''v1'')]"
  have n: "named_enrolments ?en" by (simp add: named_enrolments_def)
  have c: "cosine [1, 0] [1, 0] = 1" "cosine [1, 0] [0, 1] = 0" by (simp_all add: cosine_def dot_def)
  have p: "rg_person (vector_search (8/10) [1, 0] ''v1'' ?en) = Some ''bob''"
    by (simp add: vector_search_def search_step_eq c Let_def)
  show ?thesis
    using vector_search_correct [OF n, of "8/10" "[1, 0]" "''v1''"] c p by (auto split: option.splits)
qed

section \<open>Semantic search\<close>

definition semantic_search ::
  "(string \<Rightarrow> real list) \<Rightarrow> (string \<times> real list) list \<Rightarrow> string \<Rightarrow> nat \<Rightarrow> (string \<times> real) list" where
  \<comment> \<open>\<open>SemanticSearch.search\<close>; the embedder is a parameter\<close>
  "semantic_search embed_text items query top_k =
     (let q = embed_text query;
          scored = map (\<lambda>(eid, emb). (eid, cosine q emb)) items
      in take top_k (sorted_desc snd scored))"

definition index_event ::
  "(string \<Rightarrow> real list) \<Rightarrow> string \<Rightarrow> string \<Rightarrow> (string \<times> real list) list \<Rightarrow> (string \<times> real list) list" where
  "index_event embed_text event_id txt items = items @ [(event_id, embed_text txt)]"

text \<open>
  The semantic index answers with the \<open>top_k\<close> best events: as many as there are, in
  descending similarity, each with its own cosine, and no event left out scores more than
  one returned.
\<close>

theorem semantic_search_top:
  "length (semantic_search emb items q k) = min k (length items) \<and>
   sorted_wrt (\<lambda>x y. snd y \<le> snd x) (semantic_search emb items q k) \<and>
   set (semantic_search emb items q k) \<subseteq> (\<lambda>(eid, v). (eid, cosine (emb q) v)) ` set items \<and>
   (\<exists>rest. mset (map (\<lambda>(eid, v). (eid, cosine (emb q) v)) items) = mset (semantic_search emb items q k) + mset rest \<and>
      (\<forall>x \<in> set (semantic_search emb items q k). \<forall>y \<in> set rest. snd y \<le> snd x))"
proof -
  define xs where "xs = sorted_desc snd (map (\<lambda>(eid, v). (eid, cosine (emb q) v)) items)"
  have s: "semantic_search emb items q k = take k xs" by (simp add: semantic_search_def xs_def Let_def)
  have sw: "sorted_wrt (\<lambda>x y. snd y \<le> snd x) xs" unfolding xs_def by (rule sorted_desc_sorted)
  then have "sorted_wrt (\<lambda>x y. snd y \<le> snd x) (take k xs @ drop k xs)" by simp
  then have cut: "sorted_wrt (\<lambda>x y. snd y \<le> snd x) (take k xs)"
    "\<forall>x \<in> set (take k xs). \<forall>y \<in> set (drop k xs). snd y \<le> snd x"
    unfolding sorted_wrt_append by blast+
  have "set xs = (\<lambda>(eid, v). (eid, cosine (emb q) v)) ` set items" by (simp add: xs_def)
  then have sub: "set (take k xs) \<subseteq> (\<lambda>(eid, v). (eid, cosine (emb q) v)) ` set items"
    using set_take_subset [of k xs] by simp
  have "mset (map (\<lambda>(eid, v). (eid, cosine (emb q) v)) items) = mset (take k xs @ drop k xs)"
    by (simp add: xs_def sorted_desc_def)
  then have ms: "mset (map (\<lambda>(eid, v). (eid, cosine (emb q) v)) items) = mset (take k xs) + mset (drop k xs)"
    by (simp only: mset_append)
  have "length xs = length items" by (simp add: xs_def)
  then show ?thesis
    unfolding s using cut sub ms by (intro conjI exI [of _ "drop k xs"]) (simp_all add: min.commute)
qed

theorem semantic_search_top_witness:
  "map fst (semantic_search (\<lambda>_. [1, 0]) [(''e1'', [0, 1]), (''e2'', [1, 0]), (''e3'', [1, 1])] ''gate'' 1) = [''e2''] \<and>
   length (semantic_search (\<lambda>_. [1, 0]) [(''e1'', [0, 1]), (''e2'', [1, 0]), (''e3'', [1, 1])] ''gate'' 1) = 1"
proof -
  have "cosine [1, 0] [0, 1] = 0" "cosine [1, 0] [1, 0] = 1" "cosine [1, 0] [1, 1] < 1"
    by (simp_all add: cosine_def dot_def)
  then have "map fst (semantic_search (\<lambda>_. [1, 0]) [(''e1'', [0, 1]), (''e2'', [1, 0]), (''e3'', [1, 1])] ''gate'' 1) = [''e2'']"
    by (simp add: semantic_search_def sorted_desc_def)
  then show ?thesis
    using semantic_search_top [of "\<lambda>_. [1, 0]" "[(''e1'', [0, 1]), (''e2'', [1, 0]), (''e3'', [1, 1])]" "''gate''" 1]
    by simp
qed

section \<open>The reference face chain\<close>

definition reference_face :: "bbox \<Rightarrow> bbox" where
  "reference_face person = (case person of (x, y, w, h) \<Rightarrow>
     (let fw = w * (5/10); fh = h * (4/10)
      in (x + (w - fw) / 2, y + h * (5/100), fw, fh)))"

definition box_within :: "bbox \<Rightarrow> bbox \<Rightarrow> bool" where
  "box_within b c = (case (b, c) of ((bx, by', bw, bh), (cx, cy, cw, ch)) \<Rightarrow>
     cx \<le> bx \<and> cy \<le> by' \<and> bx + bw \<le> cx + cw \<and> by' + bh \<le> cy + ch)"

lemma reference_face_within: "valid_box b \<Longrightarrow> box_within (reference_face b) b \<and> valid_box (reference_face b)"
  by (cases b) (simp add: reference_face_def box_within_def valid_box_def Let_def field_simps)

text \<open>\<open>range(a, b, step)\<close> for a positive step.\<close>

function py_range :: "int \<Rightarrow> int \<Rightarrow> int \<Rightarrow> int list" where
  "py_range a b step = (if a < b \<and> 0 < step then a # py_range (a + step) b step else [])"
  by auto
termination
  by (relation "measure (\<lambda>(a, b, step). nat (b - a))") auto

declare py_range.simps [simp del]

definition cell_mean :: "int list \<Rightarrow> int \<Rightarrow> int \<Rightarrow> int \<Rightarrow> int \<Rightarrow> int" where
  \<comment> \<open>one cell of the grid: the mean of the sampled bytes that exist\<close>
  "cell_mean raw w h gx gy =
     (let x0 = gx * w div 10; x1 = max (x0 + 1) ((gx + 1) * w div 10);
          y0 = gy * h div 10; y1 = max (y0 + 1) ((gy + 1) * h div 10);
          idxs = concat (map (\<lambda>y. map (\<lambda>x. y * w + x) (py_range x0 x1 (max 1 ((x1 - x0) div 2))))
                   (py_range y0 y1 (max 1 ((y1 - y0) div 2))));
          hits = filter (\<lambda>i. i < int (length raw)) idxs;
          n = int (length hits)
      in if n \<noteq> 0 then sum_list (map (\<lambda>i. raw ! nat i) hits) div n else 0)"

definition grid_from_bytes :: "int list \<Rightarrow> int \<Rightarrow> int \<Rightarrow> int list" where
  "grid_from_bytes raw w h =
     (if raw = [] \<or> w \<le> 0 \<or> h \<le> 0 then replicate 100 0
      else concat (map (\<lambda>gy. map (\<lambda>gx. cell_mean raw w h gx gy) [0..9]) [0..9]))"

definition normalize_vec :: "real list \<Rightarrow> real list" where
  \<comment> \<open>\<open>norm = (...) ** 0.5 or 1.0\<close>, then division\<close>
  "normalize_vec v = (let n = sqrt (dot v v); n' = (if n = 0 then 1 else n) in map (\<lambda>x. x / n') v)"

definition vector_from_cells :: "(int list \<Rightarrow> int list) \<Rightarrow> int list \<Rightarrow> real list" where
  "vector_from_cells hash_bytes cells =
     (let m = of_int (sum_list cells) / of_int (max 1 (int (length cells)));
          vec = map (\<lambda>c. (of_int c - m) / 255) cells;
          n_hash = 128 - length vec;
          band = map (\<lambda>b. (1/10) * (of_int b / 255 - 5/10)) (take n_hash (hash_bytes cells))
      in normalize_vec (take 128 (vec @ band)))"

definition reference_embed :: "(int list \<Rightarrow> int list) \<Rightarrow> int list \<Rightarrow> int \<Rightarrow> int \<Rightarrow> real list" where
  \<comment> \<open>\<open>ReferenceEmbedder.embed\<close> on the resolved pixels\<close>
  "reference_embed hash_bytes raw w h = vector_from_cells hash_bytes (grid_from_bytes raw w h)"

text \<open>The documented behaviour of SHA-256 the embedder relies on: 32 bytes.\<close>

definition digest_bytes :: "(int list \<Rightarrow> int list) \<Rightarrow> bool" where
  "digest_bytes hash_bytes \<longleftrightarrow> (\<forall>cs. length (hash_bytes cs) = 32 \<and> set (hash_bytes cs) \<subseteq> {0..255})"

lemma grid_length: "length (grid_from_bytes raw w h) = 100"
  by (simp add: grid_from_bytes_def upto.simps)

lemma py_range_bounds: "x \<in> set (py_range a b step) \<Longrightarrow> a \<le> x \<and> x < b"
  by (induction a b step rule: py_range.induct) (subst (asm) py_range.simps, auto split: if_splits)

lemma sum_list_bounded:
  fixes xs :: "int list"
  assumes "set xs \<subseteq> {lo..hi}"
  shows "lo * int (length xs) \<le> sum_list xs \<and> sum_list xs \<le> hi * int (length xs)"
  using assms by (induction xs) (auto simp: algebra_simps)

text \<open>Every cell is a byte again, for every size of the crop.\<close>

lemma cell_mean_byte:
  assumes "set raw \<subseteq> {0..255}" and "0 < w" and "0 < h" and "0 \<le> gx" and "0 \<le> gy"
  shows "cell_mean raw w h gx gy \<in> {0..255}"
proof -
  define x0 where "x0 = gx * w div 10"
  define x1 where "x1 = max (x0 + 1) ((gx + 1) * w div 10)"
  define y0 where "y0 = gy * h div 10"
  define y1 where "y1 = max (y0 + 1) ((gy + 1) * h div 10)"
  define idxs where "idxs = concat (map (\<lambda>y. map (\<lambda>x. y * w + x) (py_range x0 x1 (max 1 ((x1 - x0) div 2))))
                   (py_range y0 y1 (max 1 ((y1 - y0) div 2))))"
  define hits where "hits = filter (\<lambda>i. i < int (length raw)) idxs"
  have c: "cell_mean raw w h gx gy =
      (if int (length hits) \<noteq> 0 then sum_list (map (\<lambda>i. raw ! nat i) hits) div int (length hits) else 0)"
    unfolding cell_mean_def Let_def hits_def idxs_def x1_def y1_def x0_def y0_def by (rule refl)
  have pos: "0 \<le> x0" "0 \<le> y0" using assms by (simp_all add: x0_def y0_def pos_imp_zdiv_nonneg_iff)
  have idx: "0 \<le> i" if "i \<in> set idxs" for i
  proof -
    from that obtain x y where i: "i = y * w + x" "x \<in> set (py_range x0 x1 (max 1 ((x1 - x0) div 2)))"
      "y \<in> set (py_range y0 y1 (max 1 ((y1 - y0) div 2)))"
      by (auto simp: idxs_def)
    then have "0 \<le> x" "0 \<le> y" using py_range_bounds pos by fastforce+
    then show ?thesis using assms(2) i(1) by simp
  qed
  have "raw ! nat i \<in> {0..255}" if "i \<in> set hits" for i
  proof -
    have "nat i < length raw" using that idx [of i] by (auto simp: hits_def nat_less_iff)
    then show ?thesis using nth_mem assms(1) by blast
  qed
  then have "set (map (\<lambda>i. raw ! nat i) hits) \<subseteq> {0..255}" by auto
  from sum_list_bounded [OF this]
  have b: "0 \<le> sum_list (map (\<lambda>i. raw ! nat i) hits)"
    "sum_list (map (\<lambda>i. raw ! nat i) hits) \<le> 255 * int (length hits)" by simp_all
  show ?thesis
  proof (cases "hits = []")
    case False
    then have "0 < int (length hits)" by simp
    then show ?thesis
      using b False zdiv_mono1 [OF b(2), of "int (length hits)"] by (simp add: c pos_imp_zdiv_nonneg_iff)
  qed (simp add: c)
qed

lemma grid_bytes:
  "set raw \<subseteq> {0..255} \<Longrightarrow> set (grid_from_bytes raw w h) \<subseteq> {0..255}"
proof -
  assume raw: "set raw \<subseteq> {0..255}"
  have cell: "0 \<le> cell_mean raw w h gx gy \<and> cell_mean raw w h gx gy \<le> 255"
    if "\<not> w \<le> 0" "\<not> h \<le> 0" "0 \<le> gx" "0 \<le> gy" for gx gy
    using that cell_mean_byte [OF raw, of w h gx gy] by simp
  show ?thesis
  proof (cases "raw = [] \<or> w \<le> 0 \<or> h \<le> 0")
    case False
    then show ?thesis using cell by (auto simp: grid_from_bytes_def)
  qed (auto simp: grid_from_bytes_def)
qed

lemma dot_scale: "dot (map (\<lambda>x. x / n) v) (map (\<lambda>x. x / n) v) = dot v v / (n * n)"
  by (induction v) (simp_all add: add_divide_distrib)

lemma normalize_unit: "dot v v \<noteq> 0 \<Longrightarrow> dot (normalize_vec v) (normalize_vec v) = 1"
  by (simp add: normalize_vec_def Let_def dot_scale)

lemma vector_from_cells_unit:
  assumes "digest_bytes hash_bytes" and "length cells = 100"
  shows "length (vector_from_cells hash_bytes cells) = 128 \<and>
    dot (vector_from_cells hash_bytes cells) (vector_from_cells hash_bytes cells) = 1"
proof -
  define m where "m = (of_int (sum_list cells) / of_int (max 1 (int (length cells))) :: real)"
  define vec where "vec = map (\<lambda>c. (of_int c - m) / 255) cells"
  define band where "band = map (\<lambda>b. (1/10) * (of_int b / 255 - 5/10 :: real)) (take 28 (hash_bytes cells))"
  have v: "vector_from_cells hash_bytes cells = normalize_vec (take 128 (vec @ band))"
    by (simp add: vector_from_cells_def Let_def m_def vec_def band_def assms(2))
  have l: "length (hash_bytes cells) = 32" using assms(1) by (simp add: digest_bytes_def)
  then have len: "length (vec @ band) = 128" by (simp add: vec_def band_def assms(2))
  have hd: "hash_bytes cells \<noteq> []" using l by auto
  have "(1/10) * (of_int (hd (hash_bytes cells)) / 255 - 5/10 :: real) \<noteq> 0"
  proof
    assume "(1/10) * (of_int (hd (hash_bytes cells)) / 255 - 5/10 :: real) = 0"
    then have "of_int (2 * hd (hash_bytes cells)) = (of_int 255 :: real)" by simp
    then have "2 * hd (hash_bytes cells) = 255" by (simp only: of_int_eq_iff)
    then show False by presburger
  qed
  moreover have "(1/10) * (of_int (hd (hash_bytes cells)) / 255 - 5/10 :: real) \<in> set (vec @ band)"
    using hd by (cases "hash_bytes cells") (simp_all add: band_def)
  ultimately have "dot (vec @ band) (vec @ band) \<noteq> 0" using dot_self_zero by blast
  moreover have "take 128 (vec @ band) = vec @ band" using len by simp
  moreover have "length (normalize_vec u) = length u" for u by (simp add: normalize_vec_def Let_def)
  ultimately show ?thesis using len by (simp only: v normalize_unit simp_thms)
qed

text \<open>
  The enroll--recognise loop closes: a face enrolled from some pixels is recognised
  from the same pixels, whoever else is enrolled. The similarity is exactly one and the
  status known at every threshold up to one.
\<close>

theorem enrol_recognise:
  assumes "digest_bytes hash_bytes" and "named_enrolments enrolled" and "thr \<le> 1"
    and "(pid, reference_embed hash_bytes raw w h, mv) \<in> set enrolled"
  shows "rg_similarity (vector_search thr (reference_embed hash_bytes raw w h) mv enrolled) = Some 1 \<and>
    rg_status (vector_search thr (reference_embed hash_bytes raw w h) mv enrolled) = ''known''"
proof -
  define v where "v = reference_embed hash_bytes raw w h"
  have "dot v v = 1"
    using vector_from_cells_unit [OF assms(1) grid_length] by (simp add: v_def reference_embed_def)
  then have self: "cosine v v = 1" by (simp add: cosine_self)
  obtain bid s where f: "foldl (search_step v mv) (None, -1) enrolled = (bid, s)" by fastforce
  then have ok: "found_ok v mv enrolled (bid, s)" using search_found_ok [of v mv enrolled] by simp
  then have "1 \<le> s" using assms(4) self by (force simp: found_ok_def v_def)
  with ok obtain p e where p: "bid = Some p" "(p, e, mv) \<in> set enrolled" "cosine v e = s"
    by (auto simp: found_ok_def split: option.splits)
  then have "p \<noteq> []" "s = 1"
    using assms(2) \<open>1 \<le> s\<close> cosine_bounded [of v e] by (auto simp: named_enrolments_def list_all_iff)
  then show ?thesis
    using f p(1) assms(3) unfolding v_def [symmetric]
    by (simp add: vector_search_def Let_def classify_identity_def identity_value_def)
qed

theorem enrol_recognise_witness:
  "rg_status (vector_search (85/100) (reference_embed (\<lambda>_. replicate 32 7) [1, 2, 3, 4] 2 2) ''ref-v1''
     [(''ann'', reference_embed (\<lambda>_. replicate 32 7) [1, 2, 3, 4] 2 2, ''ref-v1'')]) = ''known''"
  using enrol_recognise [of "\<lambda>_. replicate 32 7"
      "[(''ann'', reference_embed (\<lambda>_. replicate 32 7) [1, 2, 3, 4] 2 2, ''ref-v1'')]" "85/100" "''ann''" "[1, 2, 3, 4]" 2 2 "''ref-v1''"]
  by (simp add: digest_bytes_def named_enrolments_def)

end
