(* ===== verification/Detectors.thy ===== *)
theory Detectors
  imports Tracking
begin

text \<open>
  \<open>packages/ai/detectors.py\<close> and \<open>packages/ai/detector_ref.py\<close>: suppression of overlapping
  boxes, decoding of YOLO outputs in both export layouts, padding, the motion and the
  synthetic detector, label mapping. The SCRFD suppression of \<open>packages/ai/face_onnx.py\<close> is
  here as well, beside the one it is compared with. A tensor is a list of rows.
\<close>

section \<open>Greedy suppression\<close>

text \<open>
  Two ways to write it: keep the head and filter the rest by it (\<open>nms\<close>), or scan and keep
  what is compatible with everything kept so far, up to a limit (\<open>ScrfdFaceDetector\<close>).
\<close>

function greedy_keep :: "('a \<Rightarrow> 'a \<Rightarrow> bool) \<Rightarrow> 'a list \<Rightarrow> 'a list" where
  "greedy_keep ok [] = []"
| "greedy_keep ok (x # xs) = x # greedy_keep ok (filter (ok x) xs)"
  by pat_completeness auto
termination
  by (relation "measure (\<lambda>(ok, xs). length xs)") (auto simp: le_imp_less_Suc)

fun greedy_scan :: "('a \<Rightarrow> 'a \<Rightarrow> bool) \<Rightarrow> nat \<Rightarrow> 'a list \<Rightarrow> 'a list \<Rightarrow> 'a list" where
  "greedy_scan ok k kept [] = kept"
| "greedy_scan ok k kept (x # xs) =
     (let kept' = (if \<forall>y \<in> set kept. ok x y then kept @ [x] else kept) in
      if length kept' \<ge> k then kept' else greedy_scan ok k kept' xs)"

lemma greedy_keep_subset: "set (greedy_keep ok xs) \<subseteq> set xs"
  by (induction ok xs rule: greedy_keep.induct) auto

lemma greedy_keep_distinct: "distinct xs \<Longrightarrow> distinct (greedy_keep ok xs)"
  by (induction ok xs rule: greedy_keep.induct) (use greedy_keep_subset in fastforce)+

lemma greedy_keep_sorted: "sorted_wrt R xs \<Longrightarrow> sorted_wrt R (greedy_keep ok xs)"
proof (induction ok xs rule: greedy_keep.induct)
  case (2 ok x xs)
  then show ?case using greedy_keep_subset [of ok "filter (ok x) xs"] by (auto simp: sorted_wrt_filter)
qed simp

lemma greedy_keep_compatible: "sorted_wrt ok (greedy_keep ok xs)"
proof (induction ok xs rule: greedy_keep.induct)
  case (2 ok x xs)
  then show ?case using greedy_keep_subset [of ok "filter (ok x) xs"] by auto
qed simp

text \<open>Whatever is dropped was incompatible with something kept that came before it.\<close>

lemma greedy_keep_dropped:
  "sorted_wrt R xs \<Longrightarrow> x \<in> set xs \<Longrightarrow> x \<in> set (greedy_keep ok xs) \<or> (\<exists>y \<in> set (greedy_keep ok xs). R y x \<and> \<not> ok y x)"
proof (induction ok xs rule: greedy_keep.induct)
  case (2 ok z xs)
  consider "x = z" | "x \<in> set xs" "ok z x" | "x \<in> set xs" "\<not> ok z x" using 2(3) by auto
  then show ?case
  proof cases
    case 2
    then have "x \<in> set (filter (ok z) xs)" by simp
    then show ?thesis using "2.IH" "2.prems"(1) by (auto simp: sorted_wrt_filter)
  qed (use 2 in auto)
qed simp

lemma greedy_scan_keep:
  assumes "\<And>a b. ok a b = ok b a" and "length kept < k"
  shows "greedy_scan ok k kept xs =
    kept @ take (k - length kept) (greedy_keep ok (filter (\<lambda>x. \<forall>y \<in> set kept. ok x y) xs))"
  using assms(2)
proof (induction xs arbitrary: kept)
  case Nil
  show ?case by simp
next
  case (Cons x xs)
  show ?case
  proof (cases "\<forall>y \<in> set kept. ok x y")
    case True
    have f: "filter (\<lambda>z. \<forall>y \<in> set (kept @ [x]). ok z y) xs = filter (ok x) (filter (\<lambda>z. \<forall>y \<in> set kept. ok z y) xs)"
      using assms(1) by (auto intro!: filter_cong)
    show ?thesis
    proof (cases "Suc (length kept) \<ge> k")
      case le: True
      then have "k - length kept = Suc 0" using Cons.prems by simp
      then show ?thesis using True le by simp
    next
      case False
      then have "k - length kept = Suc (k - Suc (length kept))" by simp
      moreover have "length (kept @ [x]) < k" using False by simp
      from Cons.IH [OF this] show ?thesis using True False calculation by (simp only: f) (simp add: Let_def)
    qed
  next
    case False
    have "greedy_scan ok k kept (x # xs) = greedy_scan ok k kept xs"
      using Cons.prems by (simp only: greedy_scan.simps if_not_P [OF False] Let_def) simp
    moreover have "filter (\<lambda>x. \<forall>y \<in> set kept. ok x y) (x # xs) = filter (\<lambda>x. \<forall>y \<in> set kept. ok x y) xs"
      using False by (simp only: filter.simps if_False)
    ultimately show ?thesis using Cons.IH [OF Cons.prems] by (simp only:)
  qed
qed

text \<open>
  The contract of suppression by a symmetric compatibility, for both detectors.
\<close>

locale suppression =
  fixes ok :: "'a \<Rightarrow> 'a \<Rightarrow> bool"
  assumes ok_sym: "ok a b = ok b a"
begin

lemma scan_is_keep: "0 < k \<Longrightarrow> greedy_scan ok k [] xs = take k (greedy_keep ok xs)"
  using greedy_scan_keep [of ok "[]" k xs] ok_sym by simp

lemma kept_pairwise: "i < length (greedy_keep ok xs) \<Longrightarrow> j < length (greedy_keep ok xs) \<Longrightarrow> i \<noteq> j \<Longrightarrow>
  ok (greedy_keep ok xs ! i) (greedy_keep ok xs ! j)"
  using greedy_keep_compatible [of ok xs] ok_sym by (metis linorder_neqE_nat sorted_wrt_nth_less)

end

section \<open>Non-maximum suppression\<close>

definition nms_ok :: "real \<Rightarrow> bbox list \<Rightarrow> nat \<Rightarrow> nat \<Rightarrow> bool" where
  "nms_ok iou_thr boxes i j \<longleftrightarrow> iou (boxes ! i) (boxes ! j) \<le> iou_thr"

definition nms :: "bbox list \<Rightarrow> real list \<Rightarrow> real \<Rightarrow> nat list" where
  "nms boxes scores iou_thr =
     greedy_keep (nms_ok iou_thr boxes) (sorted_desc (\<lambda>i. scores ! i) [0..<length scores])"

interpretation nms_suppression: suppression "nms_ok iou_thr boxes" for iou_thr boxes
  by unfold_locales (simp add: nms_ok_def iou_sym)

type_synonym 'k face = "bbox \<times> real \<times> 'k"

definition face_ok :: "'k face \<Rightarrow> 'k face \<Rightarrow> bool" where
  "face_ok f g \<longleftrightarrow> scrfd_iou (fst f) (fst g) < 4/10"

definition face_nms :: "'k face list \<Rightarrow> 'k face list" where
  \<comment> \<open>the end of \<open>ScrfdFaceDetector._decode\<close>: \<open>_NMS_IOU = 0.4\<close>, \<open>_TOP_K = 50\<close>\<close>
  "face_nms faces = greedy_scan face_ok 50 [] (sorted_desc (\<lambda>f. fst (snd f)) faces)"

interpretation face_suppression: suppression "face_ok :: 'k face \<Rightarrow> 'k face \<Rightarrow> bool"
  by unfold_locales (simp add: face_ok_def scrfd_overlap.ov_sym)

text \<open>
  Suppression keeps each index at most once, in descending score, no two kept boxes
  overlap above the threshold, and a box is dropped only for a kept box of at least its
  score that overlaps it above the threshold.
\<close>

theorem nms_correct:
  assumes "length boxes = length scores"
  shows "distinct (nms boxes scores thr) \<and> set (nms boxes scores thr) \<subseteq> {..<length boxes} \<and>
    sorted_wrt (\<lambda>i j. scores ! j \<le> scores ! i) (nms boxes scores thr) \<and>
    (\<forall>i \<in> set (nms boxes scores thr). \<forall>j \<in> set (nms boxes scores thr).
       i \<noteq> j \<longrightarrow> iou (boxes ! i) (boxes ! j) \<le> thr) \<and>
    (\<forall>j < length boxes. j \<notin> set (nms boxes scores thr) \<longrightarrow>
       (\<exists>i \<in> set (nms boxes scores thr). scores ! j \<le> scores ! i \<and> thr < iou (boxes ! i) (boxes ! j)))"
proof -
  let ?xs = "sorted_desc (\<lambda>i. scores ! i) [0..<length scores]"
  let ?ok = "nms_ok thr boxes"
  have d: "distinct ?xs" and s: "sorted_wrt (\<lambda>i j. scores ! j \<le> scores ! i) ?xs"
    by (simp, rule sorted_desc_sorted)
  have pair: "iou (boxes ! i) (boxes ! j) \<le> thr"
    if ij: "i \<in> set (greedy_keep ?ok ?xs)" "j \<in> set (greedy_keep ?ok ?xs)" "i \<noteq> j" for i j
  proof -
    obtain a b where "a < length (greedy_keep ?ok ?xs)" "greedy_keep ?ok ?xs ! a = i"
      "b < length (greedy_keep ?ok ?xs)" "greedy_keep ?ok ?xs ! b = j"
      using ij(1,2) by (auto simp: in_set_conv_nth)
    then show ?thesis
      using nms_suppression.kept_pairwise [of a thr boxes ?xs b] ij(3) by (auto simp: nms_ok_def)
  qed
  have drop: "\<exists>i \<in> set (greedy_keep ?ok ?xs). scores ! j \<le> scores ! i \<and> thr < iou (boxes ! i) (boxes ! j)"
    if "j < length boxes" "j \<notin> set (greedy_keep ?ok ?xs)" for j
    using greedy_keep_dropped [OF s, of j ?ok] that assms by (auto simp: nms_ok_def)
  have "set (greedy_keep ?ok ?xs) \<subseteq> {..<length boxes}"
    using greedy_keep_subset [of ?ok ?xs] assms by auto
  then show ?thesis
    unfolding nms_def using greedy_keep_distinct [OF d, of ?ok] greedy_keep_sorted [OF s, of ?ok] pair drop by blast
qed

theorem nms_correct_witness:
  "nms [(0, 0, 1, 1), (0, 0, 1, 1), (5, 5, 1, 1)] [5/10, 9/10, 1/10] (45/100) = [1, 2] \<and>
   distinct (nms [(0, 0, 1, 1), (0, 0, 1, 1), (5, 5, 1, 1)] [5/10, 9/10, 1/10] (45/100))"
proof -
  have "nms [(0, 0, 1, 1), (0, 0, 1, 1), (5, 5, 1, 1)] [5/10, 9/10, 1/10] (45/100) = [1, 2]" by code_simp
  then show ?thesis
    using nms_correct [of "[(0, 0, 1, 1), (0, 0, 1, 1), (5, 5, 1, 1)]" "[5/10, 9/10, 1/10]" "45/100"] by simp
qed

text \<open>
  The face detector's scan with a limit is the filtering suppression cut at fifty: it
  returns the first fifty faces the filtering form would keep.
\<close>

theorem face_nms_is_filtering:
  "face_nms faces = take 50 (greedy_keep face_ok (sorted_desc (\<lambda>f. fst (snd f)) faces))"
  by (simp add: face_nms_def face_suppression.scan_is_keep)

section \<open>Decoding\<close>

datatype tensor = Tensor2 "real list list" | Tensor3 "real list list list" | Other_rank

definition n_cols :: "real list list \<Rightarrow> nat" where
  \<comment> \<open>\<open>arr.shape[1]\<close>\<close>
  "n_cols rows = (case rows of [] \<Rightarrow> 0 | r # _ \<Rightarrow> length r)"

fun argmax_from :: "nat \<Rightarrow> real list \<Rightarrow> nat \<times> real \<Rightarrow> nat \<times> real" where
  "argmax_from i [] best = best"
| "argmax_from i (x # xs) best = argmax_from (Suc i) xs (if x > snd best then (i, x) else best)"

definition argmax :: "real list \<Rightarrow> nat" where
  \<comment> \<open>\<open>np.argmax\<close>: the first greatest entry\<close>
  "argmax xs = (case xs of [] \<Rightarrow> 0 | x # rest \<Rightarrow> fst (argmax_from 1 rest (0, x)))"

type_synonym candidate = "bbox \<times> real \<times> nat"

definition frame_box :: "real \<times> real \<Rightarrow> real \<times> real \<Rightarrow> bbox \<Rightarrow> bbox" where
  \<comment> \<open>centre and size in model pixels to a normalized corner box\<close>
  "frame_box in_hw frame_hw b = (case b of (x, y, w, h) \<Rightarrow>
     (let sx = snd frame_hw / snd in_hw; sy = fst frame_hw / fst in_hw;
          x1 = (x - w / 2) * sx; y1 = (y - h / 2) * sy
      in (x1 / snd frame_hw, y1 / fst frame_hw, (w * sx) / snd frame_hw, (h * sy) / fst frame_hw)))"

definition transposed_layout :: "real list list \<Rightarrow> bool" where
  "transposed_layout arr =
     (if n_cols arr < 6 then True
      else if length arr < 6 then False
      else n_cols arr > length arr)"

definition candidates_transposed ::
  "real \<times> real \<Rightarrow> real \<times> real \<Rightarrow> real \<Rightarrow> real list list \<Rightarrow> candidate list" where
  "candidates_transposed in_hw frame_hw conf_thr arr =
     (let cls_scores = drop 4 arr;
          best = map (\<lambda>j. argmax (map (\<lambda>r. r ! j) cls_scores)) [0..<n_cols arr];
          conf = map (\<lambda>j. cls_scores ! (best ! j) ! j) [0..<n_cols arr];
          keep = filter (\<lambda>j. conf ! j \<ge> conf_thr) [0..<n_cols arr]
      in map (\<lambda>j. (frame_box in_hw frame_hw (arr ! 0 ! j, arr ! 1 ! j, arr ! 2 ! j, arr ! 3 ! j),
                    conf ! j, best ! j)) keep)"

fun candidates_rows ::
  "real \<times> real \<Rightarrow> real \<times> real \<Rightarrow> real \<Rightarrow> real list list \<Rightarrow> candidate list" where
  "candidates_rows in_hw frame_hw conf_thr [] = []"
| "candidates_rows in_hw frame_hw conf_thr (row # rows) =
     (let scores = drop 4 row; label_idx = argmax scores; row_conf = scores ! label_idx in
      if row_conf < conf_thr then candidates_rows in_hw frame_hw conf_thr rows
      else (frame_box in_hw frame_hw (row ! 0, row ! 1, row ! 2, row ! 3), row_conf, label_idx)
             # candidates_rows in_hw frame_hw conf_thr rows)"

definition label_name :: "string list \<Rightarrow> nat \<Rightarrow> string" where
  "label_name labels i = (if i < length labels then labels ! i else ''class_'' @ str_nat i)"

definition suppress :: "string list \<Rightarrow> real \<Rightarrow> candidate list \<Rightarrow> detection list" where
  "suppress labels iou_thr cands =
     map (\<lambda>i. \<lparr>d_label = label_name labels (snd (snd (cands ! i))),
               d_confidence = fst (snd (cands ! i)), d_bbox = fst (cands ! i)\<rparr>)
       (nms (map fst cands) (map (fst \<circ> snd) cands) iou_thr)"

definition postprocess_yolo ::
  "tensor \<Rightarrow> string list \<Rightarrow> real \<Rightarrow> real \<Rightarrow> real \<times> real \<Rightarrow> real \<times> real \<Rightarrow> py_error + detection list" where
  "postprocess_yolo raw labels conf_thr iou_thr in_hw frame_hw =
     (let decode = (\<lambda>arr.
        if arr = [] then Inl Unmodelled \<comment> \<open>the rows do not tell the width of an empty matrix\<close>
        else if transposed_layout arr then
          (if length arr \<le> 4 then Inl ValueError
           else Inr (suppress labels iou_thr (candidates_transposed in_hw frame_hw conf_thr arr)))
        else Inr (suppress labels iou_thr (candidates_rows in_hw frame_hw conf_thr arr)))
      in case raw of
           Other_rank \<Rightarrow> Inr []
         | Tensor2 arr \<Rightarrow> decode arr
         | Tensor3 [] \<Rightarrow> Inl IndexError
         | Tensor3 (arr # _) \<Rightarrow> decode arr)"

section \<open>The two layouts agree\<close>

definition rectangular :: "nat \<Rightarrow> real list list \<Rightarrow> bool" where
  "rectangular c rows \<longleftrightarrow> (\<forall>r \<in> set rows. length r = c)"

definition flip :: "nat \<Rightarrow> real list list \<Rightarrow> real list list" where
  \<comment> \<open>the transpose of a matrix of \<open>c\<close> columns\<close>
  "flip c rows = map (\<lambda>j. map (\<lambda>r. r ! j) rows) [0..<c]"

definition row_candidate :: "real \<times> real \<Rightarrow> real \<times> real \<Rightarrow> real list \<Rightarrow> candidate" where
  "row_candidate in_hw frame_hw row =
     (frame_box in_hw frame_hw (row ! 0, row ! 1, row ! 2, row ! 3),
      drop 4 row ! argmax (drop 4 row), argmax (drop 4 row))"

lemma candidates_rows_filter:
  "candidates_rows in_hw frame_hw thr rows =
     map (row_candidate in_hw frame_hw) (filter (\<lambda>row. thr \<le> drop 4 row ! argmax (drop 4 row)) rows)"
  by (induction rows) (auto simp: Let_def row_candidate_def)

lemma argmax_from_less: "fst b < i \<Longrightarrow> fst (argmax_from i xs b) < i + length xs"
  by (induction i xs b rule: argmax_from.induct) fastforce+

lemma argmax_less: "xs \<noteq> [] \<Longrightarrow> argmax xs < length xs"
  using argmax_from_less [of "(0, hd xs)" 1 "tl xs"] by (cases xs) (auto simp: argmax_def)

lemma drop_flip_column:
  assumes "rectangular c rows" and "i < length rows" and "4 \<le> c"
  shows "map (\<lambda>r. r ! i) (drop 4 (flip c rows)) = drop 4 (rows ! i)"
proof (rule nth_equalityI)
  have "length (rows ! i) = c" using assms(1,2) by (simp add: rectangular_def)
  then show "length (map (\<lambda>r. r ! i) (drop 4 (flip c rows))) = length (drop 4 (rows ! i))"
    and "j < length (map (\<lambda>r. r ! i) (drop 4 (flip c rows))) \<Longrightarrow>
      map (\<lambda>r. r ! i) (drop 4 (flip c rows)) ! j = drop 4 (rows ! i) ! j" for j
    using assms by (auto simp: flip_def)
qed

lemma candidates_agree:
  assumes "rectangular c rows" and "5 \<le> c"
  shows "candidates_transposed in_hw frame_hw thr (flip c rows) = candidates_rows in_hw frame_hw thr rows"
proof -
  let ?n = "length rows"
  have n: "n_cols (flip c rows) = ?n" using assms(2) by (cases c) (simp_all add: n_cols_def flip_def upt_conv_Cons)
  define cls where "cls = drop 4 (flip c rows)"
  have col: "map (\<lambda>r. r ! j) cls = drop 4 (rows ! j)" if "j < ?n" for j
    using drop_flip_column [OF assms(1) that] assms(2) by (simp add: cls_def)
  have len: "length cls = c - 4" by (simp add: cls_def flip_def)
  have best: "cls ! argmax (drop 4 (rows ! j)) ! j = drop 4 (rows ! j) ! argmax (drop 4 (rows ! j))" if "j < ?n" for j
  proof -
    have "length (rows ! j) = c" using that assms(1) by (simp add: rectangular_def)
    then have "argmax (drop 4 (rows ! j)) < length cls"
      using argmax_less [of "drop 4 (rows ! j)"] assms(2) by (simp add: len)
    then have "map (\<lambda>r. r ! j) cls ! argmax (drop 4 (rows ! j)) = cls ! argmax (drop 4 (rows ! j)) ! j" by simp
    then show ?thesis using col [OF that] by simp
  qed
  have entry: "flip c rows ! k ! j = rows ! j ! k" if "j < ?n" "k < 4" for j k
    using that assms(2) by (simp add: flip_def)
  have "candidates_transposed in_hw frame_hw thr (flip c rows) =
      map (\<lambda>j. row_candidate in_hw frame_hw (rows ! j))
        (filter (\<lambda>j. thr \<le> drop 4 (rows ! j) ! argmax (drop 4 (rows ! j))) [0..<?n])"
    unfolding candidates_transposed_def Let_def n cls_def [symmetric]
    by (rule map_cong, rule filter_cong)
      (auto simp: col best entry row_candidate_def)
  also have "\<dots> = map (row_candidate in_hw frame_hw)
      (filter (\<lambda>row. thr \<le> drop 4 row ! argmax (drop 4 row)) (map (\<lambda>j. rows ! j) [0..<?n]))"
    by (simp add: filter_map o_def)
  finally show ?thesis by (simp add: candidates_rows_filter map_nth)
qed

text \<open>
  The two export layouts of one output decode to the same detections: a row-major
  output with more anchors than columns, or fewer than six anchors, and its transpose.
\<close>

theorem yolo_layouts_agree:
  assumes "rectangular c rows" and "6 \<le> c" and "rows \<noteq> []" and "length rows < 6 \<or> c < length rows"
  shows "postprocess_yolo (Tensor2 (flip c rows)) labels conf_thr iou_thr in_hw frame_hw =
         postprocess_yolo (Tensor2 rows) labels conf_thr iou_thr in_hw frame_hw"
proof -
  have cols: "n_cols rows = c" using assms(1,3) by (cases rows) (auto simp: n_cols_def rectangular_def)
  have flipped: "n_cols (flip c rows) = length rows" "length (flip c rows) = c"
    using assms(2) by (cases c, simp_all add: n_cols_def flip_def upt_conv_Cons)
  have "\<not> transposed_layout rows" using assms(2,4) by (auto simp: transposed_layout_def cols)
  moreover have "transposed_layout (flip c rows)" using assms(2,4) by (auto simp: transposed_layout_def flipped)
  moreover have "flip c rows \<noteq> []" using flipped(2) assms(2) by auto
  ultimately show ?thesis
    using assms(1-3) by (simp add: postprocess_yolo_def Let_def flipped candidates_agree)
qed

theorem yolo_layouts_agree_witness:
  "postprocess_yolo (Tensor2 (flip 6 [[320, 192, 64, 96, 2/10, 9/10]])) [''a'', ''b''] (45/100) (45/100) (384, 640) (360, 640) =
     Inr [\<lparr>d_label = ''b'', d_confidence = 9/10, d_bbox = (45/100, 3/8, 1/10, 1/4)\<rparr>]"
proof -
  have "postprocess_yolo (Tensor2 [[320, 192, 64, 96, 2/10, 9/10]]) [''a'', ''b''] (45/100) (45/100) (384, 640) (360, 640) =
     Inr [\<lparr>d_label = ''b'', d_confidence = 9/10, d_bbox = (45/100, 3/8, 1/10, 1/4)\<rparr>]" by code_simp
  then show ?thesis
    using yolo_layouts_agree [of 6 "[[320, 192, 64, 96, 2/10, 9/10]]" "[''a'', ''b'']" "45/100" "45/100" "(384, 640)" "(360, 640)"]
    by (simp add: rectangular_def)
qed

section \<open>Padding and the scale of boxes\<close>

definition padded_dim :: "int \<Rightarrow> int" where
  \<comment> \<open>\<open>((h + 31) // 32) * 32\<close>\<close>
  "padded_dim h = ((h + 31) div 32) * 32"

definition runtime_detect ::
  "(int \<times> int \<Rightarrow> tensor) \<Rightarrow> int \<times> int \<Rightarrow> string list \<Rightarrow> real \<Rightarrow> real \<Rightarrow> real \<times> real \<Rightarrow> py_error + detection list" where
  \<comment> \<open>\<open>_RuntimeDetector.detect\<close> on a frame of height and width \<open>hw\<close>; inference is a parameter\<close>
  "runtime_detect infer hw labels conf_thr iou_thr frame_hw =
     (let model_h = padded_dim (fst hw); model_w = padded_dim (snd hw)
      in postprocess_yolo (infer (model_h, model_w)) labels conf_thr iou_thr
           (of_int model_h, of_int model_w) frame_hw)"

lemma padded_dim_bounds: "n \<le> padded_dim n \<and> padded_dim n < n + 32 \<and> 32 dvd padded_dim n"
  by (simp add: padded_dim_def) presburger

lemma padded_dim_id: "padded_dim n = n \<longleftrightarrow> 32 dvd n"
  by (simp add: padded_dim_def) presburger

lemma frame_box_model:
  "fst frame_hw \<noteq> 0 \<Longrightarrow> snd frame_hw \<noteq> 0 \<Longrightarrow>
   frame_box in_hw frame_hw (x, y, w, h) =
     ((x - w / 2) / snd in_hw, (y - h / 2) / fst in_hw, w / snd in_hw, h / fst in_hw)"
  by (simp add: frame_box_def Let_def)

text \<open>
  Padding is bottom and right, so a box of the model is a box of the frame in the same
  pixels, yet its coordinates are divided by the padded size: a box of \<open>w\<close> by \<open>h\<close> pixels is
  reported with the right normalized size exactly if the frame's sides are multiples of
  the stride, and too small otherwise.
\<close>

theorem padded_box_scale:
  assumes "0 < fh" and "0 < fw" and "0 < w" and "0 < h"
  shows "(case frame_box (of_int (padded_dim fh), of_int (padded_dim fw)) (of_int fh, of_int fw) (x, y, w, h) of
      (_, _, bw, bh) \<Rightarrow>
        bw \<le> w / of_int fw \<and> bh \<le> h / of_int fh \<and>
        (bw = w / of_int fw \<longleftrightarrow> 32 dvd fw) \<and> (bh = h / of_int fh \<longleftrightarrow> 32 dvd fh))"
proof -
  have key: "a / of_int (padded_dim n) \<le> a / of_int n \<and> (a / of_int (padded_dim n) = a / of_int n \<longleftrightarrow> 32 dvd n)"
    if "0 < n" "0 < (a::real)" for n a
  proof -
    have "0 < padded_dim n" "n \<le> padded_dim n" using padded_dim_bounds [of n] that(1) by auto
    then have "a / of_int (padded_dim n) \<le> a / of_int n" using that by (intro divide_left_mono) auto
    moreover have "a / of_int (padded_dim n) = a / of_int n \<longleftrightarrow> padded_dim n = n"
      using that \<open>0 < padded_dim n\<close> by (auto simp: frac_eq_eq)
    ultimately show ?thesis by (simp add: padded_dim_id)
  qed
  show ?thesis using key [OF assms(1,4)] key [OF assms(2,3)] assms(1,2) by (simp add: frame_box_model)
qed

theorem padded_box_scale_witness:
  "frame_box (of_int (padded_dim 360), of_int (padded_dim 640)) (of_int 360, of_int 640) (320, 180, 640, 360) =
     (0, 0, 1, 15/16) \<and> \<not> 32 dvd (360::int)"
proof -
  have "frame_box (of_int (padded_dim 360), of_int (padded_dim 640)) (of_int 360, of_int 640) (320, 180, 640, 360) =
     (0, 0, 1, 15/16)"
    by (simp add: frame_box_def padded_dim_def Let_def)
  then show ?thesis using padded_box_scale [of 360 640 640 360 320 180] by simp
qed

section \<open>The motion detector\<close>

definition mean3 :: "real \<times> real \<times> real \<Rightarrow> real" where
  \<comment> \<open>\<open>img.mean(axis=2)\<close> on one pixel\<close>
  "mean3 p = (case p of (r, g, b) \<Rightarrow> (r + g + b) / 3)"

definition changed_pixels :: "real list list \<Rightarrow> real list list \<Rightarrow> (nat \<times> nat) list" where
  \<comment> \<open>the positions \<open>(y, x)\<close> where the mask is set\<close>
  "changed_pixels prev gray =
     concat (map (\<lambda>y. map (\<lambda>x. (y, x)) (filter (\<lambda>x. \<bar>gray ! y ! x - prev ! y ! x\<bar> > 25) [0..<n_cols gray]))
       [0..<length gray])"

definition motion_detect ::
  "real \<Rightarrow> real list list option \<Rightarrow> real list list \<Rightarrow> py_error + (real list list \<times> detection list)" where
  \<comment> \<open>\<open>ReferenceMotionDetector.detect\<close>: the new \<open>_prev\<close> and the detections\<close>
  "motion_detect min_area prev gray =
     (case prev of
        None \<Rightarrow> Inr (gray, [])
      | Some p \<Rightarrow>
          if length p \<noteq> length gray \<or> n_cols p \<noteq> n_cols gray then Inl Unmodelled
          else (let hits = changed_pixels p gray;
                    area = of_nat (length hits) / max 1 (of_nat (length gray * n_cols gray));
                    w = of_nat (n_cols gray); h = of_nat (length gray) in
                if area < min_area \<or> hits = [] then Inr (gray, [])
                else (let xs = map (\<lambda>p. of_nat (snd p) :: real) hits; ys = map (\<lambda>p. of_nat (fst p) :: real) hits;
                          x1 = Min (set xs) / w; y1 = Min (set ys) / h;
                          x2 = Max (set xs) / w; y2 = Max (set ys) / h
                      in Inr (gray, [\<lparr>d_label = ''person'', d_confidence = min 1 (5/10 + area * 5),
                                       d_bbox = (x1, y1, x2 - x1, y2 - y1)\<rparr>]))))"

definition unit_box :: "bbox \<Rightarrow> bool" where
  "unit_box b = (case b of (x, y, w, h) \<Rightarrow> 0 \<le> x \<and> 0 \<le> y \<and> 0 \<le> w \<and> 0 \<le> h \<and> x + w \<le> 1 \<and> y + h \<le> 1)"

lemma changed_pixels_range:
  "(y, x) \<in> set (changed_pixels prev gray) \<Longrightarrow> y < length gray \<and> x < n_cols gray"
  by (auto simp: changed_pixels_def)

lemma Min_Max_fraction:
  fixes xs :: "real list"
  assumes "xs \<noteq> []" and "\<forall>x \<in> set xs. 0 \<le> x \<and> x \<le> w" and "0 < w"
  shows "0 \<le> Min (set xs) / w \<and> Min (set xs) / w \<le> Max (set xs) / w \<and> Max (set xs) / w \<le> 1"
proof -
  have "Min (set xs) \<in> set xs" "Max (set xs) \<in> set xs" using assms(1) by simp_all
  then have "0 \<le> Min (set xs)" "Max (set xs) \<le> w" "Min (set xs) \<le> Max (set xs)" using assms(2) by auto
  then show ?thesis using assms(3) by (simp add: divide_right_mono)
qed

lemma changed_pixels_box:
  assumes "changed_pixels p g \<noteq> []"
  shows "unit_box (let xs = map (\<lambda>p. of_nat (snd p) :: real) (changed_pixels p g);
      ys = map (\<lambda>p. of_nat (fst p) :: real) (changed_pixels p g);
      w = of_nat (n_cols g); h = of_nat (length g)
    in (Min (set xs) / w, Min (set ys) / h, Max (set xs) / w - Min (set xs) / w, Max (set ys) / h - Min (set ys) / h))"
proof -
  define xs where "xs = map (\<lambda>p. of_nat (snd p) :: real) (changed_pixels p g)"
  define ys where "ys = map (\<lambda>p. of_nat (fst p) :: real) (changed_pixels p g)"
  have r: "\<forall>q \<in> set (changed_pixels p g). fst q < length g \<and> snd q < n_cols g"
    using changed_pixels_range by auto
  then have "0 < length g" "0 < n_cols g" using assms by (cases "changed_pixels p g"; auto)+
  moreover have "\<forall>x \<in> set xs. 0 \<le> x \<and> x \<le> real (n_cols g)" "\<forall>y \<in> set ys. 0 \<le> y \<and> y \<le> real (length g)"
    using r by (auto simp: xs_def ys_def less_imp_le)
  moreover have "xs \<noteq> []" "ys \<noteq> []" using assms by (simp_all add: xs_def ys_def)
  ultimately have "0 \<le> Min (set xs) / n_cols g \<and> Min (set xs) / n_cols g \<le> Max (set xs) / n_cols g \<and> Max (set xs) / n_cols g \<le> 1"
    "0 \<le> Min (set ys) / length g \<and> Min (set ys) / length g \<le> Max (set ys) / length g \<and> Max (set ys) / length g \<le> 1"
    by (intro Min_Max_fraction; simp)+
  then show ?thesis unfolding Let_def xs_def [symmetric] ys_def [symmetric] unit_box_def by simp
qed

lemma motion_detect_cases:
  assumes "motion_detect a prev g = Inr (g', out)"
  shows "g' = g \<and> (out = [] \<or> (\<exists>p d. prev = Some p \<and> changed_pixels p g \<noteq> [] \<and> out = [d] \<and> d_confidence d \<le> 1 \<and>
    d_bbox d = (let xs = map (\<lambda>p. of_nat (snd p) :: real) (changed_pixels p g);
      ys = map (\<lambda>p. of_nat (fst p) :: real) (changed_pixels p g);
      w = of_nat (n_cols g); h = of_nat (length g)
    in (Min (set xs) / w, Min (set ys) / h, Max (set xs) / w - Min (set xs) / w, Max (set ys) / h - Min (set ys) / h))))"
proof (cases prev)
  case None
  then show ?thesis using assms by (simp add: motion_detect_def)
next
  case (Some p)
  show ?thesis
  proof (cases "out = []")
    case True
    then show ?thesis using assms Some by (simp add: motion_detect_def Let_def split: if_splits)
  next
    case False
    then show ?thesis
      using assms Some
      by (simp add: motion_detect_def Let_def split: if_splits) auto
  qed
qed

text \<open>
  The motion detector reports nothing on its first frame and on an unchanged one, at
  most one box otherwise, and the box lies in the frame with a confidence of at most one.
\<close>

theorem motion_detect_sound:
  assumes "motion_detect a prev g = Inr (g', out)"
  shows "g' = g \<and> length out \<le> 1 \<and> (prev \<in> {None, Some g} \<longrightarrow> out = []) \<and>
    (\<forall>d \<in> set out. unit_box (d_bbox d) \<and> d_confidence d \<le> 1)"
proof -
  have "changed_pixels g g = []" by (simp add: changed_pixels_def)
  then show ?thesis using motion_detect_cases [OF assms] changed_pixels_box by fastforce
qed

theorem motion_detect_sound_witness:
  "motion_detect (1/100) (Some [[0, 0], [0, 0]]) [[0, 90], [0, 0]] =
     Inr ([[0, 90], [0, 0]], [\<lparr>d_label = ''person'', d_confidence = 1, d_bbox = (1/2, 0, 0, 0)\<rparr>]) \<and>
   unit_box (1/2, 0, 0, 0)"
proof -
  have "motion_detect (1/100) (Some [[0, 0], [0, 0]]) [[0, 90], [0, 0]] =
     Inr ([[0, 90], [0, 0]], [\<lparr>d_label = ''person'', d_confidence = 1, d_bbox = (1/2, 0, 0, 0)\<rparr>])"
    by (simp add: motion_detect_def changed_pixels_def n_cols_def upt_conv_Cons)
  from motion_detect_sound [OF this] this show ?thesis by simp
qed

section \<open>Label mapping\<close>

definition default_labels :: "string list" where
  "default_labels = [''person'', ''vehicle'', ''bicycle'', ''motorcycle'', ''bus'', ''truck'',
     ''animal'', ''bag'', ''package'']"

definition coco_to_localsight :: "(string, string) dict" where
  "coco_to_localsight =
    [(''person'', ''person''), (''bicycle'', ''bicycle''),
     (''car'', ''vehicle''), (''motorcycle'', ''motorcycle''), (''bus'', ''bus''),
     (''truck'', ''truck''), (''train'', ''vehicle''), (''airplane'', ''vehicle''), (''boat'', ''vehicle''),
     (''bird'', ''animal''), (''cat'', ''animal''), (''dog'', ''animal''), (''horse'', ''animal''),
     (''sheep'', ''animal''), (''cow'', ''animal''), (''elephant'', ''animal''), (''bear'', ''animal''),
     (''zebra'', ''animal''), (''giraffe'', ''animal''),
     (''backpack'', ''bag''), (''handbag'', ''bag''), (''suitcase'', ''bag''),
     (''cell phone'', ''package''), (''laptop'', ''package''), (''tv'', ''package'')]"

definition map_labels :: "detection list \<Rightarrow> detection list" where
  \<comment> \<open>\<open>_LabelMappedDetector.detect\<close>\<close>
  "map_labels ds = concat (map (\<lambda>d. case dict_get coco_to_localsight (d_label d) of
     None \<Rightarrow> [] | Some l \<Rightarrow> [\<lparr>d_label = l, d_confidence = d_confidence d, d_bbox = d_bbox d\<rparr>]) ds)"

lemma coco_values: "snd ` set coco_to_localsight \<subseteq> set default_labels"
  by (simp add: coco_to_localsight_def default_labels_def)

text \<open>
  A label-mapped detector emits only labels of the platform's vocabulary; each is a
  detection of the inner one with its confidence and box.
\<close>

theorem map_labels_vocabulary:
  "d_label ` set (map_labels ds) \<subseteq> set default_labels \<and>
   (\<lambda>d. (d_confidence d, d_bbox d)) ` set (map_labels ds) \<subseteq> (\<lambda>d. (d_confidence d, d_bbox d)) ` set ds"
proof -
  have "l \<in> set default_labels" if "dict_get coco_to_localsight k = Some l" for k l
    using dict_get_SomeD [OF that] coco_values by force
  then show ?thesis by (fastforce simp: map_labels_def split: option.splits)
qed

section \<open>The synthetic detector\<close>

definition real_mod :: "real \<Rightarrow> real \<Rightarrow> real" where
  \<comment> \<open>\<open>t % c\<close> on floats\<close>
  "real_mod t c = t - c * of_int \<lfloor>t / c\<rfloor>"

definition synthetic_detect :: "real \<Rightarrow> real \<Rightarrow> real \<Rightarrow> real \<Rightarrow> detection list" where
  \<comment> \<open>\<open>SyntheticDetector.detect\<close> at time \<open>t\<close> in seconds\<close>
  "synthetic_detect appear gap conf t =
     (let cycle = appear + gap; phase = real_mod t cycle in
      if phase > appear then []
      else (let frac = phase / appear; x = 1/10 + 7/10 * frac; y = 45/100 + 5/100 * sin (frac * pi)
            in [\<lparr>d_label = ''person'', d_confidence = conf, d_bbox = (x, y, 8/100, 35/100)\<rparr>]))"

lemma real_mod_bounds: "0 < c \<Longrightarrow> 0 \<le> real_mod t c \<and> real_mod t c < c"
  using floor_divide_lower [of c t] floor_divide_upper [of c t] by (simp add: real_mod_def algebra_simps)

lemma real_mod_period: "0 < c \<Longrightarrow> real_mod (t + c) c = real_mod t c"
  by (simp add: real_mod_def add_divide_distrib algebra_simps)

text \<open>
  The synthetic person walks within the frame: every detection is a box in the frame,
  and the scene repeats with the period of its appearances.
\<close>

theorem synthetic_detect_sound:
  assumes "0 < appear" and "0 \<le> gap"
  shows "(\<forall>d \<in> set (synthetic_detect appear gap conf t). unit_box (d_bbox d)) \<and>
    synthetic_detect appear gap conf (t + (appear + gap)) = synthetic_detect appear gap conf t"
proof -
  define frac where "frac = real_mod t (appear + gap) / appear"
  have "0 \<le> frac \<and> frac \<le> 1" if "\<not> appear < real_mod t (appear + gap)"
    using that assms real_mod_bounds [of "appear + gap" t] by (simp add: frac_def)
  moreover have "0 \<le> 9/20 + sin (frac * pi) / 20" "4/5 + sin (frac * pi) / 20 \<le> 1"
    using sin_ge_minus_one [of "frac * pi"] sin_le_one [of "frac * pi"] by linarith+
  ultimately show ?thesis
    using assms real_mod_period [of "appear + gap" t]
    by (auto simp: synthetic_detect_def Let_def unit_box_def frac_def [symmetric] split: if_splits)
qed

theorem synthetic_detect_sound_witness:
  "unit_box (d_bbox (hd (synthetic_detect 12 40 (9/10) 0))) \<and> synthetic_detect 12 40 (9/10) 52 = synthetic_detect 12 40 (9/10) 0"
proof -
  have "synthetic_detect 12 40 (9/10) 0 \<noteq> []" by (simp add: synthetic_detect_def real_mod_def Let_def)
  then show ?thesis using synthetic_detect_sound [of 12 40 "9/10" 0] by simp
qed

end
