(* ===== verification/Registry.thy ===== *)
theory Registry
  imports Detectors
begin

text \<open>
  \<open>packages/ai/registry.py\<close>: the approved model registry, and the constructors that load
  staged models through it, \<open>build_detector\<close> (\<open>packages/ai/detectors.py\<close>) and
  \<open>build_face_chain\<close> (\<open>packages/ai/face_onnx.py\<close>). The digest of a file on disk is a
  parameter: \<open>None\<close> where reading it is an \<open>OSError\<close>.
\<close>

record model_record =
  mr_name :: string
  mr_version :: string
  mr_path :: string
  mr_hash :: string
  mr_source :: string
  mr_license :: string

type_synonym registry = "(string \<times> string, model_record) dict"

definition registry_load :: "model_record list option \<Rightarrow> registry" where
  \<comment> \<open>\<open>None\<close>: there is no registry file\<close>
  "registry_load file =
     (case file of None \<Rightarrow> []
      | Some recs \<Rightarrow> foldl (\<lambda>ms r. dict_set (mr_name r, mr_version r) r ms) [] recs)"

definition registry_save :: "registry \<Rightarrow> model_record list" where
  "registry_save ms = map snd ms"

definition register :: "model_record \<Rightarrow> registry \<Rightarrow> registry \<times> model_record list" where
  \<comment> \<open>the registry and the file it is saved to\<close>
  "register r ms = (let ms' = dict_set (mr_name r, mr_version r) r ms in (ms', registry_save ms'))"

definition registry_get :: "registry \<Rightarrow> string \<Rightarrow> string \<Rightarrow> py_error + model_record" where
  "registry_get ms name version =
     (case dict_get ms (name, version) of None \<Rightarrow> Inl KeyError | Some r \<Rightarrow> Inr r)"

definition registry_verify :: "(string \<Rightarrow> string option) \<Rightarrow> registry \<Rightarrow> string \<Rightarrow> string \<Rightarrow> bool" where
  "registry_verify digest ms name version =
     (case dict_get ms (name, version) of
        None \<Rightarrow> False
      | Some r \<Rightarrow> (case digest (mr_path r) of None \<Rightarrow> False | Some actual \<Rightarrow> actual = mr_hash r))"

definition registry_ok :: "registry \<Rightarrow> bool" where
  "registry_ok ms \<longleftrightarrow> dict_ok ms \<and> (\<forall>(k, r) \<in> set ms. k = (mr_name r, mr_version r))"

lemma registry_ok_set:
  "registry_ok ms \<Longrightarrow> registry_ok (dict_set (mr_name r, mr_version r) r ms)"
proof -
  assume ok: "registry_ok ms"
  have "k = (mr_name v, mr_version v)" if "(k, v) \<in> set (dict_set (mr_name r, mr_version r) r ms)" for k v
  proof -
    from that ok have e: "dict_get (dict_set (mr_name r, mr_version r) r ms) k = Some v"
      using dict_get_in [of "dict_set (mr_name r, mr_version r) r ms" k v] by (simp add: registry_ok_def)
    show ?thesis
    proof (cases "k = (mr_name r, mr_version r)")
      case False
      then have "(k, v) \<in> set ms" using e by (intro dict_get_SomeD) simp
      then show ?thesis using ok by (auto simp: registry_ok_def)
    qed (use e in simp)
  qed
  then show ?thesis using ok by (auto simp: registry_ok_def)
qed

lemma dict_set_new: "k \<notin> set (dict_keys d) \<Longrightarrow> dict_set k v d = d @ [(k, v)]"
  by (induction d) (auto simp: dict_set_def dict_keys_def)

lemma registry_load_from:
  assumes "registry_ok (ms @ rest)"
  shows "foldl (\<lambda>ms r. dict_set (mr_name r, mr_version r) r ms) ms (registry_save rest) = ms @ rest"
  using assms
proof (induction rest arbitrary: ms)
  case Nil
  show ?case by (simp add: registry_save_def)
next
  case (Cons e rest)
  obtain k r where e: "e = (k, r)" by (cases e)
  then have k: "k = (mr_name r, mr_version r)" "k \<notin> set (dict_keys ms)"
    using Cons.prems by (auto simp: registry_ok_def dict_ok_def dict_keys_def)
  then have "dict_set k r ms = ms @ [e]" by (simp add: dict_set_new e)
  then show ?case using Cons.IH [of "ms @ [e]"] Cons.prems k(1) by (simp add: registry_save_def e)
qed

text \<open>
  The registry survives a restart: loading the file that registering a model wrote
  gives the registry back, in which the model is found, and every other as before.
\<close>

theorem registry_roundtrip:
  assumes "registry_ok ms"
  shows "registry_load (Some (snd (register r ms))) = fst (register r ms) \<and>
    registry_get (fst (register r ms)) (mr_name r) (mr_version r) = Inr r \<and>
    (\<forall>n v. (n, v) \<noteq> (mr_name r, mr_version r) \<longrightarrow>
       registry_get (fst (register r ms)) n v = registry_get ms n v)"
  using registry_load_from [of "[]" "dict_set (mr_name r, mr_version r) r ms"] registry_ok_set [OF assms, of r]
  by (simp add: register_def Let_def registry_load_def registry_get_def)

definition yolo_model :: model_record where
  "yolo_model = \<lparr>mr_name = ''detector'', mr_version = ''latest'', mr_path = ''models/y.onnx'',
     mr_hash = ''ab12'', mr_source = '''', mr_license = ''''\<rparr>"

theorem registry_roundtrip_witness:
  "registry_load (Some (snd (register yolo_model []))) = [((''detector'', ''latest''), yolo_model)]"
proof -
  have "fst (register yolo_model []) = [((''detector'', ''latest''), yolo_model)]"
    by (simp add: register_def Let_def yolo_model_def dict_set_def)
  then show ?thesis using registry_roundtrip [of "[]" yolo_model] by (simp add: registry_ok_def)
qed

section \<open>Loading staged models\<close>

datatype built_detector =
    Reference_motion real
  | Label_mapped string string real  \<comment> \<open>backend, model path, confidence threshold\<close>

record ai_settings =
  ai_detector :: string
  ai_confidence :: real
  ai_model_name :: string
  ai_model_version :: string

definition backends :: "string list" where
  "backends = [''onnx'', ''tensorrt'', ''openvino'', ''tflite'', ''reference'']"

definition build_detector ::
  "(string \<Rightarrow> string option) \<Rightarrow> ai_settings \<Rightarrow> registry \<Rightarrow> string option \<Rightarrow> py_error + built_detector" where
  "build_detector digest s ms backend =
     (let b = (case backend of None \<Rightarrow> ai_detector s | Some [] \<Rightarrow> ai_detector s | Some x \<Rightarrow> x) in
      if b \<in> {''reference'', ''synthetic''} then Inr (Reference_motion (ai_confidence s))
      else if b \<notin> set backends then Inl RuntimeError
      else bind_ok (registry_get ms (ai_model_name s) (ai_model_version s)) (\<lambda>r.
        if \<not> registry_verify digest ms (ai_model_name s) (ai_model_version s) then Inl RuntimeError
        else Inr (Label_mapped b (mr_path r) (ai_confidence s))))"

definition build_face_chain ::
  "(string \<Rightarrow> string option) \<Rightarrow> registry \<Rightarrow> py_error + (string \<times> string)" where
  \<comment> \<open>the paths of the verified detector and embedder\<close>
  "build_face_chain digest ms =
     bind_ok (registry_get ms ''face_detector'' ''latest'') (\<lambda>det_rec.
     bind_ok (registry_get ms ''face_embedder'' ''latest'') (\<lambda>emb_rec.
       if \<not> registry_verify digest ms ''face_detector'' ''latest'' \<or>
          \<not> registry_verify digest ms ''face_embedder'' ''latest''
       then Inl RuntimeError else Inr (mr_path det_rec, mr_path emb_rec)))"

lemma verified_path:
  assumes "registry_get ms n v = Inr r" and "registry_verify digest ms n v"
  shows "digest (mr_path r) = Some (mr_hash r)"
  using assms by (auto simp: registry_get_def registry_verify_def split: option.splits)

text \<open>
  Models are loaded fail-closed. A model-backed detector, or a face chain, is built
  only from files whose digest on disk is the one registered; without a match the
  construction raises.
\<close>

theorem only_verified_models_load:
  "(build_detector digest s ms backend = Inr (Label_mapped b path thr) \<longrightarrow>
      (\<exists>r. registry_get ms (ai_model_name s) (ai_model_version s) = Inr r \<and> mr_path r = path \<and>
           digest path = Some (mr_hash r))) \<and>
   (build_face_chain digest ms = Inr (det, emb) \<longrightarrow>
      (\<exists>r1 r2. registry_get ms ''face_detector'' ''latest'' = Inr r1 \<and> mr_path r1 = det \<and> digest det = Some (mr_hash r1) \<and>
               registry_get ms ''face_embedder'' ''latest'' = Inr r2 \<and> mr_path r2 = emb \<and> digest emb = Some (mr_hash r2)))"
  by (auto simp: build_detector_def build_face_chain_def Let_def bind_ok_Inr dest: verified_path split: if_splits)

theorem only_verified_models_load_witness:
  "build_detector (\<lambda>p. if p = ''models/y.onnx'' then Some ''ab12'' else None)
     \<lparr>ai_detector = ''onnx'', ai_confidence = 45/100, ai_model_name = ''detector'', ai_model_version = ''latest''\<rparr>
     [((''detector'', ''latest''), yolo_model)] None = Inr (Label_mapped ''onnx'' ''models/y.onnx'' (45/100)) \<and>
   mr_hash yolo_model = ''ab12''"
proof -
  let ?d = "\<lambda>p. if p = ''models/y.onnx'' then Some ''ab12'' else None"
  let ?s = "\<lparr>ai_detector = ''onnx'', ai_confidence = 45/100, ai_model_name = ''detector'', ai_model_version = ''latest''\<rparr>"
  let ?ms = "[((''detector'', ''latest''), yolo_model)]"
  have b: "build_detector ?d ?s ?ms None = Inr (Label_mapped ''onnx'' ''models/y.onnx'' (45/100))"
    by (simp add: build_detector_def backends_def registry_get_def registry_verify_def dict_get_def yolo_model_def Let_def)
  with only_verified_models_load [of ?d ?s ?ms None "''onnx''" "''models/y.onnx''" "45/100"]
  obtain r where "registry_get ?ms ''detector'' ''latest'' = Inr r" "?d ''models/y.onnx'' = Some (mr_hash r)" by auto
  with b show ?thesis by (simp add: registry_get_def dict_get_def yolo_model_def)
qed

end
