(* ===== verification/Face_Onnx.thy ===== *)
theory Face_Onnx
  imports Detectors
begin

text \<open>
  \<open>packages/ai/face_onnx.py\<close>: decoding of the SCRFD outputs, per stride, into faces in
  canvas pixels, and the choice of the face of a person. The network is a parameter: its
  outputs are given. Landmarks are lists of points.
\<close>

section \<open>Decoding\<close>

record stride_out =
  so_scores :: "real list"
  so_boxes :: "bbox list"  \<comment> \<open>left, top, right, bottom distances in stride units\<close>
  so_kps :: "point list list option"

type_synonym landmarks = "point list option"

definition anchor :: "nat \<Rightarrow> nat \<Rightarrow> nat \<Rightarrow> point" where
  \<comment> \<open>the centre of the cell of output \<open>idx\<close>: two anchors per cell\<close>
  "anchor stride grid idx =
     (let cell = idx div 2; gy = cell div grid; gx = cell mod grid
      in (of_nat (gx * stride + stride div 2), of_nat (gy * stride + stride div 2)))"

definition decode_face :: "nat \<Rightarrow> nat \<Rightarrow> stride_out \<Rightarrow> nat \<Rightarrow> landmarks face" where
  "decode_face stride grid out idx =
     (case (anchor stride grid idx, so_boxes out ! idx) of ((acx, acy), (l, t, r, b)) \<Rightarrow>
        (let s = of_nat stride;
             x1 = acx - l * s; y1 = acy - t * s; x2 = acx + r * s; y2 = acy + b * s;
             kps = (case so_kps out of None \<Rightarrow> None
                    | Some ks \<Rightarrow> Some (map (\<lambda>(kx, ky). (kx * s + acx, ky * s + acy)) (ks ! idx)))
         in ((x1, y1, x2 - x1, y2 - y1), so_scores out ! idx, kps)))"

definition decode_stride :: "real \<Rightarrow> nat \<Rightarrow> stride_out \<Rightarrow> py_error + landmarks face list" where
  "decode_stride conf stride out =
     (let n = length (so_scores out);
          grid = nat \<lfloor>sqrt (of_nat n / 2)\<rfloor>;
          idxs = filter (\<lambda>i. so_scores out ! i > conf) [0..<n]
      in if idxs = [] then Inr []
         else if grid = 0 then Inl ZeroDivisionError
         else if length (so_boxes out) < n \<or> (case so_kps out of None \<Rightarrow> False | Some ks \<Rightarrow> length ks < n)
         then Inl Unmodelled
         else Inr (map (decode_face stride grid out) idxs))"

fun decode_all :: "real \<Rightarrow> (nat \<times> stride_out) list \<Rightarrow> py_error + landmarks face list" where
  "decode_all conf [] = Inr []"
| "decode_all conf ((stride, out) # outs) =
     bind_ok (decode_stride conf stride out) (\<lambda>fs.
     bind_ok (decode_all conf outs) (\<lambda>gs. Inr (fs @ gs)))"

definition scrfd_decode :: "real \<Rightarrow> stride_out list \<Rightarrow> py_error + landmarks face list" where
  \<comment> \<open>\<open>_STRIDES = (8, 16, 32)\<close>\<close>
  "scrfd_decode conf outs = bind_ok (decode_all conf (zip [8, 16, 32] outs)) (\<lambda>fs. Inr (face_nms fs))"

section \<open>The face of a person\<close>

type_synonym pick = "(bbox \<times> real \<times> landmarks) option"

definition face_in_frame :: "real \<Rightarrow> real \<Rightarrow> real \<Rightarrow> landmarks face \<Rightarrow> bbox \<times> real \<times> point \<times> landmarks" where
  \<comment> \<open>canvas to frame: the normalized box, its area in frame pixels, its normalized centre, landmarks\<close>
  "face_in_frame scale fh fw f =
     (case f of ((x, y, w, h), _, kps) \<Rightarrow>
        (let ox = x / scale; oy = y / scale; ow = w / scale; oh = h / scale
         in ((ox / fw, oy / fh, ow / fw, oh / fh), ow * oh,
             ((ox + ow / 2) / fw, (oy + oh / 2) / fh),
             (case kps of None \<Rightarrow> None
              | Some ks \<Rightarrow> Some (map (\<lambda>(kx, ky). (kx / (scale * fw), ky / (scale * fh))) ks)))))"

definition centre_inside :: "bbox \<Rightarrow> point \<Rightarrow> bool" where
  "centre_inside person c = (case person of (px, py, pw, ph) \<Rightarrow>
     px \<le> fst c \<and> fst c \<le> px + pw \<and> py \<le> snd c \<and> snd c \<le> py + ph)"

fun pick_face :: "bbox option \<Rightarrow> (bbox \<times> real \<times> point \<times> landmarks) list \<Rightarrow> pick \<times> real \<Rightarrow> pick \<times> real" where
  "pick_face person [] best = best"
| "pick_face person ((b, area, c, kps) # fs) best =
     (if person \<noteq> None \<and> \<not> centre_inside (the person) c then pick_face person fs best
      else if area > snd best then pick_face person fs (Some (b, area, kps), area)
      else pick_face person fs best)"

definition detect_face ::
  "int \<Rightarrow> int \<Rightarrow> bbox option \<Rightarrow> landmarks face list \<Rightarrow> (bbox \<times> landmarks) option" where
  \<comment> \<open>\<open>ScrfdFaceDetector.detect\<close> on the decoded faces: the box and the landmarks kept for it\<close>
  "detect_face fh fw person faces =
     (let scale = 640 / of_int (max fh fw);
          r = fst (pick_face person (map (face_in_frame scale (of_int fh) (of_int fw)) faces) (None, -1))
      in case r of None \<Rightarrow> None | Some (b, _, kps) \<Rightarrow> Some (b, kps))"

section \<open>What they promise\<close>

lemma decode_stride_scores:
  "decode_stride conf stride out = Inr fs \<Longrightarrow> \<forall>f \<in> set fs. conf < fst (snd f)"
  by (auto simp: decode_stride_def decode_face_def Let_def split: if_splits prod.splits)

lemma decode_all_scores: "decode_all conf outs = Inr fs \<Longrightarrow> \<forall>f \<in> set fs. conf < fst (snd f)"
proof (induction conf outs arbitrary: fs rule: decode_all.induct)
  case (2 conf stride out outs)
  then obtain a b where ab: "decode_stride conf stride out = Inr a" "decode_all conf outs = Inr b" "fs = a @ b"
    by (auto simp: bind_ok_Inr)
  with 2(1) [OF ab(2)] decode_stride_scores [OF ab(1)] show ?case by auto
qed simp

text \<open>
  Decoding keeps only faces scored above the threshold, at most fifty of them, none
  twice, best first, and no two of them overlapping by the suppression limit or more.
\<close>

theorem scrfd_decode_sound:
  assumes "scrfd_decode conf outs = Inr faces"
  shows "length faces \<le> 50 \<and> (\<forall>f \<in> set faces. conf < fst (snd f)) \<and>
    sorted_wrt (\<lambda>f g. fst (snd g) \<le> fst (snd f) \<and> scrfd_iou (fst f) (fst g) < 4/10) faces"
proof -
  obtain fs where fs: "decode_all conf (zip [8, 16, 32] outs) = Inr fs" "faces = face_nms fs"
    using assms by (auto simp: scrfd_decode_def bind_ok_Inr)
  let ?k = "greedy_keep face_ok (sorted_desc (\<lambda>f. fst (snd f)) fs)"
  have f: "faces = take 50 ?k"
    by (simp add: fs(2) face_nms_def face_suppression.scan_is_keep)
  have "sorted_wrt (\<lambda>f g. fst (snd g) \<le> fst (snd f)) ?k"
    by (rule greedy_keep_sorted) (rule sorted_desc_sorted)
  moreover have "sorted_wrt face_ok ?k" by (rule greedy_keep_compatible)
  ultimately have s: "sorted_wrt (\<lambda>f g. fst (snd g) \<le> fst (snd f) \<and> scrfd_iou (fst f) (fst g) < 4/10) ?k"
    by (simp add: sorted_wrt_iff_nth_less face_ok_def)
  have "set faces \<subseteq> set fs"
    using greedy_keep_subset [of face_ok "sorted_desc (\<lambda>f. fst (snd f)) fs"] set_take_subset [of 50 ?k]
    by (simp add: f)
  then show ?thesis using sorted_wrt_take [OF s, of 50] decode_all_scores [OF fs(1)] by (auto simp: f)
qed

definition one_face :: stride_out where
  "one_face = \<lparr>so_scores = [9/10, 1/10], so_boxes = [(1, 1, 1, 1), (1, 1, 1, 1)], so_kps = None\<rparr>"

theorem scrfd_decode_sound_witness:
  "scrfd_decode (1/2) [one_face] = Inr [((-4, -4, 16, 16), 9/10, None)] \<and> (1/2 :: real) < 9/10"
proof -
  have "sqrt (of_nat 2 / 2) = (1 :: real)" by simp
  then have r: "scrfd_decode (1/2) [one_face] = Inr [((-4, -4, 16, 16), 9/10, None)]"
    by (simp add: scrfd_decode_def decode_stride_def one_face_def decode_face_def anchor_def face_nms_def
        sorted_desc_def Let_def)
  show ?thesis using scrfd_decode_sound [OF r] r by simp
qed

text \<open>The scan keeps the largest admissible face.\<close>

definition admissible :: "bbox option \<Rightarrow> point \<Rightarrow> bool" where
  "admissible person c \<longleftrightarrow> person = None \<or> centre_inside (the person) c"

type_synonym framed_face = "bbox \<times> real \<times> point \<times> landmarks"

definition picks :: "bbox option \<Rightarrow> framed_face list \<Rightarrow> pick \<times> real \<Rightarrow> bool" where
  "picks person fs r \<longleftrightarrow>
     (\<exists>e \<in> set fs. admissible person (fst (snd (snd e))) \<and> r = (Some (fst e, fst (snd e), snd (snd (snd e))), fst (snd e)))"

definition no_larger :: "bbox option \<Rightarrow> framed_face list \<Rightarrow> real \<Rightarrow> bool" where
  "no_larger person fs a \<longleftrightarrow> (\<forall>e \<in> set fs. admissible person (fst (snd (snd e))) \<longrightarrow> fst (snd e) \<le> a)"

lemma pick_face_Cons:
  "pick_face person (e # fs) best =
     pick_face person fs
       (if admissible person (fst (snd (snd e))) \<and> fst (snd e) > snd best
        then (Some (fst e, fst (snd e), snd (snd (snd e))), fst (snd e)) else best)"
  by (cases e) (auto simp: admissible_def)

lemma pick_face_result:
  "snd best \<le> snd (pick_face person fs best) \<and> no_larger person fs (snd (pick_face person fs best)) \<and>
   (pick_face person fs best = best \<or> picks person fs (pick_face person fs best))"
proof (induction fs arbitrary: best)
  case Nil
  show ?case by (simp add: no_larger_def)
next
  case (Cons e fs)
  define b where "b = (if admissible person (fst (snd (snd e))) \<and> fst (snd e) > snd best
        then (Some (fst e, fst (snd e), snd (snd (snd e))), fst (snd e)) else best)"
  have eq: "pick_face person (e # fs) best = pick_face person fs b" by (simp only: pick_face_Cons b_def)
  have b1: "snd best \<le> snd b" by (simp add: b_def)
  have b2: "admissible person (fst (snd (snd e))) \<Longrightarrow> fst (snd e) \<le> snd b" by (simp add: b_def)
  have b3: "b = best \<or> picks person (e # fs) b" by (auto simp: b_def picks_def)
  have up: "picks person fs r \<Longrightarrow> picks person (e # fs) r" for r by (auto simp: picks_def)
  note IH = Cons.IH [of b]
  have "no_larger person (e # fs) (snd (pick_face person fs b))"
    using IH b2 by (simp add: no_larger_def) (meson order_trans)
  moreover have "snd best \<le> snd (pick_face person fs b)" using IH b1 by linarith
  ultimately show ?case unfolding eq using IH b3 up by metis
qed

text \<open>
  The face of a person is the largest decoded face whose centre lies in the person's
  box, and there is none exactly if no decoded face has its centre there. Without a person
  it is the largest face of the frame.
\<close>

theorem detect_face_correct:
  assumes "0 < fh" and "0 < fw" and "\<forall>f \<in> set faces. valid_box (fst f)"
  shows "case detect_face fh fw person faces of
      None \<Rightarrow> (\<forall>f \<in> set faces. \<not> admissible person
        (fst (snd (snd (face_in_frame (640 / of_int (max fh fw)) (of_int fh) (of_int fw) f)))))
    | Some (b, kps) \<Rightarrow> (\<exists>f \<in> set faces.
        (\<exists>a c. face_in_frame (640 / of_int (max fh fw)) (of_int fh) (of_int fw) f = (b, a, c, kps) \<and> admissible person c \<and>
          (\<forall>g \<in> set faces. case face_in_frame (640 / of_int (max fh fw)) (of_int fh) (of_int fw) g of
             (_, a', c', _) \<Rightarrow> admissible person c' \<longrightarrow> a' \<le> a)))"
proof -
  define scale where "scale = 640 / (of_int (max fh fw) :: real)"
  define F where "F = map (face_in_frame scale (of_int fh) (of_int fw)) faces"
  define r where "r = pick_face person F (None, -1)"
  note R = pick_face_result [of "(None, -1)" person F, folded r_def]
  have d: "detect_face fh fw person faces = (case fst r of None \<Rightarrow> None | Some (b, _, kps) \<Rightarrow> Some (b, kps))"
    by (simp add: detect_face_def Let_def r_def F_def scale_def)
  have area: "0 \<le> fst (snd (face_in_frame scale (of_int fh) (of_int fw) f))" if "f \<in> set faces" for f
    using assms that by (cases f) (auto simp: face_in_frame_def Let_def valid_box_def scale_def)
  show ?thesis
  proof (cases "picks person F r")
    case True
    then obtain e where e: "e \<in> set F" "admissible person (fst (snd (snd e)))"
      "r = (Some (fst e, fst (snd e), snd (snd (snd e))), fst (snd e))"
      by (auto simp: picks_def)
    then obtain f where f: "f \<in> set faces" "face_in_frame scale (of_int fh) (of_int fw) f = e" by (auto simp: F_def)
    have big: "\<forall>g \<in> set faces. case face_in_frame scale (of_int fh) (of_int fw) g of
             (_, a', c', _) \<Rightarrow> admissible person c' \<longrightarrow> a' \<le> fst (snd e)"
      using R e(3) by (auto simp: no_larger_def F_def case_prod_unfold)
    show ?thesis
      unfolding d scale_def [symmetric] using f e(2) big by (cases e) (auto simp: e(3))
  next
    case False
    then have r: "r = (None, -1)" using R by blast
    have "\<not> admissible person (fst (snd (snd (face_in_frame scale (of_int fh) (of_int fw) f))))" if "f \<in> set faces" for f
    proof
      assume "admissible person (fst (snd (snd (face_in_frame scale (of_int fh) (of_int fw) f))))"
      then have "fst (snd (face_in_frame scale (of_int fh) (of_int fw) f)) \<le> -1"
        using R that by (simp add: r no_larger_def F_def)
      then show False using area [OF that] by simp
    qed
    then show ?thesis unfolding d scale_def [symmetric] by (simp add: r)
  qed
qed

theorem detect_face_correct_witness:
  "\<exists>b. detect_face 640 640 (Some (0, 0, 1/2, 1/2)) [((0, 0, 64, 64), 9/10, None), ((400, 400, 128, 128), 8/10, None)] = Some (b, None) \<and>
     b = (0, 0, 1/10, 1/10)"
proof -
  have v: "\<forall>f \<in> set [((0, 0, 64, 64), 9/10, None), ((400, 400, 128, 128), 8/10, None)]. valid_box (fst (f :: landmarks face))"
    by (simp add: valid_box_def)
  have "detect_face 640 640 (Some (0, 0, 1/2, 1/2)) [((0, 0, 64, 64), 9/10, None), ((400, 400, 128, 128), 8/10, None)] =
      Some ((0, 0, 1/10, 1/10), None)"
    by (simp add: detect_face_def face_in_frame_def centre_inside_def Let_def)
  with detect_face_correct [OF _ _ v, of 640 640 "Some (0, 0, 1/2, 1/2)"] show ?thesis by simp
qed

end
