(* ===== verification/Anpr.thy ===== *)
theory Anpr
  imports Geometry
begin

text \<open>
  \<open>packages/ai/anpr.py\<close>: reading of licence plates. The plate detector and the OCR are
  parameters, as they are pluggable in the code; the reference ones are given.
\<close>

record plate_reading =
  pl_plate :: string
  pl_confidence :: real
  pl_rect :: bbox

definition plate_char :: "char \<Rightarrow> bool" where
  \<comment> \<open>\<open>[A-Z0-9]\<close>\<close>
  "plate_char c \<longleftrightarrow> is_digit c \<or> 65 \<le> (of_char c :: nat) \<and> (of_char c :: nat) \<le> 90"

definition normalize_plate :: "string \<Rightarrow> string" where
  "normalize_plate plate = filter plate_char (map upper_char plate)"

definition plate_re :: "string \<Rightarrow> bool" where
  \<comment> \<open>\<open>^[A-Z0-9][A-Z0-9\- ]{2,11}[A-Z0-9]$\<close> on a string without a line break\<close>
  "plate_re s \<longleftrightarrow> 4 \<le> length s \<and> length s \<le> 13 \<and> plate_char (hd s) \<and> plate_char (last s) \<and>
     list_all (\<lambda>c. plate_char c \<or> c = CHR ''-'' \<or> c = CHR '' '') (butlast (tl s))"

definition read_plate ::
  "('crop \<Rightarrow> timestamp \<Rightarrow> bbox option) \<Rightarrow> ('crop \<Rightarrow> bbox \<Rightarrow> timestamp \<Rightarrow> string option) \<Rightarrow>
   'crop \<Rightarrow> timestamp \<Rightarrow> plate_reading option" where
  "read_plate detect recognize crop ts =
     (case detect crop ts of
        None \<Rightarrow> None
      | Some rect \<Rightarrow>
          (case recognize crop rect ts of
             None \<Rightarrow> None
           | Some raw \<Rightarrow>
               if raw = [] then None
               else (let norm = normalize_plate raw in
                     if \<not> plate_re norm then None
                     else Some \<lparr>pl_plate = norm, pl_confidence = 9/10, pl_rect = rect\<rparr>)))"

definition match_watchlist :: "string list \<Rightarrow> plate_reading option \<Rightarrow> string option" where
  "match_watchlist watchlist reading =
     (case reading of None \<Rightarrow> None
      | Some r \<Rightarrow> if pl_plate r \<in> set watchlist then Some (pl_plate r) else None)"

definition reference_plate_rect :: "'crop \<Rightarrow> timestamp \<Rightarrow> bbox option" where
  "reference_plate_rect crop ts = Some (25/100, 55/100, 5/10, 25/100)"

lemma upper_plate_char: "plate_char c \<Longrightarrow> upper_char c = c"
  by (auto simp: plate_char_def upper_char_def is_digit_def)

lemma normalize_plate_chars: "\<forall>c \<in> set (normalize_plate s). plate_char c"
  by (simp add: normalize_plate_def)

lemma normalize_plate_idem [simp]: "normalize_plate (normalize_plate s) = normalize_plate s"
proof -
  have "map upper_char (normalize_plate s) = normalize_plate s"
    using normalize_plate_chars [of s] by (intro map_idI upper_plate_char) simp
  then show ?thesis using normalize_plate_chars [of s]
    by (simp add: normalize_plate_def [of "normalize_plate s"] filter_id_conv)
qed

text \<open>
  A reading is a normal form: four to thirteen capital letters and digits, unchanged by
  normalizing again, so spacing, hyphens and case of the OCR never make two plates of one.
  A plate is read from every OCR text whose letters and digits have such a length.
\<close>

theorem read_plate_normal:
  "(\<forall>r. read_plate detect ocr crop ts = Some r \<longrightarrow>
      normalize_plate (pl_plate r) = pl_plate r \<and> list_all plate_char (pl_plate r) \<and>
      4 \<le> length (pl_plate r) \<and> length (pl_plate r) \<le> 13) \<and>
   (\<forall>rect raw. detect crop ts = Some rect \<and> ocr crop rect ts = Some raw \<and>
      4 \<le> length (normalize_plate raw) \<and> length (normalize_plate raw) \<le> 13 \<longrightarrow>
      read_plate detect ocr crop ts = Some \<lparr>pl_plate = normalize_plate raw, pl_confidence = 9/10, pl_rect = rect\<rparr>)"
proof (intro conjI allI impI)
  fix r assume "read_plate detect ocr crop ts = Some r"
  then obtain raw where "pl_plate r = normalize_plate raw" "plate_re (normalize_plate raw)"
    by (auto simp: read_plate_def Let_def split: option.splits if_splits)
  then show "normalize_plate (pl_plate r) = pl_plate r" "list_all plate_char (pl_plate r)"
      "4 \<le> length (pl_plate r)" "length (pl_plate r) \<le> 13"
    using normalize_plate_chars by (auto simp: plate_re_def list_all_iff)
next
  fix rect raw
  assume a: "detect crop ts = Some rect \<and> ocr crop rect ts = Some raw \<and>
      4 \<le> length (normalize_plate raw) \<and> length (normalize_plate raw) \<le> 13"
  then have "length (normalize_plate raw) \<noteq> 0" by linarith
  then have ne: "normalize_plate raw \<noteq> []" by simp
  moreover have "normalize_plate [] = []" by (simp add: normalize_plate_def)
  ultimately have raw: "raw \<noteq> []" by auto
  have "set (butlast (tl (normalize_plate raw))) \<subseteq> set (normalize_plate raw)"
    using ne by (cases "normalize_plate raw") (auto dest: in_set_butlastD)
  then have "plate_re (normalize_plate raw)"
    using a ne normalize_plate_chars [of raw] by (auto simp: plate_re_def list_all_iff)
  with a raw show "read_plate detect ocr crop ts = Some \<lparr>pl_plate = normalize_plate raw, pl_confidence = 9/10, pl_rect = rect\<rparr>"
    by (simp add: read_plate_def)
qed

theorem read_plate_normal_witness:
  "read_plate reference_plate_rect (\<lambda>_ _ _. Some ''ab-12 cd'') () 0 =
     Some \<lparr>pl_plate = ''AB12CD'', pl_confidence = 9/10, pl_rect = (25/100, 55/100, 5/10, 25/100)\<rparr>"
proof -
  have "normalize_plate ''ab-12 cd'' = ''AB12CD''" by code_simp
  then show ?thesis
    using read_plate_normal [of reference_plate_rect "\<lambda>_ _ _. Some ''ab-12 cd''" "()" 0]
    by (simp add: reference_plate_rect_def)
qed

text \<open>A watch-list entry that is not in normal form never matches any reading.\<close>

lemma watchlist_unnormal_never:
  assumes "read_plate detect ocr crop ts = Some r" and "match_watchlist ws (Some r) = Some p"
  shows "normalize_plate p = p"
  using assms by (auto simp: read_plate_def match_watchlist_def Let_def split: option.splits if_splits)

end
