(* ===== verification/Data_Model.thy ===== *)
theory Data_Model
  imports Prelude
begin

text \<open>
  \<open>packages/domain/models.py\<close>: the tables as records, the database as a record of tables
  keyed by id, and what the declared foreign keys do when a row is deleted (\<open>CASCADE\<close> and
  \<open>SET NULL\<close>, enforced in every deployment by \<open>apps/api/bootstrap.py\<close>). Columns the
  server fills (\<open>created_at\<close>) are fields as well.
\<close>

section \<open>Rows\<close>

record user_row =
  us_email :: string
  us_full_name :: string
  us_password_hash :: string
  us_role_id :: string
  us_is_active :: bool
  us_mfa_enabled :: bool
  us_mfa_secret_enc :: "string option"
  us_failed_logins :: int
  us_locked_until :: "timestamp option"
  us_created_at :: timestamp

record role_row =
  ro_name :: string
  ro_description :: string
  ro_permissions :: "string list"  \<comment> \<open>permission ids, through \<open>role_permissions\<close>\<close>

record permission_row =
  pe_name :: string

record refresh_row =
  rf_user_id :: string
  rf_jti :: string
  rf_revoked :: bool
  rf_expires_at :: timestamp
  rf_replaced_by :: "string option"
  rf_created_at :: timestamp

record nvr_row =
  nv_name :: string
  nv_host :: string
  nv_port :: int
  nv_onvif :: bool
  nv_username_enc :: "string option"
  nv_password_enc :: "string option"
  nv_created_at :: timestamp

record camera_row =
  ca_name :: string
  ca_uid :: "string option"
  ca_nvr :: "string option"
  ca_stream_enc :: "string option"
  ca_substream_enc :: "string option"
  ca_status :: string
  ca_health :: string
  ca_last_seen :: "timestamp option"
  ca_resolution :: string
  ca_fps :: int
  ca_timezone :: string
  ca_masks :: "json option"
  ca_retention :: "json option"
  ca_rules :: "json option"
  ca_created_at :: timestamp

record stream_row =
  sr_camera :: string
  sr_kind :: string
  sr_url_enc :: "string option"
  sr_resolution :: string
  sr_fps :: int
  sr_codec :: string

record person_row =
  ps_label :: string
  ps_display_name :: string
  ps_status :: string
  ps_created_by :: "string option"
  ps_created_at :: timestamp

record embedding_row =
  em_person :: string
  em_enc :: string
  em_model_version :: string
  em_dimension :: int
  em_quality :: real
  em_source_enc :: "string option"
  em_created_at :: timestamp

record detection_row =
  dr_camera :: string
  dr_track :: "string option"
  dr_ts :: timestamp
  dr_label :: string
  dr_confidence :: real
  dr_bbox :: bbox

record track_row =
  tw_camera :: string
  tw_identity :: "string option"
  tw_status :: string
  tw_first_seen :: timestamp
  tw_last_seen :: timestamp
  tw_confidence :: real
  tw_bbox :: bbox
  tw_trajectory :: "point list"

record event_row =
  ev_camera :: string
  ev_track :: "string option"
  ev_identity :: "string option"
  ev_status :: string
  ev_type :: string
  ev_start :: timestamp
  ev_end :: timestamp
  ev_confidence :: real
  ev_bbox :: bbox
  ev_detail :: "(string \<times> json) list"
  ev_snapshot_enc :: "string option"
  ev_segment_enc :: "string option"
  ev_created_at :: timestamp

record segment_row =
  sg_camera :: string
  sg_key :: string
  sg_backend :: string
  sg_start :: timestamp
  sg_end :: timestamp
  sg_duration :: real
  sg_size :: int
  sg_created_at :: timestamp

record snapshot_row =
  sn_camera :: string
  sn_track :: "string option"
  sn_event :: "string option"
  sn_key_enc :: string
  sn_created_at :: timestamp

record audit_row =
  au_ts :: timestamp
  au_user :: "string option"
  au_username :: string
  au_action :: string
  au_resource :: string
  au_result :: string
  au_ip :: string
  au_request :: string
  au_detail :: "(string \<times> json) list option"

record metric_row =
  me_ts :: timestamp
  me_name :: string
  me_value :: real

record model_version_row =
  mv_name :: string
  mv_version :: string
  mv_hash :: string
  mv_source :: string
  mv_license :: string

record route_row =
  rt_rule_type :: string
  rt_camera :: "string option"
  rt_channel :: string
  rt_config_enc :: "string option"
  rt_enabled :: bool
  rt_cooldown :: int
  rt_created_at :: timestamp

record db =
  db_users :: "(string, user_row) dict"
  db_roles :: "(string, role_row) dict"
  db_permissions :: "(string, permission_row) dict"
  db_refresh :: "(string, refresh_row) dict"
  db_nvrs :: "(string, nvr_row) dict"
  db_cameras :: "(string, camera_row) dict"
  db_streams :: "(string, stream_row) dict"
  db_persons :: "(string, person_row) dict"
  db_embeddings :: "(string, embedding_row) dict"
  db_detections :: "(string, detection_row) dict"
  db_tracks :: "(string, track_row) dict"
  db_events :: "(string, event_row) dict"
  db_segments :: "(string, segment_row) dict"
  db_snapshots :: "(string, snapshot_row) dict"
  db_audit :: "(string, audit_row) dict"
  db_metrics :: "(string, metric_row) dict"
  db_models :: "(string, model_version_row) dict"
  db_routes :: "(string, route_row) dict"

definition empty_db :: db where
  "empty_db = \<lparr>db_users = [], db_roles = [], db_permissions = [], db_refresh = [], db_nvrs = [],
     db_cameras = [], db_streams = [], db_persons = [], db_embeddings = [], db_detections = [],
     db_tracks = [], db_events = [], db_segments = [], db_snapshots = [], db_audit = [],
     db_metrics = [], db_models = [], db_routes = []\<rparr>"

section \<open>Deletion\<close>

definition rows :: "('k, 'r) dict \<Rightarrow> 'r set" where
  "rows d = snd ` set d"

definition purge :: "('r \<Rightarrow> bool) \<Rightarrow> ('k, 'r) dict \<Rightarrow> ('k, 'r) dict" where
  "purge P d = filter (\<lambda>(_, r). \<not> P r) d"

definition map_rows :: "('r \<Rightarrow> 'r) \<Rightarrow> ('k, 'r) dict \<Rightarrow> ('k, 'r) dict" where
  "map_rows f d = map (\<lambda>(k, r). (k, f r)) d"

definition set_null :: "'k list \<Rightarrow> 'k option \<Rightarrow> 'k option" where
  "set_null gone x = (case x of None \<Rightarrow> None | Some k \<Rightarrow> if k \<in> set gone then None else Some k)"

definition drop_events :: "(string \<Rightarrow> event_row \<Rightarrow> bool) \<Rightarrow> db \<Rightarrow> db" where
  \<comment> \<open>deleting events: \<open>snapshots.event_id\<close> is \<open>SET NULL\<close>\<close>
  "drop_events P d =
     (let gone = map fst (filter (\<lambda>(k, r). P k r) (db_events d)) in
      d\<lparr>db_events := filter (\<lambda>(k, r). \<not> P k r) (db_events d),
        db_snapshots := map_rows (\<lambda>s. s\<lparr>sn_event := set_null gone (sn_event s)\<rparr>) (db_snapshots d)\<rparr>)"

definition delete_camera_rows :: "string \<Rightarrow> db \<Rightarrow> db" where
  "delete_camera_rows cid d =
     (let d1 = drop_events (\<lambda>_ e. ev_camera e = cid) d in
      d1\<lparr>db_cameras := dict_del cid (db_cameras d1),
         db_streams := purge (\<lambda>s. sr_camera s = cid) (db_streams d1),
         db_detections := purge (\<lambda>x. dr_camera x = cid) (db_detections d1),
         db_tracks := purge (\<lambda>t. tw_camera t = cid) (db_tracks d1),
         db_segments := purge (\<lambda>s. sg_camera s = cid) (db_segments d1),
         db_snapshots := purge (\<lambda>s. sn_camera s = cid) (db_snapshots d1)\<rparr>)"

definition delete_person_rows :: "string \<Rightarrow> db \<Rightarrow> db" where
  "delete_person_rows pid d =
     d\<lparr>db_persons := dict_del pid (db_persons d),
       db_embeddings := purge (\<lambda>x. em_person x = pid) (db_embeddings d),
       db_tracks := map_rows (\<lambda>t. t\<lparr>tw_identity := set_null [pid] (tw_identity t)\<rparr>) (db_tracks d),
       db_events := map_rows (\<lambda>x. x\<lparr>ev_identity := set_null [pid] (ev_identity x)\<rparr>) (db_events d)\<rparr>"

definition delete_user_rows :: "string \<Rightarrow> db \<Rightarrow> db" where
  "delete_user_rows uid d =
     d\<lparr>db_users := dict_del uid (db_users d),
       db_refresh := purge (\<lambda>t. rf_user_id t = uid) (db_refresh d)\<rparr>"

section \<open>Referential integrity\<close>

definition refers :: "'k option \<Rightarrow> ('k, 'r) dict \<Rightarrow> bool" where
  "refers x d \<longleftrightarrow> (case x of None \<Rightarrow> True | Some k \<Rightarrow> k \<in> set (dict_keys d))"

definition media_fk :: "db \<Rightarrow> bool" where
  "media_fk d \<longleftrightarrow>
     (\<forall>s \<in> rows (db_streams d). sr_camera s \<in> set (dict_keys (db_cameras d))) \<and>
     (\<forall>x \<in> rows (db_detections d). dr_camera x \<in> set (dict_keys (db_cameras d))) \<and>
     (\<forall>t \<in> rows (db_tracks d). tw_camera t \<in> set (dict_keys (db_cameras d))) \<and>
     (\<forall>x \<in> rows (db_events d). ev_camera x \<in> set (dict_keys (db_cameras d))) \<and>
     (\<forall>s \<in> rows (db_segments d). sg_camera s \<in> set (dict_keys (db_cameras d))) \<and>
     (\<forall>s \<in> rows (db_snapshots d). sn_camera s \<in> set (dict_keys (db_cameras d)) \<and> refers (sn_event s) (db_events d))"

definition people_fk :: "db \<Rightarrow> bool" where
  "people_fk d \<longleftrightarrow>
     (\<forall>x \<in> rows (db_embeddings d). em_person x \<in> set (dict_keys (db_persons d))) \<and>
     (\<forall>t \<in> rows (db_tracks d). refers (tw_identity t) (db_persons d)) \<and>
     (\<forall>x \<in> rows (db_events d). refers (ev_identity x) (db_persons d)) \<and>
     (\<forall>t \<in> rows (db_refresh d). rf_user_id t \<in> set (dict_keys (db_users d))) \<and>
     (\<forall>c \<in> rows (db_cameras d). refers (ca_nvr c) (db_nvrs d))"

lemma rows_purge [simp]: "rows (purge P d) = {r \<in> rows d. \<not> P r}"
  by (force simp: rows_def purge_def)

lemma rows_map_rows [simp]: "rows (map_rows f d) = f ` rows d"
  by (force simp: rows_def map_rows_def)

lemma rows_del: "rows (dict_del k d) \<subseteq> rows d"
  by (auto simp: rows_def dict_del_def AList.delete_eq)

lemma rows_dict_set: "rows (dict_set k v d) \<subseteq> insert v (rows d)"
  unfolding rows_def dict_set_def by (induction d) auto

lemma rows_dict_set_ball: "P v \<Longrightarrow> \<forall>x \<in> rows d. P x \<Longrightarrow> \<forall>x \<in> rows (dict_set k v d). P x"
  using rows_dict_set [of k v d] by blast

lemma dict_get_rows: "dict_get d k = Some v \<Longrightarrow> v \<in> rows d"
  by (force simp: rows_def dest: dict_get_SomeD)

lemma keys_map_rows [simp]: "dict_keys (map_rows f d) = dict_keys d"
  by (simp add: dict_keys_def map_rows_def case_prod_unfold)

lemma refers_set_null: "refers x d \<Longrightarrow> refers (set_null [k] x) (dict_del k d)"
  by (auto simp: refers_def set_null_def split: option.splits)

lemma refers_drop:
  assumes "refers x d"
  shows "refers (set_null (map fst (filter (\<lambda>(k, r). P k r) d)) x) (filter (\<lambda>(k, r). \<not> P k r) d)"
proof (cases "set_null (map fst (filter (\<lambda>(k, r). P k r) d)) x")
  case (Some k)
  then have "x = Some k" "k \<notin> fst ` set (filter (\<lambda>(k, r). P k r) d)"
    by (auto simp: set_null_def split: option.splits if_splits)
  with assms have "k \<in> fst ` set (filter (\<lambda>(k, r). \<not> P k r) d)"
    by (force simp: refers_def dict_keys_def)
  then show ?thesis by (simp add: Some refers_def dict_keys_def)
qed (simp add: refers_def)

lemma drop_events_media: "media_fk d \<Longrightarrow> media_fk (drop_events P d)"
  by (auto simp: media_fk_def drop_events_def Let_def refers_drop) (auto simp: rows_def)

lemma drop_events_people: "people_fk d \<Longrightarrow> people_fk (drop_events P d)"
  by (auto simp: people_fk_def drop_events_def Let_def) (auto simp: rows_def)

lemma delete_camera_people:
  assumes "people_fk d"
  shows "people_fk (delete_camera_rows cid d)"
  using drop_events_people [OF assms, of "\<lambda>_ x. ev_camera x = cid"]
    rows_del [of cid "db_cameras d"]
  by (auto simp: people_fk_def delete_camera_rows_def Let_def drop_events_def)

lemma delete_camera_media:
  assumes "media_fk d"
  shows "media_fk (delete_camera_rows cid d)"
proof -
  have "media_fk (drop_events (\<lambda>_ x. ev_camera x = cid) d)" by (rule drop_events_media [OF assms])
  moreover have "\<forall>x \<in> rows (db_events (drop_events (\<lambda>_ x. ev_camera x = cid) d)). ev_camera x \<noteq> cid"
    by (auto simp: drop_events_def Let_def rows_def)
  ultimately show ?thesis by (auto simp: media_fk_def delete_camera_rows_def Let_def)
qed


definition ann_row :: person_row where
  "ann_row = \<lparr>ps_label = ''ann'', ps_display_name = '''', ps_status = ''known'', ps_created_by = None, ps_created_at = 0\<rparr>"

definition ann_embedding :: embedding_row where
  "ann_embedding = \<lparr>em_person = ''p1'', em_enc = ''x'', em_model_version = ''v'', em_dimension = 2, em_quality = 1,
     em_source_enc = None, em_created_at = 5\<rparr>"

definition ann_db :: db where
  "ann_db = empty_db\<lparr>db_persons := [(''p1'', ann_row)], db_embeddings := [(''e1'', ann_embedding)]\<rparr>"


text \<open>
  Deleting a camera leaves nothing recorded by it (streams, detections, tracks, events,
  segments, snapshots), keeps the people, and leaves no dangling reference.
\<close>

theorem delete_camera_complete:
  assumes "people_fk d" and "media_fk d"
  shows "people_fk (delete_camera_rows cid d) \<and> media_fk (delete_camera_rows cid d) \<and>
    db_persons (delete_camera_rows cid d) = db_persons d \<and>
    db_embeddings (delete_camera_rows cid d) = db_embeddings d \<and>
    cid \<notin> set (dict_keys (db_cameras (delete_camera_rows cid d))) \<and>
    (\<forall>x \<in> rows (db_events (delete_camera_rows cid d)). ev_camera x \<noteq> cid) \<and>
    (\<forall>s \<in> rows (db_segments (delete_camera_rows cid d)). sg_camera s \<noteq> cid) \<and>
    (\<forall>s \<in> rows (db_snapshots (delete_camera_rows cid d)). sn_camera s \<noteq> cid) \<and>
    (\<forall>t \<in> rows (db_tracks (delete_camera_rows cid d)). tw_camera t \<noteq> cid)"
proof -
  have "media_fk (delete_camera_rows cid d)" by (rule delete_camera_media [OF assms(2)])
  moreover have "cid \<notin> set (dict_keys (db_cameras (delete_camera_rows cid d)))"
    by (simp add: delete_camera_rows_def Let_def)
  moreover have "db_persons (delete_camera_rows cid d) = db_persons d"
    "db_embeddings (delete_camera_rows cid d) = db_embeddings d"
    by (simp_all add: delete_camera_rows_def drop_events_def Let_def)
  ultimately show ?thesis using delete_camera_people [OF assms(1)] unfolding media_fk_def by blast
qed

theorem delete_camera_complete_witness:
  "media_fk (delete_camera_rows ''cam'' ann_db) \<and> db_persons (delete_camera_rows ''cam'' ann_db) = [(''p1'', ann_row)]"
proof -
  have "people_fk ann_db" "media_fk ann_db"
    by (simp_all add: people_fk_def media_fk_def ann_db_def empty_db_def rows_def ann_embedding_def)
  from delete_camera_complete [OF this, of "''cam''"] show ?thesis by (simp add: ann_db_def)
qed

end
