(* ===== verification/Pipeline.thy ===== *)
theory Pipeline
  imports Rule_Alarms Matching Anpr Data_Model
begin

text \<open>
  \<open>packages/ai/pipeline.py\<close>: the per-camera pipeline that turns frames into rows. The
  models, the cipher, the hash and the id generator are parameters, collected in a record;
  the database session is a record of the tables, the ids drawn so far and the objects put
  into storage. A frame that raises gives an error.
\<close>

section \<open>Environment and state\<close>

record ('f, 'c) ai_env =
  v_detect :: "'f \<Rightarrow> timestamp \<Rightarrow> detection list"
  v_grid :: "'f \<Rightarrow> int list option"  \<comment> \<open>the coarse pixel grid, \<open>None\<close> without decodable pixels\<close>
  v_face :: "'f \<Rightarrow> bbox \<Rightarrow> bbox option"
  v_embed :: "'f \<Rightarrow> bbox \<Rightarrow> real list"
  v_crop :: "'f \<Rightarrow> bbox \<Rightarrow> 'c"
  v_plate :: "'c \<Rightarrow> timestamp \<Rightarrow> plate_reading option"
  v_encrypt :: "string \<Rightarrow> string"
  v_decrypt_vec :: "string \<Rightarrow> real list option"
  v_hash16 :: "string \<Rightarrow> string"
  v_uuid :: "nat \<Rightarrow> string"

record sess =
  ss_db :: db
  ss_next :: nat
  ss_puts :: "(string \<times> (string \<times> string \<times> timestamp)) list"

record live_track =
  lt_first_seen :: timestamp
  lt_last_seen :: timestamp
  lt_confidence :: real
  lt_bbox :: bbox
  lt_trajectory :: "point list"
  lt_seen :: bool
  lt_last_recognized :: "timestamp option"
  lt_recognition :: "(string option \<times> real option \<times> string) option"

record pipeline =
  pc_camera :: string
  pc_confidence :: real
  pc_merge_gap :: real
  pc_interval :: real
  pc_version :: string
  pc_recognition :: bool
  pc_threshold :: real  \<comment> \<open>of the matcher\<close>
  pc_engine :: "engine option"
  pc_anpr :: bool
  pc_masks :: "bbox list"
  pc_gate :: bool
  pc_gate_prev :: "int list option"
  pc_anpr_last :: "(string, string \<times> timestamp) dict"
  pc_last_analytic :: "string list"
  pc_det_ts :: "(string, timestamp) dict"
  pc_det_box :: "(string, bbox) dict"
  pc_active :: "(string, live_track) dict"
  pc_enrolled :: "enrolment list"
  pc_enrolled_at :: real
  pc_watermark :: "timestamp option"
  pc_tracker :: tracker

section \<open>Masks, motion, enrolment cache\<close>

definition json_float :: "json \<Rightarrow> py_error + real" where
  \<comment> \<open>\<open>float(v)\<close>; parsing of text is left open\<close>
  "json_float j = (case j of JNum x \<Rightarrow> Inr x | JBool b \<Rightarrow> Inr (if b then 1 else 0)
     | JStr _ \<Rightarrow> Inl Unmodelled | _ \<Rightarrow> Inl TypeError)"

definition json_item :: "(string \<times> json) list \<Rightarrow> string \<Rightarrow> py_error + real" where
  "json_item kvs k = (case dict_get kvs k of None \<Rightarrow> Inl KeyError | Some v \<Rightarrow> json_float v)"

definition parse_mask :: "json \<Rightarrow> py_error + bbox option" where
  "parse_mask m =
     (case m of
        JObj kvs \<Rightarrow>
          (case bind_ok (json_item kvs ''x'') (\<lambda>x. bind_ok (json_item kvs ''y'') (\<lambda>y.
                bind_ok (json_item kvs ''w'') (\<lambda>w. bind_ok (json_item kvs ''h'') (\<lambda>h. Inr (x, y, w, h))))) of
             Inl Unmodelled \<Rightarrow> Inl Unmodelled
           | Inl _ \<Rightarrow> Inr None
           | Inr (x, y, w, h) \<Rightarrow> if x < 0 \<or> y < 0 \<or> w < 0 \<or> h < 0 then Inr None else Inr (Some (x, y, w, h)))
      | _ \<Rightarrow> Inr None)"

definition in_mask :: "bbox \<Rightarrow> bbox \<Rightarrow> bool" where
  "in_mask box msk =
     (case (box, msk) of ((bx, by', bw, bh), (mx, my, mw, mh)) \<Rightarrow>
        (let cx = bx + bw / 2; cy = by' + bh / 2 in
         mx \<le> cx \<and> cx \<le> mx + mw \<and> my \<le> cy \<and> cy \<le> my + mh)
        \<or> bbox_overlap_fraction box msk \<ge> 5/10)"

definition is_masked :: "bbox list \<Rightarrow> bbox \<Rightarrow> bool" where
  "is_masked masks box = list_ex (in_mask box) masks"

definition frame_has_motion :: "int list option \<Rightarrow> int list option \<Rightarrow> bool \<times> int list option" where
  \<comment> \<open>the answer and the new \<open>_gate_prev\<close>\<close>
  "frame_has_motion grid prev =
     (case grid of
        None \<Rightarrow> (True, prev)
      | Some g \<Rightarrow> if prev = None \<or> prev \<noteq> Some g then (True, Some g) else (False, prev))"

definition decrypt_rows :: "('f, 'c) ai_env \<Rightarrow> embedding_row list \<Rightarrow> enrolment list" where
  "decrypt_rows env rs = concat (map (\<lambda>r. case v_decrypt_vec env (em_enc r) of
     None \<Rightarrow> [] | Some v \<Rightarrow> [(em_person r, v, em_model_version r)]) rs)"

definition latest_enrolment :: "embedding_row list \<Rightarrow> timestamp option" where
  "latest_enrolment rs = (if rs = [] then None else Some (Max (set (map em_created_at rs))))"

definition refresh_enrolled :: "('f, 'c) ai_env \<Rightarrow> real \<Rightarrow> embedding_row list \<Rightarrow> pipeline \<Rightarrow> pipeline" where
  "refresh_enrolled env now rs p =
     (let latest = latest_enrolment rs in
      if pc_enrolled p \<noteq> [] \<and> latest \<noteq> None \<and> pc_watermark p \<noteq> None \<and> the latest \<le> the (pc_watermark p)
      then p\<lparr>pc_enrolled_at := now\<rparr>
      else p\<lparr>pc_enrolled := decrypt_rows env rs, pc_watermark := latest, pc_enrolled_at := now\<rparr>)"

section \<open>Events of a frame\<close>

definition kind_value :: "event_kind \<Rightarrow> string" where
  "kind_value k = (case k of LineCross \<Rightarrow> ''line_cross'' | Intrusion \<Rightarrow> ''intrusion'' | Loitering \<Rightarrow> ''loitering''
     | ObjectLeft \<Rightarrow> ''object_left'' | ObjectRemoved \<Rightarrow> ''object_removed'' | Crowd \<Rightarrow> ''crowd'')"

definition detail_json :: "event_detail \<Rightarrow> (string \<times> json) list" where
  "detail_json d = (case d of NoDetail \<Rightarrow> [] | Direction x \<Rightarrow> [(''direction'', JNum x)]
     | Dwell x \<Rightarrow> [(''dwell_sec'', JNum x)] | Stationary x \<Rightarrow> [(''stationary_sec'', JNum x)]
     | Count n \<Rightarrow> [(''count'', JNum (of_nat n))])"

definition new_event ::
  "string \<Rightarrow> string \<Rightarrow> string option \<Rightarrow> string \<Rightarrow> string \<Rightarrow> timestamp \<Rightarrow> timestamp \<Rightarrow> real \<Rightarrow> bbox \<Rightarrow>
   (string \<times> json) list \<Rightarrow> event_row" where
  "new_event cam tid pid status etype start stop conf box detail =
     \<lparr>ev_camera = cam, ev_track = Some tid, ev_identity = pid, ev_status = status, ev_type = etype,
      ev_start = start, ev_end = stop, ev_confidence = conf, ev_bbox = box, ev_detail = detail,
      ev_snapshot_enc = None, ev_segment_enc = None, ev_created_at = stop\<rparr>"

definition draw_id :: "('f, 'c) ai_env \<Rightarrow> sess \<Rightarrow> string \<times> sess" where
  "draw_id env s = (v_uuid env (ss_next s), s\<lparr>ss_next := Suc (ss_next s)\<rparr>)"

definition add_event :: "('f, 'c) ai_env \<Rightarrow> event_row \<Rightarrow> sess \<Rightarrow> string \<times> sess" where
  "add_event env ev s =
     (let (i, s1) = draw_id env s
      in (i, s1\<lparr>ss_db := (ss_db s1)\<lparr>db_events := dict_set i ev (db_events (ss_db s1))\<rparr>\<rparr>))"

fun add_analytics :: "('f, 'c) ai_env \<Rightarrow> string \<Rightarrow> analytic_event list \<Rightarrow> sess \<Rightarrow> string list \<times> sess" where
  "add_analytics env cam [] s = ([], s)"
| "add_analytics env cam (ae # aes) s =
     (let ev = new_event cam (ae_track ae) None ''unknown'' (kind_value (ae_kind ae)) (ae_ts ae) (ae_ts ae)
                 (ae_score ae) (ae_bbox ae) (detail_json (ae_detail ae));
          (i, s1) = add_event env ev s;
          (is, s2) = add_analytics env cam aes s1
      in (i # is, s2))"

definition run_rules ::
  "('f, 'c) ai_env \<Rightarrow> timestamp \<Rightarrow> track list \<Rightarrow> pipeline \<times> sess \<Rightarrow> py_error + (pipeline \<times> sess)" where
  "run_rules env ts tracks ps =
     (let (p, s) = ps in
      case pc_engine p of
        Some e \<Rightarrow>
          if tracks \<noteq> [] then
            (case evaluate (map (\<lambda>tr. (tr_id tr, tr_label tr, tr_bbox tr)) tracks) ts e of
               Inl err \<Rightarrow> Inl err
             | Inr (e', aes) \<Rightarrow>
                 (let (ids, s') = add_analytics env (pc_camera p) aes s
                  in Inr (p\<lparr>pc_engine := Some e', pc_last_analytic := ids\<rparr>, s')))
          else Inr (p\<lparr>pc_last_analytic := []\<rparr>, s)
      | None \<Rightarrow> Inr (p\<lparr>pc_last_analytic := []\<rparr>, s))"

definition anpr_track ::
  "('f, 'c) ai_env \<Rightarrow> 'f \<Rightarrow> timestamp \<Rightarrow> track \<Rightarrow> pipeline \<times> sess \<Rightarrow> pipeline \<times> sess" where
  \<comment> \<open>the loop body of the ANPR pass\<close>
  "anpr_track env frame ts tr ps =
     (let (p, s) = ps in
      if tr_label tr \<noteq> ''vehicle'' then (p, s)
      else (let prev = dict_get (pc_anpr_last p) (tr_id tr) in
        if prev \<noteq> None \<and> total_seconds (ts - snd (the prev)) < 5 then (p, s)
        else (case v_plate env (v_crop env frame (tr_bbox tr)) ts of
                None \<Rightarrow> (p, s)
              | Some reading \<Rightarrow>
                  (let p1 = p\<lparr>pc_anpr_last := dict_set (tr_id tr) (pl_plate reading, ts) (pc_anpr_last p)\<rparr> in
                   if prev \<noteq> None \<and> fst (the prev) = pl_plate reading then (p1, s)
                   else (let ev = new_event (pc_camera p) (tr_id tr) None ''unknown'' ''anpr'' ts ts
                               (pl_confidence reading) (tr_bbox tr)
                               [(''plate_enc'', JStr (v_encrypt env (pl_plate reading))),
                                (''plate_hash'', JStr (v_hash16 env (pl_plate reading)))];
                             (i, s1) = add_event env ev s
                         in (p1\<lparr>pc_last_analytic := pc_last_analytic p1 @ [i]\<rparr>, s1))))))"

definition run_anpr ::
  "('f, 'c) ai_env \<Rightarrow> 'f \<Rightarrow> timestamp \<Rightarrow> track list \<Rightarrow> pipeline \<times> sess \<Rightarrow> pipeline \<times> sess" where
  "run_anpr env frame ts tracks ps =
     (if pc_anpr (fst ps) then fold (anpr_track env frame ts) tracks ps else ps)"

section \<open>Live tracks and recognition\<close>

definition fresh_live :: "timestamp \<Rightarrow> track \<Rightarrow> live_track" where
  "fresh_live ts tr =
     \<lparr>lt_first_seen = ts, lt_last_seen = ts, lt_confidence = tr_confidence tr, lt_bbox = tr_bbox tr,
      lt_trajectory = tr_trajectory tr, lt_seen = True, lt_last_recognized = None, lt_recognition = None\<rparr>"

definition should_recognize :: "real \<Rightarrow> live_track \<Rightarrow> timestamp \<Rightarrow> bool" where
  "should_recognize interval st ts =
     (case lt_last_recognized st of None \<Rightarrow> True | Some t \<Rightarrow> total_seconds (ts - t) \<ge> interval)"

definition recognize :: "('f, 'c) ai_env \<Rightarrow> 'f \<Rightarrow> track \<Rightarrow> pipeline \<Rightarrow> string option \<times> real option \<times> string" where
  "recognize env frame tr p =
     (case v_face env frame (tr_bbox tr) of
        None \<Rightarrow> (None, None, ''unknown'')
      | Some face \<Rightarrow>
          (let r = vector_search (pc_threshold p) (v_embed env frame face) (pc_version p) (pc_enrolled p)
           in (rg_person r, rg_similarity r, rg_status r)))"

definition see_track :: "('f, 'c) ai_env \<Rightarrow> 'f \<Rightarrow> timestamp \<Rightarrow> track \<Rightarrow> pipeline \<Rightarrow> pipeline" where
  "see_track env frame ts tr p =
     (let st0 = (case dict_get (pc_active p) (tr_id tr) of None \<Rightarrow> fresh_live ts tr | Some st \<Rightarrow> st);
          st1 = st0\<lparr>lt_seen := True, lt_last_seen := ts, lt_bbox := tr_bbox tr,
                    lt_confidence := max (lt_confidence st0) (tr_confidence tr)\<rparr>;
          st2 = (if pc_recognition p \<and> should_recognize (pc_interval p) st1 ts
                 then st1\<lparr>lt_last_recognized := Some ts, lt_recognition := Some (recognize env frame tr p)\<rparr>
                 else st1)
      in p\<lparr>pc_active := dict_set (tr_id tr) st2 (pc_active p)\<rparr>)"

section \<open>Sampled detection rows\<close>

definition box_moved :: "bbox \<Rightarrow> bbox \<Rightarrow> bool" where
  "box_moved b l0 =
     (case (b, l0) of ((x, y, w, h), (lx, ly, lw, lh)) \<Rightarrow>
        \<bar>x - lx\<bar> > 1/100 \<or> \<bar>y - ly\<bar> > 1/100 \<or> \<bar>w - lw\<bar> > 1/100 \<or> \<bar>h - lh\<bar> > 1/100)"

definition sample_due :: "timestamp \<Rightarrow> track \<Rightarrow> pipeline \<Rightarrow> bool" where
  "sample_due ts tr p \<longleftrightarrow>
     (case dict_get (pc_det_box p) (tr_id tr) of None \<Rightarrow> True | Some b \<Rightarrow> box_moved (tr_bbox tr) b) \<or>
     (case dict_get (pc_det_ts p) (tr_id tr) of None \<Rightarrow> True | Some t \<Rightarrow> total_seconds (ts - t) \<ge> 2)"

definition sample_track ::
  "('f, 'c) ai_env \<Rightarrow> timestamp \<Rightarrow> track \<Rightarrow> pipeline \<times> sess \<Rightarrow> pipeline \<times> sess" where
  "sample_track env ts tr ps =
     (let (p, s) = ps in
      if \<not> sample_due ts tr p then (p, s)
      else (let (i, s1) = draw_id env s;
                row = \<lparr>dr_camera = pc_camera p, dr_track = Some (tr_id tr), dr_ts = ts, dr_label = tr_label tr,
                       dr_confidence = tr_confidence tr, dr_bbox = tr_bbox tr\<rparr>
            in (p\<lparr>pc_det_ts := dict_set (tr_id tr) ts (pc_det_ts p),
                  pc_det_box := dict_set (tr_id tr) (tr_bbox tr) (pc_det_box p)\<rparr>,
                s1\<lparr>ss_db := (ss_db s1)\<lparr>db_detections := dict_set i row (db_detections (ss_db s1))\<rparr>\<rparr>)))"

definition drop_sampling :: "track list \<Rightarrow> pipeline \<Rightarrow> pipeline" where
  "drop_sampling tracks p =
     (let gone = filter (\<lambda>tid. tid \<notin> set (map tr_id tracks)) (dict_keys (pc_det_ts p))
      in p\<lparr>pc_det_ts := fold dict_del gone (pc_det_ts p), pc_det_box := fold dict_del gone (pc_det_box p)\<rparr>)"

section \<open>Closing and storing tracks\<close>

definition recognition_of :: "live_track \<Rightarrow> string option \<times> real option \<times> string" where
  "recognition_of st = (case lt_recognition st of None \<Rightarrow> (None, None, ''unknown'') | Some r \<Rightarrow> r)"

definition identity_of :: "live_track \<Rightarrow> string option" where
  \<comment> \<open>\<open>pid if status == "known" else None\<close>\<close>
  "identity_of st = (case recognition_of st of (pid, _, status) \<Rightarrow> if status = ''known'' then pid else None)"

definition status_of :: "live_track \<Rightarrow> string" where
  "status_of st = snd (snd (recognition_of st))"

definition snapshot_key :: "string \<Rightarrow> string \<Rightarrow> string" where
  "snapshot_key cam eid = ''snapshots/'' @ cam @ ''/'' @ eid @ ''.json''"

definition finalize :: "('f, 'c) ai_env \<Rightarrow> string \<Rightarrow> string \<Rightarrow> live_track \<Rightarrow> sess \<Rightarrow> string \<times> sess" where
  "finalize env cam tid st s =
     (let ev = new_event cam tid (identity_of st) (status_of st) ''presence''
                 (lt_first_seen st) (lt_last_seen st) (lt_confidence st) (lt_bbox st) [];
          (eid, s1) = draw_id env s;
          key = snapshot_key cam eid;
          ev1 = ev\<lparr>ev_snapshot_enc := Some (v_encrypt env key)\<rparr>;
          (sid, s2) = draw_id env s1;
          snap = \<lparr>sn_camera = cam, sn_track = Some tid, sn_event = Some eid,
                  sn_key_enc = v_encrypt env key, sn_created_at = lt_last_seen st\<rparr>
      in (eid, s2\<lparr>ss_puts := ss_puts s2 @ [(key, (tid, status_of st, lt_last_seen st))],
                  ss_db := (ss_db s2)\<lparr>db_events := dict_set eid ev1 (db_events (ss_db s2)),
                                      db_snapshots := dict_set sid snap (db_snapshots (ss_db s2))\<rparr>\<rparr>))"

definition is_stale :: "real \<Rightarrow> timestamp \<Rightarrow> live_track \<Rightarrow> bool" where
  "is_stale merge_gap ts st \<longleftrightarrow> \<not> lt_seen st \<and> total_seconds (ts - lt_last_seen st) \<ge> merge_gap"

fun close_stale ::
  "('f, 'c) ai_env \<Rightarrow> timestamp \<Rightarrow> (string \<times> live_track) list \<Rightarrow> pipeline \<times> sess \<Rightarrow> pipeline \<times> sess \<times> string list" where
  "close_stale env ts [] (p, s) = (p, s, [])"
| "close_stale env ts ((tid, st) # rest) (p, s) =
     (if is_stale (pc_merge_gap p) ts st then
        (let (eid, s1) = finalize env (pc_camera p) tid st s;
             (p2, s2, closed) = close_stale env ts rest (p\<lparr>pc_active := dict_del tid (pc_active p)\<rparr>, s1)
         in (p2, s2, eid # closed))
      else close_stale env ts rest (p, s))"

definition upsert_track :: "string \<Rightarrow> string \<times> live_track \<Rightarrow> (string, track_row) dict \<Rightarrow> (string, track_row) dict" where
  "upsert_track cam e tbl =
     (case e of (tid, st) \<Rightarrow>
        dict_set tid \<lparr>tw_camera = (case dict_get tbl tid of None \<Rightarrow> cam | Some r \<Rightarrow> tw_camera r),
          tw_identity = identity_of st, tw_status = status_of st,
          tw_first_seen = lt_first_seen st, tw_last_seen = lt_last_seen st,
          tw_confidence = lt_confidence st, tw_bbox = lt_bbox st, tw_trajectory = lt_trajectory st\<rparr> tbl)"

definition upsert_tracks :: "pipeline \<Rightarrow> sess \<Rightarrow> sess" where
  "upsert_tracks p s =
     s\<lparr>ss_db := (ss_db s)\<lparr>db_tracks := fold (upsert_track (pc_camera p)) (pc_active p) (db_tracks (ss_db s))\<rparr>\<rparr>"

section \<open>A frame\<close>

definition admit :: "pipeline \<Rightarrow> detection list \<Rightarrow> detection list" where
  "admit p raw = filter (\<lambda>d. d_confidence d \<ge> pc_confidence p \<and> \<not> is_masked (pc_masks p) (d_bbox d)) raw"

definition begin_frame :: "('f, 'c) ai_env \<Rightarrow> real \<Rightarrow> db \<Rightarrow> pipeline \<Rightarrow> pipeline" where
  "begin_frame env now d p =
     (let p1 = (if now - pc_enrolled_at p > 30 then refresh_enrolled env now (map snd (db_embeddings d)) p else p)
      in p1\<lparr>pc_active := map_rows (\<lambda>st. st\<lparr>lt_seen := False\<rparr>) (pc_active p1)\<rparr>)"

definition track_frame ::
  "('f, 'c) ai_env \<Rightarrow> 'f \<Rightarrow> timestamp \<Rightarrow> pipeline \<Rightarrow> py_error + (track list \<times> pipeline)" where
  "track_frame env frame ts p =
     (let (motion, prev) = (if pc_gate p then frame_has_motion (v_grid env frame) (pc_gate_prev p)
                            else (True, pc_gate_prev p));
          p1 = p\<lparr>pc_gate_prev := prev\<rparr> in
      if \<not> motion then Inr ([], p1)
      else (case tracker_update (pc_camera p1) (admit p1 (v_detect env frame ts)) (pc_tracker p1) of
              None \<Rightarrow> Inl KeyError
            | Some (tracks, t') \<Rightarrow> Inr (tracks, p1\<lparr>pc_tracker := t'\<rparr>)))"

definition process_frame ::
  "('f, 'c) ai_env \<Rightarrow> real \<Rightarrow> 'f \<Rightarrow> timestamp \<Rightarrow> pipeline \<times> sess \<Rightarrow>
   py_error + (pipeline \<times> sess \<times> string list)" where
  "process_frame env now frame ts ps =
     (let (p, s) = ps; p0 = begin_frame env now (ss_db s) p in
      bind_ok (track_frame env frame ts p0) (\<lambda>(tracks, p1).
      bind_ok (run_rules env ts tracks (p1, s)) (\<lambda>ps2.
        (let (p3, s3) = run_anpr env frame ts tracks ps2;
             p4 = fold (see_track env frame ts) tracks p3;
             (p5, s5) = fold (sample_track env ts) tracks (p4, s3);
             p6 = drop_sampling tracks p5;
             (p7, s7, closed) = close_stale env ts (pc_active p6) (p6, s5)
         in Inr (p7, upsert_tracks p7 s7, closed)))))"

section \<open>The constructor\<close>

fun parse_masks :: "json list \<Rightarrow> py_error + bbox list" where
  \<comment> \<open>\<open>[m for m in (_parse_mask(x) for x in privacy_masks) if m]\<close>\<close>
  "parse_masks [] = Inr []"
| "parse_masks (j # js) =
     bind_ok (parse_mask j) (\<lambda>m. bind_ok (parse_masks js) (\<lambda>ms. Inr (case m of None \<Rightarrow> ms | Some r \<Rightarrow> r # ms)))"

definition new_pipeline ::
  "string \<Rightarrow> tracker \<Rightarrow> bool \<Rightarrow> real option \<Rightarrow> real \<Rightarrow> real \<Rightarrow> real \<Rightarrow> string \<Rightarrow> bool \<Rightarrow> engine option \<Rightarrow> bool \<Rightarrow>
   json list \<Rightarrow> bool \<Rightarrow> py_error + pipeline" where
  "new_pipeline camera trk face_chain matcher confidence merge_gap interval version enabled engine anpr masks gate =
     bind_ok (parse_masks masks) (\<lambda>ms. Inr
       \<lparr>pc_camera = camera, pc_confidence = confidence, pc_merge_gap = merge_gap, pc_interval = interval,
        pc_version = version, pc_recognition = (enabled \<and> face_chain \<and> matcher \<noteq> None),
        pc_threshold = (case matcher of None \<Rightarrow> 0 | Some thr \<Rightarrow> thr), pc_engine = engine, pc_anpr = anpr,
        pc_masks = ms, pc_gate = gate, pc_gate_prev = None, pc_anpr_last = [], pc_last_analytic = [],
        pc_det_ts = [], pc_det_box = [], pc_active = [], pc_enrolled = [], pc_enrolled_at = 0,
        pc_watermark = None, pc_tracker = trk\<rparr>)"

end
