(* ===== verification/Pipeline_Safety.thy ===== *)
theory Pipeline_Safety
  imports Pipeline
begin

text \<open>
  What the pipeline of \<open>packages/ai/pipeline.py\<close> promises of every frame: it does not fail,
  it stores nothing a privacy mask covers, it asserts no identity below the threshold, it
  samples and throttles as documented, and presence events open and close on time.
\<close>

section \<open>Well-formed pipelines\<close>

definition pipeline_ok :: "pipeline \<Rightarrow> bool" where
  "pipeline_ok p \<longleftrightarrow> tracker_ok (pc_tracker p) \<and> dict_ok (pc_active p) \<and>
     (case pc_engine p of None \<Rightarrow> True | Some e \<Rightarrow> engine_ok e)"

lemma refresh_enrolled_frame [simp]:
  "pc_tracker (refresh_enrolled env now rs p) = pc_tracker p"
  "pc_active (refresh_enrolled env now rs p) = pc_active p"
  "pc_engine (refresh_enrolled env now rs p) = pc_engine p"
  "pc_masks (refresh_enrolled env now rs p) = pc_masks p"
  "pc_confidence (refresh_enrolled env now rs p) = pc_confidence p"
  "pc_merge_gap (refresh_enrolled env now rs p) = pc_merge_gap p"
  "pc_camera (refresh_enrolled env now rs p) = pc_camera p"
  "pc_interval (refresh_enrolled env now rs p) = pc_interval p"
  "pc_gate (refresh_enrolled env now rs p) = pc_gate p"
  "pc_det_ts (refresh_enrolled env now rs p) = pc_det_ts p"
  "pc_det_box (refresh_enrolled env now rs p) = pc_det_box p"
  "pc_anpr_last (refresh_enrolled env now rs p) = pc_anpr_last p"
  "pc_recognition (refresh_enrolled env now rs p) = pc_recognition p"
  "pc_threshold (refresh_enrolled env now rs p) = pc_threshold p"
  "pc_version (refresh_enrolled env now rs p) = pc_version p"
  by (simp_all add: refresh_enrolled_def Let_def)

lemma begin_frame_frame [simp]:
  "pc_tracker (begin_frame env now d p) = pc_tracker p"
  "pc_engine (begin_frame env now d p) = pc_engine p"
  "pc_masks (begin_frame env now d p) = pc_masks p"
  "pc_confidence (begin_frame env now d p) = pc_confidence p"
  "pc_merge_gap (begin_frame env now d p) = pc_merge_gap p"
  "pc_camera (begin_frame env now d p) = pc_camera p"
  "pc_interval (begin_frame env now d p) = pc_interval p"
  "pc_det_ts (begin_frame env now d p) = pc_det_ts p"
  "pc_det_box (begin_frame env now d p) = pc_det_box p"
  "pc_anpr_last (begin_frame env now d p) = pc_anpr_last p"
  "pc_active (begin_frame env now d p) = map_rows (\<lambda>st. st\<lparr>lt_seen := False\<rparr>) (pc_active p)"
  by (simp_all add: begin_frame_def Let_def)

lemma dict_ok_map_rows [simp]: "dict_ok (map_rows f d) = dict_ok d"
  by (simp add: dict_ok_def)

lemma dict_get_map_rows [simp]: "dict_get (map_rows f d) k = map_option f (dict_get d k)"
  by (induction d) (auto simp: dict_get_def map_rows_def)

lemma begin_frame_ok: "pipeline_ok p \<Longrightarrow> pipeline_ok (begin_frame env now d p)"
  by (simp add: pipeline_ok_def)

section \<open>Detection and tracking\<close>

text \<open>
  The tracks of a frame come, box for box, from detections that the threshold and the masks
  admit, and their ids are distinct.
\<close>

definition admitted :: "pipeline \<Rightarrow> track \<Rightarrow> bool" where
  "admitted p tr \<longleftrightarrow> \<not> is_masked (pc_masks p) (tr_bbox tr)"

definition same_config :: "pipeline \<Rightarrow> pipeline \<Rightarrow> bool" where
  "same_config p q \<longleftrightarrow> pc_camera q = pc_camera p \<and> pc_masks q = pc_masks p \<and> pc_merge_gap q = pc_merge_gap p \<and>
     pc_interval q = pc_interval p \<and> pc_recognition q = pc_recognition p \<and> pc_threshold q = pc_threshold p \<and>
     pc_version q = pc_version p \<and> pc_confidence q = pc_confidence p \<and> pc_anpr q = pc_anpr p \<and> pc_gate q = pc_gate p"

lemma same_config_refl [simp]: "same_config p p"
  by (simp add: same_config_def)

lemma same_config_trans: "same_config p q \<Longrightarrow> same_config q r \<Longrightarrow> same_config p r"
  by (simp add: same_config_def)

lemma track_frame_ok:
  assumes "pipeline_ok p"
  shows "\<exists>tracks p'. track_frame env frame ts p = Inr (tracks, p') \<and> pipeline_ok p' \<and> same_config p p' \<and>
    distinct (map tr_id tracks) \<and> (\<forall>tr \<in> set tracks. admitted p tr) \<and>
    pc_active p' = pc_active p \<and> pc_engine p' = pc_engine p \<and> pc_det_ts p' = pc_det_ts p \<and>
    pc_det_box p' = pc_det_box p \<and> pc_anpr_last p' = pc_anpr_last p \<and> pc_enrolled p' = pc_enrolled p"
proof -
  define g where "g = (if pc_gate p then frame_has_motion (v_grid env frame) (pc_gate_prev p) else (True, pc_gate_prev p))"
  define p1 where "p1 = p\<lparr>pc_gate_prev := snd g\<rparr>"
  have p1: "pipeline_ok p1" using assms by (simp add: p1_def pipeline_ok_def)
  have t: "track_frame env frame ts p =
      (if \<not> fst g then Inr ([], p1)
       else (case tracker_update (pc_camera p1) (admit p1 (v_detect env frame ts)) (pc_tracker p1) of
              None \<Rightarrow> Inl KeyError | Some (tracks, t') \<Rightarrow> Inr (tracks, p1\<lparr>pc_tracker := t'\<rparr>)))"
    by (simp only: track_frame_def g_def [symmetric] p1_def Let_def case_prod_unfold)
  show ?thesis
  proof (cases "fst g")
    case False
    then show ?thesis using p1 by (simp add: t) (simp add: p1_def same_config_def)
  next
    case True
    have tk: "tracker_ok (pc_tracker p1)" using p1 by (simp add: pipeline_ok_def)
    obtain out t1 used where u: "tracker_update (pc_camera p1) (admit p1 (v_detect env frame ts)) (pc_tracker p1) =
        Some (out, t1\<lparr>tk_state := age_tracks (tk_max_age t1) used (tk_state t1)\<rparr>)"
      "tracker_ok t1" "frame_out_ok (predictions_of (pc_tracker p1)) (pc_tracker p1) [] out t1 used"
      "map tr_bbox out = map d_bbox (sorted_desc d_confidence (admit p1 (v_detect env frame ts)))"
      using tracker_update_frame [OF tk] by blast
    have "admitted p tr" if "tr \<in> set out" for tr
    proof -
      have "tr_bbox tr \<in> set (map tr_bbox out)" using that by simp
      then obtain d where "d \<in> set (admit p1 (v_detect env frame ts))" "d_bbox d = tr_bbox tr"
        by (auto simp: u(4))
      then show ?thesis by (auto simp: admit_def admitted_def p1_def)
    qed
    moreover have "distinct (map tr_id out)" using u(3) by (simp add: frame_out_ok_def)
    moreover have "pipeline_ok (p1\<lparr>pc_tracker := t1\<lparr>tk_state := age_tracks (tk_max_age t1) used (tk_state t1)\<rparr>\<rparr>)"
      using p1 age_tracks_tracker_ok [OF u(2)] by (simp add: pipeline_ok_def)
    ultimately show ?thesis using True u(1) by (simp add: t) (simp add: p1_def same_config_def)
  qed
qed

section \<open>What may be stored\<close>

definition identified :: "string option \<Rightarrow> string \<Rightarrow> bool" where
  \<comment> \<open>a row names a person only with status known\<close>
  "identified pid status \<longleftrightarrow> (pid \<noteq> None \<longrightarrow> status = ''known'')"

definition row_ok :: "bbox list \<Rightarrow> bbox \<Rightarrow> string option \<Rightarrow> string \<Rightarrow> bool" where
  "row_ok masks box pid status \<longleftrightarrow> \<not> is_masked masks box \<and> identified pid status"

text \<open>Every stored row was there before, or has an unmasked box and no identity without status known.\<close>

definition det_ok :: "db \<Rightarrow> bbox list \<Rightarrow> detection_row \<Rightarrow> bool" where
  "det_ok old masks r \<longleftrightarrow> r \<in> rows (db_detections old) \<or> \<not> is_masked masks (dr_bbox r)"

definition ev_ok :: "db \<Rightarrow> bbox list \<Rightarrow> event_row \<Rightarrow> bool" where
  "ev_ok old masks r \<longleftrightarrow> r \<in> rows (db_events old) \<or> row_ok masks (ev_bbox r) (ev_identity r) (ev_status r)"

definition tw_ok :: "db \<Rightarrow> bbox list \<Rightarrow> track_row \<Rightarrow> bool" where
  "tw_ok old masks r \<longleftrightarrow> r \<in> rows (db_tracks old) \<or> row_ok masks (tw_bbox r) (tw_identity r) (tw_status r)"

definition db_clean :: "db \<Rightarrow> bbox list \<Rightarrow> db \<Rightarrow> bool" where
  "db_clean old masks d \<longleftrightarrow>
     (\<forall>r \<in> rows (db_detections d). det_ok old masks r) \<and>
     (\<forall>r \<in> rows (db_events d). ev_ok old masks r) \<and>
     (\<forall>r \<in> rows (db_tracks d). tw_ok old masks r)"

lemma db_clean_refl: "db_clean d masks d"
  by (simp add: db_clean_def det_ok_def ev_ok_def tw_ok_def)

definition live_ok :: "bbox list \<Rightarrow> real \<Rightarrow> live_track \<Rightarrow> bool" where
  "live_ok masks thr st \<longleftrightarrow> \<not> is_masked masks (lt_bbox st) \<and>
     (case lt_recognition st of None \<Rightarrow> True
      | Some (pid, sim, status) \<Rightarrow> status = ''known'' \<longrightarrow> pid \<noteq> None \<and> (\<exists>x. sim = Some x \<and> thr \<le> x))"

definition live_all_ok :: "pipeline \<Rightarrow> bool" where
  "live_all_ok p \<longleftrightarrow> (\<forall>st \<in> rows (pc_active p). live_ok (pc_masks p) (pc_threshold p) st)"

lemma identity_of_identified: "identified (identity_of st) (status_of st)"
  by (auto simp: identified_def identity_of_def status_of_def split: prod.splits if_splits)

lemma add_event_clean:
  assumes "db_clean old masks (ss_db s)" and "\<not> is_masked masks (ev_bbox ev)" and "identified (ev_identity ev) (ev_status ev)"
  shows "db_clean old masks (ss_db (snd (add_event env ev s)))"
proof -
  have "\<forall>r \<in> rows (dict_set (v_uuid env (ss_next s)) ev (db_events (ss_db s))). ev_ok old masks r"
    using assms by (intro rows_dict_set_ball) (simp_all add: db_clean_def ev_ok_def row_ok_def)
  then show ?thesis using assms(1) by (simp add: db_clean_def add_event_def draw_id_def Let_def)
qed

lemma new_event_simps [simp]:
  "ev_bbox (new_event cam tid pid status etype a b conf box detail) = box"
  "ev_identity (new_event cam tid pid status etype a b conf box detail) = pid"
  "ev_status (new_event cam tid pid status etype a b conf box detail) = status"
  by (simp_all add: new_event_def)

lemma add_analytics_clean:
  "db_clean old masks (ss_db s) \<Longrightarrow> \<forall>ae \<in> set aes. \<not> is_masked masks (ae_bbox ae) \<Longrightarrow>
   db_clean old masks (ss_db (snd (add_analytics env cam aes s)))"
proof (induction aes arbitrary: s)
  case (Cons ae aes)
  have "db_clean old masks (ss_db (snd (add_event env (new_event cam (ae_track ae) None ''unknown'' (kind_value (ae_kind ae))
      (ae_ts ae) (ae_ts ae) (ae_score ae) (ae_bbox ae) (detail_json (ae_detail ae))) s)))"
    using Cons.prems by (intro add_event_clean) (simp_all add: identified_def)
  then show ?case using Cons.IH Cons.prems(2) by (simp add: case_prod_unfold Let_def)
qed simp

text \<open>The boxes of rule events are boxes of tracks of the frame.\<close>

lemma evaluate_boxes:
  assumes "engine_ok e" and "distinct (map fst trks)" and "evaluate trks ts e = Inr (e', evs)"
  shows "engine_ok e' \<and> (\<forall>ev \<in> set evs. \<exists>trk \<in> set trks. ae_bbox ev = snd (snd trk))"
proof -
  obtain e2 evs2 where r: "evaluate trks ts e = Inr (e2, evs2)" "engine_ok e2"
    "\<forall>ev \<in> set evs2. from_frame e trks ts ev \<or> crowd_event (en_camera e) (en_rules e) trks ts ev"
    using evaluate_frame [OF assms(1,2), of ts] by (elim exE conjE)
  have "\<exists>trk \<in> set trks. ae_bbox ev = snd (snd trk)" if "ev \<in> set evs" for ev
  proof -
    have "from_frame e trks ts ev \<or> crowd_event (en_camera e) (en_rules e) trks ts ev"
      using that r(1,3) assms(3) by auto
    then show ?thesis
      unfolding from_frame_def from_rules_def reports_def crowd_event_def by blast
  qed
  then show ?thesis using r assms(3) by auto
qed

definition rest_same :: "pipeline \<Rightarrow> pipeline \<Rightarrow> bool" where
  \<comment> \<open>configuration, tracker and live tracks are untouched\<close>
  "rest_same p q \<longleftrightarrow> same_config p q \<and> pc_tracker q = pc_tracker p \<and> pc_active q = pc_active p"

lemma run_rules_ok:
  assumes "pipeline_ok p" and "distinct (map tr_id tracks)" and "\<forall>tr \<in> set tracks. admitted p tr"
    and "db_clean old (pc_masks p) (ss_db s)"
  shows "\<exists>p' s'. run_rules env ts tracks (p, s) = Inr (p', s') \<and> pipeline_ok p' \<and> rest_same p p' \<and>
    db_clean old (pc_masks p) (ss_db s') \<and> pc_det_ts p' = pc_det_ts p \<and> pc_det_box p' = pc_det_box p \<and>
    pc_anpr_last p' = pc_anpr_last p \<and> pc_enrolled p' = pc_enrolled p"
proof (cases "pc_engine p")
  case None
  then show ?thesis using assms by (simp add: run_rules_def pipeline_ok_def rest_same_def same_config_def)
next
  case (Some e)
  show ?thesis
  proof (cases "tracks = []")
    case True
    then show ?thesis using assms Some by (simp add: run_rules_def pipeline_ok_def rest_same_def same_config_def)
  next
    case False
    let ?trks = "map (\<lambda>tr. (tr_id tr, tr_label tr, tr_bbox tr)) tracks"
    have e: "engine_ok e" using assms(1) Some by (simp add: pipeline_ok_def)
    have d: "distinct (map fst ?trks)" using assms(2) by (simp add: o_def)
    obtain e' aes where ev: "evaluate ?trks ts e = Inr (e', aes)" using evaluate_frame [OF e d, of ts] by blast
    have b: "engine_ok e'" "\<forall>ae \<in> set aes. \<not> is_masked (pc_masks p) (ae_bbox ae)"
      using evaluate_boxes [OF e d ev] assms(3) by (auto simp: admitted_def)
    show ?thesis
      using False Some ev b assms(1) add_analytics_clean [OF assms(4) b(2), of env "pc_camera p"]
      by (simp add: run_rules_def case_prod_unfold Let_def pipeline_ok_def rest_same_def same_config_def)
  qed
qed

lemma anpr_track_ok:
  assumes "admitted p tr" and "db_clean old (pc_masks p) (ss_db s)"
  shows "rest_same p (fst (anpr_track env frame ts tr (p, s))) \<and>
    pc_engine (fst (anpr_track env frame ts tr (p, s))) = pc_engine p \<and>
    pc_det_ts (fst (anpr_track env frame ts tr (p, s))) = pc_det_ts p \<and>
    pc_det_box (fst (anpr_track env frame ts tr (p, s))) = pc_det_box p \<and>
    pc_enrolled (fst (anpr_track env frame ts tr (p, s))) = pc_enrolled p \<and>
    db_clean old (pc_masks p) (ss_db (snd (anpr_track env frame ts tr (p, s))))"
  using assms
  by (auto simp: anpr_track_def Let_def rest_same_def same_config_def admitted_def identified_def case_prod_unfold
      intro!: add_event_clean split: option.splits)

lemma run_anpr_ok:
  assumes "\<forall>tr \<in> set tracks. admitted p tr" and "db_clean old (pc_masks p) (ss_db s)"
  shows "rest_same p (fst (run_anpr env frame ts tracks (p, s))) \<and>
    pc_engine (fst (run_anpr env frame ts tracks (p, s))) = pc_engine p \<and>
    pc_det_ts (fst (run_anpr env frame ts tracks (p, s))) = pc_det_ts p \<and>
    pc_det_box (fst (run_anpr env frame ts tracks (p, s))) = pc_det_box p \<and>
    pc_enrolled (fst (run_anpr env frame ts tracks (p, s))) = pc_enrolled p \<and>
    db_clean old (pc_masks p) (ss_db (snd (run_anpr env frame ts tracks (p, s))))"
proof -
  have "rest_same p (fst r) \<and> pc_engine (fst r) = pc_engine p \<and> pc_det_ts (fst r) = pc_det_ts p \<and>
      pc_det_box (fst r) = pc_det_box p \<and> pc_enrolled (fst r) = pc_enrolled p \<and> db_clean old (pc_masks p) (ss_db (snd r))"
    if "r = fold (anpr_track env frame ts) tracks (p, s)" for r
    using that assms
  proof (induction tracks arbitrary: p s)
    case Nil
    then show ?case by (simp add: rest_same_def)
  next
    case (Cons tr tracks)
    define ps where "ps = anpr_track env frame ts tr (p, s)"
    have one: "rest_same p (fst ps)" "pc_engine (fst ps) = pc_engine p" "pc_det_ts (fst ps) = pc_det_ts p"
      "pc_det_box (fst ps) = pc_det_box p" "pc_enrolled (fst ps) = pc_enrolled p"
      "db_clean old (pc_masks p) (ss_db (snd ps))"
      using anpr_track_ok [of p tr old s env frame ts] Cons.prems(2,3) by (simp_all add: ps_def)
    have m: "pc_masks (fst ps) = pc_masks p" using one(1) by (simp add: rest_same_def same_config_def)
    have "r = fold (anpr_track env frame ts) tracks (fst ps, snd ps)" using Cons.prems(1) by (simp add: ps_def)
    moreover have "\<forall>tr \<in> set tracks. admitted (fst ps) tr" using Cons.prems(2) by (simp add: admitted_def m)
    ultimately have "rest_same (fst ps) (fst r) \<and> pc_engine (fst r) = pc_engine (fst ps) \<and>
        pc_det_ts (fst r) = pc_det_ts (fst ps) \<and> pc_det_box (fst r) = pc_det_box (fst ps) \<and>
        pc_enrolled (fst r) = pc_enrolled (fst ps) \<and> db_clean old (pc_masks (fst ps)) (ss_db (snd r))"
      using one(6) by (intro Cons.IH) (simp_all add: m)
    then show ?case using one m by (auto simp: rest_same_def intro: same_config_trans)
  qed
  then show ?thesis using assms(2) by (simp add: run_anpr_def rest_same_def)
qed

text \<open>Seeing a track: its live state, and that nothing else moves.\<close>

lemma identity_known_status: "identity_value x = ''known'' \<longleftrightarrow> x = Known"
  by (cases x) (simp_all add: identity_value_def)

lemma recognize_ok:
  "case recognize env frame tr p of (pid, sim, status) \<Rightarrow>
     status = ''known'' \<longrightarrow> pid \<noteq> None \<and> (\<exists>x. sim = Some x \<and> pc_threshold p \<le> x)"
  by (auto simp: recognize_def vector_search_def Let_def identity_known_status classify_Known_iff
      split: option.splits prod.splits if_splits)

definition seen_state :: "('f, 'c) ai_env \<Rightarrow> 'f \<Rightarrow> timestamp \<Rightarrow> track \<Rightarrow> pipeline \<Rightarrow> live_track" where
  "seen_state env frame ts tr p = the (dict_get (pc_active (see_track env frame ts tr p)) (tr_id tr))"

lemma see_track_active:
  "pc_active (see_track env frame ts tr p) = dict_set (tr_id tr) (seen_state env frame ts tr p) (pc_active p)"
  by (simp add: seen_state_def) (simp add: see_track_def Let_def)

lemma see_track_frame [simp]:
  "same_config p (see_track env frame ts tr p)" "pc_tracker (see_track env frame ts tr p) = pc_tracker p"
  "pc_engine (see_track env frame ts tr p) = pc_engine p" "pc_det_ts (see_track env frame ts tr p) = pc_det_ts p"
  "pc_det_box (see_track env frame ts tr p) = pc_det_box p" "pc_masks (see_track env frame ts tr p) = pc_masks p"
  "pc_threshold (see_track env frame ts tr p) = pc_threshold p"
  by (simp_all add: see_track_def Let_def same_config_def)

definition first_seen_of :: "timestamp \<Rightarrow> live_track option \<Rightarrow> timestamp" where
  "first_seen_of ts o' = (case o' of None \<Rightarrow> ts | Some st \<Rightarrow> lt_first_seen st)"

lemma seen_state_simps [simp]:
  "lt_seen (seen_state env frame ts tr p)" "lt_last_seen (seen_state env frame ts tr p) = ts"
  "lt_bbox (seen_state env frame ts tr p) = tr_bbox tr"
  "lt_first_seen (seen_state env frame ts tr p) =
     first_seen_of ts (dict_get (pc_active p) (tr_id tr))"
  by (simp_all add: seen_state_def see_track_def Let_def fresh_live_def first_seen_of_def split: option.split)

lemma seen_state_ok:
  assumes "live_all_ok p" and "admitted p tr"
  shows "live_ok (pc_masks p) (pc_threshold p) (seen_state env frame ts tr p)"
proof -
  define st0 where "st0 = (case dict_get (pc_active p) (tr_id tr) of None \<Rightarrow> fresh_live ts tr | Some st \<Rightarrow> st)"
  have r0: "case lt_recognition st0 of None \<Rightarrow> True
      | Some (pid, sim, status) \<Rightarrow> status = ''known'' \<longrightarrow> pid \<noteq> None \<and> (\<exists>x. sim = Some x \<and> pc_threshold p \<le> x)"
  proof (cases "dict_get (pc_active p) (tr_id tr)")
    case None
    then show ?thesis by (simp add: st0_def fresh_live_def)
  next
    case (Some st)
    then have "live_ok (pc_masks p) (pc_threshold p) st" using assms(1) dict_get_rows [OF Some] by (auto simp: live_all_ok_def)
    then show ?thesis by (simp add: st0_def Some live_ok_def)
  qed
  have "seen_state env frame ts tr p =
      (let st1 = st0\<lparr>lt_seen := True, lt_last_seen := ts, lt_bbox := tr_bbox tr,
                    lt_confidence := max (lt_confidence st0) (tr_confidence tr)\<rparr>
       in if pc_recognition p \<and> should_recognize (pc_interval p) st1 ts
          then st1\<lparr>lt_last_recognized := Some ts, lt_recognition := Some (recognize env frame tr p)\<rparr> else st1)"
    by (simp add: seen_state_def see_track_def Let_def st0_def)
  then show ?thesis
    using r0 assms(2) recognize_ok [of p env frame tr] by (simp add: Let_def live_ok_def admitted_def)
qed

lemma see_track_live:
  assumes "live_all_ok p" and "admitted p tr" and "dict_ok (pc_active p)"
  shows "live_all_ok (see_track env frame ts tr p) \<and> dict_ok (pc_active (see_track env frame ts tr p))"
  using assms seen_state_ok [OF assms(1,2), of env frame ts]
    rows_dict_set_ball [of "live_ok (pc_masks p) (pc_threshold p)" "seen_state env frame ts tr p" "pc_active p" "tr_id tr"]
  by (simp add: live_all_ok_def see_track_active)

definition seen_ok :: "pipeline \<Rightarrow> pipeline \<Rightarrow> bool" where
  "seen_ok p q \<longleftrightarrow> same_config p q \<and> pc_tracker q = pc_tracker p \<and> pc_engine q = pc_engine p \<and>
     pc_det_ts q = pc_det_ts p \<and> pc_det_box q = pc_det_box p \<and> dict_ok (pc_active q) \<and> live_all_ok q"

text \<open>After the pass, the tracks of the frame are live and seen now; the others are as before.\<close>

lemma see_tracks_ok:
  assumes "live_all_ok p" and "dict_ok (pc_active p)" and "\<forall>tr \<in> set tracks. admitted p tr"
  shows "seen_ok p (fold (see_track env frame ts) tracks p) \<and>
    (\<forall>tid. tid \<notin> tr_id ` set tracks \<longrightarrow>
       dict_get (pc_active (fold (see_track env frame ts) tracks p)) tid = dict_get (pc_active p) tid) \<and>
    (\<forall>tr \<in> set tracks. \<exists>st. dict_get (pc_active (fold (see_track env frame ts) tracks p)) (tr_id tr) = Some st \<and>
       lt_seen st \<and> lt_last_seen st = ts \<and> lt_first_seen st = first_seen_of ts (dict_get (pc_active p) (tr_id tr)))"
  using assms
proof (induction tracks arbitrary: p)
  case Nil
  then show ?case by (simp add: seen_ok_def)
next
  case (Cons tr tracks)
  define q where "q = see_track env frame ts tr p"
  define r where "r = fold (see_track env frame ts) tracks q"
  have q: "live_all_ok q" "dict_ok (pc_active q)" using see_track_live [of p tr env frame ts] Cons.prems by (simp_all add: q_def)
  have m: "\<forall>tr \<in> set tracks. admitted q tr" using Cons.prems(3) by (simp add: q_def admitted_def)
  note IH = Cons.IH [OF q m, folded r_def]
  have c: "same_config p q" by (simp add: q_def)
  have "seen_ok p r" using IH c unfolding seen_ok_def using same_config_trans [OF c, of r] by (auto simp: q_def)
  moreover have "dict_get (pc_active r) tid = dict_get (pc_active p) tid" if "tid \<notin> tr_id ` set (tr # tracks)" for tid
    using that IH by (simp add: q_def see_track_active)
  moreover have "\<exists>st. dict_get (pc_active r) (tr_id u) = Some st \<and> lt_seen st \<and> lt_last_seen st = ts \<and>
      lt_first_seen st = first_seen_of ts (dict_get (pc_active p) (tr_id u))"
    if "u \<in> set (tr # tracks)" for u
  proof (cases "tr_id u \<in> tr_id ` set tracks")
    case True
    then obtain v where v: "v \<in> set tracks" "tr_id v = tr_id u" by force
    then obtain st where st: "dict_get (pc_active r) (tr_id u) = Some st" "lt_seen st" "lt_last_seen st = ts"
      "lt_first_seen st = first_seen_of ts (dict_get (pc_active q) (tr_id u))"
      using IH by metis
    have "first_seen_of ts (dict_get (pc_active q) (tr_id u)) = first_seen_of ts (dict_get (pc_active p) (tr_id u))"
      by (simp add: q_def see_track_active) (simp add: first_seen_of_def)
    then show ?thesis using st by simp
  next
    case False
    then have "u = tr" using that by auto
    with False IH have "dict_get (pc_active r) (tr_id u) = dict_get (pc_active q) (tr_id u)" by blast
    then show ?thesis using \<open>u = tr\<close> by (simp add: q_def see_track_active)
  qed
  ultimately show ?case by (simp add: r_def q_def)
qed

section \<open>Sampling\<close>

lemma sample_track_ok:
  assumes "admitted p tr" and "db_clean old (pc_masks p) (ss_db s)"
  shows "rest_same p (fst (sample_track env ts tr (p, s))) \<and>
    pc_engine (fst (sample_track env ts tr (p, s))) = pc_engine p \<and>
    db_clean old (pc_masks p) (ss_db (snd (sample_track env ts tr (p, s))))"
proof (cases "sample_due ts tr p")
  case True
  let ?row = "\<lparr>dr_camera = pc_camera p, dr_track = Some (tr_id tr), dr_ts = ts, dr_label = tr_label tr,
     dr_confidence = tr_confidence tr, dr_bbox = tr_bbox tr\<rparr>"
  have "\<forall>x \<in> rows (dict_set (v_uuid env (ss_next s)) ?row (db_detections (ss_db s))). det_ok old (pc_masks p) x"
    using assms by (intro rows_dict_set_ball) (simp_all add: admitted_def db_clean_def det_ok_def)
  then show ?thesis
    using True assms(2) by (simp add: sample_track_def draw_id_def Let_def db_clean_def rest_same_def same_config_def)
next
  case False
  then show ?thesis using assms(2) by (simp add: sample_track_def rest_same_def)
qed

lemma sample_tracks_ok:
  assumes "\<forall>tr \<in> set tracks. admitted p tr" and "db_clean old (pc_masks p) (ss_db s)"
  shows "rest_same p (fst (fold (sample_track env ts) tracks (p, s))) \<and>
    pc_engine (fst (fold (sample_track env ts) tracks (p, s))) = pc_engine p \<and>
    db_clean old (pc_masks p) (ss_db (snd (fold (sample_track env ts) tracks (p, s))))"
  using assms
proof (induction tracks arbitrary: p s)
  case Nil
  then show ?case by (simp add: rest_same_def)
next
  case (Cons tr tracks)
  define ps where "ps = sample_track env ts tr (p, s)"
  have one: "rest_same p (fst ps)" "pc_engine (fst ps) = pc_engine p" "db_clean old (pc_masks p) (ss_db (snd ps))"
    using sample_track_ok [of p tr old s env ts] Cons.prems by (simp_all add: ps_def)
  have m: "pc_masks (fst ps) = pc_masks p" using one(1) by (simp add: rest_same_def same_config_def)
  have IH: "rest_same (fst ps) (fst (fold (sample_track env ts) tracks (fst ps, snd ps))) \<and>
      pc_engine (fst (fold (sample_track env ts) tracks (fst ps, snd ps))) = pc_engine (fst ps) \<and>
      db_clean old (pc_masks (fst ps)) (ss_db (snd (fold (sample_track env ts) tracks (fst ps, snd ps))))"
    using Cons.prems(1) one(3) by (intro Cons.IH) (simp_all add: m admitted_def)
  have f: "fold (sample_track env ts) (tr # tracks) (p, s) = fold (sample_track env ts) tracks (fst ps, snd ps)"
    by (simp add: ps_def)
  show ?case unfolding f using IH one m by (auto simp: rest_same_def intro: same_config_trans)
qed

section \<open>Closing\<close>

lemma finalize_clean:
  assumes "db_clean old masks (ss_db s)" and "\<not> is_masked masks (lt_bbox st)"
  shows "db_clean old masks (ss_db (snd (finalize env cam tid st s)))"
proof -
  define ev where "ev = (new_event cam tid (identity_of st) (status_of st) ''presence''
    (lt_first_seen st) (lt_last_seen st) (lt_confidence st) (lt_bbox st) [])
    \<lparr>ev_snapshot_enc := Some (v_encrypt env (snapshot_key cam (v_uuid env (ss_next s))))\<rparr>"
  have "\<forall>x \<in> rows (dict_set (v_uuid env (ss_next s)) ev (db_events (ss_db s))). ev_ok old masks x"
    using assms identity_of_identified [of st]
    by (intro rows_dict_set_ball) (simp_all add: ev_def new_event_def db_clean_def ev_ok_def row_ok_def)
  then show ?thesis
    using assms(1) by (simp add: finalize_def draw_id_def Let_def db_clean_def ev_def [symmetric])
qed

definition closed_ok :: "pipeline \<Rightarrow> pipeline \<Rightarrow> bool" where
  "closed_ok p q \<longleftrightarrow> same_config p q \<and> pc_tracker q = pc_tracker p \<and> pc_engine q = pc_engine p \<and>
     dict_ok (pc_active q) \<and> live_all_ok q"

lemma live_all_ok_del: "live_all_ok p \<Longrightarrow> live_all_ok (p\<lparr>pc_active := dict_del tid (pc_active p)\<rparr>)"
  using rows_del [of tid "pc_active p"] by (auto simp: live_all_ok_def)

lemma close_stale_ok:
  assumes "live_all_ok p" and "dict_ok (pc_active p)" and "db_clean old (pc_masks p) (ss_db s)"
    and "\<forall>(tid, st) \<in> set todo. \<not> is_masked (pc_masks p) (lt_bbox st)" and "distinct (map fst todo)"
  shows "closed_ok p (fst (close_stale env ts todo (p, s))) \<and>
    db_clean old (pc_masks p) (ss_db (fst (snd (close_stale env ts todo (p, s))))) \<and>
    length (snd (snd (close_stale env ts todo (p, s)))) = length (filter (\<lambda>e. is_stale (pc_merge_gap p) ts (snd e)) todo) \<and>
    (\<forall>tid. dict_get (pc_active (fst (close_stale env ts todo (p, s)))) tid =
       (case map_of todo tid of
          Some st \<Rightarrow> if is_stale (pc_merge_gap p) ts st then None else dict_get (pc_active p) tid
        | None \<Rightarrow> dict_get (pc_active p) tid))"
  using assms
proof (induction todo arbitrary: p s)
  case Nil
  then show ?case by (simp add: closed_ok_def)
next
  case (Cons e todo)
  obtain tid st where e: "e = (tid, st)" by (cases e)
  have away: "map_of todo tid = None" using Cons.prems(5) by (simp add: e map_of_eq_None_iff)
  show ?case
  proof (cases "is_stale (pc_merge_gap p) ts st")
    case True
    define q where "q = p\<lparr>pc_active := dict_del tid (pc_active p)\<rparr>"
    define s1 where "s1 = snd (finalize env (pc_camera p) tid st s)"
    have q: "live_all_ok q" "dict_ok (pc_active q)" "pc_masks q = pc_masks p" "pc_merge_gap q = pc_merge_gap p"
      using Cons.prems(1,2) live_all_ok_del by (simp_all add: q_def)
    have "db_clean old (pc_masks q) (ss_db s1)"
      using Cons.prems(3,4) finalize_clean [of old "pc_masks p" s st env "pc_camera p" tid] by (simp add: s1_def q(3) e)
    moreover have "\<forall>(tid, st) \<in> set todo. \<not> is_masked (pc_masks q) (lt_bbox st)" "distinct (map fst todo)"
      using Cons.prems(4,5) by (auto simp: q(3))
    ultimately have IH: "closed_ok q (fst (close_stale env ts todo (q, s1)))"
      "db_clean old (pc_masks q) (ss_db (fst (snd (close_stale env ts todo (q, s1)))))"
      "length (snd (snd (close_stale env ts todo (q, s1)))) = length (filter (\<lambda>e. is_stale (pc_merge_gap q) ts (snd e)) todo)"
      "\<forall>tid. dict_get (pc_active (fst (close_stale env ts todo (q, s1)))) tid =
       (case map_of todo tid of
          Some st \<Rightarrow> if is_stale (pc_merge_gap q) ts st then None else dict_get (pc_active q) tid
        | None \<Rightarrow> dict_get (pc_active q) tid)"
      using Cons.IH [OF q(1,2)] by blast+
    have c: "close_stale env ts (e # todo) (p, s) =
        (fst (close_stale env ts todo (q, s1)), fst (snd (close_stale env ts todo (q, s1))),
         fst (finalize env (pc_camera p) tid st s) # snd (snd (close_stale env ts todo (q, s1))))"
      using True by (simp add: e q_def s1_def case_prod_unfold Let_def)
    have "closed_ok p (fst (close_stale env ts todo (q, s1)))"
      using IH(1) by (simp add: closed_ok_def q_def same_config_def)
    then show ?thesis
      unfolding c using IH(2-4) True away by (auto simp: q(3,4) e q_def split: option.splits)
  next
    case False
    then have c: "close_stale env ts (e # todo) (p, s) = close_stale env ts todo (p, s)" by (simp add: e)
    have "\<forall>(tid, st) \<in> set todo. \<not> is_masked (pc_masks p) (lt_bbox st)" "distinct (map fst todo)"
      using Cons.prems(4,5) by auto
    note IH = Cons.IH [OF Cons.prems(1-3) this]
    show ?thesis unfolding c using IH False away by (auto simp: e split: option.splits)
  qed
qed

lemma upsert_track_row_ok:
  assumes "\<forall>x \<in> rows tbl. tw_ok old masks x" and "\<not> is_masked masks (lt_bbox st)"
  shows "\<forall>x \<in> rows (upsert_track cam (tid, st) tbl). tw_ok old masks x"
  unfolding upsert_track_def prod.case using assms identity_of_identified [of st]
  by (intro rows_dict_set_ball) (simp_all add: tw_ok_def row_ok_def)

lemma upsert_tracks_row_ok:
  "\<forall>x \<in> rows tbl. tw_ok old masks x \<Longrightarrow>
   \<forall>(tid, st) \<in> set act. \<not> is_masked masks (lt_bbox st) \<Longrightarrow>
   \<forall>x \<in> rows (fold (upsert_track cam) act tbl). tw_ok old masks x"
proof (induction act arbitrary: tbl)
  case (Cons e act)
  obtain tid st where e: "e = (tid, st)" by (cases e)
  have "\<not> is_masked masks (lt_bbox st)" using Cons.prems(2) by (simp add: e)
  note step = upsert_track_row_ok [OF Cons.prems(1) this, of cam tid]
  have rest: "\<forall>(tid, st) \<in> set act. \<not> is_masked masks (lt_bbox st)" using Cons.prems(2) by (simp add: e)
  have f: "fold (upsert_track cam) (e # act) tbl = fold (upsert_track cam) act (upsert_track cam (tid, st) tbl)" by (simp add: e)
  show ?case unfolding f by (rule Cons.IH [OF step rest])
qed simp

lemma upsert_clean:
  assumes "db_clean old masks d" and "\<forall>(tid, st) \<in> set act. \<not> is_masked masks (lt_bbox st)"
  shows "db_clean old masks (d\<lparr>db_tracks := fold (upsert_track cam) act (db_tracks d)\<rparr>)"
proof -
  have "\<forall>x \<in> rows (db_tracks d). tw_ok old masks x"
    using assms(1) by (simp add: db_clean_def)
  from upsert_tracks_row_ok [OF this assms(2), of cam] show ?thesis using assms(1) by (simp add: db_clean_def)
qed

section \<open>What closing a track stores\<close>

definition presence_of :: "('f, 'c) ai_env \<Rightarrow> string \<Rightarrow> string \<Rightarrow> live_track \<Rightarrow> string \<Rightarrow> event_row" where
  "presence_of env cam tid st eid = (new_event cam tid (identity_of st) (status_of st) ''presence''
     (lt_first_seen st) (lt_last_seen st) (lt_confidence st) (lt_bbox st) [])
     \<lparr>ev_snapshot_enc := Some (v_encrypt env (snapshot_key cam eid))\<rparr>"

lemma finalize_exact:
  "fst (finalize env cam tid st s) = v_uuid env (ss_next s)"
  "ss_next (snd (finalize env cam tid st s)) = ss_next s + 2"
  "dict_get (db_events (ss_db (snd (finalize env cam tid st s)))) k =
     (if k = v_uuid env (ss_next s) then Some (presence_of env cam tid st k) else dict_get (db_events (ss_db s)) k)"
  by (simp_all add: finalize_def draw_id_def Let_def presence_of_def)

lemma close_stale_events:
  assumes "inj (v_uuid env)"
  shows "(\<forall>n < ss_next s. dict_get (db_events (ss_db (fst (snd (close_stale env ts todo (p, s)))))) (v_uuid env n) =
      dict_get (db_events (ss_db s)) (v_uuid env n)) \<and>
    (\<exists>ids. snd (snd (close_stale env ts todo (p, s))) = ids \<and>
       list_all2 (\<lambda>eid e. dict_get (db_events (ss_db (fst (snd (close_stale env ts todo (p, s)))))) eid =
           Some (presence_of env (pc_camera p) (fst e) (snd e) eid))
         ids (filter (\<lambda>e. is_stale (pc_merge_gap p) ts (snd e)) todo))"
proof (induction todo arbitrary: p s)
  case Nil
  then show ?case by simp
next
  case (Cons e todo)
  obtain tid st where e: "e = (tid, st)" by (cases e)
  show ?case
  proof (cases "is_stale (pc_merge_gap p) ts st")
    case True
    define q where "q = p\<lparr>pc_active := dict_del tid (pc_active p)\<rparr>"
    define s1 where "s1 = snd (finalize env (pc_camera p) tid st s)"
    have c: "close_stale env ts (e # todo) (p, s) =
        (fst (close_stale env ts todo (q, s1)), fst (snd (close_stale env ts todo (q, s1))),
         v_uuid env (ss_next s) # snd (snd (close_stale env ts todo (q, s1))))"
      using True by (simp add: e q_def s1_def case_prod_unfold Let_def finalize_exact)
    have q: "pc_merge_gap q = pc_merge_gap p" "pc_camera q = pc_camera p" by (simp_all add: q_def)
    have n: "ss_next s1 = ss_next s + 2" by (simp add: s1_def finalize_exact)
    have get: "dict_get (db_events (ss_db s1)) k =
        (if k = v_uuid env (ss_next s) then Some (presence_of env (pc_camera p) tid st k) else dict_get (db_events (ss_db s)) k)" for k
      by (simp add: s1_def finalize_exact)
    note IH = Cons.IH [of s1 q, unfolded q n]
    have "v_uuid env m \<noteq> v_uuid env (ss_next s)" if "m < ss_next s" for m
      using that injD [OF assms, of m "ss_next s"] by auto
    then have "\<forall>m < ss_next s. dict_get (db_events (ss_db (fst (snd (close_stale env ts todo (q, s1)))))) (v_uuid env m) =
        dict_get (db_events (ss_db s)) (v_uuid env m)"
      using IH by (simp add: get)
    moreover have "dict_get (db_events (ss_db (fst (snd (close_stale env ts todo (q, s1)))))) (v_uuid env (ss_next s)) =
        Some (presence_of env (pc_camera p) tid st (v_uuid env (ss_next s)))"
      using IH by (simp add: get)
    ultimately show ?thesis unfolding c using IH True by (simp add: e)
  next
    case False
    then have c: "close_stale env ts (e # todo) (p, s) = close_stale env ts todo (p, s)" by (simp add: e)
    show ?thesis unfolding c using Cons.IH [of s p] False by (simp add: e)
  qed
qed

section \<open>A frame\<close>

lemma rest_same_simps:
  "rest_same p q \<Longrightarrow> pc_masks q = pc_masks p \<and> pc_threshold q = pc_threshold p \<and> pc_merge_gap q = pc_merge_gap p \<and>
     pc_camera q = pc_camera p \<and> pc_tracker q = pc_tracker p \<and> pc_active q = pc_active p \<and> same_config p q"
  by (simp add: rest_same_def same_config_def)

lemma rest_same_trans: "rest_same p q \<Longrightarrow> rest_same q r \<Longrightarrow> rest_same p r"
  by (simp add: rest_same_def same_config_def)

lemma live_all_ok_same: "live_all_ok p \<Longrightarrow> same_config p q \<Longrightarrow> pc_active q = pc_active p \<Longrightarrow> live_all_ok q"
  by (simp add: live_all_ok_def same_config_def)

lemma begin_frame_live: "live_all_ok p \<Longrightarrow> live_all_ok (begin_frame env now d p)"
proof -
  assume a: "live_all_ok p"
  have "pc_threshold (begin_frame env now d p) = pc_threshold p" by (simp add: begin_frame_def Let_def)
  then show "live_all_ok (begin_frame env now d p)"
    using a by (auto simp: live_all_ok_def live_ok_def map_rows_def rows_def)
qed

lemma begin_frame_config: "same_config p (begin_frame env now d p)"
proof -
  have "pc_threshold (begin_frame env now d p) = pc_threshold p" "pc_version (begin_frame env now d p) = pc_version p"
    "pc_recognition (begin_frame env now d p) = pc_recognition p" "pc_anpr (begin_frame env now d p) = pc_anpr p"
    "pc_gate (begin_frame env now d p) = pc_gate p"
    by (simp_all add: begin_frame_def refresh_enrolled_def Let_def)
  then show ?thesis by (simp add: same_config_def)
qed

lemma drop_sampling_rest [simp]: "rest_same p (drop_sampling tracks p)" "pc_engine (drop_sampling tracks p) = pc_engine p"
  by (simp_all add: drop_sampling_def Let_def rest_same_def same_config_def)

text \<open>
  The whole frame: what each stage keeps is chained, and the result says which tracks are
  live afterwards.
\<close>

definition live_after :: "real \<Rightarrow> timestamp \<Rightarrow> string set \<Rightarrow> live_track option \<Rightarrow> string \<Rightarrow> live_track option \<Rightarrow> bool" where
  \<comment> \<open>the live state of a track after a frame at \<open>ts\<close> that saw the tracks \<open>seen\<close>\<close>
  "live_after gap ts seen before tid after \<longleftrightarrow>
     (if tid \<in> seen
      then (\<exists>st. after = Some st \<and> lt_last_seen st = ts \<and> lt_first_seen st = first_seen_of ts before)
      else (case before of
              None \<Rightarrow> after = None
            | Some st \<Rightarrow> after = (if total_seconds (ts - lt_last_seen st) \<ge> gap then None else Some (st\<lparr>lt_seen := False\<rparr>))))"

definition closes_ok :: "('f, 'c) ai_env \<Rightarrow> pipeline \<Rightarrow> pipeline \<Rightarrow> sess \<Rightarrow> string list \<Rightarrow> bool" where
  \<comment> \<open>the tracks that are no longer live are exactly those with a presence event among \<open>ids\<close>\<close>
  "closes_ok env p p' s' ids \<longleftrightarrow>
     (\<forall>tid st. dict_get (pc_active p) tid = Some st \<and> dict_get (pc_active p') tid = None \<longrightarrow>
        (\<exists>eid \<in> set ids. dict_get (db_events (ss_db s')) eid = Some (presence_of env (pc_camera p) tid st eid))) \<and>
     (\<forall>eid \<in> set ids. \<exists>tid st. dict_get (pc_active p) tid = Some st \<and> dict_get (pc_active p') tid = None \<and>
        dict_get (db_events (ss_db s')) eid = Some (presence_of env (pc_camera p) tid st eid))"

definition frame_ok :: "timestamp \<Rightarrow> db \<Rightarrow> pipeline \<Rightarrow> pipeline \<Rightarrow> sess \<Rightarrow> string list \<Rightarrow> bool" where
  "frame_ok ts old p p' s' ids \<longleftrightarrow>
     pipeline_ok p' \<and> live_all_ok p' \<and> same_config p p' \<and> db_clean old (pc_masks p) (ss_db s') \<and>
     (\<exists>seen. \<forall>tid. live_after (pc_merge_gap p) ts seen (dict_get (pc_active p) tid) tid (dict_get (pc_active p') tid))"

lemma is_stale_simps:
  "lt_seen st \<Longrightarrow> \<not> is_stale gap ts st"
  "is_stale gap ts (st\<lparr>lt_seen := False\<rparr>) = (total_seconds (ts - lt_last_seen st) \<ge> gap)"
  by (simp_all add: is_stale_def)

lemma live_all_ok_masks:
  "live_all_ok p \<Longrightarrow> \<forall>(tid, st) \<in> set (pc_active p). \<not> is_masked (pc_masks p) (lt_bbox st)"
  by (force simp: live_all_ok_def live_ok_def rows_def)

lemma after_seen_closed:
  assumes seen: "\<And>tid. tid \<notin> S \<Longrightarrow> dict_get act tid = map_option (\<lambda>st. st\<lparr>lt_seen := False\<rparr>) (dict_get before tid)"
    and now: "\<And>tid. tid \<in> S \<Longrightarrow> \<exists>st. dict_get act tid = Some st \<and> lt_seen st \<and> lt_last_seen st = ts \<and>
        lt_first_seen st = first_seen_of ts (dict_get before tid)"
    and closed: "\<And>tid. dict_get after tid =
        (case dict_get act tid of Some st \<Rightarrow> if is_stale gap ts st then None else dict_get act tid | None \<Rightarrow> dict_get act tid)"
  shows "live_after gap ts S (dict_get before tid) tid (dict_get after tid)"
proof (cases "tid \<in> S")
  case True
  from now [OF True] obtain st where st: "dict_get act tid = Some st" "lt_seen st" "lt_last_seen st = ts"
    "lt_first_seen st = first_seen_of ts (dict_get before tid)" by blast
  then show ?thesis using True by (simp add: closed live_after_def is_stale_simps(1))
next
  case False
  then show ?thesis
    by (cases "dict_get before tid") (simp_all add: closed seen live_after_def is_stale_simps(2))
qed

lemma first_seen_of_map [simp]: "first_seen_of ts (map_option (\<lambda>st. st\<lparr>lt_seen := False\<rparr>) x) = first_seen_of ts x"
  by (cases x) (simp_all add: first_seen_of_def)

lemma presence_of_seen [simp]: "presence_of env cam tid (st\<lparr>lt_seen := b\<rparr>) eid = presence_of env cam tid st eid"
  by (simp add: presence_of_def identity_of_def status_of_def recognition_of_def)

lemma closes_after:
  assumes live: "\<And>tid. live_after gap ts S (dict_get (pc_active p) tid) tid (dict_get (pc_active p') tid)"
    and seen: "\<And>tid. tid \<notin> S \<Longrightarrow> dict_get act tid = map_option (\<lambda>st. st\<lparr>lt_seen := False\<rparr>) (dict_get (pc_active p) tid)"
      "\<And>tid. tid \<in> S \<Longrightarrow> \<exists>st. dict_get act tid = Some st \<and> lt_seen st"
    and act: "dict_ok act"
    and ids: "list_all2 (\<lambda>eid e. dict_get (db_events (ss_db s')) eid = Some (presence_of env (pc_camera p) (fst e) (snd e) eid))
         ids (filter (\<lambda>e. is_stale gap ts (snd e)) act)"
  shows "closes_ok env p p' s' ids"
proof -
  have gone: "\<exists>eid \<in> set ids. dict_get (db_events (ss_db s')) eid = Some (presence_of env (pc_camera p) tid st eid)"
    if "dict_get (pc_active p) tid = Some st" "dict_get (pc_active p') tid = None" for tid st
  proof -
    have n: "tid \<notin> S" and g: "total_seconds (ts - lt_last_seen st) \<ge> gap"
      using live [of tid] that by (auto simp: live_after_def split: if_splits)
    have "(tid, st\<lparr>lt_seen := False\<rparr>) \<in> set act" using seen(1) [OF n] that(1) by (auto intro: dict_get_SomeD)
    then have "(tid, st\<lparr>lt_seen := False\<rparr>) \<in> set (filter (\<lambda>e. is_stale gap ts (snd e)) act)"
      using g by (simp add: is_stale_simps(2))
    then obtain i where "i < length ids" "filter (\<lambda>e. is_stale gap ts (snd e)) act ! i = (tid, st\<lparr>lt_seen := False\<rparr>)"
      unfolding in_set_conv_nth list_all2_lengthD [OF ids, symmetric] by blast
    then show ?thesis using list_all2_nthD [OF ids, of i] by (auto intro!: bexI [of _ "ids ! i"])
  qed
  have came: "\<exists>tid st. dict_get (pc_active p) tid = Some st \<and> dict_get (pc_active p') tid = None \<and>
        dict_get (db_events (ss_db s')) eid = Some (presence_of env (pc_camera p) tid st eid)" if "eid \<in> set ids" for eid
  proof -
    obtain i where i: "i < length ids" "ids ! i = eid" using \<open>eid \<in> set ids\<close> by (auto simp: in_set_conv_nth)
    define e where "e = filter (\<lambda>e. is_stale gap ts (snd e)) act ! i"
    have "e \<in> set (filter (\<lambda>e. is_stale gap ts (snd e)) act)"
      unfolding e_def by (rule nth_mem) (use i list_all2_lengthD [OF ids] in simp)
    then have e: "(fst e, snd e) \<in> set act" "is_stale gap ts (snd e)" by auto
    have g: "dict_get act (fst e) = Some (snd e)" using e(1) act by (simp add: dict_get_in)
    have n: "fst e \<notin> S" using seen(2) [of "fst e"] g e(2) by (auto simp: is_stale_def)
    then obtain st where st: "dict_get (pc_active p) (fst e) = Some st" "snd e = st\<lparr>lt_seen := False\<rparr>"
      using seen(1) [OF n] g by (cases "dict_get (pc_active p) (fst e)") auto
    have "dict_get (pc_active p') (fst e) = None"
      using live [of "fst e"] n st e(2) by (simp add: live_after_def is_stale_simps(2))
    then show ?thesis using st list_all2_nthD [OF ids i(1)] by (auto simp: i(2) e_def [symmetric])
  qed
  show ?thesis using gone came by (auto simp: closes_ok_def)
qed

lemma finish_frame_ok:
  fixes env :: "('f, 'c) ai_env" and frame :: 'f and ts :: timestamp
  assumes p: "pipeline_ok p" "live_all_ok p" and tr: "\<forall>tr \<in> set tracks. admitted p tr"
    and s: "db_clean old (pc_masks p) (ss_db s)"
  defines "p4 \<equiv> fold (see_track env frame ts) tracks p"
  defines "ps5 \<equiv> fold (sample_track env ts) tracks (p4, s)"
  defines "p6 \<equiv> drop_sampling tracks (fst ps5)"
  defines "r \<equiv> close_stale env ts (pc_active p6) (p6, snd ps5)"
  shows "pipeline_ok (fst r)" and "live_all_ok (fst r)" and "same_config p (fst r)"
    and "db_clean old (pc_masks p) (ss_db (upsert_tracks (fst r) (fst (snd r))))"
    and "\<And>tid. dict_get (pc_active (fst r)) tid =
       (case dict_get (pc_active p4) tid of
          Some st \<Rightarrow> if is_stale (pc_merge_gap p) ts st then None else dict_get (pc_active p4) tid
        | None \<Rightarrow> dict_get (pc_active p4) tid)"
    and "dict_ok (pc_active p4)"
    and "inj (v_uuid env) \<Longrightarrow> list_all2 (\<lambda>eid e. dict_get (db_events (ss_db (upsert_tracks (fst r) (fst (snd r))))) eid =
           Some (presence_of env (pc_camera p) (fst e) (snd e) eid))
         (snd (snd r)) (filter (\<lambda>e. is_stale (pc_merge_gap p) ts (snd e)) (pc_active p4))"
proof -
  have p4: "seen_ok p p4" using see_tracks_ok [of p tracks env frame ts] p tr by (simp add: p4_def pipeline_ok_def)
  have c4: "same_config p p4" using p4 by (simp add: seen_ok_def)
  have a4: "\<forall>tr \<in> set tracks. admitted p4 tr" using tr c4 by (simp add: admitted_def same_config_def)
  have s4: "db_clean old (pc_masks p4) (ss_db s)" using s c4 by (simp add: same_config_def)
  have ps5: "rest_same p4 (fst ps5)" "pc_engine (fst ps5) = pc_engine p4" "db_clean old (pc_masks p4) (ss_db (snd ps5))"
    using sample_tracks_ok [OF a4 s4, of env ts] by (simp_all add: ps5_def)
  have p6: "rest_same p4 p6" "pc_engine p6 = pc_engine p4"
    using ps5(1,2) rest_same_trans [OF ps5(1) drop_sampling_rest(1)] by (simp_all add: p6_def)
  note q6 = rest_same_simps [OF p6(1)]
  have l6: "live_all_ok p6" using live_all_ok_same [of p4 p6] p4 q6 by (simp add: seen_ok_def)
  have d6: "dict_ok (pc_active p6)" using p4 q6 by (simp add: seen_ok_def)
  have s6: "db_clean old (pc_masks p6) (ss_db (snd ps5))" using ps5(3) q6 by simp
  have r: "closed_ok p6 (fst r)" "db_clean old (pc_masks p6) (ss_db (fst (snd r)))"
    "\<forall>tid. dict_get (pc_active (fst r)) tid = (case dict_get (pc_active p6) tid of
          Some st \<Rightarrow> if is_stale (pc_merge_gap p6) ts st then None else dict_get (pc_active p6) tid
        | None \<Rightarrow> dict_get (pc_active p6) tid)"
    using close_stale_ok [OF l6 d6 s6 live_all_ok_masks [OF l6], of env ts] d6
    by (simp_all add: r_def dict_get_def dict_ok_def dict_keys_def)
  have c: "same_config p (fst r)"
    using same_config_trans [OF c4 same_config_trans [of p4 p6 "fst r"]] q6 r(1) by (simp add: closed_ok_def)
  show "same_config p (fst r)" by (rule c)
  show live: "live_all_ok (fst r)" using r(1) by (simp add: closed_ok_def)
  show "pipeline_ok (fst r)"
    using r(1) p4 p6 p(1) by (simp add: closed_ok_def pipeline_ok_def seen_ok_def rest_same_def)
  have m: "pc_masks p6 = pc_masks p" "pc_masks (fst r) = pc_masks p" "pc_merge_gap p6 = pc_merge_gap p"
    using q6 c4 c by (simp_all add: same_config_def)
  have "db_clean old (pc_masks p) (ss_db (fst (snd r)))" using r(2) m by simp
  moreover have "\<forall>(tid, st) \<in> set (pc_active (fst r)). \<not> is_masked (pc_masks p) (lt_bbox st)"
    using live_all_ok_masks [OF live] m by simp
  ultimately show "db_clean old (pc_masks p) (ss_db (upsert_tracks (fst r) (fst (snd r))))"
    by (simp add: upsert_tracks_def upsert_clean)
  show "dict_get (pc_active (fst r)) tid = (case dict_get (pc_active p4) tid of
          Some st \<Rightarrow> if is_stale (pc_merge_gap p) ts st then None else dict_get (pc_active p4) tid
        | None \<Rightarrow> dict_get (pc_active p4) tid)" for tid
    using r(3) [rule_format, of tid] conjunct1 [OF conjunct2 [OF conjunct2 [OF conjunct2 [OF conjunct2 [OF conjunct2 [OF q6]]]]]]
    by (simp only: m(3))
  show "dict_ok (pc_active p4)" using p4 by (simp add: seen_ok_def)
  have k: "pc_active p6 = pc_active p4" "pc_camera p6 = pc_camera p" using q6 c4 by (simp_all add: same_config_def)
  show "list_all2 (\<lambda>eid e. dict_get (db_events (ss_db (upsert_tracks (fst r) (fst (snd r))))) eid =
           Some (presence_of env (pc_camera p) (fst e) (snd e) eid))
         (snd (snd r)) (filter (\<lambda>e. is_stale (pc_merge_gap p) ts (snd e)) (pc_active p4))" if "inj (v_uuid env)"
    using close_stale_events [OF that, of "snd ps5" ts "pc_active p6" p6] unfolding r_def [symmetric]
    by (simp add: k m(3) upsert_tracks_def)
qed

lemma process_frame_ok:
  fixes env :: "('f, 'c) ai_env"
  assumes p: "pipeline_ok p" "live_all_ok p" and s: "db_clean old (pc_masks p) (ss_db s)"
  obtains p' s' ids where "process_frame env now frame ts (p, s) = Inr (p', s', ids)" and "frame_ok ts old p p' s' ids"
    and "inj (v_uuid env) \<Longrightarrow> closes_ok env p p' s' ids"
proof -
  define p0 where "p0 = begin_frame env now (ss_db s) p"
  have p0: "pipeline_ok p0" "live_all_ok p0" "same_config p p0"
    "pc_active p0 = map_rows (\<lambda>st. st\<lparr>lt_seen := False\<rparr>) (pc_active p)"
    using p begin_frame_ok begin_frame_live begin_frame_config by (simp_all add: p0_def)
  obtain tracks p1 where t: "track_frame env frame ts p0 = Inr (tracks, p1)" and p1: "pipeline_ok p1" "same_config p0 p1"
    "distinct (map tr_id tracks)" "\<forall>tr \<in> set tracks. admitted p0 tr" "pc_active p1 = pc_active p0"
    using track_frame_ok [OF p0(1), of env frame ts] by blast
  have a1: "\<forall>tr \<in> set tracks. admitted p1 tr" using p1(2,4) by (simp add: admitted_def same_config_def)
  have s1: "db_clean old (pc_masks p1) (ss_db s)" using s p0(3) p1(2) by (simp add: same_config_def)
  obtain p2 s2 where r: "run_rules env ts tracks (p1, s) = Inr (p2, s2)" and p2: "pipeline_ok p2" "rest_same p1 p2"
    "db_clean old (pc_masks p1) (ss_db s2)"
    using run_rules_ok [OF p1(1,3) a1 s1, of env ts] by blast
  have a2: "\<forall>tr \<in> set tracks. admitted p2 tr" "db_clean old (pc_masks p2) (ss_db s2)"
    using a1 p2(2,3) rest_same_simps [OF p2(2)] by (simp_all add: admitted_def)
  define p3 where "p3 = fst (run_anpr env frame ts tracks (p2, s2))"
  define s3 where "s3 = snd (run_anpr env frame ts tracks (p2, s2))"
  have p3: "rest_same p2 p3" "pc_engine p3 = pc_engine p2" "db_clean old (pc_masks p2) (ss_db s3)"
    using run_anpr_ok [OF a2, of env frame ts] by (simp_all add: p3_def s3_def)
  note q3 = rest_same_simps [OF rest_same_trans [OF p2(2) p3(1)]]
  have c3: "same_config p p3" using same_config_trans [OF p0(3) same_config_trans [OF p1(2)]] q3 by blast
  have i3: "pipeline_ok p3" using p2(1) p3(2) rest_same_simps [OF p3(1)] by (simp add: pipeline_ok_def)
  have l3: "live_all_ok p3"
    using live_all_ok_same [OF p0(2) same_config_trans [OF p1(2)]] q3 p1(5) by simp
  have a3: "\<forall>tr \<in> set tracks. admitted p3 tr" "db_clean old (pc_masks p3) (ss_db s3)"
    using a2(1) p3(3) rest_same_simps [OF p3(1)] by (simp_all add: admitted_def)
  define p4 where "p4 = fold (see_track env frame ts) tracks p3"
  define ps5 where "ps5 = fold (sample_track env ts) tracks (p4, s3)"
  define r where "r = close_stale env ts (pc_active (drop_sampling tracks (fst ps5))) (drop_sampling tracks (fst ps5), snd ps5)"
  note fin = finish_frame_ok [OF i3 l3 a3, where env = env and ts = ts and frame = frame, folded p4_def, folded ps5_def, folded r_def]
  have out: "process_frame env now frame ts (p, s) = Inr (fst r, upsert_tracks (fst r) (fst (snd r)), snd (snd r))"
    by (simp add: process_frame_def p0_def [symmetric] t r p3_def [symmetric] s3_def [symmetric] case_prod_unfold Let_def
        p4_def [symmetric] ps5_def [symmetric] r_def [symmetric])
  have act: "pc_active p3 = map_rows (\<lambda>st. st\<lparr>lt_seen := False\<rparr>) (pc_active p)" using q3 p1(5) p0(4) by simp
  have gap: "pc_merge_gap p3 = pc_merge_gap p" "pc_masks p3 = pc_masks p" using c3 by (simp_all add: same_config_def)
  have see: "tid \<notin> tr_id ` set tracks \<Longrightarrow> dict_get (pc_active p4) tid = map_option (\<lambda>st. st\<lparr>lt_seen := False\<rparr>) (dict_get (pc_active p) tid)"
    "tid \<in> tr_id ` set tracks \<Longrightarrow> \<exists>st. dict_get (pc_active p4) tid = Some st \<and> lt_seen st \<and> lt_last_seen st = ts \<and>
        lt_first_seen st = first_seen_of ts (dict_get (pc_active p) tid)" for tid
    using see_tracks_ok [OF l3 _ a3(1), of env frame ts] i3 by (auto simp: p4_def act pipeline_ok_def)
  have live: "live_after (pc_merge_gap p) ts (tr_id ` set tracks) (dict_get (pc_active p) tid) tid (dict_get (pc_active (fst r)) tid)" for tid
    using after_seen_closed [OF see fin(5)] by (simp add: gap)
  have "frame_ok ts old p (fst r) (upsert_tracks (fst r) (fst (snd r))) (snd (snd r))"
    unfolding frame_ok_def using fin(1,2,4) same_config_trans [OF c3 fin(3)] live by (auto simp: gap)
  moreover have "closes_ok env p (fst r) (upsert_tracks (fst r) (fst (snd r))) (snd (snd r))" if "inj (v_uuid env)"
  proof (rule closes_after [OF live see(1) _ fin(6)])
    show "\<exists>st. dict_get (pc_active p4) tid = Some st \<and> lt_seen st" if "tid \<in> tr_id ` set tracks" for tid
      using see(2) [OF that] by blast
    show "list_all2 (\<lambda>eid e. dict_get (db_events (ss_db (upsert_tracks (fst r) (fst (snd r))))) eid =
           Some (presence_of env (pc_camera p) (fst e) (snd e) eid))
         (snd (snd r)) (filter (\<lambda>e. is_stale (pc_merge_gap p) ts (snd e)) (pc_active p4))"
      using fin(7) [OF that] c3 by (simp add: same_config_def)
  qed
  ultimately show ?thesis using that [OF out] by blast
qed

section \<open>Runs of frames\<close>

definition frame_run1 ::
  "('f, 'c) ai_env \<Rightarrow> real \<times> 'f \<times> timestamp \<Rightarrow> pipeline \<times> sess \<Rightarrow> pipeline \<times> sess" where
  "frame_run1 env e ps =
     (case process_frame env (fst e) (fst (snd e)) (snd (snd e)) ps of
        Inl err \<Rightarrow> ps | Inr (p', s', ids) \<Rightarrow> (p', s'))"

definition frame_inv :: "db \<Rightarrow> bbox list \<Rightarrow> pipeline \<times> sess \<Rightarrow> bool" where
  "frame_inv old masks ps \<longleftrightarrow> pipeline_ok (fst ps) \<and> live_all_ok (fst ps) \<and> pc_masks (fst ps) = masks \<and>
     db_clean old masks (ss_db (snd ps))"

interpretation frame_runs: safe_run "frame_run1 env" "frame_inv old masks"
proof unfold_locales
  fix ps e assume i: "frame_inv old masks ps"
  obtain p s where ps: "ps = (p, s)" by (cases ps)
  have "pipeline_ok p" "live_all_ok p" "db_clean old (pc_masks p) (ss_db s)" using i by (simp_all add: frame_inv_def ps)
  then obtain p' s' ids where "process_frame env (fst e) (fst (snd e)) (snd (snd e)) (p, s) = Inr (p', s', ids)"
    and "frame_ok (snd (snd e)) old p p' s' ids"
    by (rule process_frame_ok)
  then show "frame_inv old masks (frame_run1 env e ps)"
    using i by (simp add: frame_run1_def ps frame_ok_def frame_inv_def same_config_def)
qed

lemma new_pipeline_inv:
  assumes "new_pipeline camera trk face_chain matcher confidence merge_gap interval version enabled engine anpr masks gate = Inr p"
    and "tracker_ok trk" and "\<forall>e. engine = Some e \<longrightarrow> engine_ok e"
  shows "frame_inv (ss_db s) (pc_masks p) (p, s)"
  using assms
  by (auto simp: new_pipeline_def frame_inv_def db_clean_refl pipeline_ok_def live_all_ok_def rows_def bind_ok_def
      split: sum.splits option.split)



section \<open>Sampled rows\<close>

definition sample_row :: "timestamp \<Rightarrow> pipeline \<Rightarrow> track \<Rightarrow> detection_row" where
  "sample_row ts p tr = \<lparr>dr_camera = pc_camera p, dr_track = Some (tr_id tr), dr_ts = ts, dr_label = tr_label tr,
     dr_confidence = tr_confidence tr, dr_bbox = tr_bbox tr\<rparr>"

definition fresh_from :: "('f, 'c) ai_env \<Rightarrow> sess \<Rightarrow> bool" where
  \<comment> \<open>ids not drawn yet name no row\<close>
  "fresh_from env s \<longleftrightarrow> inj (v_uuid env) \<and> (\<forall>n \<ge> ss_next s. v_uuid env n \<notin> set (dict_keys (db_detections (ss_db s))))"

lemma sample_track_exact:
  assumes "fresh_from env s"
  shows "fresh_from env (snd (sample_track env ts tr (p, s))) \<and>
    map snd (db_detections (ss_db (snd (sample_track env ts tr (p, s))))) =
      map snd (db_detections (ss_db s)) @ (if sample_due ts tr p then [sample_row ts p tr] else []) \<and>
    dict_get (pc_det_ts (fst (sample_track env ts tr (p, s)))) =
      (dict_get (pc_det_ts p))(tr_id tr := (if sample_due ts tr p then Some ts else dict_get (pc_det_ts p) (tr_id tr))) \<and>
    dict_get (pc_det_box (fst (sample_track env ts tr (p, s)))) =
      (dict_get (pc_det_box p))(tr_id tr := (if sample_due ts tr p then Some (tr_bbox tr) else dict_get (pc_det_box p) (tr_id tr))) \<and>
    pc_camera (fst (sample_track env ts tr (p, s))) = pc_camera p"
proof (cases "sample_due ts tr p")
  case True
  have f: "v_uuid env (ss_next s) \<notin> set (dict_keys (db_detections (ss_db s)))" using assms by (simp add: fresh_from_def)
  have "v_uuid env n \<noteq> v_uuid env (ss_next s)" if "Suc (ss_next s) \<le> n" for n
    using that assms injD [of "v_uuid env" n "ss_next s"] by (auto simp: fresh_from_def)
  then have "fresh_from env (snd (sample_track env ts tr (p, s)))"
    using assms True by (auto simp: sample_track_def draw_id_def Let_def fresh_from_def)
  then show ?thesis
    using True by (auto simp: sample_track_def draw_id_def Let_def dict_set_fresh [OF f] sample_row_def fun_eq_iff)
next
  case False
  then show ?thesis using assms by (simp add: sample_track_def)
qed

lemma sample_due_other: "dict_get (pc_det_ts q) (tr_id tr) = dict_get (pc_det_ts p) (tr_id tr) \<Longrightarrow>
  dict_get (pc_det_box q) (tr_id tr) = dict_get (pc_det_box p) (tr_id tr) \<Longrightarrow> sample_due ts tr q = sample_due ts tr p"
  by (simp add: sample_due_def)

lemma sample_frame:
  assumes "fresh_from env s" and "distinct (map tr_id tracks)"
  shows "map snd (db_detections (ss_db (snd (fold (sample_track env ts) tracks (p, s))))) =
      map snd (db_detections (ss_db s)) @ map (sample_row ts p) (filter (\<lambda>tr. sample_due ts tr p) tracks) \<and>
    (\<forall>tr \<in> set tracks. sample_due ts tr p \<longrightarrow>
       dict_get (pc_det_ts (fst (fold (sample_track env ts) tracks (p, s)))) (tr_id tr) = Some ts \<and>
       dict_get (pc_det_box (fst (fold (sample_track env ts) tracks (p, s)))) (tr_id tr) = Some (tr_bbox tr)) \<and>
    (\<forall>tid. (\<forall>tr \<in> set tracks. sample_due ts tr p \<longrightarrow> tr_id tr \<noteq> tid) \<longrightarrow>
       dict_get (pc_det_ts (fst (fold (sample_track env ts) tracks (p, s)))) tid = dict_get (pc_det_ts p) tid \<and>
       dict_get (pc_det_box (fst (fold (sample_track env ts) tracks (p, s)))) tid = dict_get (pc_det_box p) tid)"
  using assms
proof (induction tracks arbitrary: p s)
  case Nil
  then show ?case by simp
next
  case (Cons tr tracks)
  define q where "q = fst (sample_track env ts tr (p, s))"
  define s1 where "s1 = snd (sample_track env ts tr (p, s))"
  note step = sample_track_exact [OF Cons.prems(1), of ts tr p, folded q_def s1_def]
  have d: "distinct (map tr_id tracks)" "\<forall>u \<in> set tracks. tr_id u \<noteq> tr_id tr" using Cons.prems(2) by (auto simp: image_iff)
  have due: "sample_due ts u q = sample_due ts u p" if "u \<in> set tracks" for u
    using that d(2) step by (intro sample_due_other) auto
  have row: "sample_row ts q = sample_row ts p" using step by (simp add: sample_row_def fun_eq_iff)
  have "filter (\<lambda>tr. sample_due ts tr q) tracks = filter (\<lambda>tr. sample_due ts tr p) tracks"
    using due by (intro filter_cong) auto
  note IH = Cons.IH [OF conjunct1 [OF step] d(1), of q, unfolded this row]
  have f: "fold (sample_track env ts) (tr # tracks) (p, s) = fold (sample_track env ts) tracks (q, s1)"
    by (simp add: q_def s1_def)
  show ?case unfolding f using IH step d(2) due by auto
qed

text \<open>
  C3. What a frame samples: of its tracks, exactly those that are new to the sampler, have
  moved more than one hundredth of the frame in some coordinate since their last row, or had
  that row two seconds ago or more; one row each, in the order of the tracks, with the box of
  this frame. The sampler then remembers this frame for them and the old rows for the others.
\<close>

theorem sampling_exact:
  assumes "fresh_from env s" and "distinct (map tr_id tracks)"
  shows "map snd (db_detections (ss_db (snd (fold (sample_track env ts) tracks (p, s))))) =
      map snd (db_detections (ss_db s)) @ map (sample_row ts p) (filter (\<lambda>tr. sample_due ts tr p) tracks) \<and>
    (\<forall>tr \<in> set tracks. sample_due ts tr p \<longrightarrow>
       dict_get (pc_det_ts (fst (fold (sample_track env ts) tracks (p, s)))) (tr_id tr) = Some ts \<and>
       dict_get (pc_det_box (fst (fold (sample_track env ts) tracks (p, s)))) (tr_id tr) = Some (tr_bbox tr)) \<and>
    (\<forall>tid. (\<forall>tr \<in> set tracks. sample_due ts tr p \<longrightarrow> tr_id tr \<noteq> tid) \<longrightarrow>
       dict_get (pc_det_ts (fst (fold (sample_track env ts) tracks (p, s)))) tid = dict_get (pc_det_ts p) tid \<and>
       dict_get (pc_det_box (fst (fold (sample_track env ts) tracks (p, s)))) tid = dict_get (pc_det_box p) tid) \<and>
    (\<forall>tr. sample_due ts tr p =
       (if dict_get (pc_det_box p) (tr_id tr) = None \<or> dict_get (pc_det_ts p) (tr_id tr) = None then True
        else 2000000 \<le> ts - the (dict_get (pc_det_ts p) (tr_id tr)) \<or>
          (case (tr_bbox tr, the (dict_get (pc_det_box p) (tr_id tr))) of ((x, y, w, h), (lx, ly, lw, lh)) \<Rightarrow>
             1/100 < Max {\<bar>x - lx\<bar>, \<bar>y - ly\<bar>, \<bar>w - lw\<bar>, \<bar>h - lh\<bar>})))"
proof -
  have m: "box_moved b l \<longleftrightarrow> (case (b, l) of ((x, y, w, h), (lx, ly, lw, lh)) \<Rightarrow>
      1/100 < Max {\<bar>x - lx\<bar>, \<bar>y - ly\<bar>, \<bar>w - lw\<bar>, \<bar>h - lh\<bar>})" for b l :: bbox
    by (cases b; cases l) (simp add: box_moved_def less_max_iff_disj)
  have t: "total_seconds d \<ge> 2 \<longleftrightarrow> 2000000 \<le> d" for d
    by (simp add: total_seconds_def field_simps)
  have "sample_due ts tr p =
       (if dict_get (pc_det_box p) (tr_id tr) = None \<or> dict_get (pc_det_ts p) (tr_id tr) = None then True
        else 2000000 \<le> ts - the (dict_get (pc_det_ts p) (tr_id tr)) \<or>
          box_moved (tr_bbox tr) (the (dict_get (pc_det_box p) (tr_id tr))))" for tr
    by (auto simp: sample_due_def t split: option.splits)
  then show ?thesis using sample_frame [OF assms, of ts p] unfolding m by blast
qed

end
