(* ===== verification/Pipeline_Runs.thy ===== *)
theory Pipeline_Runs
  imports Pipeline_Safety
begin

text \<open>
  The pipeline over time: plate events of a track are spaced and differ, the enrolment cache
  follows the stored embeddings except where the watermark check skips it, and the frame
  theorems applied to a concrete camera.
\<close>

section \<open>Number plates over time\<close>

text \<open>The plate events of a sequence of ANPR passes: track, time and plate.\<close>

definition anpr_emits :: "('f, 'c) ai_env \<Rightarrow> 'f \<times> timestamp \<times> track \<Rightarrow> pipeline \<times> sess \<Rightarrow> (string \<times> timestamp \<times> string) list" where
  "anpr_emits env x ps =
     (let ps' = anpr_track env (fst x) (fst (snd x)) (snd (snd x)) ps; tid = tr_id (snd (snd x)) in
      if length (pc_last_analytic (fst ps')) > length (pc_last_analytic (fst ps))
      then [(tid, fst (snd x), fst (the (dict_get (pc_anpr_last (fst ps')) tid)))] else [])"

fun anpr_trace :: "('f, 'c) ai_env \<Rightarrow> ('f \<times> timestamp \<times> track) list \<Rightarrow> pipeline \<times> sess \<Rightarrow> (string \<times> timestamp \<times> string) list" where
  "anpr_trace env [] ps = []"
| "anpr_trace env (x # xs) ps =
     anpr_emits env x ps @ anpr_trace env xs (anpr_track env (fst x) (fst (snd x)) (snd (snd x)) ps)"

definition spaced :: "string \<times> timestamp \<times> string \<Rightarrow> string \<times> timestamp \<times> string \<Rightarrow> bool" where
  "spaced a b \<longleftrightarrow> snd (snd a) \<noteq> snd (snd b) \<and> total_seconds (fst (snd b) - fst (snd a)) \<ge> 5"

lemma spaced_trans_time:
  assumes "snd (snd b) \<noteq> pl" and "total_seconds (fst (snd b) - t1) \<ge> 5" and "total_seconds (t1 - t0) \<ge> 5"
  shows "spaced (tid, t0, pl) b"
  using assms by (simp add: spaced_def total_seconds_def)

text \<open>What one pass does to the memory of a track, and when it emits.\<close>

lemma anpr_track_memory:
  fixes env :: "('f, 'c) ai_env"
  defines "p' \<equiv> \<lambda>x p s. fst (anpr_track env (fst x) (fst (snd x)) (snd (snd x)) (p, s))"
  shows "(anpr_emits env x (p, s) = [] \<and>
      (dict_get (pc_anpr_last (p' x p s)) tid = dict_get (pc_anpr_last p) tid \<or>
       (\<exists>pl t0. dict_get (pc_anpr_last p) tid = Some (pl, t0) \<and>
          dict_get (pc_anpr_last (p' x p s)) tid = Some (pl, fst (snd x)) \<and> total_seconds (fst (snd x) - t0) \<ge> 5))) \<or>
    (tr_id (snd (snd x)) \<noteq> tid \<and> dict_get (pc_anpr_last (p' x p s)) tid = dict_get (pc_anpr_last p) tid \<and>
       (\<exists>e. anpr_emits env x (p, s) = [e] \<and> fst e \<noteq> tid)) \<or>
    (\<exists>pl. anpr_emits env x (p, s) = [(tid, fst (snd x), pl)] \<and> dict_get (pc_anpr_last (p' x p s)) tid = Some (pl, fst (snd x)) \<and>
       (\<forall>pl0 t0. dict_get (pc_anpr_last p) tid = Some (pl0, t0) \<longrightarrow> pl0 \<noteq> pl \<and> total_seconds (fst (snd x) - t0) \<ge> 5))"
proof -
  obtain frame ts tr where x: "x = (frame, ts, tr)" by (cases x)
  show ?thesis
    by (cases "tr_label tr = ''vehicle''"; cases "dict_get (pc_anpr_last p) (tr_id tr)";
        cases "v_plate env (v_crop env frame (tr_bbox tr)) ts"; cases "tid = tr_id tr")
      (auto simp: p'_def x anpr_track_def anpr_emits_def Let_def case_prod_unfold)
qed

lemma anpr_trace_spaced:
  "successively spaced (filter (\<lambda>e. fst e = tid) (anpr_trace env xs (p, s))) \<and>
   (\<forall>pl t0. dict_get (pc_anpr_last p) tid = Some (pl, t0) \<longrightarrow>
      (case filter (\<lambda>e. fst e = tid) (anpr_trace env xs (p, s)) of [] \<Rightarrow> True | e # _ \<Rightarrow> spaced (tid, t0, pl) e))"
proof (induction xs arbitrary: p s)
  case Nil
  then show ?case by simp
next
  case (Cons x xs)
  define q where "q = fst (anpr_track env (fst x) (fst (snd x)) (snd (snd x)) (p, s))"
  define s1 where "s1 = snd (anpr_track env (fst x) (fst (snd x)) (snd (snd x)) (p, s))"
  define rest where "rest = filter (\<lambda>e. fst e = tid) (anpr_trace env xs (q, s1))"
  have IH: "successively spaced rest"
    "\<And>pl t0. dict_get (pc_anpr_last q) tid = Some (pl, t0) \<Longrightarrow> (case rest of [] \<Rightarrow> True | e # _ \<Rightarrow> spaced (tid, t0, pl) e)"
    using Cons.IH [of q s1] by (simp_all add: rest_def)
  have f: "filter (\<lambda>e. fst e = tid) (anpr_trace env (x # xs) (p, s)) =
      filter (\<lambda>e. fst e = tid) (anpr_emits env x (p, s)) @ rest"
    by (simp add: rest_def q_def s1_def)
  consider (same) "anpr_emits env x (p, s) = [] \<or> (\<exists>e. anpr_emits env x (p, s) = [e] \<and> fst e \<noteq> tid)"
      "dict_get (pc_anpr_last q) tid = dict_get (pc_anpr_last p) tid"
    | (reread) pl t0 where "anpr_emits env x (p, s) = []" "dict_get (pc_anpr_last p) tid = Some (pl, t0)"
      "dict_get (pc_anpr_last q) tid = Some (pl, fst (snd x))" "total_seconds (fst (snd x) - t0) \<ge> 5"
    | (emit) pl where "anpr_emits env x (p, s) = [(tid, fst (snd x), pl)]"
      "dict_get (pc_anpr_last q) tid = Some (pl, fst (snd x))"
      "\<forall>pl0 t0. dict_get (pc_anpr_last p) tid = Some (pl0, t0) \<longrightarrow> pl0 \<noteq> pl \<and> total_seconds (fst (snd x) - t0) \<ge> 5"
    using anpr_track_memory [where env = env and x = x and p = p and s = s and tid = tid, folded q_def] by blast
  then show ?case
  proof cases
    case same
    then have "filter (\<lambda>e. fst e = tid) (anpr_emits env x (p, s)) = []" by auto
    then show ?thesis unfolding f using IH same(2) by simp
  next
    case reread
    have "case rest of [] \<Rightarrow> True | e # _ \<Rightarrow> spaced (tid, t0, pl) e"
    proof (cases rest)
      case (Cons e es)
      then have "spaced (tid, fst (snd x), pl) e" using IH(2) [OF reread(3)] by simp
      then show ?thesis
        unfolding Cons list.case using reread(4) by (intro spaced_trans_time [of e pl "fst (snd x)"]) (auto simp: spaced_def)
    qed simp
    then show ?thesis unfolding f using IH(1) reread(1,2) by simp
  next
    case emit
    then show ?thesis unfolding f using IH(1) IH(2) [OF emit(2)]
      by (cases rest) (simp_all add: spaced_def)
  qed
qed

text \<open>
  Plate events do not flood: however the passes of the ANPR stage interleave the tracks,
  two consecutive plate events of one track name different plates and lie at least five
  seconds apart.
\<close>

theorem plate_events_spaced:
  "successively (\<lambda>(i, t1, plate1) (j, t2, plate2). plate1 \<noteq> plate2 \<and> total_seconds (t2 - t1) \<ge> 5)
     (filter (\<lambda>(i, t, plate). i = tid) (anpr_trace env passes (p, s)))"
proof -
  have "spaced = (\<lambda>(i, t1, plate1) (j, t2, plate2). plate1 \<noteq> plate2 \<and> total_seconds (t2 - t1) \<ge> 5)"
    by (auto simp: fun_eq_iff spaced_def)
  moreover have "(\<lambda>e. fst e = tid) = (\<lambda>(i :: string, t :: timestamp, plate :: string). i = tid)" by (auto simp: fun_eq_iff)
  ultimately show ?thesis using anpr_trace_spaced [of tid env passes p s] by simp
qed

section \<open>The enrolment cache\<close>

lemma latest_enrolment_subset:
  assumes "set rs \<subseteq> set qs" and "rs \<noteq> []"
  shows "\<exists>t w. latest_enrolment rs = Some t \<and> latest_enrolment qs = Some w \<and> t \<le> w"
  using assms by (auto simp: latest_enrolment_def intro!: Max_mono)

text \<open>
  C38. The cache after an erasure. A pipeline that loaded its enrolments and refreshes after
  a person was deleted keeps the deleted person's embeddings as long as any other embedding
  is stored, because the watermark of the remaining rows is not newer; the cache is emptied
  only when none remains.
\<close>

theorem erased_enrolment_stays:
  assumes "pc_enrolled p = []" and "decrypt_rows env (map snd (db_embeddings d)) \<noteq> []"
  shows "pc_enrolled (refresh_enrolled env later (map snd (db_embeddings (delete_person_rows pid d)))
      (refresh_enrolled env now (map snd (db_embeddings d)) p)) =
    (if db_embeddings (delete_person_rows pid d) = [] then [] else decrypt_rows env (map snd (db_embeddings d)))"
proof -
  define p1 where "p1 = refresh_enrolled env now (map snd (db_embeddings d)) p"
  define left where "left = map snd (db_embeddings (delete_person_rows pid d))"
  have p1: "pc_enrolled p1 = decrypt_rows env (map snd (db_embeddings d))"
    "pc_watermark p1 = latest_enrolment (map snd (db_embeddings d))"
    using assms(1) by (simp_all add: p1_def refresh_enrolled_def Let_def)
  have "pc_enrolled (refresh_enrolled env later left p1) = (if left = [] then [] else decrypt_rows env (map snd (db_embeddings d)))"
  proof (cases "left = []")
    case True
    then show ?thesis by (simp add: refresh_enrolled_def latest_enrolment_def decrypt_rows_def)
  next
    case False
    have "set left \<subseteq> set (map snd (db_embeddings d))"
      by (auto simp: left_def delete_person_rows_def purge_def)
    from latest_enrolment_subset [OF this False] show ?thesis
      using assms(2) False p1 by (auto simp: refresh_enrolled_def)
  qed
  then show ?thesis by (simp add: left_def p1_def)
qed

section \<open>A concrete camera\<close>

text \<open>
  The environment of the examples: every frame is a list of detections, faces and plates are
  constant, encryption is a prefix, and the ids are numbered.
\<close>

definition lobby_env :: "(detection list, unit) ai_env" where
  "lobby_env = \<lparr>v_detect = \<lambda>f ts. f, v_grid = \<lambda>f. None, v_face = \<lambda>f b. None, v_embed = \<lambda>f b. [1],
     v_crop = \<lambda>f b. (), v_plate = \<lambda>c ts. Some \<lparr>pl_plate = ''AB123'', pl_confidence = 1, pl_rect = (0, 0, 1, 1)\<rparr>,
     v_encrypt = \<lambda>x. x, v_decrypt_vec = \<lambda>x. Some [1], v_hash16 = \<lambda>x. x, v_uuid = \<lambda>n. replicate n CHR ''i''\<rparr>"

definition lobby_session :: sess where
  "lobby_session = \<lparr>ss_db = empty_db, ss_next = 0, ss_puts = []\<rparr>"

definition lobby_masks :: "json list" where
  "lobby_masks = [JObj [(''x'', JNum 0), (''y'', JNum 0), (''w'', JNum (1/2)), (''h'', JNum (1/2))]]"

definition lobby_camera :: "py_error + pipeline" where
  "lobby_camera = new_pipeline ''cam'' (new_tracker (3/10) 30 (1/2)) False None (45/100) 10 2 ''v0'' False None True lobby_masks False"

definition hidden :: detection where
  "hidden = \<lparr>d_label = ''person'', d_confidence = 9/10, d_bbox = (1/10, 1/10, 1/10, 1/10)\<rparr>"

definition shown :: detection where
  "shown = \<lparr>d_label = ''person'', d_confidence = 9/10, d_bbox = (7/10, 7/10, 1/10, 1/10)\<rparr>"

lemma lobby_inj: "inj (v_uuid lobby_env)"
  by (auto simp: lobby_env_def inj_def dest: arg_cong [of _ _ length])

definition lobby_run :: "(real \<times> detection list \<times> timestamp) list \<Rightarrow> pipeline \<times> sess" where
  "lobby_run frames = fold (frame_run1 lobby_env) frames (projr lobby_camera, lobby_session)"

lemma sqrt_code [code]:
  \<comment> \<open>square roots are not computed by the examples, save the exact ones\<close>
  "sqrt x = (if x = 0 then 0 else if x = 1 then 1 else Code.abort (STR ''sqrt'') (\<lambda>_. sqrt x))"
  by simp

lemma lobby_camera_built: "lobby_camera = Inr (projr lobby_camera)"
proof -
  have "\<not> isl lobby_camera" by code_simp
  then show ?thesis by simp
qed

lemma lobby_pipeline:
  "new_pipeline ''cam'' (new_tracker (3/10) 30 (1/2)) False None (45/100) 10 2 ''v0'' False None True lobby_masks False =
   Inr (projr lobby_camera)"
  using lobby_camera_built unfolding lobby_camera_def .


lemma lobby_ok: "pipeline_ok (projr lobby_camera)" "live_all_ok (projr lobby_camera)"
  using new_pipeline_inv [OF lobby_pipeline new_tracker_ok, of lobby_session] by (simp_all add: frame_inv_def)


definition shown_track :: track where
  "shown_track = \<lparr>tr_id = ''t1'', tr_bbox = (7/10, 7/10, 1/10, 1/10), tr_confidence = 9/10,
     tr_center = (3/4, 3/4), tr_trajectory = [], tr_label = ''person''\<rparr>"

theorem sampling_exact_witness:
  "map dr_track (map snd (db_detections (ss_db (snd (fold (sample_track lobby_env 0) [shown_track] (projr lobby_camera, lobby_session))))))
     = [Some ''t1'']"
proof -
  have "fresh_from lobby_env lobby_session"
    using lobby_inj by (simp add: fresh_from_def lobby_session_def empty_db_def)
  moreover have "sample_due 0 shown_track (projr lobby_camera)" by code_simp
  moreover have "distinct (map tr_id [shown_track])" by simp
  ultimately have "map snd (db_detections (ss_db (snd (fold (sample_track lobby_env 0) [shown_track] (projr lobby_camera, lobby_session)))))
      = map snd (db_detections (ss_db lobby_session)) @ map (sample_row 0 (projr lobby_camera)) [shown_track]"
    using conjunct1 [OF sampling_exact [of lobby_env lobby_session "[shown_track]" 0 "projr lobby_camera"]] by simp
  then show ?thesis
    by (simp only:) (simp add: sample_row_def shown_track_def lobby_session_def empty_db_def)
qed

definition two_people :: db where
  "two_people = empty_db\<lparr>db_embeddings :=
     [(''e1'', ann_embedding), (''e2'', ann_embedding\<lparr>em_person := ''p2''\<rparr>)]\<rparr>"

theorem erased_enrolment_stays_witness:
  "map fst (pc_enrolled (refresh_enrolled lobby_env 60 (map snd (db_embeddings (delete_person_rows ''p1'' two_people)))
      (refresh_enrolled lobby_env 0 (map snd (db_embeddings two_people)) (projr lobby_camera)))) = [''p1'', ''p2'']"
proof -
  have e: "pc_enrolled (projr lobby_camera) = []" by code_simp
  have d: "decrypt_rows lobby_env (map snd (db_embeddings two_people)) =
      [(''p1'', [1], em_model_version ann_embedding), (''p2'', [1], em_model_version ann_embedding)]"
    by (simp add: decrypt_rows_def two_people_def lobby_env_def ann_embedding_def)
  have n: "db_embeddings (delete_person_rows ''p1'' two_people) \<noteq> []"
    by (simp add: delete_person_rows_def two_people_def purge_def)
  show ?thesis
    using erased_enrolment_stays [OF e, of lobby_env two_people 60 "''p1''" 0] d n by simp
qed

end
