(* ===== verification/Analytics.thy ===== *)
theory Analytics
  imports Data_Model
begin

text \<open>
  \<open>packages/domain/analytics.py\<close>: counting, occupancy, dwell time, event breakdown and heat
  maps over the stored tracks and events. A query is a filter over a table; SQL leaves the
  order of its rows open, the model takes the table's. Timestamps are absolute, so the
  source's removal of time zones before comparing has no counterpart.
\<close>

section \<open>Queries\<close>

definition people_counting :: "string \<Rightarrow> timestamp \<Rightarrow> timestamp \<Rightarrow> db \<Rightarrow> nat" where
  "people_counting cam start stop d =
     length (filter (\<lambda>(tid, t). tw_camera t = cam \<and> tw_first_seen t \<ge> start \<and> tw_last_seen t \<le> stop \<and>
                                tw_status t \<noteq> ''object'') (db_tracks d))"

definition tracks_between :: "string \<Rightarrow> timestamp \<Rightarrow> timestamp \<Rightarrow> db \<Rightarrow> track_row list" where
  "tracks_between cam start stop d =
     filter (\<lambda>t. tw_camera t = cam \<and> tw_last_seen t \<ge> start \<and> tw_first_seen t \<le> stop) (map snd (db_tracks d))"

definition bucket_count :: "(timestamp \<times> timestamp) list \<Rightarrow> timestamp \<Rightarrow> timestamp \<Rightarrow> nat" where
  "bucket_count rs cur nxt = length (filter (\<lambda>(fs, ls). ls \<ge> cur \<and> fs < nxt) rs)"

partial_function (option) buckets :: "int \<Rightarrow> (timestamp \<times> timestamp) list \<Rightarrow> timestamp \<Rightarrow> timestamp \<Rightarrow> (timestamp \<times> nat) list option" where
  \<comment> \<open>the \<open>while cur < end_n\<close> loop; \<open>None\<close> when it does not end\<close>
  [code]: "buckets step rs stop cur =
     (if cur < stop
      then Option.bind (buckets step rs stop (cur + step)) (\<lambda>rest. Some ((cur, bucket_count rs cur (cur + step)) # rest))
      else Some [])"

definition occupancy_trend ::
  "string \<Rightarrow> timestamp \<Rightarrow> timestamp \<Rightarrow> int \<Rightarrow> db \<Rightarrow> (timestamp \<times> nat) list option" where
  "occupancy_trend cam start stop bucket_min d =
     buckets (bucket_min * 60 * 1000000) (map (\<lambda>t. (tw_first_seen t, tw_last_seen t)) (tracks_between cam start stop d)) stop start"

definition dwell_time :: "string \<Rightarrow> timestamp \<Rightarrow> timestamp \<Rightarrow> db \<Rightarrow> real" where
  "dwell_time cam start stop d =
     (let rs = filter (\<lambda>e. ev_camera e = cam \<and> ev_type e = ''presence'' \<and> ev_start e \<ge> start \<and> ev_end e \<le> stop)
                 (map snd (db_events d)) in
      if rs = [] then 0
      else sum_list (map (\<lambda>e. total_seconds (ev_end e - ev_start e)) rs) / of_nat (length rs))"

definition event_type_breakdown :: "string option \<Rightarrow> timestamp \<Rightarrow> timestamp \<Rightarrow> db \<Rightarrow> (string \<times> nat) list" where
  "event_type_breakdown cam start stop d =
     (let rs = filter (\<lambda>e. ev_start e \<ge> start \<and> ev_end e \<le> stop \<and>
                 (case cam of None \<Rightarrow> True | Some c \<Rightarrow> c = [] \<or> ev_camera e = c)) (map snd (db_events d));
          types = map ev_type rs
      in map (\<lambda>ty. (ty, count_list types ty)) (remdups types))"

section \<open>Heat maps\<close>

definition cell_index :: "nat \<Rightarrow> real \<Rightarrow> int" where
  \<comment> \<open>\<open>min(n - 1, max(0, int(c * n)))\<close>\<close>
  "cell_index n c = min (int n - 1) (max 0 (py_trunc (c * of_nat n)))"

definition bump :: "nat list list \<Rightarrow> int \<Rightarrow> int \<Rightarrow> py_error + nat list list" where
  \<comment> \<open>\<open>matrix[iy][ix] += 1\<close>; an index of -1 into an empty list raises\<close>
  "bump m iy ix =
     (if iy < 0 \<or> ix < 0 then Inl IndexError
      else Inr (m[nat iy := (m ! nat iy)[nat ix := Suc (m ! nat iy ! nat ix)]]))"

fun add_points :: "nat \<Rightarrow> nat \<Rightarrow> point list \<Rightarrow> nat list list \<Rightarrow> py_error + nat list list" where
  "add_points rs cs [] m = Inr m"
| "add_points rs cs ((x, y) # pts) m = bind_ok (bump m (cell_index rs y) (cell_index cs x)) (add_points rs cs pts)"

definition heatmap_grid ::
  "string \<Rightarrow> timestamp \<Rightarrow> timestamp \<Rightarrow> nat \<times> nat \<Rightarrow> db \<Rightarrow> py_error + nat list list" where
  "heatmap_grid cam start stop grid d =
     (let (rs, cs) = grid;
          ts = take 20000 (tracks_between cam start stop d)
      in add_points rs cs (concat (map tw_trajectory ts)) (replicate rs (replicate cs 0)))"

section \<open>Occupancy\<close>

lemma buckets_end: "\<not> cur < stop \<Longrightarrow> buckets step rs stop cur = Some []"
  by (subst buckets.simps) simp

text \<open>The loop returns for a positive step, and its buckets tile the window.\<close>

lemma buckets_exact:
  assumes "0 < step"
  shows "\<exists>bs. buckets step rs stop cur = Some bs \<and>
    (\<forall>k < length bs. bs ! k = (cur + int k * step, bucket_count rs (cur + int k * step) (cur + int (Suc k) * step))) \<and>
    stop \<le> cur + int (length bs) * step \<and> (bs \<noteq> [] \<longrightarrow> cur + (int (length bs) - 1) * step < stop)"
proof (induction "nat (stop - cur)" arbitrary: cur rule: less_induct)
  case less
  show ?case
  proof (cases "cur < stop")
    case False
    then show ?thesis by (simp add: buckets_end)
  next
    case True
    with assms have "nat (stop - (cur + step)) < nat (stop - cur)" by simp
    from less [OF this] obtain bs where bs: "buckets step rs stop (cur + step) = Some bs"
      "\<forall>k < length bs. bs ! k = (cur + step + int k * step, bucket_count rs (cur + step + int k * step) (cur + step + int (Suc k) * step))"
      "stop \<le> cur + step + int (length bs) * step" "bs \<noteq> [] \<longrightarrow> cur + step + (int (length bs) - 1) * step < stop"
      by blast
    let ?bs = "(cur, bucket_count rs cur (cur + step)) # bs"
    have eq: "buckets step rs stop cur = Some ?bs" using True bs(1) by (subst buckets.simps) simp
    have "?bs ! k = (cur + int k * step, bucket_count rs (cur + int k * step) (cur + int (Suc k) * step))"
      if "k < length ?bs" for k
      using that bs(2) by (cases k) (simp_all add: algebra_simps)
    moreover have "cur + (int (length ?bs) - 1) * step < stop"
      using bs(4) True by (cases "bs = []") (simp_all add: algebra_simps)
    ultimately show ?thesis
      unfolding eq using bs(3) by (intro exI [of _ ?bs]) (simp add: algebra_simps)
  qed
qed

lemma buckets_diverge:
  assumes "step \<le> 0" and "cur < stop"
  shows "buckets step rs stop cur = None"
proof -
  have "cur < stop \<longrightarrow> buckets step rs stop cur \<noteq> Some bs" for bs
  proof (induction bs arbitrary: cur)
    case Nil
    then show ?case by (subst buckets.simps) (auto split: bind_splits)
  next
    case (Cons b bs)
    show ?case
    proof
      assume "cur < stop"
      then have "buckets step rs stop (cur + step) \<noteq> Some bs" using Cons assms(1) by auto
      with \<open>cur < stop\<close> show "buckets step rs stop cur \<noteq> Some (b # bs)"
        by (subst buckets.simps) (auto split: bind_splits)
    qed
  qed
  with assms(2) show ?thesis by (cases "buckets step rs stop cur") auto
qed

text \<open>
  The occupancy trend. For a positive bucket length the loop ends, its buckets are
  consecutive, start at the window's start and cover it up to the end and not further than
  one bucket, and each holds the number of tracks present in it; every track in view inside
  the window is counted. For any other bucket length and a non-empty window it never ends.
\<close>

theorem occupancy_trend_exact:
  assumes "start < stop"
  shows "let step = bucket_min * 60 * 1000000 in if 0 < bucket_min
    then (\<exists>bs. occupancy_trend cam start stop bucket_min d = Some bs \<and>
      (\<forall>k < length bs. bs ! k = (start + int k * step,
         length (filter (\<lambda>t. tw_last_seen t \<ge> start + int k * step \<and> tw_first_seen t < start + int (Suc k) * step)
           (tracks_between cam start stop d)))) \<and>
      stop \<le> start + int (length bs) * step \<and> start + (int (length bs) - 1) * step < stop \<and>
      (\<forall>t \<in> set (tracks_between cam start stop d). tw_first_seen t \<le> tw_last_seen t \<and> tw_first_seen t < stop \<longrightarrow>
         (\<exists>k < length bs. 0 < snd (bs ! k))))
    else occupancy_trend cam start stop bucket_min d = None"
proof (cases "0 < bucket_min")
  case False
  then show ?thesis using buckets_diverge [of "bucket_min * 60 * 1000000" start stop] assms(1) by (simp add: occupancy_trend_def)
next
  case True
  define step where "step = bucket_min * 60 * 1000000"
  let ?T = "tracks_between cam start stop d"
  have p: "0 < step" using True by (simp add: step_def)
  have cnt: "bucket_count (map (\<lambda>t. (tw_first_seen t, tw_last_seen t)) ts) a b =
      length (filter (\<lambda>t. tw_last_seen t \<ge> a \<and> tw_first_seen t < b) ts)" for ts a b
    by (induction ts) (simp_all add: bucket_count_def)
  obtain bs where bs: "occupancy_trend cam start stop bucket_min d = Some bs"
    "\<forall>k < length bs. bs ! k = (start + int k * step,
         length (filter (\<lambda>t. tw_last_seen t \<ge> start + int k * step \<and> tw_first_seen t < start + int (Suc k) * step) ?T))"
    "stop \<le> start + int (length bs) * step" "bs \<noteq> [] \<longrightarrow> start + (int (length bs) - 1) * step < stop"
    using buckets_exact [OF p, of "map (\<lambda>t. (tw_first_seen t, tw_last_seen t)) ?T" stop start]
    by (auto simp: occupancy_trend_def step_def cnt)
  have ne: "bs \<noteq> []" using bs(3) assms(1) by auto
  have "\<exists>k < length bs. 0 < snd (bs ! k)"
    if t: "t \<in> set ?T" "tw_first_seen t \<le> tw_last_seen t" "tw_first_seen t < stop" for t
  proof -
    define a where "a = max start (tw_first_seen t)"
    have a: "start \<le> a" "a < stop" "a \<le> tw_last_seen t" "tw_first_seen t \<le> a"
      using t assms(1) by (auto simp: a_def tracks_between_def)
    define k where "k = nat ((a - start) div step)"
    have ik: "int k = (a - start) div step" using a(1) p by (simp add: k_def pos_imp_zdiv_nonneg_iff)
    have qr: "int k * step + (a - start) mod step = a - start" unfolding ik by (rule div_mult_mod_eq)
    have sk: "int (Suc k) * step = int k * step + step" by (simp add: algebra_simps)
    have k: "int k * step \<le> a - start" "a - start < int (Suc k) * step"
      using qr sk pos_mod_bound [OF p, of "a - start"] pos_mod_sign [OF p, of "a - start"] by linarith+
    have "int k * step < int (length bs) * step" using k(1) a(2) bs(3) by linarith
    then have l: "k < length bs" using p by simp
    define S where "S = filter (\<lambda>t. tw_last_seen t \<ge> start + int k * step \<and> tw_first_seen t < start + int (Suc k) * step) ?T"
    have "t \<in> set S" using t(1) a k by (simp add: S_def)
    then have "0 < length S" by (cases S) auto
    moreover have "snd (bs ! k) = length S" using bs(2) l unfolding S_def by simp
    ultimately have "0 < snd (bs ! k)" by simp
    then show ?thesis using l by blast
  qed
  then show ?thesis using True bs ne unfolding Let_def step_def [symmetric] by auto
qed

theorem occupancy_trend_exact_witness:
  "occupancy_trend ''c'' 0 1 0 empty_db = None \<and>
   (\<exists>bs. occupancy_trend ''c'' 0 1 1 empty_db = Some bs)"
  using occupancy_trend_exact [of 0 1 0 "''c''" empty_db] occupancy_trend_exact [of 0 1 1 "''c''" empty_db] by auto

section \<open>Heat maps\<close>

definition shaped :: "nat \<Rightarrow> nat \<Rightarrow> nat list list \<Rightarrow> bool" where
  "shaped rs cs m \<longleftrightarrow> length m = rs \<and> list_all (\<lambda>r. length r = cs) m"

definition mass :: "nat list list \<Rightarrow> nat" where
  "mass m = sum_list (map sum_list m)"

lemma cell_index_bounds: "0 < n \<Longrightarrow> 0 \<le> cell_index n c \<and> cell_index n c < int n"
  by (auto simp: cell_index_def)

lemma sum_list_bump: "i < length xs \<Longrightarrow> sum_list (xs[i := Suc (xs ! i)]) = Suc (sum_list xs)"
  by (induction xs arbitrary: i) (auto simp: nth_Cons split: nat.splits)

lemma bump_total:
  assumes "shaped rs cs m" and "0 \<le> iy" "iy < int rs" and "0 \<le> ix" "ix < int cs"
  shows "\<exists>m'. bump m iy ix = Inr m' \<and> shaped rs cs m' \<and> mass m' = Suc (mass m)"
proof -
  define i where "i = nat iy"
  have i: "i < length m" "length (m ! i) = cs" "nat ix < length (m ! i)"
    using assms by (auto simp: i_def shaped_def list_all_length nat_less_iff)
  define row where "row = (m ! i)[nat ix := Suc (m ! i ! nat ix)]"
  have "sum_list (map sum_list (m[i := row])) = Suc (sum_list (map sum_list m))"
    using sum_list_bump [of i "map sum_list m"] sum_list_bump [OF i(3)] i(1) by (simp add: row_def map_update)
  moreover have "shaped rs cs (m[i := row])"
    using assms(1) i by (auto simp: shaped_def list_all_length row_def nth_list_update)
  ultimately show ?thesis using assms(2,4) by (simp add: bump_def mass_def i_def [symmetric] row_def)
qed

lemma add_points_total:
  assumes "0 < rs" and "0 < cs" and "shaped rs cs m"
  shows "\<exists>m'. add_points rs cs pts m = Inr m' \<and> shaped rs cs m' \<and> mass m' = mass m + length pts"
  using assms(3)
proof (induction pts arbitrary: m)
  case (Cons p pts)
  obtain x y where p: "p = (x, y)" by (cases p)
  obtain m1 where m1: "bump m (cell_index rs y) (cell_index cs x) = Inr m1" "shaped rs cs m1" "mass m1 = Suc (mass m)"
    using bump_total [OF Cons.prems] cell_index_bounds [OF assms(1)] cell_index_bounds [OF assms(2)] by blast
  from Cons.IH [OF m1(2)] m1 show ?case by (auto simp: p)
qed simp

text \<open>
  A heat map of at least one cell is a matrix of the requested shape that counts every
  trajectory point of the tracks of the window (the first 20000) exactly once, wherever the
  point lies; without cells, the first point raises.
\<close>

theorem heatmap_counts_every_point:
  "let pts = concat (map tw_trajectory (take 20000 (tracks_between cam start stop d))) in
   if 0 < rs \<and> 0 < cs
   then (\<exists>m. heatmap_grid cam start stop (rs, cs) d = Inr m \<and> shaped rs cs m \<and> mass m = length pts)
   else heatmap_grid cam start stop (rs, cs) d = (if pts = [] then Inr (replicate rs (replicate cs 0)) else Inl IndexError)"
proof -
  let ?pts = "concat (map tw_trajectory (take 20000 (tracks_between cam start stop d)))"
  have z: "shaped rs cs (replicate rs (replicate cs 0))" "mass (replicate rs (replicate cs 0)) = 0"
    by (simp_all add: shaped_def mass_def list_all_length sum_list_replicate)
  have e: "cell_index 0 c < 0" for c by (simp add: cell_index_def)
  have "add_points rs cs pts m = (if pts = [] then Inr m else Inl IndexError)" if "\<not> (0 < rs \<and> 0 < cs)" for pts m
    using that by (cases pts) (auto simp: bump_def e)
  then show ?thesis
    using add_points_total [of rs cs "replicate rs (replicate cs 0)" ?pts] z by (simp add: heatmap_grid_def Let_def)
qed

end
