(* ===== verification/Access.thy ===== *)
theory Access
  imports Prelude "HOL-Library.Word"
begin

text \<open>
  \<open>packages/security\<close>, first part: roles and permissions (\<open>rbac.py\<close>), the token-bucket rate
  limiter (\<open>ratelimit.py\<close>), one-time codes (\<open>mfa.py\<close>) and the response headers
  (\<open>headers.py\<close>). The HMAC is a parameter, its bytes are machine words.
\<close>

unbundle bit_operations_syntax

section \<open>Roles and permissions\<close>

definition permissions :: "string list" where
  "permissions = [''camera:view'', ''camera:configure'', ''video:view'', ''video:export'', ''person:view'',
     ''person:enroll'', ''person:delete'', ''events:view'', ''events:export'', ''system:configure'',
     ''audit:view'', ''user:manage'', ''rules:configure'', ''alerts:manage'', ''analytics:view'', ''live:view'']"

definition role_permissions :: "(string, string list) dict" where
  "role_permissions =
     [(''ADMIN'', permissions),
      (''SECURITY_OPERATOR'',
        [''camera:view'', ''camera:configure'', ''video:view'', ''video:export'', ''person:view'', ''person:enroll'',
         ''person:delete'', ''events:view'', ''events:export'', ''system:configure'', ''audit:view'',
         ''rules:configure'', ''alerts:manage'', ''analytics:view'', ''live:view'']),
      (''ANALYST'',
        [''camera:view'', ''video:view'', ''person:view'', ''events:view'', ''events:export'', ''audit:view'',
         ''analytics:view'', ''live:view'']),
      (''VIEWER'',
        [''camera:view'', ''video:view'', ''person:view'', ''events:view'', ''analytics:view'', ''live:view''])]"

definition valid_roles :: "string list" where
  "valid_roles = dict_keys role_permissions"

definition permissions_for_role :: "string \<Rightarrow> py_error + string set" where
  "permissions_for_role r = (case dict_get role_permissions r of None \<Rightarrow> Inl ValueError | Some ps \<Rightarrow> Inr (set ps))"

fun effective_from :: "string set \<Rightarrow> string list \<Rightarrow> py_error + string set" where
  "effective_from out [] = Inr out"
| "effective_from out (r # rs) = bind_ok (permissions_for_role r) (\<lambda>ps. effective_from (out \<union> ps) rs)"

definition effective_permissions :: "string list \<Rightarrow> py_error + string set" where
  "effective_permissions roles = effective_from {} roles"

section \<open>Rate limiter\<close>

type_synonym limiter = "(string \<times> string, real \<times> real) dict"

definition allow :: "real \<Rightarrow> string \<Rightarrow> string \<Rightarrow> real \<Rightarrow> int \<Rightarrow> limiter \<Rightarrow> bool \<times> limiter" where
  "allow now key bucket rate capacity bks =
     (case dict_get bks (key, bucket) of
        None \<Rightarrow> (True, dict_set (key, bucket) (of_int capacity - 1, now) bks)
      | Some (level0, before) \<Rightarrow>
          (let level = min (of_int capacity) (level0 + (now - before) * rate) in
           if level < 1 then (False, dict_set (key, bucket) (level, now) bks)
           else (True, dict_set (key, bucket) (level - 1, now) bks)))"

definition reset_bucket :: "string \<Rightarrow> string \<Rightarrow> limiter \<Rightarrow> limiter" where
  "reset_bucket key bucket bks = dict_del (key, bucket) bks"

definition clear_limiter :: "limiter \<Rightarrow> limiter" where
  "clear_limiter bks = []"

section \<open>One-time codes\<close>

definition digits_const :: nat where "digits_const = 6"

definition step_const :: nat where "step_const = 30"

definition be32 :: "8 word list \<Rightarrow> 32 word" where
  \<comment> \<open>\<open>struct.unpack(">I", four bytes)\<close>\<close>
  "be32 bs = foldl (\<lambda>acc b. push_bit 8 acc OR ucast b) 0 bs"

definition hotp :: "('k \<Rightarrow> 64 word \<Rightarrow> 8 word list) \<Rightarrow> 'k \<Rightarrow> int \<Rightarrow> py_error + nat" where
  \<comment> \<open>\<open>struct.pack(">Q", counter)\<close> rejects a counter that is not an unsigned 64-bit number\<close>
  "hotp hmac secret counter =
     (if counter < 0 \<or> counter \<ge> 2 ^ 64 then Inl StructError
      else (let h = hmac secret (word_of_int counter);
                offset = unat (last h AND 0x0F);
                bin = be32 (take 4 (drop offset h)) AND 0x7FFFFFFF
            in Inr (unat bin mod 10 ^ digits_const)))"

definition code_text :: "nat \<Rightarrow> string" where
  "code_text n = zfill digits_const (str_nat n)"

fun match_codes :: "('k \<Rightarrow> 64 word \<Rightarrow> 8 word list) \<Rightarrow> 'k \<Rightarrow> string \<Rightarrow> int list \<Rightarrow> py_error + bool" where
  "match_codes hmac secret code [] = Inr False"
| "match_codes hmac secret code (c # cs) =
     bind_ok (hotp hmac secret c) (\<lambda>n. if code_text n = code then Inr True else match_codes hmac secret code cs)"

definition totp_counter :: "real \<Rightarrow> int" where
  "totp_counter now = py_trunc (now / of_nat step_const)"

definition verify_code ::
  "('k \<Rightarrow> 64 word \<Rightarrow> 8 word list) \<Rightarrow> 'k \<Rightarrow> string option \<Rightarrow> int \<Rightarrow> real \<Rightarrow> py_error + bool" where
  "verify_code hmac secret code window now =
     (let counter = totp_counter now;
          c = strip (case code of None \<Rightarrow> [] | Some s \<Rightarrow> s) in
      if c = [] \<or> \<not> list_all is_digit c \<or> length c \<noteq> digits_const then Inr False
      else match_codes hmac secret c [counter - window..counter + window])"

definition current_code :: "('k \<Rightarrow> 64 word \<Rightarrow> 8 word list) \<Rightarrow> 'k \<Rightarrow> real option \<Rightarrow> real \<Rightarrow> py_error + string" where
  "current_code hmac secret w now =
     (let t = (case w of None \<Rightarrow> now | Some x \<Rightarrow> if x = 0 then now else x) in
      bind_ok (hotp hmac secret (totp_counter t)) (\<lambda>n. Inr (code_text n)))"

section \<open>Response headers\<close>

definition default_headers :: "(string \<times> string) list" where
  "default_headers =
     [(''X-Content-Type-Options'', ''nosniff''),
      (''X-Frame-Options'', ''DENY''),
      (''Referrer-Policy'', ''no-referrer''),
      (''Cross-Origin-Opener-Policy'', ''same-origin''),
      (''Cross-Origin-Resource-Policy'', ''same-origin''),
      (''Permissions-Policy'', ''geolocation=(), microphone=(), camera=()''),
      (''Content-Security-Policy'',
        ''default-src 'self'; img-src 'self' data:; media-src 'self'; script-src 'self'; style-src 'self'; connect-src 'self'; frame-ancestors 'none'; base-uri 'self'; form-action '' @ [CHR 0x27] @ ''self'' @ [CHR 0x27])]"

type_synonym headers = "(string \<times> string) list"

definition lower :: "string \<Rightarrow> string" where
  "lower s = map lower_char s"

definition has_header :: "string \<Rightarrow> headers \<Rightarrow> bool" where
  \<comment> \<open>header names are compared without case\<close>
  "has_header k hs = list_ex (\<lambda>(n, v). lower n = lower k) hs"

definition set_default :: "string \<times> string \<Rightarrow> headers \<Rightarrow> headers" where
  "set_default kv hs = (if has_header (fst kv) hs then hs else hs @ [kv])"

definition secure_headers :: "bool \<Rightarrow> headers \<Rightarrow> headers" where
  "secure_headers hsts hs =
     (let h1 = fold set_default default_headers hs;
          h2 = (if hsts then set_default (''Strict-Transport-Security'', ''max-age=63072000; includeSubDomains; preload'') h1 else h1)
      in filter (\<lambda>(n, v). lower n \<noteq> ''server'') h2)"

section \<open>Roles: correctness\<close>

lemma effective_from_ok:
  "(\<forall>r \<in> set roles. r \<in> set valid_roles) \<Longrightarrow>
   effective_from out roles = Inr (out \<union> (\<Union>r \<in> set roles. set (the (dict_get role_permissions r))))"
proof (induction roles arbitrary: out)
  case (Cons r roles)
  have "dict_get role_permissions r \<noteq> None"
    using Cons.prems dict_get_iff_keys [of role_permissions r] by (simp add: valid_roles_def)
  then show ?case using Cons by (auto simp: permissions_for_role_def)
qed simp

lemma effective_from_bad: "(\<exists>r \<in> set roles. r \<notin> set valid_roles) \<Longrightarrow> effective_from out roles = Inl ValueError"
proof (induction roles arbitrary: out)
  case (Cons r roles)
  show ?case
  proof (cases "dict_get role_permissions r")
    case None
    then show ?thesis by (simp add: permissions_for_role_def)
  next
    case (Some ps)
    then have "r \<in> set valid_roles" by (metis dict_get_iff_keys option.distinct(1) valid_roles_def)
    with Cons Some show ?thesis by (auto simp: permissions_for_role_def)
  qed
qed simp

lemma role_hierarchy:
  "set (the (dict_get role_permissions ''VIEWER'')) \<subset> set (the (dict_get role_permissions ''ANALYST''))"
  "set (the (dict_get role_permissions ''ANALYST'')) \<subset> set (the (dict_get role_permissions ''SECURITY_OPERATOR''))"
  "set (the (dict_get role_permissions ''SECURITY_OPERATOR'')) = set permissions - {''user:manage''}"
  "set (the (dict_get role_permissions ''ADMIN'')) = set permissions"
  by code_simp+

lemma user_manage_role:
  "r \<in> set valid_roles \<Longrightarrow> ''user:manage'' \<in> set (the (dict_get role_permissions r)) \<longleftrightarrow> r = ''ADMIN''"
  by (auto simp: valid_roles_def role_permissions_def dict_keys_def dict_get_def permissions_def)

text \<open>
  The roles form a chain, viewer below analyst below operator below administrator; the
  operator has every permission but user management. A list of roles grants the union of
  what its roles grant, user management exactly when the administrator is among them, and
  one unknown role makes the whole list an error.
\<close>

theorem effective_permissions_exact:
  "set (the (dict_get role_permissions ''VIEWER'')) \<subset> set (the (dict_get role_permissions ''ANALYST'')) \<and>
   set (the (dict_get role_permissions ''ANALYST'')) \<subset> set (the (dict_get role_permissions ''SECURITY_OPERATOR'')) \<and>
   set (the (dict_get role_permissions ''SECURITY_OPERATOR'')) = set permissions - {''user:manage''} \<and>
   set (the (dict_get role_permissions ''ADMIN'')) = set permissions \<and>
   (if set roles \<subseteq> set valid_roles
    then (\<exists>ps. effective_permissions roles = Inr ps \<and> ps = (\<Union>r \<in> set roles. set (the (dict_get role_permissions r))) \<and>
            (''user:manage'' \<in> ps \<longleftrightarrow> ''ADMIN'' \<in> set roles))
    else effective_permissions roles = Inl ValueError)"
proof -
  have "''user:manage'' \<in> (\<Union>r \<in> set roles. set (the (dict_get role_permissions r))) \<longleftrightarrow> ''ADMIN'' \<in> set roles"
    if "set roles \<subseteq> set valid_roles"
    using user_manage_role [OF subsetD [OF that]] by blast
  moreover have "effective_permissions roles = Inr (\<Union>r \<in> set roles. set (the (dict_get role_permissions r)))"
    if "set roles \<subseteq> set valid_roles"
    using that effective_from_ok [of roles "{}"] by (auto simp: effective_permissions_def)
  moreover have "effective_permissions roles = Inl ValueError" if "\<not> set roles \<subseteq> set valid_roles"
    using that effective_from_bad [of roles "{}"] by (auto simp: effective_permissions_def)
  ultimately show ?thesis using role_hierarchy by auto
qed

theorem effective_permissions_exact_witness:
  "effective_permissions [''VIEWER'', ''ADMIN''] = Inr (set permissions) \<and>
   effective_permissions [''VIEWER'', ''ROOT''] = Inl ValueError"
proof -
  have v: "set [''VIEWER'', ''ADMIN''] \<subseteq> set valid_roles" "\<not> set [''VIEWER'', ''ROOT''] \<subseteq> set valid_roles"
    by code_simp+
  have u: "(\<Union>r \<in> set [''VIEWER'', ''ADMIN'']. set (the (dict_get role_permissions r))) = set permissions"
    by code_simp
  note good = effective_permissions_exact [of "[''VIEWER'', ''ADMIN'']", THEN conjunct2, THEN conjunct2, THEN conjunct2, THEN conjunct2,
      unfolded if_P [OF v(1)] u]
  note bad = effective_permissions_exact [of "[''VIEWER'', ''ROOT'']", THEN conjunct2, THEN conjunct2, THEN conjunct2, THEN conjunct2,
      unfolded if_not_P [OF v(2)]]
  from good obtain ps where e: "effective_permissions [''VIEWER'', ''ADMIN''] = Inr ps" and p: "ps = set permissions" by (elim exE conjE)
  show ?thesis by (rule conjI [OF e [unfolded p] bad])
qed

section \<open>Rate limiter: correctness\<close>

text \<open>The answers to a sequence of requests (time, key, bucket), and the state after it.\<close>

fun serve :: "real \<Rightarrow> int \<Rightarrow> (real \<times> string \<times> string) list \<Rightarrow> limiter \<Rightarrow> bool list \<times> limiter" where
  "serve rate capacity [] bks = ([], bks)"
| "serve rate capacity ((now, key, bucket) # rs) bks =
     (let (ok, b1) = allow now key bucket rate capacity bks; (oks, b2) = serve rate capacity rs b1 in (ok # oks, b2))"

definition admitted_for :: "string \<times> string \<Rightarrow> (real \<times> string \<times> string) list \<Rightarrow> bool list \<Rightarrow> nat" where
  "admitted_for k rs oks = length (filter (\<lambda>(r, ok). ok \<and> snd r = k) (zip rs oks))"

lemma allow_other: "k \<noteq> (key, bucket) \<Longrightarrow> dict_get (snd (allow now key bucket rate capacity bks)) k = dict_get bks k"
  by (auto simp: allow_def Let_def split: option.splits prod.splits)

lemma serve_budget:
  assumes "0 \<le> rate" and "1 \<le> capacity"
    and "sorted (map fst rs)" and "\<forall>r \<in> set rs. fst r \<le> t_end"
    and "dict_get bks k = Some (level, t0)" and "0 \<le> level" and "level \<le> of_int capacity"
    and "\<forall>r \<in> set rs. t0 \<le> fst r"
  shows "of_nat (admitted_for k rs (fst (serve rate capacity rs bks))) \<le> level + rate * (max t0 t_end - t0)"
  using assms(3-8)
proof (induction rs arbitrary: bks level t0)
  case Nil
  then show ?case using assms(1) by (simp add: admitted_for_def)
next
  case (Cons r rs)
  obtain now key bucket where r: "r = (now, key, bucket)" by (cases r)
  define b1 where "b1 = snd (allow now key bucket rate capacity bks)"
  define oks where "oks = fst (serve rate capacity rs b1)"
  have sorted: "sorted (map fst rs)" "\<forall>q \<in> set rs. now \<le> fst q" "now \<le> t_end" "t0 \<le> now" "\<forall>q \<in> set rs. fst q \<le> t_end"
    using Cons.prems(1,2,6) by (auto simp: r)
  have f: "fst (serve rate capacity (r # rs) bks) = fst (allow now key bucket rate capacity bks) # oks"
    by (simp add: r oks_def b1_def case_prod_unfold Let_def)
  show ?case
  proof (cases "k = (key, bucket)")
    case False
    then have g: "dict_get b1 k = Some (level, t0)" using Cons.prems(3) by (simp add: b1_def allow_other)
    have "admitted_for k (r # rs) (fst (serve rate capacity (r # rs) bks)) = admitted_for k rs oks"
      unfolding f using False by (auto simp: admitted_for_def r)
    then show ?thesis
      using Cons.IH [OF sorted(1,5) g Cons.prems(4,5)] Cons.prems(6) by (simp add: oks_def)
  next
    case True
    define l where "l = min (of_int capacity) (level + (now - t0) * rate)"
    have gain: "0 \<le> (now - t0) * rate" using assms(1) sorted(4) by simp
    then have l: "0 \<le> l" "l \<le> of_int capacity" "l \<le> level + rate * (now - t0)"
      using Cons.prems(4) assms(2) by (auto simp: l_def min_def algebra_simps)
    have m: "max now t_end = t_end" "max t0 t_end = t_end" using sorted(3,4) by auto
    show ?thesis
    proof (cases "l < 1")
      case reject: True
      have b1: "dict_get b1 k = Some (l, now)" "\<not> fst (allow now key bucket rate capacity bks)"
        using Cons.prems(3) reject True by (simp_all add: b1_def allow_def l_def Let_def)
      have "admitted_for k (r # rs) (fst (serve rate capacity (r # rs) bks)) = admitted_for k rs oks"
        unfolding f using b1(2) by (auto simp: admitted_for_def)
      then show ?thesis
        using Cons.IH [OF sorted(1,5) b1(1) l(1,2) sorted(2)] l(3) m by (simp add: oks_def algebra_simps)
    next
      case False
      have b1: "dict_get b1 k = Some (l - 1, now)" "fst (allow now key bucket rate capacity bks)"
        using Cons.prems(3) False True by (simp_all add: b1_def allow_def l_def Let_def)
      have "admitted_for k (r # rs) (fst (serve rate capacity (r # rs) bks)) = Suc (admitted_for k rs oks)"
        unfolding f using b1(2) True by (auto simp: admitted_for_def r)
      then show ?thesis
        using Cons.IH [OF sorted(1,5) b1(1) _ _ sorted(2)] l False m by (simp add: oks_def algebra_simps)
    qed
  qed
qed

lemma serve_budget_fresh:
  assumes "0 \<le> rate" and "1 \<le> capacity"
    and "sorted (map fst rs)" and "\<forall>r \<in> set rs. t0 \<le> fst r \<and> fst r \<le> t_end" and "t0 \<le> t_end"
    and "dict_get bks k = None"
  shows "of_nat (admitted_for k rs (fst (serve rate capacity rs bks))) \<le> of_int capacity + rate * (t_end - t0)"
  using assms(3,4,6)
proof (induction rs arbitrary: bks)
  case Nil
  then show ?case using assms(1,2,5) by (simp add: admitted_for_def)
next
  case (Cons r rs)
  obtain now key bucket where r: "r = (now, key, bucket)" by (cases r)
  define b1 where "b1 = snd (allow now key bucket rate capacity bks)"
  define oks where "oks = fst (serve rate capacity rs b1)"
  have f: "fst (serve rate capacity (r # rs) bks) = fst (allow now key bucket rate capacity bks) # oks"
    by (simp add: r oks_def b1_def case_prod_unfold Let_def)
  have rest: "sorted (map fst rs)" "\<forall>r \<in> set rs. t0 \<le> fst r \<and> fst r \<le> t_end" "\<forall>q \<in> set rs. now \<le> fst q" "t0 \<le> now" "now \<le> t_end"
    using Cons.prems(1,2) by (auto simp: r)
  show ?case
  proof (cases "k = (key, bucket)")
    case False
    then have g: "dict_get b1 k = None" using Cons.prems(3) by (simp add: b1_def allow_other)
    have "admitted_for k (r # rs) (fst (serve rate capacity (r # rs) bks)) = admitted_for k rs oks"
      unfolding f using False by (auto simp: admitted_for_def r)
    then show ?thesis using Cons.IH [OF rest(1,2) g] by (simp add: oks_def)
  next
    case True
    have g: "dict_get b1 k = Some (of_int capacity - 1, now)" "fst (allow now key bucket rate capacity bks)"
      using Cons.prems(3) True by (simp_all add: b1_def allow_def)
    have "admitted_for k (r # rs) (fst (serve rate capacity (r # rs) bks)) = Suc (admitted_for k rs oks)"
      unfolding f using g(2) True by (auto simp: admitted_for_def r)
    moreover have "\<forall>q \<in> set rs. fst q \<le> t_end" using rest(2) by blast
    then have "of_nat (admitted_for k rs oks) \<le> of_int capacity - 1 + rate * (max now t_end - now)"
      unfolding oks_def using assms(2) by (intro serve_budget [OF assms(1,2) rest(1) _ g(1) _ _ rest(3)]) simp_all
    moreover have "rate * (t_end - now) \<le> rate * (t_end - t0)" using assms(1) rest(4) by (intro mult_left_mono) simp_all
    ultimately show ?thesis using rest(5) by simp
  qed
qed



section \<open>One-time codes: correctness\<close>

lemma str_nat_length: "n < 10 ^ Suc k \<Longrightarrow> length (str_nat n) \<le> Suc k"
proof (induction k arbitrary: n)
  case 0
  then show ?case by (subst str_nat.simps) simp
next
  case (Suc k)
  show ?case
  proof (cases "n < 10")
    case True
    then show ?thesis by (subst str_nat.simps) simp
  next
    case False
    have "n div 10 < 10 ^ Suc k" using Suc.prems by (simp add: less_mult_imp_div_less)
    from Suc.IH [OF this] False show ?thesis by (subst str_nat.simps) simp
  qed
qed

lemma digit_not_space: "is_digit c \<Longrightarrow> \<not> is_space c"
  by (auto simp: is_digit_def is_space_def)

lemma strip_digits: "list_all is_digit s \<Longrightarrow> strip s = s"
proof -
  assume a: "list_all is_digit s"
  have "lstrip t = t" if "list_all is_digit t" for t
    using that by (cases t) (auto simp: lstrip_def digit_not_space)
  then show ?thesis using a by (simp add: strip_def)
qed

lemma code_text_ok:
  assumes "n < 10 ^ digits_const"
  shows "length (code_text n) = digits_const \<and> list_all is_digit (code_text n) \<and> strip (code_text n) = code_text n"
proof -
  have "length (str_nat n) \<le> 6" using str_nat_length [of n 5] assms by (simp add: digits_const_def)
  then have "length (code_text n) = digits_const" by (simp add: code_text_def zfill_def digits_const_def)
  moreover have "list_all is_digit (code_text n)"
    using str_nat_digits [of n] by (auto simp: code_text_def zfill_def list_all_iff)
  ultimately show ?thesis by (simp add: strip_digits)
qed

lemma code_text_inj: "m < 10 ^ digits_const \<Longrightarrow> n < 10 ^ digits_const \<Longrightarrow> code_text m = code_text n \<Longrightarrow> m = n"
proof -
  have "nat_of_digits (code_text k) = k" for k
  proof -
    have "nat_of_digits (replicate j CHR ''0'' @ s) = nat_of_digits s" for j s
      by (induction j) (simp_all add: nat_of_digits_def char_digit_def)
    then show ?thesis by (simp add: code_text_def zfill_def)
  qed
  then show "code_text m = code_text n \<Longrightarrow> m = n" by metis
qed

lemma hotp_valid:
  "0 \<le> c \<Longrightarrow> c < 2 ^ 64 \<Longrightarrow> \<exists>n. hotp hmac secret c = Inr n \<and> n < 10 ^ digits_const"
  by (simp add: hotp_def Let_def)

lemma match_codes_ok:
  assumes "\<forall>c \<in> set cs. 0 \<le> c \<and> c < 2 ^ 64"
  shows "match_codes hmac secret code cs = Inr (\<exists>c \<in> set cs. \<exists>n. hotp hmac secret c = Inr n \<and> code_text n = code)"
  using assms
proof (induction cs)
  case (Cons c cs)
  obtain n where "hotp hmac secret c = Inr n" using hotp_valid [of c hmac secret] Cons.prems by auto
  then show ?case using Cons by auto
qed simp

text \<open>
  One-time codes, away from the ends of the counter range. A submitted code is accepted
  exactly when, stripped, it is the six-digit text of the code of a counter within the
  window; the code shown at one time is accepted at any time whose counter is within the
  window. A clock in the first window of the epoch makes the check raise.
\<close>

theorem one_time_codes:
  assumes "totp_counter now + window < 2 ^ 64" and "0 \<le> window"
  shows "(window \<le> totp_counter now \<longrightarrow>
      verify_code hmac secret (Some code) window now =
        Inr (\<exists>c n. \<bar>c - totp_counter now\<bar> \<le> window \<and> hotp hmac secret c = Inr n \<and> code_text n = strip code)) \<and>
    (window \<le> totp_counter now \<longrightarrow> shown \<noteq> 0 \<longrightarrow> \<bar>totp_counter shown - totp_counter now\<bar> \<le> window \<longrightarrow>
      (\<exists>c. current_code hmac secret (Some shown) now = Inr c \<and> verify_code hmac secret (Some c) window now = Inr True)) \<and>
    (totp_counter now < window \<longrightarrow> length code = 6 \<longrightarrow> list_all is_digit code \<longrightarrow>
      verify_code hmac secret (Some code) window now = Inl StructError)"
proof -
  let ?k = "totp_counter now"
  have exact: "verify_code hmac secret (Some code) window now =
        Inr (\<exists>c n. \<bar>c - ?k\<bar> \<le> window \<and> hotp hmac secret c = Inr n \<and> code_text n = strip code)"
    if w: "window \<le> ?k" for code
  proof -
    have valid: "\<forall>c \<in> set [?k - window..?k + window]. 0 \<le> c \<and> c < 2 ^ 64" using w assms by auto
    have mem: "c \<in> set [?k - window..?k + window] \<longleftrightarrow> \<bar>c - ?k\<bar> \<le> window" for c by auto
    have eq: "(\<exists>c \<in> set [?k - window..?k + window]. \<exists>n. hotp hmac secret c = Inr n \<and> code_text n = strip code) \<longleftrightarrow>
        (\<exists>c n. \<bar>c - ?k\<bar> \<le> window \<and> hotp hmac secret c = Inr n \<and> code_text n = strip code)"
      unfolding Bex_def mem by blast
    show ?thesis
    proof (cases "strip code = [] \<or> \<not> list_all is_digit (strip code) \<or> length (strip code) \<noteq> digits_const")
      case True
      have "code_text n \<noteq> strip code" if "hotp hmac secret c = Inr n" "0 \<le> c" "c < 2 ^ 64" for c n
        using that hotp_valid [of c hmac secret] code_text_ok [of n] True by (auto simp: digits_const_def)
      then have "\<not> (\<exists>c \<in> set [?k - window..?k + window]. \<exists>n. hotp hmac secret c = Inr n \<and> code_text n = strip code)"
        using valid by blast
      then show ?thesis using True unfolding eq by (simp add: verify_code_def Let_def)
    next
      case False
      then show ?thesis using match_codes_ok [OF valid, of hmac secret "strip code", unfolded eq] by (simp add: verify_code_def Let_def)
    qed
  qed
  moreover have "\<exists>c. current_code hmac secret (Some shown) now = Inr c \<and> verify_code hmac secret (Some c) window now = Inr True"
    if w: "window \<le> ?k" "shown \<noteq> 0" "\<bar>totp_counter shown - ?k\<bar> \<le> window"
  proof -
    have "0 \<le> totp_counter shown" "totp_counter shown < 2 ^ 64" using w assms by auto
    from hotp_valid [OF this, of hmac secret]
    obtain n where n: "hotp hmac secret (totp_counter shown) = Inr n" "n < 10 ^ digits_const" by (elim exE conjE)
    have "current_code hmac secret (Some shown) now = Inr (code_text n)" using w(2) n(1) by (simp add: current_code_def)
    moreover have "verify_code hmac secret (Some (code_text n)) window now = Inr True"
      using exact [OF w(1), of "code_text n"] code_text_ok [OF n(2)] n(1) w(3) by auto
    ultimately show ?thesis by blast
  qed
  moreover have "verify_code hmac secret (Some code) window now = Inl StructError"
    if w: "?k < window" "length code = 6" "list_all is_digit code"
  proof -
    have "[?k - window..?k + window] = (?k - window) # [?k - window + 1..?k + window]"
      using w(1) assms(2) by (simp add: upto_rec1)
    moreover have "hotp hmac secret (?k - window) = Inl StructError" using w(1) by (simp add: hotp_def)
    moreover have "code \<noteq> []" using w(2) by auto
    ultimately show ?thesis
      using w(2,3) by (simp add: verify_code_def Let_def strip_digits digits_const_def)
  qed
  ultimately show ?thesis by blast
qed

definition echo_hmac :: "unit \<Rightarrow> 64 word \<Rightarrow> 8 word list" where
  "echo_hmac secret c = replicate 20 (ucast c)"

theorem one_time_codes_witness:
  "(\<exists>c. current_code echo_hmac () (Some 59) 61 = Inr c \<and> verify_code echo_hmac () (Some c) 1 61 = Inr True) \<and>
   verify_code echo_hmac () (Some ''123456'') 1 5 = Inl StructError"
proof -
  have k: "totp_counter 61 = 2" "totp_counter 59 = 1" "totp_counter 5 = 0" by code_simp+
  have d: "length ''123456'' = 6" "list_all is_digit ''123456''" by code_simp+
  have "totp_counter 61 + 1 < 2 ^ 64" "totp_counter 5 + 1 < 2 ^ 64" "(0 :: int) \<le> 1" by (simp_all add: k)
  then show ?thesis
    using one_time_codes [of 61 1 echo_hmac "()" "''123456''" 59] one_time_codes [of 5 1 echo_hmac "()" "''123456''" 59] d
    by (simp add: k)
qed

section \<open>Response headers: correctness\<close>

definition security_headers :: "bool \<Rightarrow> headers" where
  "security_headers hsts = default_headers @
     (if hsts then [(''Strict-Transport-Security'', ''max-age=63072000; includeSubDomains; preload'')] else [])"

lemma header_names:
  "map (\<lambda>kv. lower (fst kv)) default_headers =
     [''x-content-type-options'', ''x-frame-options'', ''referrer-policy'', ''cross-origin-opener-policy'',
      ''cross-origin-resource-policy'', ''permissions-policy'', ''content-security-policy'']"
  "lower ''Strict-Transport-Security'' = ''strict-transport-security''"
  by code_simp+

lemma default_not_server: "list_all (\<lambda>(n, v). lower n \<noteq> ''server'') default_headers"
proof -
  have "list_all (\<lambda>k. k \<noteq> ''server'') (map (\<lambda>kv. lower (fst kv)) default_headers)" by (simp add: header_names)
  then show ?thesis by (simp add: list_all_iff case_prod_unfold)
qed

lemma has_header_append [simp]: "has_header k (hs @ gs) = (has_header k hs \<or> has_header k gs)"
  by (simp add: has_header_def)

lemma fold_set_default:
  "distinct (map (\<lambda>kv. lower (fst kv)) ds) \<Longrightarrow> fold set_default ds hs = hs @ filter (\<lambda>kv. \<not> has_header (fst kv) hs) ds"
proof (induction ds arbitrary: hs)
  case (Cons kv ds)
  have d: "distinct (map (\<lambda>kv. lower (fst kv)) ds)" using Cons.prems by simp
  show ?case
  proof (cases "has_header (fst kv) hs")
    case True
    then show ?thesis using Cons.IH [OF d] by (simp add: set_default_def)
  next
    case False
    have "filter (\<lambda>x. \<not> has_header (fst x) (hs @ [kv])) ds = filter (\<lambda>x. \<not> has_header (fst x) hs) ds"
      using Cons.prems by (intro filter_cong) (auto simp: has_header_def image_iff)
    then show ?thesis using Cons.IH [OF d, of "hs @ [kv]"] False by (simp add: set_default_def)
  qed
qed simp

text \<open>
  A response leaves with its own headers, except any that names the server, followed by
  exactly the security headers it had not set itself (in any spelling of their case), the
  transport one included when the deployment asks for it.
\<close>

theorem secure_headers_exact:
  "secure_headers hsts hs =
     filter (\<lambda>(n, v). lower n \<noteq> ''server'') hs @ filter (\<lambda>(n, v). \<not> has_header n hs) (security_headers hsts)"
proof -
  have d: "distinct (map (\<lambda>kv. lower (fst kv)) (security_headers hsts))"
    and free: "list_all (\<lambda>(n, v). lower n \<noteq> ''server'') (security_headers hsts)"
    by (simp_all add: header_names default_not_server security_headers_def)
  have n: "filter (\<lambda>(n, v). lower n \<noteq> ''server'') ds = ds" if "set ds \<subseteq> set (security_headers hsts)" for ds
    using that free by (auto simp: list_all_iff filter_id_conv)
  have "secure_headers hsts hs = filter (\<lambda>(n, v). lower n \<noteq> ''server'') (fold set_default (security_headers hsts) hs)"
    by (simp add: secure_headers_def security_headers_def Let_def)
  also have "\<dots> = filter (\<lambda>(n, v). lower n \<noteq> ''server'') hs @ filter (\<lambda>kv. \<not> has_header (fst kv) hs) (security_headers hsts)"
    using n [of "filter (\<lambda>kv. \<not> has_header (fst kv) hs) (security_headers hsts)"] by (simp add: fold_set_default [OF d])
  finally show ?thesis by (simp add: case_prod_unfold)
qed

end
