(* ===== verification/Platform.thy ===== *)
theory Platform
  imports Data_Model Access
begin

text \<open>
  What the request handlers of \<open>apps/api\<close> share: the settings and their start-up check
  (\<open>config.py\<close>), the seeding of roles, permissions and the first administrator
  (\<open>bootstrap.py\<close>), the audit trail (\<open>audit.py\<close>), the outcome of a handler, and the
  environment of cryptographic functions and fresh ids, which are parameters.
\<close>

section \<open>Settings\<close>

record settings =
  se_app_env :: string
  se_app_name :: string
  se_log_level :: string
  se_database_url :: string
  se_jwt_secret :: string
  se_master_key :: string
  se_cors_allow_origins :: string
  se_ssrf_allowlist :: string
  se_access_ttl_min :: int
  se_refresh_ttl_days :: int
  se_max_login_attempts :: int
  se_lockout_minutes :: int
  se_storage_backend :: string
  se_storage_local_root :: string
  se_storage_s3_bucket :: string
  se_storage_s3_endpoint :: "string option"
  se_storage_s3_region :: string
  se_storage_s3_prefix :: string
  se_ai_detector :: string
  se_ai_inference_fps :: int
  se_ai_confidence :: real
  se_ai_iou :: real
  se_ai_motion_gate :: bool
  se_ai_recognize_interval :: real
  se_ai_similarity :: real
  se_ai_model_name :: string
  se_ai_model_version :: string
  se_ai_identity :: bool
  se_ai_rules :: bool
  se_ai_anpr :: bool
  se_record_enabled :: bool
  se_record_segment_seconds :: int
  se_retention_recordings :: int
  se_retention_events :: int
  se_retention_snapshots :: int
  se_retention_embeddings :: int
  se_retention_audit :: int
  se_admin_email :: string
  se_admin_password :: string

definition default_settings :: settings where
  "default_settings = \<lparr>se_app_env = ''development'', se_app_name = ''LocalSight'', se_log_level = ''INFO'',
     se_database_url = ''sqlite:///./localsight.db'', se_jwt_secret = [], se_master_key = [],
     se_cors_allow_origins = [], se_ssrf_allowlist = [], se_access_ttl_min = 15, se_refresh_ttl_days = 7,
     se_max_login_attempts = 5, se_lockout_minutes = 15, se_storage_backend = ''local'',
     se_storage_local_root = ''./data/storage'', se_storage_s3_bucket = [], se_storage_s3_endpoint = None,
     se_storage_s3_region = ''us-east-1'', se_storage_s3_prefix = ''localsight'', se_ai_detector = ''reference'',
     se_ai_inference_fps = 5, se_ai_confidence = 45 / 100, se_ai_iou = 50 / 100, se_ai_motion_gate = True,
     se_ai_recognize_interval = 2, se_ai_similarity = 85 / 100, se_ai_model_name = ''detector'',
     se_ai_model_version = ''latest'', se_ai_identity = False, se_ai_rules = True, se_ai_anpr = False,
     se_record_enabled = True, se_record_segment_seconds = 300, se_retention_recordings = 7,
     se_retention_events = 30, se_retention_snapshots = 14, se_retention_embeddings = 90, se_retention_audit = 365,
     se_admin_email = ''admin@localsight.local'', se_admin_password = []\<rparr>"

definition comma_list :: "string \<Rightarrow> string list" where
  "comma_list s = filter (\<lambda>x. x \<noteq> []) (map strip (split_on CHR '','' s))"

definition cors_origins :: "settings \<Rightarrow> string list" where
  "cors_origins st = comma_list (se_cors_allow_origins st)"

definition ssrf_allowlist_cidrs :: "settings \<Rightarrow> string list" where
  "ssrf_allowlist_cidrs st = comma_list (se_ssrf_allowlist st)"

definition is_production :: "settings \<Rightarrow> bool" where
  "is_production st \<longleftrightarrow> lower (se_app_env st) = ''production''"

definition placeholders :: "string list" where
  "placeholders = [''CHANGE_ME_GENERATE_A_32_BYTE_BASE64_KEY'', ''CHANGE_ME_GENERATE_ANOTHER_32_BYTE_BASE64_KEY'']"

definition assert_secure :: "settings \<Rightarrow> py_error + unit" where
  "assert_secure st =
     (if se_jwt_secret st = [] \<or> se_jwt_secret st \<in> set placeholders then Inl RuntimeError
      else if se_master_key st = [] \<or> se_master_key st \<in> set placeholders then Inl RuntimeError
      else if length (se_jwt_secret st) < 16 \<or> length (se_master_key st) < 16 then Inl RuntimeError
      else Inr ())"

section \<open>Requests and their outcome\<close>

datatype http_error = Http nat | Crash py_error
  \<comment> \<open>a status raised by a handler; an exception the application answers with 500\<close>

record claims =
  cl_sub :: string
  cl_type :: string
  cl_jti :: string
  cl_roles :: "string list"
  cl_permissions :: "string list"
  cl_iat :: int
  cl_exp :: int
  cl_iss :: string

record api_env =
  ae_uuid :: "nat \<Rightarrow> string"
  ae_hash :: "string \<Rightarrow> string"
  ae_verify :: "string \<Rightarrow> string \<Rightarrow> bool"  \<comment> \<open>plain text, hash\<close>
  ae_dummy_hash :: string
  ae_encrypt :: "string \<Rightarrow> string"
  ae_decrypt :: "string \<Rightarrow> string option"
  ae_jwt_encode :: "claims \<Rightarrow> string \<Rightarrow> string"
  ae_jwt_decode :: "timestamp \<Rightarrow> string \<Rightarrow> string \<Rightarrow> claims option"  \<comment> \<open>clock, token, secret\<close>
  ae_hmac :: "string \<Rightarrow> 64 word \<Rightarrow> 8 word list"
  ae_new_secret :: "nat \<Rightarrow> string"

record request =
  rq_now :: timestamp
  rq_forwarded :: string  \<comment> \<open>\<open>X-Forwarded-For\<close>, empty when absent\<close>
  rq_client :: "string option"
  rq_auth :: "string option"
  rq_id :: string

record app =
  ap_db :: db
  ap_next :: nat  \<comment> \<open>ids drawn so far\<close>

type_synonym 'a outcome = "(http_error + 'a) \<times> app"

definition fresh_id :: "api_env \<Rightarrow> app \<Rightarrow> string \<times> app" where
  "fresh_id env a = (ae_uuid env (ap_next a), a\<lparr>ap_next := Suc (ap_next a)\<rparr>)"

definition client_ip :: "request \<Rightarrow> string" where
  "client_ip rq =
     (let f = strip (hd (split_on CHR '','' (rq_forwarded rq))) in
      if f \<noteq> [] then f else (case rq_client rq of Some h \<Rightarrow> h | None \<Rightarrow> ''unknown''))"

definition write_audit ::
  "api_env \<Rightarrow> request \<Rightarrow> (string \<times> user_row) option \<Rightarrow> string \<Rightarrow> string \<Rightarrow> string \<Rightarrow> string \<Rightarrow> string \<Rightarrow>
   (string \<times> json) list option \<Rightarrow> app \<Rightarrow> app" where
  \<comment> \<open>user, username, action, resource, result, source address, detail\<close>
  "write_audit env rq user username action resource result ip detail a =
     (let row = \<lparr>au_ts = rq_now rq, au_user = map_option fst user,
                 au_username = (if username \<noteq> [] then username else (case user of None \<Rightarrow> [] | Some (i, u) \<Rightarrow> us_email u)),
                 au_action = action, au_resource = resource, au_result = result, au_ip = ip,
                 au_request = rq_id rq, au_detail = detail\<rparr>;
          (i, a1) = fresh_id env a
      in a1\<lparr>ap_db := (ap_db a1)\<lparr>db_audit := dict_set i row (db_audit (ap_db a1))\<rparr>\<rparr>)"

definition find_row :: "('r \<Rightarrow> bool) \<Rightarrow> (string, 'r) dict \<Rightarrow> (string \<times> 'r) option" where
  \<comment> \<open>\<open>query.filter(...).first()\<close>\<close>
  "find_row P d = find (\<lambda>(k, r). P r) d"

section \<open>Seeding\<close>

definition ensure_permission :: "api_env \<Rightarrow> string \<Rightarrow> app \<Rightarrow> string \<times> app" where
  "ensure_permission env p a =
     (case find_row (\<lambda>r. pe_name r = p) (db_permissions (ap_db a)) of
        Some (i, r) \<Rightarrow> (i, a)
      | None \<Rightarrow> (let (i, a1) = fresh_id env a
                 in (i, a1\<lparr>ap_db := (ap_db a1)\<lparr>db_permissions := dict_set i \<lparr>pe_name = p\<rparr> (db_permissions (ap_db a1))\<rparr>\<rparr>)))"

fun ensure_permissions :: "api_env \<Rightarrow> string list \<Rightarrow> app \<Rightarrow> string list \<times> app" where
  "ensure_permissions env [] a = ([], a)"
| "ensure_permissions env (p # ps) a =
     (let (i, a1) = ensure_permission env p a; (is, a2) = ensure_permissions env ps a1 in (i # is, a2))"

definition ensure_role :: "api_env \<Rightarrow> string \<Rightarrow> string list \<Rightarrow> app \<Rightarrow> app" where
  "ensure_role env name ps a =
     (let (is, a1) = ensure_permissions env ps a in
      case find_row (\<lambda>r. ro_name r = name) (db_roles (ap_db a1)) of
        Some (i, r) \<Rightarrow> a1\<lparr>ap_db := (ap_db a1)\<lparr>db_roles := dict_set i (r\<lparr>ro_permissions := is\<rparr>) (db_roles (ap_db a1))\<rparr>\<rparr>
      | None \<Rightarrow> (let (i, a2) = fresh_id env a1;
                     r = \<lparr>ro_name = name, ro_description = ''Built-in '' @ name @ '' role'', ro_permissions = is\<rparr>
                 in a2\<lparr>ap_db := (ap_db a2)\<lparr>db_roles := dict_set i r (db_roles (ap_db a2))\<rparr>\<rparr>))"

definition seed_admin :: "api_env \<Rightarrow> settings \<Rightarrow> timestamp \<Rightarrow> app \<Rightarrow> py_error + app" where
  "seed_admin env st now a =
     (if db_users (ap_db a) = [] \<and> se_admin_email st \<noteq> [] then
        (case find_row (\<lambda>r. ro_name r = ''ADMIN'') (db_roles (ap_db a)) of
           None \<Rightarrow> Inl AttributeError
         | Some (rid, r) \<Rightarrow>
             (let (i, a1) = fresh_id env a;
                  u = \<lparr>us_email = se_admin_email st, us_full_name = ''Bootstrap Administrator'',
                       us_password_hash = ae_hash env (if se_admin_password st \<noteq> [] then se_admin_password st
                                                       else ''CHANGE_ME_STRONG_PASSWORD''),
                       us_role_id = rid, us_is_active = True, us_mfa_enabled = False, us_mfa_secret_enc = None,
                       us_failed_logins = 0, us_locked_until = None, us_created_at = now\<rparr>
              in Inr (a1\<lparr>ap_db := (ap_db a1)\<lparr>db_users := dict_set i u (db_users (ap_db a1))\<rparr>\<rparr>)))
      else Inr a)"

definition seed :: "api_env \<Rightarrow> settings \<Rightarrow> timestamp \<Rightarrow> app \<Rightarrow> py_error + app" where
  "seed env st now a = seed_admin env st now (fold (\<lambda>(name, ps). ensure_role env name ps) role_permissions a)"

definition start_up :: "api_env \<Rightarrow> settings \<Rightarrow> timestamp \<Rightarrow> app \<Rightarrow> py_error + app" where
  \<comment> \<open>the checks and the seeding of \<open>build\<close>\<close>
  "start_up env st now a = bind_ok (assert_secure st) (\<lambda>_. seed env st now a)"

end
