(* ===== verification/Auth.thy ===== *)
theory Auth
  imports Platform "HOL-Library.List_Lexorder" "HOL-Library.Char_ord"
begin

text \<open>
  Tokens (\<open>packages/security/jwt.py\<close>), the request guards (\<open>apps/api/dependencies.py\<close>), and
  the handlers of \<open>apps/api/routers/auth.py\<close>: login with lockout and one-time codes, refresh
  token rotation, logout, password change, sessions. A handler maps the committed state to
  its outcome and the committed state after it; what an exception leaves uncommitted is lost.
\<close>

section \<open>Tokens\<close>

definition algorithm_issuer :: string where "algorithm_issuer = ''localsight''"

definition seconds_of :: "timestamp \<Rightarrow> int" where
  \<comment> \<open>\<open>int(t.timestamp())\<close>\<close>
  "seconds_of t = py_trunc (total_seconds t)"

definition create_access_token ::
  "api_env \<Rightarrow> timestamp \<Rightarrow> string \<Rightarrow> string list \<Rightarrow> string list \<Rightarrow> string \<Rightarrow> int \<Rightarrow> app \<Rightarrow> string \<times> app" where
  "create_access_token env now subject roles perms secret ttl_minutes a =
     (let (jti, a1) = fresh_id env a;
          payload = \<lparr>cl_sub = subject, cl_type = ''access'', cl_jti = jti, cl_roles = roles, cl_permissions = perms,
                     cl_iat = seconds_of now, cl_exp = seconds_of (now + ttl_minutes * 60 * 1000000),
                     cl_iss = algorithm_issuer\<rparr>
      in (ae_jwt_encode env payload secret, a1))"

definition create_refresh_token ::
  "api_env \<Rightarrow> timestamp \<Rightarrow> string \<Rightarrow> string \<Rightarrow> int \<Rightarrow> app \<Rightarrow> string \<times> app" where
  "create_refresh_token env now subject secret ttl_days a =
     (let (jti, a1) = fresh_id env a;
          payload = \<lparr>cl_sub = subject, cl_type = ''refresh'', cl_jti = jti, cl_roles = [], cl_permissions = [],
                     cl_iat = seconds_of now, cl_exp = seconds_of (now + ttl_days * 24 * 3600 * 1000000),
                     cl_iss = algorithm_issuer\<rparr>
      in (ae_jwt_encode env payload secret, a1))"

definition decode_token :: "api_env \<Rightarrow> timestamp \<Rightarrow> string \<Rightarrow> string \<Rightarrow> string \<Rightarrow> claims option" where
  \<comment> \<open>\<open>None\<close> is the \<open>AuthError\<close>\<close>
  "decode_token env now token secret expected_type =
     (case ae_jwt_decode env now token secret of
        None \<Rightarrow> None
      | Some c \<Rightarrow> if cl_type c \<noteq> expected_type then None else Some c)"

section \<open>Guards\<close>

definition bearer :: "string option \<Rightarrow> string option" where
  "bearer auth =
     (case auth of None \<Rightarrow> None
      | Some tok \<Rightarrow> if starts_with (lower tok) ''bearer '' then Some (strip (tl (dropWhile (\<lambda>c. c \<noteq> CHR '' '') tok))) else None)"

definition get_current_user ::
  "api_env \<Rightarrow> settings \<Rightarrow> request \<Rightarrow> app \<Rightarrow> http_error + (string \<times> user_row) \<times> string list" where
  \<comment> \<open>the user and the permission set cached on the request\<close>
  "get_current_user env st rq a =
     (case bearer (rq_auth rq) of
        None \<Rightarrow> Inl (Http 401)
      | Some token \<Rightarrow>
          (case decode_token env (rq_now rq) token (se_jwt_secret st) ''access'' of
             None \<Rightarrow> Inl (Http 401)
           | Some c \<Rightarrow>
               (case dict_get (db_users (ap_db a)) (cl_sub c) of
                  None \<Rightarrow> Inl (Http 401)
                | Some u \<Rightarrow> if \<not> us_is_active u then Inl (Http 401) else Inr ((cl_sub c, u), cl_permissions c))))"

definition require_permission ::
  "api_env \<Rightarrow> settings \<Rightarrow> string \<Rightarrow> request \<Rightarrow> app \<Rightarrow> http_error + string \<times> user_row" where
  "require_permission env st p rq a =
     bind_ok (get_current_user env st rq a) (\<lambda>(u, perms). if p \<in> set perms then Inr u else Inl (Http 403))"

definition rate_limit :: "string \<Rightarrow> real \<Rightarrow> int \<Rightarrow> real \<Rightarrow> request \<Rightarrow> limiter \<Rightarrow> (http_error + unit) \<times> limiter" where
  "rate_limit bucket rate capacity clock rq bks =
     (let f = strip (hd (split_on CHR '','' (rq_forwarded rq)));
          ip = (case rq_client rq of None \<Rightarrow> ''unknown'' | Some h \<Rightarrow> if f \<noteq> [] then f else h);
          (ok, b1) = allow clock ip bucket rate capacity bks
      in (if ok then Inr () else Inl (Http 429), b1))"

section \<open>Login\<close>

record login_body =
  lb_email :: string
  lb_password :: string
  lb_mfa_code :: "string option"

record token_pair =
  tp_access :: string
  tp_refresh :: string
  tp_expires_in :: int

definition put_user :: "string \<Rightarrow> user_row \<Rightarrow> app \<Rightarrow> app" where
  "put_user uid u a = a\<lparr>ap_db := (ap_db a)\<lparr>db_users := dict_set uid u (db_users (ap_db a))\<rparr>\<rparr>"

definition put_refresh :: "string \<Rightarrow> refresh_row \<Rightarrow> app \<Rightarrow> app" where
  "put_refresh i r a = a\<lparr>ap_db := (ap_db a)\<lparr>db_refresh := dict_set i r (db_refresh (ap_db a))\<rparr>\<rparr>"

definition permissions_for :: "user_row \<Rightarrow> app \<Rightarrow> py_error + string \<times> string list" where
  \<comment> \<open>the role's name and its sorted permissions\<close>
  "permissions_for u a =
     (case dict_get (db_roles (ap_db a)) (us_role_id u) of
        None \<Rightarrow> Inl AttributeError
      | Some r \<Rightarrow> bind_ok (effective_permissions [ro_name r]) (\<lambda>ps. Inr (ro_name r, sorted_list_of_set ps)))"

definition verify_user_mfa :: "api_env \<Rightarrow> timestamp \<Rightarrow> user_row \<Rightarrow> string \<Rightarrow> py_error + bool" where
  "verify_user_mfa env now u code =
     (case us_mfa_secret_enc u of
        None \<Rightarrow> Inr False
      | Some enc \<Rightarrow>
          if enc = [] then Inr False
          else (case ae_decrypt env enc of
                  None \<Rightarrow> Inl CryptoError
                | Some secret \<Rightarrow> verify_code (ae_hmac env) secret (Some code) 1 (total_seconds now)))"

definition refresh_record :: "claims \<Rightarrow> string \<Rightarrow> timestamp \<Rightarrow> refresh_row" where
  "refresh_record c uid now =
     \<lparr>rf_user_id = uid, rf_jti = cl_jti c, rf_revoked = False, rf_expires_at = cl_exp c * 1000000,
      rf_replaced_by = None, rf_created_at = now\<rparr>"

definition issue_refresh :: "api_env \<Rightarrow> settings \<Rightarrow> timestamp \<Rightarrow> string \<Rightarrow> app \<Rightarrow> py_error + string \<times> app" where
  "issue_refresh env st now uid a =
     (let (token, a1) = create_refresh_token env now uid (se_jwt_secret st) (se_refresh_ttl_days st) a in
      case decode_token env now token (se_jwt_secret st) ''refresh'' of
        None \<Rightarrow> Inl AuthError
      | Some c \<Rightarrow> (let (i, a2) = fresh_id env a1 in Inr (token, put_refresh i (refresh_record c uid now) a2)))"

definition grant :: "api_env \<Rightarrow> settings \<Rightarrow> request \<Rightarrow> string \<Rightarrow> user_row \<Rightarrow> app \<Rightarrow> py_error + token_pair \<times> app" where
  \<comment> \<open>the end of a successful login\<close>
  "grant env st rq uid u a =
     bind_ok (permissions_for u a) (\<lambda>(role, perms).
       (let (access, a1) = create_access_token env (rq_now rq) uid [role] perms (se_jwt_secret st) (se_access_ttl_min st) a in
        bind_ok (issue_refresh env st (rq_now rq) uid a1) (\<lambda>(refresh, a2).
          Inr (\<lparr>tp_access = access, tp_refresh = refresh, tp_expires_in = se_access_ttl_min st * 60\<rparr>,
               write_audit env rq (Some (uid, u)) [] ''login'' [] ''success'' (client_ip rq) None a2))))"

definition note_failure :: "settings \<Rightarrow> timestamp \<Rightarrow> user_row \<Rightarrow> user_row" where
  "note_failure st now u =
     (let n = us_failed_logins u + 1 in
      if n \<ge> se_max_login_attempts st
      then u\<lparr>us_locked_until := Some (now + se_lockout_minutes st * 60 * 1000000), us_failed_logins := 0\<rparr>
      else u\<lparr>us_failed_logins := n\<rparr>)"

definition failed_audit :: "api_env \<Rightarrow> request \<Rightarrow> (string \<times> user_row) option \<Rightarrow> string \<Rightarrow> string \<Rightarrow> string \<Rightarrow> app \<Rightarrow> app" where
  "failed_audit env rq user name action reason a =
     write_audit env rq user name action [] ''failure'' (client_ip rq) (Some [(''reason'', JStr reason)]) a"

definition crash_on_error :: "app \<Rightarrow> py_error + 'a \<times> app \<Rightarrow> 'a outcome" where
  \<comment> \<open>an uncaught exception is answered with 500 and leaves the committed state\<close>
  "crash_on_error a r = (case r of Inl err \<Rightarrow> (Inl (Crash err), a) | Inr (x, b) \<Rightarrow> (Inr x, b))"

definition login :: "api_env \<Rightarrow> settings \<Rightarrow> login_body \<Rightarrow> request \<Rightarrow> app \<Rightarrow> token_pair outcome" where
  "login env st body rq a =
     (let user = find_row (\<lambda>u. us_email u = lb_email body) (db_users (ap_db a));
          ok = ae_verify env (lb_password body) (case user of None \<Rightarrow> ae_dummy_hash env | Some (i, u) \<Rightarrow> us_password_hash u)
      in
      case user of
        None \<Rightarrow> (Inl (Http 401), failed_audit env rq None (lb_email body) ''login'' ''bad_credentials'' a)
      | Some (uid, u) \<Rightarrow>
          if (case us_locked_until u of None \<Rightarrow> False | Some lu \<Rightarrow> lu > rq_now rq)
          then (Inl (Http 423), failed_audit env rq None (lb_email body) ''login'' ''locked'' a)
          else if \<not> ok
          then (Inl (Http 401), failed_audit env rq None (lb_email body) ''login'' ''bad_credentials''
                  (put_user uid (note_failure st (rq_now rq) u) a))
          else if us_mfa_enabled u then
            (case (case lb_mfa_code body of None \<Rightarrow> Inr False
                   | Some code \<Rightarrow> if code = [] then Inr False else verify_user_mfa env (rq_now rq) u code) of
               Inl err \<Rightarrow> (Inl (Crash err), a)
             | Inr False \<Rightarrow> (Inl (Http 401), failed_audit env rq (Some (uid, u)) [] ''login'' ''mfa_failed'' a)
             | Inr True \<Rightarrow>
                 (let u1 = u\<lparr>us_failed_logins := 0, us_locked_until := None\<rparr>
                  in crash_on_error a (grant env st rq uid u1 (put_user uid u1 a))))
          else crash_on_error a (grant env st rq uid u a))"

section \<open>Refresh and logout\<close>

definition find_jti :: "string \<Rightarrow> app \<Rightarrow> (string \<times> refresh_row) option" where
  "find_jti j a = find_row (\<lambda>r. rf_jti r = j) (db_refresh (ap_db a))"

definition rotate ::
  "api_env \<Rightarrow> settings \<Rightarrow> request \<Rightarrow> string \<Rightarrow> refresh_row \<Rightarrow> string \<Rightarrow> user_row \<Rightarrow> app \<Rightarrow> py_error + token_pair \<times> app" where
  "rotate env st rq rid record uid u a =
     (let (token, a1) = create_refresh_token env (rq_now rq) uid (se_jwt_secret st) (se_refresh_ttl_days st) a in
      case decode_token env (rq_now rq) token (se_jwt_secret st) ''refresh'' of
        None \<Rightarrow> Inl AuthError
      | Some c \<Rightarrow>
          (let a2 = put_refresh rid (record\<lparr>rf_revoked := True, rf_replaced_by := Some (cl_jti c)\<rparr>) a1;
               (i, a3) = fresh_id env a2;
               a4 = put_refresh i (refresh_record c uid (rq_now rq)) a3
           in bind_ok (permissions_for u a4) (\<lambda>(role, perms).
                (let (access, a5) = create_access_token env (rq_now rq) uid [role] perms (se_jwt_secret st) (se_access_ttl_min st) a4
                 in Inr (\<lparr>tp_access = access, tp_refresh = token, tp_expires_in = se_access_ttl_min st * 60\<rparr>,
                         write_audit env rq (Some (uid, u)) [] ''token_refresh'' [] ''success'' (client_ip rq) None a5)))))"

definition refresh :: "api_env \<Rightarrow> settings \<Rightarrow> string \<Rightarrow> request \<Rightarrow> app \<Rightarrow> token_pair outcome" where
  "refresh env st token rq a =
     (case decode_token env (rq_now rq) token (se_jwt_secret st) ''refresh'' of
        None \<Rightarrow> (Inl (Http 401), a)
      | Some c \<Rightarrow>
          (case find_jti (cl_jti c) a of
             None \<Rightarrow> (Inl (Http 401), failed_audit env rq None (cl_sub c) ''token_refresh'' ''revoked_or_replay'' a)
           | Some (rid, record) \<Rightarrow>
               if rf_revoked record \<or> (rf_replaced_by record \<noteq> None \<and> rf_replaced_by record \<noteq> Some [])
               then (Inl (Http 401), failed_audit env rq None (cl_sub c) ''token_refresh'' ''revoked_or_replay'' a)
               else (case dict_get (db_users (ap_db a)) (cl_sub c) of
                       None \<Rightarrow> (Inl (Http 401), a)
                     | Some u \<Rightarrow> if \<not> us_is_active u then (Inl (Http 401), a)
                         else crash_on_error a (rotate env st rq rid record (cl_sub c) u a))))"

definition logout :: "api_env \<Rightarrow> settings \<Rightarrow> string \<Rightarrow> request \<Rightarrow> app \<Rightarrow> bool outcome" where
  "logout env st token rq a =
     (case decode_token env (rq_now rq) token (se_jwt_secret st) ''refresh'' of
        None \<Rightarrow> (Inr True, a)
      | Some c \<Rightarrow>
          (let a1 = (case find_jti (cl_jti c) a of None \<Rightarrow> a | Some (rid, record) \<Rightarrow> put_refresh rid (record\<lparr>rf_revoked := True\<rparr>) a)
           in (Inr True, write_audit env rq None (cl_sub c) ''logout'' [] ''success'' (client_ip rq) None a1)))"

section \<open>The caller's account\<close>

definition me :: "string \<times> user_row \<Rightarrow> app \<Rightarrow> http_error + string \<times> string \<times> string list" where
  \<comment> \<open>email, role and permissions shown to the caller\<close>
  "me user a =
     (case permissions_for (snd user) a of
        Inl err \<Rightarrow> Inl (Crash err)
      | Inr (role, perms) \<Rightarrow> Inr (us_email (snd user), role, perms))"

definition revoke_all :: "string \<Rightarrow> app \<Rightarrow> nat \<times> app" where
  \<comment> \<open>\<open>update({"revoked": True})\<close> over the unrevoked tokens of a user, and their number\<close>
  "revoke_all uid a =
     (length (filter (\<lambda>(i, r). rf_user_id r = uid \<and> \<not> rf_revoked r) (db_refresh (ap_db a))),
      a\<lparr>ap_db := (ap_db a)\<lparr>db_refresh :=
          map_rows (\<lambda>r. if rf_user_id r = uid \<and> \<not> rf_revoked r then r\<lparr>rf_revoked := True\<rparr> else r) (db_refresh (ap_db a))\<rparr>\<rparr>)"

definition change_password ::
  "api_env \<Rightarrow> string \<Rightarrow> string \<Rightarrow> string \<times> user_row \<Rightarrow> request \<Rightarrow> app \<Rightarrow> unit outcome" where
  \<comment> \<open>old and new password\<close>
  "change_password env old new user rq a =
     (if length new < 12 then (Inl (Http 422), a)
      else if \<not> ae_verify env old (us_password_hash (snd user))
      then (Inl (Http 401), failed_audit env rq (Some user) [] ''user.password_change'' ''bad_credentials'' a)
      else if old = new then (Inl (Http 400), a)
      else (let u = (snd user)\<lparr>us_password_hash := ae_hash env new\<rparr>;
                a1 = put_user (fst user) u a;
                (n, a2) = revoke_all (fst user) a1
            in (Inr (), write_audit env rq (Some (fst user, u)) [] ''user.password_change'' [] ''success'' (client_ip rq) None a2)))"

definition live_sessions :: "string \<Rightarrow> timestamp \<Rightarrow> app \<Rightarrow> (string \<times> refresh_row) list" where
  \<comment> \<open>unrevoked, unexpired tokens of a user, newest first\<close>
  "live_sessions uid now a =
     sort_key (\<lambda>(i, r). - rf_created_at r)
       (filter (\<lambda>(i, r). rf_user_id r = uid \<and> \<not> rf_revoked r \<and> rf_expires_at r > now) (db_refresh (ap_db a)))"

definition list_own_sessions :: "string \<times> user_row \<Rightarrow> request \<Rightarrow> app \<Rightarrow> (string \<times> timestamp \<times> timestamp) list" where
  "list_own_sessions user rq a =
     map (\<lambda>(i, r). (i, rf_created_at r, rf_expires_at r)) (live_sessions (fst user) (rq_now rq) a)"

definition revoke_own_session :: "api_env \<Rightarrow> string \<Rightarrow> string \<times> user_row \<Rightarrow> request \<Rightarrow> app \<Rightarrow> unit outcome" where
  "revoke_own_session env token_id user rq a =
     (case dict_get (db_refresh (ap_db a)) token_id of
        None \<Rightarrow> (Inl (Http 404), a)
      | Some r \<Rightarrow>
          if rf_user_id r \<noteq> fst user then (Inl (Http 404), a)
          else (Inr (), write_audit env rq (Some user) [] ''user.session_revoke'' token_id ''success'' [] None
                          (put_refresh token_id (r\<lparr>rf_revoked := True\<rparr>) a)))"

definition mfa_setup :: "api_env \<Rightarrow> string \<times> user_row \<Rightarrow> app \<Rightarrow> string outcome" where
  "mfa_setup env user a =
     (let secret = ae_new_secret env (ap_next a);
          u = (snd user)\<lparr>us_mfa_secret_enc := Some (ae_encrypt env secret), us_mfa_enabled := False\<rparr>
      in (Inr secret, put_user (fst user) u (a\<lparr>ap_next := Suc (ap_next a)\<rparr>)))"

definition mfa_verify :: "api_env \<Rightarrow> string option \<Rightarrow> string \<times> user_row \<Rightarrow> request \<Rightarrow> app \<Rightarrow> unit outcome" where
  "mfa_verify env code user rq a =
     (if us_mfa_secret_enc (snd user) \<in> {None, Some []} then (Inl (Http 400), a)
      else (case verify_user_mfa env (rq_now rq) (snd user) (case code of None \<Rightarrow> [] | Some c \<Rightarrow> c) of
              Inl err \<Rightarrow> (Inl (Crash err), a)
            | Inr False \<Rightarrow> (Inl (Http 400), a)
            | Inr True \<Rightarrow> (Inr (), put_user (fst user) ((snd user)\<lparr>us_mfa_enabled := True\<rparr>) a)))"

section \<open>User management\<close>

text \<open>\<open>apps/api/routers/users.py\<close>; the guard of every handler is the permission \<open>user:manage\<close>.\<close>

definition list_users :: "app \<Rightarrow> (string \<times> string \<times> string) list" where
  \<comment> \<open>id, email and role name, ordered by email\<close>
  "list_users a =
     map (\<lambda>(i, u). (i, us_email u, case dict_get (db_roles (ap_db a)) (us_role_id u) of None \<Rightarrow> ''?'' | Some r \<Rightarrow> ro_name r))
       (sort_key (\<lambda>(i, u). us_email u) (db_users (ap_db a)))"

record user_body =
  ub_email :: string
  ub_full_name :: string
  ub_password :: string
  ub_role :: string

definition create_user :: "api_env \<Rightarrow> user_body \<Rightarrow> string \<times> user_row \<Rightarrow> request \<Rightarrow> app \<Rightarrow> string outcome" where
  "create_user env body admin rq a =
     (if length (ub_password body) < 12 then (Inl (Http 422), a)
      else if ub_role body \<notin> set valid_roles then (Inl (Http 400), a)
      else if find_row (\<lambda>u. us_email u = ub_email body) (db_users (ap_db a)) \<noteq> None then (Inl (Http 409), a)
      else (case find_row (\<lambda>r. ro_name r = ub_role body) (db_roles (ap_db a)) of
              None \<Rightarrow> (Inl (Crash AttributeError), a)
            | Some (rid, r) \<Rightarrow>
                (let (i, a1) = fresh_id env a;
                     u = \<lparr>us_email = ub_email body, us_full_name = ub_full_name body, us_password_hash = ae_hash env (ub_password body),
                          us_role_id = rid, us_is_active = True, us_mfa_enabled = False, us_mfa_secret_enc = None,
                          us_failed_logins = 0, us_locked_until = None, us_created_at = rq_now rq\<rparr>
                 in (Inr i, write_audit env rq (Some admin) [] ''user.create'' i ''success'' []
                              (Some [(''role'', JStr (ub_role body))]) (put_user i u a1)))))"

definition delete_user :: "api_env \<Rightarrow> string \<Rightarrow> string \<times> user_row \<Rightarrow> request \<Rightarrow> app \<Rightarrow> unit outcome" where
  "delete_user env uid admin rq a =
     (if uid \<notin> set (dict_keys (db_users (ap_db a))) then (Inl (Http 404), a)
      else (Inr (), write_audit env rq (Some admin) [] ''user.delete'' uid ''success'' [] None
                      (a\<lparr>ap_db := delete_user_rows uid (ap_db a)\<rparr>)))"

definition user_sessions :: "string \<Rightarrow> request \<Rightarrow> app \<Rightarrow> http_error + (string \<times> timestamp \<times> timestamp) list" where
  "user_sessions uid rq a =
     (if uid \<notin> set (dict_keys (db_users (ap_db a))) then Inl (Http 404)
      else Inr (map (\<lambda>(i, r). (i, rf_created_at r, rf_expires_at r)) (live_sessions uid (rq_now rq) a)))"

definition revoke_user_sessions :: "api_env \<Rightarrow> string \<Rightarrow> string \<times> user_row \<Rightarrow> request \<Rightarrow> app \<Rightarrow> nat outcome" where
  "revoke_user_sessions env uid admin rq a =
     (case dict_get (db_users (ap_db a)) uid of
        None \<Rightarrow> (Inl (Http 404), a)
      | Some u \<Rightarrow>
          (let (n, a1) = revoke_all uid a
           in (Inr n, write_audit env rq (Some admin) [] ''user.sessions_revoke_all'' (us_email u) ''success'' []
                        (Some [(''revoked'', JNum (of_nat n))]) a1)))"

definition reset_user_mfa :: "api_env \<Rightarrow> string \<Rightarrow> string \<times> user_row \<Rightarrow> request \<Rightarrow> app \<Rightarrow> unit outcome" where
  "reset_user_mfa env uid admin rq a =
     (case dict_get (db_users (ap_db a)) uid of
        None \<Rightarrow> (Inl (Http 404), a)
      | Some u \<Rightarrow>
          if \<not> us_mfa_enabled u then (Inl (Http 400), a)
          else (Inr (), write_audit env rq (Some admin) [] ''user.mfa_reset'' (us_email u) ''success'' [] None
                  (put_user uid (u\<lparr>us_mfa_enabled := False, us_mfa_secret_enc := None\<rparr>) a)))"

end
