(* ===== verification/Auth_Safety.thy ===== *)
theory Auth_Safety
  imports Auth
begin

text \<open>
  What the handlers of \<open>apps/api/routers/auth.py\<close> and \<open>users.py\<close> promise: a refresh token is
  accepted once, whatever requests come between; repeated bad passwords lock an account; a
  login succeeds only with all its factors; the access token of a login authorises exactly
  what its role allows, until it expires.
\<close>

section \<open>Lemmas about the table of refresh tokens\<close>

lemma write_audit_frame [simp]:
  "db_refresh (ap_db (write_audit env rq u n act res rs ip d a)) = db_refresh (ap_db a)"
  "db_users (ap_db (write_audit env rq u n act res rs ip d a)) = db_users (ap_db a)"
  "db_roles (ap_db (write_audit env rq u n act res rs ip d a)) = db_roles (ap_db a)"
  "ap_next (write_audit env rq u n act res rs ip d a) = Suc (ap_next a)"
  by (simp_all add: write_audit_def fresh_id_def Let_def)

lemma failed_audit_frame [simp]:
  "db_refresh (ap_db (failed_audit env rq u n act rs a)) = db_refresh (ap_db a)"
  "db_users (ap_db (failed_audit env rq u n act rs a)) = db_users (ap_db a)"
  "ap_next (failed_audit env rq u n act rs a) = Suc (ap_next a)"
  by (simp_all add: failed_audit_def)

lemma put_frame [simp]:
  "db_refresh (ap_db (put_user i u a)) = db_refresh (ap_db a)" "ap_next (put_user i u a) = ap_next a"
  "db_roles (ap_db (put_user i u a)) = db_roles (ap_db a)"
  "db_users (ap_db (put_user i u a)) = dict_set i u (db_users (ap_db a))"
  "db_users (ap_db (put_refresh i r a)) = db_users (ap_db a)" "ap_next (put_refresh i r a) = ap_next a"
  "db_roles (ap_db (put_refresh i r a)) = db_roles (ap_db a)"
  "db_refresh (ap_db (put_refresh i r a)) = dict_set i r (db_refresh (ap_db a))"
  by (simp_all add: put_user_def put_refresh_def)

lemma fresh_id_frame [simp]:
  "ap_db (snd (fresh_id env a)) = ap_db a" "ap_next (snd (fresh_id env a)) = Suc (ap_next a)"
  "fst (fresh_id env a) = ae_uuid env (ap_next a)"
  by (simp_all add: fresh_id_def)

lemma find_row_SomeD: "find_row P d = Some (i, r) \<Longrightarrow> (i, r) \<in> set d \<and> P r"
  unfolding find_row_def find_Some_iff by (metis (mono_tags, lifting) case_prod_conv nth_mem)

text \<open>What the token library promises: a token it minted decodes, if at all, to its payload.\<close>

definition jwt_faithful :: "api_env \<Rightarrow> settings \<Rightarrow> bool" where
  "jwt_faithful env st \<longleftrightarrow>
     (\<forall>now c d. ae_jwt_decode env now (ae_jwt_encode env c (se_jwt_secret st)) (se_jwt_secret st) = Some d \<longrightarrow> d = c)"

definition spent :: "api_env \<Rightarrow> settings \<Rightarrow> string \<Rightarrow> app \<Rightarrow> bool" where
  \<comment> \<open>the token id is used up: every record of it is revoked, and it is not issued again\<close>
  "spent env st j a \<longleftrightarrow> inj (ae_uuid env) \<and> jwt_faithful env st \<and>
     (\<forall>m \<ge> ap_next a. ae_uuid env m \<noteq> j) \<and> (\<forall>r \<in> rows (db_refresh (ap_db a)). rf_jti r = j \<longrightarrow> rf_revoked r)"

lemma spent_put:
  "spent env st j a \<Longrightarrow> (rf_jti r = j \<Longrightarrow> rf_revoked r) \<Longrightarrow> spent env st j (put_refresh i r a)"
  using rows_dict_set [of i r "db_refresh (ap_db a)"] by (auto simp: spent_def)

lemma spent_cong:
  "db_refresh (ap_db b) = db_refresh (ap_db a) \<Longrightarrow> ap_next a \<le> ap_next b \<Longrightarrow> spent env st j a \<Longrightarrow> spent env st j b"
  by (simp add: spent_def)

lemma spent_audit [simp]: "spent env st j a \<Longrightarrow> spent env st j (write_audit env rq u n act res rs ip d a)"
  by (rule spent_cong [of _ a]) simp_all

lemma spent_failed [simp]: "spent env st j a \<Longrightarrow> spent env st j (failed_audit env rq u n act rs a)"
  by (rule spent_cong [of _ a]) simp_all

lemma spent_put_user [simp]: "spent env st j (put_user i u a) = spent env st j a"
  by (simp add: spent_def)

lemma spent_fresh [simp]: "spent env st j a \<Longrightarrow> spent env st j (snd (fresh_id env a))"
  by (rule spent_cong [of _ a]) simp_all

lemma spent_revoke_all: "spent env st j a \<Longrightarrow> spent env st j (snd (revoke_all uid a))"
  by (auto simp: spent_def revoke_all_def)

lemma create_tokens_frame [simp]:
  "ap_db (snd (create_refresh_token env now s sec ttl a)) = ap_db a"
  "ap_next (snd (create_refresh_token env now s sec ttl a)) = Suc (ap_next a)"
  "ap_db (snd (create_access_token env now s ro pe sec ttl a)) = ap_db a"
  "ap_next (snd (create_access_token env now s ro pe sec ttl a)) = Suc (ap_next a)"
  by (simp_all add: create_refresh_token_def create_access_token_def Let_def case_prod_unfold)

lemma minted_jti:
  assumes "jwt_faithful env st"
    and "decode_token env now (fst (create_refresh_token env t uid (se_jwt_secret st) ttl a)) (se_jwt_secret st) ''refresh'' = Some c"
  shows "cl_jti c = ae_uuid env (ap_next a) \<and> cl_sub c = uid"
proof -
  let ?p = "\<lparr>cl_sub = uid, cl_type = ''refresh'', cl_jti = ae_uuid env (ap_next a), cl_roles = [], cl_permissions = [],
     cl_iat = seconds_of t, cl_exp = seconds_of (t + ttl * 24 * 3600 * 1000000), cl_iss = algorithm_issuer\<rparr>"
  have "ae_jwt_decode env now (ae_jwt_encode env ?p (se_jwt_secret st)) (se_jwt_secret st) = Some c"
    using assms(2) by (simp add: decode_token_def create_refresh_token_def Let_def case_prod_unfold split: option.splits if_splits)
  then have "c = ?p" using assms(1) unfolding jwt_faithful_def by blast
  then show ?thesis by simp
qed

lemma spent_new:
  assumes "spent env st j a" and "ap_next a \<le> n"
  shows "ae_uuid env n \<noteq> j"
  using assms by (simp add: spent_def)

lemma spent_issue:
  assumes "spent env st j a" and "issue_refresh env st now uid a = Inr (tok, b)"
  shows "spent env st j b"
proof -
  obtain c where c: "decode_token env now (fst (create_refresh_token env now uid (se_jwt_secret st) (se_refresh_ttl_days st) a)) (se_jwt_secret st) ''refresh'' = Some c"
    and b: "b = put_refresh (ae_uuid env (Suc (ap_next a))) (refresh_record c uid now)
      (snd (fresh_id env (snd (create_refresh_token env now uid (se_jwt_secret st) (se_refresh_ttl_days st) a))))"
    using assms(2) by (auto simp: issue_refresh_def Let_def case_prod_unfold split: option.splits)
  have "cl_jti c \<noteq> j"
    using minted_jti [OF _ c] assms(1) spent_new [OF assms(1)] by (simp add: spent_def)
  then show ?thesis
    unfolding b by (intro spent_put spent_fresh spent_cong [OF _ _ assms(1)]) (simp_all add: refresh_record_def)
qed

lemma spent_grant:
  assumes "spent env st j a" and "grant env st rq uid u a = Inr (p, b)"
  shows "spent env st j b"
proof -
  obtain x access a1 tok a2 where "issue_refresh env st (rq_now rq) uid a1 = Inr (tok, a2)"
    "a1 = snd (create_access_token env (rq_now rq) uid [fst x] (snd x) (se_jwt_secret st) (se_access_ttl_min st) a)"
    "b = write_audit env rq (Some (uid, u)) [] ''login'' [] ''success'' (client_ip rq) None a2"
    using assms(2) by (auto simp: grant_def bind_ok_Inr Let_def case_prod_unfold)
  moreover from this have "spent env st j a1" by (intro spent_cong [OF _ _ assms(1)]) simp_all
  ultimately show ?thesis using spent_issue by simp
qed

lemma spent_login: "spent env st j a \<Longrightarrow> spent env st j (snd (login env st body rq a))"
  by (auto simp: login_def crash_on_error_def Let_def
      split: option.splits sum.splits prod.splits bool.splits if_splits dest: spent_grant [rotated])

lemma table_row: "find_jti j a = Some (i, r) \<Longrightarrow> r \<in> rows (db_refresh (ap_db a)) \<and> rf_jti r = j"
  by (auto simp: find_jti_def rows_def dest!: find_row_SomeD intro: rev_image_eqI)

lemma spent_rotate0:
  assumes put: "\<And>r. rf_revoked r \<Longrightarrow> rf_jti r = rf_jti record \<Longrightarrow> spent env st j (put_refresh rid r a)"
    and rot: "rotate env st rq rid record uid u a = Inr (p, b)"
  shows "spent env st j b"
proof -
  define a1 where "a1 = snd (create_refresh_token env (rq_now rq) uid (se_jwt_secret st) (se_refresh_ttl_days st) a)"
  obtain c where c: "decode_token env (rq_now rq) (fst (create_refresh_token env (rq_now rq) uid (se_jwt_secret st) (se_refresh_ttl_days st) a)) (se_jwt_secret st) ''refresh'' = Some c"
    using rot by (auto simp: rotate_def Let_def case_prod_unfold split: option.splits)
  define a2 where "a2 = put_refresh rid (record\<lparr>rf_revoked := True, rf_replaced_by := Some (cl_jti c)\<rparr>) a1"
  define a4 where "a4 = put_refresh (ae_uuid env (ap_next a2)) (refresh_record c uid (rq_now rq)) (snd (fresh_id env a2))"
  obtain x where b: "b = write_audit env rq (Some (uid, u)) [] ''token_refresh'' [] ''success'' (client_ip rq) None
      (snd (create_access_token env (rq_now rq) uid [fst x] (snd x) (se_jwt_secret st) (se_access_ttl_min st) a4))"
    using rot c
    by (auto simp: rotate_def bind_ok_Inr Let_def case_prod_unfold a1_def [symmetric] a2_def [symmetric] a4_def [symmetric])
  define r where "r = record\<lparr>rf_revoked := True, rf_replaced_by := Some (cl_jti c)\<rparr>"
  have put_r: "spent env st j (put_refresh rid r a)" by (rule put) (simp_all add: r_def)
  have a2: "spent env st j a2"
    by (rule spent_cong [OF _ _ put_r]) (simp_all add: a2_def a1_def r_def)
  have f: "inj (ae_uuid env)" "jwt_faithful env st" "\<And>n. ap_next a \<le> n \<Longrightarrow> ae_uuid env n \<noteq> j"
    using put_r by (simp_all add: spent_def)
  have "cl_jti c \<noteq> j" using minted_jti [OF f(2) c] f(3) [of "ap_next a"] by simp
  with a2 have "spent env st j a4"
    unfolding a4_def by (intro spent_put spent_fresh) (simp_all add: refresh_record_def)
  then have "spent env st j (snd (create_access_token env (rq_now rq) uid [fst x] (snd x) (se_jwt_secret st) (se_access_ttl_min st) a4))"
    by (rule spent_cong [rotated 2]) simp_all
  then show ?thesis unfolding b by (rule spent_audit)
qed

lemma spent_rotate:
  "spent env st j a \<Longrightarrow> rotate env st rq rid record uid u a = Inr (p, b) \<Longrightarrow> spent env st j b"
  by (rule spent_rotate0) (simp_all add: spent_put)

lemma spent_refresh: "spent env st j a \<Longrightarrow> spent env st j (snd (refresh env st tok rq a))"
  by (auto simp: refresh_def crash_on_error_def
      split: option.splits sum.splits prod.splits if_splits dest: spent_rotate [rotated])

lemma spent_logout: "spent env st j a \<Longrightarrow> spent env st j (snd (logout env st tok rq a))"
  by (auto simp: logout_def Let_def intro!: spent_audit spent_put split: option.splits prod.splits)

lemma spent_revoke_own: "spent env st j a \<Longrightarrow> spent env st j (snd (revoke_own_session env i u rq a))"
  by (auto simp: revoke_own_session_def intro!: spent_audit spent_put split: option.splits)

lemma spent_change_password: "spent env st j a \<Longrightarrow> spent env st j (snd (change_password env old new u rq a))"
  by (auto simp: change_password_def Let_def case_prod_unfold intro!: spent_audit spent_failed spent_revoke_all)

lemma spent_users:
  "spent env st j a \<Longrightarrow> spent env st j (snd (create_user env body u rq a))"
  "spent env st j a \<Longrightarrow> spent env st j (snd (delete_user env uid u rq a))"
  "spent env st j a \<Longrightarrow> spent env st j (snd (revoke_user_sessions env uid u rq a))"
  "spent env st j a \<Longrightarrow> spent env st j (snd (reset_user_mfa env uid u rq a))"
  "spent env st j a \<Longrightarrow> spent env st j (snd (mfa_setup env v a))"
  "spent env st j a \<Longrightarrow> spent env st j (snd (mfa_verify env code v rq a))"
proof -
  assume s: "spent env st j a"
  show "spent env st j (snd (create_user env body u rq a))"
    using s by (auto simp: create_user_def Let_def case_prod_unfold intro!: spent_audit split: option.splits prod.splits)
  have "spent env st j (a\<lparr>ap_db := delete_user_rows uid (ap_db a)\<rparr>)"
    using s by (simp add: spent_def delete_user_rows_def)
  then show "spent env st j (snd (delete_user env uid u rq a))" using s by (simp add: delete_user_def)
  show "spent env st j (snd (revoke_user_sessions env uid u rq a))"
    using s by (auto simp: revoke_user_sessions_def Let_def case_prod_unfold intro!: spent_audit spent_revoke_all split: option.splits)
  show "spent env st j (snd (reset_user_mfa env uid u rq a))"
    using s by (auto simp: reset_user_mfa_def intro!: spent_audit split: option.splits)
  have "spent env st j (a\<lparr>ap_next := Suc (ap_next a)\<rparr>)" by (rule spent_cong [OF _ _ s]) simp_all
  then show "spent env st j (snd (mfa_setup env v a))" by (simp add: mfa_setup_def Let_def)
  show "spent env st j (snd (mfa_verify env code v rq a))"
    using s by (auto simp: mfa_verify_def split: sum.splits bool.splits)
qed

section \<open>Single use of refresh tokens\<close>

text \<open>The requests that write the account tables, and their effect on the committed state.\<close>

datatype auth_op =
    Login login_body request
  | Refresh string request
  | Logout string request
  | Change_Password string string "string \<times> user_row" request
  | Revoke_Own string "string \<times> user_row" request
  | Mfa_Setup "string \<times> user_row"
  | Mfa_Verify "string option" "string \<times> user_row" request
  | Create_User user_body "string \<times> user_row" request
  | Delete_User string "string \<times> user_row" request
  | Revoke_User string "string \<times> user_row" request
  | Reset_Mfa string "string \<times> user_row" request

fun auth_exec :: "api_env \<Rightarrow> settings \<Rightarrow> auth_op \<Rightarrow> app \<Rightarrow> app" where
  "auth_exec env st (Login body rq) a = snd (login env st body rq a)"
| "auth_exec env st (Refresh tok rq) a = snd (refresh env st tok rq a)"
| "auth_exec env st (Logout tok rq) a = snd (logout env st tok rq a)"
| "auth_exec env st (Change_Password old new u rq) a = snd (change_password env old new u rq a)"
| "auth_exec env st (Revoke_Own i u rq) a = snd (revoke_own_session env i u rq a)"
| "auth_exec env st (Mfa_Setup u) a = snd (mfa_setup env u a)"
| "auth_exec env st (Mfa_Verify code u rq) a = snd (mfa_verify env code u rq a)"
| "auth_exec env st (Create_User body u rq) a = snd (create_user env body u rq a)"
| "auth_exec env st (Delete_User uid u rq) a = snd (delete_user env uid u rq a)"
| "auth_exec env st (Revoke_User uid u rq) a = snd (revoke_user_sessions env uid u rq a)"
| "auth_exec env st (Reset_Mfa uid u rq) a = snd (reset_user_mfa env uid u rq a)"

interpretation auth_runs: safe_run "auth_exec env st" "spent env st j"
proof unfold_locales
  fix a op assume "spent env st j a"
  then show "spent env st j (auth_exec env st op a)"
    by (cases op) (simp_all add: spent_login spent_refresh spent_logout spent_revoke_own spent_change_password spent_users)
qed

definition unique_jtis :: "app \<Rightarrow> bool" where
  \<comment> \<open>the unique constraint of \<open>refresh_tokens.jti\<close>, and the primary key\<close>
  "unique_jtis a \<longleftrightarrow> dict_ok (db_refresh (ap_db a)) \<and>
     (\<forall>i k r s. (i, r) \<in> set (db_refresh (ap_db a)) \<and> (k, s) \<in> set (db_refresh (ap_db a)) \<and> rf_jti r = rf_jti s \<longrightarrow> i = k)"

lemma refresh_spends:
  assumes ok: "refresh env st tok rq a = (Inr pair, b)" and tok: "decode_token env (rq_now rq) tok (se_jwt_secret st) ''refresh'' = Some c"
    and a: "unique_jtis a" "inj (ae_uuid env)" "jwt_faithful env st" "\<forall>m \<ge> ap_next a. ae_uuid env m \<noteq> cl_jti c"
  shows "spent env st (cl_jti c) b"
proof -
  obtain rid row u where f: "find_jti (cl_jti c) a = Some (rid, row)" and r: "rotate env st rq rid row (cl_sub c) u a = Inr (pair, b)"
    using ok tok by (auto simp: refresh_def crash_on_error_def split: option.splits sum.splits if_splits prod.splits)
  have rw: "(rid, row) \<in> set (db_refresh (ap_db a))" "rf_jti row = cl_jti c"
    using f by (auto simp: find_jti_def dest!: find_row_SomeD)
  show ?thesis
  proof (rule spent_rotate0 [OF _ r])
    fix r' :: refresh_row assume r': "rf_revoked r'" "rf_jti r' = rf_jti row"
    have "rf_revoked s" if s: "(k, s) \<in> set (dict_set rid r' (db_refresh (ap_db a)))" "rf_jti s = cl_jti c" for k s
    proof -
      have "dict_ok (dict_set rid r' (db_refresh (ap_db a)))" using a(1) by (simp add: unique_jtis_def)
      from s(1) have g: "dict_get (dict_set rid r' (db_refresh (ap_db a))) k = Some s"
        unfolding dict_get_in [OF \<open>dict_ok (dict_set rid r' (db_refresh (ap_db a)))\<close>] .
      show ?thesis
      proof (cases "k = rid")
        case False
        then have "(k, s) \<in> set (db_refresh (ap_db a))" using g by (auto dest: dict_get_SomeD)
        then show ?thesis using a(1) rw s(2) False unfolding unique_jtis_def by metis
      qed (use g r' in simp)
    qed
    then show "spent env st (cl_jti c) (put_refresh rid r' a)" using a by (auto simp: spent_def rows_def)
  qed
qed

lemma spent_rejected:
  assumes "spent env st (cl_jti c) a"
    and "\<And>d. decode_token env (rq_now rq) tok (se_jwt_secret st) ''refresh'' = Some d \<Longrightarrow> cl_jti d = cl_jti c"
  shows "fst (refresh env st tok rq a) = Inl (Http 401)"
proof (cases "decode_token env (rq_now rq) tok (se_jwt_secret st) ''refresh''")
  case (Some d)
  then have j: "cl_jti d = cl_jti c" by (rule assms(2))
  show ?thesis
  proof (cases "find_jti (cl_jti c) a")
    case (Some x)
    then have "rf_revoked (snd x)" using assms(1) table_row [of "cl_jti c" a "fst x" "snd x"] by (simp add: spent_def)
    then show ?thesis
      using Some \<open>decode_token env (rq_now rq) tok (se_jwt_secret st) ''refresh'' = Some d\<close> j
      by (simp add: refresh_def case_prod_unfold)
  qed (use Some j in \<open>simp add: refresh_def\<close>)
qed (simp add: refresh_def)


section \<open>Lockout\<close>

definition knocks :: "api_env \<Rightarrow> string \<Rightarrow> string \<Rightarrow> login_body \<times> request \<Rightarrow> bool" where
  \<comment> \<open>an attempt on the account of \<open>email\<close> with a wrong password\<close>
  "knocks env email hashed e \<longleftrightarrow> lb_email (fst e) = email \<and> \<not> ae_verify env (lb_password (fst e)) hashed"

definition attempt :: "api_env \<Rightarrow> settings \<Rightarrow> login_body \<times> request \<Rightarrow> app \<Rightarrow> app" where
  "attempt env st e a = snd (login env st (fst e) (snd e) a)"

abbreviation account :: "string \<Rightarrow> app \<Rightarrow> (string \<times> user_row) option" where
  "account email a \<equiv> find_row (\<lambda>u. us_email u = email) (db_users (ap_db a))"

lemma find_row_set:
  "find_row P d = Some (i, r) \<Longrightarrow> dict_ok d \<Longrightarrow> P r' \<Longrightarrow> find_row P (dict_set i r' d) = Some (i, r')"
proof (induction d)
  case Nil
  then show ?case by (simp add: find_row_def)
next
  case (Cons e d)
  obtain k v where e: "e = (k, v)" by (cases e)
  show ?case
  proof (cases "P v")
    case True
    then show ?thesis using Cons.prems by (simp add: e find_row_def dict_set_def)
  next
    case False
    then have f: "find_row P d = Some (i, r)" using Cons.prems(1) by (simp add: e find_row_def)
    then have "(i, r) \<in> set d" by (auto dest: find_row_SomeD)
    then have "k \<noteq> i" using Cons.prems(2) by (force simp: e dict_ok_def dict_keys_def)
    then show ?thesis using Cons.IH [OF f _ Cons.prems(3)] Cons.prems(2) False
      by (auto simp: e find_row_def dict_set_def dict_ok_def)
  qed
qed

lemma bad_attempt:
  assumes "account email a = Some (uid, u)" and "dict_ok (db_users (ap_db a))"
    and "knocks env email (us_password_hash u) e" and "us_locked_until u = None"
  shows "account email (attempt env st e a) = Some (uid, note_failure st (rq_now (snd e)) u) \<and>
    dict_ok (db_users (ap_db (attempt env st e a))) \<and> fst (login env st (fst e) (snd e) a) = Inl (Http 401)"
proof -
  have l: "login env st (fst e) (snd e) a = (Inl (Http 401), failed_audit env (snd e) None email ''login'' ''bad_credentials''
      (put_user uid (note_failure st (rq_now (snd e)) u) a))"
    using assms by (simp add: login_def knocks_def)
  have "us_email (note_failure st (rq_now (snd e)) u) = email"
    using find_row_SomeD [OF assms(1)] by (simp add: note_failure_def Let_def)
  then show ?thesis using find_row_set [OF assms(1,2)] assms(2) by (simp add: attempt_def l)
qed

lemma bad_attempts:
  assumes "account email a = Some (uid, u)" and "dict_ok (db_users (ap_db a))" and "us_locked_until u = None"
    and "\<forall>e \<in> set es. knocks env email (us_password_hash u) e"
    and "us_failed_logins u + int (length es) < se_max_login_attempts st"
  shows "\<exists>u'. account email (fold (attempt env st) es a) = Some (uid, u') \<and> dict_ok (db_users (ap_db (fold (attempt env st) es a))) \<and>
    us_locked_until u' = None \<and> us_password_hash u' = us_password_hash u \<and>
    us_failed_logins u' = us_failed_logins u + int (length es)"
  using assms
proof (induction es arbitrary: a u)
  case Nil
  then show ?case by simp
next
  case (Cons e es)
  define u1 where "u1 = note_failure st (rq_now (snd e)) u"
  have k: "knocks env email (us_password_hash u) e" using Cons.prems(4) by simp
  note one = bad_attempt [OF Cons.prems(1,2) k Cons.prems(3), of st, folded u1_def]
  have u1: "us_locked_until u1 = None" "us_password_hash u1 = us_password_hash u" "us_failed_logins u1 = us_failed_logins u + 1"
    using Cons.prems(3,5) by (simp_all add: u1_def note_failure_def Let_def)
  have "\<forall>e \<in> set es. knocks env email (us_password_hash u1) e" "us_failed_logins u1 + int (length es) < se_max_login_attempts st"
    using Cons.prems(4,5) by (simp_all add: u1)
  from Cons.IH [OF _ _ u1(1) this, of "attempt env st e a"] one show ?case by (auto simp: u1)
qed

text \<open>
  C6. Lockout. As many wrong passwords in a row as the limit allows, from a clean account,
  lock it: until the lockout has passed every login, also with the right password and the
  right code, is answered 423, and the account is unchanged by it. One fewer does not lock.
\<close>

theorem login_lockout:
  assumes "account email a = Some (uid, u)" and "dict_ok (db_users (ap_db a))"
    and "us_failed_logins u = 0" and "us_locked_until u = None"
    and "\<forall>e \<in> set (es @ [e1]). knocks env email (us_password_hash u) e"
    and "int (length es) + 1 = se_max_login_attempts st"
    and "lb_email body = email" and "rq_now rq < rq_now (snd e1) + se_lockout_minutes st * 60 * 1000000"
  shows "(\<exists>v. account email (fold (attempt env st) es a) = Some (uid, v) \<and> us_locked_until v = None) \<and>
    fst (login env st body rq (fold (attempt env st) (es @ [e1]) a)) = Inl (Http 423) \<and>
    account email (snd (login env st body rq (fold (attempt env st) (es @ [e1]) a))) =
      account email (fold (attempt env st) (es @ [e1]) a)"
proof -
  obtain v where v: "account email (fold (attempt env st) es a) = Some (uid, v)"
    "dict_ok (db_users (ap_db (fold (attempt env st) es a)))"
    "us_locked_until v = None" "us_password_hash v = us_password_hash u" "us_failed_logins v = int (length es)"
    using bad_attempts [OF assms(1,2,4), of es env st] assms(3,5,6) by auto
  have "knocks env email (us_password_hash v) e1" using assms(5) v(4) by simp
  from bad_attempt [OF v(1,2) this v(3), of st]
  have b: "account email (fold (attempt env st) (es @ [e1]) a) = Some (uid, note_failure st (rq_now (snd e1)) v)" by simp
  have "us_locked_until (note_failure st (rq_now (snd e1)) v) = Some (rq_now (snd e1) + se_lockout_minutes st * 60 * 1000000)"
    using v(5) assms(6) by (simp add: note_failure_def Let_def)
  then have "login env st body rq (fold (attempt env st) (es @ [e1]) a) =
      (Inl (Http 423), failed_audit env rq None email ''login'' ''locked'' (fold (attempt env st) (es @ [e1]) a))"
    using b assms(7,8) by (simp add: login_def)
  then show ?thesis using v(1,3) by simp
qed

section \<open>What a login takes, and what it gives\<close>

lemma find_row_frame:
  "account email (snd (fresh_id env a)) = account email a" by simp

lemma grant_frame:
  assumes "grant env st rq uid u a = Inr (p, b)"
  shows "db_users (ap_db b) = db_users (ap_db a) \<and> db_roles (ap_db b) = db_roles (ap_db a)"
proof -
  obtain x tok a2 where "issue_refresh env st (rq_now rq) uid
      (snd (create_access_token env (rq_now rq) uid [fst x] (snd x) (se_jwt_secret st) (se_access_ttl_min st) a)) = Inr (tok, a2)"
    "b = write_audit env rq (Some (uid, u)) [] ''login'' [] ''success'' (client_ip rq) None a2"
    using assms by (auto simp: grant_def bind_ok_Inr Let_def case_prod_unfold)
  then show ?thesis by (auto simp: issue_refresh_def Let_def case_prod_unfold split: option.splits)
qed

lemma grant_access:
  assumes "grant env st rq uid u a = Inr (p, b)"
  shows "\<exists>role perms. permissions_for u a = Inr (role, perms) \<and>
    tp_access p = fst (create_access_token env (rq_now rq) uid [role] perms (se_jwt_secret st) (se_access_ttl_min st) a)"
  using assms by (auto simp: grant_def bind_ok_Inr Let_def case_prod_unfold)


section \<open>Access tokens\<close>

definition jwt_sound :: "api_env \<Rightarrow> settings \<Rightarrow> bool" where
  \<comment> \<open>a minted token decodes to its payload from its issue until its expiry, and only then;
    token text has no spaces\<close>
  "jwt_sound env st \<longleftrightarrow>
     (\<forall>now c. ae_jwt_decode env now (ae_jwt_encode env c (se_jwt_secret st)) (se_jwt_secret st) =
        (if cl_iss c = algorithm_issuer \<and> cl_iat c * 1000000 \<le> now \<and> now < cl_exp c * 1000000 then Some c else None)) \<and>
     (\<forall>c. strip (ae_jwt_encode env c (se_jwt_secret st)) = ae_jwt_encode env c (se_jwt_secret st))"

lemma bearer_token: "strip tok = tok \<Longrightarrow> bearer (Some (''Bearer '' @ tok)) = Some tok"
proof -
  assume t: "strip tok = tok"
  have "map lower_char ''Bearer '' = ''bearer ''" by code_simp
  then have l: "lower (''Bearer '' @ tok) = ''bearer '' @ lower tok" by (simp only: lower_def map_append)
  have "starts_with (lower (''Bearer '' @ tok)) ''bearer ''" unfolding l by (rule starts_with_append)
  then show "bearer (Some (''Bearer '' @ tok)) = Some tok" using t by (simp add: bearer_def)
qed

lemma seconds_of_le: "0 \<le> t \<Longrightarrow> seconds_of t * 1000000 \<le> t"
  unfolding seconds_of_def py_trunc_def total_seconds_def by (simp add: floor_divide_of_int_eq [of t 1000000, simplified])

text \<open>
  C11. The access token of a login authorises, for an active account and until it expires,
  exactly the permissions its role had when it was issued, whatever happened to roles or
  tokens since; every other permission is answered 403. The refresh token of the login is no
  access token: it is answered 401 everywhere.
\<close>

theorem access_token_authorises:
  assumes "grant env st rq uid u a = Inr (p, b)" and "jwt_sound env st" and "0 \<le> rq_now rq"
    and "rq_now rq \<le> rq_now rq'" and "rq_now rq' < seconds_of (rq_now rq + se_access_ttl_min st * 60 * 1000000) * 1000000"
    and "dict_get (db_users (ap_db later)) uid = Some v" and "us_is_active v"
  shows "(rq_auth rq' = Some (''Bearer '' @ tp_access p) \<longrightarrow>
      (\<exists>role perms. permissions_for u a = Inr (role, perms) \<and>
         require_permission env st perm rq' later = (if perm \<in> set perms then Inr (uid, v) else Inl (Http 403)))) \<and>
    (rq_auth rq' = Some (''Bearer '' @ tp_refresh p) \<longrightarrow> require_permission env st perm rq' later = Inl (Http 401))"
proof -
  obtain role perms where rp: "permissions_for u a = Inr (role, perms)"
    and acc: "tp_access p = fst (create_access_token env (rq_now rq) uid [role] perms (se_jwt_secret st) (se_access_ttl_min st) a)"
    using grant_access [OF assms(1)] by blast
  define c where "c = \<lparr>cl_sub = uid, cl_type = ''access'', cl_jti = ae_uuid env (ap_next a), cl_roles = [role], cl_permissions = perms,
     cl_iat = seconds_of (rq_now rq), cl_exp = seconds_of (rq_now rq + se_access_ttl_min st * 60 * 1000000), cl_iss = algorithm_issuer\<rparr>"
  have tok: "tp_access p = ae_jwt_encode env c (se_jwt_secret st)"
    by (simp add: acc create_access_token_def Let_def case_prod_unfold c_def)
  have dec: "ae_jwt_decode env (rq_now rq') (tp_access p) (se_jwt_secret st) = Some c"
    using assms(2,4,5) seconds_of_le [OF assms(3)] unfolding tok jwt_sound_def by (auto simp: c_def)
  have st1: "strip (tp_access p) = tp_access p" using assms(2) by (simp add: tok jwt_sound_def)
  have one: "require_permission env st perm rq' later = (if perm \<in> set perms then Inr (uid, v) else Inl (Http 403))"
    if "rq_auth rq' = Some (''Bearer '' @ tp_access p)"
    using assms(6,7) dec
    by (simp add: require_permission_def get_current_user_def that bearer_token [OF st1, simplified] decode_token_def c_def)
  obtain x a1 a2 tok2 where i: "issue_refresh env st (rq_now rq) uid a1 = Inr (tok2, a2)" "tp_refresh p = tok2"
    using assms(1) by (auto simp: grant_def bind_ok_Inr Let_def case_prod_unfold)
  define d where "d = \<lparr>cl_sub = uid, cl_type = ''refresh'', cl_jti = ae_uuid env (ap_next a1), cl_roles = [], cl_permissions = [],
     cl_iat = seconds_of (rq_now rq), cl_exp = seconds_of (rq_now rq + se_refresh_ttl_days st * 24 * 3600 * 1000000), cl_iss = algorithm_issuer\<rparr>"
  have r: "tp_refresh p = ae_jwt_encode env d (se_jwt_secret st)"
    using i by (auto simp: issue_refresh_def create_refresh_token_def Let_def case_prod_unfold d_def split: option.splits)
  have st2: "strip (tp_refresh p) = tp_refresh p" using assms(2) by (simp add: r jwt_sound_def)
  have "decode_token env (rq_now rq') (tp_refresh p) (se_jwt_secret st) ''access'' = None"
    using assms(2) by (auto simp: r decode_token_def jwt_sound_def d_def)
  then have two: "require_permission env st perm rq' later = Inl (Http 401)"
    if "rq_auth rq' = Some (''Bearer '' @ tp_refresh p)"
    by (simp add: require_permission_def get_current_user_def that bearer_token [OF st2, simplified])
  show ?thesis using rp one two by blast
qed

end
