(* ===== verification/Auth_Examples.thy ===== *)
theory Auth_Examples
  imports Auth_Safety "HOL-Library.Countable"
begin

text \<open>
  The theorems about accounts and tokens at a concrete deployment: a signer that numbers
  payloads, one role, one user with a plain-text hash, and one refresh token.
\<close>

definition claims_code :: "claims \<Rightarrow> nat" where
  "claims_code c = to_nat (cl_sub c, cl_type c, cl_jti c, cl_roles c, cl_permissions c, cl_iat c, cl_exp c, cl_iss c)"

definition code_claims :: "nat \<Rightarrow> claims" where
  "code_claims n = (case from_nat n of (sub, ty, j, ro, pe, iat, ex, iss) \<Rightarrow>
     \<lparr>cl_sub = sub, cl_type = ty, cl_jti = j, cl_roles = ro, cl_permissions = pe, cl_iat = iat, cl_exp = ex, cl_iss = iss\<rparr>)"

lemma code_claims_inverse [simp]: "code_claims (claims_code c) = c"
  by (simp add: code_claims_def claims_code_def)

definition desk_env :: api_env where
  "desk_env = \<lparr>ae_uuid = \<lambda>n. replicate n CHR ''i'', ae_hash = \<lambda>x. x, ae_verify = \<lambda>p h. p = h, ae_dummy_hash = ''-'',
     ae_encrypt = \<lambda>x. x, ae_decrypt = Some, ae_jwt_encode = \<lambda>c s. replicate (claims_code c) CHR ''t'',
     ae_jwt_decode = \<lambda>now tok s. (let c = code_claims (length tok) in
       if cl_iss c = algorithm_issuer \<and> cl_iat c * 1000000 \<le> now \<and> now < cl_exp c * 1000000 then Some c else None),
     ae_hmac = \<lambda>s c. replicate 20 0, ae_new_secret = \<lambda>n. ''S''\<rparr>"

lemma desk_simps [simp]:
  "ae_jwt_decode desk_env now (ae_jwt_encode desk_env c s) s' =
     (if cl_iss c = algorithm_issuer \<and> cl_iat c * 1000000 \<le> now \<and> now < cl_exp c * 1000000 then Some c else None)"
  "ae_uuid desk_env n = replicate n CHR ''i''" "ae_verify desk_env p h = (p = h)"
  by (simp_all add: desk_env_def)

lemma strip_id: "\<forall>c \<in> set s. \<not> is_space c \<Longrightarrow> strip s = s"
proof -
  have l: "\<forall>c \<in> set t. \<not> is_space c \<Longrightarrow> lstrip t = t" for t by (cases t) (simp_all add: lstrip_def)
  assume "\<forall>c \<in> set s. \<not> is_space c"
  then show "strip s = s" by (simp add: strip_def l)
qed

lemma desk_jwt: "jwt_sound desk_env st" "jwt_faithful desk_env st" "inj (ae_uuid desk_env)"
proof -
  have "strip (ae_jwt_encode desk_env c s) = ae_jwt_encode desk_env c s" for c s
    by (rule strip_id) (simp add: desk_env_def is_space_def)
  then show "jwt_sound desk_env st" by (simp add: jwt_sound_def)
  show "jwt_faithful desk_env st" by (simp add: jwt_faithful_def)
  show "inj (ae_uuid desk_env)" by (auto simp: inj_def dest: arg_cong [of _ _ length])
qed

definition desk_user :: user_row where
  "desk_user = \<lparr>us_email = ''a@b'', us_full_name = '''', us_password_hash = ''pw'', us_role_id = ''r'', us_is_active = True,
     us_mfa_enabled = False, us_mfa_secret_enc = None, us_failed_logins = 0, us_locked_until = None, us_created_at = 0\<rparr>"

definition desk_app :: app where
  "desk_app = \<lparr>ap_db = empty_db\<lparr>db_users := [(''u'', desk_user)],
       db_roles := [(''r'', \<lparr>ro_name = ''VIEWER'', ro_description = '''', ro_permissions = []\<rparr>)],
       db_refresh := [(''k'', \<lparr>rf_user_id = ''u'', rf_jti = ''j'', rf_revoked = False, rf_expires_at = 5000000,
         rf_replaced_by = None, rf_created_at = 0\<rparr>)]\<rparr>, ap_next = 0\<rparr>"

definition desk_request :: request where
  "desk_request = \<lparr>rq_now = 0, rq_forwarded = '''', rq_client = None, rq_auth = None, rq_id = ''q''\<rparr>"

definition desk_settings :: settings where
  "desk_settings = default_settings\<lparr>se_jwt_secret := ''0123456789abcdef'', se_master_key := ''0123456789abcdef''\<rparr>"

lemma desk_seconds: "seconds_of 0 = 0" "seconds_of (15 * 60 * 1000000) = 900" "seconds_of (7 * 24 * 3600 * 1000000) = 604800"
  by code_simp+

lemma desk_permissions: "\<exists>perms. permissions_for desk_user b = Inr (''VIEWER'', perms) \<and> ''events:view'' \<in> set perms \<and> ''user:manage'' \<notin> set perms"
  if "dict_get (db_roles (ap_db b)) ''r'' = Some \<lparr>ro_name = ''VIEWER'', ro_description = '''', ro_permissions = []\<rparr>"
proof -
  have e: "effective_permissions [''VIEWER''] = Inr (set (the (dict_get role_permissions ''VIEWER'')))"
    by (simp add: effective_permissions_def permissions_for_role_def role_permissions_def dict_get_def)
  have "''events:view'' \<in> set (the (dict_get role_permissions ''VIEWER'')) \<and> ''user:manage'' \<notin> set (the (dict_get role_permissions ''VIEWER''))"
    by code_simp
  then show ?thesis using that e by (simp add: permissions_for_def desk_user_def)
qed

definition desk_claims :: claims where
  "desk_claims = \<lparr>cl_sub = ''u'', cl_type = ''refresh'', cl_jti = ''j'', cl_roles = [], cl_permissions = [], cl_iat = 0, cl_exp = 5,
     cl_iss = algorithm_issuer\<rparr>"

definition desk_token :: string where
  "desk_token = ae_jwt_encode desk_env desk_claims ''''"

lemma desk_token_decode [simp]:
  "ae_jwt_decode desk_env now desk_token s = (if 0 \<le> now \<and> now < 5000000 then Some desk_claims else None)"
  unfolding desk_token_def by (simp add: desk_claims_def)

lemma desk_app_simps [simp]:
  "db_users (ap_db desk_app) = [(''u'', desk_user)]" "ap_next desk_app = 0"
  "dict_get (db_roles (ap_db desk_app)) ''r'' = Some \<lparr>ro_name = ''VIEWER'', ro_description = '''', ro_permissions = []\<rparr>"
  "db_refresh (ap_db desk_app) = [(''k'', \<lparr>rf_user_id = ''u'', rf_jti = ''j'', rf_revoked = False, rf_expires_at = 5000000,
         rf_replaced_by = None, rf_created_at = 0\<rparr>)]"
  "rq_now desk_request = 0" "se_access_ttl_min desk_settings = 15" "se_refresh_ttl_days desk_settings = 7"
  "se_max_login_attempts desk_settings = 5" "se_lockout_minutes desk_settings = 15"
  by (simp_all add: desk_app_def dict_get_def desk_request_def desk_settings_def default_settings_def)

lemma desk_minted:
  "decode_token desk_env 0 (fst (create_refresh_token desk_env 0 uid s 7 a)) s ''refresh'' \<noteq> None"
  by (simp add: create_refresh_token_def decode_token_def Let_def case_prod_unfold desk_seconds [simplified])

lemma desk_refresh: "\<exists>p b. refresh desk_env desk_settings desk_token desk_request desk_app = (Inr p, b)"
proof -
  let ?s = "se_jwt_secret desk_settings"
  let ?row = "\<lparr>rf_user_id = ''u'', rf_jti = ''j'', rf_revoked = False, rf_expires_at = 5000000, rf_replaced_by = None, rf_created_at = 0\<rparr>"
  have d: "decode_token desk_env 0 desk_token ?s ''refresh'' = Some desk_claims"
    by (simp add: decode_token_def) (simp add: desk_claims_def)
  have f: "find_jti ''j'' desk_app = Some (''k'', ?row)" by (simp add: find_jti_def find_row_def)
  have c: "cl_jti desk_claims = ''j''" "cl_sub desk_claims = ''u''" by (simp_all add: desk_claims_def)
  obtain n where n: "decode_token desk_env 0 (fst (create_refresh_token desk_env 0 ''u'' ?s 7 desk_app)) ?s ''refresh'' = Some n"
    using desk_minted by blast
  define a4 where "a4 = put_refresh (ae_uuid desk_env (Suc 0)) (refresh_record n ''u'' 0)
    (snd (fresh_id desk_env (put_refresh ''k'' (?row\<lparr>rf_revoked := True, rf_replaced_by := Some (cl_jti n)\<rparr>)
       (snd (create_refresh_token desk_env 0 ''u'' ?s 7 desk_app)))))"
  have "dict_get (db_roles (ap_db a4)) ''r'' = Some \<lparr>ro_name = ''VIEWER'', ro_description = '''', ro_permissions = []\<rparr>"
    by (simp add: a4_def)
  from desk_permissions [OF this] obtain perms where p: "permissions_for desk_user a4 = Inr (''VIEWER'', perms)" by blast
  have "\<exists>x. rotate desk_env desk_settings desk_request ''k'' ?row ''u'' desk_user desk_app = Inr x"
    using n p by (simp add: rotate_def Let_def case_prod_unfold a4_def)
  then obtain x where x: "rotate desk_env desk_settings desk_request ''k'' ?row ''u'' desk_user desk_app = Inr x" by blast
  have "dict_get [(''u'', desk_user)] ''u'' = Some desk_user" "us_is_active desk_user" by (simp_all add: dict_get_def desk_user_def)
  then show ?thesis using d f c x by (simp add: refresh_def crash_on_error_def split: prod.split)
qed


definition knock :: "login_body \<times> request" where
  "knock = (\<lparr>lb_email = ''a@b'', lb_password = ''guess'', lb_mfa_code = None\<rparr>, desk_request)"

definition right_login :: login_body where
  "right_login = \<lparr>lb_email = ''a@b'', lb_password = ''pw'', lb_mfa_code = None\<rparr>"

lemma desk_account: "account ''a@b'' desk_app = Some (''u'', desk_user)"
  by (simp add: find_row_def desk_user_def)

theorem login_lockout_witness:
  "fst (login desk_env desk_settings right_login desk_request
     (fold (attempt desk_env desk_settings) (replicate 4 knock @ [knock]) desk_app)) = Inl (Http 423)"
proof -
  have "dict_ok (db_users (ap_db desk_app))" "us_failed_logins desk_user = 0" "us_locked_until desk_user = None"
    "\<forall>e \<in> set (replicate 4 knock @ [knock]). knocks desk_env ''a@b'' (us_password_hash desk_user) e"
    "int (length (replicate 4 knock)) + 1 = se_max_login_attempts desk_settings" "lb_email right_login = ''a@b''"
    "rq_now desk_request < rq_now (snd knock) + se_lockout_minutes desk_settings * 60 * 1000000"
    by (simp_all add: dict_ok_def desk_user_def knocks_def knock_def right_login_def)
  from login_lockout [OF desk_account this] show ?thesis by blast
qed

lemma desk_login: "\<exists>p b. login desk_env desk_settings right_login desk_request desk_app = (Inr p, b) \<and>
    grant desk_env desk_settings desk_request ''u'' desk_user desk_app = Inr (p, b)"
proof -
  obtain perms where p: "permissions_for desk_user desk_app = Inr (''VIEWER'', perms)"
    using desk_permissions [of desk_app] by auto
  define a1 where "a1 = snd (create_access_token desk_env 0 ''u'' [''VIEWER''] perms (se_jwt_secret desk_settings) 15 desk_app)"
  obtain n where "decode_token desk_env 0 (fst (create_refresh_token desk_env 0 ''u'' (se_jwt_secret desk_settings) 7 a1))
      (se_jwt_secret desk_settings) ''refresh'' = Some n"
    using desk_minted by blast
  then have "\<exists>x. grant desk_env desk_settings desk_request ''u'' desk_user desk_app = Inr x"
    using p by (simp add: grant_def issue_refresh_def Let_def case_prod_unfold a1_def)
  then obtain p b where g: "grant desk_env desk_settings desk_request ''u'' desk_user desk_app = Inr (p, b)" by auto
  have "lb_email right_login = ''a@b''" "lb_password right_login = ''pw''" "us_password_hash desk_user = ''pw''"
    "us_locked_until desk_user = None" "\<not> us_mfa_enabled desk_user"
    by (simp_all add: right_login_def desk_user_def)
  then have "login desk_env desk_settings right_login desk_request desk_app = (Inr p, b)"
    using desk_account g by (simp add: login_def crash_on_error_def)
  with g show ?thesis by blast
qed


theorem access_token_authorises_witness:
  "\<exists>p b. login desk_env desk_settings right_login desk_request desk_app = (Inr p, b) \<and>
     require_permission desk_env desk_settings ''events:view'' (desk_request\<lparr>rq_auth := Some (''Bearer '' @ tp_access p)\<rparr>) desk_app
       = Inr (''u'', desk_user)"
proof -
  obtain p b where l: "login desk_env desk_settings right_login desk_request desk_app = (Inr p, b)"
    and g: "grant desk_env desk_settings desk_request ''u'' desk_user desk_app = Inr (p, b)" using desk_login by blast
  let ?rq = "desk_request\<lparr>rq_auth := Some (''Bearer '' @ tp_access p)\<rparr>"
  have h: "0 \<le> rq_now desk_request" "rq_now desk_request \<le> rq_now ?rq"
    "rq_now ?rq < seconds_of (rq_now desk_request + se_access_ttl_min desk_settings * 60 * 1000000) * 1000000"
    "dict_get (db_users (ap_db desk_app)) ''u'' = Some desk_user" "us_is_active desk_user"
    using desk_seconds(2) by (simp_all add: dict_get_def) (simp_all add: desk_user_def)
  have "rq_auth ?rq = Some (''Bearer '' @ tp_access p)" by simp
  from access_token_authorises [OF g desk_jwt(1) h, of "''events:view''"] this
  obtain role perms where "permissions_for desk_user desk_app = Inr (role, perms)"
    "require_permission desk_env desk_settings ''events:view'' ?rq desk_app =
       (if ''events:view'' \<in> set perms then Inr (''u'', desk_user) else Inl (Http 403))"
    by blast
  moreover obtain perms' where "permissions_for desk_user desk_app = Inr (''VIEWER'', perms')" "''events:view'' \<in> set perms'"
    using desk_permissions [of desk_app] by auto
  ultimately show ?thesis using l by auto
qed

end
