(* ===== verification/Egress.thy ===== *)
theory Egress
  imports Prelude Access "HOL-Library.Word"
begin

unbundle bit_operations_syntax

text \<open>
  \<open>packages/security/ssrf.py\<close>: the guard on operator-supplied destinations. Addresses are
  words of 32 and 128 bits; the parsers of \<open>ipaddress\<close> and the parts of \<open>urllib.parse\<close> the
  guard reads (scheme, host name) are modelled on ASCII text. Name resolution
  (\<open>socket.getaddrinfo\<close>) is a parameter: the addresses of a host, or \<open>None\<close> for a failure.
\<close>

section \<open>Addresses and networks\<close>

datatype ip = V4 "32 word" | V6 "128 word"

datatype net = Net4 "32 word" nat | Net6 "128 word" nat
  \<comment> \<open>network address, prefix length\<close>

definition netmask4 :: "nat \<Rightarrow> 32 word" where
  "netmask4 n = NOT (mask (32 - n))"

definition netmask6 :: "nat \<Rightarrow> 128 word" where
  "netmask6 n = NOT (mask (128 - n))"

fun in_net :: "ip \<Rightarrow> net \<Rightarrow> bool" where
  "in_net (V4 a) (Net4 b n) \<longleftrightarrow> a AND netmask4 n = b"
| "in_net (V6 a) (Net6 b n) \<longleftrightarrow> a AND netmask6 n = b"
| "in_net _ _ \<longleftrightarrow> False"

definition quad :: "nat \<Rightarrow> nat \<Rightarrow> nat \<Rightarrow> nat \<Rightarrow> 32 word" where
  "quad a b c d = word_of_nat (((a * 256 + b) * 256 + c) * 256 + d)"

definition blocked_nets :: "net list" where
  "blocked_nets = [Net4 (quad 0 0 0 0) 8, Net4 (quad 10 0 0 0) 8, Net4 (quad 100 64 0 0) 10,
     Net4 (quad 127 0 0 0) 8, Net4 (quad 169 254 0 0) 16, Net4 (quad 172 16 0 0) 12,
     Net4 (quad 192 168 0 0) 16, Net6 1 128, Net6 (0xFC00 * 2 ^ 112) 7, Net6 (0xFE80 * 2 ^ 112) 10]"

definition is_blocked :: "ip \<Rightarrow> bool" where
  "is_blocked i \<longleftrightarrow> list_ex (in_net i) blocked_nets"

section \<open>Parsing addresses\<close>

definition parse_octet :: "string \<Rightarrow> nat option" where
  "parse_octet s =
     (if s = [] \<or> \<not> list_all is_digit s \<or> 3 < length s \<or> (s \<noteq> ''0'' \<and> hd s = CHR ''0'') \<or> 255 < nat_of_digits s
      then None else Some (nat_of_digits s))"

definition parse_ipv4 :: "string \<Rightarrow> (32 word) option" where
  "parse_ipv4 s =
     (case map parse_octet (split_on CHR ''.'' s) of
        [Some a, Some b, Some c, Some d] \<Rightarrow> Some (quad a b c d)
      | _ \<Rightarrow> None)"

definition hex_digit :: "char \<Rightarrow> nat option" where
  "hex_digit c =
     (let l = lower_char c in
      if is_digit c then Some (char_digit c)
      else if 97 \<le> (of_char l :: nat) \<and> (of_char l :: nat) \<le> 102 then Some (of_char l - 87) else None)"

fun hex_value :: "nat \<Rightarrow> string \<Rightarrow> nat option" where
  "hex_value n [] = Some n"
| "hex_value n (c # cs) = (case hex_digit c of None \<Rightarrow> None | Some d \<Rightarrow> hex_value (16 * n + d) cs)"

definition parse_hextet :: "string \<Rightarrow> nat option" where
  "parse_hextet s = (if s = [] \<or> 4 < length s then None else hex_value 0 s)"

fun hextets :: "string list \<Rightarrow> nat list option" where
  "hextets [] = Some []"
| "hextets (p # ps) =
     (case parse_hextet p of None \<Rightarrow> None
      | Some n \<Rightarrow> (case hextets ps of None \<Rightarrow> None | Some ns \<Rightarrow> Some (n # ns)))"

definition ipv6_of :: "nat list \<Rightarrow> 128 word" where
  "ipv6_of ns = foldl (\<lambda>w n. push_bit 16 w OR word_of_nat n) 0 ns"

definition embedded_ipv4 :: "string list \<Rightarrow> nat list option" where
  \<comment> \<open>the groups of the parts, a dotted last part counting as two\<close>
  "embedded_ipv4 parts =
     (if parts \<noteq> [] \<and> CHR ''.'' \<in> set (List.last parts) then
        (case (hextets (butlast parts), parse_ipv4 (List.last parts)) of
           (Some ns, Some w) \<Rightarrow> Some (ns @ [unat (drop_bit 16 w), unat (take_bit 16 w)])
         | _ \<Rightarrow> None)
      else hextets parts)"

definition strip_scope :: "string \<Rightarrow> string option" where
  "strip_scope s =
     (case split_on CHR ''%'' s of
        [a] \<Rightarrow> Some a
      | [a, z] \<Rightarrow> if z = [] then None else Some a
      | _ \<Rightarrow> None)"

definition ipv6_groups :: "string \<Rightarrow> nat list option" where
  \<comment> \<open>the eight groups; one \<open>::\<close> stands for one or more of zero\<close>
  "ipv6_groups s =
     (let parts = split_on CHR '':'' s; inner = filter (\<lambda>i. parts ! i = []) [1 ..< length parts - 1] in
      if length parts < 3 \<or> 9 < length parts then None
      else case inner of
        [] \<Rightarrow> (case embedded_ipv4 parts of None \<Rightarrow> None | Some ns \<Rightarrow> if length ns = 8 then Some ns else None)
      | [k] \<Rightarrow>
          (let hi = take k parts; lo = drop (Suc k) parts in
           if (hi \<noteq> [[]] \<and> hd hi = []) \<or> (lo \<noteq> [[]] \<and> List.last lo = []) then None
           else case (hextets (if hi = [[]] then [] else hi), embedded_ipv4 (if lo = [[]] then [] else lo)) of
             (Some a, Some b) \<Rightarrow>
               if length a + length b < 8 then Some (a @ replicate (8 - (length a + length b)) 0 @ b) else None
           | _ \<Rightarrow> None)
      | _ \<Rightarrow> None)"

definition parse_ipv6 :: "string \<Rightarrow> (128 word) option" where
  "parse_ipv6 s =
     (case strip_scope s of None \<Rightarrow> None
      | Some a \<Rightarrow> (case ipv6_groups a of None \<Rightarrow> None | Some ns \<Rightarrow> Some (ipv6_of ns)))"

definition parse_ip :: "string \<Rightarrow> ip option" where
  \<comment> \<open>\<open>ipaddress.ip_address\<close>; \<open>None\<close> for \<open>ValueError\<close>\<close>
  "parse_ip s =
     (case parse_ipv4 s of Some w \<Rightarrow> Some (V4 w)
      | None \<Rightarrow> (case parse_ipv6 s of Some w \<Rightarrow> Some (V6 w) | None \<Rightarrow> None))"

definition parse_net :: "string \<Rightarrow> py_error + net" where
  \<comment> \<open>\<open>ipaddress.ip_network\<close> with a prefix length, which must clear no bit of the address;
    a dotted mask is left open\<close>
  "parse_net s =
     (case split_on CHR ''/'' s of
        [a] \<Rightarrow> (case parse_ip a of Some (V4 w) \<Rightarrow> Inr (Net4 w 32) | Some (V6 w) \<Rightarrow> Inr (Net6 w 128) | None \<Rightarrow> Inl ValueError)
      | [a, p] \<Rightarrow>
          if CHR ''.'' \<in> set p then Inl Unmodelled
          else if p = [] \<or> \<not> list_all is_digit p then Inl ValueError
          else (case parse_ip a of
                  Some (V4 w) \<Rightarrow> if nat_of_digits p \<le> 32 \<and> w AND netmask4 (nat_of_digits p) = w
                                 then Inr (Net4 w (nat_of_digits p)) else Inl ValueError
                | Some (V6 w) \<Rightarrow> if nat_of_digits p \<le> 128 \<and> w AND netmask6 (nat_of_digits p) = w
                                 then Inr (Net6 w (nat_of_digits p)) else Inl ValueError
                | None \<Rightarrow> Inl ValueError)
      | _ \<Rightarrow> Inl ValueError)"

section \<open>Parsing URLs\<close>

definition before :: "char \<Rightarrow> string \<Rightarrow> string" where
  "before c s = takeWhile (\<lambda>x. x \<noteq> c) s"

definition after :: "char \<Rightarrow> string \<Rightarrow> string" where
  "after c s = drop 1 (dropWhile (\<lambda>x. x \<noteq> c) s)"

definition is_letter :: "char \<Rightarrow> bool" where
  "is_letter c \<longleftrightarrow> 97 \<le> (of_char (lower_char c) :: nat) \<and> (of_char (lower_char c) :: nat) \<le> 122"

definition clean_url :: "string \<Rightarrow> string" where
  "clean_url s = filter (\<lambda>c. c \<notin> {CHR 0x09, CHR 0x0A, CHR 0x0D}) (dropWhile (\<lambda>c. (of_char c :: nat) \<le> 32) s)"

definition has_scheme :: "string \<Rightarrow> bool" where
  "has_scheme u \<longleftrightarrow> CHR '':'' \<in> set u \<and> before CHR '':'' u \<noteq> [] \<and> is_letter (hd u) \<and>
     list_all (\<lambda>c. is_letter c \<or> is_digit c \<or> c \<in> {CHR ''+'', CHR ''-'', CHR ''.''}) (before CHR '':'' u)"

definition netloc_of :: "string \<Rightarrow> string" where
  "netloc_of u = (if starts_with u ''//'' then takeWhile (\<lambda>c. c \<notin> {CHR ''/'', CHR ''?'', CHR ''#''}) (drop 2 u) else [])"

definition host_part :: "string \<Rightarrow> string" where
  "host_part netloc =
     (let h = List.last (split_on CHR ''@'' netloc) in
      if CHR ''['' \<in> set h then before CHR '']'' (after CHR ''['' h) else before CHR '':'' h)"

definition bracket_host_ok :: "string \<Rightarrow> bool" where
  "bracket_host_ok h =
     (if starts_with h ''v'' then
        list_all (\<lambda>c. hex_digit c \<noteq> None) (before CHR ''.'' (drop 1 h)) \<and> before CHR ''.'' (drop 1 h) \<noteq> [] \<and>
        after CHR ''.'' h \<noteq> []
      else parse_ipv4 h = None \<and> parse_ipv6 h \<noteq> None)"

definition brackets_ok :: "string \<Rightarrow> bool" where
  "brackets_ok netloc =
     (if (CHR ''['' \<in> set netloc) \<noteq> (CHR '']'' \<in> set netloc) then False
      else if CHR ''['' \<notin> set netloc then True
      else let h = List.last (split_on CHR ''@'' netloc) in
        (CHR ''['' \<in> set h \<longrightarrow> before CHR ''['' h = [] \<and>
           (let port = after CHR '']'' (after CHR ''['' h) in port = [] \<or> hd port = CHR '':'')) \<and>
        bracket_host_ok (host_part netloc))"

definition hostname :: "string \<Rightarrow> string" where
  \<comment> \<open>empty for \<open>None\<close>; the zone of an address keeps its case\<close>
  "hostname netloc =
     (let h = host_part netloc in
      lower (before CHR ''%'' h) @ dropWhile (\<lambda>c. c \<noteq> CHR ''%'') h)"

record parsed_url =
  pu_scheme :: string
  pu_netloc :: string
  pu_hostname :: string

definition urlparse :: "string \<Rightarrow> py_error + parsed_url" where
  "urlparse url =
     (let u = clean_url url;
          scheme = (if has_scheme u then lower (before CHR '':'' u) else []);
          netloc = netloc_of (if has_scheme u then after CHR '':'' u else u)
      in if brackets_ok netloc then Inr \<lparr>pu_scheme = scheme, pu_netloc = netloc, pu_hostname = hostname netloc\<rparr>
         else Inl ValueError)"

section \<open>The guard\<close>

definition allowed_schemes :: "string list" where
  "allowed_schemes = [''http'', ''https'', ''rtsp'', ''rtsps'']"

definition host_in_network :: "string \<Rightarrow> net \<Rightarrow> bool" where
  "host_in_network host n = (case parse_ip host of None \<Rightarrow> False | Some i \<Rightarrow> in_net i n)"

fun parse_allowlist :: "string list \<Rightarrow> py_error + net list" where
  "parse_allowlist [] = Inr []"
| "parse_allowlist (c # cs) =
     (if strip c = [] then parse_allowlist cs
      else bind_ok (parse_net (strip c)) (\<lambda>n. bind_ok (parse_allowlist cs) (\<lambda>ns. Inr (n # ns))))"

fun check_addresses :: "bool \<Rightarrow> string list \<Rightarrow> py_error + unit" where
  "check_addresses allowlisted [] = Inr ()"
| "check_addresses allowlisted (addr # addrs) =
     (case parse_ip addr of
        None \<Rightarrow> check_addresses allowlisted addrs
      | Some i \<Rightarrow> if \<not> allowlisted \<and> is_blocked i then Inl UnsafeUrlError else check_addresses allowlisted addrs)"

definition validate_egress_url ::
  "(string \<Rightarrow> string list option) \<Rightarrow> string list \<Rightarrow> string list \<Rightarrow> string \<Rightarrow> py_error + parsed_url" where
  \<comment> \<open>resolver, allow-list, schemes (empty: the default), URL\<close>
  "validate_egress_url resolve allowlist schemes url =
     bind_ok (parse_allowlist allowlist) (\<lambda>allow.
       case urlparse url of
         Inl err \<Rightarrow> Inl (if err = ValueError then UnsafeUrlError else err)
       | Inr p \<Rightarrow>
           if lower (pu_scheme p) \<notin> set (if schemes = [] then allowed_schemes else schemes) then Inl UnsafeUrlError
           else if pu_hostname p = [] then Inl UnsafeUrlError
           else (case resolve (pu_hostname p) of
                   None \<Rightarrow> Inl UnsafeUrlError
                 | Some addrs \<Rightarrow>
                     bind_ok (check_addresses (list_ex (host_in_network (pu_hostname p)) allow) addrs) (\<lambda>_. Inr p)))"


section \<open>What the guard lets through\<close>

lemma unat_and_not_mask:
  fixes a :: "'a::len word"
  shows "unat (a AND NOT (mask k)) = unat a div 2 ^ k * 2 ^ k"
proof -
  have "unat a div 2 ^ k * 2 ^ k \<le> unat a" by (rule div_times_less_eq_dividend)
  also have "unat a < 2 ^ LENGTH('a)" by simp
  finally have "unat a div 2 ^ k * 2 ^ k < 2 ^ LENGTH('a)" .
  moreover have "a AND NOT (mask k) = word_of_nat (unat a div 2 ^ k * 2 ^ k)"
    by (simp add: push_bit_of_nat [symmetric] drop_bit_eq_div [symmetric] push_bit_eq_mult [symmetric]
        unat_drop_bit_eq [symmetric] bit_eq_iff bit_simps) (auto simp: bit_simps)
  ultimately show ?thesis by (simp only: unat_of_nat) (rule mod_less)
qed

lemma in_range:
  fixes x m j :: nat
  assumes "0 < m"
  shows "x div m * m = j * m \<longleftrightarrow> j * m \<le> x \<and> x < Suc j * m"
  using assms by (metis Suc_eq_plus1 div_nat_eqI div_times_less_eq_dividend dividend_less_div_times
      less_or_eq_imp_le mult.commute mult_cancel2 nat_less_le add.commute mult_Suc)


lemma in_net4:
  assumes "unat b = j * 2 ^ (32 - n)"
  shows "in_net (V4 a) (Net4 b n) \<longleftrightarrow> j * 2 ^ (32 - n) \<le> unat a \<and> unat a < Suc j * 2 ^ (32 - n)"
proof -
  have "in_net (V4 a) (Net4 b n) \<longleftrightarrow> unat (a AND NOT (mask (32 - n))) = unat b"
    by (simp only: in_net.simps netmask4_def word_unat_eq_iff)
  then show ?thesis by (simp only: unat_and_not_mask assms in_range zero_less_power zero_less_numeral)
qed

lemma in_net6:
  assumes "unat b = j * 2 ^ (128 - n)"
  shows "in_net (V6 a) (Net6 b n) \<longleftrightarrow> j * 2 ^ (128 - n) \<le> unat a \<and> unat a < Suc j * 2 ^ (128 - n)"
proof -
  have "in_net (V6 a) (Net6 b n) \<longleftrightarrow> unat (a AND NOT (mask (128 - n))) = unat b"
    by (simp only: in_net.simps netmask6_def word_unat_eq_iff)
  then show ?thesis by (simp only: unat_and_not_mask assms in_range zero_less_power zero_less_numeral)
qed

definition public :: "ip \<Rightarrow> bool" where
  \<comment> \<open>outside the blocked ranges, as numbers\<close>
  "public i = (case i of
     V4 w \<Rightarrow> (let n = unat w in 2 ^ 24 \<le> n \<and> \<not> (10 * 2 ^ 24 \<le> n \<and> n < 11 * 2 ^ 24) \<and>
        \<not> (100 * 2 ^ 24 + 64 * 2 ^ 16 \<le> n \<and> n < 100 * 2 ^ 24 + 128 * 2 ^ 16) \<and>
        \<not> (127 * 2 ^ 24 \<le> n \<and> n < 128 * 2 ^ 24) \<and>
        \<not> (169 * 2 ^ 24 + 254 * 2 ^ 16 \<le> n \<and> n < 169 * 2 ^ 24 + 255 * 2 ^ 16) \<and>
        \<not> (172 * 2 ^ 24 + 16 * 2 ^ 16 \<le> n \<and> n < 172 * 2 ^ 24 + 32 * 2 ^ 16) \<and>
        \<not> (192 * 2 ^ 24 + 168 * 2 ^ 16 \<le> n \<and> n < 192 * 2 ^ 24 + 169 * 2 ^ 16))
   | V6 w \<Rightarrow> (let n = unat w in n \<noteq> 1 \<and> \<not> (0xFC00 * 2 ^ 112 \<le> n \<and> n < 0xFE00 * 2 ^ 112) \<and>
        \<not> (0xFE80 * 2 ^ 112 \<le> n \<and> n < 0xFEC0 * 2 ^ 112)))"

lemma is_blocked_public: "is_blocked i \<longleftrightarrow> \<not> public i"
proof (cases i)
  case (V4 w)
  note r = in_net4 [of "quad 0 0 0 0" 0 8 w] in_net4 [of "quad 10 0 0 0" 10 8 w] in_net4 [of "quad 100 64 0 0" 401 10 w]
    in_net4 [of "quad 127 0 0 0" 127 8 w] in_net4 [of "quad 169 254 0 0" 43518 16 w]
    in_net4 [of "quad 172 16 0 0" 2753 12 w] in_net4 [of "quad 192 168 0 0" 49320 16 w]
  have q: "unat (quad 0 0 0 0) = 0 * 2 ^ (32 - 8)" "unat (quad 10 0 0 0) = 10 * 2 ^ (32 - 8)"
    "unat (quad 100 64 0 0) = 401 * 2 ^ (32 - 10)" "unat (quad 127 0 0 0) = 127 * 2 ^ (32 - 8)"
    "unat (quad 169 254 0 0) = 43518 * 2 ^ (32 - 16)" "unat (quad 172 16 0 0) = 2753 * 2 ^ (32 - 12)"
    "unat (quad 192 168 0 0) = 49320 * 2 ^ (32 - 16)" by (simp_all add: quad_def)
  show ?thesis
    by (simp only: V4 is_blocked_def blocked_nets_def list_ex_Nil_iff list_ex_Cons_iff r(1) [OF q(1)] r(2) [OF q(2)] r(3) [OF q(3)]
        r(4) [OF q(4)] r(5) [OF q(5)] r(6) [OF q(6)] r(7) [OF q(7)] in_net.simps(3,4) public_def ip.case Let_def)
      (simp, linarith?)
next
  case (V6 w)
  note r = in_net6 [of 1 1 128 w] in_net6 [of "0xFC00 * 2 ^ 112" 126 7 w] in_net6 [of "0xFE80 * 2 ^ 112" 1018 10 w]
  have q: "unat (1 :: 128 word) = 1 * 2 ^ (128 - 128)" "unat (0xFC00 * 2 ^ 112 :: 128 word) = 126 * 2 ^ (128 - 7)"
    "unat (0xFE80 * 2 ^ 112 :: 128 word) = 1018 * 2 ^ (128 - 10)" by simp_all
  show ?thesis
    by (simp only: V6 is_blocked_def blocked_nets_def list_ex_Nil_iff list_ex_Cons_iff r(1) [OF q(1)] r(2) [OF q(2)] r(3) [OF q(3)]
        in_net.simps(3,4) public_def ip.case Let_def) (simp, linarith?)
qed

lemma check_addresses_ok:
  "check_addresses al addrs = Inr () \<longleftrightarrow> al \<or> list_all (\<lambda>a. case parse_ip a of None \<Rightarrow> True | Some i \<Rightarrow> public i) addrs"
  by (induction addrs) (auto simp: is_blocked_public split: option.splits)

lemma check_addresses_Inl: "check_addresses al addrs = Inl err \<Longrightarrow> err = UnsafeUrlError"
  by (induction addrs) (auto split: option.splits if_splits)

lemmas parse_simps =
  parse_ip_def parse_ipv4_def parse_octet_def is_digit_def nat_of_digits_def char_digit_def parse_hextet_def hex_digit_def
  lower_char_def parse_ipv6_def strip_scope_def ipv6_groups_def embedded_ipv4_def ipv6_of_def quad_def

lemmas url_simps =
  urlparse_def clean_url_def has_scheme_def before_def after_def is_letter_def lower_char_def lower_def netloc_of_def
  starts_with_def brackets_ok_def hostname_def host_part_def is_digit_def

lemma metadata_address: "parse_ip ''169.254.169.254'' = Some (V4 2852039166)"
  by (simp add: parse_simps)

lemma replicate_five: "replicate 5 (0::nat) = [0, 0, 0, 0, 0]"
  by (simp add: numeral_eq_Suc)

lemma mapped_parts:
  "parse_ipv4 ''::ffff:169.254.169.254'' = None"
  "parse_ipv6 ''::ffff:169.254.169.254'' = Some 281473533782526"
  by (simp_all add: parse_simps replicate_five)

lemma metadata_mapped_address: "parse_ip ''::ffff:169.254.169.254'' = Some (V6 281473533782526)"
  by (simp add: parse_ip_def mapped_parts)

lemma metadata_refused: "validate_egress_url (\<lambda>h. Some [h]) [] [] ''http://169.254.169.254/x'' = Inl UnsafeUrlError"
proof -
  have "\<exists>p. urlparse ''http://169.254.169.254/x'' = Inr p \<and> pu_scheme p = ''http'' \<and> pu_hostname p = ''169.254.169.254''"
    by (simp add: url_simps) (simp add: Let_def)
  moreover have "is_blocked (V4 2852039166)" by (simp add: is_blocked_public public_def)
  moreover have "lower ''http'' = ''http''" by (simp add: lower_def lower_char_def)
  ultimately show ?thesis by (auto simp: validate_egress_url_def metadata_address allowed_schemes_def)
qed

lemma metadata_mapped: "map_sum id pu_hostname (validate_egress_url (\<lambda>h. Some [h]) [] [] ''http://[::ffff:169.254.169.254]/x'')
     = Inr ''::ffff:169.254.169.254''"
proof -
  have "\<exists>p. urlparse ''http://[::ffff:169.254.169.254]/x'' = Inr p \<and> pu_scheme p = ''http'' \<and>
      pu_hostname p = ''::ffff:169.254.169.254''"
    by (simp add: urlparse_def has_scheme_def clean_url_def before_def after_def is_letter_def lower_char_def lower_def
        netloc_of_def starts_with_def brackets_ok_def bracket_host_ok_def hostname_def host_part_def is_digit_def mapped_parts)
  moreover have "\<not> is_blocked (V6 281473533782526)" by (simp add: is_blocked_public public_def)
  moreover have "lower ''http'' = ''http''" by (simp add: lower_def lower_char_def)
  ultimately show ?thesis by (auto simp: validate_egress_url_def metadata_mapped_address allowed_schemes_def)
qed

text \<open>
  C9. The egress guard accepts a URL exactly when its scheme is permitted, its host resolves,
  and either the host is an address literal inside an allow-listed network or no address it
  resolves to lies in a private, shared, loopback or link-local range (the ranges as numbers,
  end to end). A name is never allow-listed, whatever it resolves to, and an IPv4 address
  written inside IPv6 is outside every range: the metadata service passes as
  \<open>::ffff:169.254.169.254\<close> where it is refused as \<open>169.254.169.254\<close>.
\<close>

theorem egress_guard_exact:
  "(validate_egress_url resolve allowlist [] url = Inr p \<longleftrightarrow>
     urlparse url = Inr p \<and> lower (pu_scheme p) \<in> {''http'', ''https'', ''rtsp'', ''rtsps''} \<and> pu_hostname p \<noteq> [] \<and>
     (\<exists>nets addrs. parse_allowlist allowlist = Inr nets \<and> resolve (pu_hostname p) = Some addrs \<and>
        ((\<exists>i n. parse_ip (pu_hostname p) = Some i \<and> n \<in> set nets \<and> in_net i n) \<or>
         list_all (\<lambda>a. case parse_ip a of None \<Rightarrow> True | Some i \<Rightarrow> public i) addrs))) \<and>
   validate_egress_url (\<lambda>h. Some [h]) [] [] ''http://169.254.169.254/x'' = Inl UnsafeUrlError \<and>
   map_sum id pu_hostname (validate_egress_url (\<lambda>h. Some [h]) [] [] ''http://[::ffff:169.254.169.254]/x'')
     = Inr ''::ffff:169.254.169.254''"
proof -
  have listed: "list_ex (host_in_network h) nets \<longleftrightarrow> (\<exists>i n. parse_ip h = Some i \<and> n \<in> set nets \<and> in_net i n)" for h nets
    by (auto simp: list_ex_iff host_in_network_def split: option.splits)
  have split: "validate_egress_url resolve allowlist [] url = Inr p \<longleftrightarrow>
     urlparse url = Inr p \<and> lower (pu_scheme p) \<in> set allowed_schemes \<and> pu_hostname p \<noteq> [] \<and>
     (\<exists>nets addrs. parse_allowlist allowlist = Inr nets \<and> resolve (pu_hostname p) = Some addrs \<and>
        check_addresses (list_ex (host_in_network (pu_hostname p)) nets) addrs = Inr ())"
  proof (cases "parse_allowlist allowlist")
    case (Inr nets)
    show ?thesis
    proof (cases "urlparse url")
      case r: (Inr q)
      show ?thesis by (cases "resolve (pu_hostname q)") (auto simp: validate_egress_url_def Inr r bind_ok_Inr)
    qed (simp add: validate_egress_url_def Inr)
  qed (simp add: validate_egress_url_def)
  show ?thesis
    by (intro conjI metadata_refused metadata_mapped)
      (simp only: split check_addresses_ok listed allowed_schemes_def list.set)
qed

end
