(* ===== verification/Storage.thy ===== *)
theory Storage
  imports Access "HOL-Library.Word"
begin

text \<open>
  \<open>packages/storage\<close>: the local provider over a file system (files and directories by
  absolute path), the S3 provider over a client, and the signed, expiring URLs both share.
  A provider's operation returns its result and the file system it leaves, also when it fails.
  Paths hold no NUL; the HMAC is a parameter.
\<close>

type_synonym bytes = "8 word list"

section \<open>Paths\<close>

fun norm_comps :: "bool \<Rightarrow> string list \<Rightarrow> string list \<Rightarrow> string list" where
  "norm_comps absolute acc [] = rev acc"
| "norm_comps absolute acc (c # cs) =
     (if c = [] \<or> c = ''.'' then norm_comps absolute acc cs
      else if c \<noteq> ''..'' \<or> (\<not> absolute \<and> acc = []) \<or> (acc \<noteq> [] \<and> hd acc = ''..'') then norm_comps absolute (c # acc) cs
      else norm_comps absolute (tl acc) cs)"

definition normpath :: "string \<Rightarrow> string" where
  \<comment> \<open>\<open>os.path.normpath\<close>\<close>
  "normpath p =
     (let slashes = (if starts_with p ''//'' \<and> \<not> starts_with p ''///'' then ''//''
                     else if starts_with p ''/'' then ''/'' else []);
          q = slashes @ join_with ''/'' (norm_comps (slashes \<noteq> []) [] (split_on CHR ''/'' p))
      in if q = [] then ''.'' else q)"

definition resolve :: "string \<Rightarrow> string \<Rightarrow> py_error + string" where
  "resolve base key =
     (if key = [] \<or> starts_with key ''/'' \<or> ''..'' \<in> set (split_on CHR ''/'' key) then Inl ValueError
      else if normpath key \<noteq> key \<or> starts_with (normpath key) ''..'' then Inl ValueError
      else let full = normpath (base @ ''/'' @ normpath key) in
        if \<not> starts_with full (base @ ''/'') \<and> full \<noteq> base then Inl ValueError else Inr full)"

section \<open>The local provider\<close>

record file_system =
  fs_files :: "(string, bytes) dict"
  fs_dirs :: "string set"

type_synonym 'a stored = "(py_error + 'a) \<times> file_system"

definition parents :: "string \<Rightarrow> string list" where
  \<comment> \<open>the directories a path lies in, outermost first\<close>
  "parents p = map (\<lambda>i. take i p) (filter (\<lambda>i. p ! i = CHR ''/'') [1 ..< length p])"

definition is_file :: "string \<Rightarrow> file_system \<Rightarrow> bool" where
  "is_file p fs \<longleftrightarrow> dict_get (fs_files fs) p \<noteq> None"

definition blocked_path :: "string \<Rightarrow> file_system \<Rightarrow> bool" where
  \<comment> \<open>a file stands where a directory is needed\<close>
  "blocked_path p fs \<longleftrightarrow> list_ex (\<lambda>d. is_file d fs) (parents p)"

definition tmp_name :: "nat \<Rightarrow> string \<Rightarrow> string" where
  "tmp_name pid path = path @ ''.tmp.'' @ str_nat pid"

definition publish :: "nat \<Rightarrow> string \<Rightarrow> bytes \<Rightarrow> file_system \<Rightarrow> unit stored" where
  \<comment> \<open>write the temporary file, then \<open>os.replace\<close> it\<close>
  "publish pid path data fs =
     (let tmp = tmp_name pid path in
      if tmp \<in> fs_dirs fs then (Inl OSError, fs)
      else if path \<in> fs_dirs fs then (Inl OSError, fs\<lparr>fs_files := dict_set tmp data (fs_files fs)\<rparr>)
      else (Inr (), fs\<lparr>fs_files := dict_set path data (dict_del tmp (fs_files fs))\<rparr>))"

definition make_parents :: "string \<Rightarrow> file_system \<Rightarrow> unit stored" where
  "make_parents path fs =
     (if blocked_path path fs then (Inl OSError, fs)
      else (Inr (), fs\<lparr>fs_dirs := fs_dirs fs \<union> set (parents path)\<rparr>))"

definition put :: "string \<Rightarrow> nat \<Rightarrow> string \<Rightarrow> bytes \<Rightarrow> file_system \<Rightarrow> unit stored" where
  "put base pid key data fs =
     (case resolve base key of
        Inl err \<Rightarrow> (Inl err, fs)
      | Inr path \<Rightarrow>
          (case make_parents path fs of
             (Inl err, fs1) \<Rightarrow> (Inl err, fs1)
           | (Inr _, fs1) \<Rightarrow> publish pid path data fs1))"

definition put_stream :: "string \<Rightarrow> nat \<Rightarrow> string \<Rightarrow> string \<Rightarrow> file_system \<Rightarrow> int stored" where
  \<comment> \<open>the source file is moved, by a rename or by a copy and a removal\<close>
  "put_stream base pid key source fs =
     (case resolve base key of
        Inl err \<Rightarrow> (Inl err, fs)
      | Inr path \<Rightarrow>
          (case make_parents path fs of
             (Inl err, fs1) \<Rightarrow> (Inl err, fs1)
           | (Inr _, fs1) \<Rightarrow>
               (case dict_get (fs_files fs1) source of
                  None \<Rightarrow> (Inl FileNotFoundError, fs1)
                | Some data \<Rightarrow>
                    if tmp_name pid path \<in> fs_dirs fs1 then (Inl OSError, fs1)
                    else (case publish pid path data (fs1\<lparr>fs_files := dict_del source (fs_files fs1)\<rparr>) of
                            (Inl err, fs2) \<Rightarrow> (Inl err, fs2)
                          | (Inr _, fs2) \<Rightarrow> (Inr (int (length data)), fs2)))))"

definition get :: "string \<Rightarrow> string \<Rightarrow> file_system \<Rightarrow> py_error + bytes" where
  "get base key fs =
     (case resolve base key of
        Inl err \<Rightarrow> Inl err
      | Inr path \<Rightarrow>
          (case dict_get (fs_files fs) path of
             Some data \<Rightarrow> Inr data
           | None \<Rightarrow> if path \<in> fs_dirs fs \<or> blocked_path path fs then Inl OSError else Inl FileNotFoundError))"

definition delete :: "string \<Rightarrow> string \<Rightarrow> file_system \<Rightarrow> unit stored" where
  "delete base key fs =
     (case resolve base key of
        Inl err \<Rightarrow> (Inl err, fs)
      | Inr path \<Rightarrow>
          if is_file path fs then (Inr (), fs\<lparr>fs_files := dict_del path (fs_files fs)\<rparr>)
          else if path \<in> fs_dirs fs \<or> blocked_path path fs then (Inl OSError, fs)
          else (Inr (), fs))"

definition exists :: "string \<Rightarrow> string \<Rightarrow> file_system \<Rightarrow> bool" where
  "exists base key fs = (case resolve base key of Inl err \<Rightarrow> False | Inr path \<Rightarrow> is_file path fs)"

section \<open>Signed URLs\<close>

definition py_int :: "string \<Rightarrow> int option" where
  \<comment> \<open>\<open>int(s)\<close>: spaces around, a sign, digits in groups\<close>
  "py_int s =
     (let t = strip s;
          sign = (t \<noteq> [] \<and> (hd t = CHR ''-'' \<or> hd t = CHR ''+''));
          groups = split_on CHR ''_'' (if sign then tl t else t)
      in if list_all (\<lambda>g. g \<noteq> [] \<and> list_all is_digit g) groups
         then Some (if sign \<and> hd t = CHR ''-'' then - int (nat_of_digits (concat groups)) else int (nat_of_digits (concat groups)))
         else None)"

definition storage_sig :: "(string \<Rightarrow> string) \<Rightarrow> string \<Rightarrow> int \<Rightarrow> string" where
  \<comment> \<open>the hex HMAC of \<open>key:exp\<close> under the deployment's secret\<close>
  "storage_sig mac key ex = mac (key @ '':'' @ str_int ex)"

definition utf8 :: "char \<Rightarrow> nat list" where
  "utf8 c = (let n = of_char c in if n < 128 then [n] else [192 + n div 64, 128 + n mod 64])"

definition hex_upper :: "nat \<Rightarrow> char" where
  "hex_upper n = (if n < 10 then digit_char n else char_of (55 + n))"

definition unreserved :: "char \<Rightarrow> bool" where
  "unreserved c \<longleftrightarrow> is_digit c \<or> (65 \<le> (of_char c :: nat) \<and> (of_char c :: nat) \<le> 90) \<or>
     (97 \<le> (of_char c :: nat) \<and> (of_char c :: nat) \<le> 122) \<or> c \<in> {CHR ''_'', CHR ''.'', CHR ''-'', CHR ''~''}"

definition quote_all :: "string \<Rightarrow> string" where
  \<comment> \<open>\<open>urllib.parse.quote(s, safe='')\<close>\<close>
  "quote_all s = concat (map (\<lambda>c. if unreserved c then [c]
     else concat (map (\<lambda>b. [CHR ''%'', hex_upper (b div 16), hex_upper (b mod 16)]) (utf8 c))) s)"

definition clock_seconds :: "timestamp \<Rightarrow> int" where
  "clock_seconds now = py_trunc (total_seconds now)"

definition sign_get_url :: "(string \<Rightarrow> string) \<Rightarrow> timestamp \<Rightarrow> string \<Rightarrow> int \<Rightarrow> string" where
  "sign_get_url mac now key expires_sec =
     (let ex = clock_seconds now + expires_sec in
      ''/api/video/'' @ quote_all key @ ''?exp='' @ str_int ex @ ''&sig='' @ storage_sig mac key ex)"

definition verify_signed_url :: "(string \<Rightarrow> string) \<Rightarrow> timestamp \<Rightarrow> string \<Rightarrow> string \<Rightarrow> string \<Rightarrow> bool" where
  "verify_signed_url mac now key ex sig =
     (case py_int ex of None \<Rightarrow> False
      | Some e \<Rightarrow> if e < clock_seconds now then False else storage_sig mac key e = sig)"

section \<open>The S3 provider\<close>

record 's s3_client =
  s3_put_object :: "string \<Rightarrow> bytes \<Rightarrow> 's \<Rightarrow> 's"
  s3_upload_file :: "bytes \<Rightarrow> string \<Rightarrow> 's \<Rightarrow> 's"
  s3_get_object :: "string \<Rightarrow> 's \<Rightarrow> bytes option"  \<comment> \<open>\<open>None\<close>: \<open>ClientError\<close>\<close>
  s3_delete_object :: "string \<Rightarrow> 's \<Rightarrow> 's"
  s3_head_object :: "string \<Rightarrow> 's \<Rightarrow> bool"

definition strip_slashes :: "string \<Rightarrow> string" where
  "strip_slashes s = rev (dropWhile (\<lambda>c. c = CHR ''/'') (rev (dropWhile (\<lambda>c. c = CHR ''/'') s)))"

definition s3_full_key :: "string \<Rightarrow> string \<Rightarrow> string" where
  \<comment> \<open>the prefix as configured\<close>
  "s3_full_key prefix key = (let p = strip_slashes prefix in if p \<noteq> [] then p @ ''/'' @ key else key)"

definition s3_put :: "'s s3_client \<Rightarrow> string \<Rightarrow> string \<Rightarrow> bytes \<Rightarrow> 's \<Rightarrow> 's" where
  "s3_put c prefix key data = s3_put_object c (s3_full_key prefix key) data"

definition s3_put_stream :: "'s s3_client \<Rightarrow> string \<Rightarrow> string \<Rightarrow> bytes \<Rightarrow> 's \<Rightarrow> int \<times> 's" where
  "s3_put_stream c prefix key data s = (int (length data), s3_upload_file c data (s3_full_key prefix key) s)"

definition s3_get :: "'s s3_client \<Rightarrow> string \<Rightarrow> string \<Rightarrow> 's \<Rightarrow> py_error + bytes" where
  "s3_get c prefix key s =
     (case s3_get_object c (s3_full_key prefix key) s of None \<Rightarrow> Inl FileNotFoundError | Some data \<Rightarrow> Inr data)"

definition s3_delete :: "'s s3_client \<Rightarrow> string \<Rightarrow> string \<Rightarrow> 's \<Rightarrow> 's" where
  "s3_delete c prefix key = s3_delete_object c (s3_full_key prefix key)"

definition s3_exists :: "'s s3_client \<Rightarrow> string \<Rightarrow> string \<Rightarrow> 's \<Rightarrow> bool" where
  "s3_exists c prefix key = s3_head_object c (s3_full_key prefix key)"

definition s3_sig :: "(string \<Rightarrow> string) \<Rightarrow> string \<Rightarrow> int \<Rightarrow> string" where
  "s3_sig mac key ex = mac (key @ '':'' @ str_int ex)"

definition s3_sign_get_url :: "(string \<Rightarrow> string) \<Rightarrow> timestamp \<Rightarrow> string \<Rightarrow> int \<Rightarrow> string" where
  "s3_sign_get_url mac now key expires_sec =
     (let ex = clock_seconds now + expires_sec in
      ''/api/video/'' @ quote_all key @ ''?exp='' @ str_int ex @ ''&sig='' @ s3_sig mac key ex)"

definition s3_verify_signed_url :: "(string \<Rightarrow> string) \<Rightarrow> timestamp \<Rightarrow> string \<Rightarrow> string \<Rightarrow> string \<Rightarrow> bool" where
  "s3_verify_signed_url mac now key ex sig =
     (case py_int ex of None \<Rightarrow> False
      | Some e \<Rightarrow> if e < clock_seconds now then False else s3_sig mac key e = sig)"

text \<open>The two providers share one scheme: an address that one signs the other serves.\<close>

lemma providers_sign_alike: "s3_sign_get_url = sign_get_url" "s3_verify_signed_url = verify_signed_url"
proof -
  have "s3_sig = storage_sig" by (intro ext) (simp add: s3_sig_def storage_sig_def)
  then show "s3_sign_get_url = sign_get_url" "s3_verify_signed_url = verify_signed_url"
    by (intro ext, simp add: s3_sign_get_url_def sign_get_url_def, intro ext, simp add: s3_verify_signed_url_def verify_signed_url_def cong: option.case_cong)
qed

section \<open>Serving media\<close>

definition serve_video :: "string \<Rightarrow> (string \<Rightarrow> string) \<Rightarrow> timestamp \<Rightarrow> string \<Rightarrow> string \<Rightarrow> string \<Rightarrow> file_system \<Rightarrow> nat + bytes" where
  \<comment> \<open>a status, or the bytes; an exception of the provider is answered 500\<close>
  "serve_video base mac now key ex sig fs =
     (if \<not> verify_signed_url mac now key ex sig then Inl 403
      else (case get base key fs of
              Inr data \<Rightarrow> Inr data
            | Inl err \<Rightarrow> Inl (if err = FileNotFoundError then 404 else 500)))"


section \<open>Keys stay inside the base directory\<close>

definition plain_segment :: "string \<Rightarrow> bool" where
  "plain_segment s \<longleftrightarrow> s \<noteq> [] \<and> s \<noteq> ''.'' \<and> s \<noteq> ''..''"

definition slashed :: "string list \<Rightarrow> string" where
  "slashed segs = concat (map (\<lambda>s. CHR ''/'' # s) segs)"

definition base_ok :: "string \<Rightarrow> bool" where
  \<comment> \<open>what \<open>os.path.abspath\<close> gives for a directory other than the root\<close>
  "base_ok base \<longleftrightarrow> (\<exists>segs. segs \<noteq> [] \<and> (\<forall>s \<in> set segs. plain_segment s \<and> CHR ''/'' \<notin> set s) \<and> base = slashed segs)"

lemma slashed_simps [simp]: "slashed [] = []" "slashed (s # ss) = CHR ''/'' # s @ slashed ss" "slashed (ss @ ts) = slashed ss @ slashed ts"
  by (simp_all add: slashed_def)

lemma split_slashed:
  "CHR ''/'' \<notin> set s \<Longrightarrow> \<forall>x \<in> set segs. CHR ''/'' \<notin> set x \<Longrightarrow> split_on CHR ''/'' (s @ slashed segs) = s # segs"
  by (induction segs arbitrary: s) (simp_all add: split_on_id split_on_append)

lemma slashed_join: "segs \<noteq> [] \<Longrightarrow> slashed segs = CHR ''/'' # join_with ''/'' segs"
  by (induction "''/''" segs rule: join_with.induct) simp_all

lemma norm_comps_plain:
  "''..'' \<notin> set cs \<Longrightarrow> norm_comps absolute acc cs = rev acc @ filter (\<lambda>c. c \<noteq> [] \<and> c \<noteq> ''.'') cs"
  by (induction cs arbitrary: acc) auto

lemma join_nonempty: "fs \<noteq> [] \<Longrightarrow> \<forall>c \<in> set fs. c \<noteq> [] \<Longrightarrow> join_with ''/'' fs \<noteq> []"
  by (induction "''/''" fs rule: join_with.induct) simp_all

lemma starts_with_slash: "starts_with s ''/'' \<longleftrightarrow> s \<noteq> [] \<and> hd s = CHR ''/''"
  by (cases s) (simp_all add: starts_with_def)

lemma normpath_absolute:
  "starts_with p ''/'' \<Longrightarrow> \<not> starts_with p ''//'' \<Longrightarrow> normpath p = CHR ''/'' # join_with ''/'' (norm_comps True [] (split_on CHR ''/'' p))"
  by (simp add: normpath_def Let_def)

lemma normpath_dot: "normpath ''.'' = ''.''"
  by (simp add: normpath_def starts_with_def)

lemma normpath_relative:
  assumes "key \<noteq> []" "\<not> starts_with key ''/''" and s: "segs = split_on CHR ''/'' key" and "''..'' \<notin> set segs"
  shows "normpath key = key \<longleftrightarrow> key = ''.'' \<or> list_all plain_segment segs"
proof -
  let ?fs = "filter (\<lambda>c. c \<noteq> [] \<and> c \<noteq> ''.'') segs"
  have nos: "\<forall>c \<in> set segs. CHR ''/'' \<notin> set c" unfolding s by (blast dest: split_on_no_sep)
  have key: "join_with ''/'' segs = key" by (simp add: s)
  have rel: "normpath key = (if join_with ''/'' ?fs = [] then ''.'' else join_with ''/'' ?fs)"
  proof -
    have "\<not> starts_with key ''//''" using assms(2) by (cases key) (auto simp: starts_with_def)
    with assms(2) show ?thesis
      by (simp add: normpath_def norm_comps_plain [OF assms(4)[unfolded s]] s Let_def)
  qed
  have plain: "list_all plain_segment segs \<longleftrightarrow> ?fs = segs"
    using assms(4) by (auto simp: list_all_iff plain_segment_def filter_id_conv)
  show ?thesis
  proof (cases "?fs = []")
    case True
    have "segs \<noteq> []" by (simp add: s)
    with True have "?fs \<noteq> segs" by metis
    moreover from True rel have "normpath key = ''.''" by simp
    ultimately show ?thesis using plain by auto
  next
    case False
    then have ne: "join_with ''/'' ?fs \<noteq> []" by (rule join_nonempty) simp
    have "split_on CHR ''/'' (join_with ''/'' ?fs) = ?fs" using False nos by (intro split_join) auto
    then have eq: "?fs = segs" if "join_with ''/'' ?fs = key" unfolding that s [symmetric] by (rule sym)
    have "join_with ''/'' ?fs = key \<longleftrightarrow> ?fs = segs"
    proof
      assume "join_with ''/'' ?fs = key"
      then show "?fs = segs" by (rule eq)
    next
      assume "?fs = segs"
      then show "join_with ''/'' ?fs = key" by (simp only: key)
    qed
    moreover have "normpath key = join_with ''/'' ?fs" using rel ne by simp
    moreover have "key \<noteq> ''.''"
    proof
      assume "key = ''.''"
      then have "segs = [''.'']" by (simp add: s)
      with False show False by simp
    qed
    ultimately show ?thesis by (simp only: plain simp_thms)
  qed
qed

lemma normpath_slashed:
  assumes "bs \<noteq> []" and "\<forall>s \<in> set bs. plain_segment s \<and> CHR ''/'' \<notin> set s"
    and "\<forall>s \<in> set cs. s \<noteq> ''..'' \<and> CHR ''/'' \<notin> set s"
  shows "normpath (slashed (bs @ cs)) = slashed (bs @ filter (\<lambda>c. c \<noteq> [] \<and> c \<noteq> ''.'') cs)"
proof -
  obtain b bs' where b: "bs = b # bs'" using assms(1) by (cases bs) auto
  then obtain x b' where x: "b = x # b'" "x \<noteq> CHR ''/''" using assms(2) by (cases b) (auto simp: plain_segment_def)
  have st: "starts_with (slashed (bs @ cs)) ''/''" "\<not> starts_with (slashed (bs @ cs)) ''//''"
    using x by (simp_all add: b starts_with_def)
  have sp: "split_on CHR ''/'' (slashed (bs @ cs)) = [] # bs @ cs"
    using split_slashed [of "[]" "bs @ cs"] assms(2,3) by auto
  have nd: "''..'' \<notin> set ([] # bs @ cs)" using assms(2,3) by (auto simp: plain_segment_def)
  have "filter (\<lambda>c. c \<noteq> [] \<and> c \<noteq> ''.'') bs = bs" using assms(2) by (auto simp: filter_id_conv plain_segment_def)
  then have "normpath (slashed (bs @ cs)) = CHR ''/'' # join_with ''/'' (bs @ filter (\<lambda>c. c \<noteq> [] \<and> c \<noteq> ''.'') cs)"
    by (simp only: normpath_absolute [OF st] sp norm_comps_plain [OF nd]) simp
  then show ?thesis by (simp only: slashed_join [of "bs @ filter (\<lambda>c. c \<noteq> [] \<and> c \<noteq> ''.'') cs"] assms(1) append_is_Nil_conv simp_thms)
qed

lemma resolve_exact:
  assumes "base_ok base"
  shows "resolve base key =
    (if key = ''.'' then Inr base
     else if list_all plain_segment (split_on CHR ''/'' key) \<and> \<not> starts_with key ''..'' then Inr (base @ ''/'' @ key)
     else Inl ValueError)"
proof -
  let ?segs = "split_on CHR ''/'' key"
  obtain bs where bs: "bs \<noteq> []" "\<forall>s \<in> set bs. plain_segment s \<and> CHR ''/'' \<notin> set s" "base = slashed bs"
    using assms by (auto simp: base_ok_def)
  have nos: "\<forall>c \<in> set ?segs. CHR ''/'' \<notin> set c" by (blast dest: split_on_no_sep)
  consider (bad) "key = [] \<or> starts_with key ''/'' \<or> ''..'' \<in> set ?segs" | (dot) "key = ''.''"
    | (rel) "key \<noteq> []" "\<not> starts_with key ''/''" "''..'' \<notin> set ?segs" "key \<noteq> ''.''" by blast
  then show ?thesis
  proof cases
    case bad
    have "\<not> list_all plain_segment ?segs"
    proof (cases "starts_with key ''/''")
      case True
      then obtain k where "key = CHR ''/'' # k" by (auto simp: starts_with_iff)
      then show ?thesis by (simp add: plain_segment_def)
    next
      case False
      with bad have "key = [] \<or> ''..'' \<in> set ?segs" by blast
      then show ?thesis
      proof
        assume "key = []"
        then show ?thesis by (simp add: plain_segment_def)
      next
        assume "''..'' \<in> set ?segs"
        moreover have "\<not> plain_segment ''..''" by (simp add: plain_segment_def)
        ultimately show ?thesis unfolding list_all_iff by blast
      qed
    qed
    moreover have "key \<noteq> ''.''" using bad by (auto simp: starts_with_def)
    ultimately show ?thesis using bad by (simp add: resolve_def)
  next
    case dot
    have "normpath (base @ ''/.'') = base"
      using normpath_slashed [OF bs(1,2), of "[''.'']"] by (simp add: bs(3))
    then show ?thesis by (simp add: dot resolve_def starts_with_def normpath_dot)
  next
    case rel
    note n = normpath_relative [OF rel(1,2) refl rel(3)]
    show ?thesis
    proof (cases "list_all plain_segment ?segs")
      case True
      have "filter (\<lambda>c. c \<noteq> [] \<and> c \<noteq> ''.'') ?segs = ?segs"
        using True by (auto simp: list_all_iff plain_segment_def filter_id_conv)
      moreover have "slashed ?segs = CHR ''/'' # key" by (simp add: slashed_join)
      ultimately have "normpath (base @ ''/'' @ key) = base @ ''/'' @ key"
        using normpath_slashed [OF bs(1,2), of ?segs] nos rel(3) by (auto simp: bs(3))
      moreover have "starts_with (base @ ''/'' @ key) (base @ ''/'')" using starts_with_append [of "base @ ''/''" key] by simp
      ultimately show ?thesis using True n rel by (simp add: resolve_def Let_def)
    qed (use n rel in \<open>simp add: resolve_def\<close>)
  qed
qed


lemma resolve_inside:
  "base_ok base \<Longrightarrow> resolve base key = Inr p \<Longrightarrow> key \<noteq> ''.'' \<Longrightarrow> p = base @ ''/'' @ key"
  by (simp add: resolve_exact split: if_splits)

lemma starts_with_longer: "starts_with (p @ s) p" "starts_with (p @ q @ s) (p @ q)"
  using starts_with_append [of "p @ q" s] by simp_all

lemma make_parents_files [simp]: "fs_files (snd (make_parents path fs)) = fs_files fs"
  by (simp add: make_parents_def)

lemma make_parents_cases:
  obtains err where "make_parents path fs = (Inl err, fs)"
  | fs1 where "make_parents path fs = (Inr (), fs1)" "fs_files fs1 = fs_files fs"
  by (cases "blocked_path path fs") (simp_all add: make_parents_def)

lemma publish_other:
  "q \<noteq> path \<Longrightarrow> q \<noteq> tmp_name pid path \<Longrightarrow> dict_get (fs_files (snd (publish pid path data fs))) q = dict_get (fs_files fs) q"
  by (simp add: publish_def Let_def)

lemma publish_self:
  "publish pid path data fs = (Inr u, t) \<Longrightarrow> dict_get (fs_files t) path = Some data"
  by (auto simp: publish_def Let_def split: if_splits)

lemma put_cases:
  obtains err where "put base pid key data fs = (Inl err, fs)"
  | path fs1 where "resolve base key = Inr path" "fs_files fs1 = fs_files fs" "put base pid key data fs = publish pid path data fs1"
proof (cases "resolve base key")
  case (Inr path)
  then show thesis by (cases path fs rule: make_parents_cases) (use that in \<open>auto simp: put_def\<close>)
qed (use that in \<open>auto simp: put_def\<close>)

lemma put_other:
  assumes "\<forall>path. resolve base key = Inr path \<longrightarrow> q \<noteq> path \<and> q \<noteq> tmp_name pid path"
  shows "dict_get (fs_files (snd (put base pid key data fs))) q = dict_get (fs_files fs) q"
  by (cases base pid key data fs rule: put_cases) (use assms in \<open>simp_all add: publish_other\<close>)

lemma put_stream_other:
  assumes "\<forall>path. resolve base key = Inr path \<longrightarrow> q \<noteq> path \<and> q \<noteq> tmp_name pid path" and "q \<noteq> source"
  shows "dict_get (fs_files (snd (put_stream base pid key source fs))) q = dict_get (fs_files fs) q"
proof (cases "resolve base key")
  case (Inr path)
  show ?thesis
  proof (cases path fs rule: make_parents_cases)
    case (2 fs1)
    show ?thesis
    proof (cases "dict_get (fs_files fs1) source")
      case (Some data)
      have "dict_get (fs_files (snd (publish pid path data (fs1\<lparr>fs_files := dict_del source (fs_files fs1)\<rparr>)))) q =
          dict_get (fs_files fs) q" using publish_other assms Inr 2 by simp
      then show ?thesis using Inr 2 Some
        by (cases "publish pid path data (fs1\<lparr>fs_files := dict_del source (fs_files fs1)\<rparr>)")
          (auto simp: put_stream_def split: sum.splits)
    qed (simp add: put_stream_def Inr 2)
  qed (simp add: put_stream_def Inr)
qed (simp add: put_stream_def)

lemma delete_other:
  "\<forall>path. resolve base key = Inr path \<longrightarrow> q \<noteq> path \<Longrightarrow>
    dict_get (fs_files (snd (delete base key fs))) q = dict_get (fs_files fs) q"
  by (simp add: delete_def split: sum.splits)

text \<open>
  C31. Storing, moving and deleting objects touches no file outside the base directory, whatever the key
  (\<open>..\<close>, absolute, or with doubled slashes), with one exception: the key \<open>.\<close> passes the checks as
  the base directory itself, so that its temporary file is written beside the base directory.
\<close>

theorem storage_contained:
  assumes "base_ok base" and "\<not> starts_with q (base @ ''/'')"
  shows "(key \<noteq> ''.'' \<longrightarrow> dict_get (fs_files (snd (put base pid key data fs))) q = dict_get (fs_files fs) q) \<and>
    (key \<noteq> ''.'' \<longrightarrow> q \<noteq> source \<longrightarrow>
       dict_get (fs_files (snd (put_stream base pid key source fs))) q = dict_get (fs_files fs) q) \<and>
    (key \<noteq> ''.'' \<longrightarrow> dict_get (fs_files (snd (delete base key fs))) q = dict_get (fs_files fs) q) \<and>
    snd (put ''/data'' 7 ''.'' [1] \<lparr>fs_files = [], fs_dirs = {''/data''}\<rparr>)
      = \<lparr>fs_files = [(''/data.tmp.7'', [1])], fs_dirs = {''/data''}\<rparr>"
proof -
  have in_base: "q \<noteq> path \<and> q \<noteq> tmp_name pid path" if "key \<noteq> ''.''" "resolve base key = Inr path" for path
  proof -
    from resolve_inside [OF assms(1) that(2,1)] have p: "path = (base @ ''/'') @ key" by simp
    then have "starts_with path (base @ ''/'')" "starts_with (tmp_name pid path) (base @ ''/'')"
      unfolding tmp_name_def by (simp_all only: append_assoc starts_with_longer)
    with assms(2) show ?thesis by blast
  qed
  have "base_ok ''/data''" unfolding base_ok_def
    by (rule exI [of _ "[''data'']"]) (simp add: plain_segment_def)
  then have "resolve ''/data'' ''.'' = Inr ''/data''" by (simp add: resolve_exact)
  moreover have "char_of (55::nat) = CHR ''7''" by code_simp
  ultimately have "snd (put ''/data'' 7 ''.'' [1] \<lparr>fs_files = [], fs_dirs = {''/data''}\<rparr>)
      = \<lparr>fs_files = [(''/data.tmp.7'', [1])], fs_dirs = {''/data''}\<rparr>"
    by (simp add: put_def make_parents_def blocked_path_def parents_def upt_rec publish_def tmp_name_def str_nat.simps
        digit_char_def Let_def dict_set_def)
  then show ?thesis using put_other [of base key q pid data fs] put_stream_other [of base key q pid source fs]
      delete_other [of base key q fs] in_base by blast
qed


theorem storage_contained_witness:
  "dict_get (fs_files (snd (put ''/data'' 7 ''../etc/passwd'' [1] \<lparr>fs_files = [(''/etc/passwd'', [9])], fs_dirs = {}\<rparr>))) ''/etc/passwd''
     = Some [9]"
proof -
  have "base_ok ''/data''" unfolding base_ok_def
    by (rule exI [of _ "[''data'']"]) (simp add: plain_segment_def)
  moreover have "\<not> starts_with ''/etc/passwd'' (''/data'' @ ''/'')" by (simp add: starts_with_def)
  ultimately have "dict_get (fs_files (snd (put ''/data'' 7 ''../etc/passwd'' [1] \<lparr>fs_files = [(''/etc/passwd'', [9])], fs_dirs = {}\<rparr>))) ''/etc/passwd''
     = dict_get (fs_files \<lparr>fs_files = [(''/etc/passwd'', [9])], fs_dirs = {}\<rparr>) ''/etc/passwd''"
    by (rule storage_contained [THEN conjunct1, rule_format]) simp
  then show ?thesis by (simp add: dict_get_def)
qed

section \<open>The provider's contract\<close>

fun store_all :: "('k \<Rightarrow> 'd \<Rightarrow> 's \<Rightarrow> ('e + unit) \<times> 's) \<Rightarrow> ('k \<times> 'd) list \<Rightarrow> 's \<Rightarrow> ('e + unit) \<times> 's" where
  "store_all put_object [] s = (Inr (), s)"
| "store_all put_object ((k, x) # objs) s =
     (case put_object k x s of (Inl err, t) \<Rightarrow> (Inl err, t) | (Inr _, t) \<Rightarrow> store_all put_object objs t)"

definition delete_all :: "('k \<Rightarrow> 's \<Rightarrow> ('e + unit) \<times> 's) \<Rightarrow> 'k list \<Rightarrow> 's \<Rightarrow> 's" where
  \<comment> \<open>best effort: failures are passed over\<close>
  "delete_all delete_object ks s = fold (\<lambda>k s. snd (delete_object k s)) ks s"

text \<open>
  What callers rely on: an object put is read back until it is deleted, operations on one key
  leave the objects under keys apart from it alone, and deleting what is there succeeds.
\<close>

locale object_store =
  fixes put_object :: "'k \<Rightarrow> 'd \<Rightarrow> 's \<Rightarrow> ('e + unit) \<times> 's"
    and get_object :: "'k \<Rightarrow> 's \<Rightarrow> 'e + 'd"
    and delete_object :: "'k \<Rightarrow> 's \<Rightarrow> ('e + unit) \<times> 's"
    and apart :: "'k \<Rightarrow> 'k \<Rightarrow> bool"
  assumes get_put: "put_object k x s = (Inr (), t) \<Longrightarrow> get_object k t = Inr x"
    and put_apart: "apart k k' \<Longrightarrow> get_object k' s = Inr y \<Longrightarrow> get_object k' (snd (put_object k x s)) = Inr y"
    and get_delete: "get_object k (snd (delete_object k s)) \<noteq> Inr y"
    and delete_apart: "apart k k' \<Longrightarrow> get_object k' s = Inr y \<Longrightarrow> get_object k' (snd (delete_object k s)) = Inr y"
    and delete_creates_nothing: "get_object k' (snd (delete_object k s)) = Inr y \<Longrightarrow> get_object k' s = Inr y"
begin

lemma store_all_keeps:
  "store_all put_object objs s = (r, t) \<Longrightarrow> \<forall>(k', _) \<in> set objs. apart k' k \<Longrightarrow> get_object k s = Inr x \<Longrightarrow> get_object k t = Inr x"
proof (induction objs arbitrary: s)
  case (Cons o1 objs)
  obtain k' x' where o1: "o1 = (k', x')" by (cases o1)
  obtain u s1 where p: "put_object k' x' s = (u, s1)" by (cases "put_object k' x' s")
  have "get_object k (snd (put_object k' x' s)) = Inr x" using Cons.prems(2,3) o1 by (auto intro: put_apart)
  then have "get_object k s1 = Inr x" by (simp add: p)
  then show ?case using Cons.IH [of s1] Cons.prems(1,2) by (auto simp: o1 p split: sum.splits)
qed simp

lemma store_all_get:
  "store_all put_object objs s = (Inr (), t) \<Longrightarrow> sorted_wrt (\<lambda>(k, _) (k', _). apart k' k) objs \<Longrightarrow>
    (k, x) \<in> set objs \<Longrightarrow> get_object k t = Inr x"
proof (induction objs arbitrary: s)
  case (Cons o1 objs)
  obtain k1 x1 where o1: "o1 = (k1, x1)" by (cases o1)
  obtain u s1 where p: "put_object k1 x1 s = (u, s1)" by (cases "put_object k1 x1 s")
  with Cons.prems(1) have rest: "store_all put_object objs s1 = (Inr (), t)" "u = Inr ()"
    by (auto simp: o1 split: sum.splits)
  show ?case
  proof (cases "(k, x) = o1")
    case True
    have "get_object k1 s1 = Inr x1" using p rest(2) by (auto intro: get_put)
    moreover have "\<forall>(k', _) \<in> set objs. apart k' k1" using Cons.prems(2) o1 by auto
    ultimately show ?thesis using store_all_keeps [OF rest(1)] True o1 by auto
  next
    case False
    then show ?thesis using Cons.IH [OF rest(1)] Cons.prems by auto
  qed
qed simp

lemma delete_all_removes:
  "k \<in> set ks \<Longrightarrow> get_object k (delete_all delete_object ks s) \<noteq> Inr y"
proof (induction ks arbitrary: s)
  case (Cons k1 ks)
  have shrink: "get_object k (delete_all delete_object js s) = Inr y \<Longrightarrow> get_object k s = Inr y" for js s
    by (induction js arbitrary: s) (auto simp: delete_all_def dest: delete_creates_nothing)
  show ?case
  proof (cases "k = k1")
    case True
    have "get_object k (snd (delete_object k s)) \<noteq> Inr y" by (rule get_delete)
    then show ?thesis using shrink [of ks "snd (delete_object k1 s)"] True by (auto simp: delete_all_def)
  qed (use Cons in \<open>auto simp: delete_all_def\<close>)
qed simp

lemma delete_all_keeps:
  "\<forall>k' \<in> set ks. apart k' k \<Longrightarrow> get_object k s = Inr y \<Longrightarrow> get_object k (delete_all delete_object ks s) = Inr y"
  by (induction ks arbitrary: s) (auto simp: delete_all_def delete_apart)

end

definition apart_keys :: "string \<Rightarrow> nat \<Rightarrow> string \<Rightarrow> string \<Rightarrow> bool" where
  \<comment> \<open>storing the first leaves the second alone\<close>
  "apart_keys base pid k k' \<longleftrightarrow>
     (\<forall>p p'. resolve base k = Inr p \<longrightarrow> resolve base k' = Inr p' \<longrightarrow> p' \<noteq> p \<and> p' \<noteq> tmp_name pid p)"

lemma get_file: "get base k fs = Inr x \<longleftrightarrow> (\<exists>p. resolve base k = Inr p \<and> dict_get (fs_files fs) p = Some x)"
  by (auto simp: get_def split: sum.splits option.splits)

interpretation local_store: object_store "put base pid" "get base" "delete base" "apart_keys base pid"
proof
  fix k x s t assume p: "put base pid k x s = (Inr (), t)"
  show "get base k t = Inr x"
    by (cases base pid k x s rule: put_cases) (use p in \<open>auto simp: get_file dest: publish_self [OF sym]\<close>)
next
  fix k k' s y x assume "apart_keys base pid k k'" "get base k' s = Inr y"
  then show "get base k' (snd (put base pid k x s)) = Inr y"
    by (auto simp: get_file apart_keys_def put_other)
next
  fix k s y
  show "get base k (snd (delete base k s)) \<noteq> Inr y"
    by (auto simp: get_file delete_def is_file_def split: sum.splits if_splits)
next
  fix k k' s y assume "apart_keys base pid k k'" "get base k' s = Inr y"
  then show "get base k' (snd (delete base k s)) = Inr y"
    by (auto simp: get_file apart_keys_def delete_other)
next
  fix k k' s y assume "get base k' (snd (delete base k s)) = Inr y"
  then show "get base k' s = Inr y"
    by (auto simp: get_file delete_def split: sum.splits if_splits)
qed

lemma apart_resolved:
  assumes "base_ok base" "k \<noteq> ''.''" "k' \<noteq> ''.''" "k' \<noteq> k" "k' \<noteq> tmp_name pid k"
  shows "apart_keys base pid k k'"
  unfolding apart_keys_def
proof (intro allI impI)
  fix p p' assume "resolve base k = Inr p" "resolve base k' = Inr p'"
  then have "p = base @ ''/'' @ k" "p' = base @ ''/'' @ k'"
    using resolve_inside [OF assms(1)] assms(2,3) by blast+
  with assms(4,5) show "p' \<noteq> p \<and> p' \<noteq> tmp_name pid p" by (simp add: tmp_name_def)
qed

text \<open>
  Objects stored one after the other are all read back as stored; deleting some of them later
  removes exactly those. The keys must differ from one another and from the name of the
  temporary file another object is written through: an object stored under such a name is
  overwritten and renamed away.
\<close>

theorem archive_roundtrip:
  assumes "base_ok base" and "store_all (put base pid) objs fs = (Inr (), t)"
    and "sorted_wrt (\<lambda>(k, _) (k', _). k \<noteq> k' \<and> k \<noteq> tmp_name pid k' \<and> k' \<noteq> tmp_name pid k) objs"
    and "\<forall>(k, _) \<in> set objs. k \<noteq> ''.''" and "(k, x) \<in> set objs" and "set ks \<subseteq> fst ` set objs"
  shows "get base k t = Inr x \<and>
    (if k \<in> set ks then \<nexists>y. get base k (delete_all (delete base) ks t) = Inr y
     else get base k (delete_all (delete base) ks t) = Inr x)"
proof -
  have ap: "apart_keys base pid k1 k2"
    if "k1 \<in> fst ` set objs" "k2 \<in> fst ` set objs" "k1 \<noteq> k2" for k1 k2
  proof -
    from that obtain x1 x2 where m: "(k1, x1) \<in> set objs" "(k2, x2) \<in> set objs" by auto
    then obtain i j where ij: "i < length objs" "j < length objs" "objs ! i = (k1, x1)" "objs ! j = (k2, x2)"
      by (auto simp: in_set_conv_nth)
    with that(3) have "i \<noteq> j" by auto
    then have "i < j \<or> j < i" by linarith
    then have "k2 \<noteq> tmp_name pid k1"
      using sorted_wrt_nth_less [OF assms(3), of i j] sorted_wrt_nth_less [OF assms(3), of j i] ij by auto
    moreover have "k1 \<noteq> ''.''" "k2 \<noteq> ''.''" using assms(4) m by auto
    ultimately show ?thesis using apart_resolved [OF assms(1)] that(3) by metis
  qed
  have "sorted_wrt (\<lambda>(k, _) (k', _). apart_keys base pid k' k) objs"
  proof (rule sorted_wrt_mono_rel [OF _ assms(3)])
    fix o1 o2 :: "string \<times> bytes" assume o: "o1 \<in> set objs" "o2 \<in> set objs"
      "(case o1 of (k, _) \<Rightarrow> \<lambda>(k', _). k \<noteq> k' \<and> k \<noteq> tmp_name pid k' \<and> k' \<noteq> tmp_name pid k) o2"
    from o(3) have "fst o2 \<noteq> fst o1" by (cases o1, cases o2) (simp, blast)
    with o(1,2) have "apart_keys base pid (fst o2) (fst o1)" by (intro ap imageI)
    then show "(case o1 of (k, _) \<Rightarrow> \<lambda>(k', _). apart_keys base pid k' k) o2" by (cases o1, cases o2) simp
  qed
  from local_store.store_all_get [OF assms(2) this assms(5)] have g: "get base k t = Inr x" .
  show ?thesis
  proof (cases "k \<in> set ks")
    case True
    then show ?thesis using g local_store.delete_all_removes by auto
  next
    case False
    have "\<forall>k' \<in> set ks. apart_keys base pid k' k"
    proof
      fix k' assume k': "k' \<in> set ks"
      have "k \<in> fst ` set objs" using assms(5) by (rule rev_image_eqI) simp
      moreover from k' False have "k' \<noteq> k" by blast
      ultimately show "apart_keys base pid k' k" using subsetD [OF assms(6) k'] by (intro ap)
    qed
    from local_store.delete_all_keeps [OF this g] show ?thesis using g False by simp
  qed
qed


theorem archive_roundtrip_witness:
  "get ''/d'' ''a'' (delete_all (delete ''/d'') [''b''] (snd (store_all (put ''/d'' 7) [(''a'', [1]), (''b'', [2])]
     \<lparr>fs_files = [], fs_dirs = {''/d''}\<rparr>))) = Inr [1]"
proof -
  let ?objs = "[(''a'', [1]), (''b'', [2])] :: (string \<times> bytes) list"
  let ?fs = "\<lparr>fs_files = [], fs_dirs = {''/d''}\<rparr>"
  have b: "base_ok ''/d''" unfolding base_ok_def by (rule exI [of _ "[''d'']"]) (simp add: plain_segment_def)
  have "fst (store_all (put ''/d'' 7) ?objs ?fs) = Inr ()"
    by (simp add: put_def resolve_exact [OF b] plain_segment_def starts_with_def make_parents_def blocked_path_def parents_def
        upt_rec is_file_def publish_def tmp_name_def Let_def dict_set_def dict_del_def dict_get_def)
  then obtain t where t: "store_all (put ''/d'' 7) ?objs ?fs = (Inr (), t)" by (cases "store_all (put ''/d'' 7) ?objs ?fs") simp
  show ?thesis
    using archive_roundtrip [OF b t, of "''a''" "[1]" "[''b'']"] unfolding t snd_conv by (simp add: tmp_name_def)
qed

section \<open>Signed URLs\<close>

lemma strip_nospace: "\<forall>c \<in> set s. \<not> is_space c \<Longrightarrow> strip s = s"
proof -
  have "lstrip t = t" if "\<forall>c \<in> set t. \<not> is_space c" for t
    using that by (cases t) (auto simp: lstrip_def)
  then show "\<forall>c \<in> set s. \<not> is_space c \<Longrightarrow> strip s = s" by (simp add: strip_def)
qed

lemma py_int_digits: "s \<noteq> [] \<Longrightarrow> list_all is_digit s \<Longrightarrow> split_on CHR ''_'' s = [s]"
  by (rule split_on_id) (auto simp: list_all_iff is_digit_def)

lemma py_int_str_int [simp]: "py_int (str_int e) = Some e"
proof -
  have d: "list_all is_digit (str_nat n)" for n using str_nat_digits [of n] by (simp add: list_all_iff)
  have h: "hd (str_nat n) \<noteq> CHR ''-'' \<and> hd (str_nat n) \<noteq> CHR ''+''" for n
    using d [of n] by (cases "str_nat n") (auto simp: is_digit_def)
  have "\<forall>c \<in> set (str_int e). \<not> is_space c"
    using d by (auto simp: str_int_def list_all_iff digit_not_space) (simp add: is_space_def)
  then have "strip (str_int e) = str_int e" by (rule strip_nospace)
  then show ?thesis using d h by (simp add: py_int_def str_int_def Let_def py_int_digits)
qed

lemma str_int_no_colon: "CHR '':'' \<notin> set (str_int e)"
proof -
  have "CHR '':'' \<notin> set (str_nat n)" for n
  proof
    assume "CHR '':'' \<in> set (str_nat n)"
    with str_nat_digits [of n] have "is_digit CHR '':''" by blast
    then show False by (simp add: is_digit_def)
  qed
  then show ?thesis by (simp add: str_int_def)
qed

lemma message_unique: "key @ '':'' @ str_int e = key' @ '':'' @ str_int e' \<longleftrightarrow> key = key' \<and> e = e'"
proof
  have tail: "takeWhile (\<lambda>c. c \<noteq> CHR '':'') (rev (k @ '':'' @ str_int i)) = rev (str_int i)" for k i
    using str_int_no_colon [of i] by (subst append_assoc [symmetric], subst rev_append, subst takeWhile_append2) auto
  assume eq: "key @ '':'' @ str_int e = key' @ '':'' @ str_int e'"
  have "rev (str_int e) = rev (str_int e')" using tail [of key e] tail [of key' e'] unfolding eq by (rule subst)
  then have "str_int e = str_int e'" by simp
  moreover from this have "e = e'" by (metis option.inject py_int_str_int)
  ultimately show "key = key' \<and> e = e'" using eq by simp
qed simp




end
