(* ===== verification/Stream_Urls.thy ===== *)
theory Stream_Urls
  imports Egress Storage
begin

text \<open>
  The stream URL conventions: \<open>packages/video/tplink.py\<close>, \<open>packages/video/presets.py\<close>, and the
  masking of credentials before a built URL is shown (\<open>apps/api/routers/cameras.py\<close>).
\<close>

section \<open>TP-Link devices\<close>

record tplink_profile =
  tl_vendor :: string
  tl_label :: string
  tl_rtsp_port :: int
  tl_onvif_ports :: "int list"
  tl_main_stream :: string
  tl_sub_stream :: string
  tl_wired_only :: bool
  tl_needs_account :: bool
  tl_notes :: string

definition vigi_camera :: tplink_profile where
  "vigi_camera = \<lparr>tl_vendor = ''vigi_camera'', tl_label = ''TP-Link VIGI camera (direct RTSP)'', tl_rtsp_port = 554,
     tl_onvif_ports = [80, 2020], tl_main_stream = ''stream1'', tl_sub_stream = ''stream2'', tl_wired_only = False,
     tl_needs_account = False,
     tl_notes = ''ONVIF Profile S/G/T; HTTP digest auth (MD5 or SHA-256). Use /stream2 substream for AI.''\<rparr>"

definition vigi_nvr :: tplink_profile where
  "vigi_nvr = \<lparr>tl_vendor = ''vigi_nvr'', tl_label = ''TP-Link VIGI NVR (per-channel RTSP)'', tl_rtsp_port = 554,
     tl_onvif_ports = [80, 2020], tl_main_stream = ''live/ch/{ch}/stream/1'', tl_sub_stream = ''live/ch/{ch}/stream/2'',
     tl_wired_only = False, tl_needs_account = False,
     tl_notes = ''Per-channel: rtsp://<nvr>/live/ch/<N>/stream/<1|2>. Channel 0 = channel-zero overview (main only).''\<rparr>"

definition tapo :: tplink_profile where
  "tapo = \<lparr>tl_vendor = ''tapo'', tl_label = ''TP-Link Tapo (wired only)'', tl_rtsp_port = 554, tl_onvif_ports = [2020],
     tl_main_stream = ''stream1'', tl_sub_stream = ''stream2'', tl_wired_only = True, tl_needs_account = True,
     tl_notes = ''RTSP/ONVIF on wired models only; create a Camera Account in the Tapo app (separate from Tapo login). Battery/solar models unsupported. Credentials go in the URL.''\<rparr>"

definition profiles :: "(string, tplink_profile) dict" where
  "profiles = [(''vigi_camera'', vigi_camera), (''vigi_nvr'', vigi_nvr), (''tapo'', tapo)]"

definition host_port :: "string \<Rightarrow> int \<Rightarrow> string" where
  "host_port ip port = ip @ '':'' @ str_int port"

definition maybe_creds :: "string option \<Rightarrow> string option \<Rightarrow> string" where
  "maybe_creds user password =
     (case (user, password) of
        (Some u, Some p) \<Rightarrow> if u \<noteq> [] \<and> p \<noteq> [] then quote_all u @ '':'' @ quote_all p @ ''@'' else []
      | _ \<Rightarrow> [])"

definition camera_rtsp_url ::
  "tplink_profile \<Rightarrow> string \<Rightarrow> string option \<Rightarrow> string option \<Rightarrow> int option \<Rightarrow> string \<Rightarrow> string" where
  "camera_rtsp_url profile ip user password port stream =
     (let p = (case port of Some n \<Rightarrow> if n = 0 then tl_rtsp_port profile else n | None \<Rightarrow> tl_rtsp_port profile);
          path = (if stream = ''main'' then tl_main_stream profile else tl_sub_stream profile)
      in ''rtsp://'' @ maybe_creds user password @ host_port ip p @ ''/'' @ path)"

definition nvr_channel_rtsp_url ::
  "string \<Rightarrow> int \<Rightarrow> string \<Rightarrow> int \<Rightarrow> string option \<Rightarrow> string option \<Rightarrow> string" where
  "nvr_channel_rtsp_url ip channel stream port user password =
     (let stream_no = (if stream = ''main'' then 1 else 2);
          path = ''live/ch/'' @ str_int channel @ ''/stream/'' @ str_int stream_no
      in ''rtsp://'' @ maybe_creds user password @ host_port ip port @ ''/'' @ path)"

definition list_profiles :: "tplink_profile list" where
  "list_profiles = map snd profiles"

section \<open>Vendor presets\<close>

definition auth_part :: "string option \<Rightarrow> string option \<Rightarrow> string" where
  \<comment> \<open>\<open>f"{user}:{password}@"\<close>, unquoted, when a user is given\<close>
  "auth_part user password =
     (case user of None \<Rightarrow> []
      | Some u \<Rightarrow> if u = [] then [] else u @ '':'' @ (case password of None \<Rightarrow> ''None'' | Some p \<Rightarrow> p) @ ''@'')"

definition rtsp_head :: "string \<Rightarrow> string option \<Rightarrow> string option \<Rightarrow> int \<Rightarrow> string" where
  "rtsp_head ip user password port = ''rtsp://'' @ auth_part user password @ host_port ip port"

definition pad2 :: "int \<Rightarrow> string" where
  \<comment> \<open>the format \<open>02d\<close>\<close>
  "pad2 n = (if n < 0 then CHR ''-'' # zfill 1 (str_nat (nat (- n))) else zfill 2 (str_nat (nat n)))"

definition tplink_url :: "string \<Rightarrow> int \<Rightarrow> string \<Rightarrow> string option \<Rightarrow> string option \<Rightarrow> int \<Rightarrow> string" where
  "tplink_url ip ch stream user password port =
     rtsp_head ip user password port @ ''/live/ch'' @ str_int ch @ ''/stream/'' @ (if stream = ''main'' then ''main'' else ''sub'')"

definition axis_url :: "string \<Rightarrow> string \<Rightarrow> string option \<Rightarrow> string option \<Rightarrow> int \<Rightarrow> string" where
  "axis_url ip stream user password port =
     rtsp_head ip user password port @ ''/axis-media/media.amp?camera=1&resolution=640x360&videostream='' @
       (if stream = ''main'' then ''1'' else ''2'')"

definition hanwha_url :: "string \<Rightarrow> string \<Rightarrow> string option \<Rightarrow> string option \<Rightarrow> int \<Rightarrow> string" where
  "hanwha_url ip stream user password port =
     rtsp_head ip user password port @ ''/profile'' @ (if stream = ''main'' then [] else ''2'')"

definition bosch_url :: "string \<Rightarrow> string \<Rightarrow> string option \<Rightarrow> string option \<Rightarrow> int \<Rightarrow> string" where
  "bosch_url ip stream user password port =
     rtsp_head ip user password port @ ''/rtsp_tunnel?channel=1&stream='' @ (if stream = ''main'' then ''1'' else ''2'')"

definition reolink_url :: "string \<Rightarrow> int \<Rightarrow> string \<Rightarrow> string option \<Rightarrow> string option \<Rightarrow> int \<Rightarrow> string" where
  "reolink_url ip ch stream user password port =
     rtsp_head ip user password port @ ''/h264Preview_'' @ pad2 ch @ ''_'' @ (if stream = ''main'' then ''0'' else ''1'')"

definition hikvision_url :: "string \<Rightarrow> string \<Rightarrow> string option \<Rightarrow> string option \<Rightarrow> int \<Rightarrow> string" where
  "hikvision_url ip stream user password port =
     rtsp_head ip user password port @ ''/Streaming/Channels/'' @ (if stream = ''main'' then ''101'' else ''102'')"

definition dahua_url :: "string \<Rightarrow> string \<Rightarrow> string option \<Rightarrow> string option \<Rightarrow> int \<Rightarrow> string" where
  "dahua_url ip stream user password port =
     rtsp_head ip user password port @ ''/cam/realmonitor?channel=1&subtype='' @ (if stream = ''main'' then ''0'' else ''1'')"

definition uniview_url :: "string \<Rightarrow> string \<Rightarrow> string option \<Rightarrow> string option \<Rightarrow> int \<Rightarrow> string" where
  "uniview_url ip stream user password port =
     rtsp_head ip user password port @ ''/media/video'' @ (if stream = ''main'' then [] else ''2'')"

datatype url_fn =
    Per_channel "string \<Rightarrow> int \<Rightarrow> string \<Rightarrow> string option \<Rightarrow> string option \<Rightarrow> int \<Rightarrow> string"
  | Per_camera "string \<Rightarrow> string \<Rightarrow> string option \<Rightarrow> string option \<Rightarrow> int \<Rightarrow> string"

record vendor =
  vd_label :: string
  vd_fn :: "url_fn option"
  vd_nvr :: bool
  vd_channels :: bool
  vd_note :: "string option"

definition vendors :: "(string, vendor) dict" where
  "vendors =
     [(''vigi_nvr'', \<lparr>vd_label = ''TP-Link VIGI NVR'', vd_fn = Some (Per_channel tplink_url), vd_nvr = True, vd_channels = True, vd_note = None\<rparr>),
      (''axis'', \<lparr>vd_label = ''Axis Communications'', vd_fn = Some (Per_camera axis_url), vd_nvr = False, vd_channels = False, vd_note = None\<rparr>),
      (''hanwha'', \<lparr>vd_label = ''Hanwha (Wisenet)'', vd_fn = Some (Per_camera hanwha_url), vd_nvr = False, vd_channels = False, vd_note = None\<rparr>),
      (''bosch'', \<lparr>vd_label = ''Bosch'', vd_fn = Some (Per_camera bosch_url), vd_nvr = False, vd_channels = False, vd_note = None\<rparr>),
      (''reolink'', \<lparr>vd_label = ''Reolink'', vd_fn = Some (Per_channel reolink_url), vd_nvr = False, vd_channels = True, vd_note = None\<rparr>),
      (''hikvision'', \<lparr>vd_label = ''Hikvision (ISAPI)'', vd_fn = Some (Per_camera hikvision_url), vd_nvr = False, vd_channels = False, vd_note = None\<rparr>),
      (''dahua'', \<lparr>vd_label = ''Dahua (CGI)'', vd_fn = Some (Per_camera dahua_url), vd_nvr = False, vd_channels = False, vd_note = None\<rparr>),
      (''uniview'', \<lparr>vd_label = ''Uniview'', vd_fn = Some (Per_camera uniview_url), vd_nvr = False, vd_channels = False, vd_note = None\<rparr>),
      (''onvif'', \<lparr>vd_label = ''Generic ONVIF (auto-discover)'', vd_fn = None, vd_nvr = False, vd_channels = False, vd_note = None\<rparr>),
      (''gbt28181'', \<lparr>vd_label = ''GB/T 28181 (CN standard)'', vd_fn = None, vd_nvr = True, vd_channels = False,
         vd_note = Some ''GB/T 28181 streams are negotiated over SIP; configure the SIP server + device ID in the NVR panel.''\<rparr>)]"

definition vendor_profiles :: "(string \<times> string \<times> bool \<times> bool \<times> string option) list" where
  "vendor_profiles = map (\<lambda>(key, v). (key, vd_label v, vd_nvr v, vd_channels v, vd_note v)) vendors"

record preset_body =
  pb_vendor :: string
  pb_cam_ip :: string
  pb_channel :: int
  pb_stream :: string
  pb_user :: "string option"
  pb_password :: "string option"
  pb_port :: int

definition build_url :: "preset_body \<Rightarrow> py_error + string" where
  "build_url b =
     (case dict_get vendors (pb_vendor b) of
        None \<Rightarrow> Inl KeyError
      | Some v \<Rightarrow>
          (case vd_fn v of
             None \<Rightarrow> Inl ValueError
           | Some (Per_channel f) \<Rightarrow> Inr (f (pb_cam_ip b) (pb_channel b) (pb_stream b) (pb_user b) (pb_password b) (pb_port b))
           | Some (Per_camera f) \<Rightarrow> Inr (f (pb_cam_ip b) (pb_stream b) (pb_user b) (pb_password b) (pb_port b))))"

section \<open>Masking\<close>

definition user_info :: "string \<Rightarrow> (string \<times> string option) option" where
  \<comment> \<open>user name and password of a network location\<close>
  "user_info netloc =
     (let parts = split_on CHR ''@'' netloc; info = join_with ''@'' (butlast parts) in
      if length parts < 2 then None
      else if CHR '':'' \<in> set info then Some (before CHR '':'' info, Some (after CHR '':'' info)) else Some (info, None))"

definition port_part :: "string \<Rightarrow> string" where
  "port_part netloc =
     (let h = List.last (split_on CHR ''@'' netloc) in
      if CHR ''['' \<in> set h then after CHR '':'' (after CHR '']'' (after CHR ''['' h)) else after CHR '':'' h)"

definition port_of :: "string \<Rightarrow> py_error + nat option" where
  "port_of netloc =
     (let p = port_part netloc in
      if p = [] then Inr None
      else if \<not> list_all is_digit p \<or> 65535 < nat_of_digits p then Inl ValueError
      else Inr (Some (nat_of_digits p)))"

definition url_rest :: "string \<Rightarrow> string" where
  \<comment> \<open>path, query and fragment, an empty query or fragment dropped\<close>
  "url_rest r =
     (let frag = after CHR ''#'' r; u = before CHR ''#'' r; query = after CHR ''?'' u; path = before CHR ''?'' u in
      path @ (if query \<noteq> [] then CHR ''?'' # query else []) @ (if frag \<noteq> [] then CHR ''#'' # frag else []))"

definition mask_credentials :: "string \<Rightarrow> py_error + string" where
  "mask_credentials url =
     (case urlparse url of
        Inl err \<Rightarrow> Inl err
      | Inr p \<Rightarrow>
          (case user_info (pu_netloc p) of
             Some (user, Some password) \<Rightarrow>
               if password = [] then Inr url
               else (case port_of (pu_netloc p) of
                       Inl err \<Rightarrow> Inl err
                     | Inr port \<Rightarrow>
                         (let netloc = user @ '':****@'' @ (if pu_hostname p = [] then ''None'' else pu_hostname p) @
                                (case port of Some n \<Rightarrow> if n = 0 then [] else CHR '':'' # str_nat n | None \<Rightarrow> []);
                              u = clean_url url;
                              rest = drop (2 + length (pu_netloc p)) (if has_scheme u then after CHR '':'' u else u)
                          in Inr ((if pu_scheme p = [] then [] else pu_scheme p @ '':'') @ ''//'' @ netloc @ url_rest rest)))
           | _ \<Rightarrow> Inr url))"

definition build_preset :: "preset_body \<Rightarrow> nat + string" where
  \<comment> \<open>a status, or the URL that is shown\<close>
  "build_preset b =
     (case build_url b of
        Inl _ \<Rightarrow> Inl 400
      | Inr url \<Rightarrow> (case mask_credentials url of Inl _ \<Rightarrow> Inl 500 | Inr shown \<Rightarrow> Inr shown))"


section \<open>Which host a built URL names\<close>

lemma lower_alpha: "is_letter c \<longleftrightarrow> (65 \<le> (of_char c :: nat) \<and> (of_char c :: nat) \<le> 90) \<or> (97 \<le> (of_char c :: nat) \<and> (of_char c :: nat) \<le> 122)"
  by (auto simp: is_letter_def lower_char_def)

definition url_safe :: "char \<Rightarrow> bool" where
  "url_safe c \<longleftrightarrow> unreserved c \<or> c = CHR ''%''"

lemma url_safe_not:
  assumes "url_safe c"
  shows "c \<notin> {CHR ''/'', CHR ''?'', CHR ''#'', CHR ''@'', CHR '':'', CHR ''['', CHR '']'', CHR 0x09, CHR 0x0A, CHR 0x0D}"
  using assms by (auto simp: url_safe_def unreserved_def is_digit_def)

lemma hex_upper_safe: "n < 16 \<Longrightarrow> url_safe (hex_upper n)"
  by (auto simp: url_safe_def unreserved_def hex_upper_def of_char_of)

lemma utf8_bytes_small: "b \<in> set (utf8 c) \<Longrightarrow> b < 256"
proof -
  have "of_char c < (256::nat)" by (rule nat_of_char_less_256)
  then have "of_char c div 64 < (4::nat)" by (intro less_mult_imp_div_less) simp
  then show "b \<in> set (utf8 c) \<Longrightarrow> b < 256" using \<open>of_char c < (256::nat)\<close> by (auto simp: utf8_def Let_def split: if_splits)
qed

lemma list_all_concat_map: "(\<And>c. list_all P (f c)) \<Longrightarrow> list_all P (concat (map f s))"
  by (induction s) simp_all

lemma quote_all_safe: "list_all url_safe (quote_all s)"
proof -
  have "list_all url_safe (if unreserved c then [c]
      else concat (map (\<lambda>b. [CHR ''%'', hex_upper (b div 16), hex_upper (b mod 16)]) (utf8 c)))" for c
  proof (cases "unreserved c")
    case False
    have "list_all url_safe [CHR ''%'', hex_upper (b div 16), hex_upper (b mod 16)]" if "b \<in> set (utf8 c)" for b
    proof -
      have "b div 16 < 16" using utf8_bytes_small [OF that] by (intro less_mult_imp_div_less) simp
      then show ?thesis by (simp add: hex_upper_safe) (simp add: url_safe_def)
    qed
    moreover have "url_safe CHR ''%''" by (simp add: url_safe_def)
    ultimately show ?thesis using False by (auto simp: list_all_iff)
  qed (simp add: url_safe_def)
  then show ?thesis unfolding quote_all_def by (rule list_all_concat_map)
qed

lemma str_int_safe: "list_all url_safe (str_int n)"
proof -
  have "list_all url_safe (str_nat m)" for m
    using str_nat_digits [of m] by (auto simp: list_all_iff url_safe_def unreserved_def)
  then show ?thesis by (simp add: str_int_def url_safe_def unreserved_def)
qed

definition netloc_char :: "char \<Rightarrow> bool" where
  "netloc_char c \<longleftrightarrow> url_safe c \<or> c = CHR ''@'' \<or> c = CHR '':''"

lemma netloc_char_not:
  "netloc_char c \<Longrightarrow> c \<notin> {CHR ''/'', CHR ''?'', CHR ''#'', CHR ''['', CHR '']'', CHR 0x09, CHR 0x0A, CHR 0x0D}"
  using url_safe_not [of c] by (auto simp: netloc_char_def)

lemma creds_chars: "list_all netloc_char (maybe_creds user password)"
  using quote_all_safe by (auto simp: maybe_creds_def netloc_char_def list_all_iff split: option.splits)

lemma clean_id: "u \<noteq> [] \<Longrightarrow> 32 < (of_char (hd u) :: nat) \<Longrightarrow> list_all (\<lambda>c. c \<notin> {CHR 0x09, CHR 0x0A, CHR 0x0D}) u \<Longrightarrow> clean_url u = u"
  by (cases u) (auto simp: clean_url_def list_all_iff filter_id_conv)

lemma parse_rtsp:
  assumes "list_all netloc_char netloc" and "list_all (\<lambda>c. c \<notin> {CHR 0x09, CHR 0x0A, CHR 0x0D}) path"
  shows "urlparse (''rtsp://'' @ netloc @ ''/'' @ path) =
    Inr \<lparr>pu_scheme = ''rtsp'', pu_netloc = netloc, pu_hostname = hostname netloc\<rparr>"
proof -
  let ?u = "''rtsp://'' @ netloc @ ''/'' @ path"
  have n: "\<forall>c \<in> set netloc. c \<notin> {CHR ''/'', CHR ''?'', CHR ''#'', CHR ''['', CHR '']'', CHR 0x09, CHR 0x0A, CHR 0x0D}"
    using assms(1) netloc_char_not unfolding list_all_iff by blast
  have c: "clean_url ?u = ?u"
    using n assms(2) by (intro clean_id) (auto simp: list_all_iff)
  have s: "has_scheme ?u" "before CHR '':'' ?u = ''rtsp''" "after CHR '':'' ?u = ''//'' @ netloc @ ''/'' @ path"
    by (simp_all add: has_scheme_def before_def after_def is_letter_def lower_char_def)
  have nl: "netloc_of (''//'' @ netloc @ ''/'' @ path) = netloc"
    using n by (auto simp: netloc_of_def starts_with_def takeWhile_append2 intro!: takeWhile_append2 [THEN trans])
  have b: "brackets_ok netloc" using n by (auto simp: brackets_ok_def)
  have l: "lower ''rtsp'' = ''rtsp''" by (simp add: lower_def lower_char_def)
  show ?thesis using s(1) by (simp only: urlparse_def Let_def c s if_True nl b l)
qed

lemma host_of_creds:
  assumes "list_all url_safe ip" and "CHR ''%'' \<notin> set ip"
  shows "hostname (maybe_creds user password @ ip @ '':'' @ str_int port) = lower ip"
proof -
  have i: "\<forall>c \<in> set ip. c \<notin> {CHR ''@'', CHR '':'', CHR ''['', CHR ''%''}"
    using assms url_safe_not unfolding list_all_iff by blast
  have p: "\<forall>c \<in> set (str_int port). c \<notin> {CHR ''@'', CHR ''[''}"
    using str_int_safe [of port] url_safe_not unfolding list_all_iff by blast
  have q: "CHR ''@'' \<notin> set (quote_all s)" for s
    using quote_all_safe [of s] url_safe_not unfolding list_all_iff by blast
  have t: "split_on CHR ''@'' (ip @ '':'' @ str_int port) = [ip @ '':'' @ str_int port]"
    using i p by (intro split_on_id) auto
  have "List.last (split_on CHR ''@'' (maybe_creds user password @ ip @ '':'' @ str_int port)) = ip @ '':'' @ str_int port"
  proof (cases "maybe_creds user password = []")
    case False
    then obtain u w where c: "maybe_creds user password = (quote_all u @ '':'' @ quote_all w) @ [CHR ''@'']"
      by (auto simp: maybe_creds_def split: option.splits if_splits)
    have "split_on CHR ''@'' ((quote_all u @ '':'' @ quote_all w) @ CHR ''@'' # (ip @ '':'' @ str_int port)) =
        (quote_all u @ '':'' @ quote_all w) # [ip @ '':'' @ str_int port]"
      using q by (subst split_on_append) (simp_all only: t, auto)
    then show ?thesis by (simp add: c)
  qed (simp add: t [simplified])
  note last = this
  have nb: "CHR ''['' \<notin> set (ip @ '':'' @ str_int port)" using i p by auto
  have "takeWhile (\<lambda>x. x \<noteq> CHR '':'') (ip @ '':'' @ str_int port) = ip"
    using i by (subst takeWhile_append2) auto
  then have "host_part (maybe_creds user password @ ip @ '':'' @ str_int port) = ip"
    unfolding host_part_def Let_def last before_def using nb by (simp only: if_False)
  moreover have "before CHR ''%'' ip = ip" "dropWhile (\<lambda>c. c \<noteq> CHR ''%'') ip = []"
    using i by (auto simp: before_def takeWhile_eq_all_conv)
  ultimately show ?thesis by (simp add: hostname_def Let_def)
qed


lemma parse_channel_url:
  assumes "list_all url_safe ip" and "CHR ''%'' \<notin> set ip"
  shows "\<exists>p. urlparse (nvr_channel_rtsp_url ip ch stream port user password) = Inr p \<and>
    pu_scheme p = ''rtsp'' \<and> pu_hostname p = lower ip"
proof -
  have h: "list_all netloc_char (maybe_creds user password @ host_port ip port)"
    using creds_chars assms(1) str_int_safe [of port] by (auto simp: host_port_def netloc_char_def list_all_iff)
  have d: "list_all (\<lambda>c. c \<notin> {CHR 0x09, CHR 0x0A, CHR 0x0D}) (str_int n)" for n
    using str_int_safe [of n] url_safe_not unfolding list_all_iff by blast
  obtain path where u: "nvr_channel_rtsp_url ip ch stream port user password =
      ''rtsp://'' @ (maybe_creds user password @ host_port ip port) @ ''/'' @ path"
    and p: "list_all (\<lambda>c. c \<notin> {CHR 0x09, CHR 0x0A, CHR 0x0D}) path"
  proof
    let ?path = "''live/ch/'' @ str_int ch @ ''/stream/'' @ str_int (if stream = ''main'' then 1 else 2)"
    show "nvr_channel_rtsp_url ip ch stream port user password =
      ''rtsp://'' @ (maybe_creds user password @ host_port ip port) @ ''/'' @ ?path"
      by (simp add: nvr_channel_rtsp_url_def Let_def)
    show "list_all (\<lambda>c. c \<notin> {CHR 0x09, CHR 0x0A, CHR 0x0D}) ?path" using d by auto
  qed
  show ?thesis unfolding u parse_rtsp [OF h p] using host_of_creds [OF assms, of user password port]
    by (simp add: host_port_def)
qed

lemma preset_leak:
  "build_preset \<lparr>pb_vendor = ''bosch'', pb_cam_ip = ''10.0.0.1'', pb_channel = 1, pb_stream = ''sub'', pb_user = Some ''a'',
      pb_password = Some ''p/w'', pb_port = 554\<rparr> = Inr ''rtsp://a:p/w@10.0.0.1:554/rtsp_tunnel?channel=1&stream=2''"
proof -
  have d: "str_int 554 = ''554''"
  proof -
    have "char_of (53::nat) = CHR ''5''" "char_of (52::nat) = CHR ''4''" by code_simp+
    then show ?thesis by (simp add: str_int_def str_nat.simps digit_char_def)
  qed
  have v: "dict_get vendors ''bosch'' = Some \<lparr>vd_label = ''Bosch'', vd_fn = Some (Per_camera bosch_url), vd_nvr = False,
      vd_channels = False, vd_note = None\<rparr>" by (simp add: vendors_def dict_get_def)
  have "\<exists>p. urlparse ''rtsp://a:p/w@10.0.0.1:554/rtsp_tunnel?channel=1&stream=2'' = Inr p \<and> pu_netloc p = ''a:p''"
    by (simp add: url_simps)
  moreover have "user_info ''a:p'' = None" by (simp add: user_info_def)
  ultimately have "mask_credentials ''rtsp://a:p/w@10.0.0.1:554/rtsp_tunnel?channel=1&stream=2'' =
      Inr ''rtsp://a:p/w@10.0.0.1:554/rtsp_tunnel?channel=1&stream=2''" by (auto simp: mask_credentials_def)
  then show ?thesis
    by (simp add: build_preset_def build_url_def v bosch_url_def rtsp_head_def auth_part_def host_port_def d)
qed

text \<open>
  Whatever the user name and password, the channel URL built for a recorder names the
  recorder's host, so the egress guard decides about that host: credentials are quoted. The vendor
  presets insert them as they are: a password with a slash ends the network location, and the
  masked URL that is shown then carries the password in the clear.
\<close>

theorem channel_url_host:
  assumes "list_all url_safe ip" and "CHR ''%'' \<notin> set ip" and "ip \<noteq> []" and "dns (lower ip) = Some addrs"
    and "parse_allowlist allowlist = Inr nets" and "\<nexists>i. parse_ip (lower ip) = Some i"
  shows "((\<exists>p. validate_egress_url dns allowlist [] (nvr_channel_rtsp_url ip ch stream port user password) = Inr p) \<longleftrightarrow>
      list_all (\<lambda>a. case parse_ip a of None \<Rightarrow> True | Some i \<Rightarrow> public i) addrs) \<and>
    build_preset \<lparr>pb_vendor = ''bosch'', pb_cam_ip = ''10.0.0.1'', pb_channel = 1, pb_stream = ''sub'', pb_user = Some ''a'',
      pb_password = Some ''p/w'', pb_port = 554\<rparr> = Inr ''rtsp://a:p/w@10.0.0.1:554/rtsp_tunnel?channel=1&stream=2''"
proof -
  obtain p where p: "urlparse (nvr_channel_rtsp_url ip ch stream port user password) = Inr p"
    "pu_scheme p = ''rtsp''" "pu_hostname p = lower ip"
    using parse_channel_url [OF assms(1,2)] by metis
  have "lower ip \<noteq> []" using assms(3) by (simp add: lower_def)
  moreover have "lower ''rtsp'' = ''rtsp''" by (simp add: lower_def lower_char_def)
  moreover have "\<not> list_ex (host_in_network (lower ip)) nets" using assms(6) by (auto simp: list_ex_iff host_in_network_def)
  ultimately have "validate_egress_url dns allowlist [] (nvr_channel_rtsp_url ip ch stream port user password) =
      bind_ok (check_addresses False addrs) (\<lambda>_. Inr p)"
    by (simp add: validate_egress_url_def p assms(4,5) allowed_schemes_def)
  then show ?thesis using check_addresses_ok [of False addrs] preset_leak by (cases "check_addresses False addrs") auto
qed

theorem channel_url_host_witness:
  "\<exists>p. validate_egress_url (\<lambda>_. Some [''8.8.8.8'']) [] [] (nvr_channel_rtsp_url ''nvr'' 1 ''main'' 554 (Some ''a@b'') (Some ''x/y'')) = Inr p"
proof -
  have l: "lower ''nvr'' = ''nvr''" by (simp add: lower_def lower_char_def)
  have "parse_ip ''nvr'' = None" by (simp add: parse_simps)
  moreover have "parse_ip ''8.8.8.8'' = Some (V4 134744072)" by (simp add: parse_simps)
  moreover have "list_all url_safe ''nvr''" by (simp add: url_safe_def unreserved_def)
  ultimately show ?thesis
    using channel_url_host [of "''nvr''" "\<lambda>_. Some [''8.8.8.8'']" "[''8.8.8.8'']" "[]" "[]" 1 "''main''" 554 "Some ''a@b''" "Some ''x/y''"]
    by (simp add: l public_def)
qed

end
