(* ===== verification/Cameras.thy ===== *)
theory Cameras
  imports Auth Stream_Urls
begin

text \<open>
  \<open>apps/api/routers/cameras.py\<close>: recorders and cameras, their stream URLs, snapshots, and the
  recordings a camera has. An exception inside a handler loses its uncommitted changes. The
  resolver, the cipher, the ISO 8601 parser and the frame grabber are parameters; a body value of a
  type the database driver decides about is left open.
\<close>

section \<open>Recorders\<close>

definition guard_url :: "(string \<Rightarrow> string list option) \<Rightarrow> settings \<Rightarrow> string \<Rightarrow> py_error + parsed_url" where
  "guard_url dns st url = validate_egress_url dns (ssrf_allowlist_cidrs st) [] url"

definition guard_error :: "py_error \<Rightarrow> http_error" where
  \<comment> \<open>\<open>except UnsafeUrlError\<close>: 400\<close>
  "guard_error err = (if err = UnsafeUrlError then Http 400 else Crash err)"

definition encrypt_opt :: "api_env \<Rightarrow> string option \<Rightarrow> string option" where
  "encrypt_opt env x = (case x of None \<Rightarrow> None | Some s \<Rightarrow> if s = [] then None else Some (ae_encrypt env s))"

record nvr_body =
  nb_name :: string
  nb_host :: string
  nb_port :: int
  nb_onvif :: bool
  nb_username :: "string option"
  nb_password :: "string option"

definition put_nvr :: "string \<Rightarrow> nvr_row \<Rightarrow> app \<Rightarrow> app" where
  "put_nvr i r a = a\<lparr>ap_db := (ap_db a)\<lparr>db_nvrs := dict_set i r (db_nvrs (ap_db a))\<rparr>\<rparr>"

definition put_camera :: "string \<Rightarrow> camera_row \<Rightarrow> app \<Rightarrow> app" where
  "put_camera i r a = a\<lparr>ap_db := (ap_db a)\<lparr>db_cameras := dict_set i r (db_cameras (ap_db a))\<rparr>\<rparr>"

definition create_nvr :: "api_env \<Rightarrow> nvr_body \<Rightarrow> string \<times> user_row \<Rightarrow> request \<Rightarrow> app \<Rightarrow> string outcome" where
  "create_nvr env b user rq a =
     (let (i, a1) = fresh_id env a;
          row = \<lparr>nv_name = nb_name b, nv_host = nb_host b, nv_port = nb_port b, nv_onvif = nb_onvif b,
                 nv_username_enc = encrypt_opt env (nb_username b), nv_password_enc = encrypt_opt env (nb_password b),
                 nv_created_at = rq_now rq\<rparr>
      in (Inr i, write_audit env rq (Some user) [] ''nvr.create'' i ''success'' [] None (put_nvr i row a1)))"

definition list_nvr :: "app \<Rightarrow> (string \<times> string \<times> string \<times> int \<times> bool) list" where
  "list_nvr a = map (\<lambda>(i, r). (i, nv_name r, nv_host r, nv_port r, nv_onvif r)) (db_nvrs (ap_db a))"

section \<open>Provisioning a recorder\<close>

record seed_body =
  sb_nvr_ip :: string
  sb_nvr_name :: string
  sb_username :: "string option"
  sb_password :: "string option"
  sb_channel_count :: int
  sb_start_channel :: int
  sb_rtsp_port :: int
  sb_onvif_port :: int
  sb_retention_days :: int

definition seed_body_ok :: "seed_body \<Rightarrow> bool" where
  "seed_body_ok b \<longleftrightarrow> 1 \<le> sb_channel_count b \<and> sb_channel_count b \<le> 64 \<and> 0 \<le> sb_start_channel b \<and>
     sb_start_channel b \<le> 64 \<and> 1 \<le> sb_retention_days b \<and> sb_retention_days b \<le> 3650"

definition channel_url :: "seed_body \<Rightarrow> int \<Rightarrow> string \<Rightarrow> string" where
  "channel_url b ch stream = nvr_channel_rtsp_url (sb_nvr_ip b) ch stream (sb_rtsp_port b) (sb_username b) (sb_password b)"

definition channel_camera :: "api_env \<Rightarrow> seed_body \<Rightarrow> string \<Rightarrow> timestamp \<Rightarrow> int \<Rightarrow> camera_row" where
  "channel_camera env b nvr_id now ch =
     \<lparr>ca_name = sb_nvr_name b @ '' ch'' @ str_int ch, ca_uid = None, ca_nvr = Some nvr_id,
      ca_stream_enc = Some (ae_encrypt env (channel_url b ch ''main'')),
      ca_substream_enc = Some (ae_encrypt env (channel_url b ch ''sub'')),
      ca_status = ''OFFLINE'', ca_health = ''unknown'', ca_last_seen = None, ca_resolution = [], ca_fps = 0,
      ca_timezone = ''UTC'', ca_masks = None, ca_retention = Some (JObj [(''days'', JNum (of_int (sb_retention_days b)))]),
      ca_rules = None, ca_created_at = now\<rparr>"

fun guard_all :: "(string \<Rightarrow> string list option) \<Rightarrow> settings \<Rightarrow> string list \<Rightarrow> http_error + unit" where
  "guard_all dns st [] = Inr ()"
| "guard_all dns st (u # us) = (case guard_url dns st u of Inl err \<Rightarrow> Inl (guard_error err) | Inr _ \<Rightarrow> guard_all dns st us)"

fun provision_channels ::
  "api_env \<Rightarrow> settings \<Rightarrow> (string \<Rightarrow> string list option) \<Rightarrow> seed_body \<Rightarrow> string \<Rightarrow> timestamp \<Rightarrow> int list \<Rightarrow> app \<Rightarrow>
   (http_error + (string \<times> string \<times> int \<times> string \<times> string) list) \<times> app" where
  "provision_channels env st dns b nvr_id now [] a = (Inr [], a)"
| "provision_channels env st dns b nvr_id now (ch # chs) a =
     (case guard_all dns st [channel_url b ch ''main'', channel_url b ch ''sub''] of
        Inl err \<Rightarrow> (Inl err, a)
      | Inr _ \<Rightarrow>
          (let row = channel_camera env b nvr_id now ch; (i, a1) = fresh_id env a in
           case provision_channels env st dns b nvr_id now chs (put_camera i row a1) of
             (Inl err, a2) \<Rightarrow> (Inl err, a2)
           | (Inr created, a2) \<Rightarrow>
               (Inr ((i, ca_name row, ch, channel_url b ch ''main'', channel_url b ch ''sub'') # created), a2)))"

definition provision_tplink_nvr ::
  "api_env \<Rightarrow> settings \<Rightarrow> (string \<Rightarrow> string list option) \<Rightarrow> seed_body \<Rightarrow> string \<times> user_row \<Rightarrow> request \<Rightarrow> app \<Rightarrow>
   (string \<times> (string \<times> string \<times> int \<times> string \<times> string) list) outcome" where
  "provision_tplink_nvr env st dns b user rq a =
     (if \<not> seed_body_ok b then (Inl (Http 422), a)
      else
        let (nvr_id, a1) = fresh_id env a;
            row = \<lparr>nv_name = sb_nvr_name b, nv_host = sb_nvr_ip b, nv_port = sb_onvif_port b, nv_onvif = True,
                   nv_username_enc = encrypt_opt env (sb_username b), nv_password_enc = encrypt_opt env (sb_password b),
                   nv_created_at = rq_now rq\<rparr>
        in case provision_channels env st dns b nvr_id (rq_now rq)
                  [sb_start_channel b .. sb_start_channel b + sb_channel_count b - 1] (put_nvr nvr_id row a1) of
             (Inl err, a2) \<Rightarrow> (Inl err, a)
           | (Inr created, a2) \<Rightarrow>
               (let a3 = write_audit env rq (Some user) [] ''nvr.create'' nvr_id ''success'' []
                           (Some [(''channels'', JNum (of_int (sb_channel_count b))), (''vendor'', JStr ''vigi_nvr'')]) a2;
                    a4 = write_audit env rq (Some user) [] ''camera.bulk_create'' nvr_id ''success'' []
                           (Some [(''count'', JNum (of_nat (length created)))]) a3
                in (Inr (nvr_id, created), a4)))"

section \<open>Cameras\<close>

type_synonym body = "(string \<times> json) list"

definition field :: "body \<Rightarrow> string \<Rightarrow> json option" where
  "field b k = map_of (rev b) k"

definition text_field :: "body \<Rightarrow> string \<Rightarrow> py_error + string" where
  \<comment> \<open>empty for an absent, null or false value\<close>
  "text_field b k =
     (case field b k of
        None \<Rightarrow> Inr []
      | Some (JStr s) \<Rightarrow> Inr s
      | Some j \<Rightarrow> if json_truthy j then Inl Unmodelled else Inr [])"

definition column_text :: "body \<Rightarrow> string \<Rightarrow> string \<Rightarrow> py_error + string" where
  \<comment> \<open>\<open>body.get(k, default)\<close> into a column that is not null\<close>
  "column_text b k dflt =
     (case field b k of None \<Rightarrow> Inr dflt | Some (JStr s) \<Rightarrow> Inr s | Some JNull \<Rightarrow> Inl IntegrityError | Some _ \<Rightarrow> Inl Unmodelled)"

definition nullable_text :: "body \<Rightarrow> string \<Rightarrow> py_error + string option" where
  "nullable_text b k =
     (case field b k of None \<Rightarrow> Inr None | Some JNull \<Rightarrow> Inr None | Some (JStr s) \<Rightarrow> Inr (Some s) | Some _ \<Rightarrow> Inl Unmodelled)"

definition json_column :: "body \<Rightarrow> string \<Rightarrow> json option" where
  "json_column b k = (case field b k of None \<Rightarrow> None | Some JNull \<Rightarrow> None | Some j \<Rightarrow> Some j)"

definition fps_field :: "body \<Rightarrow> py_error + int" where
  \<comment> \<open>\<open>int(body.get("fps", 0) or 0)\<close>\<close>
  "fps_field b =
     (case field b ''fps'' of
        None \<Rightarrow> Inr 0
      | Some j \<Rightarrow>
          if \<not> json_truthy j then Inr 0
          else (case j of
                  JNum x \<Rightarrow> Inr (py_trunc x)
                | JBool _ \<Rightarrow> Inr 1
                | JStr s \<Rightarrow> (case py_int s of None \<Rightarrow> Inl ValueError | Some n \<Rightarrow> Inr n)
                | _ \<Rightarrow> Inl TypeError))"

definition new_camera :: "api_env \<Rightarrow> body \<Rightarrow> timestamp \<Rightarrow> string \<Rightarrow> string \<Rightarrow> string \<Rightarrow> app \<Rightarrow> py_error + camera_row" where
  \<comment> \<open>the row as inserted: the referenced recorder must exist\<close>
  "new_camera env b now name main sub a =
     bind_ok (nullable_text b ''camera_uid'') (\<lambda>uid.
     bind_ok (nullable_text b ''nvr_device_id'') (\<lambda>nvr.
     bind_ok (column_text b ''resolution'' []) (\<lambda>resolution.
     bind_ok (fps_field b) (\<lambda>fps.
     bind_ok (column_text b ''timezone'' ''UTC'') (\<lambda>timezone.
       if \<not> refers nvr (db_nvrs (ap_db a)) then Inl IntegrityError
       else Inr \<lparr>ca_name = name, ca_uid = uid, ca_nvr = nvr,
              ca_stream_enc = (if main \<noteq> [] then Some (ae_encrypt env main) else None),
              ca_substream_enc = (if sub \<noteq> [] then Some (ae_encrypt env sub) else None),
              ca_status = ''OFFLINE'', ca_health = ''unknown'', ca_last_seen = None, ca_resolution = resolution, ca_fps = fps,
              ca_timezone = timezone, ca_masks = json_column b ''privacy_masks'', ca_retention = json_column b ''retention'',
              ca_rules = None, ca_created_at = now\<rparr>)))))"

definition create_camera ::
  "api_env \<Rightarrow> settings \<Rightarrow> (string \<Rightarrow> string list option) \<Rightarrow> body \<Rightarrow> string \<times> user_row \<Rightarrow> request \<Rightarrow> app \<Rightarrow> string outcome" where
  "create_camera env st dns b user rq a =
     (case (text_field b ''name'', text_field b ''stream_url'', text_field b ''substream_url'') of
        (Inr name, Inr main, Inr sub) \<Rightarrow>
          if name = [] then (Inl (Http 400), a)
          else (case guard_all dns st (filter (\<lambda>u. u \<noteq> []) [main, sub]) of
                  Inl err \<Rightarrow> (Inl err, a)
                | Inr _ \<Rightarrow>
                    (case new_camera env b (rq_now rq) name main sub a of
                       Inl err \<Rightarrow> (Inl (Crash err), a)
                     | Inr row \<Rightarrow>
                         (let (i, a1) = fresh_id env a
                          in (Inr i, write_audit env rq (Some user) [] ''camera.create'' i ''success'' []
                                       (Some [(''name'', JStr name)]) (put_camera i row a1)))))
      | _ \<Rightarrow> (Inl (Crash Unmodelled), a))"

record camera_view =
  cv_id :: string
  cv_name :: string
  cv_uid :: "string option"
  cv_nvr :: "string option"
  cv_status :: string
  cv_health :: string
  cv_last_seen :: "timestamp option"
  cv_resolution :: string
  cv_fps :: int
  cv_timezone :: string
  cv_masks :: "json option"
  cv_retention :: "json option"

definition view_camera :: "string \<Rightarrow> camera_row \<Rightarrow> camera_view" where
  "view_camera i r = \<lparr>cv_id = i, cv_name = ca_name r, cv_uid = ca_uid r, cv_nvr = ca_nvr r, cv_status = ca_status r,
     cv_health = ca_health r, cv_last_seen = ca_last_seen r, cv_resolution = ca_resolution r, cv_fps = ca_fps r,
     cv_timezone = ca_timezone r, cv_masks = ca_masks r, cv_retention = ca_retention r\<rparr>"

definition list_cameras :: "app \<Rightarrow> camera_view list" where
  "list_cameras a = map (\<lambda>(i, r). view_camera i r) (db_cameras (ap_db a))"

definition get_camera :: "string \<Rightarrow> app \<Rightarrow> http_error + camera_view" where
  "get_camera cid a = (case dict_get (db_cameras (ap_db a)) cid of None \<Rightarrow> Inl (Http 404) | Some r \<Rightarrow> Inr (view_camera cid r))"

definition set_text :: "body \<Rightarrow> string \<Rightarrow> string \<Rightarrow> py_error + string" where
  "set_text b k current = column_text b k current"

definition set_json :: "body \<Rightarrow> string \<Rightarrow> json option \<Rightarrow> json option" where
  "set_json b k current = (if field b k = None then current else json_column b k)"

definition set_fps :: "body \<Rightarrow> int \<Rightarrow> py_error + int" where
  "set_fps b current =
     (case field b ''fps'' of
        None \<Rightarrow> Inr current
      | Some (JNum x) \<Rightarrow> if of_int \<lfloor>x\<rfloor> = x then Inr \<lfloor>x\<rfloor> else Inl Unmodelled
      | Some JNull \<Rightarrow> Inl IntegrityError
      | Some _ \<Rightarrow> Inl Unmodelled)"

definition apply_fields :: "body \<Rightarrow> camera_row \<Rightarrow> py_error + camera_row" where
  "apply_fields b c =
     bind_ok (set_text b ''name'' (ca_name c)) (\<lambda>name.
     bind_ok (set_text b ''resolution'' (ca_resolution c)) (\<lambda>resolution.
     bind_ok (set_fps b (ca_fps c)) (\<lambda>fps.
     bind_ok (set_text b ''timezone'' (ca_timezone c)) (\<lambda>timezone.
       Inr (c\<lparr>ca_name := name, ca_resolution := resolution, ca_fps := fps, ca_timezone := timezone,
              ca_masks := set_json b ''privacy_masks'' (ca_masks c), ca_retention := set_json b ''retention'' (ca_retention c)\<rparr>)))))"

definition new_url ::
  "api_env \<Rightarrow> settings \<Rightarrow> (string \<Rightarrow> string list option) \<Rightarrow> body \<Rightarrow> string \<Rightarrow> string option \<Rightarrow> py_error + string option" where
  \<comment> \<open>the guard's error is not caught here\<close>
  "new_url env st dns b k current =
     bind_ok (text_field b k) (\<lambda>url.
       if url = [] then Inr current else bind_ok (guard_url dns st url) (\<lambda>_. Inr (Some (ae_encrypt env url))))"

definition update_camera ::
  "api_env \<Rightarrow> settings \<Rightarrow> (string \<Rightarrow> string list option) \<Rightarrow> string \<Rightarrow> body \<Rightarrow> string \<times> user_row \<Rightarrow> request \<Rightarrow> app \<Rightarrow>
   camera_view outcome" where
  "update_camera env st dns cid b user rq a =
     (case dict_get (db_cameras (ap_db a)) cid of
        None \<Rightarrow> (Inl (Http 404), a)
      | Some c \<Rightarrow>
          (case bind_ok (new_url env st dns b ''stream_url'' (ca_stream_enc c)) (\<lambda>main.
                bind_ok (new_url env st dns b ''substream_url'' (ca_substream_enc c)) (\<lambda>sub.
                bind_ok (apply_fields b c) (\<lambda>c1. Inr (c1\<lparr>ca_stream_enc := main, ca_substream_enc := sub\<rparr>)))) of
             Inl err \<Rightarrow> (Inl (Crash err), a)
           | Inr c2 \<Rightarrow>
               (Inr (view_camera cid c2),
                write_audit env rq (Some user) [] ''camera.update'' cid ''success'' [] None (put_camera cid c2 a))))"

section \<open>Deletion with stored objects\<close>

definition decrypt_keys :: "api_env \<Rightarrow> string list \<Rightarrow> string list" where
  \<comment> \<open>what does not decrypt is passed over\<close>
  "decrypt_keys env encs = List.map_filter (ae_decrypt env) encs"

definition camera_object_keys :: "api_env \<Rightarrow> string \<Rightarrow> db \<Rightarrow> string list" where
  "camera_object_keys env cid d =
     map (\<lambda>(i, s). sg_key s) (filter (\<lambda>(i, s). sg_camera s = cid) (db_segments d)) @
     decrypt_keys env (map (\<lambda>(i, s). sn_key_enc s) (filter (\<lambda>(i, s). sn_camera s = cid) (db_snapshots d)))"

definition delete_camera ::
  "api_env \<Rightarrow> string \<Rightarrow> string \<Rightarrow> string \<times> user_row \<Rightarrow> request \<Rightarrow> app \<times> file_system \<Rightarrow>
   (http_error + unit) \<times> app \<times> file_system" where
  "delete_camera env base cid user rq s =
     (let (a, fs) = s in
      if cid \<notin> set (dict_keys (db_cameras (ap_db a))) then (Inl (Http 404), a, fs)
      else (let keys = camera_object_keys env cid (ap_db a);
                a1 = a\<lparr>ap_db := delete_camera_rows cid (ap_db a)\<rparr>
            in (Inr (), write_audit env rq (Some user) [] ''camera.delete'' cid ''success'' [] None a1,
                delete_all (delete base) keys fs)))"

section \<open>Snapshots\<close>

definition snapshot_key_text :: "string \<Rightarrow> string" where
  "snapshot_key_text cid = ''camera-snapshot:'' @ cid"

definition camera_snapshot_url :: "(string \<Rightarrow> string) \<Rightarrow> timestamp \<Rightarrow> string \<Rightarrow> app \<Rightarrow> http_error + string \<times> int" where
  "camera_snapshot_url mac now cid a =
     (if cid \<notin> set (dict_keys (db_cameras (ap_db a))) then Inl (Http 404)
      else let ex = clock_seconds now + 300 in
        Inr (''/api/cameras/'' @ cid @ ''/snapshot?exp='' @ str_int ex @ ''&sig='' @ mac (snapshot_key_text cid @ '':'' @ str_int ex), ex))"

definition bearer_may_view :: "api_env \<Rightarrow> settings \<Rightarrow> request \<Rightarrow> app \<Rightarrow> bool" where
  "bearer_may_view env st rq a \<longleftrightarrow>
     (case rq_auth rq of None \<Rightarrow> False
      | Some h \<Rightarrow> starts_with h ''Bearer '' \<and>
          (case get_current_user env st rq a of Inl _ \<Rightarrow> False | Inr (u, perms) \<Rightarrow> ''camera:view'' \<in> set perms))"

definition snapshot_authorized ::
  "api_env \<Rightarrow> settings \<Rightarrow> (string \<Rightarrow> string) \<Rightarrow> string \<Rightarrow> string \<Rightarrow> string \<Rightarrow> request \<Rightarrow> app \<Rightarrow> http_error + bool" where
  "snapshot_authorized env st mac cid ex sig rq a =
     (if bearer_may_view env st rq a then Inr True
      else if ex = [] \<or> sig = [] then Inr False
      else (case py_int ex of
              None \<Rightarrow> Inl (Http 400)
            | Some e \<Rightarrow>
                if e < clock_seconds (rq_now rq) then Inl (Http 410)
                else Inr (mac (snapshot_key_text cid @ '':'' @ str_int e) = sig)))"

datatype grabbed = No_ffmpeg | Timed_out | Failed | Frame bytes

definition camera_snapshot ::
  "api_env \<Rightarrow> settings \<Rightarrow> (string \<Rightarrow> string list option) \<Rightarrow> (string \<Rightarrow> string) \<Rightarrow> (string \<Rightarrow> grabbed) \<Rightarrow>
   string \<Rightarrow> string \<Rightarrow> string \<Rightarrow> request \<Rightarrow> app \<Rightarrow> http_error + bytes" where
  "camera_snapshot env st dns mac grab cid ex sig rq a =
     (case dict_get (db_cameras (ap_db a)) cid of
        None \<Rightarrow> Inl (Http 404)
      | Some c \<Rightarrow>
          (case snapshot_authorized env st mac cid ex sig rq a of
             Inl err \<Rightarrow> Inl err
           | Inr False \<Rightarrow> Inl (Http 401)
           | Inr True \<Rightarrow>
               (case (case ca_substream_enc c of Some s \<Rightarrow> if s \<noteq> [] then Some s else ca_stream_enc c | None \<Rightarrow> ca_stream_enc c) of
                  None \<Rightarrow> Inl (Http 409)
                | Some enc \<Rightarrow>
                    if enc = [] then Inl (Http 409)
                    else (case ae_decrypt env enc of
                            None \<Rightarrow> Inl (Crash CryptoError)
                          | Some url \<Rightarrow>
                              (case guard_url dns st url of
                                 Inl err \<Rightarrow> Inl (guard_error err)
                               | Inr _ \<Rightarrow>
                                   (case grab url of
                                      Frame data \<Rightarrow> if take 2 data = [0xFF, 0xD8] then Inr data else Inl (Http 503)
                                    | _ \<Rightarrow> Inl (Http 503)))))))"

section \<open>Recordings\<close>

record segment_view =
  sv_id :: string
  sv_start :: timestamp
  sv_end :: timestamp
  sv_duration :: real
  sv_size :: int
  sv_url :: string

definition view_segment :: "(string \<Rightarrow> string) \<Rightarrow> timestamp \<Rightarrow> string \<times> segment_row \<Rightarrow> segment_view" where
  "view_segment mac now = (\<lambda>(i, s). \<lparr>sv_id = i, sv_start = sg_start s, sv_end = sg_end s, sv_duration = sg_duration s,
     sv_size = sg_size s, sv_url = sign_get_url mac now (sg_key s) 300\<rparr>)"

definition camera_segments :: "string \<Rightarrow> (segment_row \<Rightarrow> bool) \<Rightarrow> db \<Rightarrow> (string \<times> segment_row) list" where
  \<comment> \<open>stored segments of a camera in order of their start\<close>
  "camera_segments cid P d =
     sort_key (\<lambda>(i, s). sg_start s) (filter (\<lambda>(i, s). sg_camera s = cid \<and> P s \<and> sg_size s > 0) (db_segments d))"

definition camera_recordings ::
  "(string \<Rightarrow> timestamp option) \<Rightarrow> (string \<Rightarrow> string) \<Rightarrow> timestamp \<Rightarrow> string \<Rightarrow> string \<Rightarrow> string \<Rightarrow> int \<Rightarrow> app \<Rightarrow>
   http_error + segment_view list" where
  \<comment> \<open>ISO 8601 parser, HMAC, clock\<close>
  "camera_recordings iso8601 mac now cid start_text end_text limit a =
     (if limit < 1 \<or> 1000 < limit then Inl (Http 422)
      else if cid \<notin> set (dict_keys (db_cameras (ap_db a))) then Inl (Http 404)
      else (case (iso8601 start_text, iso8601 end_text) of
              (Some lo, Some hi) \<Rightarrow>
                if hi \<le> lo then Inl (Http 400)
                else Inr (map (view_segment mac now)
                       (take (nat limit) (camera_segments cid (\<lambda>s. sg_start s < hi \<and> lo < sg_end s) (ap_db a))))
            | _ \<Rightarrow> Inl (Http 400)))"

definition recording_at ::
  "(string \<Rightarrow> timestamp option) \<Rightarrow> (string \<Rightarrow> string) \<Rightarrow> timestamp \<Rightarrow> string \<Rightarrow> string \<Rightarrow> app \<Rightarrow>
   http_error + segment_view \<times> real" where
  \<comment> \<open>the segment and the offset to seek to\<close>
  "recording_at iso8601 mac now cid t_text a =
     (if cid \<notin> set (dict_keys (db_cameras (ap_db a))) then Inl (Http 404)
      else (case iso8601 t_text of
              None \<Rightarrow> Inl (Http 400)
            | Some t \<Rightarrow>
                (case camera_segments cid (\<lambda>s. sg_start s \<le> t \<and> t \<le> sg_end s) (ap_db a) of
                   [] \<Rightarrow> Inl (Http 404)
                 | s # _ \<Rightarrow> Inr (view_segment mac now s, max 0 (total_seconds (t - sg_start (snd s)))))))"

end
