(* ===== verification/Camera_Safety.thy ===== *)
theory Camera_Safety
  imports Cameras Auth_Safety
begin

text \<open>
  What the camera handlers guarantee: every stored stream URL passed the egress guard, a snapshot
  is served to permitted sessions and to unexpired signatures of that camera only, the
  recordings a scrubber sees are those that overlap its window, and deleting a camera removes
  its objects and no others.
\<close>

section \<open>Stored stream URLs\<close>

definition url_guarded :: "api_env \<Rightarrow> settings \<Rightarrow> (string \<Rightarrow> string list option) \<Rightarrow> string option \<Rightarrow> bool" where
  \<comment> \<open>a stored URL is the encryption of one the guard accepts\<close>
  "url_guarded env st dns x \<longleftrightarrow>
     (case x of None \<Rightarrow> True | Some enc \<Rightarrow> \<exists>url p. enc = ae_encrypt env url \<and> guard_url dns st url = Inr p)"

definition camera_guarded :: "api_env \<Rightarrow> settings \<Rightarrow> (string \<Rightarrow> string list option) \<Rightarrow> camera_row \<Rightarrow> bool" where
  "camera_guarded env st dns c \<longleftrightarrow> url_guarded env st dns (ca_stream_enc c) \<and> url_guarded env st dns (ca_substream_enc c)"

definition cameras_guarded :: "api_env \<Rightarrow> settings \<Rightarrow> (string \<Rightarrow> string list option) \<Rightarrow> app \<Rightarrow> bool" where
  "cameras_guarded env st dns a \<longleftrightarrow> (\<forall>c \<in> rows (db_cameras (ap_db a)). camera_guarded env st dns c)"

lemma put_camera_frame [simp]:
  "db_cameras (ap_db (put_camera i r a)) = dict_set i r (db_cameras (ap_db a))"
  "db_nvrs (ap_db (put_camera i r a)) = db_nvrs (ap_db a)"
  "db_cameras (ap_db (put_nvr i n a)) = db_cameras (ap_db a)"
  by (simp_all add: put_camera_def put_nvr_def)

lemma audit_cameras [simp]: "db_cameras (ap_db (write_audit env rq u n act res rs ip d a)) = db_cameras (ap_db a)"
  by (simp add: write_audit_def fresh_id_def Let_def)

lemma fresh_cameras [simp]: "db_cameras (ap_db (snd (fresh_id env a))) = db_cameras (ap_db a)"
  by (simp add: fresh_id_def)

lemma cameras_guarded_put:
  "camera_guarded env st dns c \<Longrightarrow> cameras_guarded env st dns a \<Longrightarrow> cameras_guarded env st dns (put_camera i c a)"
  unfolding cameras_guarded_def put_camera_frame by (rule rows_dict_set_ball)

lemma cameras_guarded_cong: "db_cameras (ap_db b) = db_cameras (ap_db a) \<Longrightarrow> cameras_guarded env st dns b = cameras_guarded env st dns a"
  by (simp add: cameras_guarded_def)

lemma guard_all_ok: "guard_all dns st us = Inr () \<longleftrightarrow> list_all (\<lambda>u. \<exists>p. guard_url dns st u = Inr p) us"
  by (induction us) (auto split: sum.splits)

lemma guarded_new: "(\<exists>p. guard_url dns st url = Inr p) \<Longrightarrow> url_guarded env st dns (Some (ae_encrypt env url))"
  by (auto simp: url_guarded_def)

lemma guarded_provision:
  "cameras_guarded env st dns a \<Longrightarrow> provision_channels env st dns b nid now chs a = (r, a') \<Longrightarrow> cameras_guarded env st dns a'"
proof (induction chs arbitrary: a r a')
  case (Cons ch chs)
  show ?case
  proof (cases "guard_all dns st [channel_url b ch ''main'', channel_url b ch ''sub'']")
    case (Inl err)
    with Cons.prems show ?thesis by simp
  next
    case (Inr u)
    let ?row = "channel_camera env b nid now ch"
    let ?a1 = "put_camera (fst (fresh_id env a)) ?row (snd (fresh_id env a))"
    from Inr have "guard_all dns st [channel_url b ch ''main'', channel_url b ch ''sub''] = Inr ()" by simp
    then have "camera_guarded env st dns ?row"
      unfolding guard_all_ok by (simp add: camera_guarded_def channel_camera_def guarded_new)
    moreover have "cameras_guarded env st dns (snd (fresh_id env a))"
      using Cons.prems(1) by (simp add: cameras_guarded_def)
    ultimately have g: "cameras_guarded env st dns ?a1" by (rule cameras_guarded_put)
    obtain r1 a2 where p: "provision_channels env st dns b nid now chs ?a1 = (r1, a2)" by fastforce
    from Cons.IH [OF g p] have "cameras_guarded env st dns a2" .
    moreover have "a' = a2" using Cons.prems(2) Inr p by (cases r1) (auto simp: case_prod_unfold Let_def)
    ultimately show ?thesis by simp
  qed
qed simp

lemma guarded_create:
  assumes "cameras_guarded env st dns a"
  shows "cameras_guarded env st dns (snd (create_camera env st dns b user rq a))"
proof (cases "\<exists>name main sub row. text_field b ''name'' = Inr name \<and> text_field b ''stream_url'' = Inr main \<and>
    text_field b ''substream_url'' = Inr sub \<and> name \<noteq> [] \<and> guard_all dns st (filter (\<lambda>u. u \<noteq> []) [main, sub]) = Inr () \<and>
    new_camera env b (rq_now rq) name main sub a = Inr row")
  case True
  then obtain name main sub row where t: "text_field b ''name'' = Inr name" "text_field b ''stream_url'' = Inr main"
    "text_field b ''substream_url'' = Inr sub" "name \<noteq> []" "guard_all dns st (filter (\<lambda>u. u \<noteq> []) [main, sub]) = Inr ()"
    "new_camera env b (rq_now rq) name main sub a = Inr row" by blast
  let ?a1 = "put_camera (fst (fresh_id env a)) row (snd (fresh_id env a))"
  have "main \<noteq> [] \<longrightarrow> (\<exists>p. guard_url dns st main = Inr p)" "sub \<noteq> [] \<longrightarrow> (\<exists>p. guard_url dns st sub = Inr p)"
    using t(5) unfolding guard_all_ok by (auto split: if_splits)
  moreover have "ca_stream_enc row = (if main \<noteq> [] then Some (ae_encrypt env main) else None)"
    "ca_substream_enc row = (if sub \<noteq> [] then Some (ae_encrypt env sub) else None)"
    using t(6) by (auto simp: new_camera_def bind_ok_Inr split: if_splits)
  moreover have "url_guarded env st dns None" by (simp add: url_guarded_def)
  ultimately have "camera_guarded env st dns row" by (simp add: camera_guarded_def guarded_new)
  moreover have "cameras_guarded env st dns (snd (fresh_id env a))" using assms by (simp add: cameras_guarded_def)
  ultimately have "cameras_guarded env st dns ?a1" by (rule cameras_guarded_put)
  moreover have "db_cameras (ap_db (snd (create_camera env st dns b user rq a))) = db_cameras (ap_db ?a1)"
    using t by (simp add: create_camera_def case_prod_unfold Let_def del: guard_all.simps filter.simps)
  ultimately show ?thesis by (simp add: cameras_guarded_def)
next
  case False
  then have "snd (create_camera env st dns b user rq a) = a"
    by (auto simp: create_camera_def simp del: guard_all.simps filter.simps split: sum.splits)
  with assms show ?thesis by simp
qed

lemma guarded_new_url:
  "new_url env st dns b k x = Inr y \<Longrightarrow> url_guarded env st dns x \<Longrightarrow> url_guarded env st dns y"
  by (auto simp: new_url_def bind_ok_Inr guarded_new split: if_splits)

lemma guarded_update:
  assumes "cameras_guarded env st dns a"
  shows "cameras_guarded env st dns (snd (update_camera env st dns cid b user rq a))"
proof (cases "dict_get (db_cameras (ap_db a)) cid")
  case (Some c)
  let ?new = "bind_ok (new_url env st dns b ''stream_url'' (ca_stream_enc c)) (\<lambda>main.
                bind_ok (new_url env st dns b ''substream_url'' (ca_substream_enc c)) (\<lambda>sub.
                bind_ok (apply_fields b c) (\<lambda>c1. Inr (c1\<lparr>ca_stream_enc := main, ca_substream_enc := sub\<rparr>))))"
  show ?thesis
  proof (cases ?new)
    case (Inl err)
    then show ?thesis using assms by (simp add: update_camera_def Some)
  next
    case (Inr c2)
    have "camera_guarded env st dns c"
      using assms dict_get_rows [OF Some] by (simp add: cameras_guarded_def)
    then have "camera_guarded env st dns c2"
      using Inr by (auto simp: camera_guarded_def bind_ok_Inr dest: guarded_new_url)
    then have "cameras_guarded env st dns (put_camera cid c2 a)" using assms by (rule cameras_guarded_put)
    then show ?thesis using Inr by (simp add: update_camera_def Some cameras_guarded_def)
  qed
qed (simp add: update_camera_def assms)

lemma delete_camera_cameras:
  "db_cameras (delete_camera_rows cid d) = dict_del cid (db_cameras d)"
  by (simp add: delete_camera_rows_def drop_events_def Let_def)

datatype camera_op =
    Create_nvr nvr_body "string \<times> user_row" request
  | Provision seed_body "string \<times> user_row" request
  | Create_camera body "string \<times> user_row" request
  | Update_camera string body "string \<times> user_row" request
  | Delete_camera string "string \<times> user_row" request

fun camera_exec ::
  "api_env \<Rightarrow> settings \<Rightarrow> (string \<Rightarrow> string list option) \<Rightarrow> string \<Rightarrow> camera_op \<Rightarrow> app \<times> file_system \<Rightarrow> app \<times> file_system" where
  "camera_exec env st dns base (Create_nvr b u rq) (a, fs) = (snd (create_nvr env b u rq a), fs)"
| "camera_exec env st dns base (Provision b u rq) (a, fs) = (snd (provision_tplink_nvr env st dns b u rq a), fs)"
| "camera_exec env st dns base (Create_camera b u rq) (a, fs) = (snd (create_camera env st dns b u rq a), fs)"
| "camera_exec env st dns base (Update_camera cid b u rq) (a, fs) = (snd (update_camera env st dns cid b u rq a), fs)"
| "camera_exec env st dns base (Delete_camera cid u rq) s = snd (delete_camera env base cid u rq s)"

lemma guarded_provision_nvr:
  assumes "cameras_guarded env st dns a"
  shows "cameras_guarded env st dns (snd (provision_tplink_nvr env st dns b user rq a))"
proof (cases "seed_body_ok b")
  case True
  obtain nid a1 where f: "fresh_id env a = (nid, a1)" by fastforce
  let ?row = "\<lparr>nv_name = sb_nvr_name b, nv_host = sb_nvr_ip b, nv_port = sb_onvif_port b, nv_onvif = True,
                   nv_username_enc = encrypt_opt env (sb_username b), nv_password_enc = encrypt_opt env (sb_password b),
                   nv_created_at = rq_now rq\<rparr>"
  obtain r a2 where p: "provision_channels env st dns b nid (rq_now rq)
      [sb_start_channel b .. sb_start_channel b + sb_channel_count b - 1] (put_nvr nid ?row a1) = (r, a2)" by fastforce
  have "cameras_guarded env st dns (put_nvr nid ?row a1)"
    using assms fresh_cameras [of env a] f by (simp add: cameras_guarded_def)
  from guarded_provision [OF this p] have "cameras_guarded env st dns a2" .
  then show ?thesis using assms True f p
    by (cases r) (simp_all add: provision_tplink_nvr_def Let_def cameras_guarded_def)
qed (simp add: provision_tplink_nvr_def assms)

interpretation camera_runs: safe_run "camera_exec env st dns base" "\<lambda>s. cameras_guarded env st dns (fst s)"
proof
  fix s :: "app \<times> file_system" and op assume g: "cameras_guarded env st dns (fst s)"
  obtain a fs where s: "s = (a, fs)" by (cases s)
  show "cameras_guarded env st dns (fst (camera_exec env st dns base op s))"
  proof (cases op)
    case (Create_nvr b u rq)
    then show ?thesis using g fresh_cameras [of env a] by (simp add: s create_nvr_def case_prod_unfold Let_def cameras_guarded_def)
  next
    case (Delete_camera cid u rq)
    have "rows (dict_del cid (db_cameras (ap_db a))) \<subseteq> rows (db_cameras (ap_db a))" by (rule rows_del)
    then show ?thesis using g Delete_camera
      by (auto simp: s delete_camera_def Let_def cameras_guarded_def delete_camera_cameras)
  qed (use g in \<open>simp_all add: s guarded_provision_nvr guarded_create guarded_update\<close>)
qed


text \<open>
  C27. Starting with no camera, whatever is asked of the camera handlers (creating, provisioning a
  whole recorder, updating, deleting) and whatever they answer, every stream URL in the
  database is the encryption of a URL that the egress guard accepts.
\<close>

theorem camera_urls_guarded:
  assumes "db_cameras (ap_db a) = []" and "(i, c) \<in> set (db_cameras (ap_db (fst (fold (camera_exec env st dns base) ops (a, fs)))))"
  shows "\<forall>enc \<in> set_option (ca_stream_enc c) \<union> set_option (ca_substream_enc c).
    \<exists>url p. enc = ae_encrypt env url \<and> validate_egress_url dns (ssrf_allowlist_cidrs st) [] url = Inr p"
proof -
  have "cameras_guarded env st dns (fst (a, fs))" using assms(1) by (simp add: cameras_guarded_def rows_def)
  from camera_runs.run_inv [OF this, of base ops] assms(2) have "camera_guarded env st dns c"
    by (force simp: cameras_guarded_def rows_def)
  then show ?thesis by (auto simp: camera_guarded_def url_guarded_def guard_url_def)
qed

section \<open>Snapshots\<close>

lemma snapshot_authorized_iff:
  "snapshot_authorized env st mac cid ex sig rq a = Inr True \<longleftrightarrow>
     bearer_may_view env st rq a \<or>
     (ex \<noteq> [] \<and> sig \<noteq> [] \<and> (\<exists>e. py_int ex = Some e \<and> clock_seconds (rq_now rq) \<le> e \<and>
        mac (snapshot_key_text cid @ '':'' @ str_int e) = sig))"
  by (auto simp: snapshot_authorized_def split: option.splits)

lemma camera_snapshot_served:
  assumes "camera_snapshot env st dns mac grab cid ex sig rq a = Inr data"
  shows "snapshot_authorized env st mac cid ex sig rq a = Inr True \<and>
    (\<exists>url p. grab url = Frame data \<and> guard_url dns st url = Inr p)"
proof -
  obtain c where c: "dict_get (db_cameras (ap_db a)) cid = Some c"
    using assms by (auto simp: camera_snapshot_def split: option.splits)
  have auth: "snapshot_authorized env st mac cid ex sig rq a = Inr True"
    using assms by (auto simp: camera_snapshot_def c split: sum.splits bool.splits)
  let ?enc = "(case ca_substream_enc c of Some s \<Rightarrow> if s \<noteq> [] then Some s else ca_stream_enc c | None \<Rightarrow> ca_stream_enc c)"
  obtain enc where enc: "?enc = Some enc" "enc \<noteq> []"
    using assms by (auto simp: camera_snapshot_def c auth split: option.splits if_splits)
  obtain url where url: "ae_decrypt env enc = Some url"
    using assms enc by (cases "ae_decrypt env enc") (simp_all add: camera_snapshot_def c auth)
  obtain p where p: "guard_url dns st url = Inr p"
    using assms enc url by (cases "guard_url dns st url") (simp_all add: camera_snapshot_def c auth)
  have "grab url = Frame data"
    using assms enc url p by (cases "grab url") (simp_all add: camera_snapshot_def c auth split: if_splits)
  with auth p show ?thesis by blast
qed

text \<open>
  A frame is served only to a session that may view cameras, or against an unexpired
  signature over this camera, and only from a URL the guard accepts again. A minted URL opens its
  own camera for 300 seconds, and another camera only if the HMAC has a collision. The same
  signature is also valid for media stored under the name \<open>camera-snapshot:<id>\<close>: the
  two schemes share one secret and one message format.
\<close>

theorem snapshot_access_exact:
  assumes "camera_snapshot env st dns mac grab cid ex sig rq a = Inr data" and "camera_snapshot_url mac now other b = Inr (url, e)"
  shows "(bearer_may_view env st rq a \<or>
      (\<exists>n. py_int ex = Some n \<and> clock_seconds (rq_now rq) \<le> n \<and> mac (''camera-snapshot:'' @ cid @ '':'' @ str_int n) = sig)) \<and>
    (\<exists>u p. grab u = Frame data \<and> validate_egress_url dns (ssrf_allowlist_cidrs st) [] u = Inr p) \<and>
    (let minted = mac (''camera-snapshot:'' @ other @ '':'' @ str_int e) in
       url = ''/api/cameras/'' @ other @ ''/snapshot?exp='' @ str_int e @ ''&sig='' @ minted \<and>
       e = clock_seconds now + 300 \<and>
       (sig = minted \<longrightarrow> bearer_may_view env st rq a \<or> cid = other \<and> clock_seconds (rq_now rq) \<le> e \<or>
          (\<exists>m m'. m \<noteq> m' \<and> mac m = mac m')) \<and>
       (clock_seconds later \<le> e \<longrightarrow> verify_signed_url mac later (''camera-snapshot:'' @ other) (str_int e) minted))"
proof -
  from camera_snapshot_served [OF assms(1)] obtain u p where
    auth: "snapshot_authorized env st mac cid ex sig rq a = Inr True" and u: "grab u = Frame data" "guard_url dns st u = Inr p"
    by blast
  have minted: "url = ''/api/cameras/'' @ other @ ''/snapshot?exp='' @ str_int e @ ''&sig='' @ mac (''camera-snapshot:'' @ other @ '':'' @ str_int e)"
    "e = clock_seconds now + 300"
    using assms(2) by (auto simp: camera_snapshot_url_def snapshot_key_text_def Let_def split: if_splits)
  have "cid = other \<and> clock_seconds (rq_now rq) \<le> e \<or> (\<exists>m m'. m \<noteq> m' \<and> mac m = mac m')"
    if "py_int ex = Some n" "clock_seconds (rq_now rq) \<le> n"
      "mac (''camera-snapshot:'' @ cid @ '':'' @ str_int n) = mac (''camera-snapshot:'' @ other @ '':'' @ str_int e)" for n
  proof (cases "''camera-snapshot:'' @ cid @ '':'' @ str_int n = ''camera-snapshot:'' @ other @ '':'' @ str_int e")
    case True
    then have "cid @ '':'' @ str_int n = other @ '':'' @ str_int e" by simp
    then have "cid = other" "n = e" by (simp_all only: message_unique)
    with that(2) show ?thesis by simp
  qed (use that(3) in blast)
  moreover have "bearer_may_view env st rq a \<or>
      (\<exists>n. py_int ex = Some n \<and> clock_seconds (rq_now rq) \<le> n \<and> mac (''camera-snapshot:'' @ cid @ '':'' @ str_int n) = sig)"
    using auth unfolding snapshot_authorized_iff snapshot_key_text_def append_assoc by blast
  moreover have "clock_seconds later \<le> e \<longrightarrow>
      verify_signed_url mac later (''camera-snapshot:'' @ other) (str_int e) (mac (''camera-snapshot:'' @ other @ '':'' @ str_int e))"
    by (simp add: verify_signed_url_def storage_sig_def)
  ultimately show ?thesis using u minted unfolding Let_def guard_url_def by blast
qed

section \<open>Recordings\<close>

lemma camera_segments_set:
  "set (camera_segments cid P d) = {(i, s) \<in> set (db_segments d). sg_camera s = cid \<and> P s \<and> sg_size s > 0}"
  by (auto simp: camera_segments_def)

lemma camera_segments_sorted: "sorted_wrt (\<lambda>x y. sg_start (snd x) \<le> sg_start (snd y)) (camera_segments cid P d)"
proof -
  have "sorted (map (\<lambda>(i, s). sg_start s) (camera_segments cid P d))" by (simp add: camera_segments_def)
  then show ?thesis by (simp add: sorted_map case_prod_unfold)
qed

text \<open>
  The scrubber's window lists the camera's stored segments that overlap it, in order and at
  most \<open>limit\<close> of them (all of them when they fit); and the segment answered for a moment
  contains it, is the first such, starts the playback no further than its scheduled length, and
  is in every window around that moment. A moment is answered 404 exactly when no
  stored segment contains it.
\<close>

theorem recordings_exact:
  assumes "iso8601 lo_text = Some lo" and "iso8601 hi_text = Some hi" and "lo < hi" and "1 \<le> limit" and "limit \<le> 1000"
    and "cid \<in> set (dict_keys (db_cameras (ap_db a)))" and "iso8601 t_text = Some t"
  shows "\<exists>segs. camera_recordings iso8601 mac now cid lo_text hi_text limit a = Inr (map (view_segment mac now) segs) \<and>
      length segs \<le> nat limit \<and> sorted_wrt (\<lambda>x y. sg_start (snd x) \<le> sg_start (snd y)) segs \<and>
      set segs \<subseteq> {(i, s) \<in> set (db_segments (ap_db a)). sg_camera s = cid \<and> sg_size s > 0 \<and> sg_start s < hi \<and> lo < sg_end s} \<and>
      (length segs < nat limit \<longrightarrow>
         set segs = {(i, s) \<in> set (db_segments (ap_db a)). sg_camera s = cid \<and> sg_size s > 0 \<and> sg_start s < hi \<and> lo < sg_end s}) \<and>
      (case recording_at iso8601 mac now cid t_text a of
         Inl err \<Rightarrow> err = Http 404 \<and> (\<nexists>i s. (i, s) \<in> set (db_segments (ap_db a)) \<and> sg_camera s = cid \<and> sg_size s > 0 \<and>
                     sg_start s \<le> t \<and> t \<le> sg_end s)
       | Inr (v, offset) \<Rightarrow>
           \<exists>i s. (i, s) \<in> set (db_segments (ap_db a)) \<and> sg_camera s = cid \<and> v = view_segment mac now (i, s) \<and>
             sg_start s \<le> t \<and> t \<le> sg_end s \<and> offset = total_seconds (t - sg_start s) \<and> 0 \<le> offset \<and>
             offset \<le> total_seconds (sg_end s - sg_start s) \<and>
             (lo < t \<longrightarrow> t < hi \<longrightarrow> length segs < nat limit \<longrightarrow> (i, s) \<in> set segs))"
proof -
  let ?all = "camera_segments cid (\<lambda>s. sg_start s < hi \<and> lo < sg_end s) (ap_db a)"
  let ?segs = "take (nat limit) ?all"
  have rec: "camera_recordings iso8601 mac now cid lo_text hi_text limit a = Inr (map (view_segment mac now) ?segs)"
    using assms by (simp add: camera_recordings_def)
  have all: "set ?all = {(i, s) \<in> set (db_segments (ap_db a)). sg_camera s = cid \<and> sg_size s > 0 \<and> sg_start s < hi \<and> lo < sg_end s}"
    unfolding camera_segments_set by auto
  have sub: "set ?segs \<subseteq> set ?all" by (rule set_take_subset)
  have full: "length ?segs < nat limit \<Longrightarrow> set ?segs = set ?all" by simp
  have sorted: "sorted_wrt (\<lambda>x y. sg_start (snd x) \<le> sg_start (snd y)) ?segs"
    by (rule sorted_wrt_take [OF camera_segments_sorted])
  let ?at = "camera_segments cid (\<lambda>s. sg_start s \<le> t \<and> t \<le> sg_end s) (ap_db a)"
  have at_set: "set ?at = {(i, s) \<in> set (db_segments (ap_db a)). sg_camera s = cid \<and> (sg_start s \<le> t \<and> t \<le> sg_end s) \<and> sg_size s > 0}"
    by (rule camera_segments_set)
  have "case recording_at iso8601 mac now cid t_text a of
         Inl err \<Rightarrow> err = Http 404 \<and> (\<nexists>i s. (i, s) \<in> set (db_segments (ap_db a)) \<and> sg_camera s = cid \<and> sg_size s > 0 \<and>
                     sg_start s \<le> t \<and> t \<le> sg_end s)
       | Inr (v, offset) \<Rightarrow>
           \<exists>i s. (i, s) \<in> set (db_segments (ap_db a)) \<and> sg_camera s = cid \<and> v = view_segment mac now (i, s) \<and>
             sg_start s \<le> t \<and> t \<le> sg_end s \<and> offset = total_seconds (t - sg_start s) \<and> 0 \<le> offset \<and>
             offset \<le> total_seconds (sg_end s - sg_start s) \<and>
             (lo < t \<longrightarrow> t < hi \<longrightarrow> length ?segs < nat limit \<longrightarrow> (i, s) \<in> set ?segs)"
  proof (cases ?at)
    case Nil
    then have "\<nexists>i s. (i, s) \<in> set (db_segments (ap_db a)) \<and> sg_camera s = cid \<and> sg_size s > 0 \<and> sg_start s \<le> t \<and> t \<le> sg_end s"
      using at_set by auto
    with Nil assms(6,7) show ?thesis by (simp add: recording_at_def)
  next
    case (Cons x rest)
    obtain i s where x: "x = (i, s)" by (cases x)
    have m: "(i, s) \<in> set (db_segments (ap_db a))" "sg_camera s = cid" "sg_start s \<le> t" "t \<le> sg_end s" "sg_size s > 0"
      using at_set Cons x by auto
    have "(i, s) \<in> set ?segs" if "lo < t" "t < hi" "length ?segs < nat limit"
      using full [OF that(3)] m that unfolding all by auto
    moreover have "recording_at iso8601 mac now cid t_text a = Inr (view_segment mac now (i, s), total_seconds (t - sg_start s))"
      using Cons x assms(6,7) m(3) by (simp add: recording_at_def max_def)
    ultimately show ?thesis using m
      by (simp only: sum.case prod.case) (intro exI [of _ i] exI [of _ s], simp)
  qed
  then show ?thesis using rec sub full sorted unfolding all [symmetric]
    by (intro exI [of _ ?segs]) simp
qed


section \<open>Deleting a camera\<close>

lemma segment_key_in:
  "(i, s) \<in> set (db_segments d) \<Longrightarrow> sg_camera s = cid \<Longrightarrow> sg_key s \<in> set (camera_object_keys env cid d)"
  by (force simp: camera_object_keys_def)

lemma decrypt_keys_in: "enc \<in> set encs \<Longrightarrow> ae_decrypt env enc = Some k \<Longrightarrow> k \<in> set (decrypt_keys env encs)"
  by (induction encs) (auto simp: decrypt_keys_def List.map_filter_def)

lemma snapshot_key_in:
  "(i, s) \<in> set (db_snapshots d) \<Longrightarrow> sn_camera s = cid \<Longrightarrow> ae_decrypt env (sn_key_enc s) = Some k \<Longrightarrow>
    k \<in> set (camera_object_keys env cid d)"
  unfolding camera_object_keys_def set_append
  by (rule UnI2, rule decrypt_keys_in [of "sn_key_enc s"]) (force, simp)

text \<open>
  Deleting a camera removes its row and everything recorded by it, and leaves none of the
  objects its segments and its readable snapshots are stored under, while every object under
  a key apart from those stays; an unknown camera changes nothing.
\<close>

theorem delete_camera_objects:
  assumes "delete_camera env base cid user rq (a, fs) = (r, b, gs)"
  shows "if cid \<in> set (dict_keys (db_cameras (ap_db a)))
    then r = Inr () \<and> db_cameras (ap_db b) = dict_del cid (db_cameras (ap_db a)) \<and>
      db_segments (ap_db b) = filter (\<lambda>(i, s). sg_camera s \<noteq> cid) (db_segments (ap_db a)) \<and>
      list_all (\<lambda>(i, s). sg_camera s = cid \<longrightarrow> (\<nexists>x. get base (sg_key s) gs = Inr x)) (db_segments (ap_db a)) \<and>
      list_all (\<lambda>(i, s). sn_camera s = cid \<longrightarrow>
        (case ae_decrypt env (sn_key_enc s) of None \<Rightarrow> True | Some k \<Rightarrow> \<nexists>x. get base k gs = Inr x)) (db_snapshots (ap_db a)) \<and>
      (\<forall>k x. get base k fs = Inr x \<longrightarrow>
         list_all (\<lambda>k'. apart_keys base 0 k' k) (camera_object_keys env cid (ap_db a)) \<longrightarrow> get base k gs = Inr x)
    else r = Inl (Http 404) \<and> b = a \<and> gs = fs"
proof (cases "cid \<in> set (dict_keys (db_cameras (ap_db a)))")
  case True
  let ?keys = "camera_object_keys env cid (ap_db a)"
  have e: "r = Inr ()" "gs = delete_all (delete base) ?keys fs"
    "b = write_audit env rq (Some user) [] ''camera.delete'' cid ''success'' [] None (a\<lparr>ap_db := delete_camera_rows cid (ap_db a)\<rparr>)"
    using assms True by (simp_all add: delete_camera_def Let_def)
  have gone: "\<nexists>x. get base k gs = Inr x" if "k \<in> set ?keys" for k
    unfolding e(2) using local_store.delete_all_removes [OF that] by blast
  have keep: "get base k gs = Inr x" if "get base k fs = Inr x" "list_all (\<lambda>k'. apart_keys base 0 k' k) ?keys" for k x
    unfolding e(2) using local_store.delete_all_keeps [of ?keys base 0 k fs x] that by (simp add: list_all_iff)
  have segs: "db_segments (ap_db b) = filter (\<lambda>(i, s). sg_camera s \<noteq> cid) (db_segments (ap_db a))"
    by (simp add: e(3) write_audit_def fresh_id_def Let_def delete_camera_rows_def drop_events_def purge_def)
  have "list_all (\<lambda>(i, s). sg_camera s = cid \<longrightarrow> (\<nexists>x. get base (sg_key s) gs = Inr x)) (db_segments (ap_db a))"
    using gone segment_key_in unfolding list_all_iff by fast
  moreover have "list_all (\<lambda>(i, s). sn_camera s = cid \<longrightarrow>
        (case ae_decrypt env (sn_key_enc s) of None \<Rightarrow> True | Some k \<Rightarrow> \<nexists>x. get base k gs = Inr x)) (db_snapshots (ap_db a))"
  proof -
    have "case ae_decrypt env (sn_key_enc s) of None \<Rightarrow> True | Some k \<Rightarrow> \<nexists>x. get base k gs = Inr x"
      if "(i, s) \<in> set (db_snapshots (ap_db a))" "sn_camera s = cid" for i s
      using gone snapshot_key_in [OF that] by (cases "ae_decrypt env (sn_key_enc s)") simp_all
    then show ?thesis by (auto simp: list_all_iff)
  qed
  ultimately show ?thesis using True e(1) segs keep by (simp add: e(3) delete_camera_cameras)
next
  case False
  then show ?thesis using assms by (simp add: delete_camera_def Let_def)
qed

end
