(* ===== verification/Camera_Examples.thy ===== *)
theory Camera_Examples
  imports Camera_Safety Auth_Examples
begin

text \<open>Concrete runs of the camera handlers: the witnesses of \<open>Camera_Safety\<close>.\<close>

definition yard_dns :: "string \<Rightarrow> string list option" where
  "yard_dns h = Some []"

definition yard_body :: body where
  "yard_body = [(''name'', JStr ''yard''), (''stream_url'', JStr ''rtsp://h/x'')]"

definition yard_user :: "string \<times> user_row" where
  "yard_user = (''u'', desk_user)"

lemma yard_guard: "\<exists>p. guard_url yard_dns desk_settings ''rtsp://h/x'' = Inr p"
proof -
  have "urlparse (''rtsp://'' @ ''h'' @ ''/'' @ ''x'') = Inr \<lparr>pu_scheme = ''rtsp'', pu_netloc = ''h'', pu_hostname = hostname ''h''\<rparr>"
    by (rule parse_rtsp) (simp_all add: netloc_char_def url_safe_def unreserved_def)
  moreover have "hostname ''h'' = ''h''"
    by (simp add: hostname_def host_part_def before_def lower_def lower_char_def)
  moreover have "lower ''rtsp'' = ''rtsp''" by (simp add: lower_def lower_char_def)
  moreover have "ssrf_allowlist_cidrs desk_settings = []"
    by (simp add: ssrf_allowlist_cidrs_def desk_settings_def default_settings_def comma_list_def strip_def lstrip_def)
  ultimately show ?thesis
    by (simp add: guard_url_def validate_egress_url_def allowed_schemes_def yard_dns_def)
qed

lemma yard_created:
  "\<exists>i c. db_cameras (ap_db (snd (create_camera desk_env desk_settings yard_dns yard_body yard_user desk_request desk_app))) = [(i, c)] \<and>
     ca_stream_enc c = Some (ae_encrypt desk_env ''rtsp://h/x'') \<and> ca_substream_enc c = None"
proof -
  have f: "field yard_body ''name'' = Some (JStr ''yard'')" "field yard_body ''stream_url'' = Some (JStr ''rtsp://h/x'')"
    "field yard_body ''substream_url'' = None" "field yard_body ''camera_uid'' = None" "field yard_body ''nvr_device_id'' = None"
    "field yard_body ''resolution'' = None" "field yard_body ''fps'' = None" "field yard_body ''timezone'' = None"
    by (simp_all add: field_def yard_body_def)
  obtain p where g: "guard_url yard_dns desk_settings ''rtsp://h/x'' = Inr p" using yard_guard by blast
  have "db_cameras (ap_db (snd (fresh_id desk_env desk_app))) = []" by (simp add: desk_app_def empty_db_def)
  then show ?thesis
    by (simp add: create_camera_def text_field_def f new_camera_def nullable_text_def column_text_def fps_field_def g
        refers_def case_prod_unfold Let_def dict_set_def)
qed

theorem camera_urls_guarded_witness:
  "\<exists>i c. (i, c) \<in> set (db_cameras (ap_db (fst (fold (camera_exec desk_env desk_settings yard_dns ''/d'')
       [Create_camera yard_body yard_user desk_request] (desk_app, \<lparr>fs_files = [], fs_dirs = {}\<rparr>))))) \<and>
     ca_stream_enc c = Some (ae_encrypt desk_env ''rtsp://h/x'') \<and>
     (\<forall>enc \<in> set_option (ca_stream_enc c) \<union> set_option (ca_substream_enc c).
        \<exists>url p. enc = ae_encrypt desk_env url \<and> validate_egress_url yard_dns (ssrf_allowlist_cidrs desk_settings) [] url = Inr p)"
proof -
  obtain i c where c: "db_cameras (ap_db (snd (create_camera desk_env desk_settings yard_dns yard_body yard_user desk_request desk_app))) = [(i, c)]"
    "ca_stream_enc c = Some (ae_encrypt desk_env ''rtsp://h/x'')" using yard_created by blast
  have i: "db_cameras (ap_db desk_app) = []" by (simp add: desk_app_def empty_db_def)
  have m: "(i, c) \<in> set (db_cameras (ap_db (fst (fold (camera_exec desk_env desk_settings yard_dns ''/d'')
       [Create_camera yard_body yard_user desk_request] (desk_app, \<lparr>fs_files = [], fs_dirs = {}\<rparr>)))))"
    by (simp add: c(1))
  from camera_urls_guarded [OF i m] c(2) m show ?thesis by blast
qed

definition yard_row :: camera_row where
  "yard_row = \<lparr>ca_name = ''yard'', ca_uid = None, ca_nvr = None, ca_stream_enc = Some (ae_encrypt desk_env ''rtsp://h/x''),
     ca_substream_enc = None, ca_status = ''OFFLINE'', ca_health = ''unknown'', ca_last_seen = None, ca_resolution = [], ca_fps = 0,
     ca_timezone = ''UTC'', ca_masks = None, ca_retention = None, ca_rules = None, ca_created_at = 0\<rparr>"

definition yard_segment :: segment_row where
  "yard_segment = \<lparr>sg_camera = ''c'', sg_key = ''seg'', sg_backend = ''local'', sg_start = 0, sg_end = 300000000,
     sg_duration = 300, sg_size = 9, sg_created_at = 0\<rparr>"

definition yard_app :: app where
  "yard_app = desk_app\<lparr>ap_db := (ap_db desk_app)\<lparr>db_cameras := [(''c'', yard_row)], db_segments := [(''s'', yard_segment)]\<rparr>\<rparr>"

definition yard_mac :: "string \<Rightarrow> string" where
  "yard_mac m = m"

definition yard_iso :: "string \<Rightarrow> timestamp option" where
  "yard_iso s = (if s = ''lo'' then Some (-5) else if s = ''hi'' then Some 5 else if s = ''t'' then Some 2 else None)"

theorem recordings_exact_witness:
  "case recording_at yard_iso yard_mac 0 ''c'' ''t'' yard_app of Inl _ \<Rightarrow> False
   | Inr (v, offset) \<Rightarrow> sv_id v = ''s'' \<and> offset = total_seconds 2"
proof -
  have a: "db_segments (ap_db yard_app) = [(''s'', yard_segment)]" "db_cameras (ap_db yard_app) = [(''c'', yard_row)]"
    by (simp_all add: yard_app_def)
  have i: "yard_iso ''lo'' = Some (-5)" "yard_iso ''hi'' = Some 5" "yard_iso ''t'' = Some 2" by (simp_all add: yard_iso_def)
  have "''c'' \<in> set (dict_keys (db_cameras (ap_db yard_app)))" by (simp add: a)
  from recordings_exact [OF i(1,2) _ _ _ this i(3), of 5 yard_mac 0]
  show ?thesis by (auto simp: a yard_segment_def view_segment_def split: sum.splits prod.splits)
qed

lemma yard_may_not_view: "bearer_may_view desk_env desk_settings desk_request yard_app = False"
  by (simp add: bearer_may_view_def desk_request_def)

theorem snapshot_access_exact_witness:
  "\<exists>url e. camera_snapshot_url yard_mac 0 ''c'' yard_app = Inr (url, e) \<and>
     camera_snapshot desk_env desk_settings yard_dns yard_mac (\<lambda>_. Frame [0xFF, 0xD8]) ''c'' (str_int e)
       (yard_mac (''camera-snapshot:c:'' @ str_int e)) desk_request yard_app = Inr [0xFF, 0xD8] \<and>
     verify_signed_url yard_mac 0 ''camera-snapshot:c'' (str_int e) (yard_mac (''camera-snapshot:c:'' @ str_int e))"
proof -
  have c: "dict_get (db_cameras (ap_db yard_app)) ''c'' = Some yard_row"
    "''c'' \<in> set (dict_keys (db_cameras (ap_db yard_app)))" by (simp_all add: yard_app_def dict_get_def)
  let ?e = "clock_seconds 0 + 300"
  obtain url where u: "camera_snapshot_url yard_mac 0 ''c'' yard_app = Inr (url, ?e)"
    using c(2) by (simp add: camera_snapshot_url_def Let_def)
  obtain p where g: "guard_url yard_dns desk_settings ''rtsp://h/x'' = Inr p" using yard_guard by blast
  have e0: "str_int ?e \<noteq> []" by (simp add: str_int_def)
  have "snapshot_authorized desk_env desk_settings yard_mac ''c'' (str_int ?e) (yard_mac (''camera-snapshot:c:'' @ str_int ?e))
      desk_request yard_app = Inr True"
    unfolding snapshot_authorized_iff using e0 by (simp add: yard_mac_def snapshot_key_text_def desk_request_def)
  moreover have "ae_decrypt desk_env (ae_encrypt desk_env ''rtsp://h/x'') = Some ''rtsp://h/x''" by (simp add: desk_env_def)
  moreover have "ae_encrypt desk_env ''rtsp://h/x'' \<noteq> []" by (simp add: desk_env_def)
  ultimately have s: "camera_snapshot desk_env desk_settings yard_dns yard_mac (\<lambda>_. Frame [0xFF, 0xD8]) ''c'' (str_int ?e)
       (yard_mac (''camera-snapshot:c:'' @ str_int ?e)) desk_request yard_app = Inr [0xFF, 0xD8]"
    by (simp add: camera_snapshot_def c yard_row_def g)
  from snapshot_access_exact [OF s u, of 0] s u show ?thesis by (auto simp: Let_def)
qed

theorem delete_camera_objects_witness:
  "\<nexists>x. get ''/d'' ''seg'' (snd (snd (delete_camera desk_env ''/d'' ''c'' yard_user desk_request
     (yard_app, \<lparr>fs_files = [(''/d/seg'', [1])], fs_dirs = {''/d''}\<rparr>)))) = Inr x"
proof -
  obtain r b gs where d: "delete_camera desk_env ''/d'' ''c'' yard_user desk_request
     (yard_app, \<lparr>fs_files = [(''/d/seg'', [1])], fs_dirs = {''/d''}\<rparr>) = (r, b, gs)" by (metis prod_cases3)
  have "''c'' \<in> set (dict_keys (db_cameras (ap_db yard_app)))" "db_segments (ap_db yard_app) = [(''s'', yard_segment)]"
    by (simp_all add: yard_app_def)
  then show ?thesis using delete_camera_objects [OF d] by (simp add: d yard_segment_def)
qed

end
