(* ===== verification/Crypto.thy ===== *)
theory Crypto
  imports Storage
begin

text \<open>
  \<open>packages/security/crypto.py\<close>: envelope encryption. Fernet and base64 are parameters; random
  data keys and initialisation vectors are arguments. Text is Latin-1, encoded as UTF-8.
\<close>

section \<open>The box\<close>

record fernet =
  fe_key_ok :: "string \<Rightarrow> bool"
  fe_encrypt :: "string \<Rightarrow> nat \<Rightarrow> bytes \<Rightarrow> string"  \<comment> \<open>key, vector, plain text\<close>
  fe_decrypt :: "string \<Rightarrow> string \<Rightarrow> bytes option"  \<comment> \<open>\<open>None\<close>: \<open>InvalidToken\<close>\<close>
  fe_pack :: "json \<Rightarrow> string"  \<comment> \<open>base64 of the JSON text\<close>
  fe_unpack :: "string \<Rightarrow> json option"  \<comment> \<open>\<open>None\<close>: any exception\<close>

record randomness =
  rd_data_key :: string
  rd_plain_iv :: nat
  rd_wrap_iv :: nat

definition encode_utf8 :: "string \<Rightarrow> bytes" where
  "encode_utf8 s = map word_of_nat (concat (map utf8 s))"

fun utf8_chars :: "nat list \<Rightarrow> string option" where
  \<comment> \<open>characters beyond Latin-1 are left out\<close>
  "utf8_chars [] = Some []"
| "utf8_chars (b # bs) =
     (if b < 128 then map_option ((#) (char_of b)) (utf8_chars bs)
      else case bs of [] \<Rightarrow> None
        | c # cs \<Rightarrow> if (b = 194 \<or> b = 195) \<and> 128 \<le> c \<and> c < 192
                    then map_option ((#) (char_of ((b - 192) * 64 + (c - 128)))) (utf8_chars cs) else None)"

definition decode_utf8 :: "bytes \<Rightarrow> py_error + string" where
  "decode_utf8 bs = (case utf8_chars (map unat bs) of None \<Rightarrow> Inl ValueError | Some s \<Rightarrow> Inr s)"

definition crypto_box :: "fernet \<Rightarrow> string \<Rightarrow> py_error + string" where
  \<comment> \<open>the key-encryption key, or the error of the constructor\<close>
  "crypto_box fe master = (if master = [] then Inl CryptoError else if \<not> fe_key_ok fe master then Inl CryptoError else Inr master)"

definition seal :: "fernet \<Rightarrow> string \<Rightarrow> randomness \<Rightarrow> bytes \<Rightarrow> json" where
  "seal fe kek rd plain =
     (let ct = fe_encrypt fe (rd_data_key rd) (rd_plain_iv rd) plain;
          wrapped = fe_encrypt fe kek (rd_wrap_iv rd) (encode_utf8 (rd_data_key rd))
      in JObj [(''k'', JStr wrapped), (''c'', JStr ct)])"

definition field_bytes :: "json \<Rightarrow> string \<Rightarrow> py_error + string" where
  \<comment> \<open>\<open>envelope[name].encode()\<close>\<close>
  "field_bytes j name =
     (case j of
        JObj kvs \<Rightarrow> (case map_of (rev kvs) name of None \<Rightarrow> Inl KeyError | Some (JStr s) \<Rightarrow> Inr s | Some _ \<Rightarrow> Inl AttributeError)
      | _ \<Rightarrow> Inl TypeError)"

definition open_envelope :: "fernet \<Rightarrow> string \<Rightarrow> json \<Rightarrow> py_error + bytes" where
  "open_envelope fe kek envelope =
     (let r = bind_ok (field_bytes envelope ''k'') (\<lambda>wrapped. bind_ok (field_bytes envelope ''c'') (\<lambda>ct.
           case fe_decrypt fe kek wrapped of
             None \<Rightarrow> Inl CryptoError
           | Some key \<Rightarrow>
               bind_ok (decode_utf8 key) (\<lambda>data_key.
                 if \<not> fe_key_ok fe data_key then Inl ValueError
                 else case fe_decrypt fe data_key ct of None \<Rightarrow> Inl CryptoError | Some plain \<Rightarrow> Inr plain)))
      in case r of Inl err \<Rightarrow> Inl (if err = KeyError \<or> err = TypeError then CryptoError else err) | Inr plain \<Rightarrow> Inr plain)"

definition encrypt_bytes :: "fernet \<Rightarrow> string \<Rightarrow> randomness \<Rightarrow> bytes \<Rightarrow> string" where
  "encrypt_bytes fe kek rd data = fe_pack fe (seal fe kek rd data)"

definition decrypt_bytes :: "fernet \<Rightarrow> string \<Rightarrow> string \<Rightarrow> py_error + bytes" where
  "decrypt_bytes fe kek token =
     (case fe_unpack fe token of None \<Rightarrow> Inl CryptoError | Some envelope \<Rightarrow> open_envelope fe kek envelope)"

definition encrypt_str :: "fernet \<Rightarrow> string \<Rightarrow> randomness \<Rightarrow> string \<Rightarrow> string" where
  "encrypt_str fe kek rd text = encrypt_bytes fe kek rd (encode_utf8 text)"

definition decrypt_str :: "fernet \<Rightarrow> string \<Rightarrow> string \<Rightarrow> py_error + string" where
  "decrypt_str fe kek token = bind_ok (decrypt_bytes fe kek token) decode_utf8"

section \<open>Round trip\<close>

lemma utf8_of_nat: "utf8_chars (utf8 c @ ns) = map_option ((#) c) (utf8_chars ns)"
proof (cases "of_char c < (128::nat)")
  case True
  then show ?thesis by (simp add: utf8_def)
next
  case False
  obtain q m where qm: "q = of_char c div (64::nat)" "m = of_char c mod (64::nat)" by blast
  have "q < 4" unfolding qm by (rule less_mult_imp_div_less) simp
  moreover have "2 \<le> q" using False by (simp add: qm less_eq_div_iff_mult_less_eq)
  ultimately have q: "q = 2 \<or> q = 3" by arith
  have "of_char c = q * 64 + m" by (simp add: qm)
  then have c: "char_of (q * 64 + m) = c" by (metis char_of_char)
  have "m < 64" by (simp add: qm)
  moreover have "utf8 c = [192 + q, 128 + m]" using False by (simp add: utf8_def qm Let_def)
  ultimately show ?thesis using q c by auto
qed

lemma utf8_chars_encode: "utf8_chars (concat (map utf8 s)) = Some s"
  by (induction s) (simp_all add: utf8_of_nat)

lemma utf8_small: "n \<in> set (utf8 c) \<Longrightarrow> n < 256"
proof -
  have "of_char c < (256::nat)" by (rule nat_of_char_less_256)
  then have "of_char c div 64 < (4::nat)" by (intro less_mult_imp_div_less) simp
  then show "n \<in> set (utf8 c) \<Longrightarrow> n < 256" using \<open>of_char c < (256::nat)\<close> by (auto simp: utf8_def Let_def split: if_splits)
qed

lemma decode_encode [simp]: "decode_utf8 (encode_utf8 s) = Inr s"
proof -
  have "map unat (map word_of_nat ns :: bytes) = ns" if "\<forall>n \<in> set ns. n < 256" for ns
    using that by (induction ns) (simp_all add: unat_of_nat)
  moreover have "\<forall>n \<in> set (concat (map utf8 s)). n < 256" by (auto dest: utf8_small)
  ultimately show ?thesis by (simp add: decode_utf8_def encode_utf8_def utf8_chars_encode)
qed


definition envelope :: "string \<Rightarrow> string \<Rightarrow> json" where
  "envelope wrapped ct = JObj [(''k'', JStr wrapped), (''c'', JStr ct)]"

definition fernet_laws :: "fernet \<Rightarrow> bool" where
  \<comment> \<open>decryption inverts encryption under the same key and rejects any other, and base64 and
    JSON restore an envelope\<close>
  "fernet_laws fe \<longleftrightarrow>
     (\<forall>k iv p. fe_key_ok fe k \<longrightarrow> fe_decrypt fe k (fe_encrypt fe k iv p) = Some p) \<and>
     (\<forall>k k' iv p. k' \<noteq> k \<longrightarrow> fe_decrypt fe k' (fe_encrypt fe k iv p) = None) \<and>
     (\<forall>w c. fe_unpack fe (fe_pack fe (envelope w c)) = Some (envelope w c))"

lemma open_envelope_simp:
  "open_envelope fe kek (envelope w c) =
     (case fe_decrypt fe kek w of None \<Rightarrow> Inl CryptoError
      | Some key \<Rightarrow> (case decode_utf8 key of Inl err \<Rightarrow> Inl (if err = KeyError \<or> err = TypeError then CryptoError else err)
          | Inr dk \<Rightarrow> if \<not> fe_key_ok fe dk then Inl ValueError
                      else case fe_decrypt fe dk c of None \<Rightarrow> Inl CryptoError | Some plain \<Rightarrow> Inr plain))"
  by (simp add: open_envelope_def envelope_def field_bytes_def Let_def split: option.splits sum.splits)


definition unary :: "string \<Rightarrow> string" where
  "unary s = replicate (length s) CHR ''x'' @ '':'' @ s"

definition toy_fernet :: fernet where
  "toy_fernet = \<lparr>fe_key_ok = \<lambda>_. True,
     fe_encrypt = (\<lambda>k iv p. unary k @ map (\<lambda>b. char_of (unat b)) p),
     fe_decrypt = (\<lambda>k c. if starts_with c (unary k) then Some (map (\<lambda>x. word_of_nat (of_char x)) (drop (length (unary k)) c)) else None),
     fe_pack = (\<lambda>j. case j of JObj [(_, JStr w), (_, JStr c)] \<Rightarrow> unary w @ c | _ \<Rightarrow> ''''),
     fe_unpack = (\<lambda>t. let n = length (takeWhile (\<lambda>x. x = CHR ''x'') t); r = drop (Suc n) t
                      in if t = [] then None else Some (envelope (take n r) (drop n r)))\<rparr>"

lemma unary_length: "length (takeWhile (\<lambda>x. x = CHR ''x'') (replicate n CHR ''x'' @ CHR '':'' # r)) = n"
  by (induction n) simp_all

lemma unary_prefix: "starts_with (unary k @ s) (unary k') \<longleftrightarrow> k' = k"
proof
  assume "starts_with (unary k @ s) (unary k')"
  then obtain t where eq: "unary k @ s = unary k' @ t" by (auto simp: starts_with_iff)
  have len: "length (takeWhile (\<lambda>x. x = CHR ''x'') (unary j @ r)) = length j" for j r
    by (simp add: unary_def unary_length)
  from len [of k s] len [of k' t] eq have "length k = length k'" by simp
  with eq show "k' = k" by (simp add: unary_def)
qed simp

lemma toy_laws: "fernet_laws toy_fernet"
proof -
  have b: "map (\<lambda>x. word_of_nat (of_char x)) (map (\<lambda>b. char_of (unat b)) p) = (p :: bytes)" for p
  proof (induction p)
    case (Cons w p)
    have "of_char (char_of (unat w)) = unat w" using unsigned_less [of w, where ?'a = nat] by simp
    with Cons show ?case by simp
  qed simp
  have "fe_unpack toy_fernet (fe_pack toy_fernet (envelope w c)) = Some (envelope w c)" for w c
    by (simp add: toy_fernet_def envelope_def unary_def unary_length Let_def)
  then show ?thesis using b by (simp add: fernet_laws_def unary_prefix) (simp add: toy_fernet_def unary_prefix o_def)
qed


end
