(* ===== verification/Notify.thy ===== *)
theory Notify
  imports Storage
begin

text \<open>
  \<open>packages/notify\<close>: alerts and the channels they leave through (webhook, e-mail, ntfy push,
  MQTT). What a notifier hands to its transport is a value; whether the transport delivers it is a
  parameter. Channel configurations are JSON objects; values of a type the constructors do not
  expect are left open.
\<close>

section \<open>Alerts\<close>

record alert =
  al_rule_id :: string
  al_rule_type :: string
  al_camera_id :: string
  al_severity :: string
  al_title :: string
  al_message :: string
  al_detail :: "(string \<times> json) list"
  al_ts :: "string option"

definition new_alert :: "string \<Rightarrow> string \<Rightarrow> string \<Rightarrow> alert" where
  \<comment> \<open>the defaults\<close>
  "new_alert rule_id rule_type camera_id =
     \<lparr>al_rule_id = rule_id, al_rule_type = rule_type, al_camera_id = camera_id, al_severity = ''info'', al_title = [],
      al_message = [], al_detail = [], al_ts = None\<rparr>"

section \<open>Notifiers\<close>

record push_config =
  pu_server :: "string option"
  pu_topic :: "string option"
  pu_auth_token :: "string option"
  pu_priority :: json
  pu_tags :: json
  pu_click :: "string option"
  pu_title :: "string option"

record mqtt_config =
  mq_host :: string
  mq_port :: int
  mq_topic_template :: string
  mq_username :: "string option"
  mq_password :: "string option"
  mq_tls :: bool
  mq_qos :: int
  mq_retain :: bool

datatype notifier =
    Webhook string
  | Email string int string "string list"  \<comment> \<open>host, port, sender, recipients\<close>
  | Push push_config
  | Mqtt mqtt_config

datatype transport =
    Post string json "(string \<times> string) list"  \<comment> \<open>URL, body, headers\<close>
  | Smtp bool string int string "string list" string  \<comment> \<open>implicit TLS, host, port, sender, recipients, text\<close>
  | Publish string int string json int bool "(string \<times> string) option" bool
      \<comment> \<open>host, port, topic, payload, QoS, retain, credentials, TLS\<close>

definition alert_fields :: "alert \<Rightarrow> (string \<times> json) list" where
  "alert_fields a =
     [(''rule_id'', JStr (al_rule_id a)), (''rule_type'', JStr (al_rule_type a)), (''camera_id'', JStr (al_camera_id a)),
      (''severity'', JStr (al_severity a)), (''title'', JStr (al_title a)), (''message'', JStr (al_message a)),
      (''detail'', JObj (al_detail a)), (''ts'', text_json (al_ts a))]"

definition webhook_send :: "string \<Rightarrow> alert \<Rightarrow> transport" where
  "webhook_send url a = Post url (JObj (alert_fields a)) []"

definition email_body :: "(json \<Rightarrow> string) \<Rightarrow> alert \<Rightarrow> string" where
  \<comment> \<open>\<open>str\<close> of the detail is a parameter\<close>
  "email_body str_of a =
     ''['' @ map upper_char (al_severity a) @ ''] '' @ al_title a @ [CHR 0x0A] @ al_message a @ [CHR 0x0A] @ str_of (JObj (al_detail a))"

definition email_send :: "(json \<Rightarrow> string) \<Rightarrow> string \<Rightarrow> int \<Rightarrow> string \<Rightarrow> string list \<Rightarrow> alert \<Rightarrow> transport" where
  "email_send str_of host port sender recipients a = Smtp (port = 465) host port sender recipients (email_body str_of a)"

definition drop_left :: "char \<Rightarrow> string \<Rightarrow> string" where
  "drop_left c s = dropWhile (\<lambda>x. x = c) s"

definition drop_right :: "char \<Rightarrow> string \<Rightarrow> string" where
  "drop_right c s = rev (drop_left c (rev s))"

definition or_text :: "string option \<Rightarrow> string \<Rightarrow> string" where
  "or_text x y = (case x of None \<Rightarrow> y | Some s \<Rightarrow> if s = [] then y else s)"

definition push_notifier ::
  "string option \<Rightarrow> string option \<Rightarrow> string option \<Rightarrow> json \<Rightarrow> json \<Rightarrow> string option \<Rightarrow> string option \<Rightarrow> push_config" where
  "push_notifier server topic auth_token priority tags click title =
     (let s = drop_right CHR ''/'' (or_text server []) in
      \<lparr>pu_server = (if s = [] then None else Some s), pu_topic = topic, pu_auth_token = auth_token, pu_priority = priority,
       pu_tags = tags, pu_click = click, pu_title = title\<rparr>)"

definition plain_push :: push_config where
  "plain_push = push_notifier None None None JNull JNull None None"

definition ntfy_enabled :: "push_config \<Rightarrow> bool" where
  "ntfy_enabled c \<longleftrightarrow> or_text (pu_server c) [] \<noteq> [] \<and> or_text (pu_topic c) [] \<noteq> []"

definition ntfy_priority :: "json \<Rightarrow> int" where
  "ntfy_priority j =
     (let p = (case j of JNum x \<Rightarrow> if of_int \<lfloor>x\<rfloor> = x then \<lfloor>x\<rfloor> else 3 | JBool b \<Rightarrow> if b then 1 else 0 | _ \<Rightarrow> 3)
      in max 1 (min 5 p))"

definition ntfy_tags :: "(json \<Rightarrow> string) \<Rightarrow> json \<Rightarrow> alert \<Rightarrow> string list" where
  "ntfy_tags str_of tags a =
     (let given = (case tags of
            JList ts \<Rightarrow> filter (\<lambda>t. strip t \<noteq> []) (map str_of ts)
          | JStr s \<Rightarrow> if strip s \<noteq> [] then filter (\<lambda>t. t \<noteq> []) (map strip (split_on CHR '','' s)) else []
          | _ \<Rightarrow> [])
      in (if given = [] then [''localsight''] else given) @
         [if al_severity a = [] then ''info'' else al_severity a] @
         (if al_camera_id a = [] then [] else [''camera:'' @ al_camera_id a]))"

definition build_payload :: "(json \<Rightarrow> string) \<Rightarrow> push_config \<Rightarrow> alert \<Rightarrow> transport" where
  "build_payload str_of c a =
     (let url = or_text (pu_server c) [] @ ''/'' @ drop_left CHR ''/'' (or_text (pu_topic c) []);
          title = or_text (pu_title c) (if al_title a \<noteq> [] then al_title a
                    else ''LocalSight '' @ [CHR 0xB7] @ '' '' @ al_rule_type a);
          message = (if al_message a \<noteq> [] then al_message a else if al_title a \<noteq> [] then al_title a else al_rule_type a);
          body = [(''title'', JStr title), (''message'', JStr message), (''priority'', JNum (of_int (ntfy_priority (pu_priority c)))),
                  (''tags'', JList (map JStr (ntfy_tags str_of (pu_tags c) a)))] @
                 (if or_text (pu_click c) [] \<noteq> [] then [(''click'', JStr (or_text (pu_click c) []))] else []);
          headers = [(''Content-Type'', ''application/json'')] @
                 (if or_text (pu_auth_token c) [] \<noteq> [] then [(''Authorization'', ''Bearer '' @ or_text (pu_auth_token c) [])] else [])
      in Post url (JObj body) headers)"

function replace_all :: "string \<Rightarrow> string \<Rightarrow> string \<Rightarrow> string" where
  "replace_all old new [] = []"
| "replace_all old new (c # cs) =
     (if old \<noteq> [] \<and> starts_with (c # cs) old then new @ replace_all old new (drop (length old) (c # cs))
      else c # replace_all old new cs)"
  by pat_completeness auto
termination by (relation "measure (\<lambda>(old, new, s). length s)") auto

definition render_topic :: "string \<Rightarrow> alert \<Rightarrow> string" where
  "render_topic template a =
     (let camera = (if al_camera_id a = [] then ''unknown'' else al_camera_id a);
          rule = (if al_rule_type a = [] then ''unknown'' else al_rule_type a);
          topic = replace_all ''{rule_type}'' rule (replace_all ''{camera_id}'' camera template);
          parts = filter (\<lambda>p. p \<noteq> []) (split_on CHR ''/'' topic)
      in if parts = [] then ''localsight/alerts'' else join_with ''/'' parts)"

definition mqtt_send :: "mqtt_config \<Rightarrow> alert \<Rightarrow> transport" where
  "mqtt_send c a =
     Publish (mq_host c) (mq_port c) (render_topic (mq_topic_template c) a) (JObj ((''source'', JStr ''localsight'') # alert_fields a))
       (mq_qos c) (mq_retain c)
       (if or_text (mq_username c) [] \<noteq> [] then Some (or_text (mq_username c) [], or_text (mq_password c) []) else None) (mq_tls c)"

definition send :: "(json \<Rightarrow> string) \<Rightarrow> notifier \<Rightarrow> alert \<Rightarrow> transport option" where
  \<comment> \<open>what leaves the host; a push notifier without ntfy only keeps the alert in process\<close>
  "send str_of n a =
     (case n of
        Webhook url \<Rightarrow> Some (webhook_send url a)
      | Email host port sender recipients \<Rightarrow> Some (email_send str_of host port sender recipients a)
      | Push c \<Rightarrow> if ntfy_enabled c then Some (build_payload str_of c a) else None
      | Mqtt c \<Rightarrow> Some (mqtt_send c a))"

section \<open>Construction and dispatch\<close>

type_synonym config = "(string \<times> json) list"

definition config_get :: "config \<Rightarrow> string \<Rightarrow> json option" where
  "config_get c k = map_of (rev c) k"

definition config_item :: "config \<Rightarrow> string \<Rightarrow> py_error + json" where
  "config_item c k = (case config_get c k of None \<Rightarrow> Inl KeyError | Some j \<Rightarrow> Inr j)"

definition text_of :: "json \<Rightarrow> py_error + string" where
  "text_of j = (case j of JStr s \<Rightarrow> Inr s | _ \<Rightarrow> Inl Unmodelled)"

definition int_of :: "json \<Rightarrow> py_error + int" where
  \<comment> \<open>\<open>int(value)\<close>\<close>
  "int_of j =
     (case j of
        JNum x \<Rightarrow> Inr (py_trunc x)
      | JBool b \<Rightarrow> Inr (if b then 1 else 0)
      | JStr s \<Rightarrow> (case py_int s of None \<Rightarrow> Inl ValueError | Some n \<Rightarrow> Inr n)
      | _ \<Rightarrow> Inl TypeError)"

fun texts_of :: "json list \<Rightarrow> py_error + string list" where
  "texts_of [] = Inr []"
| "texts_of (j # js) = bind_ok (text_of j) (\<lambda>s. bind_ok (texts_of js) (\<lambda>ss. Inr (s # ss)))"

definition config_text :: "config \<Rightarrow> string \<Rightarrow> string \<Rightarrow> py_error + string" where
  "config_text c k dflt = (case config_get c k of None \<Rightarrow> Inr dflt | Some j \<Rightarrow> text_of j)"

definition config_opt :: "config \<Rightarrow> string \<Rightarrow> py_error + string option" where
  "config_opt c k =
     (case config_get c k of None \<Rightarrow> Inr None | Some JNull \<Rightarrow> Inr None | Some j \<Rightarrow> bind_ok (text_of j) (\<lambda>s. Inr (Some s)))"

definition config_int :: "config \<Rightarrow> string \<Rightarrow> int \<Rightarrow> py_error + int" where
  "config_int c k dflt = (case config_get c k of None \<Rightarrow> Inr dflt | Some j \<Rightarrow> int_of j)"

definition config_bool :: "config \<Rightarrow> string \<Rightarrow> bool \<Rightarrow> bool" where
  "config_bool c k dflt = (case config_get c k of None \<Rightarrow> dflt | Some j \<Rightarrow> json_truthy j)"

definition config_json :: "config \<Rightarrow> string \<Rightarrow> json" where
  "config_json c k = (case config_get c k of None \<Rightarrow> JNull | Some j \<Rightarrow> j)"

definition channels :: "string list" where
  "channels = [''webhook'', ''email'', ''push'', ''mqtt'']"

definition build_email :: "config \<Rightarrow> py_error + notifier" where
  "build_email c =
     bind_ok (config_item c ''smtp_host'') (\<lambda>h. bind_ok (config_item c ''smtp_port'') (\<lambda>p.
     bind_ok (config_item c ''sender'') (\<lambda>s. bind_ok (config_item c ''recipients'') (\<lambda>r.
     bind_ok (text_of h) (\<lambda>host. bind_ok (case p of JNum x \<Rightarrow> Inr (py_trunc x) | _ \<Rightarrow> Inl Unmodelled) (\<lambda>port.
     bind_ok (text_of s) (\<lambda>sender. bind_ok (case r of JList js \<Rightarrow> texts_of js | _ \<Rightarrow> Inl Unmodelled) (\<lambda>recipients.
       Inr (Email host port sender recipients)))))))))"

definition build_mqtt :: "config \<Rightarrow> py_error + notifier" where
  "build_mqtt c =
     bind_ok (config_text c ''host'' ''localhost'') (\<lambda>host.
     bind_ok (config_int c ''port'' 1883) (\<lambda>port.
     bind_ok (config_text c ''topic'' ''localsight/alerts/{camera_id}/{rule_type}'') (\<lambda>topic.
     bind_ok (config_opt c ''username'') (\<lambda>username.
     bind_ok (config_opt c ''password'') (\<lambda>password.
     bind_ok (config_int c ''qos'' 0) (\<lambda>qos.
       Inr (Mqtt \<lparr>mq_host = host, mq_port = port, mq_topic_template = topic, mq_username = username, mq_password = password,
              mq_tls = config_bool c ''tls'' False, mq_qos = qos, mq_retain = config_bool c ''retain'' True\<rparr>)))))))"

definition build_push :: "config \<Rightarrow> py_error + notifier" where
  "build_push c =
     bind_ok (config_opt c ''server'') (\<lambda>server. bind_ok (config_opt c ''topic'') (\<lambda>topic.
     bind_ok (config_opt c ''auth_token'') (\<lambda>token. bind_ok (config_opt c ''click'') (\<lambda>click.
     bind_ok (config_opt c ''title'') (\<lambda>title.
       Inr (Push (push_notifier server topic token (config_json c ''priority'') (config_json c ''tags'') click title)))))))"

definition build_notifier :: "string \<Rightarrow> config \<Rightarrow> py_error + notifier" where
  "build_notifier channel c =
     (if channel \<notin> set channels then Inl KeyError
      else if channel = ''webhook'' then bind_ok (config_item c ''url'') (\<lambda>j. bind_ok (text_of j) (\<lambda>url. Inr (Webhook url)))
      else if channel = ''email'' then build_email c
      else if channel = ''mqtt'' then build_mqtt c
      else build_push c)"

fun dispatch :: "(json \<Rightarrow> string) \<Rightarrow> (transport \<Rightarrow> py_error option) \<Rightarrow> alert \<Rightarrow> notifier list \<Rightarrow> (py_error + nat) \<times> transport list" where
  \<comment> \<open>the delivery's exception ends the fan-out; with it, what was handed to the transports\<close>
  "dispatch str_of deliver a [] = (Inr 0, [])"
| "dispatch str_of deliver a (n # ns) =
     (case send str_of n a of
        None \<Rightarrow> (let (r, ts) = dispatch str_of deliver a ns in (map_sum id Suc r, ts))
      | Some t \<Rightarrow>
          (case deliver t of
             Some err \<Rightarrow> (Inl err, [t])
           | None \<Rightarrow> (let (r, ts) = dispatch str_of deliver a ns in (map_sum id Suc r, t # ts))))"


section \<open>What leaves the host\<close>

text \<open>
  Every topic an alert is published under is a chain of non-empty segments, whatever the
  template and whatever the camera and rule are called; the priority of a push is between 1 and 5
  and its tags end with the severity and the camera.
\<close>

theorem published_topics_clean:
  "render_topic template a \<noteq> [] \<and> list_all (\<lambda>p. p \<noteq> []) (split_on CHR ''/'' (render_topic template a)) \<and>
   1 \<le> ntfy_priority j \<and> ntfy_priority j \<le> 5 \<and>
   (\<exists>given. given \<noteq> [] \<and> ntfy_tags str_of tags a = given @ [or_text (Some (al_severity a)) ''info''] @
      (if al_camera_id a = [] then [] else [''camera:'' @ al_camera_id a]))"
proof -
  let ?topic = "replace_all ''{rule_type}'' (if al_rule_type a = [] then ''unknown'' else al_rule_type a)
      (replace_all ''{camera_id}'' (if al_camera_id a = [] then ''unknown'' else al_camera_id a) template)"
  let ?parts = "filter (\<lambda>p. p \<noteq> []) (split_on CHR ''/'' ?topic)"
  have topic: "render_topic template a = (if ?parts = [] then ''localsight/alerts'' else join_with ''/'' ?parts)"
    by (simp only: render_topic_def Let_def)
  have "render_topic template a \<noteq> [] \<and> list_all (\<lambda>p. p \<noteq> []) (split_on CHR ''/'' (render_topic template a))"
  proof (cases "?parts = []")
    case True
    then show ?thesis by (simp add: topic)
  next
    case False
    have "\<forall>p \<in> set ?parts. CHR ''/'' \<notin> set p" using split_on_no_sep [of _ "CHR ''/''" ?topic] by auto
    with False have s: "split_on CHR ''/'' (join_with ''/'' ?parts) = ?parts" by (rule split_join)
    have "join_with ''/'' ?parts \<noteq> []"
    proof
      assume "join_with ''/'' ?parts = []"
      with s have "?parts = [[]]" by simp
      then have "[] \<in> set ?parts" by simp
      then show False by simp
    qed
    moreover have "list_all (\<lambda>p. p \<noteq> []) ?parts" by (simp add: list_all_iff)
    ultimately show ?thesis unfolding topic using False s by simp
  qed
  moreover have "1 \<le> ntfy_priority j \<and> ntfy_priority j \<le> 5" by (simp add: ntfy_priority_def Let_def)
  moreover have "\<exists>given. given \<noteq> [] \<and> ntfy_tags str_of tags a = given @ [or_text (Some (al_severity a)) ''info''] @
      (if al_camera_id a = [] then [] else [''camera:'' @ al_camera_id a])"
  proof -
    have "\<exists>given. given \<noteq> [] \<and> (if (g :: string list) = [] then [''localsight''] else g) = given" for g by simp
    then show ?thesis unfolding ntfy_tags_def Let_def or_text_def option.case by blast
  qed
  ultimately show ?thesis by blast
qed

definition outgoing :: "(json \<Rightarrow> string) \<Rightarrow> alert \<Rightarrow> notifier list \<Rightarrow> transport list" where
  "outgoing str_of a ns = List.map_filter (\<lambda>n. send str_of n a) ns"

lemma outgoing_simps [simp]:
  "outgoing str_of a [] = []"
  "outgoing str_of a (n # ns) = (case send str_of n a of None \<Rightarrow> outgoing str_of a ns | Some t \<Rightarrow> t # outgoing str_of a ns)"
  by (simp_all add: outgoing_def List.map_filter_def split: option.splits)

text \<open>
  Dispatching hands the alert to the channels in order. When all of them deliver, each got it and
  the count is the number of notifiers; otherwise the first failure is raised, and the
  channels after it get nothing.
\<close>

theorem dispatch_exact:
  "let ts = outgoing str_of a ns; sent = takeWhile (\<lambda>t. deliver t = None) ts
   in snd (dispatch str_of deliver a ns) = take (Suc (length sent)) ts \<and>
      fst (dispatch str_of deliver a ns) =
        (if length sent = length ts then Inr (length ns) else Inl (the (deliver (ts ! length sent))))"
proof (induction ns)
  case Nil
  show ?case by (simp add: Let_def)
next
  case (Cons n ns)
  obtain r ts where d: "dispatch str_of deliver a ns = (r, ts)" by fastforce
  note IH = Cons.IH [unfolded Let_def d fst_conv snd_conv]
  show ?case
  proof (cases "send str_of n a")
    case None
    then show ?thesis using IH by (auto simp: Let_def d)
  next
    case (Some t)
    then show ?thesis using IH by (cases "deliver t") (auto simp: Let_def d)
  qed
qed

end
