(* ===== verification/Metrics.thy ===== *)
theory Metrics
  imports Prelude
begin

text \<open>
  \<open>packages/observability/metrics.py\<close>: counters, gauges and their text rendering. The lock makes
  every call one step; the number format \<open>g\<close> is a parameter.
\<close>

type_synonym series = "string \<times> string"  \<comment> \<open>name, labels\<close>

record metrics =
  mt_counters :: "(series, real) dict"
  mt_gauges :: "(series, real) dict"

definition new_metrics :: metrics where
  "new_metrics = \<lparr>mt_counters = [], mt_gauges = []\<rparr>"

definition inc :: "string \<Rightarrow> real \<Rightarrow> string \<Rightarrow> metrics \<Rightarrow> metrics" where
  "inc name amount labels m =
     (let old = (case dict_get (mt_counters m) (name, labels) of None \<Rightarrow> 0 | Some x \<Rightarrow> x)
      in m\<lparr>mt_counters := dict_set (name, labels) (old + amount) (mt_counters m)\<rparr>)"

definition set_gauge :: "string \<Rightarrow> real \<Rightarrow> string \<Rightarrow> metrics \<Rightarrow> metrics" where
  "set_gauge name x labels m = m\<lparr>mt_gauges := dict_set (name, labels) x (mt_gauges m)\<rparr>"

definition observe :: "string \<Rightarrow> real \<Rightarrow> string \<Rightarrow> metrics \<Rightarrow> metrics" where
  "observe name x labels m = set_gauge name x labels m"

definition help_texts :: "(string \<times> string) list" where
  "help_texts =
     [(''camera_fps'', ''Decoded frames per second per camera''), (''frames_processed'', ''Total frames processed''),
      (''frames_dropped'', ''Total frames dropped under load''),
      (''detections_per_minute'', ''Person detections per minute per camera''),
      (''recognition_requests'', ''Identity recognition requests''), (''recognition_latency_ms'', ''Recognition latency in ms''),
      (''gpu_utilization'', ''GPU utilization percent''), (''gpu_memory_mb'', ''GPU memory used in MB''),
      (''cpu_utilization'', ''CPU utilization percent''), (''ram_used_mb'', ''RAM used in MB''),
      (''storage_usage_percent'', ''Storage used percent''), (''database_latency_ms'', ''Database query latency in ms''),
      (''api_latency_ms'', ''API request latency in ms''), (''queue_depth'', ''Inference queue depth''),
      (''camera_disconnects_total'', ''Camera disconnect events''),
      (''pipeline_latency_ms'', ''Per-frame pipeline processing latency in ms''),
      (''analytic_events_total'', ''Point-in-time analytic events (rules/ANPR)''),
      (''camera_status'', ''1 when camera gateway reports STREAMING, else 0'')]"

definition emit :: "(real \<Rightarrow> string) \<Rightarrow> string \<Rightarrow> series \<times> real \<Rightarrow> string list" where
  "emit fmt kind = (\<lambda>((name, labels), x).
     (case map_of help_texts name of
        None \<Rightarrow> []
      | Some h \<Rightarrow> [''# HELP '' @ name @ '' '' @ h, ''# TYPE '' @ name @ '' '' @ kind]) @
     [name @ (if labels = [] then [] else ''{'' @ labels @ ''}'') @ '' '' @ fmt x])"

definition render :: "(real \<Rightarrow> string) \<Rightarrow> metrics \<Rightarrow> string" where
  "render fmt m =
     join_with [CHR 0x0A] (concat (map (emit fmt ''counter'') (mt_counters m)) @ concat (map (emit fmt ''gauge'') (mt_gauges m))) @ [CHR 0x0A]"

section \<open>What the registry holds\<close>

datatype metric_op = Inc string real string | Set_gauge string real string

fun metric_exec :: "metric_op \<Rightarrow> metrics \<Rightarrow> metrics" where
  "metric_exec (Inc n x l) m = inc n x l m"
| "metric_exec (Set_gauge n x l) m = set_gauge n x l m"

definition increments :: "series \<Rightarrow> metric_op list \<Rightarrow> real list" where
  "increments k ops = List.map_filter (\<lambda>op. case op of Inc n x l \<Rightarrow> if (n, l) = k then Some x else None | _ \<Rightarrow> None) ops"

definition settings_of :: "series \<Rightarrow> metric_op list \<Rightarrow> real list" where
  "settings_of k ops = List.map_filter (\<lambda>op. case op of Set_gauge n x l \<Rightarrow> if (n, l) = k then Some x else None | _ \<Rightarrow> None) ops"

text \<open>
  Whatever the components report, in any order: a counter holds the sum of its increments and a
  gauge the last value set, each series apart from all others, and a series nothing was
  reported for is absent.
\<close>

theorem metrics_exact:
  "let m = fold metric_exec ops new_metrics in
   dict_get (mt_counters m) k = (if increments k ops = [] then None else Some (sum_list (increments k ops))) \<and>
   dict_get (mt_gauges m) k = (if settings_of k ops = [] then None else Some (List.last (settings_of k ops)))"
proof (induction ops rule: rev_induct)
  case Nil
  show ?case by (simp add: new_metrics_def increments_def settings_of_def Let_def List.map_filter_def)
next
  case (snoc op ops)
  then show ?case
    by (cases op) (auto simp: Let_def inc_def set_gauge_def increments_def settings_of_def List.map_filter_def)
qed

end
