(* ===== verification/Gateway.thy ===== *)
theory Gateway
  imports Egress
begin

text \<open>
  \<open>packages/video/gateway.py\<close>, \<open>sources.py\<close> and \<open>ffmpeg.py\<close>: where the frames of a camera come
  from. A round of the gateway's loop is a step: the source cannot be built, or it yields some
  frames and then ends or raises. The random jitter of a delay is an argument of the step.
\<close>

section \<open>The decoder's arguments\<close>

definition build_args ::
  "(string \<Rightarrow> string list option) \<Rightarrow> string list \<Rightarrow> string \<Rightarrow> int \<Rightarrow> int \<Rightarrow> int \<Rightarrow> string \<Rightarrow> string option \<Rightarrow> string \<Rightarrow>
   py_error + string list" where
  \<comment> \<open>URL, width, height, rate, transport, acceleration, pixel format\<close>
  "build_args dns allowlist url width height fps rtsp_transport hwaccel pix_fmt =
     bind_ok (validate_egress_url dns allowlist [''rtsp'', ''rtsps'', ''http'', ''https''] url) (\<lambda>_.
       Inr ([''ffmpeg'', ''-hide_banner'', ''-loglevel'', ''error'', ''-nostdin''] @ [''-rtsp_transport'', rtsp_transport] @
            (case hwaccel of None \<Rightarrow> [] | Some h \<Rightarrow> if h = [] then [] else [''-hwaccel'', h]) @ [''-i'', url] @
            [''-an'', ''-vf'', ''scale='' @ str_int width @ '':'' @ str_int height @ '',fps='' @ str_int fps,
             ''-pix_fmt'', pix_fmt, ''-f'', ''rawvideo'', ''-'']))"

section \<open>Sources\<close>

definition synthetic_frame :: "int \<Rightarrow> real option \<Rightarrow> timestamp \<Rightarrow> nat \<Rightarrow> timestamp option" where
  \<comment> \<open>the time of the n-th frame, \<open>None\<close> when the source has ended before it\<close>
  "synthetic_frame fps duration start n =
     (let rate = max 1 fps in
      case duration of
        None \<Rightarrow> Some (start + timedelta_seconds (of_nat n / of_int rate))
      | Some d \<Rightarrow> if d \<noteq> 0 \<and> d \<le> of_nat n / of_int rate then None else Some (start + timedelta_seconds (of_nat n / of_int rate)))"

definition image_frames :: "'d \<Rightarrow> int \<Rightarrow> nat \<Rightarrow> timestamp \<Rightarrow> py_error + ('d \<times> timestamp) list" where
  "image_frames data fps loops start =
     (if fps = 0 \<and> 0 < loops then Inl ZeroDivisionError
      else Inr (map (\<lambda>i. (data, start + timedelta_seconds (of_nat i / of_int fps))) [0 ..< loops]))"

fun ffmpeg_frames :: "nat \<Rightarrow> ('b list \<times> timestamp) list \<Rightarrow> ('b list \<times> timestamp) list \<times> py_error" where
  \<comment> \<open>reads of the decoder's output with their times; the end of the stream raises\<close>
  "ffmpeg_frames frame_bytes [] = ([], RuntimeError)"
| "ffmpeg_frames frame_bytes ((buf, ts) # reads) =
     (if buf = [] \<or> length buf < frame_bytes then ([], RuntimeError)
      else (let (fs, err) = ffmpeg_frames frame_bytes reads in ((buf, ts) # fs, err)))"

section \<open>The gateway\<close>

definition backoff_schedule :: "real list" where
  "backoff_schedule = [1, 2, 5, 10, 30, 60]"

definition max_failures :: nat where "max_failures = 10"

datatype 'f source_run =
    No_source
  | Frames "'f list" bool  \<comment> \<open>what it yields; whether it then ends without an exception\<close>

record 'f gateway =
  gw_status :: string
  gw_attempt :: nat
  gw_reported :: "string list"
  gw_delays :: "real list"
  gw_yielded :: "'f list"
  gw_done :: bool

definition new_gateway :: "'f gateway" where
  "new_gateway = \<lparr>gw_status = ''OFFLINE'', gw_attempt = 0, gw_reported = [], gw_delays = [], gw_yielded = [], gw_done = False\<rparr>"

definition set_status :: "string \<Rightarrow> 'f gateway \<Rightarrow> 'f gateway" where
  "set_status st g = (if st = gw_status g then g else g\<lparr>gw_status := st, gw_reported := gw_reported g @ [st]\<rparr>)"

definition backoff :: "real \<Rightarrow> nat \<Rightarrow> real" where
  "backoff jitter attempt = backoff_schedule ! min attempt (length backoff_schedule - 1) * (1/2 + jitter)"

definition retry_later :: "real \<Rightarrow> 'f gateway \<Rightarrow> 'f gateway" where
  "retry_later jitter g = g\<lparr>gw_delays := gw_delays g @ [backoff jitter (gw_attempt g)], gw_attempt := Suc (gw_attempt g)\<rparr>"

definition gateway_round :: "real \<times> 'f source_run \<Rightarrow> 'f gateway \<Rightarrow> 'f gateway" where
  "gateway_round = (\<lambda>(jitter, run) g.
     if gw_done g then g
     else case run of
       No_source \<Rightarrow>
         (let g1 = retry_later jitter (set_status ''OFFLINE'' g)
          in if max_failures < gw_attempt g1 then g1\<lparr>gw_done := True\<rparr> else g1)
     | Frames fs clean \<Rightarrow>
         (let g1 = (set_status ''ONLINE'' g)\<lparr>gw_attempt := 0\<rparr>;
              g2 = g1\<lparr>gw_yielded := gw_yielded g1 @ fs\<rparr>
          in if clean then g2\<lparr>gw_done := True\<rparr>
             else let g3 = retry_later jitter (set_status ''RECONNECTING'' g2)
                  in if max_failures < gw_attempt g3 then (set_status ''OFFLINE'' g3)\<lparr>gw_done := True\<rparr> else g3))"

definition run_gateway :: "(real \<times> 'f source_run) list \<Rightarrow> 'f gateway \<Rightarrow> 'f gateway" where
  "run_gateway rounds g = fold gateway_round rounds g"

section \<open>Retries\<close>

lemma attempt_set_status [simp]:
  "gw_attempt (set_status st g) = gw_attempt g" "gw_done (set_status st g) = gw_done g"
  "gw_delays (set_status st g) = gw_delays g" "gw_yielded (set_status st g) = gw_yielded g" "gw_status (set_status st g) = st"
  by (simp_all add: set_status_def)

lemma retry_simps [simp]:
  "gw_attempt (retry_later j g) = Suc (gw_attempt g)" "gw_done (retry_later j g) = gw_done g"
  "gw_delays (retry_later j g) = gw_delays g @ [backoff j (gw_attempt g)]" "gw_yielded (retry_later j g) = gw_yielded g"
  "gw_status (retry_later j g) = gw_status g" "gw_reported (retry_later j g) = gw_reported g"
  by (simp_all add: retry_later_def)

lemma no_source_run:
  assumes "\<not> gw_done g" and "gw_attempt g + length js \<le> max_failures"
  shows "\<not> gw_done (run_gateway (map (\<lambda>j. (j, No_source)) js) g) \<and>
    gw_attempt (run_gateway (map (\<lambda>j. (j, No_source)) js) g) = gw_attempt g + length js \<and>
    gw_delays (run_gateway (map (\<lambda>j. (j, No_source)) js) g) =
      gw_delays g @ map (\<lambda>(i, j). backoff j (gw_attempt g + i)) (enumerate 0 js)"
  using assms
proof (induction js rule: rev_induct)
  case Nil
  then show ?case by (simp add: run_gateway_def)
next
  case (snoc j js)
  then have IH: "\<not> gw_done (run_gateway (map (\<lambda>j. (j, No_source)) js) g)"
    "gw_attempt (run_gateway (map (\<lambda>j. (j, No_source)) js) g) = gw_attempt g + length js"
    "gw_delays (run_gateway (map (\<lambda>j. (j, No_source)) js) g) =
      gw_delays g @ map (\<lambda>(i, j). backoff j (gw_attempt g + i)) (enumerate 0 js)" by simp_all
  have split: "run_gateway (map (\<lambda>j. (j, No_source)) (js @ [j])) g =
      gateway_round (j, No_source) (run_gateway (map (\<lambda>j. (j, No_source)) js) g)" by (simp add: run_gateway_def)
  show ?case unfolding split using IH snoc.prems
    by (simp add: gateway_round_def Let_def enumerate_append_eq)
qed

lemma broken_run:
  assumes "\<not> gw_done g"
  shows "\<not> gw_done (run_gateway (map (\<lambda>(j, fs). (j, Frames fs False)) rounds) g) \<and>
    gw_delays (run_gateway (map (\<lambda>(j, fs). (j, Frames fs False)) rounds) g) = gw_delays g @ map (\<lambda>(j, fs). backoff j 0) rounds \<and>
    gw_yielded (run_gateway (map (\<lambda>(j, fs). (j, Frames fs False)) rounds) g) = gw_yielded g @ concat (map snd rounds) \<and>
    (rounds \<noteq> [] \<longrightarrow> gw_status (run_gateway (map (\<lambda>(j, fs). (j, Frames fs False)) rounds) g) = ''RECONNECTING'')"
proof (induction rounds rule: rev_induct)
  case Nil
  then show ?case using assms by (simp add: run_gateway_def)
next
  case (snoc r rounds)
  obtain j fs where r: "r = (j, fs)" by (cases r)
  have split: "run_gateway (map (\<lambda>(j, fs). (j, Frames fs False)) (rounds @ [r])) g =
      gateway_round (j, Frames fs False) (run_gateway (map (\<lambda>(j, fs). (j, Frames fs False)) rounds) g)"
    by (simp add: run_gateway_def r)
  show ?case unfolding split using snoc.IH by (simp add: gateway_round_def Let_def max_failures_def r)
qed

lemma ffmpeg_raises: "snd (ffmpeg_frames k reads) = RuntimeError"
  by (induction k reads rule: ffmpeg_frames.induct) (auto split: prod.splits)

text \<open>
  C37. The two ways a camera can be unreachable. When its source cannot be built, the gateway retries
  with growing delays and gives up, OFFLINE, after the eleventh failure. When the source is built and
  its stream breaks (what the decoder source always does when the stream ends), the attempt count
  starts over in every round: the gateway never gives up, and every delay is at the first step
  of the schedule, below a second and a half.
\<close>

theorem gateway_retries:
  fixes rounds :: "(real \<times> ('b list \<times> timestamp) list) list"
  assumes "list_all (\<lambda>j. 0 \<le> j \<and> j < 1) js" and "length js = 11" and "list_all (\<lambda>(j, reads). 0 \<le> j \<and> j < 1) rounds"
  shows "(let g = run_gateway (map (\<lambda>j. (j, No_source)) js) (new_gateway :: ('b list \<times> timestamp) gateway) in
       gw_done g \<and> gw_status g = ''OFFLINE'' \<and>
       list_all2 (\<lambda>b d. b / 2 \<le> d \<and> d < 3 * b / 2) [1, 2, 5, 10, 30, 60, 60, 60, 60, 60, 60] (gw_delays g)) \<and>
    (let runs = map (\<lambda>(j, reads). (j, Frames (fst (ffmpeg_frames k reads)) (snd (ffmpeg_frames k reads) \<noteq> RuntimeError))) rounds;
         g = run_gateway runs new_gateway in
       \<not> gw_done g \<and> gw_yielded g = concat (map (\<lambda>(j, reads). fst (ffmpeg_frames k reads)) rounds) \<and>
       length (gw_delays g) = length rounds \<and> list_all (\<lambda>d. 1/2 \<le> d \<and> d < 3/2) (gw_delays g))"
proof -
  let ?g = "run_gateway (map (\<lambda>j. (j, No_source)) js) (new_gateway :: ('b list \<times> timestamp) gateway)"
  obtain j js' where js: "js = js' @ [j]" using assms(2) by (cases js rule: rev_cases) auto
  have n: "\<not> gw_done (new_gateway :: ('b list \<times> timestamp) gateway)" "gw_attempt (new_gateway :: ('b list \<times> timestamp) gateway) = 0"
    "gw_delays (new_gateway :: ('b list \<times> timestamp) gateway) = []"
    "gw_yielded (new_gateway :: ('b list \<times> timestamp) gateway) = []" by (simp_all add: new_gateway_def)
  have len: "length js' = 10" using assms(2) js by simp
  let ?h = "run_gateway (map (\<lambda>j. (j, No_source)) js') (new_gateway :: ('b list \<times> timestamp) gateway)"
  have h: "\<not> gw_done ?h" "gw_attempt ?h = 10" "gw_delays ?h = map (\<lambda>(i, j). backoff j i) (enumerate 0 js')"
    using no_source_run [OF n(1), of js'] len by (simp_all add: n max_failures_def)
  have split: "?g = gateway_round (j, No_source) ?h" by (simp add: run_gateway_def js)
  have g: "gw_done ?g" "gw_status ?g = ''OFFLINE''" "gw_delays ?g = map (\<lambda>(i, j). backoff j i) (enumerate 0 js)"
    unfolding split using h len by (simp_all add: gateway_round_def Let_def max_failures_def js enumerate_append_eq)
  have "list_all2 (\<lambda>b d. b / 2 \<le> d \<and> d < 3 * b / 2) [1, 2, 5, 10, 30, 60, 60, 60, 60, 60, 60] (gw_delays ?g)"
  proof -
    obtain a b c d e f h i k l m where "js = [a, b, c, d, e, f, h, i, k, l, m]"
      using assms(2) by (auto simp: length_Suc_conv numeral_eq_Suc)
    then show ?thesis using assms(1) unfolding g(3) by (simp add: backoff_def backoff_schedule_def numeral_eq_Suc)
  qed
  moreover
  let ?runs = "map (\<lambda>(j, reads). (j, fst (ffmpeg_frames k reads))) rounds"
  have runs: "map (\<lambda>(j, reads). (j, Frames (fst (ffmpeg_frames k reads)) (snd (ffmpeg_frames k reads) \<noteq> RuntimeError))) rounds =
      map (\<lambda>(j, fs). (j, Frames fs False)) ?runs" by (simp add: ffmpeg_raises case_prod_unfold)
  note b = broken_run [OF n(1), of ?runs]
  have "list_all (\<lambda>d. 1/2 \<le> d \<and> d < 3/2) (map (\<lambda>(j, fs). backoff j 0) ?runs)"
    using assms(3) by (auto simp: list_all_iff backoff_def backoff_schedule_def)
  ultimately show ?thesis using b g
    unfolding runs Let_def by (simp add: n case_prod_unfold o_def)
qed


theorem gateway_retries_witness:
  "gw_done (run_gateway (map (\<lambda>j. (j, No_source)) (replicate 11 0)) (new_gateway :: ('b list \<times> timestamp) gateway)) \<and>
   \<not> gw_done (run_gateway (replicate 1000 (0, Frames [] False)) (new_gateway :: ('b list \<times> timestamp) gateway))"
proof -
  have "list_all (\<lambda>j. 0 \<le> j \<and> j < 1) (replicate 11 (0::real))" "length (replicate 11 (0::real)) = 11"
    "list_all (\<lambda>(j, reads). 0 \<le> j \<and> j < 1) (replicate 1000 (0::real, [] :: ('b list \<times> timestamp) list))"
    by (auto simp: list_all_iff)
  from gateway_retries [OF this, of 0] show ?thesis by (simp add: Let_def)
qed

end
