(* ===== verification/Recorder.thy ===== *)
theory Recorder
  imports Gateway Storage Stream_Urls Data_Model
begin

text \<open>
  \<open>packages/video/recorder.py\<close>: the main stream in segments. A spawned process is a number, what
  it leaves (its return code and the temporary file) is in the environment of
  \<open>finalize_last\<close>; the calendar text of a day and \<open>ffprobe\<close> are parameters. Segment starts are
  whole seconds, as the recorder aligns them.
\<close>

section \<open>Schedule\<close>

definition segment_boundary :: "timestamp \<Rightarrow> int \<Rightarrow> timestamp" where
  "segment_boundary ts seg_seconds = \<lfloor>total_seconds ts / of_int seg_seconds\<rfloor> * seg_seconds * 1000000"

definition clock_text :: "int \<Rightarrow> string" where
  \<comment> \<open>\<open>HHMMSS\<close> of a second of the day\<close>
  "clock_text s = zfill 2 (str_nat (nat (s div 3600))) @ zfill 2 (str_nat (nat (s div 60 mod 60))) @ zfill 2 (str_nat (nat (s mod 60)))"

definition segment_key :: "(int \<Rightarrow> string) \<Rightarrow> string \<Rightarrow> timestamp \<Rightarrow> string \<Rightarrow> int \<Rightarrow> string" where
  \<comment> \<open>the parameter: \<open>YYYY/MM/DD\<close> of a day since the epoch\<close>
  "segment_key date_path camera_id start ext seg_seconds =
     (let b = segment_boundary start seg_seconds div 1000000
      in ''camera/'' @ camera_id @ ''/'' @ date_path (b div 86400) @ ''/'' @ clock_text (b mod 86400) @ ''.'' @ ext)"

section \<open>The recorder\<close>

record recorder =
  rc_camera :: string
  rc_seg_seconds :: int
  rc_allowlist :: "string list"
  rc_tmp_root :: string
  rc_procs :: "(string, nat) dict"
  rc_pending :: "(string, segment_row) dict"
  rc_last_proc :: "nat option"
  rc_last_seg :: "segment_row option"

definition new_recorder :: "string \<Rightarrow> int \<Rightarrow> string list \<Rightarrow> string \<Rightarrow> recorder" where
  "new_recorder camera_id seg_seconds allowlist tmp_root =
     \<lparr>rc_camera = camera_id, rc_seg_seconds = seg_seconds, rc_allowlist = allowlist, rc_tmp_root = tmp_root,
      rc_procs = [], rc_pending = [], rc_last_proc = None, rc_last_seg = None\<rparr>"

definition tmp_path :: "recorder \<Rightarrow> timestamp \<Rightarrow> string" where
  \<comment> \<open>a whole second prints as a float with one decimal\<close>
  "tmp_path rc start =
     rc_tmp_root rc @ ''/seg_'' @ rc_camera rc @ ''_'' @ str_int (start div 1000000) @ ''.0.mp4''"

definition record_args :: "recorder \<Rightarrow> string \<Rightarrow> timestamp \<Rightarrow> string list" where
  "record_args rc url start =
     [''ffmpeg'', ''-hide_banner'', ''-loglevel'', ''error'', ''-nostdin'', ''-rtsp_transport'', ''tcp'', ''-i'', url,
      ''-y'', ''-t'', str_int (rc_seg_seconds rc), ''-an'', ''-c:v'', ''libx264'', ''-preset'', ''veryfast'',
      ''-pix_fmt'', ''yuv420p'', ''-f'', ''mp4'', tmp_path rc start]"

definition record_url ::
  "(string \<Rightarrow> string list option) \<Rightarrow> (int \<Rightarrow> string) \<Rightarrow> (string list \<Rightarrow> nat option) \<Rightarrow> string \<Rightarrow> timestamp \<Rightarrow> recorder \<Rightarrow>
   (py_error + segment_row) \<times> recorder" where
  \<comment> \<open>resolver, calendar, spawn (\<open>None\<close>: \<open>OSError\<close>)\<close>
  "record_url dns date_path spawn url start rc =
     (case validate_egress_url dns (rc_allowlist rc) [''rtsp'', ''rtsps'', ''http'', ''https''] url of
        Inl err \<Rightarrow> (Inl err, rc)
      | Inr _ \<Rightarrow>
          if rc_seg_seconds rc = 0 then (Inl ZeroDivisionError, rc)
          else
            let seg_start = segment_boundary start (rc_seg_seconds rc);
                key = segment_key date_path (rc_camera rc) seg_start ''mp4'' 300
            in case spawn (record_args rc url seg_start) of
                 None \<Rightarrow> (Inl SecurityError, rc)
               | Some proc \<Rightarrow>
                   (let seg = \<lparr>sg_camera = rc_camera rc, sg_key = key, sg_backend = ''local'', sg_start = seg_start,
                               sg_end = seg_start + rc_seg_seconds rc * 1000000, sg_duration = of_int (rc_seg_seconds rc),
                               sg_size = 0, sg_created_at = start\<rparr>
                    in (Inr seg, rc\<lparr>rc_procs := dict_set key proc (rc_procs rc), rc_pending := dict_set key seg (rc_pending rc),
                                    rc_last_proc := Some proc, rc_last_seg := Some seg\<rparr>)))"

definition os_error :: "py_error \<Rightarrow> bool" where
  "os_error err \<longleftrightarrow> err = OSError \<or> err = FileNotFoundError"

definition finalize_last ::
  "string \<Rightarrow> nat \<Rightarrow> (nat \<Rightarrow> int option) \<Rightarrow> (string \<Rightarrow> real option) \<Rightarrow> recorder \<times> file_system \<Rightarrow>
   (py_error + segment_row option) \<times> recorder \<times> file_system" where
  \<comment> \<open>base directory, process id, return codes after waiting (\<open>None\<close>: still running), measured duration\<close>
  "finalize_last base pid returncode probe = (\<lambda>(rc, fs).
     case (rc_last_seg rc, rc_last_proc rc) of
       (Some seg, Some proc) \<Rightarrow>
         (let rc1 = rc\<lparr>rc_last_proc := None, rc_last_seg := None, rc_pending := dict_del (sg_key seg) (rc_pending rc),
                       rc_procs := dict_del (sg_key seg) (rc_procs rc)\<rparr>;
              tmp = tmp_path rc (sg_start seg)
          in if returncode proc \<noteq> None \<and> returncode proc \<noteq> Some 0 then (Inr None, rc1, fs)
             else case dict_get (fs_files fs) tmp of
               None \<Rightarrow> (Inr None, rc1, fs)
             | Some data \<Rightarrow>
                 if data = [] then (Inr None, rc1, fs)
                 else
                   let seg1 = (case probe tmp of
                           Some d \<Rightarrow> if 0 < d then seg\<lparr>sg_duration := d, sg_end := sg_start seg + timedelta_seconds d\<rparr> else seg
                         | None \<Rightarrow> seg)
                   in case put_stream base pid (sg_key seg1) tmp fs of
                        (Inr nbytes, fs1) \<Rightarrow> (Inr (Some (seg1\<lparr>sg_size := nbytes\<rparr>)), rc1, fs1)
                      | (Inl err, fs1) \<Rightarrow> (if os_error err then Inr None else Inl err, rc1, fs1))
     | _ \<Rightarrow> (Inr None, rc, fs))"

definition stop_all :: "recorder \<Rightarrow> nat list \<times> recorder" where
  \<comment> \<open>the processes that are terminated and reaped\<close>
  "stop_all rc = (map snd (rc_procs rc), rc\<lparr>rc_procs := [], rc_pending := []\<rparr>)"

section \<open>Finished segments\<close>

lemma put_stream_ok:
  assumes "put_stream base pid key source fs = (Inr nbytes, t)"
  shows "\<exists>path data. resolve base key = Inr path \<and> dict_get (fs_files fs) source = Some data \<and> nbytes = int (length data) \<and>
    dict_get (fs_files t) path = Some data"
proof -
  obtain path where p: "resolve base key = Inr path"
    using assms by (cases "resolve base key") (simp_all add: put_stream_def)
  obtain fs1 where m: "make_parents path fs = (Inr (), fs1)" "fs_files fs1 = fs_files fs"
    by (cases path fs rule: make_parents_cases) (use assms p in \<open>auto simp: put_stream_def\<close>)
  obtain data where d: "dict_get (fs_files fs) source = Some data"
    using assms p m by (cases "dict_get (fs_files fs) source") (simp_all add: put_stream_def)
  obtain r t1 where pub: "publish pid path data (fs1\<lparr>fs_files := dict_del source (fs_files fs1)\<rparr>) = (r, t1)" by fastforce
  have "r = Inr () \<and> t = t1 \<and> nbytes = int (length data)"
    using assms p m d pub by (cases r) (auto simp: put_stream_def split: if_splits)
  with publish_self pub p d show ?thesis by blast
qed

lemma segment_boundary_floor:
  assumes "0 < s"
  shows "segment_boundary ts s = ts div (s * 1000000) * (s * 1000000)"
proof -
  have "total_seconds ts / of_int s = of_int ts / of_int (s * 1000000)" by (simp add: total_seconds_def field_simps)
  then have "\<lfloor>total_seconds ts / of_int s\<rfloor> = ts div (s * 1000000)" by (simp only: floor_divide_of_int_eq)
  then show ?thesis by (simp add: segment_boundary_def)
qed

text \<open>
  A finished segment tells the truth: its object is stored under its key with the size the row
  says, which is not zero, and its end is its start plus its measured duration, or the
  scheduled one when nothing was measured. Its start is the last boundary before the recording
  began.
\<close>

theorem finished_segment_truthful:
  assumes "record_url dns date_path spawn url start rc = (Inr seg0, rc1)" and "0 < rc_seg_seconds rc"
    and "finalize_last base pid returncode probe (rc1, fs) = (Inr (Some seg), rc2, gs)"
  shows "(\<exists>data. get base (sg_key seg) gs = Inr data \<and> sg_size seg = int (length data) \<and> 0 < sg_size seg) \<and>
    sg_start seg \<le> start \<and> start < sg_start seg + rc_seg_seconds rc * 1000000 \<and>
    sg_end seg = sg_start seg + timedelta_seconds (sg_duration seg) \<and> 0 < sg_duration seg \<and>
    rc_last_seg rc2 = None \<and> sg_key seg \<notin> set (dict_keys (rc_procs rc2)) \<and>
    (\<exists>p. validate_egress_url dns (rc_allowlist rc) [''rtsp'', ''rtsps'', ''http'', ''https''] url = Inr p)"
proof -
  let ?s = "rc_seg_seconds rc"
  obtain p where p: "validate_egress_url dns (rc_allowlist rc) [''rtsp'', ''rtsps'', ''http'', ''https''] url = Inr p"
    using assms(1) by (auto simp: record_url_def split: sum.splits)
  have seg0: "sg_start seg0 = segment_boundary start ?s" "sg_end seg0 = sg_start seg0 + ?s * 1000000"
    "sg_duration seg0 = of_int ?s" "rc_last_seg rc1 = Some seg0" "\<exists>proc. rc_last_proc rc1 = Some proc"
    using assms(1,2) p by (auto simp: record_url_def Let_def split: option.splits)
  have b: "sg_start seg0 \<le> start" "start < sg_start seg0 + ?s * 1000000"
  proof -
    have st: "sg_start seg0 = start div (?s * 1000000) * (?s * 1000000)"
      using seg0(1) segment_boundary_floor [OF assms(2)] by simp
    have "start = start div (?s * 1000000) * (?s * 1000000) + start mod (?s * 1000000)"
      by (rule div_mult_mod_eq [symmetric])
    moreover have "0 \<le> start mod (?s * 1000000)" "start mod (?s * 1000000) < ?s * 1000000" using assms(2) by simp_all
    ultimately show "sg_start seg0 \<le> start" "start < sg_start seg0 + ?s * 1000000" unfolding st by linarith+
  qed
  obtain proc where proc: "rc_last_proc rc1 = Some proc" using seg0(5) by blast
  let ?tmp = "tmp_path rc1 (sg_start seg0)"
  have rcode: "returncode proc = None \<or> returncode proc = Some 0"
    using assms(3) seg0(4) proc by (simp add: finalize_last_def Let_def split: if_splits)
  obtain data where data: "dict_get (fs_files fs) ?tmp = Some data" "data \<noteq> []"
    using assms(3) seg0(4) proc rcode by (auto simp: finalize_last_def Let_def split: option.splits if_splits)
  obtain seg1 where seg1: "seg1 = (case probe ?tmp of
      Some d \<Rightarrow> if 0 < d then seg0\<lparr>sg_duration := d, sg_end := sg_start seg0 + timedelta_seconds d\<rparr> else seg0 | None \<Rightarrow> seg0)" by blast
  obtain r fs1 where ps: "put_stream base pid (sg_key seg1) ?tmp fs = (r, fs1)" by fastforce
  obtain nbytes where nbytes: "r = Inr nbytes"
    using assms(3) seg0(4) proc rcode data ps
    by (cases r) (simp_all add: finalize_last_def Let_def seg1 [symmetric] split: if_splits)
  have res: "seg = seg1\<lparr>sg_size := nbytes\<rparr>" "gs = fs1" "rc_last_seg rc2 = None"
    "rc_procs rc2 = dict_del (sg_key seg0) (rc_procs rc1)"
    using assms(3) seg0(4) proc rcode data ps nbytes by (auto simp: finalize_last_def Let_def seg1 [symmetric])
  have key: "sg_key seg1 = sg_key seg0" "sg_start seg1 = sg_start seg0" by (auto simp: seg1 split: option.splits)
  have "0 < real_of_int ?s" using assms(2) by simp
  then have dur: "0 < sg_duration seg1 \<and> sg_end seg1 = sg_start seg1 + timedelta_seconds (sg_duration seg1)"
    using seg0 timedelta_seconds_exact [of "?s * 1000000"]
    by (auto simp: seg1 total_seconds_def split: option.splits)
  from put_stream_ok [OF ps [unfolded nbytes]] data obtain path where
    "resolve base (sg_key seg1) = Inr path" "nbytes = int (length data)" "dict_get (fs_files fs1) path = Some data" by auto
  then have "get base (sg_key seg) gs = Inr data" "sg_size seg = int (length data)" by (simp_all add: get_file res)
  then show ?thesis using b dur data(2) key p res by auto
qed

section \<open>Keys\<close>

lemma two_digits:
  assumes "n < 100"
  shows "zfill 2 (str_nat n) = [digit_char (n div 10), digit_char (n mod 10)]"
proof (cases "n < 10")
  case True
  moreover have "char_of (48::nat) = CHR ''0''" by code_simp
  ultimately show ?thesis by (subst str_nat.simps) (simp add: zfill_def digit_char_def [of 0])
next
  case False
  moreover have "n div 10 < 10" using assms by simp
  ultimately have "str_nat n = [digit_char (n div 10), digit_char (n mod 10)]"
    by (subst str_nat.simps) (simp, subst str_nat.simps, simp)
  then show ?thesis by (simp add: zfill_def)
qed

lemma two_digits_inj:
  assumes "zfill 2 (str_nat m) = zfill 2 (str_nat n)" and "m < 100" and "n < 100"
  shows "m = n"
proof -
  have d: "a = b" if "digit_char a = digit_char b" "a < 10" "b < 10" for a b
    using that arg_cong [OF that(1), of "of_char :: char \<Rightarrow> nat"] by (simp add: digit_char_def of_char_of)
  have "m div 10 < 10" "n div 10 < 10" using assms(2,3) by simp_all
  then have "m div 10 = n div 10" "m mod 10 = n mod 10"
    using d assms(1) by (simp_all add: two_digits [OF assms(2)] two_digits [OF assms(3)])
  then show ?thesis by (metis div_mult_mod_eq)
qed

lemma append3_inj:
  assumes "a @ b @ c = x @ y @ z" and "length a = length x" and "length b = length y"
  shows "a = x \<and> b = y \<and> c = z"
  using assms by simp

lemma clock_text_inj:
  assumes "clock_text s = clock_text t" and "0 \<le> s" "s < 86400" "0 \<le> t" "t < 86400"
  shows "s = t"
proof -
  have b: "nat (s div 3600) < 100" "nat (s div 60 mod 60) < 100" "nat (s mod 60) < 100"
    "nat (t div 3600) < 100" "nat (t div 60 mod 60) < 100" "nat (t mod 60) < 100" using assms(2-5) by linarith+
  let ?d = "\<lambda>n. zfill 2 (str_nat (nat n))"
  have l: "length (?d (t div 3600)) = length (?d (s div 3600))" "length (?d (t div 60 mod 60)) = length (?d (s div 60 mod 60))"
    by (simp_all add: two_digits [OF b(1)] two_digits [OF b(2)] two_digits [OF b(4)] two_digits [OF b(5)])
  have e: "?d (s div 3600) @ ?d (s div 60 mod 60) @ ?d (s mod 60) = ?d (t div 3600) @ ?d (t div 60 mod 60) @ ?d (t mod 60)"
    using assms(1) by (simp only: clock_text_def)
  note q = append3_inj [OF e l(1) [symmetric] l(2) [symmetric]]
  have n: "nat (s div 3600) = nat (t div 3600)" "nat (s div 60 mod 60) = nat (t div 60 mod 60)" "nat (s mod 60) = nat (t mod 60)"
    by (rule two_digits_inj [OF q [THEN conjunct1] b(1) b(4)],
        rule two_digits_inj [OF q [THEN conjunct2, THEN conjunct1] b(2) b(5)],
        rule two_digits_inj [OF q [THEN conjunct2, THEN conjunct2] b(3) b(6)])
  have p: "0 \<le> x div 3600" "0 \<le> x div 60 mod 60" "0 \<le> x mod 60" if "0 \<le> x" for x :: int
    using that by (simp_all add: pos_imp_zdiv_nonneg_iff)
  have i: "a = b" if "nat a = nat b" "0 \<le> a" "0 \<le> b" for a b using that by (simp only: eq_nat_nat_iff)
  note h = i [OF n(1) p(1) [OF assms(2)] p(1) [OF assms(4)]] i [OF n(2) p(2) [OF assms(2)] p(2) [OF assms(4)]]
    i [OF n(3) p(3) [OF assms(2)] p(3) [OF assms(4)]]
  have "x div 3600 = x div 60 div 60" for x :: int using zdiv_zmult2_eq [of 60 x 60] by simp
  then have "s div 60 = t div 60" using h(1,2) by (metis div_mult_mod_eq)
  then show ?thesis using h(3) by (metis div_mult_mod_eq)
qed

lemma clock_text_length:
  assumes "0 \<le> s" and "s < 86400"
  shows "length (clock_text s) = 6"
proof -
  have b: "nat (s div 3600) < 100" "nat (s div 60 mod 60) < 100" "nat (s mod 60) < 100" using assms by linarith+
  show ?thesis by (simp add: clock_text_def two_digits [OF b(1)] two_digits [OF b(2)] two_digits [OF b(3)])
qed

lemma segment_key_inj:
  assumes "inj date_path"
  shows "segment_key date_path cam s ext k = segment_key date_path cam t ext k \<longleftrightarrow>
    segment_boundary s k div 1000000 = segment_boundary t k div 1000000"
proof
  let ?a = "segment_boundary s k div 1000000" let ?b = "segment_boundary t k div 1000000"
  assume "segment_key date_path cam s ext k = segment_key date_path cam t ext k"
  then have "date_path (?a div 86400) @ ''/'' @ clock_text (?a mod 86400) = date_path (?b div 86400) @ ''/'' @ clock_text (?b mod 86400)"
    by (simp add: segment_key_def Let_def)
  moreover have "length (''/'' @ clock_text (?a mod 86400)) = length (''/'' @ clock_text (?b mod 86400))"
    by (simp add: clock_text_length)
  ultimately have "date_path (?a div 86400) = date_path (?b div 86400) \<and>
      ''/'' @ clock_text (?a mod 86400) = ''/'' @ clock_text (?b mod 86400)"
    using append_eq_append_conv [THEN iffD1, OF disjI2] by blast
  then have "date_path (?a div 86400) = date_path (?b div 86400)" "clock_text (?a mod 86400) = clock_text (?b mod 86400)"
    by simp_all
  then have "?a div 86400 = ?b div 86400" "?a mod 86400 = ?b mod 86400"
    using assms clock_text_inj [of "?a mod 86400" "?b mod 86400"] by (simp_all add: inj_eq)
  then show "?a = ?b" by (metis div_mult_mod_eq)
qed (simp add: segment_key_def Let_def)

text \<open>
  Segments are stored under the five-minute bucket their start falls in, whatever their length: with
  segments of whole multiples of five minutes different segments have different keys; with
  shorter ones, two of them in one bucket have the same key, and the second takes the first's
  place in the store.
\<close>

theorem segment_keys_exact:
  assumes "inj date_path" and "rc_seg_seconds rc1 = rc_seg_seconds rc2" and "0 < rc_seg_seconds rc1"
    and "rc_camera rc1 = rc_camera rc2"
    and "record_url dns date_path spawn url start1 rc1 = (Inr seg1, rc1')"
    and "record_url dns date_path spawn url start2 rc2 = (Inr seg2, rc2')"
  shows "(sg_key seg1 = sg_key seg2) = (sg_start seg1 div 300000000 = sg_start seg2 div 300000000) \<and>
    (\<not> 300 dvd rc_seg_seconds rc1 \<or> (sg_key seg1 = sg_key seg2) = (sg_start seg1 = sg_start seg2))"
proof -
  have f: "sg_key seg = segment_key date_path (rc_camera rc) (sg_start seg) ''mp4'' 300 \<and>
      sg_start seg = segment_boundary start (rc_seg_seconds rc)"
    if "record_url dns date_path spawn url start rc = (Inr seg, rc')" for start rc seg rc'
    using that by (auto simp: record_url_def Let_def split: sum.splits option.splits if_splits)
  have b: "segment_boundary t 300 div 1000000 = t div 300000000 * 300" for t
    by (simp add: segment_boundary_floor div_mult_swap [symmetric])
  have k: "(sg_key seg1 = sg_key seg2) = (sg_start seg1 div 300000000 = sg_start seg2 div 300000000)"
    using f [OF assms(5)] f [OF assms(6)] assms(4) segment_key_inj [OF assms(1), of "rc_camera rc1" "sg_start seg1" "''mp4''" 300 "sg_start seg2"]
    by (simp add: b)
  have d: "300000000 dvd sg_start seg" if dv: "300 dvd rc_seg_seconds rc" and "0 < rc_seg_seconds rc"
    and "record_url dns date_path spawn url start rc = (Inr seg, rc')" for start rc seg rc'
  proof -
    obtain q where "rc_seg_seconds rc = 300 * q" using dv unfolding dvd_def by blast
    then have "sg_start seg = 300000000 * (start div (rc_seg_seconds rc * 1000000) * q)"
      using f [OF that(3)] segment_boundary_floor [OF that(2)] by simp
    then show ?thesis by simp
  qed
  show ?thesis
  proof (cases "300 dvd rc_seg_seconds rc1")
    case True
    then have "300000000 dvd sg_start seg1" "300000000 dvd sg_start seg2"
      using d [OF _ _ assms(5)] d [OF _ _ assms(6)] assms(2,3) by simp_all
    then show ?thesis using k by (auto elim!: dvdE)
  qed (simp add: k)
qed

section \<open>A recording\<close>

definition gate_recorder :: recorder where
  "gate_recorder = new_recorder ''c'' 300 [] ''/t''"

definition gate_dns :: "string \<Rightarrow> string list option" where
  "gate_dns h = Some []"

lemma gate_valid:
  "\<exists>p. validate_egress_url gate_dns [] [''rtsp'', ''rtsps'', ''http'', ''https''] ''rtsp://h/x'' = Inr p"
proof -
  have "urlparse (''rtsp://'' @ ''h'' @ ''/'' @ ''x'') = Inr \<lparr>pu_scheme = ''rtsp'', pu_netloc = ''h'', pu_hostname = hostname ''h''\<rparr>"
    by (rule parse_rtsp) (simp_all add: netloc_char_def url_safe_def unreserved_def)
  moreover have "hostname ''h'' = ''h''"
    by (simp add: hostname_def host_part_def before_def lower_def lower_char_def)
  moreover have "lower ''rtsp'' = ''rtsp''" by (simp add: lower_def lower_char_def)
  ultimately show ?thesis by (auto simp: validate_egress_url_def gate_dns_def)
qed

lemma gate_recorded:
  "\<exists>seg rc. record_url gate_dns str_int (\<lambda>_. Some 3) ''rtsp://h/x'' start gate_recorder = (Inr seg, rc) \<and>
     sg_key seg = segment_key str_int ''c'' (segment_boundary start 300) ''mp4'' 300 \<and>
     sg_start seg = segment_boundary start 300 \<and> rc_last_seg rc = Some seg \<and> rc_last_proc rc = Some 3 \<and>
     rc_tmp_root rc = ''/t''"
  using gate_valid by (auto simp: record_url_def gate_recorder_def new_recorder_def Let_def)

lemma gate_key: "segment_key str_int ''c'' (segment_boundary 0 300) ''mp4'' 300 = ''camera/c/0/000000.mp4''"
proof -
  have b: "segment_boundary 0 300 = 0" by (simp add: segment_boundary_def total_seconds_def)
  have "char_of (48::nat) = CHR ''0''" by code_simp
  then have d: "digit_char 0 = CHR ''0''" by (simp add: digit_char_def)
  have "zfill 2 (str_nat 0) = ''00''" using two_digits [of 0] by (simp add: d)
  moreover have "str_int 0 = ''0''" by (simp add: str_int_def) (subst str_nat.simps, simp add: d)
  ultimately show ?thesis by (simp add: segment_key_def b clock_text_def)
qed

theorem finished_segment_truthful_witness:
  "\<exists>seg rc rc2 gs fs. record_url gate_dns str_int (\<lambda>_. Some 3) ''rtsp://h/x'' 0 gate_recorder = (Inr seg, rc) \<and>
     finalize_last ''/d'' 7 (\<lambda>_. Some 0) (\<lambda>_. Some 80) (rc, fs) = (Inr (Some (seg\<lparr>sg_duration := 80, sg_end := sg_start seg + 80000000, sg_size := 2\<rparr>)), rc2, gs) \<and>
     get ''/d'' ''camera/c/0/000000.mp4'' gs = Inr [1, 2]"
proof -
  obtain seg rc where r: "record_url gate_dns str_int (\<lambda>_. Some 3) ''rtsp://h/x'' 0 gate_recorder = (Inr seg, rc)"
    "sg_key seg = ''camera/c/0/000000.mp4''" "rc_last_seg rc = Some seg" "rc_last_proc rc = Some 3" "rc_tmp_root rc = ''/t''"
    using gate_recorded [of 0] gate_key by auto
  let ?path = "''/d/camera/c/0/000000.mp4''"
  obtain tmp rest where tmp: "tmp = tmp_path rc (sg_start seg)" "tmp = ''/t'' @ rest"
    using r(5) by (simp add: tmp_path_def)
  let ?fs = "\<lparr>fs_files = [(tmp, [1, 2])], fs_dirs = {}\<rparr> :: file_system"
  have b: "base_ok ''/d''" unfolding base_ok_def by (rule exI [of _ "[''d'']"]) (simp add: plain_segment_def)
  have res: "resolve ''/d'' (sg_key seg) = Inr ?path"
    by (simp add: r(2) resolve_exact [OF b] plain_segment_def starts_with_def)
  have t80: "timedelta_seconds 80 = 80000000" using timedelta_seconds_exact [of 80000000] by (simp add: total_seconds_def)
  have par: "parents ?path = [''/d'', ''/d/camera'', ''/d/camera/c'', ''/d/camera/c/0'']" by (simp add: parents_def upt_rec)
  have "?path \<noteq> tmp" by (simp add: tmp(2))
  then have "fst (put_stream ''/d'' 7 (sg_key seg) tmp ?fs) = Inr 2"
    by (simp add: put_stream_def res make_parents_def blocked_path_def par is_file_def dict_get_def tmp(2) tmp_name_def publish_def Let_def)
  then obtain gs where ps: "put_stream ''/d'' 7 (sg_key seg) tmp ?fs = (Inr 2, gs)" by (cases "put_stream ''/d'' 7 (sg_key seg) tmp ?fs") simp
  obtain rc2 where f: "finalize_last ''/d'' 7 (\<lambda>_. Some 0) (\<lambda>_. Some 80) (rc, ?fs) =
      (Inr (Some (seg\<lparr>sg_duration := 80, sg_end := sg_start seg + 80000000, sg_size := 2\<rparr>)), rc2, gs)"
    using ps by (simp add: finalize_last_def r(3,4) tmp(1) [symmetric] Let_def dict_get_def t80)
  have "0 < rc_seg_seconds gate_recorder" by (simp add: gate_recorder_def new_recorder_def)
  from finished_segment_truthful [OF r(1) this f]
  obtain data where d: "get ''/d'' (sg_key seg) gs = Inr data" "length data = 2" by auto
  have "get ''/d'' ''camera/c/0/000000.mp4'' gs = Inr [1, 2]"
    using put_stream_ok [OF ps] d(1) by (auto simp: get_file r(2) dict_get_def)
  with r(1) f show ?thesis by blast
qed

theorem segment_keys_exact_witness:
  "\<exists>seg1 seg2 rc1 rc2. record_url gate_dns str_int (\<lambda>_. Some 3) ''rtsp://h/x'' 0 (gate_recorder\<lparr>rc_seg_seconds := 60\<rparr>) = (Inr seg1, rc1) \<and>
     record_url gate_dns str_int (\<lambda>_. Some 3) ''rtsp://h/x'' 60000000 (gate_recorder\<lparr>rc_seg_seconds := 60\<rparr>) = (Inr seg2, rc2) \<and>
     sg_key seg1 = sg_key seg2 \<and> sg_start seg1 \<noteq> sg_start seg2"
proof -
  obtain p where v: "validate_egress_url gate_dns [] [''rtsp'', ''rtsps'', ''http'', ''https''] ''rtsp://h/x'' = Inr p"
    using gate_valid by blast
  let ?rc = "gate_recorder\<lparr>rc_seg_seconds := 60\<rparr>"
  have b: "segment_boundary 0 60 = 0" "segment_boundary 60000000 60 = 60000000"
    by (simp_all add: segment_boundary_def total_seconds_def)
  obtain seg1 rc1 where 1: "record_url gate_dns str_int (\<lambda>_. Some 3) ''rtsp://h/x'' 0 ?rc = (Inr seg1, rc1)" "sg_start seg1 = 0"
    using v b by (simp add: record_url_def gate_recorder_def new_recorder_def Let_def)
  obtain seg2 rc2 where 2: "record_url gate_dns str_int (\<lambda>_. Some 3) ''rtsp://h/x'' 60000000 ?rc = (Inr seg2, rc2)" "sg_start seg2 = 60000000"
    using v b by (simp add: record_url_def gate_recorder_def new_recorder_def Let_def)
  have "inj str_int" by (rule injI) (metis py_int_str_int option.inject)
  from segment_keys_exact [OF this refl _ refl 1(1) 2(1)] have "sg_key seg1 = sg_key seg2"
    by (simp add: 1(2) 2(2) gate_recorder_def new_recorder_def)
  with 1 2 show ?thesis by auto
qed

end
