(* ===== verification/Retention.thy ===== *)
theory Retention
  imports Storage Platform
begin

text \<open>
  The hourly sweep of \<open>apps/worker/main.py\<close>: expired rows and the objects they name are deleted in
  chunks, one transaction each. A query returns the rows in the table's order; the cipher
  is a parameter, the object store the local one. Configured periods are whole days.
\<close>

section \<open>Chunks\<close>

definition sweep_chunk :: nat where "sweep_chunk = 500"

definition expired_chunk :: "('r \<Rightarrow> bool) \<Rightarrow> (string, 'r) dict \<Rightarrow> (string \<times> 'r) list" where
  "expired_chunk P d = take sweep_chunk (filter (\<lambda>(k, r). P r) d)"

definition delete_rows :: "string list \<Rightarrow> (string, 'r) dict \<Rightarrow> (string, 'r) dict" where
  "delete_rows ids d = filter (\<lambda>(k, r). k \<notin> set ids) d"

lemma chunk_member: "e \<in> set (expired_chunk P d) \<Longrightarrow> e \<in> set d \<and> P (snd e)"
  using set_take_subset [of sweep_chunk "filter (\<lambda>(k, r). P r) d"] by (auto simp: expired_chunk_def)

lemma delete_rows_shorter:
  assumes "expired_chunk P d \<noteq> []"
  shows "length (delete_rows (map fst (expired_chunk P d)) d) < length d"
proof -
  obtain e where "e \<in> set (expired_chunk P d)" using assms by (cases "expired_chunk P d") auto
  then have "e \<in> set d" "\<not> (case e of (k, r) \<Rightarrow> k \<notin> set (map fst (expired_chunk P d)))"
    using chunk_member by (fastforce, force)
  then show ?thesis unfolding delete_rows_def by (rule length_filter_less)
qed

definition retention_cut :: "timestamp \<Rightarrow> int \<Rightarrow> timestamp" where
  "retention_cut now days = now - days * 86400000000"

section \<open>The loops\<close>

function sweep_recordings :: "string \<Rightarrow> timestamp \<Rightarrow> db \<times> file_system \<Rightarrow> db \<times> file_system" where
  "sweep_recordings base oldest (d, fs) =
     (let segs = expired_chunk (\<lambda>s. sg_end s < oldest) (db_segments d) in
      if segs = [] then (d, fs)
      else sweep_recordings base oldest
             (d\<lparr>db_segments := delete_rows (map fst segs) (db_segments d)\<rparr>, delete_all (delete base) (map (sg_key \<circ> snd) segs) fs))"
  by pat_completeness auto
termination
  by (relation "measure (\<lambda>(base, oldest, d, fs). length (db_segments d))") (auto simp: delete_rows_shorter)

function sweep_events :: "timestamp \<Rightarrow> db \<Rightarrow> db" where
  "sweep_events oldest d =
     (let ids = map fst (expired_chunk (\<lambda>x. ev_end x < oldest) (db_events d)) in
      if ids = [] then d else sweep_events oldest (drop_events (\<lambda>k _. k \<in> set ids) d))"
  by pat_completeness auto
termination
  by (relation "measure (\<lambda>(oldest, d). length (db_events d))")
     (auto simp: drop_events_def Let_def delete_rows_shorter [unfolded delete_rows_def set_map])

definition snapshot_object_keys :: "(string \<Rightarrow> string option) \<Rightarrow> (string \<times> snapshot_row) list \<Rightarrow> string list" where
  \<comment> \<open>a key that does not decrypt is passed over\<close>
  "snapshot_object_keys decrypt snaps = List.map_filter (\<lambda>(i, s). decrypt (sn_key_enc s)) snaps"

function sweep_snapshots :: "(string \<Rightarrow> string option) \<Rightarrow> string \<Rightarrow> timestamp \<Rightarrow> db \<times> file_system \<Rightarrow> db \<times> file_system" where
  "sweep_snapshots decrypt base oldest (d, fs) =
     (let snaps = expired_chunk (\<lambda>s. sn_created_at s < oldest) (db_snapshots d) in
      if snaps = [] then (d, fs)
      else sweep_snapshots decrypt base oldest
             (d\<lparr>db_snapshots := delete_rows (map fst snaps) (db_snapshots d)\<rparr>,
              delete_all (delete base) (snapshot_object_keys decrypt snaps) fs))"
  by pat_completeness auto
termination
  by (relation "measure (\<lambda>(decrypt, base, oldest, d, fs). length (db_snapshots d))") (auto simp: delete_rows_shorter)

function sweep_rows :: "('r \<Rightarrow> bool) \<Rightarrow> (string, 'r) dict \<Rightarrow> (string, 'r) dict" where
  "sweep_rows P d =
     (let ids = map fst (expired_chunk P d) in if ids = [] then d else sweep_rows P (delete_rows ids d))"
  by pat_completeness auto
termination
  by (relation "measure (\<lambda>(P, d). length d)") (auto simp: delete_rows_shorter)

declare sweep_recordings.simps [simp del] sweep_events.simps [simp del] sweep_snapshots.simps [simp del] sweep_rows.simps [simp del]

definition sweep_retention ::
  "(string \<Rightarrow> string option) \<Rightarrow> string \<Rightarrow> settings \<Rightarrow> timestamp \<Rightarrow> db \<times> file_system \<Rightarrow> db \<times> file_system" where
  "sweep_retention decrypt base st now s0 =
     (let (d1, fs1) = sweep_recordings base (retention_cut now (se_retention_recordings st)) s0;
          d2 = sweep_events (retention_cut now (se_retention_events st)) d1;
          (d3, fs3) = sweep_snapshots decrypt base (retention_cut now (se_retention_snapshots st)) (d2, fs1);
          d4 = d3\<lparr>db_embeddings := sweep_rows (\<lambda>x. em_created_at x < retention_cut now (se_retention_embeddings st)) (db_embeddings d3)\<rparr>;
          d5 = d4\<lparr>db_audit := sweep_rows (\<lambda>x. au_ts x < retention_cut now (se_retention_audit st)) (db_audit d4)\<rparr>;
          d6 = d5\<lparr>db_refresh := sweep_rows (\<lambda>x. rf_expires_at x < now) (db_refresh d5)\<rparr>
      in (d6, fs3))"

section \<open>What a sweep leaves\<close>

lemma delete_chunk_filter:
  assumes "dict_ok d"
  shows "filter (\<lambda>(k, r). \<not> P r) (delete_rows (map fst (expired_chunk P d)) d) = filter (\<lambda>(k, r). \<not> P r) d"
    and "filter (\<lambda>(k, r). P r) (delete_rows (map fst (expired_chunk P d)) d) = drop sweep_chunk (filter (\<lambda>(k, r). P r) d)"
proof -
  let ?c = "expired_chunk P d" let ?f = "filter (\<lambda>(k, r). P r) d"
  have uniq: "r = r'" if "(k, r) \<in> set d" "(k, r') \<in> set d" for k r r'
    using assms that unfolding dict_ok_def dict_keys_def by (metis Some_eq_map_of_iff option.inject)
  have gone: "k \<in> set (map fst ?c) \<longleftrightarrow> (k, r) \<in> set ?c" if "(k, r) \<in> set d" for k r
  proof
    assume "k \<in> set (map fst ?c)"
    then obtain r' where r': "(k, r') \<in> set ?c" by auto
    then show "(k, r) \<in> set ?c" using chunk_member [OF r'] uniq that by auto
  qed force
  show "filter (\<lambda>(k, r). \<not> P r) (delete_rows (map fst ?c) d) = filter (\<lambda>(k, r). \<not> P r) d"
    unfolding delete_rows_def filter_filter
    by (rule filter_cong [OF refl]) (use gone chunk_member in fastforce)
  have f: "?f = ?c @ drop sweep_chunk ?f" by (simp add: expired_chunk_def)
  have "distinct (map fst ?f)" using assms by (simp add: dict_ok_def dict_keys_def distinct_map_filter)
  with f have dis: "set (map fst ?c) \<inter> set (map fst (drop sweep_chunk ?f)) = {}" by (metis distinct_append map_append)
  have "filter (\<lambda>(k, r). P r) (delete_rows (map fst ?c) d) = filter (\<lambda>(k, r). k \<notin> set (map fst ?c)) ?f"
    unfolding delete_rows_def filter_filter by (rule filter_cong [OF refl]) auto
  also have "\<dots> = filter (\<lambda>(k, r). k \<notin> set (map fst ?c)) ?c @ filter (\<lambda>(k, r). k \<notin> set (map fst ?c)) (drop sweep_chunk ?f)"
    using f by (metis filter_append)
  also have "filter (\<lambda>(k, r). k \<notin> set (map fst ?c)) ?c = []" by (force simp: filter_empty_conv)
  also have "filter (\<lambda>(k, r). k \<notin> set (map fst ?c)) (drop sweep_chunk ?f) = drop sweep_chunk ?f"
  proof (rule filter_True, intro ballI)
    fix e assume "e \<in> set (drop sweep_chunk ?f)"
    then have "fst e \<in> set (map fst (drop sweep_chunk ?f))" by simp
    then show "case e of (k, r) \<Rightarrow> k \<notin> set (map fst ?c)" using dis by (auto simp del: set_map split: prod.split)
  qed
  finally show "filter (\<lambda>(k, r). P r) (delete_rows (map fst ?c) d) = drop sweep_chunk ?f" by simp
qed

lemma chunk_empty: "expired_chunk P d = [] \<longleftrightarrow> filter (\<lambda>(k, r). P r) d = []"
  by (simp add: expired_chunk_def sweep_chunk_def)

lemma nothing_expired: "filter (\<lambda>(k, r). P r) d = [] \<Longrightarrow> filter (\<lambda>(k, r). \<not> P r) d = d"
  by (auto simp: filter_empty_conv filter_id_conv)

lemma dict_ok_delete_rows: "dict_ok d \<Longrightarrow> dict_ok (delete_rows ids d)"
  by (simp add: delete_rows_def)

lemma sweep_rows_exact: "dict_ok d \<Longrightarrow> sweep_rows P d = filter (\<lambda>(k, r). \<not> P r) d"
proof (induction P d rule: sweep_rows.induct)
  case (1 P d)
  show ?case
  proof (cases "expired_chunk P d = []")
    case True
    then show ?thesis by (simp add: sweep_rows.simps [of P d] chunk_empty nothing_expired)
  next
    case False
    then have "sweep_rows P (delete_rows (map fst (expired_chunk P d)) d) =
        filter (\<lambda>(k, r). \<not> P r) (delete_rows (map fst (expired_chunk P d)) d)"
      using "1.IH" [OF refl] dict_ok_delete_rows [OF "1.prems"] by simp
    then show ?thesis using False by (simp add: sweep_rows.simps [of P d] delete_chunk_filter(1) [OF "1.prems"])
  qed
qed

lemma delete_all_append: "delete_all f (ks @ js) s = delete_all f js (delete_all f ks s)"
  by (simp add: delete_all_def)

lemma chunk_split: "expired_chunk P d @ drop sweep_chunk (filter (\<lambda>(k, r). P r) d) = filter (\<lambda>(k, r). P r) d"
  by (simp add: expired_chunk_def)

lemma sweep_recordings_exact:
  "dict_ok (db_segments d) \<Longrightarrow> sweep_recordings base oldest (d, fs) =
     (d\<lparr>db_segments := filter (\<lambda>(k, s). \<not> sg_end s < oldest) (db_segments d)\<rparr>,
      delete_all (delete base) (map (sg_key \<circ> snd) (filter (\<lambda>(k, s). sg_end s < oldest) (db_segments d))) fs)"
proof (induction base oldest "(d, fs)" arbitrary: d fs rule: sweep_recordings.induct)
  case (1 base oldest d fs)
  let ?P = "\<lambda>s. sg_end s < oldest"
  let ?c = "expired_chunk ?P (db_segments d)"
  show ?case
  proof (cases "?c = []")
    case True
    then show ?thesis
      using chunk_empty [THEN iffD1, OF True] nothing_expired [OF chunk_empty [THEN iffD1, OF True]]
      by (simp add: sweep_recordings.simps [of base oldest d fs] delete_all_def)
  next
    case False
    let ?d = "d\<lparr>db_segments := delete_rows (map fst ?c) (db_segments d)\<rparr>"
    have "dict_ok (db_segments ?d)" using dict_ok_delete_rows [OF "1.prems"] by simp
    note IH = "1.hyps" [OF refl False this]
    have "sweep_recordings base oldest (d, fs) = sweep_recordings base oldest (?d, delete_all (delete base) (map (sg_key \<circ> snd) ?c) fs)"
      using False by (simp add: sweep_recordings.simps [of base oldest d fs] Let_def)
    then show ?thesis unfolding IH
      using delete_chunk_filter [OF "1.prems", of ?P] chunk_split [of ?P "db_segments d"]
      by (simp add: delete_all_append [symmetric] map_append [symmetric] del: map_append)
  qed
qed

lemma snapshot_keys_append: "snapshot_object_keys dec (xs @ ys) = snapshot_object_keys dec xs @ snapshot_object_keys dec ys"
  by (simp add: snapshot_object_keys_def List.map_filter_def)

lemma sweep_snapshots_exact:
  "dict_ok (db_snapshots d) \<Longrightarrow> sweep_snapshots decrypt base oldest (d, fs) =
     (d\<lparr>db_snapshots := filter (\<lambda>(k, s). \<not> sn_created_at s < oldest) (db_snapshots d)\<rparr>,
      delete_all (delete base) (snapshot_object_keys decrypt (filter (\<lambda>(k, s). sn_created_at s < oldest) (db_snapshots d))) fs)"
proof (induction decrypt base oldest "(d, fs)" arbitrary: d fs rule: sweep_snapshots.induct)
  case (1 decrypt base oldest d fs)
  let ?P = "\<lambda>s. sn_created_at s < oldest"
  let ?c = "expired_chunk ?P (db_snapshots d)"
  show ?case
  proof (cases "?c = []")
    case True
    then show ?thesis
      using chunk_empty [THEN iffD1, OF True] nothing_expired [OF chunk_empty [THEN iffD1, OF True]]
      by (simp add: sweep_snapshots.simps [of decrypt base oldest d fs] delete_all_def snapshot_object_keys_def List.map_filter_def)
  next
    case False
    let ?d = "d\<lparr>db_snapshots := delete_rows (map fst ?c) (db_snapshots d)\<rparr>"
    have "dict_ok (db_snapshots ?d)" using dict_ok_delete_rows [OF "1.prems"] by simp
    note IH = "1.hyps" [OF refl False this]
    have "sweep_snapshots decrypt base oldest (d, fs) =
        sweep_snapshots decrypt base oldest (?d, delete_all (delete base) (snapshot_object_keys decrypt ?c) fs)"
      using False by (simp add: sweep_snapshots.simps [of decrypt base oldest d fs] Let_def)
    then show ?thesis unfolding IH
      using delete_chunk_filter [OF "1.prems", of ?P] chunk_split [of ?P "db_snapshots d"]
      by (simp add: delete_all_append [symmetric] snapshot_keys_append [symmetric])
  qed
qed

lemma set_null_twice: "set_null ks (set_null js x) = set_null (js @ ks) x"
  by (auto simp: set_null_def split: option.splits)

lemma map_rows_twice: "map_rows f (map_rows g d) = map_rows (\<lambda>x. f (g x)) d"
  by (simp add: map_rows_def case_prod_unfold)

lemma set_null_Nil [simp]: "set_null [] x = x"
  by (simp add: set_null_def split: option.splits)

lemma sweep_events_exact:
  "dict_ok (db_events d) \<Longrightarrow> sweep_events oldest d = drop_events (\<lambda>k x. ev_end x < oldest) d"
proof (induction oldest d rule: sweep_events.induct)
  case (1 oldest d)
  let ?P = "\<lambda>x. ev_end x < oldest"
  let ?c = "expired_chunk ?P (db_events d)"
  let ?gone = "map fst (filter (\<lambda>(k, x). ?P x) (db_events d))"
  show ?case
  proof (cases "?c = []")
    case True
    note e = chunk_empty [THEN iffD1, OF True]
    have "drop_events (\<lambda>k. ?P) d = d\<lparr>db_events := db_events d, db_snapshots := map_rows (\<lambda>s. s) (db_snapshots d)\<rparr>"
      by (simp add: drop_events_def e nothing_expired [OF e])
    then show ?thesis using True by (simp add: sweep_events.simps [of oldest d] map_rows_def)
  next
    case False
    let ?d = "drop_events (\<lambda>k _. k \<in> set (map fst ?c)) d"
    have ev: "db_events ?d = delete_rows (map fst ?c) (db_events d)"
      by (simp add: drop_events_def delete_rows_def Let_def)
    have "dict_ok (db_events ?d)" unfolding ev by (rule dict_ok_delete_rows [OF "1.prems"])
    then have IH: "sweep_events oldest ?d = drop_events (\<lambda>k. ?P) ?d"
      using "1.IH" [OF refl] False by simp
    have gone: "set (map fst (filter (\<lambda>(k, x). k \<in> set (map fst ?c)) (db_events d))) = set (map fst ?c)"
      using chunk_member [of _ ?P "db_events d"] by force
    have null: "set_null js x = set_null ks x" if "set js = set ks" for js ks and x :: "string option"
      using that by (cases x) (simp_all add: set_null_def)
    have rest: "map fst (filter (\<lambda>(k, x). ?P x) (db_events ?d)) = map fst (drop sweep_chunk (filter (\<lambda>(k, x). ?P x) (db_events d)))"
      "filter (\<lambda>(k, x). \<not> ?P x) (db_events ?d) = filter (\<lambda>(k, x). \<not> ?P x) (db_events d)"
      unfolding ev using delete_chunk_filter [OF "1.prems", of ?P] by simp_all
    have all: "set (map fst (filter (\<lambda>(k, x). k \<in> set (map fst ?c)) (db_events d)) @
        map fst (drop sweep_chunk (filter (\<lambda>(k, x). ?P x) (db_events d)))) = set ?gone"
      using chunk_split [of ?P "db_events d"] unfolding set_append gone by (metis map_append set_append)
    have sn: "db_snapshots (drop_events (\<lambda>k. ?P) ?d) = db_snapshots (drop_events (\<lambda>k. ?P) d)"
      using null [OF all] rest(1) by (simp add: drop_events_def Let_def map_rows_twice set_null_twice)
    have "drop_events (\<lambda>k. ?P) ?d = drop_events (\<lambda>k. ?P) d"
      using sn rest(2) by (simp add: drop_events_def Let_def)
    then show ?thesis using False IH by (simp add: sweep_events.simps [of oldest d])
  qed
qed

definition expired :: "('r \<Rightarrow> bool) \<Rightarrow> (string, 'r) dict \<Rightarrow> (string, 'r) dict" where
  "expired P d = filter (\<lambda>(k, r). P r) d"

definition unexpired :: "('r \<Rightarrow> bool) \<Rightarrow> (string, 'r) dict \<Rightarrow> (string, 'r) dict" where
  "unexpired P d = filter (\<lambda>(k, r). \<not> P r) d"

definition swept_keys :: "(string \<Rightarrow> string option) \<Rightarrow> settings \<Rightarrow> timestamp \<Rightarrow> db \<Rightarrow> string list" where
  \<comment> \<open>the objects a sweep deletes\<close>
  "swept_keys decrypt st now d =
     map (sg_key \<circ> snd) (expired (\<lambda>s. sg_end s < retention_cut now (se_retention_recordings st)) (db_segments d)) @
     snapshot_object_keys decrypt (expired (\<lambda>s. sn_created_at s < retention_cut now (se_retention_snapshots st)) (db_snapshots d))"

lemma rows_unexpired [simp]: "rows (unexpired P t) = {r \<in> rows t. \<not> P r}"
  by (force simp: rows_def unexpired_def)

lemma expired_set_null:
  "snapshot_object_keys decrypt (expired (\<lambda>s. sn_created_at s < b) (map_rows (\<lambda>s. s\<lparr>sn_event := f s\<rparr>) d)) =
   snapshot_object_keys decrypt (expired (\<lambda>s. sn_created_at s < b) d)"
  by (induction d) (auto simp: snapshot_object_keys_def List.map_filter_def expired_def map_rows_def)

lemma sweep_objects:
  assumes "dict_ok (db_segments d)" "dict_ok (db_events d)" "dict_ok (db_snapshots d)"
  shows "snd (sweep_retention decrypt base st now (d, fs)) = delete_all (delete base) (swept_keys decrypt st now d) fs"
proof -
  let ?d1 = "d\<lparr>db_segments := unexpired (\<lambda>s. sg_end s < retention_cut now (se_retention_recordings st)) (db_segments d)\<rparr>"
  let ?d2 = "drop_events (\<lambda>k x. ev_end x < retention_cut now (se_retention_events st)) ?d1"
  have 1: "sweep_recordings base (retention_cut now (se_retention_recordings st)) (d, fs) =
      (?d1, delete_all (delete base) (map (sg_key \<circ> snd) (expired (\<lambda>s. sg_end s < retention_cut now (se_retention_recordings st)) (db_segments d))) fs)"
    unfolding expired_def unexpired_def by (rule sweep_recordings_exact [OF assms(1)])
  have "dict_ok (db_events ?d1)" using assms(2) by simp
  note 2 = sweep_events_exact [OF this, of "retention_cut now (se_retention_events st)"]
  have s2: "db_snapshots ?d2 = map_rows (\<lambda>s. s\<lparr>sn_event := set_null (map fst (expired (\<lambda>x. ev_end x < retention_cut now (se_retention_events st)) (db_events d))) (sn_event s)\<rparr>) (db_snapshots d)"
    by (simp add: drop_events_def Let_def expired_def)
  have "dict_ok (db_snapshots ?d2)" unfolding s2 using assms(3) by (simp add: dict_ok_def)
  note 3 = sweep_snapshots_exact [OF this, of decrypt base "retention_cut now (se_retention_snapshots st)", folded expired_def unexpired_def]
  show ?thesis
    by (simp add: sweep_retention_def 1 2 3 s2 expired_set_null swept_keys_def delete_all_append)
qed

definition swept_db :: "settings \<Rightarrow> timestamp \<Rightarrow> db \<Rightarrow> db" where
  \<comment> \<open>the tables a sweep leaves\<close>
  "swept_db st now d =
     (let d1 = d\<lparr>db_segments := unexpired (\<lambda>s. sg_end s < retention_cut now (se_retention_recordings st)) (db_segments d)\<rparr>;
          d2 = drop_events (\<lambda>k x. ev_end x < retention_cut now (se_retention_events st)) d1
      in d2\<lparr>db_snapshots := unexpired (\<lambda>s. sn_created_at s < retention_cut now (se_retention_snapshots st)) (db_snapshots d2),
            db_embeddings := unexpired (\<lambda>x. em_created_at x < retention_cut now (se_retention_embeddings st)) (db_embeddings d),
            db_audit := unexpired (\<lambda>x. au_ts x < retention_cut now (se_retention_audit st)) (db_audit d),
            db_refresh := unexpired (\<lambda>x. rf_expires_at x < now) (db_refresh d)\<rparr>)"

lemma sweep_retention_db:
  assumes "dict_ok (db_segments d)" and "dict_ok (db_events d)" and "dict_ok (db_snapshots d)" and "dict_ok (db_embeddings d)"
    and "dict_ok (db_audit d)" and "dict_ok (db_refresh d)"
  shows "fst (sweep_retention decrypt base st now (d, fs)) = swept_db st now d"
proof -
  let ?cut = "\<lambda>sel. retention_cut now (sel st)"
  let ?d1 = "d\<lparr>db_segments := unexpired (\<lambda>s. sg_end s < ?cut se_retention_recordings) (db_segments d)\<rparr>"
  let ?d2 = "drop_events (\<lambda>k x. ev_end x < ?cut se_retention_events) ?d1"
  let ?d3 = "?d2\<lparr>db_snapshots := unexpired (\<lambda>s. sn_created_at s < ?cut se_retention_snapshots) (db_snapshots ?d2)\<rparr>"
  obtain fs1 where 1: "sweep_recordings base (?cut se_retention_recordings) (d, fs) = (?d1, fs1)"
    by (simp add: sweep_recordings_exact [OF assms(1)] unexpired_def)
  have "dict_ok (db_events ?d1)" using assms(2) by simp
  note 2 = sweep_events_exact [OF this, of "?cut se_retention_events"]
  have "dict_ok (db_snapshots ?d2)" using assms(3) by (simp add: drop_events_def Let_def dict_ok_def)
  then obtain fs3 where 3: "sweep_snapshots decrypt base (?cut se_retention_snapshots) (?d2, fs1) = (?d3, fs3)"
    by (simp add: sweep_snapshots_exact unexpired_def)
  have e3: "db_embeddings ?d3 = db_embeddings d" "db_audit ?d3 = db_audit d" "db_refresh ?d3 = db_refresh d"
    by (simp_all add: drop_events_def Let_def)
  show ?thesis
    using sweep_rows_exact [OF assms(4), folded unexpired_def] sweep_rows_exact [OF assms(5), folded unexpired_def]
      sweep_rows_exact [OF assms(6), folded unexpired_def]
    by (simp add: sweep_retention_def swept_db_def Let_def 1 2 3 e3)
qed

lemma swept_db_fk:
  assumes "media_fk d" and "people_fk d"
  shows "media_fk (swept_db st now d)" "people_fk (swept_db st now d)"
proof -
  let ?d1 = "d\<lparr>db_segments := unexpired (\<lambda>s. sg_end s < retention_cut now (se_retention_recordings st)) (db_segments d)\<rparr>"
  have "media_fk ?d1" using assms(1) unfolding media_fk_def by auto
  from drop_events_media [OF this] show "media_fk (swept_db st now d)" unfolding swept_db_def Let_def media_fk_def by auto
  have "people_fk ?d1" using assms(2) by (simp add: people_fk_def)
  from drop_events_people [OF this] show "people_fk (swept_db st now d)"
    unfolding swept_db_def Let_def people_fk_def by (auto simp: drop_events_def Let_def)
qed

lemma unexpired_map_rows:
  "map fst (unexpired (\<lambda>s. sn_created_at s < b) (map_rows (\<lambda>s. s\<lparr>sn_event := f s\<rparr>) t)) = map fst (unexpired (\<lambda>s. sn_created_at s < b) t)"
  by (induction t) (auto simp: unexpired_def map_rows_def)

lemma swept_db_tables:
  "db_segments (swept_db st now d) = unexpired (\<lambda>s. sg_end s < now - se_retention_recordings st * 86400000000) (db_segments d) \<and>
   db_events (swept_db st now d) = unexpired (\<lambda>x. ev_end x < now - se_retention_events st * 86400000000) (db_events d) \<and>
   map fst (db_snapshots (swept_db st now d)) = map fst (unexpired (\<lambda>s. sn_created_at s < now - se_retention_snapshots st * 86400000000) (db_snapshots d)) \<and>
   db_embeddings (swept_db st now d) = unexpired (\<lambda>x. em_created_at x < now - se_retention_embeddings st * 86400000000) (db_embeddings d) \<and>
   db_audit (swept_db st now d) = unexpired (\<lambda>x. au_ts x < now - se_retention_audit st * 86400000000) (db_audit d) \<and>
   db_refresh (swept_db st now d) = unexpired (\<lambda>x. rf_expires_at x < now) (db_refresh d) \<and>
   db_cameras (swept_db st now d) = db_cameras d \<and> db_persons (swept_db st now d) = db_persons d \<and> db_users (swept_db st now d) = db_users d \<and>
   db_tracks (swept_db st now d) = db_tracks d"
proof -
  have c: "retention_cut now n = now - n * 86400000000" for n by (simp add: retention_cut_def)
  have s: "map fst (db_snapshots (swept_db st now d)) = map fst (unexpired (\<lambda>s. sn_created_at s < retention_cut now (se_retention_snapshots st)) (db_snapshots d))"
    by (simp add: swept_db_def drop_events_def Let_def unexpired_map_rows)
  have t: "db_segments (swept_db st now d) = unexpired (\<lambda>s. sg_end s < retention_cut now (se_retention_recordings st)) (db_segments d)"
    "db_events (swept_db st now d) = unexpired (\<lambda>x. ev_end x < retention_cut now (se_retention_events st)) (db_events d)"
    "db_embeddings (swept_db st now d) = unexpired (\<lambda>x. em_created_at x < retention_cut now (se_retention_embeddings st)) (db_embeddings d)"
    "db_audit (swept_db st now d) = unexpired (\<lambda>x. au_ts x < retention_cut now (se_retention_audit st)) (db_audit d)"
    "db_refresh (swept_db st now d) = unexpired (\<lambda>x. rf_expires_at x < now) (db_refresh d)"
    "db_cameras (swept_db st now d) = db_cameras d" "db_persons (swept_db st now d) = db_persons d"
    "db_users (swept_db st now d) = db_users d" "db_tracks (swept_db st now d) = db_tracks d"
    by (simp_all add: swept_db_def drop_events_def Let_def unexpired_def)
  show ?thesis using s t unfolding c by blast
qed

lemma delete_all_creates_nothing: "get base k (delete_all (delete base) ks fs) = Inr x \<Longrightarrow> get base k fs = Inr x"
  by (induction ks arbitrary: fs) (auto simp: delete_all_def dest: local_store.delete_creates_nothing)


definition old_segment :: segment_row where
  "old_segment = \<lparr>sg_camera = ''c'', sg_key = ''seg'', sg_backend = ''local'', sg_start = 0, sg_end = 300000000,
     sg_duration = 300, sg_size = 1, sg_created_at = 0\<rparr>"

definition kept_camera :: camera_row where
  \<comment> \<open>its own retention setting asks for a thousand days\<close>
  "kept_camera = \<lparr>ca_name = ''c'', ca_uid = None, ca_nvr = None, ca_stream_enc = None, ca_substream_enc = None,
     ca_status = ''ONLINE'', ca_health = ''streaming'', ca_last_seen = None, ca_resolution = [], ca_fps = 5, ca_timezone = ''UTC'',
     ca_masks = None, ca_retention = Some (JObj [(''recordings_days'', JNum 1000)]), ca_rules = None, ca_created_at = 0\<rparr>"

definition week_db :: db where
  "week_db = empty_db\<lparr>db_cameras := [(''c'', kept_camera)], db_segments := [(''s'', old_segment)]\<rparr>"


end
