(* ===== verification/Alerts.thy ===== *)
theory Alerts
  imports Notify Egress Platform
begin

text \<open>
  Alert routing in \<open>apps/worker/main.py\<close>: the cached routes, the cooldown windows, the choice of
  notifiers and the sender thread. One alert is handled at one moment of the clock (seconds); an
  alert's queue is the list of alerts with the moments they are taken from it.
\<close>

section \<open>Cooldown\<close>

type_synonym route_key = "string \<times> string \<times> string option"  \<comment> \<open>channel, rule type, camera\<close>

definition in_cooldown :: "(route_key, real) dict \<Rightarrow> real \<Rightarrow> route_key \<Rightarrow> int \<Rightarrow> bool" where
  "in_cooldown last_sent now key cooldown_sec \<longleftrightarrow>
     0 < cooldown_sec \<and> now - (case dict_get last_sent key of None \<Rightarrow> 0 | Some t \<Rightarrow> t) < of_int cooldown_sec"

definition record_sent :: "route_key \<Rightarrow> real \<Rightarrow> (route_key, real) dict \<Rightarrow> (route_key, real) dict" where
  "record_sent key now last_sent = dict_set key now last_sent"

section \<open>Routes\<close>

record alert_path =
  ap_channel :: string
  ap_config :: json
  ap_rule_type :: string
  ap_camera :: "string option"
  ap_cooldown :: int

record route_cache =
  rc_at :: real
  rc_routes :: "alert_path list"

definition empty_cache :: route_cache where
  "empty_cache = \<lparr>rc_at = 0, rc_routes = []\<rparr>"

definition route_config :: "(string \<Rightarrow> json option) \<Rightarrow> string option \<Rightarrow> json option" where
  \<comment> \<open>\<open>(r.config_enc and decrypt_json(r.config_enc)) or {}\<close>; \<open>None\<close> is an exception\<close>
  "route_config decrypt_json enc =
     (case enc of
        None \<Rightarrow> Some (JObj [])
      | Some [] \<Rightarrow> Some (JObj [])
      | Some e \<Rightarrow> map_option (\<lambda>j. if json_truthy j then j else JObj []) (decrypt_json e))"

fun stored_routes :: "(string \<Rightarrow> json option) \<Rightarrow> route_row list \<Rightarrow> alert_path list" where
  \<comment> \<open>an exception ends the loop, with what was read so far\<close>
  "stored_routes decrypt_json [] = []"
| "stored_routes decrypt_json (r # rs) =
     (case route_config decrypt_json (rt_config_enc r) of
        None \<Rightarrow> []
      | Some cfg \<Rightarrow> \<lparr>ap_channel = rt_channel r, ap_config = cfg, ap_rule_type = rt_rule_type r, ap_camera = rt_camera r,
                     ap_cooldown = rt_cooldown r\<rparr> # stored_routes decrypt_json rs)"

definition env_route :: "string option \<Rightarrow> alert_path list" where
  "env_route url =
     (case url of
        None \<Rightarrow> []
      | Some u \<Rightarrow> if u = [] then []
                  else [\<lparr>ap_channel = ''webhook'', ap_config = JObj [(''url'', JStr u)], ap_rule_type = ''*'', ap_camera = None,
                         ap_cooldown = 0\<rparr>])"

definition load_routes ::
  "(string \<Rightarrow> json option) \<Rightarrow> string option \<Rightarrow> real \<Rightarrow> db \<Rightarrow> route_cache \<Rightarrow> alert_path list \<times> route_cache" where
  "load_routes decrypt_json webhook_env now d cache =
     (if now - rc_at cache < 30 \<and> rc_routes cache \<noteq> [] then (rc_routes cache, cache)
      else let routes = stored_routes decrypt_json (filter rt_enabled (map snd (db_routes d))) @ env_route webhook_env
           in (routes, \<lparr>rc_at = now, rc_routes = routes\<rparr>))"

section \<open>Notifiers of an alert\<close>

definition path_key :: "alert_path \<Rightarrow> route_key" where
  "path_key p = (ap_channel p, ap_rule_type p, ap_camera p)"

definition path_matches :: "alert \<Rightarrow> alert_path \<Rightarrow> bool" where
  "path_matches a p \<longleftrightarrow>
     (ap_rule_type p = ''*'' \<or> ap_rule_type p = al_rule_type a) \<and>
     (case ap_camera p of None \<Rightarrow> True | Some c \<Rightarrow> c = [] \<or> c = al_camera_id a)"

definition build_webhook :: "(string \<Rightarrow> string list option) \<Rightarrow> string list \<Rightarrow> json \<Rightarrow> py_error + notifier option" where
  "build_webhook dns allowlist cfg =
     (case cfg of
        JObj kvs \<Rightarrow>
          (case config_get kvs ''url'' of
             None \<Rightarrow> Inr None
           | Some j \<Rightarrow>
               if \<not> json_truthy j then Inr None
               else bind_ok (text_of j) (\<lambda>url.
                 case validate_egress_url dns allowlist [] url of
                   Inl err \<Rightarrow> if err = UnsafeUrlError then Inr None else Inl err
                 | Inr _ \<Rightarrow> Inr (Some (Webhook url))))
      | _ \<Rightarrow> Inl AttributeError)"

definition build_other :: "string \<Rightarrow> json \<Rightarrow> py_error + notifier option" where
  \<comment> \<open>every exception skips the route\<close>
  "build_other channel cfg =
     (case cfg of
        JObj kvs \<Rightarrow> (case build_notifier channel kvs of
            Inl Unmodelled \<Rightarrow> Inl Unmodelled | Inl _ \<Rightarrow> Inr None | Inr n \<Rightarrow> Inr (Some n))
      | _ \<Rightarrow> Inr None)"

definition build_path :: "(string \<Rightarrow> string list option) \<Rightarrow> string list \<Rightarrow> alert_path \<Rightarrow> py_error + notifier option" where
  "build_path dns allowlist p =
     (if ap_channel p = ''webhook'' then build_webhook dns allowlist (ap_config p) else build_other (ap_channel p) (ap_config p))"

fun choose_notifiers ::
  "(string \<Rightarrow> string list option) \<Rightarrow> string list \<Rightarrow> real \<Rightarrow> alert \<Rightarrow> alert_path list \<Rightarrow> (route_key, real) dict \<Rightarrow>
   (py_error + (alert_path \<times> notifier) list) \<times> (route_key, real) dict" where
  \<comment> \<open>the loop over the routes: what it builds, and the cooldown windows\<close>
  "choose_notifiers dns allowlist now a [] last_sent = (Inr [], last_sent)"
| "choose_notifiers dns allowlist now a (p # ps) last_sent =
     (if \<not> path_matches a p \<or> in_cooldown last_sent now (path_key p) (ap_cooldown p)
      then choose_notifiers dns allowlist now a ps last_sent
      else case build_path dns allowlist p of
        Inl err \<Rightarrow> (Inl err, last_sent)
      | Inr None \<Rightarrow> choose_notifiers dns allowlist now a ps last_sent
      | Inr (Some n) \<Rightarrow>
          (let (r, l) = choose_notifiers dns allowlist now a ps (record_sent (path_key p) now last_sent)
           in (map_sum id (\<lambda>ns. (p, n) # ns) r, l)))"

definition with_fallback :: "(alert_path \<times> notifier) list \<Rightarrow> notifier list" where
  \<comment> \<open>the in-process buffer is added unless a push route was taken\<close>
  "with_fallback built =
     map snd built @ (if list_ex (\<lambda>(p, n). ap_channel p = ''push'') built then [] else [Push plain_push])"

record sender =
  sd_cache :: route_cache
  sd_last :: "(route_key, real) dict"

definition new_sender :: sender where
  "new_sender = \<lparr>sd_cache = empty_cache, sd_last = []\<rparr>"

definition build_notifiers ::
  "(string \<Rightarrow> json option) \<Rightarrow> string option \<Rightarrow> (string \<Rightarrow> string list option) \<Rightarrow> string list \<Rightarrow> db \<Rightarrow> real \<Rightarrow> alert \<Rightarrow> sender \<Rightarrow>
   (py_error + (alert_path \<times> notifier) list) \<times> sender" where
  "build_notifiers decrypt_json webhook_env dns allowlist d now a sd =
     (let (routes, cache) = load_routes decrypt_json webhook_env now d (sd_cache sd);
          (r, l) = choose_notifiers dns allowlist now a routes (sd_last sd)
      in (r, \<lparr>sd_cache = cache, sd_last = l\<rparr>))"

section \<open>The sender\<close>

record send_env =
  sn_decrypt :: "string \<Rightarrow> json option"
  sn_webhook :: "string option"
  sn_dns :: "string \<Rightarrow> string list option"
  sn_allow :: "string list"
  sn_str :: "json \<Rightarrow> string"
  sn_deliver :: "transport \<Rightarrow> py_error option"

definition send_alert :: "send_env \<Rightarrow> db \<Rightarrow> real \<Rightarrow> alert \<Rightarrow> sender \<Rightarrow> (py_error + nat) \<times> transport list \<times> sender" where
  \<comment> \<open>the body of the sender's loop; its exceptions are logged and passed over\<close>
  "send_alert se d now a sd =
     (let (r, sd1) = build_notifiers (sn_decrypt se) (sn_webhook se) (sn_dns se) (sn_allow se) d now a sd
      in case r of
           Inl err \<Rightarrow> (Inl err, [], sd1)
         | Inr built \<Rightarrow> (let (q, ts) = dispatch (sn_str se) (sn_deliver se) a (with_fallback built) in (q, ts, sd1)))"

fun alert_sender :: "send_env \<Rightarrow> (db \<times> real \<times> alert) list \<Rightarrow> sender \<Rightarrow> (transport list) list \<times> sender" where
  \<comment> \<open>what each alert of the queue made leave the host\<close>
  "alert_sender se [] sd = ([], sd)"
| "alert_sender se ((d, now, a) # rest) sd =
     (let (q, ts, sd1) = send_alert se d now a sd; (tss, sd2) = alert_sender se rest sd1 in (ts # tss, sd2))"

section \<open>Which channels an alert takes\<close>

definition path_notifier :: "(string \<Rightarrow> string list option) \<Rightarrow> string list \<Rightarrow> alert \<Rightarrow> alert_path \<Rightarrow> (alert_path \<times> notifier) option" where
  "path_notifier dns allowlist a p =
     (if path_matches a p then (case build_path dns allowlist p of Inr (Some n) \<Rightarrow> Some (p, n) | _ \<Rightarrow> None) else None)"

lemma chosen_without_cooldown:
  assumes "choose_notifiers dns allowlist now a ps last_sent = (Inr built, l)" and "list_all (\<lambda>p. ap_cooldown p \<le> 0) ps"
  shows "built = List.map_filter (path_notifier dns allowlist a) ps"
  using assms
proof (induction ps arbitrary: last_sent built)
  case Nil
  then show ?case by (simp add: List.map_filter_def)
next
  case (Cons p ps)
  have nc: "\<not> in_cooldown s now k (ap_cooldown p)" for s k using Cons.prems(2) by (simp add: in_cooldown_def)
  have ps: "list_all (\<lambda>p. ap_cooldown p \<le> 0) ps" using Cons.prems(2) by simp
  show ?case
  proof (cases "path_matches a p")
    case False
    then show ?thesis using Cons.IH [OF _ ps] Cons.prems(1) by (simp add: List.map_filter_def path_notifier_def)
  next
    case True
    show ?thesis
    proof (cases "build_path dns allowlist p")
      case (Inl err)
      then show ?thesis using Cons.prems(1) True nc by simp
    next
      case (Inr x)
      show ?thesis
      proof (cases x)
        case None
        then show ?thesis using Cons.IH [OF _ ps] Cons.prems(1) True nc Inr by (simp add: List.map_filter_def path_notifier_def)
      next
        case (Some n)
        obtain r l' where c: "choose_notifiers dns allowlist now a ps (record_sent (path_key p) now last_sent) = (r, l')" by fastforce
        obtain ns where ns: "r = Inr ns" "built = (p, n) # ns" "l' = l"
          using Cons.prems(1) True nc Inr Some c by (cases r) auto
        have "ns = List.map_filter (path_notifier dns allowlist a) ps" using Cons.IH [OF _ ps] c ns by simp
        then show ?thesis using True Inr Some ns(2) by (simp add: List.map_filter_def path_notifier_def)
      qed
    qed
  qed
qed

lemma chosen_sound:
  assumes "choose_notifiers dns allowlist now a ps last_sent = (Inr built, l)"
  shows "list_all (\<lambda>(p, n). p \<in> set ps \<and> path_notifier dns allowlist a p = Some (p, n)) built"
  using assms
proof (induction ps arbitrary: last_sent built l)
  case (Cons p ps)
  have mono: "list_all (\<lambda>(q, n). q \<in> set (p # ps) \<and> path_notifier dns allowlist a q = Some (q, n)) bs"
    if "list_all (\<lambda>(q, n). q \<in> set ps \<and> path_notifier dns allowlist a q = Some (q, n)) bs" for bs
    using that by (auto simp: list_all_iff)
  show ?case
  proof (cases "path_matches a p \<and> \<not> in_cooldown last_sent now (path_key p) (ap_cooldown p)")
    case False
    then have "choose_notifiers dns allowlist now a ps last_sent = (Inr built, l)" using Cons.prems by auto
    from mono [OF Cons.IH [OF this]] show ?thesis .
  next
    case True
    show ?thesis
    proof (cases "build_path dns allowlist p")
      case (Inl err)
      then show ?thesis using Cons.prems True by simp
    next
      case (Inr x)
      show ?thesis
      proof (cases x)
        case None
        then have "choose_notifiers dns allowlist now a ps last_sent = (Inr built, l)" using Cons.prems True Inr by auto
        from mono [OF Cons.IH [OF this]] show ?thesis .
      next
        case (Some n)
        obtain r l' where c: "choose_notifiers dns allowlist now a ps (record_sent (path_key p) now last_sent) = (r, l')" by fastforce
        obtain ns where ns: "r = Inr ns" "built = (p, n) # ns"
          using Cons.prems True Inr Some c by (cases r) auto
        from mono [OF Cons.IH [OF c [unfolded ns(1)]]] show ?thesis
          using True Inr Some by (simp add: ns(2) path_notifier_def)
      qed
    qed
  qed
qed simp

lemma build_push_shape: "build_push c = Inr n \<Longrightarrow> \<exists>p. n = Push p"
  by (auto simp: build_push_def bind_ok_Inr)

lemma built_webhook:
  assumes "build_path dns allowlist p = Inr (Some (Webhook url))"
  shows "ap_channel p = ''webhook'' \<and> (\<exists>q. validate_egress_url dns allowlist [] url = Inr q)"
proof (cases "ap_channel p = ''webhook''")
  case True
  then have "build_webhook dns allowlist (ap_config p) = Inr (Some (Webhook url))" using assms by (simp add: build_path_def)
  then obtain kvs j u where u: "ap_config p = JObj kvs" "config_get kvs ''url'' = Some j" "json_truthy j" "text_of j = Inr u"
    by (auto simp: build_webhook_def bind_ok_Inr split: json.splits option.splits if_splits)
  then show ?thesis using assms True
    by (cases "validate_egress_url dns allowlist [] u") (auto simp: build_path_def build_webhook_def split: if_splits)
next
  case False
  then have b: "build_other (ap_channel p) (ap_config p) = Inr (Some (Webhook url))" using assms by (simp add: build_path_def)
  then obtain kvs where "ap_config p = JObj kvs" "build_notifier (ap_channel p) kvs = Inr (Webhook url)"
    by (auto simp: build_other_def split: json.splits sum.splits py_error.splits)
  then show ?thesis using False
    by (auto simp: build_notifier_def build_email_def build_mqtt_def bind_ok_Inr dest: build_push_shape split: if_splits)
qed

text \<open>
  Which channels an alert takes: only configured routes that match its rule and its camera and
  whose notifier can be built, and without cooldowns every one of them, in order. No webhook
  leaves for a URL the egress guard refuses, and a push notifier is always among them, so that
  the alert is kept in process.
\<close>

theorem alert_channels_exact:
  assumes "choose_notifiers dns allowlist now a ps last_sent = (Inr built, l)"
  shows "list_all (\<lambda>(p, n). p \<in> set ps \<and> path_matches a p \<and> build_path dns allowlist p = Inr (Some n)) built \<and>
    list_all (\<lambda>n. case n of Webhook url \<Rightarrow> \<exists>q. validate_egress_url dns allowlist [] url = Inr q | _ \<Rightarrow> True) (with_fallback built) \<and>
    (list_all (\<lambda>p. ap_cooldown p \<le> 0) ps \<longrightarrow> built = List.map_filter (path_notifier dns allowlist a) ps) \<and>
    list_ex (\<lambda>n. case n of Push c \<Rightarrow> True | _ \<Rightarrow> False) (with_fallback built)"
proof -
  have s: "p \<in> set ps \<and> path_matches a p \<and> build_path dns allowlist p = Inr (Some n)" if "(p, n) \<in> set built" for p n
    using chosen_sound [OF assms] that
    by (force simp: list_all_iff path_notifier_def split: if_splits sum.splits option.splits)
  have web: "case n of Webhook url \<Rightarrow> \<exists>q. validate_egress_url dns allowlist [] url = Inr q | _ \<Rightarrow> True" if "n \<in> set (with_fallback built)" for n
  proof (cases n)
    case (Webhook url)
    with that obtain p where "(p, Webhook url) \<in> set built" by (auto simp: with_fallback_def split: if_splits)
    then show ?thesis using s built_webhook Webhook by fastforce
  qed simp_all
  have push: "\<exists>c. n = Push c" if "(p, n) \<in> set built" "ap_channel p = ''push''" for p n
  proof -
    have "build_other ''push'' (ap_config p) = Inr (Some n)" using s [OF that(1)] that(2) by (simp add: build_path_def)
    then obtain kvs where "build_notifier ''push'' kvs = Inr n"
      by (auto simp: build_other_def split: json.splits sum.splits py_error.splits)
    then show ?thesis using build_push_shape by (simp add: build_notifier_def channels_def)
  qed
  have "list_ex (\<lambda>n. case n of Push c \<Rightarrow> True | _ \<Rightarrow> False) (with_fallback built)"
  proof (cases "list_ex (\<lambda>(p, n). ap_channel p = ''push'') built")
    case True
    then obtain p n where "(p, n) \<in> set built" "ap_channel p = ''push''" by (auto simp: list_ex_iff)
    moreover from this obtain c where "n = Push c" using push by blast
    ultimately show ?thesis by (force simp: with_fallback_def list_ex_iff)
  qed (simp add: with_fallback_def)
  then show ?thesis
    using s web chosen_without_cooldown [OF assms] by (auto simp: list_all_iff)
qed

section \<open>Cooldown windows\<close>

definition windows_cover :: "(route_key, real) dict \<Rightarrow> (real \<times> alert_path) list \<Rightarrow> bool" where
  \<comment> \<open>the recorded moment of a key is no earlier than any send on it\<close>
  "windows_cover l sends \<longleftrightarrow> (\<forall>(t, p) \<in> set sends. \<exists>u. dict_get l (path_key p) = Some u \<and> t \<le> u)"

definition spaced :: "(real \<times> alert_path) list \<Rightarrow> bool" where
  "spaced sends \<longleftrightarrow> sorted_wrt (\<lambda>(t, p) (u, q). path_key p = path_key q \<longrightarrow> 0 < ap_cooldown q \<longrightarrow> of_int (ap_cooldown q) \<le> u - t) sends"

fun alert_log :: "send_env \<Rightarrow> (db \<times> real \<times> alert) list \<Rightarrow> sender \<Rightarrow> (real \<times> alert_path) list" where
  \<comment> \<open>the notifiers built for each alert of the queue, with their moments\<close>
  "alert_log se [] sd = []"
| "alert_log se ((d, now, a) # rest) sd =
     (let (r, sd1) = build_notifiers (sn_decrypt se) (sn_webhook se) (sn_dns se) (sn_allow se) d now a sd
      in (case r of Inl err \<Rightarrow> [] | Inr built \<Rightarrow> map (\<lambda>(p, n). (now, p)) built) @ alert_log se rest sd1)"

lemma spaced_append:
  "spaced (sends @ sends') \<longleftrightarrow> spaced sends \<and> spaced sends' \<and>
     (\<forall>(t, p) \<in> set sends. \<forall>(u, q) \<in> set sends'. path_key p = path_key q \<longrightarrow> 0 < ap_cooldown q \<longrightarrow> of_int (ap_cooldown q) \<le> u - t)"
  by (auto simp: spaced_def sorted_wrt_append)

lemma cover_set: "windows_cover l sends \<Longrightarrow> \<forall>(t, p) \<in> set sends. t \<le> now \<Longrightarrow> windows_cover (record_sent k now l) sends"
  by (fastforce simp: windows_cover_def record_sent_def)

lemma chosen_spaced:
  assumes "choose_notifiers dns allowlist now a ps l = (r, l')" and "windows_cover l sends" and "spaced sends"
    and "\<forall>(t, p) \<in> set sends. t \<le> now"
  shows "windows_cover l' (sends @ (case r of Inl err \<Rightarrow> [] | Inr built \<Rightarrow> map (\<lambda>(p, n). (now, p)) built)) \<and>
    spaced (sends @ (case r of Inl err \<Rightarrow> [] | Inr built \<Rightarrow> map (\<lambda>(p, n). (now, p)) built))"
  using assms
proof (induction ps arbitrary: l r sends)
  case (Cons p ps)
  show ?case
  proof (cases "path_matches a p \<and> \<not> in_cooldown l now (path_key p) (ap_cooldown p)")
    case False
    then have "choose_notifiers dns allowlist now a ps l = (r, l')" using Cons.prems(1) by auto
    from Cons.IH [OF this Cons.prems(2-4)] show ?thesis .
  next
    case True
    show ?thesis
    proof (cases "build_path dns allowlist p")
      case (Inl err)
      then show ?thesis using Cons.prems True by auto
    next
      case (Inr x)
      show ?thesis
      proof (cases x)
        case None
        then have "choose_notifiers dns allowlist now a ps l = (r, l')" using Cons.prems(1) True Inr by auto
        from Cons.IH [OF this Cons.prems(2-4)] show ?thesis .
      next
        case (Some n)
        obtain q k where c: "choose_notifiers dns allowlist now a ps (record_sent (path_key p) now l) = (q, k)" by fastforce
        have k: "k = l'" "r = map_sum id (\<lambda>ns. (p, n) # ns) q" using Cons.prems(1) True Inr Some c by auto
        have cov: "windows_cover (record_sent (path_key p) now l) (sends @ [(now, p)])"
          using cover_set [OF Cons.prems(2,4)] by (auto simp: windows_cover_def record_sent_def)
        have sp: "spaced (sends @ [(now, p)])"
        proof -
          have "of_int (ap_cooldown p) \<le> now - t" if tq: "(t, q) \<in> set sends" "path_key q = path_key p" "0 < ap_cooldown p" for t q
          proof -
            obtain u where "dict_get l (path_key p) = Some u" "t \<le> u" using Cons.prems(2) tq(1,2) by (fastforce simp: windows_cover_def)
            then show ?thesis using True tq(3) by (auto simp: in_cooldown_def)
          qed
          then show ?thesis using Cons.prems(3) unfolding spaced_append by (auto simp: spaced_def)
        qed
        have "\<forall>(t, p) \<in> set (sends @ [(now, p)]). t \<le> now" using Cons.prems(4) by auto
        note IH = Cons.IH [OF c [unfolded k(1)] cov sp this]
        show ?thesis
        proof (cases q)
          case (Inl err)
          then show ?thesis using IH k(2) by (auto simp: windows_cover_def spaced_append)
        next
          case (Inr ns)
          then show ?thesis using IH k(2) by simp
        qed
      qed
    qed
  qed
qed simp

lemma alert_log_spaced:
  assumes "windows_cover (sd_last sd) sends" and "spaced sends" and "\<forall>(t, p) \<in> set sends. \<forall>(d, u, a) \<in> set queue. t \<le> u"
    and "sorted_wrt (\<lambda>(d, t, a) (d', u, b). t \<le> u) queue"
  shows "spaced (sends @ alert_log se queue sd)"
  using assms
proof (induction queue arbitrary: sd sends)
  case (Cons e queue)
  obtain d now a where e: "e = (d, now, a)" by (cases e)
  obtain r sd1 where b: "build_notifiers (sn_decrypt se) (sn_webhook se) (sn_dns se) (sn_allow se) d now a sd = (r, sd1)" by fastforce
  let ?new = "case r of Inl err \<Rightarrow> [] | Inr built \<Rightarrow> map (\<lambda>(p, n). (now, p)) built"
  obtain routes where c: "choose_notifiers (sn_dns se) (sn_allow se) now a routes (sd_last sd) = (r, sd_last sd1)"
    using b by (auto simp: build_notifiers_def Let_def split: prod.splits)
  have le: "\<forall>(t, p) \<in> set sends. t \<le> now" using Cons.prems(3) e by auto
  from chosen_spaced [OF c Cons.prems(1,2) le]
  have new: "windows_cover (sd_last sd1) (sends @ ?new)" "spaced (sends @ ?new)" by blast+
  have now: "\<forall>(t, p) \<in> set ?new. t = now" by (auto split: sum.splits)
  have "\<forall>(t, p) \<in> set (sends @ ?new). \<forall>(d, u, a) \<in> set queue. t \<le> u"
    using now Cons.prems(3,4) unfolding e by (fastforce simp: Ball_def)
  moreover have "sorted_wrt (\<lambda>(d, t, a) (d', u, b). t \<le> u) queue" using Cons.prems(4) by simp
  ultimately have "spaced ((sends @ ?new) @ alert_log se queue sd1)" using Cons.IH [OF new] by blast
  then show ?case by (simp add: e b)
qed simp

text \<open>
  C16. No alert storm on a channel: whatever alerts are raised, for whatever cameras, two alerts that leave by
  routes with the same channel, rule type and camera filter are apart by the cooldown of the later
  one's route. The window belongs to that key and not to the route or to the camera of the
  alert: a route for all cameras that has fired is silent for every camera.
\<close>

theorem cooldown_spacing:
  assumes "sorted_wrt (\<lambda>(d, t, a) (d', u, b). t \<le> u) queue" and "i < j" and "j < length (alert_log se queue new_sender)"
    and "alert_log se queue new_sender ! i = (t, p)" and "alert_log se queue new_sender ! j = (u, q)"
    and "path_key p = path_key q" and "0 < ap_cooldown q"
  shows "of_int (ap_cooldown q) \<le> u - t"
proof -
  have "spaced ([] @ alert_log se queue new_sender)"
    by (rule alert_log_spaced) (simp_all add: windows_cover_def spaced_def assms(1))
  then have "case (t, p) of (t, p) \<Rightarrow> case (u, q) of (u, q) \<Rightarrow> path_key p = path_key q \<longrightarrow> 0 < ap_cooldown q \<longrightarrow> of_int (ap_cooldown q) \<le> u - t"
    using sorted_wrt_nth_less [of _ "alert_log se queue new_sender" i j] assms(2-5) unfolding spaced_def by fastforce
  then show ?thesis using assms(6,7) by simp
qed

section \<open>A door route\<close>

definition door_route :: route_row where
  "door_route = \<lparr>rt_rule_type = ''*'', rt_camera = None, rt_channel = ''push'', rt_config_enc = None, rt_enabled = True,
     rt_cooldown = 60, rt_created_at = 0\<rparr>"

definition door_db :: db where
  "door_db = empty_db\<lparr>db_routes := [(''r'', door_route)]\<rparr>"

definition door_env :: send_env where
  "door_env = \<lparr>sn_decrypt = (\<lambda>_. None), sn_webhook = None, sn_dns = (\<lambda>_. None), sn_allow = [], sn_str = (\<lambda>_. []), sn_deliver = (\<lambda>_. None)\<rparr>"

definition door_path :: alert_path where
  "door_path = \<lparr>ap_channel = ''push'', ap_config = JObj [], ap_rule_type = ''*'', ap_camera = None, ap_cooldown = 60\<rparr>"

lemma door_routes: "stored_routes (sn_decrypt door_env) (filter rt_enabled (map snd (db_routes door_db))) = [door_path]"
  by (simp add: door_db_def empty_db_def door_route_def route_config_def door_path_def)

lemma door_push: "build_path dns allowlist door_path = Inr (Some (Push plain_push))"
  by (simp add: build_path_def door_path_def build_other_def build_notifier_def channels_def build_push_def config_opt_def
      config_json_def config_get_def plain_push_def)

theorem alert_channels_exact_witness:
  "\<exists>built l. choose_notifiers (\<lambda>_. None) [] 100 (new_alert ''t'' ''intrusion'' ''cam'') [door_path] [] = (Inr built, l) \<and>
     with_fallback built = [Push plain_push]"
proof -
  have c: "choose_notifiers (\<lambda>_. None) [] 100 (new_alert ''t'' ''intrusion'' ''cam'') [door_path] [] =
      (Inr [(door_path, Push plain_push)], record_sent (path_key door_path) 100 [])"
    by (simp add: door_push path_matches_def in_cooldown_def dict_get_def) (simp add: door_path_def)
  have "list_ex (\<lambda>n. case n of Push c \<Rightarrow> True | _ \<Rightarrow> False) (with_fallback [(door_path, Push plain_push)])"
    using alert_channels_exact [OF c] by blast
  then show ?thesis using c by (simp add: with_fallback_def) (simp add: door_path_def)
qed

theorem cooldown_spacing_witness:
  "let queue = [(door_db, 100, new_alert ''t'' ''intrusion'' ''cam''), (door_db, 130, new_alert ''t'' ''intrusion'' ''other''),
                (door_db, 160, new_alert ''t'' ''intrusion'' ''cam'')]
   in map fst (alert_log door_env queue new_sender) = [100, 160] \<and> (60::real) \<le> 160 - 100"
proof -
  let ?queue = "[(door_db, 100::real, new_alert ''t'' ''intrusion'' ''cam''), (door_db, 130, new_alert ''t'' ''intrusion'' ''other''),
                (door_db, 160, new_alert ''t'' ''intrusion'' ''cam'')]"
  have m: "path_matches (new_alert r t c) door_path" for r t c by (simp add: path_matches_def door_path_def)
  have k: "ap_cooldown door_path = 60" by (simp add: door_path_def)
  have e: "env_route (sn_webhook door_env) = []" by (simp add: env_route_def door_env_def)
  have l: "alert_log door_env ?queue new_sender = [(100, door_path), (160, door_path)]"
    by (simp add: build_notifiers_def load_routes_def Let_def door_routes e door_push m k in_cooldown_def record_sent_def
        new_sender_def empty_cache_def dict_get_def dict_set_def)
  have at: "alert_log door_env ?queue new_sender ! 0 = (100, door_path)" "alert_log door_env ?queue new_sender ! 1 = (160, door_path)"
    "1 < length (alert_log door_env ?queue new_sender)" unfolding l by simp_all
  have "sorted_wrt (\<lambda>(d, t, a) (d', u, b). t \<le> u) ?queue" "0 < ap_cooldown door_path" by (simp_all add: k)
  then have "of_int (ap_cooldown door_path) \<le> (160::real) - 100"
    by (rule cooldown_spacing [OF _ zero_less_one at(3,1,2) refl])
  then show ?thesis unfolding Let_def l by simp
qed

end
