(* ===== verification/Worker.thy ===== *)
theory Worker
  imports Alerts Metrics Recorder Retention Registry Pipeline
begin

text \<open>
  The camera thread of \<open>apps/worker/main.py\<close>: how it starts from the settings and the camera's
  row, what it does with the gateway's status reports, a frame, and the recording loop. The frame
  pipeline is the one of the theory Pipeline; what an exception leaves of it is a parameter. The
  clocks are arguments of the steps.
\<close>

section \<open>Starting a camera\<close>

definition ai_settings_of :: "settings \<Rightarrow> ai_settings" where
  "ai_settings_of st = \<lparr>ai_detector = se_ai_detector st, ai_confidence = se_ai_confidence st, ai_model_name = se_ai_model_name st,
     ai_model_version = se_ai_model_version st\<rparr>"

definition make_detector :: "(string \<Rightarrow> string option) \<Rightarrow> settings \<Rightarrow> registry \<Rightarrow> py_error + built_detector" where
  "make_detector digest st ms = build_detector digest (ai_settings_of st) ms None"

datatype face_models = Staged_faces string string | Reference_faces

definition make_face_chain :: "(string \<Rightarrow> string option) \<Rightarrow> settings \<Rightarrow> registry \<Rightarrow> face_models" where
  "make_face_chain digest st ms =
     (if se_ai_identity st then
        (case build_face_chain digest ms of Inr (det, emb) \<Rightarrow> Staged_faces det emb | Inl err \<Rightarrow> Reference_faces)
      else Reference_faces)"

datatype source_plan = Ffmpeg_source string int int int "string list" | Synthetic_source int

definition build_make_source :: "(string \<Rightarrow> string option) \<Rightarrow> camera_row \<Rightarrow> settings \<Rightarrow> string list \<Rightarrow> py_error + source_plan" where
  \<comment> \<open>what the returned closure constructs: URL, width, height, rate, allow-list\<close>
  "build_make_source decrypt c st allowlist =
     (case ca_substream_enc c of
        None \<Rightarrow> Inr (Synthetic_source (se_ai_inference_fps st))
      | Some u \<Rightarrow>
          if u = [] then Inr (Synthetic_source (se_ai_inference_fps st))
          else (case decrypt u of
                  None \<Rightarrow> Inl CryptoError
                | Some plain \<Rightarrow> Inr (Ffmpeg_source plain 640 360 (se_ai_inference_fps st) allowlist)))"

definition json_items :: "json option \<Rightarrow> py_error + json list" where
  \<comment> \<open>iterating over \<open>value or []\<close>\<close>
  "json_items x =
     (case x of
        None \<Rightarrow> Inr []
      | Some j \<Rightarrow>
          if \<not> json_truthy j then Inr []
          else (case j of
                  JList js \<Rightarrow> Inr js
                | JObj kvs \<Rightarrow> Inr (map (\<lambda>(k, _). JStr k) kvs)
                | JStr s \<Rightarrow> Inr (map (\<lambda>ch. JStr [ch]) s)
                | _ \<Rightarrow> Inl TypeError))"

definition camera_engine :: "settings \<Rightarrow> string \<Rightarrow> camera_row \<Rightarrow> py_error + engine option" where
  "camera_engine st cid c =
     (if se_ai_rules st
      then bind_ok (json_items (ca_rules c)) (\<lambda>js. bind_ok (rule_engine_from_json cid (Some js)) (\<lambda>e. Inr (Some e)))
      else Inr None)"

definition camera_pipeline :: "settings \<Rightarrow> string \<Rightarrow> string \<Rightarrow> camera_row \<Rightarrow> engine option \<Rightarrow> py_error + pipeline" where
  \<comment> \<open>the embedder's model version, the camera's id\<close>
  "camera_pipeline st version cid c engine =
     bind_ok (json_items (ca_masks c)) (\<lambda>masks.
       new_pipeline cid (new_tracker (se_ai_iou st) 30 (1/2)) True (Some (se_ai_similarity st)) (se_ai_confidence st) 10
         (se_ai_recognize_interval st) version (se_ai_identity st) engine (se_ai_anpr st) masks (se_ai_motion_gate st))"

definition camera_recorder :: "(string \<Rightarrow> string option) \<Rightarrow> settings \<Rightarrow> string \<Rightarrow> string \<Rightarrow> camera_row \<Rightarrow> py_error + (string \<times> recorder) option" where
  \<comment> \<open>with the main stream's URL\<close>
  "camera_recorder decrypt st tmp_root cid c =
     (case ca_stream_enc c of
        None \<Rightarrow> Inr None
      | Some u \<Rightarrow>
          if \<not> se_record_enabled st \<or> u = [] then Inr None
          else (case decrypt u of
                  None \<Rightarrow> Inl CryptoError
                | Some plain \<Rightarrow>
                    Inr (Some (plain, new_recorder cid (se_record_segment_seconds st) (ssrf_allowlist_cidrs st) tmp_root))))"

datatype camera_start =
    Not_started  \<comment> \<open>logged: the detector could not be loaded\<close>
  | Died py_error  \<comment> \<open>an exception ended the thread\<close>
  | Running face_models pipeline "(string \<times> recorder) option"

definition start_camera ::
  "(string \<Rightarrow> string option) \<Rightarrow> (string \<Rightarrow> string option) \<Rightarrow> settings \<Rightarrow> registry \<Rightarrow> string \<Rightarrow> string \<Rightarrow> string \<Rightarrow> camera_row \<Rightarrow> camera_start" where
  \<comment> \<open>digest of a file, cipher, settings, registry, model version, scratch directory, camera\<close>
  "start_camera digest decrypt st ms version tmp_root cid c =
     (case make_detector digest st ms of
        Inl err \<Rightarrow> Not_started
      | Inr det \<Rightarrow>
          (case bind_ok (camera_engine st cid c) (\<lambda>engine.
                bind_ok (camera_pipeline st version cid c engine) (\<lambda>p.
                bind_ok (camera_recorder decrypt st tmp_root cid c) (\<lambda>r. Inr (p, r)))) of
             Inl err \<Rightarrow> Died err
           | Inr (p, r) \<Rightarrow> Running (make_face_chain digest st ms) p r))"

section \<open>Status\<close>

definition camera_health :: "string \<Rightarrow> string" where
  "camera_health st =
     (if st = ''ONLINE'' then ''streaming'' else if st = ''RECONNECTING'' then ''unstable''
      else if st = ''OFFLINE'' then ''unreachable'' else lower st)"

definition persist_camera_status :: "timestamp \<Rightarrow> string \<Rightarrow> string \<Rightarrow> db \<Rightarrow> db" where
  "persist_camera_status now cid st d =
     (case dict_get (db_cameras d) cid of
        None \<Rightarrow> d
      | Some c \<Rightarrow> d\<lparr>db_cameras := dict_set cid (c\<lparr>ca_status := st, ca_health := camera_health st,
            ca_last_seen := (if st = ''ONLINE'' then Some now else ca_last_seen c)\<rparr>) (db_cameras d)\<rparr>)"

definition heartbeat :: "timestamp \<Rightarrow> string \<Rightarrow> db \<Rightarrow> db" where
  "heartbeat now cid d =
     (case dict_get (db_cameras d) cid of
        None \<Rightarrow> d
      | Some c \<Rightarrow> if ca_status c = ''ONLINE'' then d\<lparr>db_cameras := dict_set cid (c\<lparr>ca_last_seen := Some now\<rparr>) (db_cameras d)\<rparr> else d)"

definition camera_label :: "string \<Rightarrow> string" where
  "camera_label cid = ''camera='' @ [CHR 0x22] @ cid @ [CHR 0x22]"

definition on_status :: "string \<Rightarrow> timestamp \<times> string \<Rightarrow> db \<times> metrics \<Rightarrow> db \<times> metrics" where
  "on_status cid = (\<lambda>(now, st) (d, m).
     (persist_camera_status now cid st d,
      set_gauge ''camera_status'' (if st = ''ONLINE'' then 1 else 0) (camera_label cid)
        (if st \<in> {''RECONNECTING'', ''DISCONNECTED'', ''OFFLINE''} then inc ''camera_disconnects_total'' 1 (camera_label cid) m else m)))"

section \<open>Alerts of a frame\<close>

definition alert_detail_keys :: "string list" where
  "alert_detail_keys = [''direction'', ''dwell_sec'', ''count'', ''zone'', ''stationary_sec'']"

definition safe_alert_detail :: "(string \<times> json) list \<Rightarrow> (string \<times> json) list" where
  "safe_alert_detail detail = List.map_filter (\<lambda>k. map_option (Pair k) (dict_get detail k)) alert_detail_keys"

definition alert_of_event :: "(json \<Rightarrow> string) \<Rightarrow> (timestamp \<Rightarrow> string) \<Rightarrow> event_row \<Rightarrow> alert" where
  \<comment> \<open>\<open>str\<close> of the detail and the ISO text of a moment are parameters\<close>
  "alert_of_event str_of iso_of x =
     \<lparr>al_rule_id = or_text (ev_track x) (ev_type x), al_rule_type = ev_type x, al_camera_id = ev_camera x, al_severity = ''info'',
      al_title = ev_type x, al_message = str_of (JObj (safe_alert_detail (ev_detail x))), al_detail = safe_alert_detail (ev_detail x),
      al_ts = Some (iso_of (ev_start x))\<rparr>"

section \<open>A frame\<close>

record worker =
  wk_pipeline :: pipeline
  wk_db :: db
  wk_next :: nat
  wk_metrics :: metrics
  wk_queue :: "alert list"
  wk_fps_window :: "real list"
  wk_last_ts :: "timestamp option"
  wk_heartbeat :: real

record 'f captured =
  cp_frame :: 'f
  cp_ts :: timestamp
  cp_time :: real  \<comment> \<open>\<open>time.time()\<close>, also read by the pipeline\<close>
  cp_now :: timestamp
  cp_latency_ms :: real

record ('f, 'c) worker_env =
  we_ai :: "('f, 'c) ai_env"
  we_str :: "json \<Rightarrow> string"
  we_iso :: "timestamp \<Rightarrow> string"
  we_broken :: "pipeline \<Rightarrow> pipeline"  \<comment> \<open>what an exception leaves of the pipeline\<close>

definition beat :: "string \<Rightarrow> 'f captured \<Rightarrow> worker \<Rightarrow> worker" where
  "beat cid x w =
     (if cp_time x - wk_heartbeat w > 30
      then w\<lparr>wk_db := heartbeat (cp_now x) cid (wk_db w), wk_heartbeat := cp_time x\<rparr> else w)"

definition raised_alerts :: "('f, 'c) worker_env \<Rightarrow> string list \<Rightarrow> db \<Rightarrow> alert list" where
  \<comment> \<open>of the rows the pipeline added for alerting\<close>
  "raised_alerts env ids d = List.map_filter (\<lambda>i. map_option (alert_of_event (we_str env) (we_iso env)) (dict_get (db_events d) i)) ids"

definition analyse :: "('f, 'c) worker_env \<Rightarrow> string \<Rightarrow> 'f captured \<Rightarrow> worker \<Rightarrow> worker" where
  "analyse env cid x w =
     (case process_frame (we_ai env) (cp_time x) (cp_frame x) (cp_ts x)
             (wk_pipeline w, \<lparr>ss_db = wk_db w, ss_next = wk_next w, ss_puts = []\<rparr>) of
        Inl err \<Rightarrow> w\<lparr>wk_pipeline := we_broken env (wk_pipeline w), wk_metrics := inc ''frames_dropped'' 1 (camera_label cid) (wk_metrics w)\<rparr>
      | Inr (p, s, ended) \<Rightarrow>
          (let m1 = inc ''frames_processed'' 1 (camera_label cid) (wk_metrics w);
               m2 = (if pc_last_analytic p \<noteq> []
                     then inc ''analytic_events_total'' (of_nat (length (pc_last_analytic p))) (camera_label cid) m1 else m1)
           in w\<lparr>wk_pipeline := p, wk_db := ss_db s, wk_next := ss_next s, wk_metrics := m2,
                wk_queue := wk_queue w @ raised_alerts env (pc_last_analytic p) (ss_db s)\<rparr>))"

definition add_rate :: "timestamp \<Rightarrow> worker \<Rightarrow> real list" where
  "add_rate ts w =
     (case wk_last_ts w of
        None \<Rightarrow> wk_fps_window w
      | Some t \<Rightarrow>
          (let delta = total_seconds (ts - t); rates = wk_fps_window w @ [1 / delta]
           in if 0 < delta then drop (length rates - 30) rates else wk_fps_window w))"

definition rate_changed :: "timestamp \<Rightarrow> worker \<Rightarrow> bool" where
  "rate_changed ts w \<longleftrightarrow> (case wk_last_ts w of None \<Rightarrow> False | Some t \<Rightarrow> 0 < total_seconds (ts - t))"

definition account :: "string \<Rightarrow> 'f captured \<Rightarrow> worker \<Rightarrow> worker" where
  \<comment> \<open>the \<open>finally\<close> block\<close>
  "account cid x w =
     (let m1 = observe ''pipeline_latency_ms'' (cp_latency_ms x) (camera_label cid) (wk_metrics w);
          rates = add_rate (cp_ts x) w;
          m2 = (if rate_changed (cp_ts x) w \<and> 5 \<le> length rates
                then set_gauge ''camera_fps'' (sum_list rates / of_nat (length rates)) (camera_label cid) m1 else m1)
      in w\<lparr>wk_metrics := m2, wk_fps_window := rates, wk_last_ts := Some (cp_ts x)\<rparr>)"

definition camera_frame :: "('f, 'c) worker_env \<Rightarrow> string \<Rightarrow> 'f captured \<Rightarrow> worker \<Rightarrow> worker" where
  "camera_frame env cid x w = account cid x (analyse env cid x (beat cid x w))"

definition new_worker :: "pipeline \<Rightarrow> db \<Rightarrow> nat \<Rightarrow> metrics \<Rightarrow> worker" where
  "new_worker p d n m =
     \<lparr>wk_pipeline = p, wk_db = d, wk_next = n, wk_metrics = m, wk_queue = [], wk_fps_window = [], wk_last_ts = None, wk_heartbeat = 0\<rparr>"

definition camera_loop :: "('f, 'c) worker_env \<Rightarrow> string \<Rightarrow> 'f captured list \<Rightarrow> worker \<Rightarrow> worker" where
  "camera_loop env cid xs w =
     (let w1 = fold (camera_frame env cid) xs w
      in w1\<lparr>wk_metrics := set_gauge ''camera_fps'' 0 (camera_label cid) (wk_metrics w1)\<rparr>)"

section \<open>Recording\<close>

record archive =
  ar_recorder :: recorder
  ar_files :: file_system
  ar_rows :: "(string, segment_row) dict"

definition record_round ::
  "(string \<Rightarrow> string list option) \<Rightarrow> (int \<Rightarrow> string) \<Rightarrow> string \<Rightarrow> nat \<Rightarrow> string \<Rightarrow>
   timestamp \<times> (string list \<Rightarrow> nat option) \<times> (nat \<Rightarrow> int option) \<times> (string \<Rightarrow> real option) \<times> (file_system \<Rightarrow> file_system) \<times> string \<Rightarrow>
   archive \<Rightarrow> archive" where
  \<comment> \<open>resolver, calendar, base directory, process id, URL; start, spawn, return code, probe, what the process does to the
    files, id of the row\<close>
  "record_round dns date_path base pid url = (\<lambda>(start, spawn, returncode, probe, writes, row) a.
     case record_url dns date_path spawn url start (ar_recorder a) of
       (Inl err, rc) \<Rightarrow> a\<lparr>ar_recorder := rc\<rparr>
     | (Inr _, rc) \<Rightarrow>
         (case finalize_last base pid returncode probe (rc, writes (ar_files a)) of
            (Inr (Some seg), rc1, fs1) \<Rightarrow> \<lparr>ar_recorder = rc1, ar_files = fs1, ar_rows = dict_set row seg (ar_rows a)\<rparr>
          | (r, rc1, fs1) \<Rightarrow> a\<lparr>ar_recorder := rc1, ar_files := fs1\<rparr>))"

definition record_loop where
  "record_loop dns date_path base pid url rounds a = fold (record_round dns date_path base pid url) rounds a"

section \<open>Stored analytics\<close>

definition event_keys :: "sess \<Rightarrow> string set" where
  "event_keys s = set (dict_keys (db_events (ss_db s)))"

lemma add_event_keys: "add_event env x s = (i, s1) \<Longrightarrow> event_keys s1 = insert i (event_keys s)"
  by (auto simp: add_event_def draw_id_def event_keys_def)

lemma add_analytics_keys:
  "add_analytics env cam aes s = (ids, s1) \<Longrightarrow> set ids \<subseteq> event_keys s1 \<and> event_keys s \<subseteq> event_keys s1"
proof (induction aes arbitrary: s ids s1)
  case (Cons ae aes)
  obtain i s2 where a: "add_event env (new_event cam (ae_track ae) None ''unknown'' (kind_value (ae_kind ae)) (ae_ts ae) (ae_ts ae)
      (ae_score ae) (ae_bbox ae) (detail_json (ae_detail ae))) s = (i, s2)" by fastforce
  obtain js s3 where b: "add_analytics env cam aes s2 = (js, s3)" by fastforce
  have "ids = i # js" "s3 = s1" using Cons.prems a b by simp_all
  then show ?case using Cons.IH [OF b] add_event_keys [OF a] by auto
qed simp

definition analytics_stored :: "pipeline \<times> sess \<Rightarrow> bool" where
  "analytics_stored ps \<longleftrightarrow> set (pc_last_analytic (fst ps)) \<subseteq> event_keys (snd ps)"

lemma run_rules_stored: "run_rules env ts tracks (p, s) = Inr ps \<Longrightarrow> analytics_stored ps"
  by (auto simp: run_rules_def analytics_stored_def dest!: add_analytics_keys [THEN conjunct1] split: option.splits if_splits sum.splits prod.splits)

lemma anpr_track_stored: "analytics_stored ps \<Longrightarrow> analytics_stored (anpr_track env frame ts tr ps)"
proof (cases "dict_get (pc_anpr_last (fst ps)) (tr_id tr)")
  case None
  assume "analytics_stored ps"
  then show ?thesis using None
    by (cases ps) (auto simp: anpr_track_def analytics_stored_def Let_def dest: add_event_keys split: option.splits prod.splits)
next
  case (Some prev)
  assume "analytics_stored ps"
  then show ?thesis using Some
    by (cases ps) (auto simp: anpr_track_def analytics_stored_def Let_def dest: add_event_keys split: option.splits prod.splits)
qed

lemma run_anpr_stored: "analytics_stored ps \<Longrightarrow> analytics_stored (run_anpr env frame ts tracks ps)"
proof -
  have "analytics_stored qs \<Longrightarrow> analytics_stored (fold (anpr_track env frame ts) tracks qs)" for qs
    by (induction tracks arbitrary: qs) (simp_all add: anpr_track_stored)
  then show "analytics_stored ps \<Longrightarrow> analytics_stored (run_anpr env frame ts tracks ps)" by (simp add: run_anpr_def)
qed

lemma see_tracks_analytic: "pc_last_analytic (fold (see_track env frame ts) tracks p) = pc_last_analytic p"
  by (induction tracks arbitrary: p) (simp_all add: see_track_def Let_def)

lemma sample_tracks_stored: "analytics_stored ps \<Longrightarrow> analytics_stored (fold (sample_track env ts) tracks ps)"
proof (induction tracks arbitrary: ps)
  case (Cons tr tracks)
  obtain p s where ps: "ps = (p, s)" by (cases ps)
  have "analytics_stored (sample_track env ts tr ps)"
    using Cons.prems by (simp add: ps sample_track_def analytics_stored_def event_keys_def draw_id_def Let_def)
  then show ?case using Cons.IH by simp
qed simp

lemma finalize_keys: "finalize env cam tid st s = (eid, s1) \<Longrightarrow> event_keys s \<subseteq> event_keys s1"
  by (auto simp: finalize_def event_keys_def draw_id_def Let_def)

lemma close_stale_stored:
  "analytics_stored (p, s) \<Longrightarrow> close_stale env ts entries (p, s) = (p', s', ids) \<Longrightarrow> analytics_stored (p', s')"
proof (induction entries arbitrary: p s p' s' ids)
  case (Cons e entries)
  obtain tid st where e: "e = (tid, st)" by (cases e)
  show ?case
  proof (cases "is_stale (pc_merge_gap p) ts st")
    case True
    obtain eid s1 where f: "finalize env (pc_camera p) tid st s = (eid, s1)" by fastforce
    obtain p2 s2 ended where c: "close_stale env ts entries (p\<lparr>pc_active := dict_del tid (pc_active p)\<rparr>, s1) = (p2, s2, ended)"
      by (metis prod_cases3)
    have "analytics_stored (p\<lparr>pc_active := dict_del tid (pc_active p)\<rparr>, s1)"
      using Cons.prems(1) finalize_keys [OF f] by (auto simp: analytics_stored_def)
    from Cons.IH [OF this c] show ?thesis using Cons.prems(2) True by (simp add: e f c)
  next
    case False
    then show ?thesis using Cons by (simp add: e)
  qed
qed simp

lemma process_frame_stored:
  assumes "process_frame env now frame ts (p, s) = Inr (p', s', ids)"
  shows "analytics_stored (p', s')"
proof -
  obtain tracks p1 where t: "track_frame env frame ts (begin_frame env now (ss_db s) p) = Inr (tracks, p1)"
    using assms by (auto simp: process_frame_def bind_ok_Inr Let_def)
  obtain ps2 where r: "run_rules env ts tracks (p1, s) = Inr ps2"
    using assms t by (auto simp: process_frame_def bind_ok_Inr Let_def)
  obtain p3 s3 where a: "run_anpr env frame ts tracks ps2 = (p3, s3)" by fastforce
  obtain p5 s5 where m: "fold (sample_track env ts) tracks (fold (see_track env frame ts) tracks p3, s3) = (p5, s5)" by fastforce
  obtain p7 s7 ended where c: "close_stale env ts (pc_active (drop_sampling tracks p5)) (drop_sampling tracks p5, s5) = (p7, s7, ended)"
    by (metis prod_cases3)
  have e: "p' = p7" "s' = upsert_tracks p7 s7" using assms t r a m c by (auto simp: process_frame_def Let_def)
  have "analytics_stored (p3, s3)" using run_anpr_stored [OF run_rules_stored [OF r]] a by metis
  then have "analytics_stored (fold (see_track env frame ts) tracks p3, s3)" by (simp add: analytics_stored_def see_tracks_analytic)
  then have "analytics_stored (p5, s5)" using sample_tracks_stored m by metis
  then have "analytics_stored (drop_sampling tracks p5, s5)" by (simp add: analytics_stored_def drop_sampling_def Let_def)
  from close_stale_stored [OF this c] show ?thesis
    by (simp add: e analytics_stored_def event_keys_def upsert_tracks_def)
qed

section \<open>What the worker reports\<close>

definition counter :: "metrics \<Rightarrow> string \<Rightarrow> string \<Rightarrow> real" where
  "counter m name labels = (case dict_get (mt_counters m) (name, labels) of None \<Rightarrow> 0 | Some x \<Rightarrow> x)"

definition gauge :: "metrics \<Rightarrow> string \<Rightarrow> string \<Rightarrow> real option" where
  "gauge m name labels = dict_get (mt_gauges m) (name, labels)"

lemma metric_simps [simp]:
  "counter (inc n x l m) n' l' = counter m n' l' + (if n' = n \<and> l' = l then x else 0)"
  "counter (set_gauge n x l m) n' l' = counter m n' l'" "counter (observe n x l m) n' l' = counter m n' l'"
  "gauge (set_gauge n x l m) n' l' = (if n' = n \<and> l' = l then Some x else gauge m n' l')"
  "gauge (observe n x l m) n' l' = (if n' = n \<and> l' = l then Some x else gauge m n' l')"
  "gauge (inc n x l m) n' l' = gauge m n' l'"
  "counter new_metrics n' l' = 0" "gauge new_metrics n' l' = None"
  by (auto simp: counter_def gauge_def inc_def set_gauge_def observe_def new_metrics_def split: option.splits)

definition alert_safe :: "('f, 'c) worker_env \<Rightarrow> alert \<Rightarrow> bool" where
  "alert_safe env a \<longleftrightarrow> set (map fst (al_detail a)) \<subseteq> set alert_detail_keys \<and> al_message a = we_str env (JObj (al_detail a)) \<and>
     al_title a = al_rule_type a"

lemma alert_of_event_safe: "alert_safe env (alert_of_event (we_str env) (we_iso env) x)"
  by (auto simp: alert_safe_def alert_of_event_def safe_alert_detail_def List.map_filter_def split: option.splits)

lemma raised_alerts_safe: "list_all (alert_safe env) (raised_alerts env ids d)"
  by (auto simp: raised_alerts_def list_all_iff List.map_filter_def alert_of_event_safe split: option.splits)

lemma raised_alerts_length: "set ids \<subseteq> set (dict_keys (db_events d)) \<Longrightarrow> length (raised_alerts env ids d) = length ids"
proof (induction ids)
  case (Cons i ids)
  then obtain x where "dict_get (db_events d) i = Some x"
    by (cases "dict_get (db_events d) i") (auto simp: dict_get_def dict_keys_def map_of_eq_None_iff)
  then show ?case using Cons by (simp add: raised_alerts_def List.map_filter_def)
qed (simp add: raised_alerts_def List.map_filter_def)

definition accounted :: "('f, 'c) worker_env \<Rightarrow> string \<Rightarrow> nat \<Rightarrow> worker \<Rightarrow> bool" where
  "accounted env cid n w \<longleftrightarrow>
     counter (wk_metrics w) ''frames_processed'' (camera_label cid) + counter (wk_metrics w) ''frames_dropped'' (camera_label cid) = of_nat n \<and>
     counter (wk_metrics w) ''analytic_events_total'' (camera_label cid) = of_nat (length (wk_queue w)) \<and>
     list_all (alert_safe env) (wk_queue w) \<and>
     length (wk_fps_window w) \<le> 30 \<and> list_all (\<lambda>r. 0 < r) (wk_fps_window w) \<and>
     (case gauge (wk_metrics w) ''camera_fps'' (camera_label cid) of None \<Rightarrow> True | Some f \<Rightarrow> 0 < f)"

lemma beat_accounted: "accounted env cid n w \<Longrightarrow> accounted env cid n (beat cid x w)"
  by (simp add: beat_def accounted_def)

lemma analyse_counts:
  assumes "accounted env cid n w"
  shows "accounted env cid (Suc n) (analyse env cid x w)"
proof (cases "process_frame (we_ai env) (cp_time x) (cp_frame x) (cp_ts x)
    (wk_pipeline w, \<lparr>ss_db = wk_db w, ss_next = wk_next w, ss_puts = []\<rparr>)")
  case (Inl err)
  then show ?thesis using assms by (simp add: analyse_def accounted_def)
next
  case (Inr r)
  obtain p s c where r: "r = (p, s, c)" by (metis prod_cases3)
  have "set (pc_last_analytic p) \<subseteq> set (dict_keys (db_events (ss_db s)))"
    using process_frame_stored [OF Inr [unfolded r]] by (simp add: analytics_stored_def event_keys_def)
  note l = raised_alerts_length [OF this, of env]
  show ?thesis
    using assms raised_alerts_safe [of env "pc_last_analytic p" "ss_db s"] l
    by (simp add: analyse_def Inr r accounted_def Let_def)
qed

lemma add_rate_ok:
  assumes "length (wk_fps_window w) \<le> 30" and "list_all (\<lambda>r. 0 < r) (wk_fps_window w)"
  shows "length (add_rate ts w) \<le> 30 \<and> list_all (\<lambda>r. 0 < r) (add_rate ts w)"
proof (cases "wk_last_ts w")
  case None
  then show ?thesis using assms by (simp add: add_rate_def)
next
  case (Some t)
  show ?thesis
  proof (cases "0 < total_seconds (ts - t)")
    case True
    let ?rates = "wk_fps_window w @ [1 / total_seconds (ts - t)]"
    have "list_all (\<lambda>r. 0 < r) ?rates" using assms True by simp
    then have "list_all (\<lambda>r. 0 < r) (drop k ?rates)" for k by (metis append_take_drop_id list_all_append)
    then show ?thesis using assms(1) True by (simp add: add_rate_def Some Let_def)
  next
    case False
    then show ?thesis using assms by (simp add: add_rate_def Some Let_def)
  qed
qed

lemma mean_positive: "list_all (\<lambda>r. 0 < r) rs \<Longrightarrow> rs \<noteq> [] \<Longrightarrow> 0 < sum_list rs / of_nat (length rs)" for rs :: "real list"
proof -
  assume a: "list_all (\<lambda>r. 0 < r) rs" and n: "rs \<noteq> []"
  have "0 < sum_list rs" using a n
  proof (induction rs)
    case (Cons r rs)
    then show ?case by (cases "rs = []") auto
  qed simp
  then show "0 < sum_list rs / of_nat (length rs)" using n by simp
qed

lemma account_accounted:
  assumes "accounted env cid n w"
  shows "accounted env cid n (account cid x w)"
proof -
  have r: "length (add_rate (cp_ts x) w) \<le> 30" "list_all (\<lambda>r. 0 < r) (add_rate (cp_ts x) w)"
    using add_rate_ok [of w "cp_ts x"] assms by (simp_all add: accounted_def)
  have "0 < sum_list (add_rate (cp_ts x) w) / of_nat (length (add_rate (cp_ts x) w))" if "5 \<le> length (add_rate (cp_ts x) w)"
    using mean_positive [OF r(2)] that by fastforce
  then show ?thesis using assms r by (simp add: accounted_def account_def Let_def)
qed


section \<open>Status reports\<close>

definition reported_ok :: "'f gateway \<Rightarrow> bool" where
  "reported_ok g \<longleftrightarrow> gw_status g = List.last (''OFFLINE'' # gw_reported g) \<and> distinct_adj (''OFFLINE'' # gw_reported g) \<and>
     set (gw_reported g) \<subseteq> {''ONLINE'', ''RECONNECTING'', ''OFFLINE''}"

lemma set_status_reported:
  assumes "reported_ok g" and "st \<in> {''ONLINE'', ''RECONNECTING'', ''OFFLINE''}"
  shows "reported_ok (set_status st g)"
proof (cases "st = gw_status g")
  case False
  let ?r = "''OFFLINE'' # gw_reported g"
  have r: "''OFFLINE'' # gw_reported (set_status st g) = ?r @ [st]" using False by (simp add: set_status_def)
  have "List.last ?r \<noteq> st" "distinct_adj ?r" using assms(1) False unfolding reported_ok_def by metis+
  then have "distinct_adj (?r @ [st])" unfolding distinct_adj_append_iff by simp
  moreover have "set (gw_reported (set_status st g)) \<subseteq> {''ONLINE'', ''RECONNECTING'', ''OFFLINE''}"
    using assms by (auto simp: set_status_def reported_ok_def)
  ultimately show ?thesis unfolding reported_ok_def r by simp
qed (use assms in \<open>simp add: set_status_def\<close>)

lemma reported_ok_fields:
  "reported_ok (retry_later j g) = reported_ok g" "reported_ok (g\<lparr>gw_done := b\<rparr>) = reported_ok g"
  "reported_ok (g\<lparr>gw_attempt := n\<rparr>) = reported_ok g" "reported_ok (g\<lparr>gw_yielded := fs\<rparr>) = reported_ok g"
  by (simp_all add: reported_ok_def)

lemma round_reported: "reported_ok g \<Longrightarrow> reported_ok (gateway_round r g)"
  by (cases r)
     (auto simp: gateway_round_def Let_def reported_ok_fields set_status_reported split: source_run.split)

lemma run_reported: "reported_ok (run_gateway rounds new_gateway)"
proof -
  have "reported_ok g \<Longrightarrow> reported_ok (fold gateway_round rounds g)" for g
    by (induction rounds arbitrary: g) (simp_all add: round_reported)
  then show ?thesis unfolding run_gateway_def by (simp add: reported_ok_def new_gateway_def)
qed

lemma no_source_silent: "list_all (\<lambda>(j, r). r = No_source) rounds \<Longrightarrow> gw_reported (run_gateway rounds new_gateway) = []"
proof -
  have "gw_status g = ''OFFLINE'' \<Longrightarrow> gw_reported g = [] \<Longrightarrow> list_all (\<lambda>(j, r). r = No_source) rounds \<Longrightarrow>
      gw_reported (fold gateway_round rounds g) = []" for g
  proof (induction rounds arbitrary: g)
    case (Cons r rounds)
    have "gw_status (gateway_round r g) = ''OFFLINE'' \<and> gw_reported (gateway_round r g) = []"
      using Cons.prems by (cases r) (simp add: gateway_round_def Let_def set_status_def)
    then show ?case using Cons by simp
  qed simp
  then show "list_all (\<lambda>(j, r). r = No_source) rounds \<Longrightarrow> ?thesis" by (simp add: run_gateway_def new_gateway_def)
qed

definition shown_status :: "string \<Rightarrow> camera_row \<Rightarrow> (timestamp \<times> string) list \<Rightarrow> db \<Rightarrow> metrics \<Rightarrow> bool" where
  "shown_status cid c calls d m \<longleftrightarrow>
     (let sts = map snd calls; seen = filter (\<lambda>(now, st). st = ''ONLINE'') calls in
      counter m ''camera_disconnects_total'' (camera_label cid) = of_nat (length (filter (\<lambda>st. st \<noteq> ''ONLINE'') sts)) \<and>
      (if calls = [] then dict_get (db_cameras d) cid = Some c \<and> gauge m ''camera_status'' (camera_label cid) = None
       else (\<exists>c'. dict_get (db_cameras d) cid = Some c' \<and> ca_status c' = List.last sts \<and> ca_health c' = camera_health (List.last sts) \<and>
               ca_last_seen c' = (if seen = [] then ca_last_seen c else Some (fst (List.last seen)))) \<and>
            gauge m ''camera_status'' (camera_label cid) = Some (if List.last sts = ''ONLINE'' then 1 else 0)))"

lemma shown_status_step:
  assumes "shown_status cid c calls d m" and "st \<in> {''ONLINE'', ''RECONNECTING'', ''OFFLINE''}"
    and "on_status cid (now, st) (d, m) = (d', m')"
  shows "shown_status cid c (calls @ [(now, st)]) d' m'"
proof -
  obtain c0 where c0: "dict_get (db_cameras d) cid = Some c0"
    "ca_last_seen c0 = (if filter (\<lambda>(now, st). st = ''ONLINE'') calls = [] then ca_last_seen c
       else Some (fst (List.last (filter (\<lambda>(now, st). st = ''ONLINE'') calls))))"
    using assms(1) by (auto simp: shown_status_def Let_def split: if_splits)
  have k: "counter m ''camera_disconnects_total'' (camera_label cid) = of_nat (length (filter (\<lambda>st. st \<noteq> ''ONLINE'') (map snd calls)))"
    using assms(1) unfolding shown_status_def Let_def by blast
  let ?c = "c0\<lparr>ca_status := st, ca_health := camera_health st, ca_last_seen := (if st = ''ONLINE'' then Some now else ca_last_seen c0)\<rparr>"
  have d': "dict_get (db_cameras d') cid = Some ?c" using assms(3) c0(1) by (auto simp: on_status_def persist_camera_status_def)
  have m': "counter m' ''camera_disconnects_total'' (camera_label cid) =
      counter m ''camera_disconnects_total'' (camera_label cid) + (if st = ''ONLINE'' then 0 else 1)"
    "gauge m' ''camera_status'' (camera_label cid) = Some (if st = ''ONLINE'' then 1 else 0)"
    using assms(2,3) by (auto simp: on_status_def)
  show ?thesis using d' m' k c0(2) by (auto simp: shown_status_def Let_def)
qed

text \<open>
  C17. The dashboard follows the gateway: after any rounds, and however its reports are timed, the stored status and health
  of the camera and its status gauge are those of the gateway's present status, the last sighting
  is the moment of the last \<open>ONLINE\<close> report, and the counter has one disconnect for each
  report of another status. But a gateway starts out \<open>OFFLINE\<close> without saying so: when the
  source never can be built, nothing is reported and the row keeps whatever status an
  earlier run left in it.
\<close>

theorem camera_status_follows:
  assumes "map snd calls = gw_reported (run_gateway rounds new_gateway)" and "dict_get (db_cameras d) cid = Some c"
    and "fold (on_status cid) calls (d, new_metrics) = (d', m')"
  shows "shown_status cid c calls d' m' \<and> gw_status (run_gateway rounds new_gateway) = List.last (''OFFLINE'' # map snd calls) \<and>
    distinct_adj (''OFFLINE'' # map snd calls) \<and>
    (list_all (\<lambda>(j, r). r = No_source) rounds \<longrightarrow> d' = d \<and> calls = [])"
proof -
  note ok = run_reported [of rounds, unfolded reported_ok_def, folded assms(1)]
  have "set (map snd calls) \<subseteq> {''ONLINE'', ''RECONNECTING'', ''OFFLINE''} \<Longrightarrow>
      case fold (on_status cid) calls (d, new_metrics) of (d', m') \<Rightarrow> shown_status cid c calls d' m'"
  proof (induction calls rule: rev_induct)
    case Nil
    then show ?case using assms(2) by (simp add: shown_status_def)
  next
    case (snoc r calls)
    obtain now st where r: "r = (now, st)" by (cases r)
    obtain d1 m1 where f: "fold (on_status cid) calls (d, new_metrics) = (d1, m1)" by fastforce
    obtain d2 m2 where g: "on_status cid (now, st) (d1, m1) = (d2, m2)" by fastforce
    have "shown_status cid c calls d1 m1" using snoc f by simp
    from shown_status_step [OF this _ g] show ?case using snoc.prems by (simp add: r f g)
  qed
  then have "shown_status cid c calls d' m'" using ok assms(3) by simp
  moreover have "d' = d \<and> calls = []" if "list_all (\<lambda>(j, r). r = No_source) rounds"
    using no_source_silent [OF that] assms(1,3) by simp
  ultimately show ?thesis using ok by blast
qed

theorem camera_status_follows_witness:
  "\<exists>d' m' c'. fold (on_status ''c'') [(1, ''ONLINE''), (2, ''RECONNECTING'')] (week_db, new_metrics) = (d', m') \<and>
     dict_get (db_cameras d') ''c'' = Some c' \<and> ca_status c' = ''RECONNECTING'' \<and> ca_last_seen c' = Some 1 \<and>
     counter m' ''camera_disconnects_total'' (camera_label ''c'') = 1"
proof -
  let ?rounds = "[(0, Frames [] False)] :: (real \<times> nat source_run) list"
  have r: "map snd [(1, ''ONLINE''), (2, ''RECONNECTING'')] = gw_reported (run_gateway ?rounds new_gateway)"
    by (simp add: run_gateway_def gateway_round_def new_gateway_def set_status_def retry_later_def Let_def max_failures_def)
  have c: "dict_get (db_cameras week_db) ''c'' = Some kept_camera" by (simp add: week_db_def dict_get_def)
  obtain d' m' where f: "fold (on_status ''c'') [(1, ''ONLINE''), (2, ''RECONNECTING'')] (week_db, new_metrics) = (d', m')" by fastforce
  have "shown_status ''c'' kept_camera [(1, ''ONLINE''), (2, ''RECONNECTING'')] d' m'"
    using camera_status_follows [OF r c f] by blast
  then show ?thesis using f by (auto simp: shown_status_def)
qed

end
