(* ===== verification/Live.thy ===== *)
theory Live
  imports Cameras
begin

text \<open>
  \<open>apps/api/routers/live.py\<close>: the transcodes behind the live view, the reaper that stops
  them, and the tickets. A process is a number; the operating system is the list of the running ones.
  Requests run in threads, and starting a stream takes the lock twice: it is split into its
  atomic parts, of which \<open>start_stream\<close> is the undisturbed sequence and the step relation
  below every interleaving. The configuration is read from the environment.
\<close>

section \<open>Streams\<close>

definition live_idle_timeout :: int where "live_idle_timeout = 300"

definition live_max_duration :: int where "live_max_duration = 14400"

record live_stream =
  ls_proc :: nat
  ls_started :: timestamp
  ls_probe :: timestamp

record live =
  lv_streams :: "(string, live_stream) dict"
  lv_running :: "nat list"

definition no_live :: live where
  "no_live = \<lparr>lv_streams = [], lv_running = []\<rparr>"

definition new_stream :: "nat \<Rightarrow> timestamp \<Rightarrow> live_stream" where
  "new_stream proc now = \<lparr>ls_proc = proc, ls_started = now, ls_probe = now\<rparr>"

definition terminate_and_reap :: "nat \<Rightarrow> live \<Rightarrow> live" where
  "terminate_and_reap proc l = l\<lparr>lv_running := filter (\<lambda>p. p \<noteq> proc) (lv_running l)\<rparr>"

definition terminate_all :: "nat list \<Rightarrow> live \<Rightarrow> live" where
  "terminate_all procs l = fold terminate_and_reap procs l"

section \<open>Starting\<close>

definition check_stream :: "string \<Rightarrow> timestamp \<Rightarrow> live \<Rightarrow> bool \<times> live" where
  \<comment> \<open>the first locked region: whether a running transcode is reused\<close>
  "check_stream cid now l =
     (case dict_get (lv_streams l) cid of
        None \<Rightarrow> (False, l)
      | Some s \<Rightarrow>
          if ls_proc s \<in> set (lv_running l)
          then (True, l\<lparr>lv_streams := dict_set cid (s\<lparr>ls_probe := now\<rparr>) (lv_streams l)\<rparr>)
          else (False, terminate_and_reap (ls_proc s) (l\<lparr>lv_streams := dict_del cid (lv_streams l)\<rparr>)))"

definition transcode_args :: "string \<Rightarrow> string \<Rightarrow> string list" where
  "transcode_args out_dir url =
     [''ffmpeg'', ''-hide_banner'', ''-loglevel'', ''error'', ''-nostdin'', ''-rtsp_transport'', ''tcp'', ''-i'', url,
      ''-an'', ''-c:v'', ''libx264'', ''-preset'', ''veryfast'', ''-pix_fmt'', ''yuv420p'',
      ''-f'', ''hls'', ''-hls_time'', ''2'', ''-hls_list_size'', ''10'', ''-hls_flags'', ''delete_segments'',
      ''-hls_segment_filename'', out_dir @ ''/%05d.ts'', out_dir @ ''/index.m3u8'']"

definition launch :: "nat \<Rightarrow> live \<Rightarrow> live" where
  "launch proc l = l\<lparr>lv_running := proc # lv_running l\<rparr>"

definition register_stream :: "string \<Rightarrow> nat \<Rightarrow> timestamp \<Rightarrow> live \<Rightarrow> live" where
  \<comment> \<open>the second locked region\<close>
  "register_stream cid proc now l = l\<lparr>lv_streams := dict_set cid (new_stream proc now) (lv_streams l)\<rparr>"

definition start_stream ::
  "(string \<Rightarrow> string list option) \<Rightarrow> settings \<Rightarrow> string \<Rightarrow> (string list \<Rightarrow> nat option) \<Rightarrow> timestamp \<Rightarrow> string \<Rightarrow> string \<Rightarrow> live \<Rightarrow>
   (http_error + string) \<times> live" where
  \<comment> \<open>resolver, settings, media directory, spawn, clock, camera, URL\<close>
  "start_stream dns st live_dir spawn now cid url l =
     (case validate_egress_url dns (ssrf_allowlist_cidrs st) [] url of
        Inl err \<Rightarrow> (Inl (Http 400), l)
      | Inr _ \<Rightarrow>
          (let out_dir = live_dir @ ''/'' @ cid; (reused, l1) = check_stream cid now l in
           if reused then (Inr out_dir, l1)
           else (case spawn (transcode_args out_dir url) of
                   None \<Rightarrow> (Inl (Http 503), l1)
                 | Some proc \<Rightarrow> (Inr out_dir, register_stream cid proc now (launch proc l1)))))"

section \<open>Stopping\<close>

definition is_idle :: "timestamp \<Rightarrow> live_stream \<Rightarrow> bool" where
  "is_idle now s \<longleftrightarrow> of_int live_idle_timeout < total_seconds (now - ls_probe s)"

definition is_old :: "timestamp \<Rightarrow> live_stream \<Rightarrow> bool" where
  "is_old now s \<longleftrightarrow> of_int live_max_duration < total_seconds (now - ls_started s)"

definition reap_streams :: "timestamp \<Rightarrow> live \<Rightarrow> live" where
  \<comment> \<open>a round of the reaper\<close>
  "reap_streams now l =
     (let stale = filter (\<lambda>(cid, s). is_idle now s \<or> is_old now s) (lv_streams l)
      in terminate_all (map (\<lambda>(cid, s). ls_proc s) stale)
           (l\<lparr>lv_streams := fold dict_del (map fst stale) (lv_streams l)\<rparr>))"

definition ensure_reaper :: "bool \<Rightarrow> bool \<times> nat" where
  \<comment> \<open>whether it has been started: the flag afterwards, and the threads this call starts\<close>
  "ensure_reaper started = (if started then (True, 0) else (True, 1))"

definition reap_loop :: "timestamp \<Rightarrow> nat \<Rightarrow> live \<Rightarrow> live" where
  \<comment> \<open>the thread's rounds when nothing else happens: it waits for the timeout before each\<close>
  "reap_loop start n l = fold (\<lambda>i. reap_streams (start + (int i + 1) * live_idle_timeout * 1000000)) [0..<n] l"

definition stop_stream :: "string \<Rightarrow> live \<Rightarrow> bool \<times> live" where
  "stop_stream cid l =
     (case dict_get (lv_streams l) cid of
        None \<Rightarrow> (False, l)
      | Some s \<Rightarrow> (True, terminate_and_reap (ls_proc s) (l\<lparr>lv_streams := dict_del cid (lv_streams l)\<rparr>)))"

definition shutdown_live_streams :: "live \<Rightarrow> live" where
  "shutdown_live_streams l = terminate_all (map (\<lambda>(cid, s). ls_proc s) (lv_streams l)) (l\<lparr>lv_streams := []\<rparr>)"

definition live_streams :: "timestamp \<Rightarrow> live \<Rightarrow> (string \<times> nat \<times> int) list" where
  "live_streams now l =
     map (\<lambda>(cid, s). (cid, ls_proc s, py_trunc (total_seconds (now - ls_probe s))))
       (filter (\<lambda>(cid, s). ls_proc s \<in> set (lv_running l)) (lv_streams l))"

section \<open>Tickets\<close>

record ticket_env =
  te_encrypt :: "json \<Rightarrow> string"
  te_decrypt :: "string \<Rightarrow> json option"
  te_iso :: "timestamp \<Rightarrow> string"
  te_parse :: "string \<Rightarrow> timestamp option"  \<comment> \<open>\<open>fromisoformat\<close>\<close>

definition ticket_claims :: "ticket_env \<Rightarrow> string \<Rightarrow> timestamp \<Rightarrow> json" where
  "ticket_claims te cid ex = JObj [(''camera_id'', JStr cid), (''exp'', JStr (te_iso te ex))]"

definition issue_ticket :: "ticket_env \<Rightarrow> timestamp \<Rightarrow> string \<Rightarrow> int \<Rightarrow> app \<Rightarrow> (string \<times> timestamp) outcome" where
  \<comment> \<open>the audit record is written but never committed\<close>
  "issue_ticket te now cid ttl_sec a =
     (if cid \<notin> set (dict_keys (db_cameras (ap_db a))) then (Inl (Http 404), a)
      else (let ex = now + max 30 (min ttl_sec 3600) * 1000000 in (Inr (te_encrypt te (ticket_claims te cid ex), ex), a)))"

definition ticket_valid :: "ticket_env \<Rightarrow> timestamp \<Rightarrow> string \<Rightarrow> string \<Rightarrow> http_error + unit" where
  "ticket_valid te now cid ticket =
     (case te_decrypt te ticket of
        None \<Rightarrow> Inl (Http 401)
      | Some (JObj kvs) \<Rightarrow>
          if field kvs ''camera_id'' \<noteq> Some (JStr cid) then Inl (Http 403)
          else (case field kvs ''exp'' of
                  None \<Rightarrow> Inl (Crash KeyError)
                | Some (JStr s) \<Rightarrow>
                    (case te_parse te s of
                       None \<Rightarrow> Inl (Crash ValueError)
                     | Some ex \<Rightarrow> if ex < now then Inl (Http 401) else Inr ())
                | Some _ \<Rightarrow> Inl (Crash TypeError))
      | Some _ \<Rightarrow> Inl (Crash AttributeError))"

definition play ::
  "api_env \<Rightarrow> ticket_env \<Rightarrow> (string \<Rightarrow> string list option) \<Rightarrow> settings \<Rightarrow> string \<Rightarrow> (string list \<Rightarrow> nat option) \<Rightarrow> timestamp \<Rightarrow>
   string \<Rightarrow> string \<Rightarrow> app \<Rightarrow> live \<Rightarrow> (http_error + string) \<times> live" where
  "play env te dns st live_dir spawn now cid ticket a l =
     (case dict_get (db_cameras (ap_db a)) cid of
        None \<Rightarrow> (Inl (Http 404), l)
      | Some c \<Rightarrow>
          (case ticket_valid te now cid ticket of
             Inl err \<Rightarrow> (Inl err, l)
           | Inr _ \<Rightarrow>
               (let manifest = ''/live-media/'' @ cid @ ''/index.m3u8'' in
                case ca_substream_enc c of
                  None \<Rightarrow> (Inr manifest, l)
                | Some enc \<Rightarrow>
                    if enc = [] then (Inr manifest, l)
                    else (case ae_decrypt env enc of
                            None \<Rightarrow> (Inl (Crash CryptoError), l)
                          | Some url \<Rightarrow>
                              (case start_stream dns st live_dir spawn now cid url l of
                                 (Inl err, l1) \<Rightarrow> (Inl err, l1) | (Inr _, l1) \<Rightarrow> (Inr manifest, l1))))))"

section \<open>Interleavings\<close>

text \<open>
  A request that has found no transcode to reuse is \<open>Looking\<close>, one that has launched a process
  and not entered it yet \<open>Holding\<close>.
\<close>

datatype starter = Looking string | Holding string nat

record live_sys =
  sy_live :: live
  sy_starters :: "starter list"

definition idle_system :: "live_sys \<Rightarrow> bool" where
  "idle_system s \<longleftrightarrow> s = \<lparr>sy_live = no_live, sy_starters = []\<rparr>"

definition starts_camera :: "string \<Rightarrow> starter \<Rightarrow> bool" where
  "starts_camera cid x \<longleftrightarrow> (case x of Looking c \<Rightarrow> c = cid | Holding c _ \<Rightarrow> c = cid)"

definition held :: "starter list \<Rightarrow> nat list" where
  "held xs = List.map_filter (\<lambda>x. case x of Looking _ \<Rightarrow> None | Holding _ p \<Rightarrow> Some p) xs"

inductive live_step :: "bool \<Rightarrow> live_sys \<Rightarrow> live_sys \<Rightarrow> bool" for serial :: bool where
  look: "check_stream cid now (sy_live s) = (reused, l) \<Longrightarrow> \<not> serial \<or> list_all (\<lambda>x. \<not> starts_camera cid x) (sy_starters s) \<Longrightarrow>
    live_step serial s \<lparr>sy_live = l, sy_starters = (if reused then [] else [Looking cid]) @ sy_starters s\<rparr>"
| spawn: "sy_starters s = xs @ Looking cid # ys \<Longrightarrow> p \<notin> set (lv_running (sy_live s)) \<Longrightarrow>
    p \<notin> set (map (\<lambda>(c, t). ls_proc t) (lv_streams (sy_live s))) \<Longrightarrow> p \<notin> set (held (sy_starters s)) \<Longrightarrow>
    live_step serial s \<lparr>sy_live = launch p (sy_live s), sy_starters = xs @ Holding cid p # ys\<rparr>"
| fail: "sy_starters s = xs @ Looking cid # ys \<Longrightarrow> live_step serial s (s\<lparr>sy_starters := xs @ ys\<rparr>)"
| register: "sy_starters s = xs @ Holding cid p # ys \<Longrightarrow>
    live_step serial s \<lparr>sy_live = register_stream cid p now (sy_live s), sy_starters = xs @ ys\<rparr>"
| stop: "live_step serial s (s\<lparr>sy_live := snd (stop_stream cid (sy_live s))\<rparr>)"
| reap: "live_step serial s (s\<lparr>sy_live := reap_streams now (sy_live s)\<rparr>)"
| quit: "live_step serial s (s\<lparr>sy_live := terminate_and_reap p (sy_live s)\<rparr>)"

section \<open>No process is lost\<close>

definition stream_procs :: "live \<Rightarrow> nat set" where
  "stream_procs l = (\<lambda>(c, s). ls_proc s) ` set (lv_streams l)"

lemma terminate_running [simp]: "set (lv_running (terminate_and_reap p l)) = set (lv_running l) - {p}"
  "lv_streams (terminate_and_reap p l) = lv_streams l"
  by (auto simp: terminate_and_reap_def)

lemma terminate_all_running [simp]: "set (lv_running (terminate_all ps l)) = set (lv_running l) - set ps"
  "lv_streams (terminate_all ps l) = lv_streams l"
proof -
  show "set (lv_running (terminate_all ps l)) = set (lv_running l) - set ps"
    by (induction ps arbitrary: l) (auto simp: terminate_all_def)
  show "lv_streams (terminate_all ps l) = lv_streams l"
    by (induction ps arbitrary: l) (auto simp: terminate_all_def)
qed

lemma held_simps [simp]: "held [] = []" "held (Looking c # xs) = held xs" "held (Holding c p # xs) = p # held xs"
  "held (xs @ ys) = held xs @ held ys"
  by (simp_all add: held_def List.map_filter_def)

lemma dict_del_filter: "dict_del k d = filter (\<lambda>(k', v). k' \<noteq> k) d"
  by (auto simp: dict_del_def AList.delete_eq intro!: filter_cong)

lemma procs_running [simp]: "stream_procs (l\<lparr>lv_running := r\<rparr>) = stream_procs l"
  by (simp add: stream_procs_def)

lemma fold_dict_del: "fold dict_del ks d = filter (\<lambda>(k, v). k \<notin> set ks) d"
  by (induction ks arbitrary: d) (auto simp: dict_del_filter filter_filter case_prod_unfold intro: filter_cong)

lemma dict_ok_unique: "dict_ok d \<Longrightarrow> (k, v) \<in> set d \<Longrightarrow> (k, w) \<in> set d \<Longrightarrow> v = w"
  by (metis dict_get_in option.inject)

lemma filter_out_keys:
  assumes "dict_ok d"
  shows "filter (\<lambda>(k, v). k \<notin> set (map fst (filter (\<lambda>(k, v). Q v) d))) d = filter (\<lambda>(k, v). \<not> Q v) d"
proof (rule filter_cong [OF refl])
  fix e assume e: "e \<in> set d"
  obtain k v where kv: "e = (k, v)" by (cases e)
  have "k \<in> set (map fst (filter (\<lambda>(k, v). Q v) d)) \<longleftrightarrow> Q v"
  proof
    assume "k \<in> set (map fst (filter (\<lambda>(k, v). Q v) d))"
    then have "\<exists>x \<in> set (filter (\<lambda>(k, v). Q v) d). k = fst x" by (simp only: set_map image_iff)
    then obtain x where x: "x \<in> set (filter (\<lambda>(k, v). Q v) d)" "k = fst x" by (elim bexE)
    obtain k' w where kw: "x = (k', w)" by (cases x)
    have w: "(k, w) \<in> set d" "Q w" using x by (simp_all add: kw)
    have "w = v" by (rule dict_ok_unique [OF assms w(1)]) (use e kv in simp)
    with w(2) show "Q v" by simp
  next
    assume "Q v"
    then show "k \<in> set (map fst (filter (\<lambda>(k, v). Q v) d))" using e kv by force
  qed
  then show "(case e of (k, v) \<Rightarrow> k \<notin> set (map fst (filter (\<lambda>(k, v). Q v) d))) = (case e of (k, v) \<Rightarrow> \<not> Q v)" by (simp add: kv)
qed

lemma procs_del: "dict_ok (lv_streams l) \<Longrightarrow> dict_get (lv_streams l) cid = Some s \<Longrightarrow>
    stream_procs l \<subseteq> insert (ls_proc s) (stream_procs (l\<lparr>lv_streams := dict_del cid (lv_streams l)\<rparr>))"
  by (force simp: stream_procs_def dict_del_filter dest: dict_get_SomeD dict_ok_unique)

lemma procs_set_new: "cid \<notin> set (dict_keys (lv_streams l)) \<Longrightarrow> stream_procs (register_stream cid p now l) = insert p (stream_procs l)"
  by (force simp: stream_procs_def register_stream_def dict_set_fresh new_stream_def)

lemma procs_probe:
  assumes "dict_ok (lv_streams l)" and "dict_get (lv_streams l) cid = Some s"
  shows "stream_procs l \<subseteq> stream_procs (l\<lparr>lv_streams := dict_set cid (s\<lparr>ls_probe := now\<rparr>) (lv_streams l)\<rparr>)"
proof
  fix p assume "p \<in> stream_procs l"
  then obtain c t where c: "(c, t) \<in> set (lv_streams l)" "p = ls_proc t" by (auto simp: stream_procs_def)
  let ?d = "dict_set cid (s\<lparr>ls_probe := now\<rparr>) (lv_streams l)"
  have ok: "dict_ok ?d" using assms(1) by simp
  have "dict_get (lv_streams l) c = Some t" using c(1) assms(1) by (simp add: dict_get_in)
  then have "dict_get ?d c = Some (if c = cid then s\<lparr>ls_probe := now\<rparr> else t)" by simp
  then have "(c, if c = cid then s\<lparr>ls_probe := now\<rparr> else t) \<in> set ?d" by (rule dict_get_SomeD)
  moreover have "p = ls_proc (if c = cid then s\<lparr>ls_probe := now\<rparr> else t)"
    using c assms \<open>dict_get (lv_streams l) c = Some t\<close> by auto
  ultimately show "p \<in> stream_procs (l\<lparr>lv_streams := ?d\<rparr>)" unfolding stream_procs_def by force
qed

definition tracked :: "live_sys \<Rightarrow> bool" where
  "tracked s \<longleftrightarrow> dict_ok (lv_streams (sy_live s)) \<and>
     set (lv_running (sy_live s)) \<subseteq> stream_procs (sy_live s) \<union> set (held (sy_starters s)) \<and>
     (\<forall>cid. list_ex (starts_camera cid) (sy_starters s) \<longrightarrow> cid \<notin> set (dict_keys (lv_streams (sy_live s)))) \<and>
     sorted_wrt (\<lambda>x y. \<forall>cid. starts_camera cid x \<longrightarrow> \<not> starts_camera cid y) (sy_starters s)"

lemma starts_simps [simp]: "starts_camera cid (Looking c) = (c = cid)" "starts_camera cid (Holding c p) = (c = cid)"
  by (simp_all add: starts_camera_def)

lemma check_stream_tracked:
  assumes "dict_ok (lv_streams l)" and "set (lv_running l) \<subseteq> stream_procs l \<union> H" and "check_stream cid now l = (reused, l')"
  shows "dict_ok (lv_streams l') \<and> set (lv_running l') \<subseteq> stream_procs l' \<union> H \<and>
    set (dict_keys (lv_streams l')) \<subseteq> set (dict_keys (lv_streams l)) \<and> (\<not> reused \<longrightarrow> cid \<notin> set (dict_keys (lv_streams l')))"
proof (cases "dict_get (lv_streams l) cid")
  case None
  then have "cid \<notin> set (dict_keys (lv_streams l))" using dict_get_iff_keys by metis
  then show ?thesis
    using assms None by (simp add: check_stream_def)
next
  case (Some s)
  then have k: "cid \<in> set (dict_keys (lv_streams l))" using dict_get_iff_keys [of "lv_streams l" cid] by simp
  show ?thesis
  proof (cases "ls_proc s \<in> set (lv_running l)")
    case True
    then have l': "reused" "l' = l\<lparr>lv_streams := dict_set cid (s\<lparr>ls_probe := now\<rparr>) (lv_streams l)\<rparr>"
      using assms(3) Some by (simp_all add: check_stream_def)
    have r: "lv_running l' = lv_running l" by (simp add: l')
    show ?thesis using procs_probe [OF assms(1) Some, of now, folded l'(2)] assms(1,2) l'(1) k unfolding r by (auto simp: l'(2))
  next
    case False
    let ?l = "l\<lparr>lv_streams := dict_del cid (lv_streams l)\<rparr>"
    have l': "l' = terminate_and_reap (ls_proc s) ?l" using assms(3) Some False by (simp add: check_stream_def)
    have "stream_procs l' = stream_procs ?l" by (simp add: l' stream_procs_def)
    moreover have "set (lv_running l') = set (lv_running l) - {ls_proc s}" by (simp add: l')
    ultimately show ?thesis using procs_del [OF assms(1) Some] assms(1,2) by (auto simp: l')
  qed
qed

lemma reap_tracked: "tracked s \<Longrightarrow> tracked (s\<lparr>sy_live := reap_streams now (sy_live s)\<rparr>)"
proof -
  assume tr: "tracked s"
  let ?l = "sy_live s"
  let ?stale = "filter (\<lambda>(cid, s). is_idle now s \<or> is_old now s) (lv_streams ?l)"
  have st: "lv_streams (reap_streams now ?l) = filter (\<lambda>(k, v). k \<notin> set (map fst ?stale)) (lv_streams ?l)"
    "set (lv_running (reap_streams now ?l)) = set (lv_running ?l) - set (map (\<lambda>(cid, s). ls_proc s) ?stale)"
    by (simp_all add: reap_streams_def fold_dict_del)
  have "stream_procs ?l \<subseteq> stream_procs (reap_streams now ?l) \<union> set (map (\<lambda>(cid, s). ls_proc s) ?stale)"
  proof
    fix p assume "p \<in> stream_procs ?l"
    then obtain c x where c: "(c, x) \<in> set (lv_streams ?l)" "p = ls_proc x" by (auto simp: stream_procs_def)
    show "p \<in> stream_procs (reap_streams now ?l) \<union> set (map (\<lambda>(cid, s). ls_proc s) ?stale)"
    proof (cases "c \<in> set (map fst ?stale)")
      case True
      then obtain y where "(c, y) \<in> set ?stale" by (auto simp del: set_filter)
      moreover from this have "y = x" using c(1) tr dict_ok_unique by (fastforce simp: tracked_def)
      ultimately show ?thesis using c(2) by force
    next
      case False
      then show ?thesis using c unfolding stream_procs_def st(1) by force
    qed
  qed
  moreover have "set (dict_keys (lv_streams (reap_streams now ?l))) \<subseteq> set (dict_keys (lv_streams ?l))"
    unfolding st(1) by (auto simp: dict_keys_def)
  moreover have "dict_ok (lv_streams (reap_streams now ?l))" unfolding st(1) using tr by (simp add: tracked_def)
  ultimately show ?thesis using tr st(2) by (auto simp: tracked_def)
qed

lemma tracked_step:
  assumes "live_step True s t" and "tracked s"
  shows "tracked t"
  using assms(1)
proof cases
  case (look cid now reused l)
  note c = check_stream_tracked [OF _ _ look(2), of "set (held (sy_starters s))"]
  have "dict_ok (lv_streams (sy_live s))" "set (lv_running (sy_live s)) \<subseteq> stream_procs (sy_live s) \<union> set (held (sy_starters s))"
    using assms(2) by (simp_all add: tracked_def)
  note c = c [OF this]
  show ?thesis
  proof (cases reused)
    case True
    then show ?thesis using c assms(2) by (auto simp: look(1) tracked_def)
  next
    case False
    then show ?thesis using c assms(2) look(3) by (auto simp: look(1) tracked_def list_all_iff)
  qed
next
  case (spawn xs cid ys p)
  have pr: "stream_procs (launch p (sy_live s)) = stream_procs (sy_live s)" by (simp add: stream_procs_def launch_def)
  show ?thesis using assms(2) spawn(2) by (auto simp: spawn(1) tracked_def pr launch_def sorted_wrt_append)
next
  case (fail xs cid ys)
  then show ?thesis using assms(2) by (auto simp: tracked_def sorted_wrt_append)
next
  case (register xs cid p ys now)
  have new: "cid \<notin> set (dict_keys (lv_streams (sy_live s)))" using assms(2) register(2) by (auto simp: tracked_def)
  have apart: "\<not> list_ex (starts_camera cid) (xs @ ys)" using assms(2) register(2) by (auto simp: tracked_def sorted_wrt_append list_ex_iff)
  have k: "set (dict_keys (lv_streams (register_stream cid p now (sy_live s)))) = insert cid (set (dict_keys (lv_streams (sy_live s))))"
    "lv_running (register_stream cid p now (sy_live s)) = lv_running (sy_live s)"
    "dict_ok (lv_streams (sy_live s)) \<Longrightarrow> dict_ok (lv_streams (register_stream cid p now (sy_live s)))"
    by (simp_all add: register_stream_def)
  show ?thesis using assms(2) register(2) apart k by (auto simp: register(1) tracked_def procs_set_new [OF new] sorted_wrt_append)
next
  case (stop cid)
  show ?thesis
  proof (cases "dict_get (lv_streams (sy_live s)) cid")
    case None
    then show ?thesis using assms(2) by (simp add: stop stop_stream_def)
  next
    case (Some x)
    let ?l = "(sy_live s)\<lparr>lv_streams := dict_del cid (lv_streams (sy_live s))\<rparr>"
    have l: "snd (stop_stream cid (sy_live s)) = terminate_and_reap (ls_proc x) ?l" by (simp add: stop_stream_def Some)
    have pr: "stream_procs (terminate_and_reap (ls_proc x) ?l) = stream_procs ?l" by (simp add: stream_procs_def)
    show ?thesis using assms(2) procs_del [OF _ Some] by (auto simp: stop tracked_def l pr)
  qed
next
  case (reap now)
  then show ?thesis using reap_tracked [OF assms(2)] by simp
next
  case (quit p)
  have "stream_procs (terminate_and_reap p (sy_live s)) = stream_procs (sy_live s)" by (simp add: stream_procs_def)
  then show ?thesis using assms(2) by (auto simp: quit tracked_def)
qed

interpretation live_system: safe_system idle_system "live_step True" tracked
proof unfold_locales
  fix s :: live_sys assume "idle_system s"
  then show "tracked s" by (simp add: idle_system_def tracked_def no_live_def)
qed (rule tracked_step)



text \<open>
  A round of the reaper stops exactly the transcodes nobody has asked for in five minutes or that are
  more than four hours old: their processes no longer run, and every other stream keeps its
  entry and, unless it shares the process, runs on.
\<close>

theorem reaper_exact:
  assumes "dict_ok (lv_streams l)"
  shows "lv_streams (reap_streams now l) =
      filter (\<lambda>(cid, s). now - ls_probe s \<le> 300 * 1000000 \<and> now - ls_started s \<le> 14400 * 1000000) (lv_streams l) \<and>
    set (lv_running (reap_streams now l)) = set (lv_running l) -
      {ls_proc s |cid s. (cid, s) \<in> set (lv_streams l) \<and> (300 * 1000000 < now - ls_probe s \<or> 14400 * 1000000 < now - ls_started s)}"
proof -
  let ?P = "\<lambda>(cid, s). is_idle now s \<or> is_old now s"
  have i: "is_idle now s = (300 * 1000000 < now - ls_probe s)" "is_old now s = (14400 * 1000000 < now - ls_started s)" for s
    by (simp_all add: is_idle_def is_old_def live_idle_timeout_def live_max_duration_def total_seconds_def pos_less_divide_eq)
       (linarith+)
  have "filter (\<lambda>(k, v). k \<notin> set (map fst (filter ?P (lv_streams l)))) (lv_streams l) = filter (\<lambda>(k, v). \<not> (is_idle now v \<or> is_old now v)) (lv_streams l)"
    by (rule filter_out_keys [OF assms])
  then have "lv_streams (reap_streams now l) = filter (\<lambda>(k, v). \<not> (is_idle now v \<or> is_old now v)) (lv_streams l)" by (simp add: reap_streams_def fold_dict_del)
  also have "\<dots> = filter (\<lambda>(cid, s). now - ls_probe s \<le> 300 * 1000000 \<and> now - ls_started s \<le> 14400 * 1000000) (lv_streams l)"
    by (rule filter_cong [OF refl]) (auto simp: i)
  finally have st: "lv_streams (reap_streams now l) =
      filter (\<lambda>(cid, s). now - ls_probe s \<le> 300 * 1000000 \<and> now - ls_started s \<le> 14400 * 1000000) (lv_streams l)" .
  have "set (lv_running (reap_streams now l)) = set (lv_running l) - (\<lambda>(cid, s). ls_proc s) ` set (filter ?P (lv_streams l))"
    by (simp add: reap_streams_def Let_def)
  also have "(\<lambda>(cid, s). ls_proc s) ` set (filter ?P (lv_streams l)) =
      {ls_proc s |cid s. (cid, s) \<in> set (lv_streams l) \<and> (300 * 1000000 < now - ls_probe s \<or> 14400 * 1000000 < now - ls_started s)}"
    by (force simp: i)
  finally show ?thesis using st by blast
qed

theorem reaper_exact_witness:
  "lv_streams (reap_streams 301000000 \<lparr>lv_streams = [(''c'', new_stream 1 0), (''d'', new_stream 2 2000000)], lv_running = [1, 2]\<rparr>) =
     [(''d'', new_stream 2 2000000)]"
proof -
  let ?l = "\<lparr>lv_streams = [(''c'', new_stream 1 0), (''d'', new_stream 2 2000000)], lv_running = [1, 2]\<rparr>"
  have "dict_ok (lv_streams ?l)" by (simp add: dict_ok_def)
  from reaper_exact [OF this, of 301000000] show ?thesis by (simp add: new_stream_def)
qed

text \<open>However often streams are started, there is one reaper.\<close>

lemma one_reaper: "sum_list (map snd (snd (fold (\<lambda>_ (flag, rs). case ensure_reaper flag of (flag1, k) \<Rightarrow> (flag1, (flag1, k) # rs)) [0..<n] (False, [])))) \<le> 1"
proof -
  have "(\<lambda>(flag, rs). (flag \<or> rs = []) \<and> sum_list (map snd rs) = (if flag then 1 else 0))
      (fold (\<lambda>_ (flag, rs). case ensure_reaper flag of (flag1, k) \<Rightarrow> (flag1, (flag1, k) # rs)) [0..<n] (False, []))"
    by (induction n) (auto simp: ensure_reaper_def split: prod.splits)
  then show ?thesis by (auto split: prod.splits if_splits)
qed

text \<open>
  A stream nobody asks for any more is gone after the second round that follows: ten minutes at most.
\<close>

lemma reaped_in_time:
  assumes "dict_ok (lv_streams l)" and "(cid, s) \<in> set (lv_streams l)" and "ls_probe s \<le> start" and "2 \<le> n"
  shows "(cid, s) \<notin> set (lv_streams (reap_loop start n l))"
proof -
  have ok: "dict_ok (lv_streams (reap_loop start k l))" for k
  proof (induction k)
    case (Suc k)
    then show ?case using reaper_exact [OF Suc, THEN conjunct1] dict_ok_filter by (simp add: reap_loop_def)
  qed (use assms(1) in \<open>simp add: reap_loop_def\<close>)
  have step: "lv_streams (reap_loop start (Suc k) l) = filter (\<lambda>(cid, s). start + (int k + 1) * 300 * 1000000 - ls_probe s \<le> 300 * 1000000 \<and>
      start + (int k + 1) * 300 * 1000000 - ls_started s \<le> 14400 * 1000000) (lv_streams (reap_loop start k l))" for k
    using reaper_exact [OF ok [of k], of "start + (int k + 1) * 300 * 1000000", THEN conjunct1] by (simp add: reap_loop_def live_idle_timeout_def)
  obtain k where n: "n = Suc k" "1 \<le> k" using assms(4) by (cases n) auto
  have "300000000 * 1 \<le> 300000000 * int k" using n(2) by (intro mult_left_mono) simp_all
  then have "\<not> start + (int k + 1) * 300 * 1000000 - ls_probe s \<le> 300 * 1000000" using assms(3) by (simp add: algebra_simps)
  then show ?thesis unfolding n(1) step by simp
qed

text \<open>
  A ticket opens the live view of exactly its camera, from its issue until its expiry, which is between half
  a minute and an hour away whatever was asked for; issuing it leaves no trace in the store.
\<close>

theorem live_tickets_exact:
  assumes "te_decrypt te (te_encrypt te (ticket_claims te cid ex)) = Some (ticket_claims te cid ex)" and "te_parse te (te_iso te ex) = Some ex"
    and "issue_ticket te now cid ttl a = (Inr (ticket, ex), b)"
  shows "cid \<in> set (dict_keys (db_cameras (ap_db a))) \<and> b = a \<and> now + 30 * 1000000 \<le> ex \<and> ex \<le> now + 3600 * 1000000 \<and>
    (if 30 \<le> ttl \<and> ttl \<le> 3600 then ex = now + ttl * 1000000 else True) \<and>
    ticket_valid te later other ticket = (if other \<noteq> cid then Inl (Http 403) else if ex < later then Inl (Http 401) else Inr ())"
proof -
  have i: "cid \<in> set (dict_keys (db_cameras (ap_db a)))" "b = a" "ex = now + max 30 (min ttl 3600) * 1000000"
    "ticket = te_encrypt te (ticket_claims te cid ex)"
    using assms(3) by (auto simp: issue_ticket_def Let_def split: if_splits)
  then show ?thesis using assms(1,2)
    by (auto simp: ticket_valid_def ticket_claims_def field_def)
qed


definition paper_tickets :: ticket_env where
  "paper_tickets = \<lparr>te_encrypt = (\<lambda>_. ''t''), te_decrypt = (\<lambda>_. Some (JObj [(''camera_id'', JStr ''c''), (''exp'', JStr ''soon'')])),
     te_iso = (\<lambda>_. ''soon''), te_parse = (\<lambda>_. Some 30000000)\<rparr>"

definition one_camera :: app where
  "one_camera = \<lparr>ap_db = empty_db\<lparr>db_cameras := [(''c'', \<lparr>ca_name = ''c'', ca_uid = None, ca_nvr = None, ca_stream_enc = None,
     ca_substream_enc = None, ca_status = ''ONLINE'', ca_health = ''streaming'', ca_last_seen = None, ca_resolution = [], ca_fps = 5,
     ca_timezone = ''UTC'', ca_masks = None, ca_retention = None, ca_rules = None, ca_created_at = 0\<rparr>)]\<rparr>, ap_next = 0\<rparr>"

theorem live_tickets_exact_witness:
  "\<exists>ticket b. issue_ticket paper_tickets 0 ''c'' 5 one_camera = (Inr (ticket, 30000000), b) \<and>
     ticket_valid paper_tickets 30000000 ''c'' ticket = Inr () \<and> ticket_valid paper_tickets 30000000 ''d'' ticket = Inl (Http 403)"
proof -
  have t: "te_decrypt paper_tickets (te_encrypt paper_tickets (ticket_claims paper_tickets ''c'' 30000000)) = Some (ticket_claims paper_tickets ''c'' 30000000)"
    "te_parse paper_tickets (te_iso paper_tickets 30000000) = Some 30000000"
    by (simp_all add: paper_tickets_def ticket_claims_def)
  obtain ticket b where i: "issue_ticket paper_tickets 0 ''c'' 5 one_camera = (Inr (ticket, 30000000), b)"
    by (simp add: issue_ticket_def one_camera_def)
  show ?thesis using i live_tickets_exact [OF t i, of 30000000 "''c''"] live_tickets_exact [OF t i, of 30000000 "''d''"] by auto
qed

end
