(* ===== verification/Listings.thy ===== *)
theory Listings
  imports Platform "HOL-Library.List_Lexorder" "HOL-Library.Char_ord" "HOL-Library.Multiset"
begin

text \<open>
  What the listing endpoints share (\<open>apps/api/routers/events.py\<close>, \<open>audit.py\<close>): sorting by a
  whitelisted column with the id as tiebreak, pages, and the comma separated export. The order
  of texts is the order of their code points (SQLite's; a PostgreSQL collation may differ). The
  writer is the standard library's \<open>csv.writer\<close> with its default dialect.
\<close>

section \<open>Sorting and pages\<close>

datatype 'r column = By_Time "'r \<Rightarrow> timestamp" | By_Text "'r \<Rightarrow> string" | By_Number "'r \<Rightarrow> real"

fun ascending :: "'r column \<Rightarrow> (string \<times> 'r) list \<Rightarrow> (string \<times> 'r) list" where
  "ascending (By_Time f) xs = sort_key (\<lambda>x. f (snd x)) xs"
| "ascending (By_Text f) xs = sort_key (\<lambda>x. f (snd x)) xs"
| "ascending (By_Number f) xs = sort_key (\<lambda>x. f (snd x)) xs"

definition directed :: "bool \<Rightarrow> ('a list \<Rightarrow> 'a list) \<Rightarrow> 'a list \<Rightarrow> 'a list" where
  \<comment> \<open>a stable sort, or the stable sort in the opposite direction\<close>
  "directed desc arrange xs = (if desc then rev (arrange (rev xs)) else arrange xs)"

definition order_by :: "bool \<Rightarrow> 'r column \<Rightarrow> bool \<Rightarrow> (string \<times> 'r) list \<Rightarrow> (string \<times> 'r) list" where
  \<comment> \<open>column descending?, column, id descending?\<close>
  "order_by desc col id_desc xs = directed desc (ascending col) (directed id_desc (sort_key fst) xs)"

definition page_of :: "int \<Rightarrow> int \<Rightarrow> 'a list \<Rightarrow> 'a list" where
  "page_of limit offset xs = take (nat limit) (drop (nat offset) xs)"

record 'v listing =
  li_items :: "'v list"
  li_total :: int
  li_limit :: int
  li_offset :: int

definition option_in :: "string list \<Rightarrow> string option \<Rightarrow> bool" where
  \<comment> \<open>a query parameter with a pattern of alternatives\<close>
  "option_in ks x = (case x of None \<Rightarrow> True | Some s \<Rightarrow> s \<in> set ks)"

definition given :: "string option \<Rightarrow> string option" where
  \<comment> \<open>a parameter that is absent or empty does not filter\<close>
  "given x = (case x of None \<Rightarrow> None | Some s \<Rightarrow> if s = [] then None else Some s)"

definition equal_if_given :: "string option \<Rightarrow> string \<Rightarrow> bool" where
  "equal_if_given x y = (case given x of None \<Rightarrow> True | Some s \<Rightarrow> y = s)"

definition time_bound :: "(string \<Rightarrow> timestamp option) \<Rightarrow> string option \<Rightarrow> http_error + timestamp option" where
  \<comment> \<open>\<open>fromisoformat\<close> of a given bound; its \<open>ValueError\<close> is not caught\<close>
  "time_bound iso8601 x =
     (case given x of None \<Rightarrow> Inr None
      | Some s \<Rightarrow> (case iso8601 s of None \<Rightarrow> Inl (Crash ValueError) | Some t \<Rightarrow> Inr (Some t)))"

section \<open>Comma separated values\<close>

definition csv_cell :: "string \<Rightarrow> string" where
  "csv_cell s = (if s \<noteq> [] \<and> hd s \<in> {CHR ''='', CHR ''+'', CHR ''-'', CHR ''@''} then CHR '' '' # s else s)"

definition csv_special :: "char \<Rightarrow> bool" where
  "csv_special c \<longleftrightarrow> c \<in> {CHR '','', CHR 0x22, CHR 0x0D, CHR 0x0A}"

definition csv_field :: "string \<Rightarrow> string" where
  \<comment> \<open>minimal quoting, quotes doubled\<close>
  "csv_field s =
     (if list_ex csv_special s
      then CHR 0x22 # concat (map (\<lambda>c. if c = CHR 0x22 then [c, c] else [c]) s) @ [CHR 0x22]
      else s)"

definition csv_line :: "string list \<Rightarrow> string" where
  \<comment> \<open>a row of several cells (a single empty field would be quoted)\<close>
  "csv_line cells = join_with [CHR '',''] (map csv_field cells) @ [CHR 0x0D, CHR 0x0A]"

definition csv_text :: "string list list \<Rightarrow> string" where
  "csv_text table = concat (map csv_line table)"

text \<open>A reader of the format, as a spreadsheet has it: the reference the writer is checked against.\<close>

datatype csv_mode = Field_Start | Plain_Field | Quoted_Field | Quote_Seen | Line_End

fun read_csv :: "csv_mode \<Rightarrow> string \<Rightarrow> string list \<Rightarrow> string \<Rightarrow> string list list" where
  "read_csv m cur row [] = (if row = [] \<and> cur = [] \<and> (m = Field_Start \<or> m = Line_End) then [] else [row @ [cur]])"
| "read_csv Quoted_Field cur row (c # cs) =
     (if c = CHR 0x22 then read_csv Quote_Seen cur row cs else read_csv Quoted_Field (cur @ [c]) row cs)"
| "read_csv Line_End cur row (c # cs) =
     (if c = CHR 0x0A then read_csv Field_Start [] [] cs
      else if c = CHR '','' then read_csv Field_Start [] [[]] cs
      else if c = CHR 0x22 then read_csv Quoted_Field [] [] cs
      else read_csv Plain_Field [c] [] cs)"
| "read_csv m cur row (c # cs) =
     (if c = CHR '','' then read_csv Field_Start [] (row @ [cur]) cs
      else if c = CHR 0x0D then (row @ [cur]) # read_csv Line_End [] [] cs
      else if c = CHR 0x0A then (row @ [cur]) # read_csv Field_Start [] [] cs
      else if c = CHR 0x22 \<and> m = Field_Start then read_csv Quoted_Field cur row cs
      else if c = CHR 0x22 \<and> m = Quote_Seen then read_csv Quoted_Field (cur @ [c]) row cs
      else read_csv Plain_Field (cur @ [c]) row cs)"

definition parse_csv :: "string \<Rightarrow> string list list" where
  "parse_csv s = read_csv Field_Start [] [] s"

subsection \<open>The reader inverts the writer\<close>

lemma read_plain:
  "\<not> list_ex csv_special s \<Longrightarrow> m = Field_Start \<or> m = Plain_Field \<Longrightarrow>
   read_csv m cur row (s @ CHR '','' # t) = read_csv Field_Start [] (row @ [cur @ s]) t \<and>
   read_csv m cur row (s @ CHR 0x0D # CHR 0x0A # t) = (row @ [cur @ s]) # read_csv Field_Start [] [] t"
  by (induction s arbitrary: m cur) (auto simp: csv_special_def)

lemma read_quoted:
  "read_csv Quoted_Field cur row (concat (map (\<lambda>c. if c = CHR 0x22 then [c, c] else [c]) s) @ CHR 0x22 # t)
   = read_csv Quote_Seen (cur @ s) row t" if "\<forall>u. t \<noteq> CHR 0x22 # u"
  by (induction s arbitrary: cur) auto

lemma read_field:
  "read_csv Field_Start [] row (csv_field s @ CHR '','' # t) = read_csv Field_Start [] (row @ [s]) t"
  "read_csv Field_Start [] row (csv_field s @ CHR 0x0D # CHR 0x0A # t) = (row @ [s]) # read_csv Field_Start [] [] t"
  using read_plain [of s Field_Start "[]" row t] read_quoted [of "CHR '','' # t" "[]" row s]
    read_quoted [of "CHR 0x0D # CHR 0x0A # t" "[]" row s]
  by (auto simp: csv_field_def)

lemma read_fields:
  "cells \<noteq> [] \<Longrightarrow> read_csv Field_Start [] row (csv_line cells @ t) = (row @ cells) # read_csv Field_Start [] [] t"
proof (induction cells arbitrary: row rule: induct_list012)
  case (2 s)
  then show ?case by (simp add: csv_line_def read_field)
next
  case (3 s s' ss)
  have "csv_line (s # s' # ss) @ t = csv_field s @ CHR '','' # (csv_line (s' # ss) @ t)"
    by (simp add: csv_line_def)
  then show ?case using 3(2) [of "row @ [s]"] by (simp only: read_field) simp
qed simp

lemma parse_csv_text: "list_all (\<lambda>cells. cells \<noteq> []) table \<Longrightarrow> parse_csv (csv_text table) = table"
  by (induction table) (simp_all add: parse_csv_def csv_text_def read_fields)

lemma csv_cell_safe: "s = csv_cell x \<Longrightarrow> s = [] \<or> hd s \<notin> {CHR ''='', CHR ''+'', CHR ''-'', CHR ''@''}"
  by (auto simp: csv_cell_def)

section \<open>Ordered listings\<close>

text \<open>
  The contract of an ordering that listings are cut from: it rearranges the rows, and the
  result is sorted by a given order. Pages of any size then tile the rows.
\<close>

locale ordered_listing =
  fixes arrange :: "'a list \<Rightarrow> 'a list" and precedes :: "'a \<Rightarrow> 'a \<Rightarrow> bool"
  assumes arrange_mset: "mset (arrange xs) = mset xs"
    and arrange_sorted: "sorted_wrt precedes (arrange xs)"
begin

lemma arrange_length: "length (arrange xs) = length xs"
  by (metis arrange_mset size_mset)

lemma arrange_set: "set (arrange xs) = set xs"
  by (metis arrange_mset set_mset_mset)

lemma pages_tile:
  assumes "0 < limit"
  shows "length xs \<le> n * nat limit \<Longrightarrow>
    concat (map (\<lambda>k. page_of limit (int k * limit) (arrange xs)) [0..<n]) = arrange xs"
proof -
  have "concat (map (\<lambda>k. page_of limit (int k * limit) ys) [0..<n]) = take (n * nat limit) ys" for n and ys :: "'a list"
  proof (induction n)
    case (Suc n)
    have "nat (int n * limit) = n * nat limit" by (simp add: nat_mult_distrib)
    then show ?case using Suc by (simp add: page_of_def take_add [symmetric] add.commute)
  qed simp
  then show "length xs \<le> n * nat limit \<Longrightarrow> ?thesis" by (simp add: arrange_length)
qed

lemma page_sorted: "sorted_wrt precedes (page_of limit offset (arrange xs))"
  by (simp add: page_of_def sorted_wrt_take sorted_wrt_drop arrange_sorted)

end

fun column_less :: "'r column \<Rightarrow> 'r \<Rightarrow> 'r \<Rightarrow> bool" where
  "column_less (By_Time f) x y \<longleftrightarrow> f x < f y"
| "column_less (By_Text f) x y \<longleftrightarrow> f x < f y"
| "column_less (By_Number f) x y \<longleftrightarrow> f x < f y"

definition row_precedes :: "bool \<Rightarrow> 'r column \<Rightarrow> bool \<Rightarrow> string \<times> 'r \<Rightarrow> string \<times> 'r \<Rightarrow> bool" where
  \<comment> \<open>the order of the result: the column in its direction, rows equal in it by their ids\<close>
  "row_precedes desc col id_desc x y \<longleftrightarrow>
     (if column_less col (snd x) (snd y) then \<not> desc
      else if column_less col (snd y) (snd x) then desc
      else if id_desc then fst y \<le> fst x else fst x \<le> fst y)"

lemma directed_mset: "(\<And>xs. mset (f xs) = mset xs) \<Longrightarrow> mset (directed d f xs) = mset xs"
  by (simp add: directed_def)

lemma ascending_mset: "mset (ascending col xs) = mset xs"
  by (cases col) simp_all

lemma order_by_mset: "mset (order_by desc col id_desc xs) = mset xs"
  unfolding order_by_def by (simp add: directed_mset ascending_mset)

text \<open>A stable sort keeps the order of what it does not distinguish.\<close>

lemma sort_key_stable_wrt:
  fixes f :: "'a \<Rightarrow> 'b :: linorder"
  assumes "sorted_wrt P xs"
  shows "sorted_wrt (\<lambda>x y. f x < f y \<or> f x = f y \<and> P x y) (sort_key f xs)"
  using assms
proof (induction xs)
  case (Cons x xs)
  have ins: "sorted_wrt Q (insort_key f x ys)"
    if "sorted_wrt Q ys" "\<And>y. y \<in> set ys \<Longrightarrow> f x \<le> f y \<Longrightarrow> Q x y" "\<And>y. y \<in> set ys \<Longrightarrow> f y < f x \<Longrightarrow> Q y x"
      "\<And>y z. y \<in> set ys \<Longrightarrow> z \<in> set ys \<Longrightarrow> f x \<le> f y \<Longrightarrow> Q y z \<Longrightarrow> f x \<le> f z" for Q and ys :: "'a list"
    using that
  proof (induction ys)
    case (Cons y ys)
    show ?case
    proof (cases "f x \<le> f y")
      case True
      have "Q x z" if z: "z \<in> set (y # ys)" for z
      proof (rule Cons.prems(2) [OF z])
        show "f x \<le> f z"
        proof (cases "z = y")
          case False
          with z have "z \<in> set ys" "Q y z" using Cons.prems(1) by auto
          then show ?thesis using Cons.prems(4) [of y z] True by simp
        qed (use True in simp)
      qed
      then show ?thesis using Cons.prems(1) True by simp
    next
      case False
      have "sorted_wrt Q (insort_key f x ys)" using Cons.prems by (intro Cons.IH) auto
      then show ?thesis using False Cons.prems(1,3) by (auto simp: set_insort_key)
    qed
  qed simp
  show ?case
    unfolding sort_key_simps(2)
  proof (rule ins)
    show "sorted_wrt (\<lambda>x y. f x < f y \<or> f x = f y \<and> P x y) (sort_key f xs)" using Cons by simp
  qed (use Cons.prems in auto)
qed simp

lemma sorted_wrt_rev_iff: "sorted_wrt P (rev xs) \<longleftrightarrow> sorted_wrt (\<lambda>x y. P y x) xs"
  by (simp add: sorted_wrt_rev)

lemma directed_sort_key:
  fixes f :: "'a \<Rightarrow> 'b :: linorder"
  assumes "sorted_wrt P xs"
  shows "sorted_wrt (\<lambda>x y. (if desc then f y < f x else f x < f y) \<or> f x = f y \<and> P x y) (directed desc (sort_key f) xs)"
proof (cases desc)
  case True
  have "sorted_wrt (\<lambda>x y. P y x) (rev xs)" using assms by (simp add: sorted_wrt_rev_iff)
  from sort_key_stable_wrt [OF this, of f] True show ?thesis
    by (simp add: directed_def sorted_wrt_rev_iff eq_commute)
next
  case False
  then show ?thesis using sort_key_stable_wrt [OF assms, of f] by (simp add: directed_def)
qed

lemma order_by_sorted: "sorted_wrt (row_precedes desc col id_desc) (order_by desc col id_desc xs)"
proof -
  let ?ids = "directed id_desc (sort_key fst) xs"
  have ids: "sorted_wrt (\<lambda>x y. if id_desc then fst y \<le> fst x else fst x \<le> fst y) ?ids"
    by (rule sorted_wrt_mono_rel [OF _ directed_sort_key [of "\<lambda>_ _. True" xs id_desc fst]])
      (auto simp: sorted_wrt_iff_nth_less split: if_splits)
  have step: "sorted_wrt (row_precedes desc col id_desc) (directed desc (sort_key (\<lambda>x. f (snd x))) ?ids)"
    if "\<And>x y. column_less col x y \<longleftrightarrow> f x < f y" for f :: "_ \<Rightarrow> 'c :: linorder"
    by (rule sorted_wrt_mono_rel [OF _ directed_sort_key [OF ids, of desc "\<lambda>x. f (snd x)"]])
      (auto simp: row_precedes_def that split: if_splits)
  show ?thesis
  proof (cases col)
    case (By_Time f)
    have "ascending col = sort_key (\<lambda>x. f (snd x))" using By_Time by (simp add: fun_eq_iff)
    then show ?thesis unfolding order_by_def using By_Time by (simp only:) (rule step [unfolded By_Time], simp)
  next
    case (By_Text f)
    have "ascending col = sort_key (\<lambda>x. f (snd x))" using By_Text by (simp add: fun_eq_iff)
    then show ?thesis unfolding order_by_def using By_Text by (simp only:) (rule step [unfolded By_Text], simp)
  next
    case (By_Number f)
    have "ascending col = sort_key (\<lambda>x. f (snd x))" using By_Number by (simp add: fun_eq_iff)
    then show ?thesis unfolding order_by_def using By_Number by (simp only:) (rule step [unfolded By_Number], simp)
  qed
qed

interpretation rows_listing: ordered_listing "order_by desc col id_desc" "row_precedes desc col id_desc"
  by unfold_locales (rule order_by_mset order_by_sorted)+

end
