(* ===== verification/Event_Api.thy ===== *)
theory Event_Api
  imports Listings Cameras
begin

text \<open>
  \<open>apps/api/routers/events.py\<close>, \<open>timeline.py\<close> and \<open>audit.py\<close>: searching events, their media,
  exports, clips, the timeline of a day, and reading the audit trail. The texts of timestamps
  and numbers, the two ISO 8601 parsers (with and without the offset) and the HMAC of the
  storage are parameters. Naive times are UTC.
\<close>

record view_env =
  ve_iso8601 :: "string \<Rightarrow> timestamp option"  \<comment> \<open>\<open>fromisoformat\<close> after \<open>Z\<close> became \<open>+00:00\<close>\<close>
  ve_wall :: "string \<Rightarrow> timestamp option"  \<comment> \<open>\<open>fromisoformat\<close> with its offset replaced by UTC\<close>
  ve_iso :: "timestamp \<Rightarrow> string"
  ve_num :: "real \<Rightarrow> string"
  ve_mac :: "string \<Rightarrow> string"

section \<open>Searching events\<close>

definition event_sort :: "(string, event_row column) dict" where
  "event_sort = [(''timestamp'', By_Time ev_start), (''camera'', By_Text ev_camera), (''type'', By_Text ev_type),
     (''identity'', By_Text ev_status), (''confidence'', By_Number ev_confidence), (''duration'', By_Time ev_end)]"

definition sort_column :: "string option \<Rightarrow> event_row column" where
  "sort_column sorting =
     (let key = (case given sorting of None \<Rightarrow> ''timestamp'' | Some s \<Rightarrow> s)
      in (case dict_get event_sort key of None \<Rightarrow> By_Time ev_start | Some c \<Rightarrow> c))"

definition apply_sort :: "string option \<Rightarrow> string option \<Rightarrow> (string \<times> event_row) list \<Rightarrow> (string \<times> event_row) list" where
  "apply_sort sorting direction = order_by (direction = Some ''desc'') (sort_column sorting) False"

record event_query =
  eq_camera :: "string option"
  eq_identity :: "string option"
  eq_status :: "string option"
  eq_start :: "string option"
  eq_end :: "string option"
  eq_min :: "real option"

definition sort_ok :: "string list \<Rightarrow> string option \<Rightarrow> string option \<Rightarrow> bool" where
  "sort_ok keys sorting direction \<longleftrightarrow> option_in keys sorting \<and> option_in [''asc'', ''desc''] direction"

definition in_window :: "timestamp option \<Rightarrow> timestamp option \<Rightarrow> event_row \<Rightarrow> bool" where
  "in_window lo hi e \<longleftrightarrow>
     (case lo of None \<Rightarrow> True | Some t \<Rightarrow> ev_start e \<ge> t) \<and> (case hi of None \<Rightarrow> True | Some t \<Rightarrow> ev_end e \<le> t)"

definition at_least :: "real option \<Rightarrow> event_row \<Rightarrow> bool" where
  "at_least m e \<longleftrightarrow> (case m of None \<Rightarrow> True | Some c \<Rightarrow> ev_confidence e \<ge> c)"

definition event_matches :: "event_query \<Rightarrow> timestamp option \<Rightarrow> timestamp option \<Rightarrow> string \<times> event_row \<Rightarrow> bool" where
  "event_matches q lo hi x \<longleftrightarrow>
     equal_if_given (eq_camera q) (ev_camera (snd x)) \<and>
     (case given (eq_identity q) of None \<Rightarrow> True | Some s \<Rightarrow> ev_identity (snd x) = Some s) \<and>
     equal_if_given (eq_status q) (ev_status (snd x)) \<and> in_window lo hi (snd x) \<and> at_least (eq_min q) (snd x)"

definition time_bounds :: "view_env \<Rightarrow> string option \<Rightarrow> string option \<Rightarrow> http_error + timestamp option \<times> timestamp option" where
  "time_bounds env lo_text hi_text =
     (case time_bound (ve_iso8601 env) lo_text of
        Inl err \<Rightarrow> Inl err
      | Inr lo \<Rightarrow> (case time_bound (ve_iso8601 env) hi_text of Inl err \<Rightarrow> Inl err | Inr hi \<Rightarrow> Inr (lo, hi)))"

record event_item =
  ei_id :: string
  ei_camera :: string
  ei_track :: "string option"
  ei_identity :: "string option"
  ei_status :: string
  ei_type :: string
  ei_start :: string
  ei_end :: string
  ei_confidence :: real
  ei_bbox :: bbox
  ei_has_snapshot :: bool
  ei_has_video :: bool

definition event_item_of :: "view_env \<Rightarrow> string \<times> event_row \<Rightarrow> event_item" where
  "event_item_of env x =
     (let r = snd x in
      \<lparr>ei_id = fst x, ei_camera = ev_camera r, ei_track = ev_track r, ei_identity = ev_identity r, ei_status = ev_status r,
       ei_type = ev_type r, ei_start = ve_iso env (ev_start r), ei_end = ve_iso env (ev_end r),
       ei_confidence = ev_confidence r, ei_bbox = ev_bbox r,
       ei_has_snapshot = (given (ev_snapshot_enc r) \<noteq> None), ei_has_video = (given (ev_segment_enc r) \<noteq> None)\<rparr>)"

definition list_events ::
  "view_env \<Rightarrow> event_query \<Rightarrow> string option \<Rightarrow> string option \<Rightarrow> int \<Rightarrow> int \<Rightarrow> app \<Rightarrow> http_error + event_item listing" where
  "list_events env q sorting direction limit offset a =
     (if \<not> sort_ok (dict_keys event_sort) sorting direction \<or> limit < 1 \<or> 500 < limit \<or> offset < 0 then Inl (Http 422)
      else (case time_bounds env (eq_start q) (eq_end q) of
              Inl err \<Rightarrow> Inl err
            | Inr (lo, hi) \<Rightarrow>
                (let found = filter (event_matches q lo hi) (db_events (ap_db a)) in
                 Inr \<lparr>li_items = map (event_item_of env) (page_of limit offset (apply_sort sorting direction found)),
                      li_total = int (length found), li_limit = limit, li_offset = offset\<rparr>)))"

section \<open>Exporting events\<close>

definition wanted_ids :: "string \<Rightarrow> string list" where
  "wanted_ids ids = take 1000 (filter (\<lambda>i. i \<noteq> []) (map strip (split_on CHR '','' ids)))"

definition selected :: "string option \<Rightarrow> event_query \<Rightarrow> string \<times> event_row \<Rightarrow> bool" where
  \<comment> \<open>a selection by ids takes the place of the camera\<close>
  "selected ids q x \<longleftrightarrow>
     (case given ids of Some s \<Rightarrow> fst x \<in> set (wanted_ids s) | None \<Rightarrow> equal_if_given (eq_camera q) (ev_camera (snd x)))"

definition export_matches :: "string option \<Rightarrow> event_query \<Rightarrow> timestamp option \<Rightarrow> timestamp option \<Rightarrow> string \<times> event_row \<Rightarrow> bool" where
  "export_matches ids q lo hi x \<longleftrightarrow>
     selected ids q x \<and> equal_if_given (eq_status q) (ev_status (snd x)) \<and> in_window lo hi (snd x) \<and> at_least (eq_min q) (snd x)"

definition event_header :: "string list" where
  "event_header = [''id'', ''camera_id'', ''event_type'', ''timestamp_start'', ''timestamp_end'', ''identity_id'',
     ''identity_status'', ''confidence'']"

definition event_cells :: "view_env \<Rightarrow> string \<times> event_row \<Rightarrow> string list" where
  "event_cells env x =
     (let r = snd x in
      map csv_cell [fst x, ev_camera r, ev_type r, ve_iso env (ev_start r), ve_iso env (ev_end r),
        (case ev_identity r of None \<Rightarrow> [] | Some i \<Rightarrow> i), ev_status r, ve_num env (ev_confidence r)])"

definition export_events_csv ::
  "api_env \<Rightarrow> view_env \<Rightarrow> event_query \<Rightarrow> string option \<Rightarrow> string option \<Rightarrow> string option \<Rightarrow> string \<times> user_row \<Rightarrow> request \<Rightarrow>
   app \<Rightarrow> string outcome" where
  "export_events_csv api env q ids sorting direction user rq a =
     (if \<not> sort_ok (dict_keys event_sort) sorting direction then (Inl (Http 422), a)
      else (case time_bounds env (eq_start q) (eq_end q) of
              Inl err \<Rightarrow> (Inl err, a)
            | Inr (lo, hi) \<Rightarrow>
                (let found = take 50000 (apply_sort sorting direction (filter (export_matches ids q lo hi) (db_events (ap_db a))));
                     detail = [(''rows'', JNum (of_nat (length found))),
                       (''filters'', JObj [(''camera_id'', text_json (eq_camera q)), (''identity_status'', text_json (eq_status q)),
                          (''start'', text_json (eq_start q)), (''end'', text_json (eq_end q)),
                          (''min_confidence'', (case eq_min q of None \<Rightarrow> JNull | Some c \<Rightarrow> JNum c))])]
                 in (Inr (csv_text (event_header # map (event_cells env) found)),
                     write_audit api rq (Some user) [] ''events.export_csv'' [] ''success'' [] (Some detail) a))))"

section \<open>One event and its media\<close>

record event_detail =
  ed_item :: event_item
  ed_snapshot_url :: "string option"
  ed_video_url :: "string option"
  ed_seek :: "real option"

definition open_key :: "api_env \<Rightarrow> string \<Rightarrow> http_error + string" where
  "open_key api x = (case ae_decrypt api x of None \<Rightarrow> Inl (Crash CryptoError) | Some k \<Rightarrow> Inr k)"

definition signed_media :: "api_env \<Rightarrow> view_env \<Rightarrow> timestamp \<Rightarrow> string option \<Rightarrow> http_error + string option" where
  \<comment> \<open>the link of an encrypted key, if there is one\<close>
  "signed_media api env now x =
     (case given x of None \<Rightarrow> Inr None
      | Some s \<Rightarrow> bind_ok (open_key api s) (\<lambda>k. Inr (Some (sign_get_url (ve_mac env) now k 300))))"

definition covering_segment :: "event_row \<Rightarrow> db \<Rightarrow> (string \<times> segment_row) option" where
  "covering_segment e d =
     (case camera_segments (ev_camera e) (\<lambda>s. sg_start s \<le> ev_start e \<and> sg_end s \<ge> ev_start e) d of [] \<Rightarrow> None | s # _ \<Rightarrow> Some s)"

definition get_event :: "api_env \<Rightarrow> view_env \<Rightarrow> string \<Rightarrow> request \<Rightarrow> app \<Rightarrow> http_error + event_detail" where
  "get_event api env event_id rq a =
     (case dict_get (db_events (ap_db a)) event_id of
        None \<Rightarrow> Inl (Http 404)
      | Some e \<Rightarrow>
          bind_ok (signed_media api env (rq_now rq) (ev_snapshot_enc e)) (\<lambda>snapshot.
          bind_ok (signed_media api env (rq_now rq) (ev_segment_enc e)) (\<lambda>linked.
            let found = (if linked = None then covering_segment e (ap_db a) else None)
            in Inr \<lparr>ed_item = event_item_of env (event_id, e), ed_snapshot_url = snapshot,
                    ed_video_url = (if linked \<noteq> None then linked
                                    else map_option (\<lambda>s. sign_get_url (ve_mac env) (rq_now rq) (sg_key (snd s)) 300) found),
                    ed_seek = map_option (\<lambda>s. max 0 (total_seconds (ev_start e - sg_start (snd s)))) found\<rparr>)))"

definition export_event ::
  "api_env \<Rightarrow> view_env \<Rightarrow> string \<Rightarrow> string \<times> user_row \<Rightarrow> request \<Rightarrow> app \<Rightarrow> string outcome" where
  "export_event api env event_id user rq a =
     (case dict_get (db_events (ap_db a)) event_id of
        None \<Rightarrow> (Inl (Http 404), a)
      | Some e \<Rightarrow>
          (case given (ev_segment_enc e) of
             None \<Rightarrow> (Inl (Http 404), a)
           | Some x \<Rightarrow>
               (case open_key api x of
                  Inl err \<Rightarrow> (Inl err, a)
                | Inr k \<Rightarrow>
                    (Inr (sign_get_url (ve_mac env) (rq_now rq) k 300),
                     write_audit api rq (Some user) [] ''video.export'' event_id ''success'' []
                       (Some [(''watermark'', JBool False), (''camera_id'', JStr (ev_camera e))]) a))))"

record clip_manifest =
  cm_event :: string
  cm_camera :: string
  cm_start :: string
  cm_end :: string
  cm_count :: int
  cm_bytes :: int
  cm_segments :: "segment_view list"

definition clip_segments :: "event_row \<Rightarrow> db \<Rightarrow> (string \<times> segment_row) list" where
  "clip_segments e d =
     take 200 (sort_key (\<lambda>x. sg_start (snd x)) (filter (\<lambda>x. sg_camera (snd x) = ev_camera e \<and>
       sg_start (snd x) < ev_end e \<and> sg_end (snd x) > ev_start e) (db_segments d)))"

definition event_clip ::
  "api_env \<Rightarrow> view_env \<Rightarrow> string \<Rightarrow> string \<times> user_row \<Rightarrow> request \<Rightarrow> app \<Rightarrow> clip_manifest outcome" where
  "event_clip api env event_id user rq a =
     (case dict_get (db_events (ap_db a)) event_id of
        None \<Rightarrow> (Inl (Http 404), a)
      | Some e \<Rightarrow>
          if ev_end e < ev_start e then (Inl (Http 400), a)
          else let found = clip_segments e (ap_db a) in
            if found = [] then (Inl (Http 404), a)
            else (Inr \<lparr>cm_event = event_id, cm_camera = ev_camera e, cm_start = ve_iso env (ev_start e),
                       cm_end = ve_iso env (ev_end e), cm_count = int (length found),
                       cm_bytes = (\<Sum>x\<leftarrow>found. sg_size (snd x)),
                       cm_segments = map (view_segment (ve_mac env) (rq_now rq)) found\<rparr>,
                  write_audit api rq (Some user) [] ''video.clip.assemble'' event_id ''success'' []
                    (Some [(''camera_id'', JStr (ev_camera e)), (''segment_count'', JNum (of_nat (length found)))]) a))"

section \<open>The timeline of a day\<close>

record interval_view =
  iv_start :: string
  iv_end :: string
  iv_confidence :: real
  iv_status :: string

record timeline_view =
  tl_lines :: "(string \<times> string \<times> interval_view list) list"  \<comment> \<open>camera, label, intervals\<close>
  tl_recording :: "(string \<times> string \<times> string \<times> real) list"
  tl_markers :: "(string \<times> string \<times> string \<times> string \<times> string) list"

definition interval_of :: "view_env \<Rightarrow> event_row \<Rightarrow> interval_view" where
  "interval_of env e = \<lparr>iv_start = ve_iso env (ev_start e), iv_end = ve_iso env (ev_end e),
     iv_confidence = ev_confidence e, iv_status = ev_status e\<rparr>"

definition label_of :: "db \<Rightarrow> event_row \<Rightarrow> string" where
  \<comment> \<open>\<open>persons.get(identity_id, identity_status)\<close>\<close>
  "label_of d e =
     (case ev_identity e of None \<Rightarrow> ev_status e
      | Some i \<Rightarrow> (case dict_get (db_persons d) i of None \<Rightarrow> ev_status e | Some p \<Rightarrow> ps_label p))"

definition line_key :: "db \<Rightarrow> event_row \<Rightarrow> string" where
  "line_key d e = ev_camera e @ ''|'' @ label_of d e"

definition append_to :: "'k \<Rightarrow> 'v \<Rightarrow> ('k, 'v list) dict \<Rightarrow> ('k, 'v list) dict" where
  \<comment> \<open>\<open>out.setdefault(key, []).append(x)\<close>\<close>
  "append_to k x out = dict_set k ((case dict_get out k of None \<Rightarrow> [] | Some xs \<Rightarrow> xs) @ [x]) out"

definition day_us :: int where "day_us = 86400 * 1000000"

definition last_moment :: timestamp where
  \<comment> \<open>\<open>datetime.max\<close>: the last microsecond of the year 9999\<close>
  "last_moment = 253402300799999999"

definition of_camera :: "string option \<Rightarrow> string \<Rightarrow> bool" where
  "of_camera = equal_if_given"

definition presence_of_day :: "string option \<Rightarrow> timestamp \<Rightarrow> db \<Rightarrow> event_row list" where
  \<comment> \<open>ordered by camera, then by start\<close>
  "presence_of_day cid day d =
     sort_key ev_camera (sort_key ev_start (filter (\<lambda>e. day \<le> ev_start e \<and> ev_start e < day + day_us \<and>
       ev_type e = ''presence'' \<and> of_camera cid (ev_camera e)) (map snd (db_events d))))"

definition recording_of_day :: "string option \<Rightarrow> timestamp \<Rightarrow> db \<Rightarrow> segment_row list" where
  "recording_of_day cid day d =
     take 500 (sort_key sg_camera (sort_key sg_start (filter (\<lambda>s. sg_start s < day + day_us \<and> day < sg_end s \<and>
       of_camera cid (sg_camera s)) (map snd (db_segments d)))))"

definition markers_of_day :: "string option \<Rightarrow> timestamp \<Rightarrow> db \<Rightarrow> (string \<times> event_row) list" where
  "markers_of_day cid day d =
     take 500 (sort_key (\<lambda>x. ev_start (snd x)) (filter (\<lambda>x. day \<le> ev_start (snd x) \<and> ev_start (snd x) < day + day_us \<and>
       ev_type (snd x) \<noteq> ''presence'' \<and> of_camera cid (ev_camera (snd x))) (db_events d)))"

definition timeline_lines :: "view_env \<Rightarrow> db \<Rightarrow> event_row list \<Rightarrow> (string, interval_view list) dict" where
  "timeline_lines env d es = fold (\<lambda>e. append_to (line_key d e) (interval_of env e)) es []"

definition line_view :: "string \<times> 'v \<Rightarrow> string \<times> string \<times> 'v" where
  "line_view kv = (split_on CHR ''|'' (fst kv) ! 0, split_on CHR ''|'' (fst kv) ! 1, snd kv)"

definition timeline :: "view_env \<Rightarrow> string \<Rightarrow> string option \<Rightarrow> app \<Rightarrow> http_error + timeline_view" where
  "timeline env date cid a =
     (case ve_wall env date of
        None \<Rightarrow> Inl (Http 400)
      | Some day \<Rightarrow>
          if last_moment < day + day_us then Inl (Crash OverflowError)
          else Inr \<lparr>tl_lines = map line_view (timeline_lines env (ap_db a) (presence_of_day cid day (ap_db a))),
                    tl_recording = map (\<lambda>s. (sg_camera s, ve_iso env (sg_start s), ve_iso env (sg_end s), sg_duration s))
                      (recording_of_day cid day (ap_db a)),
                    tl_markers = map (\<lambda>(i, e). (i, ev_camera e, ev_type e, ve_iso env (ev_start e), ev_status e))
                      (markers_of_day cid day (ap_db a))\<rparr>)"

section \<open>Reading the audit trail\<close>

definition audit_sort :: "(string, audit_row column) dict" where
  "audit_sort = [(''ts'', By_Time au_ts), (''user'', By_Text au_username), (''action'', By_Text au_action),
     (''resource'', By_Text au_resource), (''result'', By_Text au_result), (''ip'', By_Text au_ip)]"

definition audit_column :: "string option \<Rightarrow> audit_row column" where
  "audit_column sorting =
     (let key = (case given sorting of None \<Rightarrow> ''ts'' | Some s \<Rightarrow> s)
      in (case dict_get audit_sort key of None \<Rightarrow> By_Time au_ts | Some c \<Rightarrow> c))"

definition apply_audit_sort :: "string option \<Rightarrow> string option \<Rightarrow> (string \<times> audit_row) list \<Rightarrow> (string \<times> audit_row) list" where
  "apply_audit_sort sorting direction = order_by (direction = Some ''desc'') (audit_column sorting) True"

record audit_query =
  aq_username :: "string option"
  aq_action :: "string option"
  aq_result :: "string option"
  aq_start :: "string option"
  aq_end :: "string option"

fun like :: "string \<Rightarrow> string \<Rightarrow> bool" where
  \<comment> \<open>pattern and text of SQL's \<open>LIKE\<close>, without an escape character\<close>
  "like [] s \<longleftrightarrow> s = []"
| "like (p # ps) s \<longleftrightarrow>
     (if p = CHR ''%'' then like ps s \<or> (case s of [] \<Rightarrow> False | _ # t \<Rightarrow> like (p # ps) t)
      else (case s of [] \<Rightarrow> False | c # t \<Rightarrow> (p = CHR ''_'' \<or> p = c) \<and> like ps t))"

definition ilike :: "string \<Rightarrow> string \<Rightarrow> bool" where
  "ilike p s \<longleftrightarrow> like (map lower_char p) (map lower_char s)"

definition audit_matches :: "audit_query \<Rightarrow> timestamp option \<Rightarrow> timestamp option \<Rightarrow> string \<times> audit_row \<Rightarrow> bool" where
  "audit_matches q lo hi x \<longleftrightarrow>
     (case given (aq_username q) of None \<Rightarrow> True | Some u \<Rightarrow> ilike (''%'' @ u @ ''%'') (au_username (snd x))) \<and>
     equal_if_given (aq_action q) (au_action (snd x)) \<and> equal_if_given (aq_result q) (au_result (snd x)) \<and>
     (case lo of None \<Rightarrow> True | Some t \<Rightarrow> au_ts (snd x) \<ge> t) \<and> (case hi of None \<Rightarrow> True | Some t \<Rightarrow> au_ts (snd x) \<le> t)"

definition list_audit ::
  "view_env \<Rightarrow> audit_query \<Rightarrow> string option \<Rightarrow> string option \<Rightarrow> int \<Rightarrow> int \<Rightarrow> app \<Rightarrow> http_error + (string \<times> string \<times> audit_row) listing" where
  \<comment> \<open>an item is the id, the text of the time, and the row\<close>
  "list_audit env q sorting direction limit offset a =
     (if \<not> sort_ok (dict_keys audit_sort) sorting direction \<or> limit < 1 \<or> 500 < limit \<or> offset < 0 then Inl (Http 422)
      else (case time_bounds env (aq_start q) (aq_end q) of
              Inl err \<Rightarrow> Inl err
            | Inr (lo, hi) \<Rightarrow>
                (let found = filter (audit_matches q lo hi) (db_audit (ap_db a)) in
                 Inr \<lparr>li_items = map (\<lambda>(i, r). (i, ve_iso env (au_ts r), r)) (page_of limit offset (apply_audit_sort sorting direction found)),
                      li_total = int (length found), li_limit = limit, li_offset = offset\<rparr>)))"

definition audit_header :: "string list" where
  "audit_header = [''ts'', ''username'', ''action'', ''resource'', ''result'', ''source_ip'', ''detail'']"

definition audit_cells :: "(json \<Rightarrow> string) \<Rightarrow> view_env \<Rightarrow> string \<times> audit_row \<Rightarrow> string list" where
  \<comment> \<open>\<open>str\<close> of a parsed value; the detail column shows the reason only\<close>
  "audit_cells str_json env x =
     (let r = snd x;
          reason = (case au_detail r of None \<Rightarrow> [] | Some d \<Rightarrow>
                      (case dict_get d ''reason'' of None \<Rightarrow> [] | Some JNull \<Rightarrow> [] | Some (JStr s) \<Rightarrow> s | Some v \<Rightarrow> str_json v))
      in map csv_cell [ve_iso env (au_ts r), au_username r, au_action r, au_resource r, au_result r, au_ip r, reason])"

definition export_audit_csv ::
  "api_env \<Rightarrow> view_env \<Rightarrow> (json \<Rightarrow> string) \<Rightarrow> audit_query \<Rightarrow> string option \<Rightarrow> string option \<Rightarrow> string \<times> user_row \<Rightarrow> request \<Rightarrow>
   app \<Rightarrow> string outcome" where
  "export_audit_csv api env str_json q sorting direction user rq a =
     (if \<not> sort_ok (dict_keys audit_sort) sorting direction then (Inl (Http 422), a)
      else (case time_bounds env (aq_start q) (aq_end q) of
              Inl err \<Rightarrow> (Inl err, a)
            | Inr (lo, hi) \<Rightarrow>
                (let found = take 50000 (apply_audit_sort sorting direction (filter (audit_matches q lo hi) (db_audit (ap_db a))));
                     detail = [(''rows'', JNum (of_nat (length found))),
                       (''filters'', JObj [(''username'', text_json (aq_username q)), (''action'', text_json (aq_action q)),
                          (''result'', text_json (aq_result q))])]
                 in (Inr (csv_text (audit_header # map (audit_cells str_json env) found)),
                     write_audit api rq (Some user) [] ''audit.export_csv'' [] ''success'' [] (Some detail) a))))"

section \<open>Pages of a search\<close>

text \<open>
  C19. Paging through a search shows every matching event exactly once, in the order asked for
  (descending or ascending in the column, equal rows by id), whatever the page size; each page
  reports the full count. The column called duration is the end of the event.
\<close>

theorem event_pages_exact:
  assumes "sort_ok (dict_keys event_sort) sorting direction" and "1 \<le> limit" and "limit \<le> 500"
    and "time_bounds env (eq_start q) (eq_end q) = Inr (lo, hi)"
    and "length (filter (event_matches q lo hi) (db_events (ap_db a))) \<le> n * nat limit"
  shows "\<exists>ordered. mset ordered = mset (filter (event_matches q lo hi) (db_events (ap_db a))) \<and>
    sorted_wrt (row_precedes (direction = Some ''desc'') (sort_column sorting) False) ordered \<and>
    concat (map (\<lambda>k. case list_events env q sorting direction limit (int k * limit) a of
        Inr p \<Rightarrow> li_items p | Inl _ \<Rightarrow> []) [0..<n]) = map (event_item_of env) ordered \<and>
    list_all (\<lambda>k. case list_events env q sorting direction limit (int k * limit) a of
        Inr p \<Rightarrow> li_total p = int (length ordered) \<and> length (li_items p) \<le> nat limit | Inl _ \<Rightarrow> False) [0..<n] \<and>
    sort_column (Some ''duration'') = By_Time ev_end"
proof (intro exI conjI)
  let ?found = "filter (event_matches q lo hi) (db_events (ap_db a))"
  let ?ordered = "apply_sort sorting direction ?found"
  have page: "list_events env q sorting direction limit (int k * limit) a =
      Inr \<lparr>li_items = map (event_item_of env) (page_of limit (int k * limit) ?ordered),
           li_total = int (length ?found), li_limit = limit, li_offset = int k * limit\<rparr>" for k
    using assms(1-4) by (simp add: list_events_def Let_def linorder_not_less)
  show m: "mset ?ordered = mset ?found" unfolding apply_sort_def by (rule order_by_mset)
  show "sorted_wrt (row_precedes (direction = Some ''desc'') (sort_column sorting) False) ?ordered"
    unfolding apply_sort_def by (rule order_by_sorted)
  have "concat (map (\<lambda>k. page_of limit (int k * limit) ?ordered) [0..<n]) = ?ordered"
    unfolding apply_sort_def by (rule rows_listing.pages_tile) (use assms(2,5) in auto)
  then have "map (event_item_of env) (concat (map (\<lambda>k. page_of limit (int k * limit) ?ordered) [0..<n])) =
    map (event_item_of env) ?ordered" by simp
  then show "concat (map (\<lambda>k. case list_events env q sorting direction limit (int k * limit) a of
        Inr p \<Rightarrow> li_items p | Inl _ \<Rightarrow> []) [0..<n]) = map (event_item_of env) ?ordered"
    by (simp add: page map_concat o_def)
  have "length ?ordered = length ?found" using m by (metis size_mset)
  then show "list_all (\<lambda>k. case list_events env q sorting direction limit (int k * limit) a of
        Inr p \<Rightarrow> li_total p = int (length ?ordered) \<and> length (li_items p) \<le> nat limit | Inl _ \<Rightarrow> False) [0..<n]"
    by (simp add: page list_all_iff page_of_def)
  show "sort_column (Some ''duration'') = By_Time ev_end" by (simp add: sort_column_def given_def event_sort_def dict_get_def)
qed

section \<open>Exports\<close>

lemma write_audit_row:
  "\<exists>rec. au_action rec = action \<and> au_resource rec = resource \<and> au_user rec = map_option fst user \<and> au_detail rec = detail \<and>
     ap_db (write_audit env rq user name action resource result ip detail a) =
       (ap_db a)\<lparr>db_audit := dict_set (ae_uuid env (ap_next a)) rec (db_audit (ap_db a))\<rparr>"
  by (rule exI [of _ "\<lparr>au_ts = rq_now rq, au_user = map_option fst user,
      au_username = (if name \<noteq> [] then name else (case user of None \<Rightarrow> [] | Some (i, u) \<Rightarrow> us_email u)), au_action = action,
      au_resource = resource, au_result = result, au_ip = ip, au_request = rq_id rq, au_detail = detail\<rparr>"])
    (simp add: write_audit_def fresh_id_def Let_def)

definition formula_safe :: "string \<Rightarrow> bool" where
  "formula_safe s \<longleftrightarrow> (case s of [] \<Rightarrow> True | c # _ \<Rightarrow> c \<notin> {CHR ''='', CHR ''+'', CHR ''-'', CHR ''@''})"

lemma csv_cell_formula: "formula_safe (csv_cell s)"
  by (auto simp: formula_safe_def csv_cell_def split: list.splits)

text \<open>
  C20. What an export holds. Read back, it is the header and one line for each of the first 50000
  selected events in the requested order; no cell starts a formula; and the export adds
  exactly one audit record, with the user and the number of lines. A selection by ids leaves
  the camera filter out, and an identity filter is never applied.
\<close>

theorem event_export_exact:
  assumes "export_events_csv api env q ids sorting direction user rq a = (Inr exported, a')"
  shows "(\<exists>lo hi found. time_bounds env (eq_start q) (eq_end q) = Inr (lo, hi) \<and>
      mset found = mset (filter (export_matches ids q lo hi) (db_events (ap_db a))) \<and>
      sorted_wrt (row_precedes (direction = Some ''desc'') (sort_column sorting) False) found \<and>
      parse_csv exported = event_header # map (event_cells env) (take 50000 found) \<and>
      list_all (list_all formula_safe) (map (event_cells env) (take 50000 found)) \<and>
      (\<exists>rec. ap_db a' = (ap_db a)\<lparr>db_audit := dict_set (ae_uuid api (ap_next a)) rec (db_audit (ap_db a))\<rparr> \<and>
         au_user rec = Some (fst user) \<and> au_action rec = ''events.export_csv'' \<and>
         dict_get (the (au_detail rec)) ''rows'' = Some (JNum (of_nat (min 50000 (length found)))))) \<and>
    fst (export_events_csv api env (q\<lparr>eq_identity := i\<rparr>) ids sorting direction user rq a) = Inr exported \<and>
    (if given ids = None then True
     else fst (export_events_csv api env (q\<lparr>eq_camera := c\<rparr>) ids sorting direction user rq a) = Inr exported)"
proof -
  obtain lo hi where b: "time_bounds env (eq_start q) (eq_end q) = Inr (lo, hi)" and ok: "sort_ok (dict_keys event_sort) sorting direction"
    using assms by (auto simp: export_events_csv_def split: sum.splits if_splits)
  let ?found = "apply_sort sorting direction (filter (export_matches ids q lo hi) (db_events (ap_db a)))"
  have t: "exported = csv_text (event_header # map (event_cells env) (take 50000 ?found))"
    using assms b ok by (simp add: export_events_csv_def Let_def)
  have parsed: "parse_csv exported = event_header # map (event_cells env) (take 50000 ?found)"
    unfolding t by (rule parse_csv_text) (simp add: event_header_def list_all_iff event_cells_def Let_def)
  have safe: "list_all (list_all formula_safe) (map (event_cells env) (take 50000 ?found))"
    by (simp add: list_all_iff event_cells_def Let_def csv_cell_formula)
  have audit: "\<exists>rec. ap_db a' = (ap_db a)\<lparr>db_audit := dict_set (ae_uuid api (ap_next a)) rec (db_audit (ap_db a))\<rparr> \<and>
      au_user rec = Some (fst user) \<and> au_action rec = ''events.export_csv'' \<and>
      dict_get (the (au_detail rec)) ''rows'' = Some (JNum (of_nat (min 50000 (length ?found))))"
  proof -
    let ?detail = "[(''rows'', JNum (of_nat (length (take 50000 ?found)))),
        (''filters'', JObj [(''camera_id'', text_json (eq_camera q)), (''identity_status'', text_json (eq_status q)),
           (''start'', text_json (eq_start q)), (''end'', text_json (eq_end q)),
           (''min_confidence'', (case eq_min q of None \<Rightarrow> JNull | Some c \<Rightarrow> JNum c))])]"
    have "a' = write_audit api rq (Some user) [] ''events.export_csv'' [] ''success'' [] (Some ?detail) a"
      using assms b ok by (simp add: export_events_csv_def Let_def)
    then show ?thesis
      using write_audit_row [of "''events.export_csv''" "[]" "Some user" "Some ?detail" api rq "[]" "''success''" "[]" a]
      by (elim exE) (rule exI, auto simp: dict_get_def min.commute)
  qed
  have ident: "export_matches ids (q\<lparr>eq_identity := i\<rparr>) lo hi = export_matches ids q lo hi"
    by (cases "given ids") (simp_all add: fun_eq_iff export_matches_def selected_def)
  have cam: "given ids \<noteq> None \<Longrightarrow> export_matches ids (q\<lparr>eq_camera := c\<rparr>) lo hi = export_matches ids q lo hi"
    by (auto simp: fun_eq_iff export_matches_def selected_def)
  have "fst (export_events_csv api env (q\<lparr>eq_identity := i\<rparr>) ids sorting direction user rq a) = Inr exported"
    using b ok unfolding t by (simp add: export_events_csv_def Let_def ident)
  moreover have "given ids \<noteq> None \<Longrightarrow> fst (export_events_csv api env (q\<lparr>eq_camera := c\<rparr>) ids sorting direction user rq a) = Inr exported"
    using b ok unfolding t by (simp add: export_events_csv_def Let_def cam)
  moreover have "mset ?found = mset (filter (export_matches ids q lo hi) (db_events (ap_db a)))"
    "sorted_wrt (row_precedes (direction = Some ''desc'') (sort_column sorting) False) ?found"
    unfolding apply_sort_def by (rule order_by_mset order_by_sorted)+
  ultimately show ?thesis using b parsed safe audit by auto
qed

section \<open>Clips\<close>

lemma take_sort_key_earliest:
  fixes f :: "'a \<Rightarrow> 'b :: linorder"
  shows "x \<in> set (drop n (sort_key f xs)) \<Longrightarrow> y \<in> set (take n (sort_key f xs)) \<Longrightarrow> f y \<le> f x"
proof -
  have "sorted (map f (take n (sort_key f xs)) @ map f (drop n (sort_key f xs)))"
    unfolding map_append [symmetric] by simp
  then show "x \<in> set (drop n (sort_key f xs)) \<Longrightarrow> y \<in> set (take n (sort_key f xs)) \<Longrightarrow> f y \<le> f x"
    unfolding sorted_append by auto
qed

lemma link_opens:
  "serve_video base mac later key (str_int (clock_seconds now + 300)) (storage_sig mac key (clock_seconds now + 300)) fs =
    (if clock_seconds now + 300 < clock_seconds later then Inl 403
     else case get base key fs of Inr x \<Rightarrow> Inr x | Inl err \<Rightarrow> Inl (if err = FileNotFoundError then 404 else 500))"
  by (auto simp: serve_video_def verify_signed_url_def split: sum.splits)

text \<open>
  What a clip holds: the earliest of the camera's segments that overlap the event, in order
  of their start, two hundred at the most; all of them when there are no more. Each link serves
  what is stored under the segment's key for five minutes and is refused afterwards. Issuing
  the clip is audited and changes nothing else.
\<close>

theorem event_clip_exact:
  assumes "event_clip api env event_id user rq a = (Inr m, a')"
  shows "\<exists>e found others. dict_get (db_events (ap_db a)) event_id = Some e \<and> ev_start e \<le> ev_end e \<and>
    mset (found @ others) = mset (filter (\<lambda>x. sg_camera (snd x) = ev_camera e \<and> sg_start (snd x) < ev_end e \<and> ev_start e < sg_end (snd x))
       (db_segments (ap_db a))) \<and>
    found \<noteq> [] \<and> length found \<le> 200 \<and> (others = [] \<or> length found = 200) \<and>
    sorted (map (\<lambda>x. sg_start (snd x)) found) \<and>
    list_all (\<lambda>x. list_all (\<lambda>y. sg_start (snd y) \<le> sg_start (snd x)) found) others \<and>
    map sv_id (cm_segments m) = map fst found \<and> cm_count m = int (length found) \<and> cm_bytes m = (\<Sum>x\<leftarrow>found. sg_size (snd x)) \<and>
    list_all2 (\<lambda>v x. let expiry = clock_seconds (rq_now rq) + 300; sig = storage_sig (ve_mac env) (sg_key (snd x)) expiry in
       sv_url v = ''/api/video/'' @ quote_all (sg_key (snd x)) @ ''?exp='' @ str_int expiry @ ''&sig='' @ sig \<and>
       (serve_video base (ve_mac env) later (sg_key (snd x)) (str_int expiry) sig fs =
         (if expiry < clock_seconds later then Inl 403
          else case get base (sg_key (snd x)) fs of Inr y \<Rightarrow> Inr y | Inl err \<Rightarrow> Inl (if err = FileNotFoundError then 404 else 500))))
      (cm_segments m) found \<and>
    (\<exists>rec. au_action rec = ''video.clip.assemble'' \<and> au_resource rec = event_id \<and> au_user rec = Some (fst user) \<and>
       ap_db a' = (ap_db a)\<lparr>db_audit := dict_set (ae_uuid api (ap_next a)) rec (db_audit (ap_db a))\<rparr>)"
proof -
  obtain e where e: "dict_get (db_events (ap_db a)) event_id = Some e" "\<not> ev_end e < ev_start e" "clip_segments e (ap_db a) \<noteq> []"
    using assms by (auto simp: event_clip_def Let_def split: option.splits if_splits)
  let ?over = "filter (\<lambda>x. sg_camera (snd x) = ev_camera e \<and> sg_start (snd x) < ev_end e \<and> ev_start e < sg_end (snd x)) (db_segments (ap_db a))"
  let ?sorted = "sort_key (\<lambda>x. sg_start (snd x)) ?over"
  let ?found = "take 200 ?sorted"
  have c: "clip_segments e (ap_db a) = ?found" by (simp add: clip_segments_def)
  have m: "cm_segments m = map (view_segment (ve_mac env) (rq_now rq)) ?found" "cm_count m = int (length ?found)"
    "cm_bytes m = (\<Sum>x\<leftarrow>?found. sg_size (snd x))"
    using assms e by (auto simp: event_clip_def Let_def c)
  have audit: "\<exists>rec. au_action rec = ''video.clip.assemble'' \<and> au_resource rec = event_id \<and> au_user rec = Some (fst user) \<and>
       ap_db a' = (ap_db a)\<lparr>db_audit := dict_set (ae_uuid api (ap_next a)) rec (db_audit (ap_db a))\<rparr>"
    using assms e(1-3) write_audit_row [of "''video.clip.assemble''" event_id "Some user" _ api rq "[]" "''success''" "[]" a]
    by (simp add: event_clip_def Let_def) metis
  have "map sv_id (cm_segments m) = map fst ?found"
    unfolding m(1) by (simp add: view_segment_def o_def case_prod_unfold)
  moreover have "list_all2 (\<lambda>v x. let expiry = clock_seconds (rq_now rq) + 300; sig = storage_sig (ve_mac env) (sg_key (snd x)) expiry in
       sv_url v = ''/api/video/'' @ quote_all (sg_key (snd x)) @ ''?exp='' @ str_int expiry @ ''&sig='' @ sig \<and>
       (serve_video base (ve_mac env) later (sg_key (snd x)) (str_int expiry) sig fs =
         (if expiry < clock_seconds later then Inl 403
          else case get base (sg_key (snd x)) fs of Inr y \<Rightarrow> Inr y | Inl err \<Rightarrow> Inl (if err = FileNotFoundError then 404 else 500))))
      (cm_segments m) ?found"
    unfolding m(1) list_all2_map1
    by (rule list.rel_refl_strong) (simp add: view_segment_def case_prod_unfold sign_get_url_def link_opens Let_def)
  moreover have "mset (?found @ drop 200 ?sorted) = mset ?over" by simp
  moreover have "list_all (\<lambda>x. list_all (\<lambda>y. sg_start (snd y) \<le> sg_start (snd x)) ?found) (drop 200 ?sorted)"
    unfolding list_all_iff by (auto intro: take_sort_key_earliest)
  moreover have "sorted (map (\<lambda>x. sg_start (snd x)) ?found)"
    unfolding take_map [symmetric] by (intro sorted_wrt_take) simp
  moreover have "drop 200 ?sorted = [] \<or> length ?found = 200" by auto
  moreover have "length ?found \<le> 200" "?found \<noteq> []" using e(3) by (auto simp: c)
  ultimately show ?thesis using e(1,2) m(2,3) audit by (intro exI [of _ e] exI [of _ ?found] exI [of _ "drop 200 ?sorted"]) simp
qed

section \<open>Timeline lines\<close>

lemma dict_set_map_keys:
  "k \<in> set ks \<Longrightarrow> distinct ks \<Longrightarrow> dict_set k v (map (\<lambda>x. (x, g x)) ks) = map (\<lambda>x. (x, if x = k then v else g x)) ks"
proof (induction ks)
  case (Cons x ks)
  then show ?case by (cases "x = k") (auto simp: dict_set_def)
qed simp

lemma dict_get_map_keys: "dict_get (map (\<lambda>x. (x, g x)) ks) k = (if k \<in> set ks then Some (g k) else None)"
  by (induction ks) (auto simp: dict_get_def)

lemma grouped_exact:
  "fold (\<lambda>e. append_to (k e) (g e)) es [] =
     map (\<lambda>x. (x, map g (filter (\<lambda>e. k e = x) es))) (rev (remdups (rev (map k es))))"
proof (induction es rule: rev_induct)
  case (snoc e es)
  let ?ks = "rev (remdups (rev (map k es)))"
  let ?d = "map (\<lambda>x. (x, map g (filter (\<lambda>u. k u = x) es))) ?ks"
  have step: "fold (\<lambda>e. append_to (k e) (g e)) (es @ [e]) [] = append_to (k e) (g e) ?d" by (simp add: snoc)
  have ks: "rev (remdups (rev (map k (es @ [e])))) = (if k e \<in> set ?ks then ?ks else ?ks @ [k e])" by simp
  show ?case
  proof (cases "k e \<in> set ?ks")
    case True
    have "append_to (k e) (g e) ?d = map (\<lambda>x. (x, if x = k e then map g (filter (\<lambda>u. k u = k e) es) @ [g e]
        else map g (filter (\<lambda>u. k u = x) es))) ?ks"
      unfolding append_to_def dict_get_map_keys using True by (simp only: if_True option.case) (rule dict_set_map_keys, simp_all)
    then show ?thesis unfolding step ks using True by auto
  next
    case False
    have "k u \<noteq> k e" if "u \<in> set es" for u using False imageI [OF that, of k] by auto
    then have n: "filter (\<lambda>u. k u = k e) es = []" by (simp add: filter_empty_conv)
    have "k e \<notin> set (dict_keys ?d)" using False by (simp add: dict_keys_def o_def)
    then have "append_to (k e) (g e) ?d = ?d @ [(k e, [g e])]"
      unfolding append_to_def dict_get_map_keys using False by (simp only: if_False option.case append_Nil) (rule dict_set_fresh)
    moreover have "?d = map (\<lambda>x. (x, map g (filter (\<lambda>u. k u = x) (es @ [e])))) ?ks" using False by auto
    moreover have "map g (filter (\<lambda>u. k u = k e) (es @ [e])) = [g e]" using n by simp
    ultimately show ?thesis unfolding step ks using False by (simp only: if_False map_append list.map)
  qed
qed simp

lemma grouped_mset:
  "distinct ks \<Longrightarrow> set (map k es) \<subseteq> set ks \<Longrightarrow>
   mset (concat (map (\<lambda>x. map g (filter (\<lambda>e. k e = x) es)) ks)) = mset (map g es)"
proof (induction ks arbitrary: es)
  case (Cons x ks)
  let ?rest = "filter (\<lambda>e. k e \<noteq> x) es"
  have same: "map (\<lambda>y. map g (filter (\<lambda>e. k e = y) es)) ks = map (\<lambda>y. map g (filter (\<lambda>e. k e = y) ?rest)) ks"
    using Cons.prems(1) by (intro map_cong refl) (auto intro!: arg_cong [of _ _ "map g"] filter_cong)
  have "mset (concat (map (\<lambda>y. map g (filter (\<lambda>e. k e = y) ?rest)) ks)) = mset (map g ?rest)"
    using Cons.prems by (intro Cons.IH) auto
  then have "mset (concat (map (\<lambda>y. map g (filter (\<lambda>e. k e = y) es)) ks)) = mset (map g ?rest)" by (simp only: same)
  moreover have "mset (map g (filter (\<lambda>e. k e = x) es)) + mset (map g ?rest) = mset (map g es)"
    by (induction es) auto
  ultimately show ?case by simp
qed simp

lemma day_line:
  assumes "\<forall>e \<in> set (map snd (db_events d)). CHR ''|'' \<notin> set (ev_camera e)" and "u \<in> set (presence_of_day cid day d)"
  shows "filter (\<lambda>e. line_key d e = line_key d u) (presence_of_day cid day d) =
    sort_key ev_start (filter (\<lambda>e. ev_camera e = ev_camera u \<and> label_of d e = label_of d u)
      (filter (\<lambda>e. day \<le> ev_start e \<and> ev_start e < day + day_us \<and> ev_type e = ''presence'' \<and> of_camera cid (ev_camera e))
        (map snd (db_events d))))"
proof -
  let ?es = "filter (\<lambda>e. day \<le> ev_start e \<and> ev_start e < day + day_us \<and> ev_type e = ''presence'' \<and> of_camera cid (ev_camera e))
        (map snd (db_events d))"
  let ?same = "\<lambda>e. ev_camera e = ev_camera u \<and> label_of d e = label_of d u"
  have bar: "CHR ''|'' \<notin> set (ev_camera e)" if "e \<in> set (presence_of_day cid day d)" for e
    using assms(1) that by (auto simp: presence_of_day_def)
  have "line_key d e = line_key d u \<longleftrightarrow> ?same e" if "e \<in> set (presence_of_day cid day d)" for e
  proof
    assume "line_key d e = line_key d u"
    then have "split_on CHR ''|'' (line_key d e) = split_on CHR ''|'' (line_key d u)" by simp
    then have "ev_camera e = ev_camera u"
      using bar [OF that] bar [OF assms(2)] by (simp add: line_key_def split_on_append)
    with \<open>line_key d e = line_key d u\<close> show "?same e" by (simp add: line_key_def)
  qed (simp add: line_key_def)
  then have "filter (\<lambda>e. line_key d e = line_key d u) (presence_of_day cid day d) = filter ?same (presence_of_day cid day d)"
    by (intro filter_cong) auto
  also have "\<dots> = sort_key ev_camera (sort_key ev_start (filter ?same ?es))"
    unfolding presence_of_day_def by (simp only: filter_sort)
  also have "\<dots> = sort_key ev_start (filter ?same ?es)"
  proof (rule sort_key_id_if_sorted)
    have "map ev_camera (sort_key ev_start (filter ?same ?es)) = replicate (length (filter ?same ?es)) (ev_camera u)"
      by (rule replicate_eqI) auto
    then show "sorted (map ev_camera (sort_key ev_start (filter ?same ?es)))" by (simp only:) simp
  qed
  finally show ?thesis .
qed

text \<open>
  C21. The timeline of a day loses no presence and shows none twice; a line holds, in order of
  their start, all intervals of one camera and one label that lie in the day, and no others.
  The label it shows ends at its first bar, whatever comes after: two people whose names agree
  up to a bar get two lines of the same name. Recordings and markers stop at five hundred.
\<close>

theorem timeline_exact:
  assumes "timeline env date cid a = Inr v"
    and "\<forall>e \<in> set (map snd (db_events (ap_db a))). CHR ''|'' \<notin> set (ev_camera e)"
  shows "\<exists>day es. ve_wall env date = Some day \<and>
    es = filter (\<lambda>e. day \<le> ev_start e \<and> ev_start e < day + 86400000000 \<and> ev_type e = ''presence'' \<and> equal_if_given cid (ev_camera e))
           (map snd (db_events (ap_db a))) \<and>
    mset (concat (map (\<lambda>l. snd (snd l)) (tl_lines v))) = mset (map (interval_of env) es) \<and>
    (\<forall>l \<in> set (tl_lines v). \<exists>name. fst (snd l) = takeWhile (\<lambda>c. c \<noteq> CHR ''|'') name \<and> snd (snd l) \<noteq> [] \<and>
       snd (snd l) = map (interval_of env) (sort_key ev_start (filter (\<lambda>e. ev_camera e = fst l \<and> label_of (ap_db a) e = name) es))) \<and>
    length (tl_recording v) \<le> 500 \<and> length (tl_markers v) \<le> 500"
proof -
  let ?d = "ap_db a"
  obtain day where day: "ve_wall env date = Some day" "\<not> last_moment < day + day_us"
    using assms(1) by (auto simp: timeline_def split: option.splits if_splits)
  let ?es = "filter (\<lambda>e. day \<le> ev_start e \<and> ev_start e < day + day_us \<and> ev_type e = ''presence'' \<and> of_camera cid (ev_camera e))
        (map snd (db_events ?d))"
  let ?day = "presence_of_day cid day ?d"
  let ?ks = "rev (remdups (rev (map (line_key ?d) ?day)))"
  have v: "tl_lines v = map line_view (map (\<lambda>x. (x, map (interval_of env) (filter (\<lambda>e. line_key ?d e = x) ?day))) ?ks)"
    "length (tl_recording v) \<le> 500" "length (tl_markers v) \<le> 500"
    using assms(1) day by (auto simp: timeline_def timeline_lines_def grouped_exact recording_of_day_def markers_of_day_def)
  have m: "mset (map (interval_of env) ?day) = mset (map (interval_of env) ?es)"
    by (simp add: presence_of_day_def)
  have s: "(\<lambda>l. snd (snd l)) \<circ> line_view = snd" by (simp add: fun_eq_iff line_view_def)
  have all: "mset (concat (map (\<lambda>l. snd (snd l)) (tl_lines v))) = mset (map (interval_of env) ?es)"
    unfolding v(1) map_map m [symmetric]
    using grouped_mset [of ?ks "line_key ?d" ?day "interval_of env"] by (simp add: o_def line_view_def)
  have each: "\<exists>name. fst (snd l) = takeWhile (\<lambda>c. c \<noteq> CHR ''|'') name \<and> snd (snd l) \<noteq> [] \<and>
       snd (snd l) = map (interval_of env) (sort_key ev_start (filter (\<lambda>e. ev_camera e = fst l \<and> label_of ?d e = name) ?es))"
    if l: "l \<in> set (tl_lines v)" for l
  proof -
    from l obtain u where u: "u \<in> set ?day"
      "l = line_view (line_key ?d u, map (interval_of env) (filter (\<lambda>e. line_key ?d e = line_key ?d u) ?day))"
      unfolding v(1) by auto
    have bar: "CHR ''|'' \<notin> set (ev_camera u)" using assms(2) u(1) by (auto simp: presence_of_day_def)
    have first: "split_on c s ! 0 = takeWhile (\<lambda>x. x \<noteq> c) s" for c s
      by (induction s) (auto split: list.splits)
    have "fst l = ev_camera u" "fst (snd l) = takeWhile (\<lambda>c. c \<noteq> CHR ''|'') (label_of ?d u)"
      using bar by (simp_all add: u(2) line_view_def line_key_def split_on_append first)
    moreover have "filter (\<lambda>e. line_key ?d e = line_key ?d u) ?day \<noteq> []" using u(1) by (auto simp: filter_empty_conv)
    moreover have "snd (snd l) = map (interval_of env) (filter (\<lambda>e. line_key ?d e = line_key ?d u) ?day)"
      by (simp add: u(2) line_view_def)
    ultimately show ?thesis unfolding day_line [OF assms(2) u(1)] by (intro exI [of _ "label_of ?d u"]) auto
  qed
  have d: "day_us = 86400000000" "of_camera cid = equal_if_given cid" by (simp_all add: day_us_def of_camera_def)
  show ?thesis using day(1) all each v(2,3) unfolding d by blast
qed

end
