(* ===== verification/Event_Examples.thy ===== *)
theory Event_Examples
  imports Event_Api Auth_Examples
begin

text \<open>Two visits to a shop, searched, exported and shown: the witnesses of \<open>Event_Api\<close>.\<close>

definition shop_view :: view_env where
  "shop_view = \<lparr>ve_iso8601 = \<lambda>s. None, ve_wall = \<lambda>s. Some 0, ve_iso = str_int, ve_num = \<lambda>x. ''1'', ve_mac = \<lambda>s. s\<rparr>"

definition shop_visit :: "timestamp \<Rightarrow> string \<Rightarrow> event_row" where
  "shop_visit t status = \<lparr>ev_camera = ''c'', ev_track = None, ev_identity = None, ev_status = status, ev_type = ''presence'',
     ev_start = t, ev_end = t + 5, ev_confidence = 1, ev_bbox = (0, 0, 1, 1), ev_detail = [], ev_snapshot_enc = None,
     ev_segment_enc = None, ev_created_at = t\<rparr>"

definition shop_segment :: segment_row where
  "shop_segment = \<lparr>sg_camera = ''c'', sg_key = ''k'', sg_backend = ''local'', sg_start = 0, sg_end = 12, sg_duration = 1, sg_size = 9,
     sg_created_at = 12\<rparr>"

definition shop_app :: app where
  "shop_app = \<lparr>ap_db = empty_db\<lparr>db_events := [(''e1'', shop_visit 10 ''known''), (''e2'', shop_visit 20 ''=unknown'')],
     db_segments := [(''s1'', shop_segment)]\<rparr>, ap_next = 0\<rparr>"

definition all_events :: event_query where
  "all_events = \<lparr>eq_camera = None, eq_identity = None, eq_status = None, eq_start = None, eq_end = None, eq_min = None\<rparr>"

lemma shop_events: "db_events (ap_db shop_app) = [(''e1'', shop_visit 10 ''known''), (''e2'', shop_visit 20 ''=unknown'')]"
  by (simp add: shop_app_def)

lemma shop_bounds: "time_bounds shop_view (eq_start all_events) (eq_end all_events) = Inr (None, None)"
  by (simp add: time_bounds_def time_bound_def given_def all_events_def)

lemma shop_matches: "filter (event_matches all_events None None) (db_events (ap_db shop_app)) = db_events (ap_db shop_app)"
  by (simp add: shop_events event_matches_def equal_if_given_def given_def all_events_def in_window_def at_least_def)

theorem event_pages_exact_witness:
  "length (concat (map (\<lambda>k. case list_events shop_view all_events None (Some ''desc'') 1 (int k * 1) shop_app of
     Inr p \<Rightarrow> li_items p | Inl _ \<Rightarrow> []) [0..<2])) = 2"
proof -
  have "sort_ok (dict_keys event_sort) None (Some ''desc'')" by (simp add: sort_ok_def option_in_def)
  moreover have "length (filter (event_matches all_events None None) (db_events (ap_db shop_app))) \<le> 2 * nat 1"
    by (simp only: shop_matches) (simp add: shop_events)
  ultimately obtain ordered where "mset ordered = mset (filter (event_matches all_events None None) (db_events (ap_db shop_app)))"
    "concat (map (\<lambda>k. case list_events shop_view all_events None (Some ''desc'') 1 (int k * 1) shop_app of
     Inr p \<Rightarrow> li_items p | Inl _ \<Rightarrow> []) [0..<2]) = map (event_item_of shop_view) ordered"
    using event_pages_exact [of None "Some ''desc''" 1 shop_view all_events None None shop_app 2] shop_bounds by auto
  then show ?thesis unfolding shop_matches by (metis length_map length_Cons list.size(3) numeral_2_eq_2 shop_events size_mset)
qed

theorem event_export_exact_witness:
  "\<exists>exported a'. export_events_csv desk_env shop_view all_events None None None (''u'', desk_user) desk_request shop_app = (Inr exported, a') \<and>
     hd (parse_csv exported) = event_header \<and> length (parse_csv exported) = 3 \<and> db_events (ap_db a') = db_events (ap_db shop_app)"
proof -
  have "sort_ok (dict_keys event_sort) None None" by (simp add: sort_ok_def option_in_def)
  then obtain exported a' where r: "export_events_csv desk_env shop_view all_events None None None (''u'', desk_user) desk_request shop_app = (Inr exported, a')"
    using shop_bounds by (simp add: export_events_csv_def Let_def)
  from event_export_exact [OF this] obtain lo hi found rec where
    f: "time_bounds shop_view (eq_start all_events) (eq_end all_events) = Inr (lo, hi)"
      "mset found = mset (filter (export_matches None all_events lo hi) (db_events (ap_db shop_app)))"
      "parse_csv exported = event_header # map (event_cells shop_view) (take 50000 found)"
      "ap_db a' = (ap_db shop_app)\<lparr>db_audit := dict_set (ae_uuid desk_env (ap_next shop_app)) rec (db_audit (ap_db shop_app))\<rparr>"
    by blast
  have "lo = None" "hi = None" using f(1) shop_bounds by simp_all
  then have "filter (export_matches None all_events lo hi) (db_events (ap_db shop_app)) = db_events (ap_db shop_app)"
    by (simp add: shop_events export_matches_def selected_def equal_if_given_def given_def all_events_def in_window_def at_least_def)
  then have "length found = length (db_events (ap_db shop_app))" using f(2) by (metis size_mset)
  then have "length found = 2" by (simp add: shop_events)
  then show ?thesis using r f(3,4) by simp
qed

theorem event_clip_exact_witness:
  "\<exists>m a'. event_clip desk_env shop_view ''e1'' (''u'', desk_user) desk_request shop_app = (Inr m, a') \<and> cm_count m = 1 \<and> cm_bytes m = 9"
proof -
  have "clip_segments (shop_visit 10 ''known'') (ap_db shop_app) = [(''s1'', shop_segment)]"
    by (simp add: clip_segments_def shop_app_def shop_segment_def shop_visit_def)
  then obtain m a' where r: "event_clip desk_env shop_view ''e1'' (''u'', desk_user) desk_request shop_app = (Inr m, a')"
    by (simp add: event_clip_def shop_events dict_get_def shop_visit_def Let_def)
  from event_clip_exact [OF this, of "''/d''" 0 "\<lparr>fs_files = [], fs_dirs = {}\<rparr>"] obtain e found others where
    f: "dict_get (db_events (ap_db shop_app)) ''e1'' = Some e"
      "mset (found @ others) = mset (filter (\<lambda>x. sg_camera (snd x) = ev_camera e \<and> sg_start (snd x) < ev_end e \<and> ev_start e < sg_end (snd x))
         (db_segments (ap_db shop_app)))" "found \<noteq> []" "cm_count m = int (length found)" "cm_bytes m = (\<Sum>x\<leftarrow>found. sg_size (snd x))"
    by blast
  have "e = shop_visit 10 ''known''" using f(1) by (simp add: shop_events dict_get_def)
  then have "mset (found @ others) = {#(''s1'', shop_segment)#}"
    using f(2) by (simp add: shop_app_def shop_segment_def shop_visit_def)
  then have "found = [(''s1'', shop_segment)]" using f(3) by (cases found) (auto simp: add_eq_conv_ex)
  then show ?thesis using r f(4,5) by (simp add: shop_segment_def)
qed

theorem timeline_exact_witness:
  "\<exists>v. timeline shop_view ''2026-01-01'' None shop_app = Inr v \<and> length (concat (map (\<lambda>l. snd (snd l)) (tl_lines v))) = 2"
proof -
  obtain v where v: "timeline shop_view ''2026-01-01'' None shop_app = Inr v"
    by (simp add: timeline_def shop_view_def last_moment_def day_us_def)
  have "\<forall>e \<in> set (map snd (db_events (ap_db shop_app))). CHR ''|'' \<notin> set (ev_camera e)"
    by (simp add: shop_events shop_visit_def)
  from timeline_exact [OF v this] obtain day es where d: "ve_wall shop_view ''2026-01-01'' = Some day"
    "es = filter (\<lambda>e. day \<le> ev_start e \<and> ev_start e < day + 86400000000 \<and> ev_type e = ''presence'' \<and> equal_if_given None (ev_camera e))
           (map snd (db_events (ap_db shop_app)))"
    "mset (concat (map (\<lambda>l. snd (snd l)) (tl_lines v))) = mset (map (interval_of shop_view) es)" by blast
  have "day = 0" using d(1) by (simp add: shop_view_def)
  then have "length es = 2" unfolding d(2) by (simp add: shop_events shop_visit_def equal_if_given_def given_def)
  moreover have "length (concat (map (\<lambda>l. snd (snd l)) (tl_lines v))) = length es" using d(3) by (metis length_map size_mset)
  ultimately show ?thesis using v by simp
qed

end
