(* ===== verification/People.thy ===== *)
theory People
  imports Worker Cameras
begin

text \<open>
  \<open>apps/api/routers/persons.py\<close> and \<open>rules.py\<close>: the identities, their reference images and the
  rules of a camera, and what of them the worker reads. The embedder is a parameter; an upload is
  its bytes and its file name.
\<close>

section \<open>Identities\<close>

record person_view =
  pv_id :: string
  pv_label :: string
  pv_display_name :: string
  pv_status :: string
  pv_created_at :: timestamp
  pv_faces :: int

definition faces_enrolled :: "string \<Rightarrow> db \<Rightarrow> int" where
  "faces_enrolled pid d = int (length (filter (\<lambda>(i, r). em_person r = pid) (db_embeddings d)))"

definition list_persons :: "app \<Rightarrow> person_view list" where
  "list_persons a =
     map (\<lambda>(i, p). \<lparr>pv_id = i, pv_label = ps_label p, pv_display_name = ps_display_name p, pv_status = ps_status p,
            pv_created_at = ps_created_at p, pv_faces = faces_enrolled i (ap_db a)\<rparr>)
       (sort_key (\<lambda>x. ps_label (snd x)) (db_persons (ap_db a)))"

definition put_person :: "string \<Rightarrow> person_row \<Rightarrow> app \<Rightarrow> app" where
  "put_person i r a = a\<lparr>ap_db := (ap_db a)\<lparr>db_persons := dict_set i r (db_persons (ap_db a))\<rparr>\<rparr>"

definition create_person :: "api_env \<Rightarrow> body \<Rightarrow> string \<times> user_row \<Rightarrow> request \<Rightarrow> app \<Rightarrow> (string \<times> string) outcome" where
  "create_person env b user rq a =
     (case text_field b ''label'' of
        Inl err \<Rightarrow> (Inl (Crash err), a)
      | Inr label \<Rightarrow>
          if label = [] then (Inl (Http 400), a)
          else if find_row (\<lambda>p. ps_label p = label) (db_persons (ap_db a)) \<noteq> None then (Inl (Http 409), a)
          else (case column_text b ''display_name'' [] of
                  Inl err \<Rightarrow> (Inl (Crash err), a)
                | Inr name \<Rightarrow>
                    (let (i, a1) = fresh_id env a;
                         row = \<lparr>ps_label = label, ps_display_name = name, ps_status = ''known'',
                                ps_created_by = Some (fst user), ps_created_at = rq_now rq\<rparr>
                     in (Inr (i, label), write_audit env rq (Some user) [] ''person.create'' i ''success'' []
                           (Some [(''label'', JStr label)]) (put_person i row a1)))))"

definition delete_person :: "api_env \<Rightarrow> string \<Rightarrow> string \<times> user_row \<Rightarrow> request \<Rightarrow> app \<Rightarrow> unit outcome" where
  "delete_person env pid user rq a =
     (if pid \<notin> set (dict_keys (db_persons (ap_db a))) then (Inl (Http 404), a)
      else (Inr (), write_audit env rq (Some user) [] ''person.delete'' pid ''success'' [] None
              (a\<lparr>ap_db := delete_person_rows pid (ap_db a)\<rparr>)))"

definition list_references :: "string \<Rightarrow> app \<Rightarrow> http_error + (string \<times> string \<times> int \<times> real \<times> timestamp) list" where
  \<comment> \<open>newest first\<close>
  "list_references pid a =
     (if pid \<notin> set (dict_keys (db_persons (ap_db a))) then Inl (Http 404)
      else Inr (map (\<lambda>(i, r). (i, em_model_version r, em_dimension r, em_quality r, em_created_at r))
             (sort_key (\<lambda>x. - em_created_at (snd x)) (filter (\<lambda>(i, r). em_person r = pid) (db_embeddings (ap_db a))))))"

record embedder =
  eb_version :: string
  eb_embed :: "bytes \<Rightarrow> py_error + real list"
  eb_encrypt :: "real list \<Rightarrow> string"  \<comment> \<open>\<open>encrypt_json\<close> of the vector\<close>

definition put_embedding :: "string \<Rightarrow> embedding_row \<Rightarrow> app \<Rightarrow> app" where
  "put_embedding i r a = a\<lparr>ap_db := (ap_db a)\<lparr>db_embeddings := dict_set i r (db_embeddings (ap_db a))\<rparr>\<rparr>"

definition add_reference ::
  "api_env \<Rightarrow> embedder \<Rightarrow> string \<Rightarrow> bytes \<Rightarrow> string \<Rightarrow> string \<times> user_row \<Rightarrow> request \<Rightarrow> app \<Rightarrow> (string \<times> int) outcome" where
  "add_reference env eb pid data filename user rq a =
     (if pid \<notin> set (dict_keys (db_persons (ap_db a))) then (Inl (Http 404), a)
      else if data = [] then (Inl (Http 400), a)
      else if 10 * 1024 * 1024 < length data then (Inl (Http 413), a)
      else (case eb_embed eb data of
              Inl err \<Rightarrow> (Inl (if err = ValueError then Http 422 else Crash err), a)
            | Inr v \<Rightarrow>
                (let (i, a1) = fresh_id env a;
                     row = \<lparr>em_person = pid, em_enc = eb_encrypt eb v, em_model_version = eb_version eb,
                            em_dimension = int (length v), em_quality = 1,
                            em_source_enc = Some (ae_encrypt env (''upload:'' @ filename)), em_created_at = rq_now rq\<rparr>
                 in (Inr (eb_version eb, int (length v)),
                     write_audit env rq (Some user) [] ''person.enroll'' pid ''success'' []
                       (Some [(''model_version'', JStr (eb_version eb)), (''bytes'', JNum (of_nat (length data)))])
                       (put_embedding i row a1)))))"

section \<open>Rules\<close>

definition get_rules :: "string \<Rightarrow> app \<Rightarrow> http_error + json" where
  "get_rules cid a =
     (case dict_get (db_cameras (ap_db a)) cid of
        None \<Rightarrow> Inl (Http 404)
      | Some c \<Rightarrow> Inr (case ca_rules c of None \<Rightarrow> JList [] | Some j \<Rightarrow> if json_truthy j then j else JList []))"

fun dry_run :: "string \<Rightarrow> (string \<times> json) list list \<Rightarrow> http_error + unit" where
  "dry_run cid [] = Inr ()"
| "dry_run cid (spec # specs) =
     (case rule_from_dict cid spec of
        Inr r \<Rightarrow> dry_run cid specs
      | Inl err \<Rightarrow> Inl (if err = KeyError \<or> err = ValueError then Http 400 else Crash err))"

definition put_rules ::
  "api_env \<Rightarrow> string \<Rightarrow> (string \<times> json) list list \<Rightarrow> string \<times> user_row \<Rightarrow> request \<Rightarrow> app \<Rightarrow> json outcome" where
  "put_rules env cid specs user rq a =
     (case dict_get (db_cameras (ap_db a)) cid of
        None \<Rightarrow> (Inl (Http 404), a)
      | Some c \<Rightarrow>
          (case dry_run cid specs of
             Inl err \<Rightarrow> (Inl err, a)
           | Inr _ \<Rightarrow>
               (let stored = JList (map JObj specs)
                in (Inr stored, write_audit env rq (Some user) [] ''camera.rules.update'' cid ''success'' []
                      (Some [(''count'', JNum (of_nat (length specs)))]) (put_camera cid (c\<lparr>ca_rules := Some stored\<rparr>) a)))))"

section \<open>Rules that are accepted load\<close>

lemma dry_run_ok: "dry_run cid specs = Inr () \<longleftrightarrow> list_all (\<lambda>s. \<exists>r. rule_from_dict cid s = Inr r) specs"
  by (induction specs) (auto split: sum.splits)

lemma with_camera_same: "rule_from_dict cid s = Inr r \<Longrightarrow> with_camera cid r = r"
  by (auto simp: rule_from_dict_def bind_ok_Inr Let_def split: if_splits)

lemma add_specs_ok:
  "list_all (\<lambda>s. \<exists>r. rule_from_dict cid s = Inr r) specs \<Longrightarrow> en_camera e = cid \<Longrightarrow>
   \<exists>e'. add_specs cid (map JObj specs) e = Inr e' \<and> en_rules e' = en_rules e @ map (\<lambda>s. projr (rule_from_dict cid s)) specs"
proof (induction specs arbitrary: e)
  case (Cons s specs)
  then obtain r where r: "rule_from_dict cid s = Inr r" by auto
  have "list_all (\<lambda>s. \<exists>r. rule_from_dict cid s = Inr r) specs" "en_camera (add_rule r e) = cid"
    using Cons.prems by (simp_all add: add_rule_def)
  from Cons.IH [OF this] show ?case using Cons.prems(2) by (auto simp: r add_rule_def with_camera_same [OF r])
qed simp

lemma write_audit_cameras [simp]: "db_cameras (ap_db (write_audit env rq user name action resource result ip detail a)) = db_cameras (ap_db a)"
  by (simp add: write_audit_def fresh_id_def Let_def)

lemma accepted_engine:
  assumes "dry_run cid specs = Inr ()"
  shows "\<exists>e. camera_engine (st\<lparr>se_ai_rules := True\<rparr>) cid (c\<lparr>ca_rules := Some (JList (map JObj specs))\<rparr>) = Inr (Some e) \<and>
    length (en_rules e) = length specs \<and> list_all2 (\<lambda>s r. rule_from_dict cid s = Inr r) specs (en_rules e)"
proof -
  have ok: "list_all (\<lambda>s. \<exists>r. rule_from_dict cid s = Inr r) specs" using assms dry_run_ok by blast
  obtain e where e: "add_specs cid (map JObj specs) (new_engine cid) = Inr e"
    "en_rules e = en_rules (new_engine cid) @ map (\<lambda>s. projr (rule_from_dict cid s)) specs"
    using add_specs_ok [OF ok, of "new_engine cid"] by (auto simp: new_engine_def)
  have items: "json_items (Some (JList (map JObj specs))) = Inr (map JObj specs)"
    by (cases specs) (simp_all add: json_items_def json_truthy_def)
  have rules: "en_rules e = map (\<lambda>s. projr (rule_from_dict cid s)) specs" using e(2) by (simp add: new_engine_def)
  have "list_all2 (\<lambda>s r. rule_from_dict cid s = Inr r) specs (en_rules e)"
    unfolding rules list_all2_map2 by (rule list.rel_refl_strong) (use ok in \<open>auto simp: list_all_iff\<close>)
  then show ?thesis by (simp add: camera_engine_def items rule_engine_from_json_def e(1) rules)
qed


section \<open>Enrolled people are recognised\<close>

lemma decrypt_rows_member:
  "r \<in> set rs \<Longrightarrow> v_decrypt_vec env (em_enc r) = Some v \<Longrightarrow> (em_person r, v, em_model_version r) \<in> set (decrypt_rows env rs)"
  by (force simp: decrypt_rows_def)

lemma added_reference_row:
  assumes "add_reference api eb pid data filename user rq a = (Inr (version, n), a')" and "eb_embed eb data = Inr v"
  shows "db_embeddings (ap_db a') = dict_set (ae_uuid api (ap_next a)) \<lparr>em_person = pid, em_enc = eb_encrypt eb v, em_model_version = eb_version eb,
     em_dimension = int (length v), em_quality = 1, em_source_enc = Some (ae_encrypt api (''upload:'' @ filename)), em_created_at = rq_now rq\<rparr>
     (db_embeddings (ap_db a))"
  using assms by (auto simp: add_reference_def Let_def fresh_id_def put_embedding_def write_audit_def split: if_splits)

text \<open>A camera whose watermark is older than a row reads every enrolment again.\<close>

lemma refresh_past_watermark:
  assumes "r \<in> set rs" and "case pc_watermark p of None \<Rightarrow> True | Some w \<Rightarrow> w < em_created_at r"
  shows "pc_enrolled (refresh_enrolled env now rs p) = decrypt_rows env rs"
    "pc_version (refresh_enrolled env now rs p) = pc_version p" "pc_threshold (refresh_enrolled env now rs p) = pc_threshold p"
proof -
  have "em_created_at r \<le> Max (set (map em_created_at rs))" using assms(1) by (intro Max_ge) auto
  moreover have "latest_enrolment rs = Some (Max (set (map em_created_at rs)))"
    using assms(1) by (auto simp: latest_enrolment_def)
  ultimately have "\<not> (latest_enrolment rs \<noteq> None \<and> pc_watermark p \<noteq> None \<and> the (latest_enrolment rs) \<le> the (pc_watermark p))"
    using assms(2) by (auto simp only: option.sel split: option.splits)
  then show "pc_enrolled (refresh_enrolled env now rs p) = decrypt_rows env rs" by (simp only: refresh_enrolled_def Let_def) simp
  show "pc_version (refresh_enrolled env now rs p) = pc_version p" "pc_threshold (refresh_enrolled env now rs p) = pc_threshold p"
    by (simp_all add: refresh_enrolled_def Let_def)
qed

lemma decrypt_rows_named: "\<forall>r \<in> set rs. em_person r \<noteq> [] \<Longrightarrow> named_enrolments (decrypt_rows env rs)"
  by (auto simp: named_enrolments_def decrypt_rows_def list_all_iff split: option.splits)

text \<open>
  C13. Enrolment reaches the cameras. When a reference is accepted, a camera that refreshes its
  identities afterwards (and whose newest known identity is older) matches against it: whoever
  shows a face whose embedding is as close to the reference as the threshold asks is reported as
  known, under the identity that is closest to that face.
\<close>

theorem enrolment_recognised:
  assumes "add_reference api eb pid data filename user rq a = (Inr (version, n), a')"
    and "eb_embed eb data = Inr v" and "v_decrypt_vec env (eb_encrypt eb v) = Some v"
    and "(case pc_watermark p of None \<Rightarrow> True | Some w \<Rightarrow> w < rq_now rq)" and "pc_version p = eb_version eb"
    and "pid \<noteq> []" and "\<forall>r \<in> rows (db_embeddings (ap_db a)). em_person r \<noteq> []"
    and "v_face env frame (tr_bbox tr) = Some face" and "pc_threshold p \<le> cosine (v_embed env frame face) v"
    and "-1 < cosine (v_embed env frame face) v"
  shows "\<exists>who s e. recognize env frame tr (refresh_enrolled env now (map snd (db_embeddings (ap_db a'))) p) = (Some who, Some s, ''known'') \<and>
    cosine (v_embed env frame face) v \<le> s \<and> s = cosine (v_embed env frame face) e \<and>
    (who, e, eb_version eb) \<in> set (decrypt_rows env (map snd (db_embeddings (ap_db a'))))"
proof -
  let ?rs = "map snd (db_embeddings (ap_db a'))" and ?face = "v_embed env frame face"
  let ?q = "refresh_enrolled env now ?rs p"
  note db = added_reference_row [OF assms(1,2)]
  obtain row where r: "dict_get (db_embeddings (ap_db a')) (ae_uuid api (ap_next a)) = Some row" "em_person row = pid"
    "em_enc row = eb_encrypt eb v" "em_model_version row = eb_version eb" "em_created_at row = rq_now rq" by (simp add: db)
  then have row: "row \<in> set ?rs" using dict_get_SomeD by force
  have new: "(pid, v, eb_version eb) \<in> set (decrypt_rows env ?rs)"
    using decrypt_rows_member [OF row] assms(3) r by simp
  have q: "pc_enrolled ?q = decrypt_rows env ?rs" "pc_version ?q = eb_version eb" "pc_threshold ?q = pc_threshold p"
    using refresh_past_watermark [OF row assms(4) [folded r(5)], of env now] assms(5) by simp_all
  have "\<forall>r \<in> rows (db_embeddings (ap_db a')). em_person r \<noteq> []"
    unfolding db by (rule rows_dict_set_ball) (use assms(6,7) in simp_all)
  then have "\<forall>r \<in> set ?rs. em_person r \<noteq> []" by (simp add: rows_def)
  note named = decrypt_rows_named [OF this, of env]
  let ?r = "vector_search (pc_threshold p) ?face (eb_version eb) (decrypt_rows env ?rs)"
  note c = vector_search_correct [OF named, of "pc_threshold p" ?face "eb_version eb", THEN conjunct2]
  have rec: "recognize env frame tr ?q = (rg_person ?r, rg_similarity ?r, rg_status ?r)"
    using assms(8) by (simp add: recognize_def q Let_def)
  show ?thesis
  proof (cases "rg_person ?r")
    case None
    with c new have "cosine ?face v = -1" by auto
    with assms(10) show ?thesis by simp
  next
    case (Some who)
    with c obtain e s where e: "(who, e, eb_version eb) \<in> set (decrypt_rows env ?rs)" "cosine ?face e = s" "rg_similarity ?r = Some s"
      "\<forall>(q, e', ver) \<in> set (decrypt_rows env ?rs). ver = eb_version eb \<longrightarrow> cosine ?face e' \<le> s"
      "rg_status ?r = ''known'' \<longleftrightarrow> pc_threshold p \<le> s" by auto
    have "cosine ?face v \<le> s" using e(4) new by auto
    then show ?thesis using e rec Some assms(9) by auto
  qed
qed

end
