(* ===== verification/People_Examples.thy ===== *)
theory People_Examples
  imports People Pipeline_Runs Auth_Examples
begin

text \<open>One person enrolled and seen: the witnesses of \<open>People\<close>.\<close>

definition gate_embedder :: embedder where
  "gate_embedder = \<lparr>eb_version = ''v0'', eb_embed = \<lambda>d. Inr [1], eb_encrypt = \<lambda>v. ''e''\<rparr>"

definition gate_env :: "(detection list, unit) ai_env" where
  "gate_env = lobby_env\<lparr>v_face := \<lambda>f b. Some b\<rparr>"

definition gate_app :: app where
  "gate_app = desk_app\<lparr>ap_db := empty_db\<lparr>db_persons := [(''p1'', ann_row)]\<rparr>\<rparr>"

theorem enrolment_recognised_witness:
  "\<exists>a' who s. add_reference desk_env gate_embedder ''p1'' [1] ''f'' (''u'', desk_user) desk_request gate_app = (Inr (''v0'', 1), a') \<and>
     recognize gate_env [] shown_track (refresh_enrolled gate_env 0 (map snd (db_embeddings (ap_db a'))) (projr lobby_camera)) =
       (Some who, Some s, ''known'')"
proof -
  obtain a' where r: "add_reference desk_env gate_embedder ''p1'' [1] ''f'' (''u'', desk_user) desk_request gate_app = (Inr (''v0'', 1), a')"
    by (simp add: add_reference_def gate_app_def ann_db_def dict_keys_def gate_embedder_def fresh_id_def Let_def)
  have c: "pc_watermark (projr lobby_camera) = None" "pc_version (projr lobby_camera) = ''v0''" "pc_threshold (projr lobby_camera) \<le> 1"
    by code_simp+
  have "cosine (v_embed gate_env [] face) [1] = 1" for face
    by (simp add: gate_env_def lobby_env_def cosine_def dot_def)
  then show ?thesis
    using enrolment_recognised [OF r, of "[1]" gate_env "projr lobby_camera" "[]" shown_track "tr_bbox shown_track" 0] r c
    by (auto simp: gate_embedder_def gate_env_def lobby_env_def gate_app_def desk_app_def empty_db_def rows_def)
qed

end
