(* ===== verification/Alert_Api.thy ===== *)
theory Alert_Api
  imports Alerts Event_Api Auth_Examples
begin

text \<open>
  \<open>apps/api/routers/alerts.py\<close>: managing alert routes, testing them, and the list of analytic
  events. The cipher of the configurations, the resolver and the delivery are parameters.
\<close>

section \<open>Routes\<close>

record route_body =
  rb_rule_type :: string
  rb_camera :: "string option"
  rb_channel :: string
  rb_config :: "config option"
  rb_enabled :: bool
  rb_cooldown :: int

definition list_routes :: "app \<Rightarrow> (string \<times> string \<times> string option \<times> string \<times> bool \<times> int \<times> timestamp) list" where
  "list_routes a = map (\<lambda>(i, r). (i, rt_rule_type r, rt_camera r, rt_channel r, rt_enabled r, rt_cooldown r, rt_created_at r))
     (db_routes (ap_db a))"

definition create_route ::
  "api_env \<Rightarrow> (json \<Rightarrow> string) \<Rightarrow> route_body \<Rightarrow> string \<times> user_row \<Rightarrow> request \<Rightarrow> app \<Rightarrow> string outcome" where
  "create_route env encrypt_json b user rq a =
     (if rb_channel b \<notin> {''webhook'', ''email'', ''push'', ''mqtt''} then (Inl (Http 400), a)
      else let (i, a1) = fresh_id env a;
               cfg = (case rb_config b of None \<Rightarrow> [] | Some kvs \<Rightarrow> kvs);
               row = \<lparr>rt_rule_type = rb_rule_type b, rt_camera = rb_camera b, rt_channel = rb_channel b,
                      rt_config_enc = (if cfg = [] then None else Some (encrypt_json (JObj cfg))),
                      rt_enabled = rb_enabled b, rt_cooldown = rb_cooldown b, rt_created_at = rq_now rq\<rparr>
           in (Inr i, write_audit env rq (Some user) [] ''alert.route.create'' i ''success'' [] None
                 (a1\<lparr>ap_db := (ap_db a1)\<lparr>db_routes := dict_set i row (db_routes (ap_db a1))\<rparr>\<rparr>)))"

definition delete_route :: "api_env \<Rightarrow> string \<Rightarrow> string \<times> user_row \<Rightarrow> request \<Rightarrow> app \<Rightarrow> unit outcome" where
  "delete_route env i user rq a =
     (if i \<notin> set (dict_keys (db_routes (ap_db a))) then (Inl (Http 404), a)
      else (Inr (), write_audit env rq (Some user) [] ''alert.route.delete'' i ''success'' [] None
              (a\<lparr>ap_db := (ap_db a)\<lparr>db_routes := dict_del i (db_routes (ap_db a))\<rparr>\<rparr>)))"

section \<open>The test endpoint\<close>

definition test_notifier :: "(string \<Rightarrow> string list option) \<Rightarrow> string list \<Rightarrow> string \<Rightarrow> json \<Rightarrow> py_error + notifier option" where
  \<comment> \<open>every exception skips the route; an e-mail route is not tried\<close>
  "test_notifier dns allowlist channel cfg =
     (if channel = ''webhook'' then
        (case build_webhook dns allowlist cfg of Inl err \<Rightarrow> if err = Unmodelled then Inl Unmodelled else Inr None | Inr n \<Rightarrow> Inr n)
      else if channel = ''mqtt'' \<or> channel = ''push'' then build_other channel cfg
      else Inr None)"

fun test_notifiers ::
  "(string \<Rightarrow> string list option) \<Rightarrow> string list \<Rightarrow> (string \<Rightarrow> json option) \<Rightarrow> route_row list \<Rightarrow> http_error + notifier list" where
  "test_notifiers dns allowlist decrypt_json [] = Inr []"
| "test_notifiers dns allowlist decrypt_json (r # rs) =
     (case route_config decrypt_json (rt_config_enc r) of
        None \<Rightarrow> Inl (Crash CryptoError)
      | Some cfg \<Rightarrow>
          (case test_notifier dns allowlist (rt_channel r) cfg of
             Inl err \<Rightarrow> Inl (Crash err)
           | Inr n \<Rightarrow> map_sum id (\<lambda>ns. (case n of None \<Rightarrow> ns | Some x \<Rightarrow> x # ns)) (test_notifiers dns allowlist decrypt_json rs)))"

definition delivers :: "(json \<Rightarrow> string) \<Rightarrow> (transport \<Rightarrow> py_error option) \<Rightarrow> alert \<Rightarrow> notifier \<Rightarrow> bool" where
  \<comment> \<open>\<open>send\<close> returned\<close>
  "delivers str_of deliver al n \<longleftrightarrow> (case send str_of n al of None \<Rightarrow> True | Some t \<Rightarrow> deliver t = None)"

definition check_alert :: "string \<Rightarrow> alert" where
  \<comment> \<open>at the given time\<close>
  "check_alert ts = \<lparr>al_rule_id = ''test'', al_rule_type = ''test'', al_camera_id = [], al_severity = ''info'',
     al_title = ''LocalSight test alert'', al_message = ''This is a connectivity test.'', al_detail = [], al_ts = Some ts\<rparr>"

definition test_alert :: "send_env \<Rightarrow> string \<Rightarrow> app \<Rightarrow> http_error + nat" where
  "test_alert se ts a =
     (case test_notifiers (sn_dns se) (sn_allow se) (sn_decrypt se) (filter rt_enabled (map snd (db_routes (ap_db a)))) of
        Inl err \<Rightarrow> Inl err
      | Inr ns \<Rightarrow> Inr (length (filter (delivers (sn_str se) (sn_deliver se) (check_alert ts)) ns)))"

section \<open>Analytic events\<close>

definition analytic_events ::
  "view_env \<Rightarrow> string option \<Rightarrow> int \<Rightarrow> int \<Rightarrow> app \<Rightarrow> http_error + (string \<times> string \<times> string \<times> string \<times> string \<times> (string \<times> json) list) list" where
  \<comment> \<open>what the database makes of a negative limit or offset is left open\<close>
  "analytic_events env cid limit offset a =
     (if limit < 0 \<or> offset < 0 then Inl (Crash Unmodelled)
      else Inr (map (\<lambda>(i, e). (i, ev_camera e, ev_type e, ev_status e, ve_iso env (ev_start e), ev_detail e))
             (page_of (min limit 500) offset (sort_key (\<lambda>x. - ev_start (snd x))
                (filter (\<lambda>x. ev_type (snd x) \<noteq> ''presence'' \<and> equal_if_given cid (ev_camera (snd x))) (db_events (ap_db a)))))))"

section \<open>Routes reach the worker\<close>

definition path_of :: "(string \<Rightarrow> json option) \<Rightarrow> route_row \<Rightarrow> alert_path" where
  "path_of decrypt_json r = \<lparr>ap_channel = rt_channel r, ap_config = the (route_config decrypt_json (rt_config_enc r)),
     ap_rule_type = rt_rule_type r, ap_camera = rt_camera r, ap_cooldown = rt_cooldown r\<rparr>"

definition readable :: "(string \<Rightarrow> json option) \<Rightarrow> route_row \<Rightarrow> bool" where
  "readable decrypt_json r \<longleftrightarrow> route_config decrypt_json (rt_config_enc r) \<noteq> None"

lemma stored_routes_readable: "stored_routes dec rs = map (path_of dec) (takeWhile (readable dec) rs)"
  by (induction rs) (auto simp: path_of_def readable_def split: option.splits)

text \<open>
  A route that is created reaches the worker: when the cached routes have run out, the worker
  finds it behind the routes there were, with the channel, the filter, the cooldown and the
  decrypted configuration it was created with; unless an older route cannot be decrypted, which
  hides it and all routes behind that one.
\<close>

theorem created_route_loads:
  assumes "create_route env enc b user rq a = (Inr i, a')" and "rb_enabled b"
    and "(let cfg = JObj (case rb_config b of None \<Rightarrow> [] | Some kvs \<Rightarrow> kvs) in dec (enc cfg) = Some cfg \<and> enc cfg \<noteq> [])"
    and "ae_uuid env (ap_next a) \<notin> set (dict_keys (db_routes (ap_db a)))"
    and "30 \<le> now - rc_at cache"
  shows "let rs = filter rt_enabled (map snd (db_routes (ap_db a)));
             path = \<lparr>ap_channel = rb_channel b, ap_config = JObj (case rb_config b of None \<Rightarrow> [] | Some kvs \<Rightarrow> kvs),
               ap_rule_type = rb_rule_type b, ap_camera = rb_camera b, ap_cooldown = rb_cooldown b\<rparr>
         in fst (load_routes dec webhook now (ap_db a') cache) =
              (if list_all (readable dec) rs then map (path_of dec) rs @ [path]
               else map (path_of dec) (takeWhile (readable dec) rs)) @ env_route webhook"
proof -
  let ?cfg = "case rb_config b of None \<Rightarrow> [] | Some kvs \<Rightarrow> kvs"
  let ?row = "\<lparr>rt_rule_type = rb_rule_type b, rt_camera = rb_camera b, rt_channel = rb_channel b,
     rt_config_enc = (if ?cfg = [] then None else Some (enc (JObj ?cfg))),
     rt_enabled = rb_enabled b, rt_cooldown = rb_cooldown b, rt_created_at = rq_now rq\<rparr>"
  let ?rs = "filter rt_enabled (map snd (db_routes (ap_db a)))"
  have "db_routes (ap_db a') = dict_set (ae_uuid env (ap_next a)) ?row (db_routes (ap_db a))"
    using assms(1) by (auto simp: create_route_def fresh_id_def Let_def write_audit_def split: if_splits)
  then have "db_routes (ap_db a') = db_routes (ap_db a) @ [(ae_uuid env (ap_next a), ?row)]"
    using dict_set_fresh [OF assms(4)] by simp
  then have rs: "filter rt_enabled (map snd (db_routes (ap_db a'))) = ?rs @ [?row]" using assms(2) by simp
  have c: "route_config dec (rt_config_enc ?row) = Some (JObj ?cfg)"
  proof (cases "?cfg = []")
    case False
    then have "rt_config_enc ?row = Some (enc (JObj ?cfg))" by simp
    moreover have "enc (JObj ?cfg) \<noteq> []" "dec (enc (JObj ?cfg)) = Some (JObj ?cfg)" using assms(3) unfolding Let_def by blast+
    ultimately show ?thesis using False
      by (cases "enc (JObj ?cfg)") (simp_all only: route_config_def option.case list.case map_option_case json_truthy_def json.case, simp_all)
  qed (simp add: route_config_def)
  then have "readable dec ?row" by (simp only: readable_def) simp
  then have tw: "takeWhile (readable dec) (?rs @ [?row]) =
      (if list_all (readable dec) ?rs then ?rs @ [?row] else takeWhile (readable dec) ?rs)"
    by (auto simp: list_all_iff takeWhile_append)
  have "path_of dec ?row = \<lparr>ap_channel = rb_channel b, ap_config = JObj ?cfg,
       ap_rule_type = rb_rule_type b, ap_camera = rb_camera b, ap_cooldown = rb_cooldown b\<rparr>"
    unfolding path_of_def c by simp
  moreover have "fst (load_routes dec webhook now (ap_db a') cache) =
      map (path_of dec) (takeWhile (readable dec) (?rs @ [?row])) @ env_route webhook"
    using assms(5) by (simp add: load_routes_def stored_routes_readable rs Let_def)
  ultimately show ?thesis unfolding tw by (simp only: Let_def) simp
qed

section \<open>What a test tests\<close>

definition tested :: "(string \<Rightarrow> string list option) \<Rightarrow> string list \<Rightarrow> alert_path \<Rightarrow> notifier option" where
  \<comment> \<open>what the worker would build of a route, e-mail apart\<close>
  "tested dns allowlist p =
     (if ap_channel p \<notin> {''webhook'', ''mqtt'', ''push''} then None
      else (case build_path dns allowlist p of Inr n \<Rightarrow> n | Inl _ \<Rightarrow> None))"

lemma test_notifier_tested:
  "test_notifier dns allowlist (ap_channel p) (ap_config p) = Inr n \<Longrightarrow> n = tested dns allowlist p"
  by (auto simp: test_notifier_def tested_def build_path_def split: if_splits sum.splits)

text \<open>
  The test endpoint tries what the worker would use: the notifiers it sends to are the ones the
  worker builds from the same routes (web hooks behind the egress guard), in their order, and
  the number it reports is how many of them return without an exception. E-mail routes are
  not tried. It fails only when a configuration cannot be decrypted; one bad configuration fails the
  whole test.
\<close>

theorem route_test_exact:
  "let rs = filter rt_enabled (map snd (db_routes (ap_db a)));
       ns = List.map_filter (tested (sn_dns se) (sn_allow se)) (stored_routes (sn_decrypt se) rs)
   in case test_alert se ts a of
        Inr n \<Rightarrow> n = length (filter (delivers (sn_str se) (sn_deliver se) (check_alert ts)) ns) \<and> list_all (readable (sn_decrypt se)) rs
      | Inl err \<Rightarrow> err = Crash Unmodelled \<or> err = Crash CryptoError \<and> list_ex (\<lambda>r. route_config (sn_decrypt se) (rt_config_enc r) = None) rs"
proof -
  let ?t = "test_notifiers (sn_dns se) (sn_allow se) (sn_decrypt se)"
  have other: "build_other ch cfg = Inl err \<Longrightarrow> err = Unmodelled" for ch cfg err
    by (auto simp: build_other_def split: json.splits sum.splits py_error.splits)
  have err: "test_notifier dns al ch cfg = Inl err \<Longrightarrow> err = Unmodelled" for dns al ch cfg err
    by (auto simp: test_notifier_def dest: other split: if_splits sum.splits)
  have "case ?t rs of
      Inr ns \<Rightarrow> ns = List.map_filter (tested (sn_dns se) (sn_allow se)) (stored_routes (sn_decrypt se) rs) \<and> list_all (readable (sn_decrypt se)) rs
    | Inl err \<Rightarrow> err = Crash Unmodelled \<or> err = Crash CryptoError \<and> list_ex (\<lambda>r. route_config (sn_decrypt se) (rt_config_enc r) = None) rs" for rs
  proof (induction rs)
    case Nil
    then show ?case by (simp add: List.map_filter_def)
  next
    case (Cons r rs)
    show ?case
    proof (cases "route_config (sn_decrypt se) (rt_config_enc r)")
      case (Some cfg)
      note cfg = Some
      let ?p = "\<lparr>ap_channel = rt_channel r, ap_config = cfg, ap_rule_type = rt_rule_type r, ap_camera = rt_camera r, ap_cooldown = rt_cooldown r\<rparr>"
      show ?thesis
      proof (cases "test_notifier (sn_dns se) (sn_allow se) (rt_channel r) cfg")
        case (Inl e)
        then show ?thesis using err [OF Inl] cfg by simp
      next
        case (Inr n)
        have n: "n = tested (sn_dns se) (sn_allow se) ?p" by (rule test_notifier_tested) (simp add: Inr)
        show ?thesis using Cons.IH Inr cfg n
          by (cases "?t rs"; cases n) (auto simp: List.map_filter_def readable_def)
      qed
    qed simp
  qed
  from this [of "filter rt_enabled (map snd (db_routes (ap_db a)))"] show ?thesis
    by (auto simp: test_alert_def Let_def split: sum.splits)
qed

section \<open>One route\<close>

definition hook :: route_body where
  "hook = \<lparr>rb_rule_type = ''intrusion'', rb_camera = None, rb_channel = ''webhook'', rb_config = Some [(''url'', JStr ''u'')],
     rb_enabled = True, rb_cooldown = 60\<rparr>"

theorem created_route_loads_witness:
  "\<exists>i a'. create_route desk_env (\<lambda>j. ''c'') hook (''u'', desk_user) desk_request \<lparr>ap_db = empty_db, ap_next = 0\<rparr> = (Inr i, a') \<and>
     fst (load_routes (\<lambda>s. Some (JObj [(''url'', JStr ''u'')])) None 30 (ap_db a') empty_cache) =
       [\<lparr>ap_channel = ''webhook'', ap_config = JObj [(''url'', JStr ''u'')], ap_rule_type = ''intrusion'', ap_camera = None,
         ap_cooldown = 60\<rparr>]"
proof -
  let ?a = "\<lparr>ap_db = empty_db, ap_next = 0\<rparr>"
  obtain i a' where r: "create_route desk_env (\<lambda>j. ''c'') hook (''u'', desk_user) desk_request ?a = (Inr i, a')"
    by (simp add: create_route_def hook_def fresh_id_def Let_def)
  show ?thesis
    using created_route_loads [OF r, of "\<lambda>s. Some (JObj [(''url'', JStr ''u'')])" 30 empty_cache None] r
    by (intro exI [of _ i] exI [of _ a']) (simp add: hook_def empty_db_def empty_cache_def dict_keys_def env_route_def)
qed

end
