(* ===== verification/Insights.thy ===== *)
theory Insights
  imports Event_Examples Analytics Matching Metrics
begin

text \<open>
  \<open>apps/api/routers/analytics.py\<close> and \<open>system.py\<close>: the dashboard, the analytic queries, the
  semantic search, the probes and the metrics endpoint. A query that does not return is the
  value \<open>None\<close>. The embedder of the search, the text of an event's detail, host readings and the state
  of the database connection are parameters.
\<close>

section \<open>The dashboard\<close>

definition midnight_of :: "timestamp \<Rightarrow> timestamp" where
  "midnight_of now = now - now mod day_us"

definition is_online :: "camera_row \<Rightarrow> bool" where
  "is_online c \<longleftrightarrow> ca_status c = ''ONLINE''"

definition is_degraded :: "camera_row \<Rightarrow> bool" where
  "is_degraded c \<longleftrightarrow> ca_status c = ''DEGRADED'' \<or> ca_status c = ''RECONNECTING''"

record dashboard =
  db_generated_at :: string
  db_cameras_total :: nat
  db_online :: nat
  db_degraded :: nat
  db_offline :: nat
  db_per_camera :: "(string \<times> string \<times> string) list"
  db_events_today :: nat
  db_unknown_today :: nat
  db_identities :: nat

fun count_statuses :: "camera_row list \<Rightarrow> nat \<times> nat \<times> nat \<Rightarrow> nat \<times> nat \<times> nat" where
  \<comment> \<open>online, degraded, offline\<close>
  "count_statuses [] n = n"
| "count_statuses (c # cs) (on, dg, off) =
     count_statuses cs (if is_online c then (Suc on, dg, off) else if is_degraded c then (on, Suc dg, off) else (on, dg, Suc off))"

definition count_events :: "timestamp \<Rightarrow> string option \<Rightarrow> db \<Rightarrow> nat" where
  "count_events since status d =
     length (filter (\<lambda>(i, e). since \<le> ev_start e \<and> equal_if_given status (ev_status e)) (db_events d))"

definition dashboard_summary :: "view_env \<Rightarrow> timestamp \<Rightarrow> app \<Rightarrow> dashboard" where
  "dashboard_summary env now a =
     (let d = ap_db a;
          cameras = sort_key (\<lambda>x. lower (ca_name (snd x))) (db_cameras d);
          (on, dg, off) = count_statuses (map snd cameras) (0, 0, 0)
      in \<lparr>db_generated_at = ve_iso env now, db_cameras_total = length (db_cameras d), db_online = on, db_degraded = dg,
          db_offline = off, db_per_camera = map (\<lambda>(i, c). (i, ca_name c, ca_status c)) cameras,
          db_events_today = count_events (midnight_of now) None d,
          db_unknown_today = count_events (midnight_of now) (Some ''unknown'') d, db_identities = length (db_persons d)\<rparr>)"

section \<open>Analytic queries\<close>

definition parse_time :: "(string \<Rightarrow> timestamp option) \<Rightarrow> string \<Rightarrow> http_error + timestamp" where
  "parse_time iso8601 s = (case iso8601 s of None \<Rightarrow> Inl (Http 400) | Some t \<Rightarrow> Inr t)"

definition window_of :: "(string \<Rightarrow> timestamp option) \<Rightarrow> string \<Rightarrow> string \<Rightarrow> http_error + timestamp \<times> timestamp" where
  "window_of iso8601 s e = bind_ok (parse_time iso8601 s) (\<lambda>lo. bind_ok (parse_time iso8601 e) (\<lambda>hi. Inr (lo, hi)))"

definition open_window :: "(string \<Rightarrow> timestamp option) \<Rightarrow> string \<Rightarrow> string \<Rightarrow> http_error + timestamp \<times> timestamp" where
  \<comment> \<open>an empty bound is the first of January 2000 or 2100\<close>
  "open_window iso8601 s e =
     bind_ok (if s = [] then Inr (946684800 * 1000000) else parse_time iso8601 s) (\<lambda>lo.
     bind_ok (if e = [] then Inr (4102444800 * 1000000) else parse_time iso8601 e) (\<lambda>hi. Inr (lo, hi)))"

definition people_count :: "(string \<Rightarrow> timestamp option) \<Rightarrow> string \<Rightarrow> string \<Rightarrow> string \<Rightarrow> app \<Rightarrow> http_error + nat" where
  "people_count iso8601 cid s e a = bind_ok (window_of iso8601 s e) (\<lambda>(lo, hi). Inr (people_counting cid lo hi (ap_db a)))"

definition occupancy ::
  "view_env \<Rightarrow> (string \<Rightarrow> timestamp option) \<Rightarrow> string \<Rightarrow> string \<Rightarrow> string \<Rightarrow> int \<Rightarrow> app \<Rightarrow>
   (http_error + (string \<times> nat) list) option" where
  "occupancy env iso8601 cid s e bucket_min a =
     (case window_of iso8601 s e of
        Inl err \<Rightarrow> Some (Inl err)
      | Inr (lo, hi) \<Rightarrow>
          map_option (\<lambda>bs. Inr (map (\<lambda>(t, c). (ve_iso env t, c)) bs)) (occupancy_trend cid lo hi bucket_min (ap_db a)))"

definition dwell :: "(string \<Rightarrow> timestamp option) \<Rightarrow> string \<Rightarrow> string \<Rightarrow> string \<Rightarrow> app \<Rightarrow> http_error + real" where
  "dwell iso8601 cid s e a = bind_ok (window_of iso8601 s e) (\<lambda>(lo, hi). Inr (round_to 2 (dwell_time cid lo hi (ap_db a))))"

definition breakdown :: "(string \<Rightarrow> timestamp option) \<Rightarrow> string option \<Rightarrow> string \<Rightarrow> string \<Rightarrow> app \<Rightarrow> http_error + (string \<times> nat) list" where
  "breakdown iso8601 cid s e a = bind_ok (open_window iso8601 s e) (\<lambda>(lo, hi). Inr (event_type_breakdown cid lo hi (ap_db a)))"

definition heatmap ::
  "(string \<Rightarrow> timestamp option) \<Rightarrow> string \<Rightarrow> string \<Rightarrow> string \<Rightarrow> int \<Rightarrow> int \<Rightarrow> app \<Rightarrow> http_error + nat list list" where
  \<comment> \<open>a grid without rows or columns, as negative sizes give, raises once there is a point\<close>
  "heatmap iso8601 cid s e grid_x grid_y a =
     bind_ok (window_of iso8601 s e) (\<lambda>(lo, hi).
       case heatmap_grid cid lo hi (nat grid_y, nat grid_x) (ap_db a) of Inl err \<Rightarrow> Inl (Crash err) | Inr m \<Rightarrow> Inr m)"

section \<open>Semantic search\<close>

definition searched_events :: "string option \<Rightarrow> timestamp \<Rightarrow> timestamp \<Rightarrow> db \<Rightarrow> (string \<times> event_row) list" where
  \<comment> \<open>the first two thousand, in no particular order\<close>
  "searched_events cid lo hi d =
     take 2000 (filter (\<lambda>x. lo \<le> ev_start (snd x) \<and> ev_end (snd x) \<le> hi \<and> equal_if_given cid (ev_camera (snd x))) (db_events d))"

definition scene_text :: "((string \<times> json) list \<Rightarrow> string) \<Rightarrow> event_row \<Rightarrow> string" where
  "scene_text str_of e = ev_type e @ '' '' @ (if ev_detail e = [] then [] else str_of (ev_detail e))"

definition head_count :: "int \<Rightarrow> nat \<Rightarrow> nat" where
  \<comment> \<open>how many items \<open>xs[:k]\<close> keeps of \<open>n\<close>\<close>
  "head_count k n = (if 0 \<le> k then nat k else n - nat (- k))"

record hit =
  ht_id :: string
  ht_type :: string
  ht_camera :: string
  ht_ts :: string
  ht_score :: real

definition search_events ::
  "view_env \<Rightarrow> (string \<Rightarrow> timestamp option) \<Rightarrow> (string \<Rightarrow> real list) \<Rightarrow> ((string \<times> json) list \<Rightarrow> string) \<Rightarrow> string \<Rightarrow> string option \<Rightarrow> string \<Rightarrow> string \<Rightarrow> int \<Rightarrow>
   app \<Rightarrow> http_error + hit list" where
  "search_events env iso8601 embed_text str_of q cid s e top_k a =
     bind_ok (open_window iso8601 s e) (\<lambda>(lo, hi).
       let found = searched_events cid lo hi (ap_db a) in
       if found = [] then Inr []
       else let items = fold (\<lambda>(i, ev) its. index_event embed_text i (scene_text str_of ev) its) found [];
                ranked = semantic_search embed_text items q (head_count top_k (length items))
            in Inr (List.map_filter (\<lambda>(i, score). map_option (\<lambda>ev. \<lparr>ht_id = i, ht_type = ev_type ev, ht_camera = ev_camera ev,
                     ht_ts = ve_iso env (ev_start ev), ht_score = round_to 4 score\<rparr>) (dict_get (db_events (ap_db a)) i)) ranked))"

section \<open>Probes and metrics\<close>

definition ready :: "bool \<Rightarrow> string \<Rightarrow> nat \<Rightarrow> file_system \<Rightarrow> (bool \<times> bool \<times> bool) \<times> file_system" where
  \<comment> \<open>database reachable; base directory and process of the local storage; ready, database, storage\<close>
  "ready db_up base pid fs =
     (let (ok, fs2) =
        (case put base pid ''__health__'' [111, 107] fs of
           (Inl err, fs1) \<Rightarrow> (False, fs1)
         | (Inr _, fs1) \<Rightarrow> (case delete base ''__health__'' fs1 of (Inl err, fs2) \<Rightarrow> (False, fs2) | (Inr _, fs2) \<Rightarrow> (True, fs2)))
      in ((db_up \<and> ok, db_up, ok), fs2))"

definition system_health :: "settings \<Rightarrow> bool \<Rightarrow> string \<Rightarrow> string \<times> bool \<times> string \<times> string \<times> bool" where
  \<comment> \<open>database reachable, the embedder's model version\<close>
  "system_health st db_up version =
     (let ai_ok = (version \<noteq> []);
          shown = (if se_ai_detector st = ''reference'' \<or> se_ai_detector st = ''synthetic'' then ''ref-motion-v0'' else se_ai_model_version st)
      in (if db_up \<and> ai_ok then ''ok'' else ''degraded'', db_up, se_ai_detector st, shown, ai_ok))"

definition metrics_auth :: "api_env \<Rightarrow> settings \<Rightarrow> string \<Rightarrow> request \<Rightarrow> app \<Rightarrow> http_error + unit" where
  \<comment> \<open>the scrape token of the environment, empty when there is none\<close>
  "metrics_auth env st scrape rq a =
     (let auth = (case rq_auth rq of None \<Rightarrow> [] | Some s \<Rightarrow> s)
      in if scrape \<noteq> [] \<and> starts_with auth ''Bearer '' \<and> drop 7 auth = scrape then Inr ()
         else bind_ok (get_current_user env st rq a) (\<lambda>_. Inr ()))"

definition render_metrics :: "(real \<Rightarrow> string) \<Rightarrow> (real \<times> real \<times> real option) option \<Rightarrow> metrics \<Rightarrow> string \<times> metrics" where
  \<comment> \<open>processor percent, memory in MB, disk percent where the storage root exists; \<open>None\<close> without psutil\<close>
  "render_metrics fmt host m =
     (let m1 = (case host of None \<Rightarrow> m
                | Some (cpu, ram, disk) \<Rightarrow>
                    (let m2 = set_gauge ''ram_used_mb'' ram [] (set_gauge ''cpu_utilization'' cpu [] m)
                     in (case disk of None \<Rightarrow> m2 | Some x \<Rightarrow> set_gauge ''storage_usage_percent'' x [] m2)))
      in (render fmt m1, m1))"

section \<open>What the dashboard counts\<close>

lemma count_statuses_exact:
  "count_statuses cs (on, dg, off) = (on + length (filter is_online cs), dg + length (filter is_degraded cs),
     off + length (filter (\<lambda>c. \<not> is_online c \<and> \<not> is_degraded c) cs))"
  by (induction cs arbitrary: on dg off) (auto simp: is_online_def is_degraded_def)

lemma length_filter_mset: "mset xs = mset ys \<Longrightarrow> length (filter P xs) = length (filter P ys)"
  by (metis mset_filter size_mset)

lemma statuses_split:
  "length cs = length (filter is_online cs) + length (filter is_degraded cs) + length (filter (\<lambda>c. \<not> is_online c \<and> \<not> is_degraded c) cs)"
  by (induction cs) (auto simp: is_online_def is_degraded_def)

lemma le_div_int: "0 < m \<Longrightarrow> m * k \<le> t \<longleftrightarrow> k \<le> t div m" for m k t :: int
proof
  assume m: "0 < m" and "m * k \<le> t"
  then have "(m * k) div m \<le> t div m" by (intro zdiv_mono1)
  with m show "k \<le> t div m" by simp
next
  assume m: "0 < m" and "k \<le> t div m"
  then have "m * k \<le> m * (t div m)" by simp
  also have "\<dots> \<le> t" using minus_mod_eq_mult_div [of t m] pos_mod_sign [OF m, of t] by linarith
  finally show "m * k \<le> t" .
qed

text \<open>
  The numbers of the dashboard: every camera is counted under exactly one status and listed
  once, in the order of the names regardless of case; the events counted are those that began
  since midnight (UTC), the unknown ones among them no more than all.
\<close>

theorem dashboard_exact:
  "let d = dashboard_summary env now a; cams = map snd (db_cameras (ap_db a));
       today = filter (\<lambda>e. now div 86400000000 \<le> ev_start e div 86400000000) (map snd (db_events (ap_db a)))
   in db_online d + db_degraded d + db_offline d = db_cameras_total d \<and> db_cameras_total d = length (db_per_camera d) \<and>
      db_online d = length (filter (\<lambda>c. ca_status c = ''ONLINE'') cams) \<and>
      mset (db_per_camera d) = mset (map (\<lambda>(i, c). (i, ca_name c, ca_status c)) (db_cameras (ap_db a))) \<and>
      sorted (map (\<lambda>x. lower (fst (snd x))) (db_per_camera d)) \<and>
      db_events_today d = length today \<and> db_unknown_today d = length (filter (\<lambda>e. ev_status e = ''unknown'') today) \<and>
      db_unknown_today d \<le> db_events_today d \<and> db_identities d = length (db_persons (ap_db a))"
proof -
  let ?cams = "db_cameras (ap_db a)" let ?sorted = "sort_key (\<lambda>x. lower (ca_name (snd x))) ?cams"
  let ?d = "dashboard_summary env now a"
  have m: "mset (map snd ?sorted) = mset (map snd ?cams)" by simp
  have f: "db_online ?d = length (filter is_online (map snd ?cams))" "db_degraded ?d = length (filter is_degraded (map snd ?cams))"
    "db_offline ?d = length (filter (\<lambda>c. \<not> is_online c \<and> \<not> is_degraded c) (map snd ?cams))"
    "db_cameras_total ?d = length ?cams" "db_per_camera ?d = map (\<lambda>(i, c). (i, ca_name c, ca_status c)) ?sorted"
    "db_events_today ?d = count_events (midnight_of now) None (ap_db a)"
    "db_unknown_today ?d = count_events (midnight_of now) (Some ''unknown'') (ap_db a)" "db_identities ?d = length (db_persons (ap_db a))"
    by (simp_all only: length_filter_mset [OF m, symmetric]) (simp_all add: dashboard_summary_def count_statuses_exact Let_def)
  have day: "midnight_of now \<le> t \<longleftrightarrow> now div 86400000000 \<le> t div 86400000000" for t
  proof -
    have "midnight_of now = 86400000000 * (now div 86400000000)"
      unfolding midnight_of_def day_us_def using minus_mod_eq_mult_div [of now 86400000000] by simp
    then show ?thesis using le_div_int [of 86400000000 "now div 86400000000" t] by simp
  qed
  have today: "count_events (midnight_of now) st (ap_db a) = length (filter (\<lambda>e. equal_if_given st (ev_status e))
      (filter (\<lambda>e. now div 86400000000 \<le> ev_start e div 86400000000) (map snd (db_events (ap_db a)))))" for st
  proof -
    have "length (filter (\<lambda>(i, e). midnight_of now \<le> ev_start e \<and> equal_if_given st (ev_status e)) es) =
        length (filter (\<lambda>e. equal_if_given st (ev_status e)) (filter (\<lambda>e. midnight_of now \<le> ev_start e) (map snd es)))" for es
      by (induction es) auto
    then show ?thesis unfolding count_events_def day [symmetric] .
  qed
  have "sorted (map (\<lambda>x. lower (fst (snd x))) (map (\<lambda>(i, c). (i, ca_name c, ca_status c)) ?sorted))"
    by (simp add: o_def case_prod_unfold)
  moreover have "(\<lambda>c. ca_status c = ''ONLINE'') = is_online" by (simp add: fun_eq_iff is_online_def)
  ultimately show ?thesis
    using f statuses_split [of "map snd ?cams"] today [of None] today [of "Some ''unknown''"]
      length_filter_le [of "\<lambda>e. ev_status e = ''unknown''"
        "filter (\<lambda>e. now div 86400000000 \<le> ev_start e div 86400000000) (map snd (db_events (ap_db a)))"]
    by (simp add: Let_def equal_if_given_def given_def)
qed

section \<open>What a search finds\<close>

lemma round_half_even_mono:
  assumes "x \<le> y"
  shows "round_half_even x \<le> round_half_even y"
proof (cases "\<lfloor>x\<rfloor> = \<lfloor>y\<rfloor>")
  case True
  then show ?thesis using assms by (auto simp: round_half_even_def Let_def)
next
  case False
  with assms have "\<lfloor>x\<rfloor> + 1 \<le> \<lfloor>y\<rfloor>" using floor_mono [OF assms] by linarith
  moreover have "round_half_even x \<le> \<lfloor>x\<rfloor> + 1" "\<lfloor>y\<rfloor> \<le> round_half_even y" by (auto simp: round_half_even_def Let_def)
  ultimately show ?thesis by linarith
qed

lemma round_to_mono: "x \<le> y \<Longrightarrow> round_to n x \<le> round_to n y"
  unfolding round_to_def by (intro divide_right_mono) (simp_all add: round_half_even_mono)

lemma indexed_items:
  "fold (\<lambda>(i, ev) its. index_event emb i (txt ev) its) found its = its @ map (\<lambda>(i, ev). (i, emb (txt ev))) found"
  by (induction found arbitrary: its) (auto simp: index_event_def)

lemma sorted_desc_facts: "mset (sorted_desc k xs) = mset xs" "sorted_wrt (\<lambda>x y. k y \<le> k x) (sorted_desc k xs)"
proof -
  have "sorted (map (\<lambda>x. - k x) (sorted_desc k xs))" by (simp add: sorted_desc_def)
  then show "sorted_wrt (\<lambda>x y. k y \<le> k x) (sorted_desc k xs)" by (simp add: sorted_wrt_map)
qed (simp add: sorted_desc_def)

text \<open>
  A search answers with distinct events of its window and camera, best first, each with the
  similarity of its own text; as many as asked for, as long as there are that many among the
  first two thousand of the window.
\<close>

theorem search_exact:
  assumes "search_events env iso8601 emb str_of q cid s e top_k a = Inr hits" and "0 \<le> top_k" and "dict_ok (db_events (ap_db a))"
  shows "\<exists>lo hi found. open_window iso8601 s e = Inr (lo, hi) \<and>
    found = filter (\<lambda>x. lo \<le> ev_start (snd x) \<and> ev_end (snd x) \<le> hi \<and> equal_if_given cid (ev_camera (snd x))) (db_events (ap_db a)) \<and>
    length hits = min (nat top_k) (min 2000 (length found)) \<and> distinct (map ht_id hits) \<and>
    sorted_wrt (\<lambda>x y. ht_score y \<le> ht_score x) hits \<and>
    list_all (\<lambda>h. \<exists>ev. (ht_id h, ev) \<in> set found \<and> ht_type h = ev_type ev \<and> ht_camera h = ev_camera ev \<and>
      ht_score h = round_to 4 (cosine (emb q) (emb (scene_text str_of ev)))) hits"
proof -
  obtain lo hi where w: "open_window iso8601 s e = Inr (lo, hi)"
    using assms(1) by (auto simp: search_events_def bind_ok_Inr)
  let ?all = "filter (\<lambda>x. lo \<le> ev_start (snd x) \<and> ev_end (snd x) \<le> hi \<and> equal_if_given cid (ev_camera (snd x))) (db_events (ap_db a))"
  let ?found = "searched_events cid lo hi (ap_db a)"
  let ?scored = "map (\<lambda>(i, ev). (i, cosine (emb q) (emb (scene_text str_of ev)))) ?found"
  let ?ranked = "take (nat top_k) (sorted_desc snd ?scored)"
  let ?hit = "\<lambda>(i, score). let ev = the (dict_get (db_events (ap_db a)) i) in
      \<lparr>ht_id = i, ht_type = ev_type ev, ht_camera = ev_camera ev, ht_ts = ve_iso env (ev_start ev), ht_score = round_to 4 score\<rparr>"
  have sub: "set ?found \<subseteq> set ?all" unfolding searched_events_def by (rule set_take_subset)
  have dis: "distinct (map fst ?found)"
    using assms(3) unfolding searched_events_def dict_ok_def dict_keys_def take_map [symmetric] by (intro distinct_take distinct_map_filter) simp
  have mem: "\<exists>ev. dict_get (db_events (ap_db a)) (fst x) = Some ev \<and> (fst x, ev) \<in> set ?all \<and> snd x = cosine (emb q) (emb (scene_text str_of ev))"
    if "x \<in> set ?ranked" for x
  proof -
    from that have "x \<in> set (sorted_desc snd ?scored)" by (rule in_set_takeD)
    then have "x \<in> set ?scored" by (metis set_mset_mset sorted_desc_facts(1))
    then obtain i ev where x: "(i, ev) \<in> set ?found" "x = (i, cosine (emb q) (emb (scene_text str_of ev)))" by auto
    then have "(i, ev) \<in> set ?all" using sub by blast
    then show ?thesis using x(2) dict_get_in [OF assms(3), of i ev] by auto
  qed
  have hits: "hits = map ?hit ?ranked"
  proof (cases "?found = []")
    case True
    then have "hits = []" using assms(1) w by (simp add: search_events_def Let_def)
    moreover have "?ranked = []" using True by (simp add: sorted_desc_def)
    ultimately show ?thesis by simp
  next
    case False
    have h: "semantic_search emb (map (\<lambda>(i, ev). (i, emb (scene_text str_of ev))) ?found) q (head_count top_k n) = ?ranked" for n
      using assms(2) by (simp add: semantic_search_def head_count_def Let_def case_prod_unfold o_def)
    have "hits = List.map_filter (\<lambda>(i, score). map_option (\<lambda>ev. \<lparr>ht_id = i, ht_type = ev_type ev, ht_camera = ev_camera ev,
                     ht_ts = ve_iso env (ev_start ev), ht_score = round_to 4 score\<rparr>) (dict_get (db_events (ap_db a)) i)) ?ranked"
      using assms(1) False by (simp add: search_events_def w Let_def indexed_items h)
    also have "\<dots> = map ?hit rs" if "rs = ?ranked" for rs
      unfolding that [symmetric] using mem unfolding that [symmetric]
    proof (induction rs)
      case (Cons x xs)
      obtain ev where ev: "dict_get (db_events (ap_db a)) (fst x) = Some ev" using Cons.prems [of x] by auto
      have "List.map_filter (\<lambda>(i, score). map_option (\<lambda>ev. \<lparr>ht_id = i, ht_type = ev_type ev, ht_camera = ev_camera ev,
                     ht_ts = ve_iso env (ev_start ev), ht_score = round_to 4 score\<rparr>) (dict_get (db_events (ap_db a)) i)) xs = map ?hit xs"
        by (rule Cons.IH) (use Cons.prems in auto)
      then show ?case using ev by (cases x) (simp add: List.map_filter_simps Let_def)
    qed (simp add: List.map_filter_simps)
    finally show ?thesis by simp
  qed
  have "length hits = min (nat top_k) (min 2000 (length ?all))"
  proof -
    have "length (sorted_desc snd ?scored) = length ?scored" by (metis size_mset sorted_desc_facts(1))
    then show ?thesis by (simp add: hits searched_events_def min.commute)
  qed
  moreover have "distinct (map ht_id hits)"
  proof -
    have "mset (map fst (sorted_desc snd ?scored)) = mset (map fst ?scored)" by (simp only: mset_map sorted_desc_facts(1))
    moreover have "map fst ?scored = map fst ?found" by (simp add: o_def case_prod_unfold)
    ultimately have "distinct (map fst (sorted_desc snd ?scored))" using dis by (metis mset_eq_imp_distinct_iff)
    then have "distinct (map fst ?ranked)" unfolding take_map [symmetric] by (rule distinct_take)
    moreover have "map ht_id hits = map fst ?ranked" by (simp add: hits o_def case_prod_unfold Let_def)
    ultimately show ?thesis by simp
  qed
  moreover have "sorted_wrt (\<lambda>x y. ht_score y \<le> ht_score x) hits"
  proof -
    have "sorted_wrt (\<lambda>x y. snd y \<le> snd x) ?ranked" by (rule sorted_wrt_take) (rule sorted_desc_facts(2))
    then have "sorted_wrt (\<lambda>x y. ht_score (?hit y) \<le> ht_score (?hit x)) ?ranked"
      by (rule sorted_wrt_mono_rel [rotated]) (auto simp: case_prod_unfold Let_def round_to_mono)
    then show ?thesis unfolding hits sorted_wrt_map .
  qed
  moreover have "list_all (\<lambda>h. \<exists>ev. (ht_id h, ev) \<in> set ?all \<and> ht_type h = ev_type ev \<and> ht_camera h = ev_camera ev \<and>
      ht_score h = round_to 4 (cosine (emb q) (emb (scene_text str_of ev)))) hits"
    unfolding hits list_all_iff
  proof
    fix h assume "h \<in> set (map ?hit ?ranked)"
    then obtain x where x: "x \<in> set ?ranked" "h = ?hit x" by auto
    from mem [OF x(1)] x(2) show "\<exists>ev. (ht_id h, ev) \<in> set ?all \<and> ht_type h = ev_type ev \<and> ht_camera h = ev_camera ev \<and>
      ht_score h = round_to 4 (cosine (emb q) (emb (scene_text str_of ev)))"
      by (cases x) (auto simp: Let_def)
  qed
  ultimately show ?thesis using w by blast
qed

theorem search_exact_witness:
  "\<exists>hits. search_events shop_view (\<lambda>s. None) (\<lambda>s. [1]) (\<lambda>d. []) ''q'' None [] [] 1
     (shop_app\<lparr>ap_db := (ap_db shop_app)\<lparr>db_events := [(''e1'', shop_visit 946684800000010 ''known'')]\<rparr>\<rparr>) = Inr hits \<and> length hits = 1"
proof -
  let ?a = "shop_app\<lparr>ap_db := (ap_db shop_app)\<lparr>db_events := [(''e1'', shop_visit 946684800000010 ''known'')]\<rparr>\<rparr>"
  have w: "open_window (\<lambda>s. None) [] [] = Inr (946684800000000, 4102444800000000)" by (simp add: open_window_def)
  have "search_events shop_view (\<lambda>s. None) (\<lambda>s. [1]) (\<lambda>d. []) ''q'' None [] [] 1 ?a \<noteq> Inl err" for err
    unfolding search_events_def w bind_ok_simps prod.case Let_def by (simp only: if_distrib [of "\<lambda>x. x = Inl err"] sum.distinct if_cancel) simp
  then obtain hits where h: "search_events shop_view (\<lambda>s. None) (\<lambda>s. [1]) (\<lambda>d. []) ''q'' None [] [] 1 ?a = Inr hits"
    by (metis sum.exhaust)
  have "dict_ok (db_events (ap_db ?a))" by (simp add: dict_ok_def dict_keys_def)
  from search_exact [OF h _ this] obtain lo hi found where f: "open_window (\<lambda>s. None) [] [] = Inr (lo, hi)"
    "found = filter (\<lambda>x. lo \<le> ev_start (snd x) \<and> ev_end (snd x) \<le> hi \<and> equal_if_given None (ev_camera (snd x))) (db_events (ap_db ?a))"
    "length hits = min (nat 1) (min 2000 (length found))" by auto
  then have "length found = 1" using w by (simp add: shop_visit_def equal_if_given_def given_def)
  then show ?thesis using h f(3) by auto
qed

section \<open>The probe\<close>

text \<open>
  A readiness probe that finds the storage working leaves no trace in it: the object it wrote and
  its temporary file are gone and every other file is as it was. The service is ready when
  the database answers as well.
\<close>

theorem probe_traceless:
  assumes "ready db_up base pid fs = ((r, d, True), fs')"
  shows "\<exists>p. resolve base ''__health__'' = Inr p \<and> r = db_up \<and> d = db_up \<and>
    (\<forall>path. dict_get (fs_files fs') path = (if path = p \<or> path = tmp_name pid p then None else dict_get (fs_files fs) path))"
proof -
  obtain x fs1 where p: "put base pid ''__health__'' [111, 107] fs = (x, fs1)" by fastforce
  obtain y fs2 where l: "delete base ''__health__'' fs1 = (y, fs2)" by fastforce
  have xy: "x = Inr ()" "y = Inr ()" "fs2 = fs'" "r = db_up" "d = db_up"
    using assms unfolding ready_def p by (cases x; cases y; simp add: l)+
  obtain q where q1: "resolve base ''__health__'' = Inr q"
    using p unfolding put_def by (cases "resolve base ''__health__''") (simp_all add: xy(1))
  obtain z fs0 where q2: "make_parents q fs = (z, fs0)" by fastforce
  then have q: "z = Inr ()" "publish pid q [111, 107] fs0 = (Inr (), fs1)"
    using p unfolding put_def q1 sum.case q2 prod.case by (cases z; simp add: xy(1))+
  have f0: "fs_files fs0 = fs_files fs" using q2 make_parents_files [of q fs] by simp
  have f1: "fs_files fs1 = dict_set q [111, 107] (dict_del (tmp_name pid q) (fs_files fs))"
    using q(2) by (auto simp: publish_def Let_def f0 split: if_splits)
  then have "is_file q fs1" by (simp add: is_file_def)
  then have "fs_files fs' = dict_del q (fs_files fs1)" using l xy(2,3) by (auto simp: delete_def q1)
  then show ?thesis using q1 xy(4,5) f1 by auto
qed

theorem probe_traceless_witness:
  "\<exists>fs'. ready True ''/d'' 7 \<lparr>fs_files = [(''/d/x'', [1])], fs_dirs = {''/d''}\<rparr> = ((True, True, True), fs') \<and>
     dict_get (fs_files fs') ''/d/x'' = Some [1]"
proof -
  have b: "base_ok ''/d''" unfolding base_ok_def by (rule exI [of _ "[''d'']"]) (simp add: plain_segment_def)
  have res: "resolve ''/d'' ''__health__'' = Inr ''/d/__health__''"
    by (simp add: resolve_exact [OF b] plain_segment_def starts_with_def)
  obtain fs' where r: "ready True ''/d'' 7 \<lparr>fs_files = [(''/d/x'', [1])], fs_dirs = {''/d''}\<rparr> = ((True, True, True), fs')"
    by (simp add: ready_def put_def delete_def res make_parents_def blocked_path_def parents_def
        upt_rec is_file_def publish_def tmp_name_def Let_def dict_set_def dict_del_def dict_get_def dict_keys_def)
  from probe_traceless [OF this] r res show ?thesis by (auto simp: tmp_name_def dict_get_def)
qed

end
