(* ===== verification/Api.thy ===== *)
theory Api
  imports Insights
begin

text \<open>
  The route table of the application: \<open>apps/api/main.py\<close> mounts the routers in this order, and each
  handler's decorator names its method, its path and its guard. A request is served by the first
  route that matches. Handlers that decide themselves who is served (snapshots, stored media)
  have no guard here.
\<close>

section \<open>Routes\<close>

datatype http_method = GET | POST | PUT | DELETE

datatype segment = Lit string | Var | Rest  \<comment> \<open>\<open>{name}\<close> takes one segment, \<open>{name:path}\<close> the rest\<close>

datatype guard =
    Open
  | Limited string real int  \<comment> \<open>bucket, rate, capacity\<close>
  | Session
  | Limited_session string real int
  | Needs string
  | Scrape_or_session

record route =
  ep_method :: http_method
  ep_path :: "segment list"
  ep_guard :: guard
  ep_handler :: string

definition route_entry :: "segment list \<Rightarrow> http_method \<Rightarrow> segment list \<Rightarrow> guard \<Rightarrow> string \<Rightarrow> route" where
  \<comment> \<open>the router's prefix first\<close>
  "route_entry prefix m path g h = \<lparr>ep_method = m, ep_path = prefix @ path, ep_guard = g, ep_handler = h\<rparr>"

abbreviation api :: "segment list" where "api \<equiv> [Lit ''api'']"

definition auth_routes :: "route list" where
  "auth_routes = (let r = route_entry [Lit ''api'', Lit ''auth''] in
     [r POST [Lit ''login''] (Limited ''login'' 1 10) ''login'',
      r POST [Lit ''refresh''] (Limited ''refresh'' 2 20) ''refresh'',
      r POST [Lit ''logout''] Open ''logout'',
      r GET [Lit ''me''] Session ''me'',
      r POST [Lit ''password''] (Limited_session ''password'' (1/5) 5) ''change_password'',
      r GET [Lit ''sessions''] Session ''list_own_sessions'',
      r POST [Lit ''sessions'', Var, Lit ''revoke''] Session ''revoke_own_session'',
      r POST [Lit ''mfa'', Lit ''setup''] Session ''mfa_setup'',
      r POST [Lit ''mfa'', Lit ''verify''] Session ''mfa_verify''])"

definition camera_routes :: "route list" where
  "camera_routes = (let r = route_entry api; view = Needs ''camera:view''; conf = Needs ''camera:configure''; cam = Lit ''cameras'' in
     [r POST [Lit ''nvr''] conf ''create_nvr'', r GET [Lit ''nvr''] conf ''list_nvr'',
      r GET [cam, Lit ''presets''] view ''stream_presets'', r GET [cam, Lit ''vendor-presets''] view ''vendor_stream_presets'',
      r POST [cam, Lit ''presets'', Lit ''build''] conf ''build_preset'',
      r POST [Lit ''onvif'', Lit ''discover''] conf ''onvif_discover'', r POST [Lit ''onvif'', Lit ''streams''] conf ''onvif_streams'',
      r POST [cam, Lit ''from-nvr''] conf ''provision_tplink_nvr'', r POST [cam] conf ''create_camera'', r GET [cam] view ''list_cameras'',
      r GET [cam, Var] view ''get_camera'', r GET [cam, Var, Lit ''snapshot-url''] view ''camera_snapshot_url'',
      r GET [cam, Var, Lit ''snapshot''] Open ''camera_snapshot'', r PUT [cam, Var] conf ''update_camera'',
      r DELETE [cam, Var] conf ''delete_camera'', r GET [cam, Var, Lit ''recordings''] (Needs ''video:view'') ''camera_recordings'',
      r GET [cam, Var, Lit ''recordings'', Lit ''at''] (Needs ''video:view'') ''recording_at''])"

definition person_routes :: "route list" where
  "person_routes = (let r = route_entry [Lit ''api'', Lit ''persons''] in
     [r GET [] (Needs ''person:view'') ''list_persons'', r POST [] (Needs ''person:enroll'') ''create_person'',
      r DELETE [Var] (Needs ''person:delete'') ''delete_person'', r GET [Var, Lit ''references''] (Needs ''person:view'') ''list_references'',
      r POST [Var, Lit ''references''] (Needs ''person:enroll'') ''add_reference''])"

definition event_routes :: "route list" where
  "event_routes = (let r = route_entry [Lit ''api'', Lit ''events'']; view = Needs ''events:view''; export = Needs ''events:export'' in
     [r GET [] view ''list_events'', r GET [Lit ''export.csv''] export ''export_events_csv'', r GET [Var] view ''get_event'',
      r GET [Var, Lit ''export''] export ''export_event'', r GET [Var, Lit ''clip''] export ''event_clip''])"

definition timeline_routes :: "route list" where
  "timeline_routes = [route_entry [Lit ''api'', Lit ''timeline''] GET [] (Needs ''events:view'') ''timeline'']"

definition audit_routes :: "route list" where
  "audit_routes = (let r = route_entry [Lit ''api'', Lit ''audit''] in
     [r GET [] (Needs ''audit:view'') ''list_audit'', r GET [Lit ''export.csv''] (Needs ''audit:view'') ''export_audit_csv''])"

definition user_routes :: "route list" where
  "user_routes = (let r = route_entry [Lit ''api'', Lit ''users'']; manage = Needs ''user:manage'' in
     [r GET [] manage ''list_users'', r POST [] manage ''create_user'', r DELETE [Var] manage ''delete_user'',
      r GET [Var, Lit ''sessions''] manage ''user_sessions'', r POST [Var, Lit ''sessions'', Lit ''revoke-all''] manage ''revoke_user_sessions'',
      r POST [Var, Lit ''mfa-reset''] manage ''reset_user_mfa''])"

definition video_routes :: "route list" where
  "video_routes = [route_entry [] GET [Lit ''api'', Lit ''video'', Rest] Open ''serve_video'']"

definition system_routes :: "route list" where
  "system_routes = (let r = route_entry [] in
     [r GET [Lit ''health'', Lit ''live''] Open ''live'', r GET [Lit ''health'', Lit ''ready''] Open ''ready'',
      r GET [Lit ''api'', Lit ''system'', Lit ''health''] Session ''system_health'',
      r GET [Lit ''api'', Lit ''system'', Lit ''metrics''] Scrape_or_session ''system_metrics''])"

definition alert_routes :: "route list" where
  "alert_routes = (let r = route_entry api; manage = Needs ''alerts:manage''; al = Lit ''alerts'' in
     [r GET [al, Lit ''routes''] manage ''list_routes'', r POST [al, Lit ''routes''] manage ''create_route'',
      r DELETE [al, Lit ''routes'', Var] manage ''delete_route'', r POST [al, Lit ''test''] manage ''test_alert'',
      r GET [al, Lit ''events''] (Needs ''events:view'') ''analytic_events''])"

definition analytics_routes :: "route list" where
  "analytics_routes = (let r = route_entry api; view = Needs ''analytics:view''; an = Lit ''analytics'' in
     [r GET [Lit ''dashboard'', Lit ''summary''] (Needs ''events:view'') ''dashboard_summary'',
      r GET [an, Lit ''people-count''] view ''people_count'', r GET [an, Lit ''occupancy''] view ''occupancy'',
      r GET [an, Lit ''dwell''] view ''dwell'', r GET [an, Lit ''breakdown''] view ''breakdown'',
      r GET [an, Lit ''heatmap''] view ''heatmap'', r GET [an, Lit ''search''] view ''semantic_search''])"

definition live_routes :: "route list" where
  "live_routes = (let r = route_entry api; view = Needs ''live:view''; li = Lit ''live'' in
     [r GET [li, Lit ''streams''] view ''live_streams'', r POST [li, Var, Lit ''stop''] view ''stop_stream'',
      r POST [li, Lit ''ticket''] view ''issue_ticket'', r GET [li, Var, Lit ''play''] view ''play''])"

definition rule_routes :: "route list" where
  "rule_routes = (let r = route_entry api; conf = Needs ''rules:configure'' in
     [r GET [Lit ''cameras'', Var, Lit ''rules''] conf ''get_rules'', r PUT [Lit ''cameras'', Var, Lit ''rules''] conf ''put_rules''])"

definition app_routes :: "route list" where
  \<comment> \<open>\<open>include_router\<close>, in the order of the calls\<close>
  "app_routes = auth_routes @ camera_routes @ person_routes @ event_routes @ timeline_routes @ audit_routes @ user_routes @
     video_routes @ system_routes @ alert_routes @ analytics_routes @ live_routes @ rule_routes"

section \<open>Dispatch\<close>

fun path_fits :: "segment list \<Rightarrow> string list \<Rightarrow> bool" where
  "path_fits [] p \<longleftrightarrow> p = []"
| "path_fits (Rest # ss) p \<longleftrightarrow> ss = [] \<and> p \<noteq> []"
| "path_fits (Lit s # ss) p \<longleftrightarrow> (case p of [] \<Rightarrow> False | x # xs \<Rightarrow> x = s \<and> path_fits ss xs)"
| "path_fits (Var # ss) p \<longleftrightarrow> (case p of [] \<Rightarrow> False | x # xs \<Rightarrow> x \<noteq> [] \<and> path_fits ss xs)"

definition route_of :: "http_method \<Rightarrow> string list \<Rightarrow> route option" where
  "route_of m p = find (\<lambda>r. ep_method r = m \<and> path_fits (ep_path r) p) app_routes"

definition admitted ::
  "api_env \<Rightarrow> settings \<Rightarrow> string \<Rightarrow> real \<Rightarrow> guard \<Rightarrow> request \<Rightarrow> app \<Rightarrow> limiter \<Rightarrow> (http_error + unit) \<times> limiter" where
  \<comment> \<open>the dependencies of a route: scrape token, the limiter's clock\<close>
  "admitted env st scrape clock g rq a bks =
     (let user = (case get_current_user env st rq a of Inl err \<Rightarrow> Inl err | Inr _ \<Rightarrow> Inr ()) in
      case g of
        Open \<Rightarrow> (Inr (), bks)
      | Limited b rate cap \<Rightarrow> rate_limit b rate cap clock rq bks
      | Session \<Rightarrow> (user, bks)
      | Limited_session b rate cap \<Rightarrow> (case rate_limit b rate cap clock rq bks of (Inl err, bks1) \<Rightarrow> (Inl err, bks1) | (Inr _, bks1) \<Rightarrow> (user, bks1))
      | Needs p \<Rightarrow> (case require_permission env st p rq a of Inl err \<Rightarrow> (Inl err, bks) | Inr _ \<Rightarrow> (Inr (), bks))
      | Scrape_or_session \<Rightarrow> (metrics_auth env st scrape rq a, bks))"

definition handler_for ::
  "api_env \<Rightarrow> settings \<Rightarrow> string \<Rightarrow> real \<Rightarrow> http_method \<Rightarrow> string list \<Rightarrow> request \<Rightarrow> app \<Rightarrow> limiter \<Rightarrow> http_error + string" where
  \<comment> \<open>the handler a request reaches\<close>
  "handler_for env st scrape clock m p rq a bks =
     (case route_of m p of
        None \<Rightarrow> Inl (Http 404)
      | Some r \<Rightarrow> (case fst (admitted env st scrape clock (ep_guard r) rq a bks) of Inl err \<Rightarrow> Inl err | Inr _ \<Rightarrow> Inr (ep_handler r)))"

section \<open>Every route is reached\<close>

definition literals :: "string set" where
  "literals = (\<Union>r \<in> set app_routes. {s. Lit s \<in> set (ep_path r)})"

definition sample_path :: "string \<Rightarrow> segment list \<Rightarrow> string list" where
  "sample_path v ss = map (\<lambda>s. case s of Lit x \<Rightarrow> x | _ \<Rightarrow> v) ss"

fun may_capture :: "segment list \<Rightarrow> segment list \<Rightarrow> bool" where
  \<comment> \<open>the first pattern fits a sample path of the second, with a value that is no literal\<close>
  "may_capture [] ts \<longleftrightarrow> ts = []"
| "may_capture (Rest # ss) ts \<longleftrightarrow> ss = [] \<and> ts \<noteq> []"
| "may_capture (Lit s # ss) ts \<longleftrightarrow> (case ts of Lit t # us \<Rightarrow> s = t \<and> may_capture ss us | _ \<Rightarrow> False)"
| "may_capture (Var # ss) ts \<longleftrightarrow> (case ts of [] \<Rightarrow> False | _ # us \<Rightarrow> may_capture ss us)"

fun unshadowed :: "route list \<Rightarrow> bool" where
  "unshadowed [] \<longleftrightarrow> True"
| "unshadowed (r # rs) \<longleftrightarrow> list_all (\<lambda>t. ep_method r \<noteq> ep_method t \<or> \<not> may_capture (ep_path r) (ep_path t)) rs \<and> unshadowed rs"

lemma fits_capture:
  "path_fits ss (sample_path v ts) \<Longrightarrow> v \<notin> {s. Lit s \<in> set ss} \<Longrightarrow> may_capture ss ts"
  by (induction ss ts rule: may_capture.induct) (auto simp: sample_path_def split: list.splits segment.splits)

lemma fits_self: "v \<noteq> [] \<Longrightarrow> [] \<notin> {s. Lit s \<in> set ss} \<Longrightarrow> Rest \<notin> set (butlast ss) \<Longrightarrow> path_fits ss (sample_path v ss)"
  by (induction ss) (auto simp: sample_path_def split: segment.splits if_splits elim: path_fits.elims)

lemma unshadowed_find:
  assumes "unshadowed rs" and "r \<in> set rs" and "\<forall>t \<in> set rs. v \<notin> {s. Lit s \<in> set (ep_path t)}"
    and "path_fits (ep_path r) (sample_path v (ep_path r))"
  shows "find (\<lambda>t. ep_method t = ep_method r \<and> path_fits (ep_path t) (sample_path v (ep_path r))) rs = Some r"
  using assms
proof (induction rs)
  case (Cons t rs)
  show ?case
  proof (cases "t = r")
    case False
    then have r: "r \<in> set rs" using Cons.prems(2) by simp
    then have "ep_method t \<noteq> ep_method r \<or> \<not> may_capture (ep_path t) (ep_path r)"
      using Cons.prems(1) by (auto simp: list_all_iff)
    then have n: "\<not> (ep_method t = ep_method r \<and> path_fits (ep_path t) (sample_path v (ep_path r)))"
      using fits_capture [of "ep_path t" v "ep_path r"] Cons.prems(3) by auto
    have "find (\<lambda>t. ep_method t = ep_method r \<and> path_fits (ep_path t) (sample_path v (ep_path r))) rs = Some r"
      by (rule Cons.IH [OF _ r]) (use Cons.prems in simp_all)
    then show ?thesis unfolding List.find.simps(2) if_not_P [OF n] .
  qed (use Cons.prems(4) in simp)
qed simp

lemmas route_tables = app_routes_def auth_routes_def camera_routes_def person_routes_def event_routes_def timeline_routes_def
  audit_routes_def user_routes_def video_routes_def system_routes_def alert_routes_def analytics_routes_def live_routes_def
  rule_routes_def

lemma app_unshadowed: "unshadowed app_routes"
  by code_simp

lemma app_paths: "list_all (\<lambda>r. list_all (\<lambda>s. s \<noteq> Lit []) (ep_path r) \<and> list_all (\<lambda>s. s \<noteq> Rest) (butlast (ep_path r))) app_routes"
  by code_simp

text \<open>
  No route hides another: a request for a route's path, with any value that is not itself a
  word of the table in the place of its parameters, is served by that route. So the guard of the
  handler that answers is the one declared for it.
\<close>

theorem routes_reachable:
  assumes "r \<in> set app_routes" and "v \<notin> literals" and "v \<noteq> []"
  shows "route_of (ep_method r) (sample_path v (ep_path r)) = Some r"
  unfolding route_of_def
proof (rule unshadowed_find [OF app_unshadowed assms(1)])
  show "\<forall>t \<in> set app_routes. v \<notin> {s. Lit s \<in> set (ep_path t)}" using assms(2) by (auto simp: literals_def)
  show "path_fits (ep_path r) (sample_path v (ep_path r))"
    using app_paths assms(1) by (intro fits_self assms(3)) (auto simp: list_all_iff)
qed

theorem routes_reachable_witness:
  "route_of GET [''api'', ''events'', ''77'', ''clip''] = Some (route_entry [Lit ''api'', Lit ''events''] GET [Var, Lit ''clip''] (Needs ''events:export'') ''event_clip'')"
proof -
  let ?r = "route_entry [Lit ''api'', Lit ''events''] GET [Var, Lit ''clip''] (Needs ''events:export'') ''event_clip''"
  have m: "?r \<in> set app_routes" by (simp add: route_tables Let_def)
  have "list_all (\<lambda>r. list_all (\<lambda>s. s \<noteq> Lit ''77'') (ep_path r)) app_routes" by code_simp
  then have "''77'' \<notin> literals" by (auto simp: literals_def list_all_iff)
  from routes_reachable [OF m this] show ?thesis by (simp add: sample_path_def route_entry_def)
qed

section \<open>Who reaches what\<close>

definition public_handlers :: "string list" where
  "public_handlers = [''login'', ''refresh'', ''logout'', ''camera_snapshot'', ''serve_video'', ''live'', ''ready'']"

definition own_account :: "string list" where
  "own_account = [''me'', ''change_password'', ''list_own_sessions'', ''revoke_own_session'', ''mfa_setup'', ''mfa_verify'',
     ''system_health'', ''system_metrics'']"

definition viewer_handlers :: "string list" where
  "viewer_handlers = [''stream_presets'', ''vendor_stream_presets'', ''list_cameras'', ''get_camera'', ''camera_snapshot_url'',
     ''camera_recordings'', ''recording_at'', ''list_persons'', ''list_references'', ''list_events'', ''get_event'', ''timeline'',
     ''analytic_events'', ''dashboard_summary'', ''people_count'', ''occupancy'', ''dwell'', ''breakdown'', ''heatmap'', ''semantic_search'',
     ''live_streams'', ''stop_stream'', ''issue_ticket'', ''play'']"

definition analyst_handlers :: "string list" where
  "analyst_handlers = viewer_handlers @ [''export_events_csv'', ''export_event'', ''event_clip'', ''list_audit'', ''export_audit_csv'']"

definition open_guard :: "guard \<Rightarrow> bool" where
  "open_guard g \<longleftrightarrow> (case g of Open \<Rightarrow> True | Limited b x n \<Rightarrow> True | _ \<Rightarrow> False)"

lemma guards_public: "list_all (\<lambda>r. open_guard (ep_guard r) = (ep_handler r \<in> set public_handlers)) app_routes"
  by code_simp

lemma guards_scrape: "list_all (\<lambda>r. ep_guard r = Scrape_or_session \<longrightarrow> ep_handler r = ''system_metrics'') app_routes"
  by code_simp

definition role_reaches :: "string \<Rightarrow> route \<Rightarrow> bool" where
  "role_reaches role r \<longleftrightarrow> (case ep_guard r of Needs p \<Rightarrow> p \<in> set (the (dict_get role_permissions role)) | _ \<Rightarrow> False)"

lemma viewer_table: "list_all (\<lambda>r. role_reaches ''VIEWER'' r = (ep_handler r \<in> set viewer_handlers)) app_routes"
  by code_simp

lemma analyst_table: "list_all (\<lambda>r. role_reaches ''ANALYST'' r = (ep_handler r \<in> set analyst_handlers)) app_routes"
  by code_simp

lemma account_table: "list_all (\<lambda>r. (\<not> open_guard (ep_guard r) \<and> (case ep_guard r of Needs p \<Rightarrow> False | _ \<Rightarrow> True)) = (ep_handler r \<in> set own_account)) app_routes"
  by code_simp

lemma write_table:
  "list_all (\<lambda>r. ep_method r = GET \<or> ep_handler r \<notin> set analyst_handlers \<or> ep_handler r \<in> {''stop_stream'', ''issue_ticket''}) app_routes"
  by code_simp

lemma limited_error: "fst (rate_limit b x n clock rq bks) = Inr () \<or> fst (rate_limit b x n clock rq bks) = Inl (Http 429)"
  by (simp add: rate_limit_def Let_def case_prod_unfold)

lemma route_of_member: "route_of m p = Some r \<Longrightarrow> r \<in> set app_routes \<and> ep_method r = m"
  by (auto simp: route_of_def find_Some_iff)

lemma session_reaches:
  assumes "route_of m p = Some r" and "get_current_user env st rq a = Inr (u, perms)"
    and "set perms = set (the (dict_get role_permissions role))"
  shows "(handler_for env st scrape clock m p rq a bks = Inr (ep_handler r) \<or> handler_for env st scrape clock m p rq a bks = Inl (Http 429)) \<longleftrightarrow>
    open_guard (ep_guard r) \<or> role_reaches role r \<or> (\<not> open_guard (ep_guard r) \<and> (case ep_guard r of Needs q \<Rightarrow> False | _ \<Rightarrow> True))"
proof (cases "ep_guard r")
  case (Limited b x n)
  then show ?thesis using limited_error [of b x n clock rq bks] assms(1)
    by (auto simp: handler_for_def admitted_def open_guard_def)
next
  case (Limited_session b x n)
  then show ?thesis using limited_error [of b x n clock rq bks] assms(1,2)
    by (auto simp: handler_for_def admitted_def open_guard_def Let_def split: prod.splits sum.splits)
next
  case (Needs q)
  then show ?thesis using assms
    by (simp add: handler_for_def admitted_def open_guard_def require_permission_def role_reaches_def)
qed (use assms(1,2) in \<open>simp_all add: handler_for_def admitted_def open_guard_def metrics_auth_def Let_def\<close>)



end
