(* ===== verification/Middleware.thy ===== *)
theory Middleware
  imports Api
begin

text \<open>
  What surrounds every request: the middleware \<open>create_app\<close> installs (\<open>apps/api/main.py\<close>), the
  handler for what nothing else catches, and the log lines (\<open>packages/observability/logging.py\<close>).
  An application is what answers a request or raises; the routes are a parameter, and so is the CORS
  middleware, which is the framework's.
\<close>

section \<open>Applications\<close>

record wire_request =
  wq_method :: string
  wq_path :: string
  wq_headers :: headers

record request_state =
  rs_id :: string
  rs_permissions :: "string set"

text \<open>The headers of a response are those besides the ones that describe its body.\<close>

record response =
  rp_status :: nat
  rp_headers :: headers
  rp_body :: string

type_synonym asgi = "request_state \<Rightarrow> wire_request \<Rightarrow> py_error + response"
type_synonym middleware = "asgi \<Rightarrow> asgi"

fun put_header :: "string \<Rightarrow> string \<Rightarrow> headers \<Rightarrow> headers" where
  \<comment> \<open>\<open>response.headers[k] = v\<close>: the first header of that name is replaced, the others of it go\<close>
  "put_header k v [] = [(k, v)]"
| "put_header k v ((n, w) # hs) =
     (if lower n = lower k then (k, v) # filter (\<lambda>(m, _). lower m \<noteq> lower k) hs else (n, w) # put_header k v hs)"

definition request_id_middleware :: "string \<Rightarrow> middleware" where
  \<comment> \<open>with the id that is drawn for this request\<close>
  "request_id_middleware rid next rs rq =
     bind_ok (next (rs\<lparr>rs_id := rid, rs_permissions := {}\<rparr>) rq) (\<lambda>resp.
       Inr (resp\<lparr>rp_headers := put_header ''X-Request-ID'' rid (rp_headers resp)\<rparr>))"

definition security_headers_middleware :: "bool \<Rightarrow> middleware" where
  "security_headers_middleware hsts next rs rq =
     bind_ok (next rs rq) (\<lambda>resp. Inr (resp\<lparr>rp_headers := secure_headers hsts (rp_headers resp)\<rparr>))"

text \<open>\<open>add_middleware\<close> puts a middleware before the ones added so far; the first is the outermost.\<close>

definition add_middleware :: "middleware \<Rightarrow> middleware list \<Rightarrow> middleware list" where
  "add_middleware m ms = m # ms"

definition app_middleware :: "bool \<Rightarrow> middleware \<Rightarrow> string \<Rightarrow> middleware list" where
  "app_middleware hsts cors rid =
     add_middleware (request_id_middleware rid)
       (add_middleware cors (add_middleware (security_headers_middleware hsts) []))"

fun wrap :: "middleware list \<Rightarrow> asgi \<Rightarrow> asgi" where
  "wrap [] app = app"
| "wrap (m # ms) app = m (wrap ms app)"

section \<open>Log lines\<close>

record log_record =
  lg_created :: timestamp
  lg_level :: string
  lg_logger :: string
  lg_message :: string
  lg_exc :: "string option"
  lg_extra :: "(string, string) dict"

definition json_format :: "(timestamp \<Rightarrow> string) \<Rightarrow> log_record \<Rightarrow> (string \<times> string) list" where
  \<comment> \<open>the payload of the line; of what a call adds to the record, only the request's id\<close>
  "json_format isoformat r =
     [(''ts'', isoformat (lg_created r)), (''level'', lg_level r), (''logger'', lg_logger r), (''msg'', lg_message r)] @
     (case lg_exc r of None \<Rightarrow> [] | Some t \<Rightarrow> [(''exc'', t)]) @
     (case dict_get (lg_extra r) ''request_id'' of None \<Rightarrow> [] | Some [] \<Rightarrow> [] | Some rid \<Rightarrow> [(''request_id'', rid)])"

section \<open>Serving\<close>

definition unhandled :: "timestamp \<Rightarrow> string \<Rightarrow> string \<Rightarrow> response \<times> log_record" where
  "unhandled now rid trace =
     (\<lparr>rp_status = 500, rp_headers = [], rp_body = ''internal server error''\<rparr>,
      \<lparr>lg_created = now, lg_level = ''ERROR'', lg_logger = ''localsight'', lg_message = ''unhandled error'',
       lg_exc = Some trace, lg_extra = [(''request_id'', rid)]\<rparr>)"

definition respond ::
  "bool \<Rightarrow> middleware \<Rightarrow> (py_error \<Rightarrow> string) \<Rightarrow> asgi \<Rightarrow> timestamp \<Rightarrow> string \<Rightarrow> wire_request \<Rightarrow> response \<times> log_record list" where
  \<comment> \<open>the handler for \<open>Exception\<close> is called outside of all middleware\<close>
  "respond hsts cors trace routes now rid rq =
     (case wrap (app_middleware hsts cors rid) routes \<lparr>rs_id = ''-'', rs_permissions = {}\<rparr> rq of
        Inr resp \<Rightarrow> (resp, [])
      | Inl err \<Rightarrow> (case unhandled now rid (trace err) of (resp, l) \<Rightarrow> (resp, [l])))"

text \<open>
  The documented behaviour of the CORS middleware: a preflight it answers itself, to every
  other answer it adds headers.
\<close>

definition cors_contract :: "(wire_request \<Rightarrow> response option) \<Rightarrow> (wire_request \<Rightarrow> headers) \<Rightarrow> middleware \<Rightarrow> bool" where
  "cors_contract preflight extra cors \<longleftrightarrow> (\<forall>next rs rq. cors next rs rq =
     (case preflight rq of Some resp \<Rightarrow> Inr resp
      | None \<Rightarrow> bind_ok (next rs rq) (\<lambda>resp. Inr (resp\<lparr>rp_headers := rp_headers resp @ extra rq\<rparr>))))"

lemma put_header_has: "has_header k (put_header k v hs)"
  by (induction k v hs rule: put_header.induct) (auto simp: has_header_def)

lemma put_header_once: "filter (\<lambda>(n, _). lower n = lower k) (put_header k v hs) = [(k, v)]"
proof (induction k v hs rule: put_header.induct)
  case (2 k v n w hs)
  have "filter (\<lambda>(n, _). lower n = lower k) (filter (\<lambda>(m, _). lower m \<noteq> lower k) hs) = []"
    by (auto simp: filter_empty_conv)
  then show ?case using 2 by simp
qed simp

lemma put_header_other: "lower n \<noteq> lower k \<Longrightarrow> (n, w) \<in> set (put_header k v hs) \<longleftrightarrow> (n, w) \<in> set hs"
  by (induction k v hs rule: put_header.induct) auto

lemma put_header_keeps: "has_header n hs \<Longrightarrow> has_header n (put_header k v hs)"
proof (induction k v hs rule: put_header.induct)
  case (2 k v m w hs)
  then show ?case
    by (cases "lower n = lower k") (auto simp: has_header_def list_ex_iff)
qed (simp add: has_header_def)

lemma secure_headers_all: "list_all (\<lambda>(n, v). has_header n (secure_headers hsts hs)) (security_headers hsts)"
proof -
  have ns: "list_all (\<lambda>(n, v). lower n \<noteq> ''server'') (security_headers hsts)"
    using default_not_server header_names(2) by (simp add: security_headers_def)
  have "has_header n (secure_headers hsts hs)" if m: "(n, v) \<in> set (security_headers hsts)" for n v
  proof (cases "has_header n hs")
    case True
    moreover have "lower n \<noteq> ''server''" using ns m by (auto simp: list_all_iff)
    ultimately show ?thesis
      unfolding secure_headers_exact by (fastforce simp: has_header_def list_ex_iff)
  next
    case False
    then show ?thesis
      using m unfolding secure_headers_exact by (fastforce simp: has_header_def list_ex_iff)
  qed
  then show ?thesis by (auto simp: list_all_iff)
qed

text \<open>
  C25. Every answer of the application. One the routes give leaves with its own status and body, with
  exactly one request id (the one the handlers and the audit trail see), and with every security
  header, under the name the routes or the default give it. Handlers start without permissions. A
  preflight is answered without the routes and gets a request id. What nothing catches is answered
  with 500 outside of the middleware: the answer has neither the id nor the security headers; the id is
  in its one log line.
\<close>

theorem served_exact:
  assumes "cors_contract preflight extra cors"
  shows "(case preflight rq of
      Some resp \<Rightarrow> respond hsts cors trace routes now rid rq =
        (resp\<lparr>rp_headers := put_header ''X-Request-ID'' rid (rp_headers resp)\<rparr>, [])
    | None \<Rightarrow> (case routes \<lparr>rs_id = rid, rs_permissions = {}\<rparr> rq of
        Inl err \<Rightarrow> rp_status (fst (respond hsts cors trace routes now rid rq)) = 500 \<and>
          rp_headers (fst (respond hsts cors trace routes now rid rq)) = [] \<and>
          map (json_format isoformat) (snd (respond hsts cors trace routes now rid rq)) =
            [[(''ts'', isoformat now), (''level'', ''ERROR''), (''logger'', ''localsight''), (''msg'', ''unhandled error''), (''exc'', trace err)] @
             (if rid = [] then [] else [(''request_id'', rid)])]
      | Inr resp \<Rightarrow> (let out = fst (respond hsts cors trace routes now rid rq) in
          snd (respond hsts cors trace routes now rid rq) = [] \<and> rp_status out = rp_status resp \<and> rp_body out = rp_body resp \<and>
          filter (\<lambda>(n, _). lower n = ''x-request-id'') (rp_headers out) = [(''X-Request-ID'', rid)] \<and>
          list_all (\<lambda>(n, v). has_header n (rp_headers out)) (security_headers hsts))))"
proof -
  let ?rs = "\<lparr>rs_id = rid, rs_permissions = {}\<rparr>"
  have run: "wrap (app_middleware hsts cors rid) routes \<lparr>rs_id = ''-'', rs_permissions = {}\<rparr> rq =
      bind_ok (cors (security_headers_middleware hsts routes) ?rs rq) (\<lambda>resp.
        Inr (resp\<lparr>rp_headers := put_header ''X-Request-ID'' rid (rp_headers resp)\<rparr>))"
    by (simp add: app_middleware_def add_middleware_def request_id_middleware_def)
  have x: "lower ''X-Request-ID'' = ''x-request-id''" by code_simp
  show ?thesis
  proof (cases "preflight rq")
    case (Some resp)
    then have "cors (security_headers_middleware hsts routes) ?rs rq = Inr resp"
      using assms by (simp add: cors_contract_def)
    then show ?thesis using Some by (simp add: respond_def run)
  next
    case None
    then have c: "cors (security_headers_middleware hsts routes) ?rs rq =
        bind_ok (security_headers_middleware hsts routes ?rs rq) (\<lambda>resp. Inr (resp\<lparr>rp_headers := rp_headers resp @ extra rq\<rparr>))"
      using assms by (simp add: cors_contract_def)
    show ?thesis
    proof (cases "routes ?rs rq")
      case (Inl err)
      then have out: "respond hsts cors trace routes now rid rq =
          (fst (unhandled now rid (trace err)), [snd (unhandled now rid (trace err))])"
        by (simp add: respond_def run c security_headers_middleware_def unhandled_def)
      then show ?thesis
        using None Inl unfolding out by (cases rid) (simp_all add: unhandled_def json_format_def dict_get_def)
    next
      case (Inr resp)
      let ?hs = "secure_headers hsts (rp_headers resp) @ extra rq"
      have out: "respond hsts cors trace routes now rid rq = (resp\<lparr>rp_headers := put_header ''X-Request-ID'' rid ?hs\<rparr>, [])"
        using Inr by (simp add: respond_def run c security_headers_middleware_def)
      have "list_all (\<lambda>(n, v). has_header n (put_header ''X-Request-ID'' rid ?hs)) (security_headers hsts)"
        using secure_headers_all [of hsts "rp_headers resp"] by (auto simp: list_all_iff put_header_keeps)
      then show ?thesis
        using None Inr put_header_once [of "''X-Request-ID''" rid ?hs] by (simp add: out x)
    qed
  qed
qed

text \<open>Witness: a handler that fails while the CORS middleware only passes on.\<close>

definition plain_get :: wire_request where
  "plain_get = \<lparr>wq_method = ''GET'', wq_path = ''/'', wq_headers = []\<rparr>"

theorem served_exact_witness:
  "rp_headers (fst (respond True (\<lambda>next. next) (\<lambda>_. ''trace'') (\<lambda>rs rq. Inl KeyError) 0 ''r1'' plain_get)) = [] \<and>
   has_header ''X-Frame-Options'' (rp_headers (fst (respond True (\<lambda>next. next) (\<lambda>_. ''trace'')
     (\<lambda>rs rq. Inr \<lparr>rp_status = 200, rp_headers = [], rp_body = []\<rparr>) 0 ''r1'' plain_get)))"
proof -
  have c: "cors_contract (\<lambda>_. None) (\<lambda>_. []) (\<lambda>next. next)"
    by (simp add: cors_contract_def bind_ok_def split: sum.splits)
  have f: "(''X-Frame-Options'', ''DENY'') \<in> set (security_headers True)"
    by (simp add: security_headers_def default_headers_def)
  show ?thesis
    using served_exact [OF c, of True "\<lambda>_. ''trace''" "\<lambda>rs rq. Inl KeyError" 0 "''r1''" plain_get "\<lambda>_. []"]
      served_exact [OF c, of True "\<lambda>_. ''trace''" "\<lambda>rs rq. Inr \<lparr>rp_status = 200, rp_headers = [], rp_body = []\<rparr>" 0 "''r1''" plain_get "\<lambda>_. []"] f
    by (auto simp: Let_def list_all_iff)
qed

end
