(* ===== verification/Startup.thy ===== *)
theory Startup
  imports Worker Auth
begin

text \<open>
  The rest of \<open>apps/api/bootstrap.py\<close>: what \<open>build\<close> chooses for the storage and the embedder and the
  columns it adds to an older database; and what the seeding of the theory Platform leaves behind.
\<close>

section \<open>Building the runtime\<close>

datatype storage_choice =
    Local_storage string string  \<comment> \<open>root, signing secret\<close>
  | S3_storage string "string option" string string string  \<comment> \<open>bucket, endpoint, region, prefix, signing secret\<close>

definition choose_storage :: "settings \<Rightarrow> storage_choice" where
  "choose_storage st =
     (if se_storage_backend st = ''s3''
      then S3_storage (se_storage_s3_bucket st) (se_storage_s3_endpoint st) (se_storage_s3_region st) (se_storage_s3_prefix st)
             (se_master_key st)
      else Local_storage (se_storage_local_root st) (se_master_key st))"

definition choose_embedder :: "(string \<Rightarrow> string option) \<Rightarrow> registry \<Rightarrow> face_models" where
  \<comment> \<open>whether identities are recognised or not\<close>
  "choose_embedder digest ms = (case build_face_chain digest ms of Inr (det, emb) \<Rightarrow> Staged_faces det emb | Inl err \<Rightarrow> Reference_faces)"

type_synonym schema = "(string, string list) dict"  \<comment> \<open>the columns of each table\<close>

definition added_columns :: "(string \<times> string) list" where
  "added_columns = [(''cameras'', ''rules''), (''alert_routes'', ''cooldown_sec''), (''events'', ''detail'')]"

definition add_column :: "string \<times> string \<Rightarrow> schema \<Rightarrow> string + schema" where
  \<comment> \<open>the database's answer to \<open>ALTER TABLE\<close>: its message, or the new schema\<close>
  "add_column tc sch =
     (case dict_get sch (fst tc) of
        None \<Rightarrow> Inl (''no such table: '' @ fst tc)
      | Some cols \<Rightarrow> if snd tc \<in> set cols then Inl (''duplicate column name: '' @ snd tc) else Inr (dict_set (fst tc) (cols @ [snd tc]) sch))"

fun contains :: "string \<Rightarrow> string \<Rightarrow> bool" where
  "contains s [] \<longleftrightarrow> s = []"
| "contains s (c # cs) \<longleftrightarrow> starts_with (c # cs) s \<or> contains s cs"

definition harmless :: "string \<Rightarrow> bool" where
  "harmless message \<longleftrightarrow> contains ''duplicate column'' (lower message) \<or> contains ''already exists'' (lower message)"

fun add_columns :: "(string \<times> string) list \<Rightarrow> schema \<Rightarrow> (string + unit) \<times> schema" where
  \<comment> \<open>each statement is its own transaction\<close>
  "add_columns [] sch = (Inr (), sch)"
| "add_columns (tc # tcs) sch =
     (case add_column tc sch of
        Inr sch1 \<Rightarrow> add_columns tcs sch1
      | Inl message \<Rightarrow> if harmless message then add_columns tcs sch else (Inl message, sch))"

definition ensure_columns :: "schema \<Rightarrow> (string + unit) \<times> schema" where
  "ensure_columns sch = add_columns added_columns sch"

lemma duplicate_harmless: "harmless (''duplicate column name: '' @ c)"
proof -
  have "lower (''duplicate column name: '' @ c) = ''duplicate column'' @ '' name: '' @ lower c"
    by (simp add: lower_def lower_char_def)
  then show ?thesis by (simp add: harmless_def starts_with_def)
qed

definition with_column :: "string \<times> string \<Rightarrow> schema \<Rightarrow> schema" where
  "with_column tc sch = (case dict_get sch (fst tc) of None \<Rightarrow> sch
     | Some cols \<Rightarrow> if snd tc \<in> set cols then sch else dict_set (fst tc) (cols @ [snd tc]) sch)"

lemma add_columns_step:
  "dict_get sch (fst tc) \<noteq> None \<Longrightarrow> add_columns (tc # tcs) sch = add_columns tcs (with_column tc sch)"
  by (auto simp: add_column_def with_column_def duplicate_harmless [simplified])

lemma with_column_get:
  "dict_get (with_column (tb, c) sch) t =
     (if t = tb then map_option (\<lambda>cols. if c \<in> set cols then cols else cols @ [c]) (dict_get sch t) else dict_get sch t)"
  by (auto simp: with_column_def split: option.splits)

lemma with_column_same: "map_option (\<lambda>cols. snd tc \<in> set cols) (dict_get sch (fst tc)) = Some True \<Longrightarrow> with_column tc sch = sch"
  by (auto simp: with_column_def split: option.splits)

lemma columns_ensured:
  assumes "\<forall>tc \<in> set added_columns. dict_get sch (fst tc) \<noteq> None"
  shows "\<exists>sch'. ensure_columns sch = (Inr (), sch') \<and> ensure_columns sch' = (Inr (), sch') \<and>
    (\<forall>t. dict_get sch' t = map_option (\<lambda>cols. case dict_get added_columns t of None \<Rightarrow> cols
        | Some c \<Rightarrow> if c \<in> set cols then cols else cols @ [c]) (dict_get sch t))"
proof -
  let ?s = "with_column (''events'', ''detail'') (with_column (''alert_routes'', ''cooldown_sec'') (with_column (''cameras'', ''rules'') sch))"
  have p: "dict_get sch ''cameras'' \<noteq> None" "dict_get sch ''alert_routes'' \<noteq> None" "dict_get sch ''events'' \<noteq> None"
    using assms by (simp_all add: added_columns_def)
  have run: "ensure_columns t = (Inr (), with_column (''events'', ''detail'') (with_column (''alert_routes'', ''cooldown_sec'')
      (with_column (''cameras'', ''rules'') t)))"
    if "dict_get t ''cameras'' \<noteq> None" "dict_get t ''alert_routes'' \<noteq> None" "dict_get t ''events'' \<noteq> None" for t
  proof -
    let ?t1 = "with_column (''cameras'', ''rules'') t" let ?t2 = "with_column (''alert_routes'', ''cooldown_sec'') ?t1"
    have "ensure_columns t = add_columns [(''alert_routes'', ''cooldown_sec''), (''events'', ''detail'')] ?t1"
      unfolding ensure_columns_def added_columns_def by (rule add_columns_step) (use that in simp)
    also have "\<dots> = add_columns [(''events'', ''detail'')] ?t2" by (rule add_columns_step) (use that in \<open>simp add: with_column_get\<close>)
    also have "\<dots> = add_columns [] (with_column (''events'', ''detail'') ?t2)"
      by (rule add_columns_step) (use that in \<open>simp add: with_column_get\<close>)
    finally show ?thesis by simp
  qed
  have ac: "dict_get added_columns t = (if t = ''cameras'' then Some ''rules'' else if t = ''alert_routes'' then Some ''cooldown_sec''
      else if t = ''events'' then Some ''detail'' else None)" for t by (simp add: added_columns_def dict_get_def)
  have get: "dict_get ?s t = map_option (\<lambda>cols. case dict_get added_columns t of None \<Rightarrow> cols
        | Some c \<Rightarrow> if c \<in> set cols then cols else cols @ [c]) (dict_get sch t)" for t
    by (simp add: with_column_get ac option.map_ident)
  have same: "with_column tc ?s = ?s" if tc: "tc \<in> set added_columns" for tc
  proof (rule with_column_same)
    obtain cols where c: "dict_get sch (fst tc) = Some cols" using bspec [OF assms tc] by blast
    have k: "dict_get added_columns (fst tc) = Some (snd tc)" using tc by (auto simp: dict_get_def added_columns_def)
    show "map_option (\<lambda>cols. snd tc \<in> set cols) (dict_get ?s (fst tc)) = Some True" unfolding get c k by simp
  qed
  have "ensure_columns ?s = (Inr (), ?s)"
    using run [of ?s] p same [of "(''cameras'', ''rules'')"] same [of "(''alert_routes'', ''cooldown_sec'')"] same [of "(''events'', ''detail'')"]
    by (simp only: get) (simp add: added_columns_def)
  then show ?thesis using run [OF p] get by blast
qed

text \<open>References are enrolled with the model the worker recognises with.\<close>

lemma same_embedder: "se_ai_identity st \<Longrightarrow> make_face_chain digest st ms = choose_embedder digest ms"
  by (simp add: make_face_chain_def choose_embedder_def)

section \<open>What seeding leaves\<close>

definition fresh_ids :: "api_env \<Rightarrow> app \<Rightarrow> bool" where
  \<comment> \<open>ids still to be drawn are new\<close>
  "fresh_ids env a \<longleftrightarrow> inj (ae_uuid env) \<and> (\<forall>n \<ge> ap_next a. ae_uuid env n \<notin> set (dict_keys (db_permissions (ap_db a))) \<and>
     ae_uuid env n \<notin> set (dict_keys (db_roles (ap_db a))) \<and> ae_uuid env n \<notin> set (dict_keys (db_users (ap_db a))))"

definition permission_id :: "string \<Rightarrow> app \<Rightarrow> string option" where
  "permission_id p a = map_option fst (find_row (\<lambda>r. pe_name r = p) (db_permissions (ap_db a)))"

definition seeded_role :: "app \<Rightarrow> string \<times> string list \<Rightarrow> bool" where
  \<comment> \<open>the role is stored with exactly its permissions\<close>
  "seeded_role a np \<longleftrightarrow> (\<exists>i r. find_row (\<lambda>r. ro_name r = fst np) (db_roles (ap_db a)) = Some (i, r) \<and>
     list_all2 (\<lambda>p k. permission_id p a = Some k) (snd np) (ro_permissions r))"

lemma looked_up: "list_all2 (\<lambda>p k. f p = Some k) ps ks \<longleftrightarrow> map f ps = map Some ks"
  by (induction ps arbitrary: ks) (auto simp: list_all2_Cons1 Cons_eq_map_conv)

lemma looked_up_all: "map f ps = map Some ks \<Longrightarrow> list_all (\<lambda>p. f p \<noteq> None) ps"
  by (induction ps arbitrary: ks) (auto simp: Cons_eq_map_conv)

lemma find_append: "find P (xs @ ys) = (case find P xs of None \<Rightarrow> find P ys | Some x \<Rightarrow> Some x)"
  by (induction xs) auto

lemma ensure_permission_exact:
  assumes "fresh_ids env a"
  shows "case ensure_permission env p a of (i, b) \<Rightarrow>
    permission_id p b = Some i \<and> (\<forall>q k. permission_id q a = Some k \<longrightarrow> permission_id q b = Some k) \<and>
    fresh_ids env b \<and> db_roles (ap_db b) = db_roles (ap_db a) \<and> db_users (ap_db b) = db_users (ap_db a) \<and>
    (if permission_id p a = None then True else b = a)"
proof (cases "find_row (\<lambda>r. pe_name r = p) (db_permissions (ap_db a))")
  case (Some x)
  then show ?thesis using assms by (cases x) (simp add: ensure_permission_def permission_id_def)
next
  case None
  let ?i = "ae_uuid env (ap_next a)" let ?row = "\<lparr>pe_name = p\<rparr>"
  let ?b = "a\<lparr>ap_next := Suc (ap_next a), ap_db := (ap_db a)\<lparr>db_permissions := dict_set ?i ?row (db_permissions (ap_db a))\<rparr>\<rparr>"
  have new: "?i \<notin> set (dict_keys (db_permissions (ap_db a)))" using assms by (simp add: fresh_ids_def)
  have b: "ensure_permission env p a = (?i, ?b)" using None by (simp add: ensure_permission_def fresh_id_def Let_def)
  have perms: "db_permissions (ap_db ?b) = db_permissions (ap_db a) @ [(?i, ?row)]" by (simp add: dict_set_fresh [OF new])
  have "permission_id p ?b = Some ?i" using None unfolding permission_id_def perms find_row_def find_append by simp
  moreover have "permission_id q a = Some k \<Longrightarrow> permission_id q ?b = Some k" for q k
    unfolding permission_id_def perms find_row_def find_append by (auto split: option.splits)
  moreover have "fresh_ids env ?b" using assms by (auto simp: fresh_ids_def inj_eq)
  ultimately show ?thesis using None by (auto simp: b permission_id_def)
qed

lemma ensure_permissions_exact:
  "fresh_ids env a \<Longrightarrow> case ensure_permissions env ps a of (is, b) \<Rightarrow>
    list_all2 (\<lambda>p k. permission_id p b = Some k) ps is \<and> (\<forall>q k. permission_id q a = Some k \<longrightarrow> permission_id q b = Some k) \<and>
    fresh_ids env b \<and> db_roles (ap_db b) = db_roles (ap_db a) \<and> db_users (ap_db b) = db_users (ap_db a) \<and>
    (if list_all (\<lambda>p. permission_id p a \<noteq> None) ps then b = a else True)"
proof (induction ps arbitrary: a)
  case (Cons p ps)
  obtain i a1 where e: "ensure_permission env p a = (i, a1)" by fastforce
  obtain "is" a2 where e2: "ensure_permissions env ps a1 = (is, a2)" by fastforce
  note h = ensure_permission_exact [OF Cons.prems, of p, unfolded e prod.case]
  have f1: "fresh_ids env a1" using h by blast
  note IH = Cons.IH [OF f1, unfolded e2 prod.case]
  have "list_all2 (\<lambda>p k. permission_id p a2 = Some k) (p # ps) (i # is)" using h IH by auto
  then show ?case using h IH by (auto simp: e e2)
qed simp

lemma key_absent: "i \<notin> fst ` set d \<Longrightarrow> (i, r) \<in> set d \<Longrightarrow> False"
  by force

lemma permission_id_roles [simp]: "permission_id p (a\<lparr>ap_db := (ap_db a)\<lparr>db_roles := d\<rparr>\<rparr>) = permission_id p a"
  by (simp add: permission_id_def)

lemma find_set_same:
  "dict_ok d \<Longrightarrow> find_row P d = Some (i, r) \<Longrightarrow> P r' \<Longrightarrow> find_row P (dict_set i r' d) = Some (i, r')"
  unfolding find_row_def dict_ok_def dict_keys_def dict_set_def
  by (induction d) (auto split: if_splits dest: find_Some_iff [THEN iffD1] nth_mem)

lemma find_set_other:
  "dict_ok d \<Longrightarrow> (i, r) \<in> set d \<Longrightarrow> \<not> P r \<Longrightarrow> \<not> P r' \<Longrightarrow> find_row P (dict_set i r' d) = find_row P d"
  unfolding find_row_def dict_ok_def dict_keys_def dict_set_def
  by (induction d) (auto dest: key_absent)

lemma set_found_same: "dict_ok d \<Longrightarrow> (i, r) \<in> set d \<Longrightarrow> dict_set i r d = d"
  unfolding dict_ok_def dict_keys_def dict_set_def by (induction d) (auto dest: key_absent)

lemma find_row_Some: "find_row P d = Some (i, r) \<Longrightarrow> (i, r) \<in> set d \<and> P r"
  unfolding find_row_def by (induction d) (auto split: if_splits)

lemma ensure_role_exact:
  assumes "fresh_ids env a" and "dict_ok (db_roles (ap_db a))"
  shows "seeded_role (ensure_role env name ps a) (name, ps) \<and>
    (\<forall>np. fst np \<noteq> name \<longrightarrow> seeded_role a np \<longrightarrow> seeded_role (ensure_role env name ps a) np) \<and>
    fresh_ids env (ensure_role env name ps a) \<and> dict_ok (db_roles (ap_db (ensure_role env name ps a))) \<and>
    db_users (ap_db (ensure_role env name ps a)) = db_users (ap_db a) \<and>
    (if seeded_role a (name, ps) then ensure_role env name ps a = a else True)"
proof -
  obtain "is" a1 where e: "ensure_permissions env ps a = (is, a1)" by fastforce
  note h = ensure_permissions_exact [OF assms(1), of ps, unfolded e prod.case]
  have roles: "db_roles (ap_db a1) = db_roles (ap_db a)" using h by blast
  have stays: "seeded_role a np \<Longrightarrow> seeded_role a1 np" for np
    using h unfolding seeded_role_def roles by (fastforce elim: list_all2_mono)
  show ?thesis
  proof (cases "find_row (\<lambda>r. ro_name r = name) (db_roles (ap_db a))")
    case (Some ir)
    then obtain i r where f: "find_row (\<lambda>r. ro_name r = name) (db_roles (ap_db a)) = Some (i, r)" by (cases ir) simp
    note m = find_row_Some [OF f]
    let ?r = "r\<lparr>ro_permissions := is\<rparr>"
    let ?b = "a1\<lparr>ap_db := (ap_db a1)\<lparr>db_roles := dict_set i ?r (db_roles (ap_db a1))\<rparr>\<rparr>"
    have b: "ensure_role env name ps a = ?b" by (simp add: ensure_role_def e roles f)
    have "find_row (\<lambda>r. ro_name r = name) (db_roles (ap_db ?b)) = Some (i, ?r)"
      using find_set_same [OF assms(2) f, of ?r] m by (simp add: roles)
    then have own: "seeded_role ?b (name, ps)" using h by (simp add: seeded_role_def)
    have "seeded_role ?b np" if "fst np \<noteq> name" "seeded_role a np" for np
    proof -
      have "find_row (\<lambda>r. ro_name r = fst np) (db_roles (ap_db ?b)) = find_row (\<lambda>r. ro_name r = fst np) (db_roles (ap_db a))"
        using find_set_other [OF assms(2), of i r "\<lambda>r. ro_name r = fst np" ?r] m that(1) by (simp add: roles)
      then show ?thesis using stays [OF that(2)] by (simp add: seeded_role_def roles)
    qed
    moreover have "ensure_role env name ps a = a" if s: "seeded_role a (name, ps)"
    proof -
      from s have l: "list_all2 (\<lambda>p k. permission_id p a = Some k) ps (ro_permissions r)" by (simp add: seeded_role_def f)
      then have m1: "map (\<lambda>p. permission_id p a) ps = map Some (ro_permissions r)" by (simp only: looked_up)
      then have "list_all (\<lambda>p. permission_id p a \<noteq> None) ps" by (rule looked_up_all)
      then have a1: "a1 = a" using h by simp
      with h have "map (\<lambda>p. permission_id p a) ps = map Some is" by (simp only: looked_up)
      with m1 have "is = ro_permissions r" by (metis inj_Some inj_mapD inj_map_eq_map)
      then show ?thesis unfolding b a1 using set_found_same [OF assms(2), of i r] m by simp
    qed
    moreover have "i \<in> set (dict_keys (db_roles (ap_db a)))" using m by (force simp: dict_keys_def)
    then have "fresh_ids env ?b" using h by (auto simp: fresh_ids_def)
    ultimately show ?thesis using own h roles assms(2) unfolding b by auto
  next
    case None
    let ?i = "ae_uuid env (ap_next a1)"
    let ?r = "\<lparr>ro_name = name, ro_description = ''Built-in '' @ name @ '' role'', ro_permissions = is\<rparr>"
    let ?b = "a1\<lparr>ap_next := Suc (ap_next a1), ap_db := (ap_db a1)\<lparr>db_roles := dict_set ?i ?r (db_roles (ap_db a1))\<rparr>\<rparr>"
    have b: "ensure_role env name ps a = ?b" using None by (simp add: ensure_role_def e roles fresh_id_def Let_def)
    have "?i \<notin> set (dict_keys (db_roles (ap_db a1)))" using h order_refl [of "ap_next a1"] unfolding fresh_ids_def by blast
    then have d: "db_roles (ap_db ?b) = db_roles (ap_db a) @ [(?i, ?r)]"
      using dict_set_fresh [of ?i "db_roles (ap_db a1)" ?r] by (simp add: roles)
    have perm: "permission_id p ?b = permission_id p a1" for p by (simp add: permission_id_def)
    have "seeded_role ?b (name, ps)"
      using None h unfolding seeded_role_def d perm find_row_def find_append by simp
    moreover have "seeded_role ?b np" if "seeded_role a np" for np
    proof -
      from stays [OF that] obtain j r where "find_row (\<lambda>r. ro_name r = fst np) (db_roles (ap_db a)) = Some (j, r)"
        "list_all2 (\<lambda>p k. permission_id p a1 = Some k) (snd np) (ro_permissions r)" by (auto simp: seeded_role_def roles)
      then show ?thesis unfolding seeded_role_def d perm find_row_def find_append by simp
    qed
    moreover have "fresh_ids env ?b" using h by (auto simp: fresh_ids_def inj_eq)
    moreover have "dict_ok (db_roles (ap_db ?b))" using assms(2) roles by simp
    moreover have "\<not> seeded_role a (name, ps)" using None by (simp add: seeded_role_def)
    ultimately show ?thesis using h roles unfolding b by simp
  qed
qed

lemma ensure_roles_exact:
  assumes "fresh_ids env a" and "dict_ok (db_roles (ap_db a))" and "distinct (map fst nps)"
  defines "b \<equiv> fold (\<lambda>(name, ps). ensure_role env name ps) nps a"
  shows "list_all (seeded_role b) nps \<and> (\<forall>np. fst np \<notin> set (map fst nps) \<longrightarrow> seeded_role a np \<longrightarrow> seeded_role b np) \<and>
    fresh_ids env b \<and> dict_ok (db_roles (ap_db b)) \<and> db_users (ap_db b) = db_users (ap_db a) \<and>
    (if list_all (seeded_role a) nps then b = a else True)"
  using assms(1-3) unfolding b_def
proof (induction nps arbitrary: a)
  case (Cons np nps)
  obtain name ps where np: "np = (name, ps)" by (cases np)
  let ?a1 = "ensure_role env name ps a"
  note h = ensure_role_exact [OF Cons.prems(1,2), of name ps]
  have p: "fresh_ids env ?a1" "dict_ok (db_roles (ap_db ?a1))" "distinct (map fst nps)" using h Cons.prems(3) by auto
  note IH = Cons.IH [OF p]
  have "seeded_role (fold (\<lambda>(name, ps). ensure_role env name ps) nps ?a1) (name, ps)"
    using IH h Cons.prems(3) by (auto simp: np)
  then show ?case using IH h by (auto simp: np)
qed simp

lemma roles_distinct: "distinct (map fst role_permissions)" "dict_get role_permissions ''ADMIN'' = Some permissions"
  by (simp_all add: role_permissions_def dict_get_def)

text \<open>
  C40. Seeding succeeds on any database and is done once: every built-in role is there with exactly
  its permissions, a database without users gets the one administrator the settings name,
  with the administrator's role, and a second start changes nothing more.
\<close>

theorem seeding_exact:
  assumes "fresh_ids env a" and "dict_ok (db_roles (ap_db a))"
  shows "\<exists>b. seed env st now a = Inr b \<and> list_all (seeded_role b) role_permissions \<and> seed env st later b = Inr b \<and>
    (if db_users (ap_db a) = [] \<and> se_admin_email st \<noteq> []
     then \<exists>i u r. db_users (ap_db b) = [(i, u)] \<and> us_email u = se_admin_email st \<and> us_is_active u \<and>
       find_row (\<lambda>r. ro_name r = ''ADMIN'') (db_roles (ap_db b)) = Some (us_role_id u, r)
     else db_users (ap_db b) = db_users (ap_db a))"
proof -
  let ?b = "fold (\<lambda>(name, ps). ensure_role env name ps) role_permissions a"
  note h = ensure_roles_exact [OF assms roles_distinct(1)]
  have "(''ADMIN'', permissions) \<in> set role_permissions" using roles_distinct(2) by (rule dict_get_SomeD)
  then have "seeded_role ?b (''ADMIN'', permissions)" using h by (auto simp: list_all_iff)
  then obtain rid r where ad: "find_row (\<lambda>r. ro_name r = ''ADMIN'') (db_roles (ap_db ?b)) = Some (rid, r)"
    by (auto simp: seeded_role_def)
  have again: "seed_admin env st later c = seed env st later c" if "list_all (seeded_role c) role_permissions" "fresh_ids env c"
    "dict_ok (db_roles (ap_db c))" for c
    using ensure_roles_exact [OF that(2,3) roles_distinct(1)] that(1) by (simp add: seed_def)
  show ?thesis
  proof (cases "db_users (ap_db a) = [] \<and> se_admin_email st \<noteq> []")
    case False
    then have "seed_admin env st t ?b = Inr ?b" for t using h by (auto simp: seed_admin_def)
    then show ?thesis using h again [of ?b] False by (intro exI [of _ ?b]) (auto simp: seed_def)
  next
    case True
    let ?u = "\<lparr>us_email = se_admin_email st, us_full_name = ''Bootstrap Administrator'',
       us_password_hash = ae_hash env (if se_admin_password st \<noteq> [] then se_admin_password st else ''CHANGE_ME_STRONG_PASSWORD''),
       us_role_id = rid, us_is_active = True, us_mfa_enabled = False, us_mfa_secret_enc = None,
       us_failed_logins = 0, us_locked_until = None, us_created_at = now\<rparr>"
    let ?c = "?b\<lparr>ap_next := Suc (ap_next ?b), ap_db := (ap_db ?b)\<lparr>db_users := [(ae_uuid env (ap_next ?b), ?u)]\<rparr>\<rparr>"
    have c: "seed env st now a = Inr ?c"
      using True h ad by (simp add: seed_def seed_admin_def fresh_id_def Let_def dict_set_def)
    have seeded: "seeded_role ?c np = seeded_role ?b np" for np by (simp add: seeded_role_def permission_id_def)
    have "fresh_ids env ?c" using h by (auto simp: fresh_ids_def inj_eq dict_keys_def)
    moreover have "list_all (seeded_role ?c) role_permissions" using h by (simp add: seeded [abs_def] list_all_iff)
    moreover have "dict_ok (db_roles (ap_db ?c))" using h by simp
    ultimately have "seed env st later ?c = Inr ?c" "list_all (seeded_role ?c) role_permissions"
      using again [of ?c] by (simp_all add: seed_admin_def)
    then show ?thesis using c True ad by (intro exI [of _ ?c]) simp
  qed
qed

theorem seeding_exact_witness:
  "\<exists>b. seed \<lparr>ae_uuid = \<lambda>n. replicate n CHR ''i'', ae_hash = \<lambda>x. x, ae_verify = \<lambda>p h. p = h, ae_dummy_hash = [],
       ae_encrypt = \<lambda>x. x, ae_decrypt = Some, ae_jwt_encode = \<lambda>c s. [], ae_jwt_decode = \<lambda>now tok s. None,
       ae_hmac = \<lambda>s c. [], ae_new_secret = \<lambda>n. []\<rparr> (default_settings\<lparr>se_admin_email := ''a@b''\<rparr>) 0 \<lparr>ap_db = empty_db, ap_next = 0\<rparr> = Inr b \<and>
     length (db_users (ap_db b)) = 1 \<and> list_all (seeded_role b) role_permissions"
proof -
  let ?env = "\<lparr>ae_uuid = \<lambda>n. replicate n CHR ''i'', ae_hash = \<lambda>x. x, ae_verify = \<lambda>p h. p = h, ae_dummy_hash = [],
       ae_encrypt = \<lambda>x. x, ae_decrypt = Some, ae_jwt_encode = \<lambda>c s. [], ae_jwt_decode = \<lambda>now tok s. None,
       ae_hmac = \<lambda>s c. [], ae_new_secret = \<lambda>n. []\<rparr> :: api_env"
  have "inj (ae_uuid ?env)" by (auto simp: inj_def dest: arg_cong [of _ _ length])
  then have "fresh_ids ?env \<lparr>ap_db = empty_db, ap_next = 0\<rparr>" "dict_ok (db_roles empty_db)"
    by (simp_all add: fresh_ids_def empty_db_def dict_keys_def)
  moreover have e: "db_users (ap_db \<lparr>ap_db = empty_db, ap_next = 0\<rparr>) = [] \<and> se_admin_email (default_settings\<lparr>se_admin_email := ''a@b''\<rparr>) \<noteq> []"
    by (simp add: empty_db_def)
  ultimately obtain b i u where "seed ?env (default_settings\<lparr>se_admin_email := ''a@b''\<rparr>) 0 \<lparr>ap_db = empty_db, ap_next = 0\<rparr> = Inr b"
    "list_all (seeded_role b) role_permissions" "db_users (ap_db b) = [(i, u)]"
    using seeding_exact [of ?env "\<lparr>ap_db = empty_db, ap_next = 0\<rparr>" "default_settings\<lparr>se_admin_email := ''a@b''\<rparr>" 0 0, unfolded if_P [OF e]]
    unfolding app.select_convs by blast
  then show ?thesis by (metis One_nat_def length_Cons list.size(3))
qed

end
