(* ===== verification/Onvif.thy ===== *)
theory Onvif
  imports Camera_Examples
begin

text \<open>
  The ONVIF client (\<open>packages/video/onvif.py\<close>) and the two routes of \<open>apps/api/routers/cameras.py\<close>
  that use it. What is sent over the network and what comes back is a parameter; texts are the
  decoded bytes. The regular expressions are scanners that try each position in turn.
\<close>

section \<open>Scanning\<close>

text \<open>
  \<open>re.finditer\<close>: a matcher yields what it captures and how many characters beyond the first
  it consumes.
\<close>

function re_scan :: "(string \<Rightarrow> (string \<times> nat) option) \<Rightarrow> string \<Rightarrow> string list" where
  "re_scan m s = (case s of [] \<Rightarrow> [] | c # cs \<Rightarrow>
     (case m s of None \<Rightarrow> re_scan m cs | Some (x, k) \<Rightarrow> x # re_scan m (drop k cs)))"
  by auto
termination
  by (relation "measure (\<lambda>(m, s). length s)") auto

declare re_scan.simps [simp del]

fun cut_at :: "string \<Rightarrow> string \<Rightarrow> string option" where
  \<comment> \<open>the text before the first occurrence\<close>
  "cut_at p [] = (if p = [] then Some [] else None)"
| "cut_at p (c # cs) = (if starts_with (c # cs) p then Some [] else map_option ((#) c) (cut_at p cs))"

definition match_xaddrs :: "string \<Rightarrow> (string \<times> nat) option" where
  \<comment> \<open>\<open><d:XAddrs[^>]*>(.*?)</d:XAddrs>\<close>, where the dot matches every character\<close>
  "match_xaddrs s =
     (if \<not> starts_with s ''<d:XAddrs'' then None
      else (let attrs = takeWhile (\<lambda>c. c \<noteq> CHR ''>'') (drop 9 s); rest = drop (9 + length attrs) s
            in if rest = [] then None
               else (case cut_at ''</d:XAddrs>'' (tl rest) of
                       None \<Rightarrow> None
                     | Some body \<Rightarrow> Some (body, 9 + length attrs + 1 + length body + length ''</d:XAddrs>'' - 1))))"

definition dq :: char where "dq = CHR 0x22"

definition token_attr :: string where "token_attr = ''token='' @ [dq]"

definition match_token :: "string \<Rightarrow> (string \<times> nat) option" where
  \<comment> \<open>\<open>token="([^"]+)"\<close>\<close>
  "match_token s =
     (if \<not> starts_with s token_attr then None
      else (let t = takeWhile (\<lambda>c. c \<noteq> dq) (drop 7 s)
            in if t = [] \<or> drop (7 + length t) s = [] then None else Some (t, 7 + length t + 1 - 1)))"

definition match_uri :: "string \<Rightarrow> (string \<times> nat) option" where
  \<comment> \<open>\<open><tt:Uri>(.*?)</tt:Uri>\<close>, where the dot stops at a line end\<close>
  "match_uri s =
     (if \<not> starts_with s ''<tt:Uri>'' then None
      else (case cut_at ''</tt:Uri>'' (drop 8 s) of
              None \<Rightarrow> None
            | Some body \<Rightarrow> if CHR 0x0A \<in> set body then None else Some (body, 8 + length body + length ''</tt:Uri>'' - 1)))"

fun split_words :: "string \<Rightarrow> string \<Rightarrow> string list" where
  \<comment> \<open>\<open>str.split()\<close>: the word so far, the text\<close>
  "split_words w [] = (if w = [] then [] else [w])"
| "split_words w (c # cs) =
     (if is_space c then (if w = [] then [] else [w]) @ split_words [] cs else split_words (w @ [c]) cs)"

section \<open>The client\<close>

definition parse_xaddrs :: "string \<Rightarrow> string list" where
  "parse_xaddrs xml = concat (map (split_words []) (re_scan match_xaddrs xml))"

definition xml_lines :: "string list \<Rightarrow> string" where "xml_lines = join_with [CHR 0x0A]"

definition quoted :: "string \<Rightarrow> string" where "quoted s = [dq] @ s @ [dq]"

definition xml_head :: string where
  "xml_head = ''<?xml version='' @ quoted ''1.0'' @ '' encoding='' @ quoted ''utf-8'' @ ''?>''"

definition envelope_open :: string where
  "envelope_open = ''<Envelope xmlns='' @ quoted ''http://www.w3.org/2003/05/soap-envelope''"

definition discovery_probe :: "string \<Rightarrow> string" where
  "discovery_probe msg = xml_lines
     [xml_head,
      envelope_open,
      ''          xmlns:d='' @ quoted ''http://schemas.xmlsoap.org/ws/2005/04/discovery'' @ ''>'',
      ''  <Header><d:MessageID>urn:uuid:'' @ msg @ ''</d:MessageID>'',
      ''    <d:Action>a:Probe</d:Action></Header>'',
      ''  <Body><d:Probe><d:Types>dn:NetworkVideoTransmitter</d:Types></d:Probe></Body>'',
      ''</Envelope>'']"

definition profile_request :: "string \<Rightarrow> string \<Rightarrow> string" where
  "profile_request op token = xml_lines
     [xml_head,
      envelope_open,
      ''          xmlns:trt='' @ quoted ''http://www.onvif.org/ver10/media/wsdl'',
      ''          xmlns:tt='' @ quoted ''http://www.onvif.org/ver10/schema'' @ ''>'',
      ''  <Body><trt:'' @ op @ ''><trt:ProfileToken>'' @ token @ ''</trt:ProfileToken></trt:'' @ op @ ''></Body>'',
      ''</Envelope>'']"

text \<open>The outside: an exchange with an address, what a broadcast collects, what is installed.\<close>

type_synonym soap_post = "string \<Rightarrow> string \<Rightarrow> py_error + string"

record onvif_client =
  oc_xaddr :: string
  oc_user :: "string option"
  oc_password :: "string option"
  oc_post :: "soap_post option"

definition discover :: "(string \<Rightarrow> py_error + string list) \<Rightarrow> string \<Rightarrow> py_error + string list" where
  \<comment> \<open>the datagrams that answer the probe before the timeout\<close>
  "discover broadcast msg = bind_ok (broadcast (discovery_probe msg)) (\<lambda>datagrams. Inr (concat (map parse_xaddrs datagrams)))"

definition soap_call :: "soap_post option \<Rightarrow> onvif_client \<Rightarrow> string \<Rightarrow> string \<Rightarrow> py_error + string" where
  \<comment> \<open>\<open>_call\<close>; \<open>httpx\<close> is the installed HTTP library, if any\<close>
  "soap_call httpx c op token =
     (case oc_post c of
        None \<Rightarrow> (case httpx of None \<Rightarrow> Inl RuntimeError | Some post \<Rightarrow> post (oc_xaddr c) (profile_request op token))
      | Some post \<Rightarrow> post (oc_xaddr c) (profile_request op token))"

definition get_profiles :: "soap_post option \<Rightarrow> onvif_client \<Rightarrow> py_error + string list" where
  "get_profiles httpx c = bind_ok (soap_call httpx c ''GetProfiles'' []) (\<lambda>xml. Inr (re_scan match_token xml))"

definition get_stream_uri :: "soap_post option \<Rightarrow> onvif_client \<Rightarrow> string \<Rightarrow> py_error + string" where
  "get_stream_uri httpx c token =
     bind_ok (soap_call httpx c ''GetStreamUri'' token) (\<lambda>xml.
       Inr (case re_scan match_uri xml of [] \<Rightarrow> [] | x # _ \<Rightarrow> x))"

fun collect_uris :: "soap_post option \<Rightarrow> onvif_client \<Rightarrow> string list \<Rightarrow> py_error + string list" where
  "collect_uris httpx c [] = Inr []"
| "collect_uris httpx c (p # ps) =
     bind_ok (get_stream_uri httpx c p) (\<lambda>uri.
     bind_ok (collect_uris httpx c ps) (\<lambda>uris. Inr (if uri = [] then uris else uri # uris)))"

definition stream_uris :: "soap_post option \<Rightarrow> onvif_client \<Rightarrow> py_error + string list" where
  "stream_uris httpx c = bind_ok (get_profiles httpx c) (collect_uris httpx c)"

section \<open>The routes\<close>

definition onvif_discover :: "(string \<Rightarrow> py_error + string list) \<Rightarrow> string \<Rightarrow> app \<Rightarrow> string list outcome" where
  \<comment> \<open>the addresses found; the audit record is written but never committed\<close>
  "onvif_discover broadcast msg a =
     ((case discover broadcast msg of Inl err \<Rightarrow> Inl (Crash err) | Inr found \<Rightarrow> Inr found), a)"

record streams_body =
  st_xaddr :: string
  st_user :: "string option"
  st_password :: "string option"

definition onvif_streams ::
  "(string \<Rightarrow> string list option) \<Rightarrow> settings \<Rightarrow> soap_post option \<Rightarrow> streams_body \<Rightarrow> app \<Rightarrow> string list outcome" where
  \<comment> \<open>the device's URIs; as above, no commit\<close>
  "onvif_streams dns st httpx b a =
     (case guard_url dns st (st_xaddr b) of
        Inl err \<Rightarrow> (Inl (guard_error err), a)
      | Inr _ \<Rightarrow>
          ((case stream_uris httpx \<lparr>oc_xaddr = st_xaddr b, oc_user = st_user b, oc_password = st_password b, oc_post = None\<rparr> of
              Inl err \<Rightarrow> Inl (Crash err) | Inr uris \<Rightarrow> Inr uris), a))"

section \<open>What is read out of an answer\<close>

definition lacks :: "string \<Rightarrow> string \<Rightarrow> bool" where
  \<comment> \<open>the pattern occurs nowhere in the text\<close>
  "lacks p s \<longleftrightarrow> list_all (\<lambda>i. \<not> starts_with (drop i s) p) [0..<length s]"

lemma lacks_suffix: "lacks p (a @ q) \<Longrightarrow> q \<noteq> [] \<Longrightarrow> \<not> starts_with q p"
proof -
  assume "lacks p (a @ q)" "q \<noteq> []"
  then have "\<not> starts_with (drop (length a) (a @ q)) p"
    unfolding lacks_def list_all_iff by (metis atLeastLessThan_iff length_append length_greater_0_conv less_add_same_cancel1 set_upt zero_le)
  then show ?thesis by simp
qed

lemma straddle:
  assumes "c \<notin> set p" and "q \<noteq> []" and "starts_with (q @ c # r) (c # p)"
  shows "starts_with q (c # p)"
proof (rule ccontr)
  assume n: "\<not> starts_with q (c # p)"
  have t: "take (Suc (length p)) (q @ c # r) = c # p" using assms(3) by (simp add: starts_with_def)
  have "length q < Suc (length p)"
  proof (rule ccontr)
    assume "\<not> length q < Suc (length p)"
    then have "take (Suc (length p)) (q @ c # r) = take (Suc (length p)) q" by simp
    with t n show False by (simp add: starts_with_def)
  qed
  then have "(c # p) ! length q = c" by (subst t [symmetric]) (simp add: nth_append)
  moreover obtain j where "length q = Suc j" using assms(2) by (cases q) auto
  ultimately have "p ! j = c" "j < length p" using \<open>length q < Suc (length p)\<close> by auto
  with assms(1) show False by (metis nth_mem)
qed

lemma re_scan_skip:
  assumes "\<And>p q. pre = p @ q \<Longrightarrow> q \<noteq> [] \<Longrightarrow> m (q @ rest) = None"
  shows "re_scan m (pre @ rest) = re_scan m rest"
  using assms
proof (induction pre)
  case (Cons c pre)
  have "m ((c # pre) @ rest) = None" by (rule Cons.prems [of "[]"]) simp_all
  moreover have "re_scan m (pre @ rest) = re_scan m rest"
    by (rule Cons.IH) (metis Cons.prems append_Cons)
  ultimately show ?case by (subst re_scan.simps) simp
qed simp

lemma re_scan_hit: "m (c # cs) = Some (x, k) \<Longrightarrow> re_scan m (c # cs) = x # re_scan m (drop k cs)"
  by (subst re_scan.simps) simp

lemma re_scan_Nil [simp]: "re_scan m [] = []"
  by (subst re_scan.simps) simp

text \<open>Skipping to the next occurrence of a pattern whose first character comes only once.\<close>

lemma scan_to_pattern:
  assumes m: "\<And>s. \<not> starts_with s (c # p) \<Longrightarrow> m s = None" and "c \<notin> set p" and "lacks (c # p) pre"
  shows "re_scan m (pre @ c # r) = re_scan m (c # r)" and "re_scan m pre = []"
proof -
  show "re_scan m (pre @ c # r) = re_scan m (c # r)"
    using straddle [OF assms(2)] lacks_suffix assms(3) by (intro re_scan_skip m) blast
  have "re_scan m (pre @ []) = re_scan m []"
    using lacks_suffix assms(3) by (intro re_scan_skip m) simp
  then show "re_scan m pre = []" by simp
qed

lemma token_attr_eq: "token_attr = CHR ''t'' # ''oken='' @ [dq]" by (simp add: token_attr_def)

lemma match_token_here:
  assumes "t \<noteq> []" and "dq \<notin> set t"
  shows "match_token (token_attr @ t @ dq # rest) = Some (t, 7 + length t)"
proof -
  have "takeWhile (\<lambda>c. c \<noteq> dq) (t @ dq # rest) = t" using assms(2) by (induction t) auto
  then show ?thesis using assms(1) by (simp add: match_token_def starts_with_def token_attr_def Let_def)
qed

definition profiles_doc :: "(string \<times> string) list \<Rightarrow> string \<Rightarrow> string" where
  \<comment> \<open>an answer with a token after each piece of text\<close>
  "profiles_doc ps tail = concat (map (\<lambda>(pre, t). pre @ token_attr @ t @ [dq]) ps) @ tail"

lemma scan_profiles:
  assumes "list_all (\<lambda>(pre, t). lacks token_attr pre \<and> t \<noteq> [] \<and> dq \<notin> set t) ps" and "lacks token_attr tail"
  shows "re_scan match_token (profiles_doc ps tail) = map snd ps"
proof -
  note to = scan_to_pattern [of "CHR ''t''" "''oken='' @ [dq]" match_token, folded token_attr_eq]
  have m: "\<not> starts_with s token_attr \<Longrightarrow> match_token s = None" for s by (simp add: match_token_def)
  have c: "CHR ''t'' \<notin> set (''oken='' @ [dq])" by (simp add: dq_def)
  show ?thesis
    using assms(1)
  proof (induction ps)
    case Nil
    show ?case using to(2) [OF m c assms(2)] by (simp add: profiles_doc_def)
  next
    case (Cons q ps)
    obtain pre t where q: "q = (pre, t)" "lacks token_attr pre" "t \<noteq> []" "dq \<notin> set t" using Cons.prems by auto
    let ?r = "profiles_doc ps tail"
    have d: "profiles_doc ((pre, t) # ps) tail = pre @ token_attr @ t @ dq # ?r" by (simp add: profiles_doc_def)
    have "re_scan match_token (pre @ token_attr @ t @ dq # ?r) = re_scan match_token (token_attr @ t @ dq # ?r)"
      using to(1) [OF m c q(2), of "''oken='' @ [dq] @ t @ dq # ?r"] by (simp add: token_attr_eq)
    also have "\<dots> = t # re_scan match_token (drop (7 + length t) (''oken='' @ [dq] @ t @ dq # ?r))"
      using re_scan_hit [of match_token "CHR ''t''" "''oken='' @ [dq] @ t @ dq # ?r" t "7 + length t"] match_token_here [OF q(3,4), of ?r]
      by (simp add: token_attr_eq)
    also have "drop (7 + length t) (''oken='' @ [dq] @ t @ dq # ?r) = ?r" by (simp add: eval_nat_numeral)
    finally show ?case using Cons.IH Cons.prems by (simp add: d q(1))
  qed
qed

lemma cut_at_here: "CHR ''<'' \<notin> set u \<Longrightarrow> cut_at (CHR ''<'' # p) (u @ CHR ''<'' # p @ r) = Some u"
  by (induction u) (auto simp: starts_with_def)

text \<open>The addresses a device announces are the words of the element that lists them.\<close>

lemma discovery_addresses:
  assumes "lacks ''<d:XAddrs'' pre" and "CHR ''<'' \<notin> set body" and "lacks ''<d:XAddrs'' post"
  shows "parse_xaddrs (pre @ ''<d:XAddrs>'' @ body @ ''</d:XAddrs>'' @ post) = split_words [] body"
proof -
  let ?p = "''d:XAddrs''" and ?r = "''d:XAddrs>'' @ body @ ''</d:XAddrs>'' @ post"
  have m: "\<not> starts_with s (CHR ''<'' # ?p) \<Longrightarrow> match_xaddrs s = None" for s by (simp add: match_xaddrs_def)
  have c: "CHR ''<'' \<notin> set ?p" by simp
  have hit: "match_xaddrs (CHR ''<'' # ?r) = Some (body, 9 + 0 + 1 + length body + length ''</d:XAddrs>'' - 1)"
    using cut_at_here [OF assms(2), of "''/d:XAddrs>''" post] by (simp add: match_xaddrs_def starts_with_def Let_def)
  have d: "drop (9 + 0 + 1 + length body + length ''</d:XAddrs>'' - 1) ?r = post" by (simp add: eval_nat_numeral)
  have "re_scan match_xaddrs (pre @ CHR ''<'' # ?r) = body # re_scan match_xaddrs post"
    using scan_to_pattern(1) [of "CHR ''<''" ?p match_xaddrs, OF m c assms(1), of ?r] re_scan_hit [of match_xaddrs "CHR ''<''" ?r, OF hit] d by simp
  moreover have "re_scan match_xaddrs post = []" by (rule scan_to_pattern(2) [of "CHR ''<''" ?p match_xaddrs, OF m c assms(3)])
  ultimately show ?thesis by (simp add: parse_xaddrs_def)
qed

definition uri_doc :: "string \<times> string \<times> string \<Rightarrow> string" where
  "uri_doc d = (case d of (pre, u, post) \<Rightarrow> pre @ ''<tt:Uri>'' @ u @ ''</tt:Uri>'' @ post)"

lemma scan_uri:
  assumes "lacks ''<tt:Uri>'' pre" and "list_all (\<lambda>c. c \<noteq> CHR ''<'' \<and> c \<noteq> CHR 0x0A) u"
  shows "\<exists>us. re_scan match_uri (uri_doc (pre, u, post)) = u # us"
proof -
  let ?r = "''tt:Uri>'' @ u @ ''</tt:Uri>'' @ post"
  have m: "\<not> starts_with s (CHR ''<'' # ''tt:Uri>'') \<Longrightarrow> match_uri s = None" for s by (simp add: match_uri_def)
  have "CHR ''<'' \<notin> set u" "CHR 0x0A \<notin> set u" using assms(2) by (auto simp: list_all_iff)
  then have hit: "match_uri (CHR ''<'' # ?r) = Some (u, 8 + length u + length ''</tt:Uri>'' - 1)"
    using cut_at_here [of u "''/tt:Uri>''" post] by (simp add: match_uri_def starts_with_def)
  have "uri_doc (pre, u, post) = pre @ CHR ''<'' # ?r" by (simp add: uri_doc_def)
  moreover have "re_scan match_uri (pre @ CHR ''<'' # ?r) = re_scan match_uri (CHR ''<'' # ?r)"
    by (rule scan_to_pattern(1) [OF m _ assms(1)]) simp_all
  ultimately show ?thesis using re_scan_hit [of match_uri "CHR ''<''" ?r, OF hit] by simp
qed

lemma collect_uris_docs:
  assumes "oc_post c = None" and "httpx = Some post"
    and "list_all (\<lambda>t. post (oc_xaddr c) (profile_request ''GetStreamUri'' t) = Inr (uri_doc (doc t)) \<and>
      lacks ''<tt:Uri>'' (fst (doc t)) \<and> list_all (\<lambda>c. c \<noteq> CHR ''<'' \<and> c \<noteq> CHR 0x0A) (fst (snd (doc t)))) ts"
  shows "collect_uris httpx c ts = Inr (filter (\<lambda>u. u \<noteq> []) (map (\<lambda>t. fst (snd (doc t))) ts))"
  using assms(3)
proof (induction ts)
  case (Cons t ts)
  obtain pre u tail where d: "doc t = (pre, u, tail)" by (cases "doc t")
  then obtain us where "re_scan match_uri (uri_doc (doc t)) = u # us" using scan_uri [of pre u tail] Cons.prems by auto
  then have "get_stream_uri httpx c t = Inr u"
    using Cons.prems assms(1,2) by (simp add: get_stream_uri_def soap_call_def)
  then show ?case using Cons by (simp add: d)
qed simp

lemma credentials_unused:
  "stream_uris httpx (c\<lparr>oc_user := user, oc_password := password\<rparr>) = stream_uris httpx c"
proof -
  have call: "soap_call httpx (c\<lparr>oc_user := user, oc_password := password\<rparr>) op token = soap_call httpx c op token" for op token
    by (cases "oc_post c"; cases httpx) (simp_all add: soap_call_def)
  have "collect_uris httpx (c\<lparr>oc_user := user, oc_password := password\<rparr>) ps = collect_uris httpx c ps" for ps
    by (induction ps) (simp_all add: get_stream_uri_def call)
  then have "collect_uris httpx (c\<lparr>oc_user := user, oc_password := password\<rparr>) = collect_uris httpx c" by (rule ext)
  then show ?thesis by (simp add: stream_uris_def get_profiles_def call)
qed

text \<open>
  C30. The stream addresses of an ONVIF device. An address the egress guard rejects is answered with
  the guard's error, whatever the network would do. Otherwise the answer is made of what the device
  at that address replies, and of nothing else: for a device that lists profiles and gives each of
  them an address, the answer is these addresses in the order of the profiles, the empty ones left
  out. The user and the password of the request play no part, and the database stays as it is.
\<close>

theorem onvif_streams_exact:
  assumes "post (st_xaddr b) (profile_request ''GetProfiles'' []) = Inr (profiles_doc ps tail)"
    and "list_all (\<lambda>(pre, t). lacks token_attr pre \<and> t \<noteq> [] \<and> dq \<notin> set t) ps" and "lacks token_attr tail"
    and "list_all (\<lambda>t. post (st_xaddr b) (profile_request ''GetStreamUri'' t) = Inr (uri_doc (doc t)) \<and>
      lacks ''<tt:Uri>'' (fst (doc t)) \<and> list_all (\<lambda>c. c \<noteq> CHR ''<'' \<and> c \<noteq> CHR 0x0A) (fst (snd (doc t)))) (map snd ps)"
  shows "onvif_streams dns st (Some post) (b\<lparr>st_user := user, st_password := password\<rparr>) a =
      (case guard_url dns st (st_xaddr b) of
         Inl err \<Rightarrow> (Inl (guard_error err), a)
       | Inr _ \<Rightarrow> (Inr (filter (\<lambda>u. u \<noteq> []) (map (\<lambda>(pre, t). fst (snd (doc t))) ps)), a))"
proof -
  let ?c = "\<lparr>oc_xaddr = st_xaddr b, oc_user = None, oc_password = None, oc_post = None\<rparr>"
  have "get_profiles (Some post) ?c = Inr (map snd ps)"
    using scan_profiles [OF assms(2,3)] by (simp add: get_profiles_def soap_call_def assms(1))
  then have "stream_uris (Some post) ?c = collect_uris (Some post) ?c (map snd ps)" by (simp add: stream_uris_def)
  also have "\<dots> = Inr (filter (\<lambda>u. u \<noteq> []) (map (\<lambda>t. fst (snd (doc t))) (map snd ps)))"
    by (rule collect_uris_docs [OF _ refl]) (use assms(4) in simp_all)
  finally have u: "stream_uris (Some post) ?c = Inr (filter (\<lambda>u. u \<noteq> []) (map (\<lambda>t. fst (snd (doc t))) (map snd ps)))" .
  have "stream_uris (Some post) \<lparr>oc_xaddr = st_xaddr b, oc_user = user, oc_password = password, oc_post = None\<rparr> =
      Inr (filter (\<lambda>u. u \<noteq> []) (map (\<lambda>(pre, t). fst (snd (doc t))) ps))"
    using credentials_unused [of "Some post" password user ?c] u by (simp add: comp_def case_prod_unfold)
  then show ?thesis by (simp add: onvif_streams_def split: sum.splits)
qed

definition cam_device :: soap_post where
  \<comment> \<open>a device with one profile, whose stream is at one address\<close>
  "cam_device xaddr body =
     (if body = profile_request ''GetProfiles'' [] then Inr (profiles_doc [(''<p '', ''P1'')] ''/>'')
      else Inr (uri_doc (''<u>'', ''rtsp://cam/1'', ''</u>'')))"

theorem onvif_streams_exact_witness:
  "fst (onvif_streams yard_dns desk_settings (Some cam_device)
     (\<lparr>st_xaddr = ''rtsp://h/x'', st_user = None, st_password = None\<rparr>\<lparr>st_user := Some ''root'', st_password := Some ''pw''\<rparr>) desk_app) =
     Inr [''rtsp://cam/1'']"
proof -
  let ?b = "\<lparr>st_xaddr = ''rtsp://h/x'', st_user = None, st_password = None\<rparr>"
  have p: "cam_device (st_xaddr ?b) (profile_request ''GetProfiles'' []) = Inr (profiles_doc [(''<p '', ''P1'')] ''/>'')"
    by (simp add: cam_device_def)
  have l: "lacks token_attr ''<p ''" "lacks token_attr ''/>''" "lacks ''<tt:Uri>'' ''<u>''" by code_simp+
  have d: "dq \<notin> set ''P1''" by code_simp
  have ne: "profile_request ''GetStreamUri'' ''P1'' \<noteq> profile_request ''GetProfiles'' []" by code_simp
  obtain g where g: "guard_url yard_dns desk_settings ''rtsp://h/x'' = Inr g" using yard_guard by blast
  show ?thesis
    using onvif_streams_exact [of cam_device ?b "[(''<p '', ''P1'')]" "''/>''" "\<lambda>_. (''<u>'', ''rtsp://cam/1'', ''</u>'')"
        yard_dns desk_settings "Some ''pw''" "Some ''root''" desk_app, OF p] l d g ne
    by (simp add: cam_device_def)
qed

end
