(* ===== verification/Face_Align.thy ===== *)
theory Face_Align
  imports Face_Onnx Matching
begin

text \<open>
  The rest of \<open>packages/ai/face_onnx.py\<close>: the canvas the face network sees, the detector with
  the landmarks it remembers, the alignment of a face to the template of the embedding network,
  and the embedding. Images are rows of pixels of channel values; the two networks are
  parameters. Numbers are reals, the code computes in single precision.
\<close>

type_synonym pixel = "real list"
type_synonym image = "pixel list list"

definition img_h :: "image \<Rightarrow> int" where "img_h im = int (length im)"

definition img_w :: "image \<Rightarrow> int" where "img_w im = (case im of [] \<Rightarrow> 0 | r # rs \<Rightarrow> int (length r))"

definition px :: "image \<Rightarrow> int \<Rightarrow> int \<Rightarrow> pixel" where "px im y x = im ! nat y ! nat x"

definition image_ok :: "image \<Rightarrow> bool" where
  \<comment> \<open>an array of height, width and three byte channels, not empty\<close>
  "image_ok im \<longleftrightarrow> 0 < img_h im \<and> 0 < img_w im \<and>
     list_all (\<lambda>r. int (length r) = img_w im \<and>
       list_all (\<lambda>p. length p = 3 \<and> list_all (\<lambda>v. 0 \<le> v \<and> v \<le> 255) p) r) im"

definition grid_map :: "nat \<Rightarrow> nat \<Rightarrow> (int \<Rightarrow> int \<Rightarrow> 'a) \<Rightarrow> 'a list list" where
  "grid_map rows cols f = map (\<lambda>y. map (\<lambda>x. f (int y) (int x)) [0..<cols]) [0..<rows]"

section \<open>The canvas\<close>

definition canvas_side :: "real \<Rightarrow> int \<Rightarrow> int" where
  \<comment> \<open>\<open>int(fh * scale) // 8 * 8\<close>\<close>
  "canvas_side scale n = \<lfloor>of_int n * scale\<rfloor> div 8 * 8"

definition scrfd_canvas :: "image \<Rightarrow> image" where
  "scrfd_canvas im =
     (let fh = img_h im; fw = img_w im; scale = 640 / of_int (max fh fw);
          nh = canvas_side scale fh; nw = canvas_side scale fw
      in grid_map 640 640 (\<lambda>y x.
           if y < nh \<and> x < nw
           then map (\<lambda>v. (v - 1275/10) / 128) (if (nh, nw) \<noteq> (fh, fw) then px im (y * fh div nh) (x * fw div nw) else px im y x)
           else [0, 0, 0]))"

definition scrfd_detect ::
  "(image \<Rightarrow> stride_out list) \<Rightarrow> real \<Rightarrow> image \<Rightarrow> bbox option \<Rightarrow> landmarks \<Rightarrow> py_error + bbox option \<times> landmarks" where
  \<comment> \<open>\<open>ScrfdFaceDetector.detect\<close>: the box, and \<open>_last_kps\<close> after the call; \<open>kps\<close> is \<open>_last_kps\<close> before\<close>
  "scrfd_detect net conf im person kps =
     bind_ok (scrfd_decode conf (net (scrfd_canvas im))) (\<lambda>faces.
       (case detect_face (img_h im) (img_w im) person faces of
          None \<Rightarrow> Inr (None, kps)
        | Some (b, best) \<Rightarrow> Inr (Some b, best)))"

section \<open>Alignment\<close>

definition arcface_ref :: "point list" where
  "arcface_ref = [(382946/10000, 516963/10000), (735318/10000, 515014/10000), (560252/10000, 717366/10000),
     (415493/10000, 923655/10000), (707299/10000, 922041/10000)]"

definition mean_point :: "point list \<Rightarrow> point" where
  "mean_point ps = (sum_list (map fst ps) / of_nat (length ps), sum_list (map snd ps) / of_nat (length ps))"

definition centred :: "point list \<Rightarrow> point list" where
  "centred ps = map (\<lambda>p. (fst p - fst (mean_point ps), snd p - snd (mean_point ps))) ps"

definition dot2 :: "point \<Rightarrow> point \<Rightarrow> real" where "dot2 p q = fst p * fst q + snd p * snd q"

definition cross2 :: "point \<Rightarrow> point \<Rightarrow> real" where "cross2 p q = fst p * snd q - snd p * fst q"

definition arctan2 :: "real \<Rightarrow> real \<Rightarrow> real" where "arctan2 y x = Arg (Complex x y)"

record similarity =
  sm_scale :: real
  sm_cos :: real  \<comment> \<open>\<open>cos_t\<close>, the scale included\<close>
  sm_sin :: real
  sm_src :: point
  sm_dst :: point

definition fit_similarity :: "point list \<Rightarrow> point list \<Rightarrow> similarity" where
  "fit_similarity dst src =
     (let src_d = centred src; dst_d = centred dst;
          a = sum_list (map2 dot2 src_d dst_d);
          b = sum_list (map2 cross2 src_d dst_d);
          d = sum_list (map (\<lambda>p. dot2 p p) src_d);
          denom = (if d = 0 then 1 else d);
          scale = sqrt (a\<^sup>2 + b\<^sup>2) / denom;
          theta = arctan2 b a
      in \<lparr>sm_scale = scale, sm_cos = cos theta * scale, sm_sin = sin theta * scale,
          sm_src = mean_point src, sm_dst = mean_point dst\<rparr>)"

definition source_point :: "similarity \<Rightarrow> point \<Rightarrow> point" where
  \<comment> \<open>the frame position of a position of the aligned crop\<close>
  "source_point m p =
     (let dx = fst p - fst (sm_dst m); dy = snd p - snd (sm_dst m)
      in ((sm_cos m * dx + sm_sin m * dy) / (sm_scale m)\<^sup>2 + fst (sm_src m),
          (- sm_sin m * dx + sm_cos m * dy) / (sm_scale m)\<^sup>2 + snd (sm_src m)))"

definition clip_int :: "int \<Rightarrow> int \<Rightarrow> int \<Rightarrow> int" where "clip_int lo hi n = min (max n lo) hi"

definition bilinear :: "image \<Rightarrow> point \<Rightarrow> pixel" where
  "bilinear im p =
     (let w = img_w im; h = img_h im;
          sx0 = \<lfloor>fst p\<rfloor>; sy0 = \<lfloor>snd p\<rfloor>; fx = fst p - of_int sx0; fy = snd p - of_int sy0;
          x0 = clip_int 0 (w - 2) sx0; y0 = clip_int 0 (h - 2) sy0
      in if 0 \<le> sx0 \<and> sx0 < w - 1 \<and> 0 \<le> sy0 \<and> sy0 < h - 1
         then map (\<lambda>c. (px im y0 x0 ! c * (1 - fx) + px im y0 (x0 + 1) ! c * fx) * (1 - fy)
                     + (px im (y0 + 1) x0 ! c * (1 - fx) + px im (y0 + 1) (x0 + 1) ! c * fx) * fy) [0, 1, 2]
         else [0, 0, 0])"

definition align_crop :: "image \<Rightarrow> point list \<Rightarrow> py_error + image" where
  \<comment> \<open>with a scale of zero the positions are not numbers, and their casts are up to numpy\<close>
  "align_crop im src_pts =
     (let m = fit_similarity arcface_ref src_pts
      in if sm_scale m = 0 then Inl Unmodelled
         else Inr (grid_map 112 112 (\<lambda>y x. bilinear im (source_point m (of_int x, of_int y)))))"

section \<open>The embedding\<close>

definition slice :: "int \<Rightarrow> int \<Rightarrow> 'a list \<Rightarrow> 'a list" where
  "slice a b xs = take (nat (b - a)) (drop (nat a) xs)"

definition crop_or_corner :: "nat \<Rightarrow> image \<Rightarrow> int \<Rightarrow> int \<Rightarrow> int \<Rightarrow> int \<Rightarrow> image" where
  \<comment> \<open>the rows and columns from \<open>y0\<close> and \<open>x0\<close>, at least one of each; the upper left corner if that is empty\<close>
  "crop_or_corner k im x0 y0 x1 y1 =
     (let crop = map (slice x0 (max (x0 + 1) x1)) (slice y0 (max (y0 + 1) y1) im)
      in if crop = [] \<or> hd crop = [] then map (take k) (take k im) else crop)"

definition margin_crop :: "image \<Rightarrow> bbox \<Rightarrow> image" where
  "margin_crop im face = (case face of (x, y, fw, fh) \<Rightarrow>
     (let h = of_int (img_h im); w = of_int (img_w im); mx = fw * (2/10); my = fh * (2/10);
          x0 = py_trunc (max 0 (x - mx) * w); y0 = py_trunc (max 0 (y - my) * h);
          x1 = py_trunc (min 1 (x + fw + mx) * w); y1 = py_trunc (min 1 (y + fh + my) * h)
      in crop_or_corner 112 im x0 y0 x1 y1))"

definition resize112 :: "image \<Rightarrow> image" where
  "resize112 crop = grid_map 112 112 (\<lambda>y x. px crop (y * img_h crop div 112) (x * img_w crop div 112))"

definition blob_of :: "image \<Rightarrow> real list list list" where
  \<comment> \<open>channels reversed and outermost, scaled\<close>
  "blob_of im = map (\<lambda>c. map (map (\<lambda>p. (p ! c - 1275/10) / (1275/10))) im) [2, 1, 0]"

definition centered_crop :: bbox where "centered_crop = (15/100, 5/100, 7/10, 9/10)"

definition face_patch :: "image \<Rightarrow> bbox \<Rightarrow> landmarks \<Rightarrow> py_error + image" where
  \<comment> \<open>\<open>aligned\<close> in \<open>ArcFaceEmbedder.embed\<close>\<close>
  "face_patch im face kps =
     (case kps of
        Some ks \<Rightarrow> align_crop im (map (\<lambda>(kx, ky). (kx * of_int (img_w im), ky * of_int (img_h im))) ks)
      | None \<Rightarrow> Inr (resize112 (margin_crop im face)))"

definition arcface_embed ::
  "(image \<Rightarrow> stride_out list) \<Rightarrow> real \<Rightarrow> (real list list list \<Rightarrow> real list) \<Rightarrow> image \<Rightarrow> bbox option \<Rightarrow> landmarks
   \<Rightarrow> py_error + real list \<times> landmarks" where
  \<comment> \<open>\<open>ArcFaceEmbedder.embed\<close> on a pixel array: the vector and the detector's \<open>_last_kps\<close> after the call\<close>
  "arcface_embed net conf embed_net im face_bbox kps =
     bind_ok (case face_bbox of
          Some b \<Rightarrow> Inr (b, kps)
        | None \<Rightarrow> bind_ok (scrfd_detect net conf im None kps) (\<lambda>(found, kps1).
            (case found of Some b \<Rightarrow> Inr (b, kps1) | None \<Rightarrow> Inr (centered_crop, None))))
     (\<lambda>(face, kps2). bind_ok (face_patch im face kps2) (\<lambda>aligned.
        Inr (normalize_vec (embed_net (blob_of aligned)), kps2)))"

section \<open>The alignment is the best one\<close>

definition turn :: "real \<Rightarrow> real \<Rightarrow> point \<Rightarrow> point \<Rightarrow> point" where
  \<comment> \<open>scaling and rotation by \<open>p + q i\<close>, then a shift\<close>
  "turn p q t s = (p * fst s - q * snd s + fst t, q * fst s + p * snd s + snd t)"

definition dist2 :: "point \<Rightarrow> point \<Rightarrow> real" where
  "dist2 a b = (fst a - fst b)\<^sup>2 + (snd a - snd b)\<^sup>2"

definition misfit :: "real \<Rightarrow> real \<Rightarrow> point \<Rightarrow> point list \<Rightarrow> point list \<Rightarrow> real" where
  "misfit p q t src dst = sum_list (map2 (\<lambda>s d. dist2 (turn p q t s) d) src dst)"

definition place :: "similarity \<Rightarrow> point \<Rightarrow> point" where
  \<comment> \<open>where the alignment puts a position of the frame\<close>
  "place m s = turn (sm_cos m) (sm_sin m) (sm_dst m)
     (fst s - fst (sm_src m), snd s - snd (sm_src m))"

definition spread :: "point list \<Rightarrow> real" where
  "spread ps = sum_list (map (\<lambda>p. dot2 p p) (centred ps))"

lemma misfit_moments:
  "length src = length dst \<Longrightarrow> misfit p q t src dst =
     (p\<^sup>2 + q\<^sup>2) * sum_list (map (\<lambda>s. dot2 s s) src) - 2 * p * sum_list (map2 dot2 src dst)
       - 2 * q * sum_list (map2 cross2 src dst) + sum_list (map (\<lambda>d. dot2 d d) dst)
       + of_nat (length src) * dot2 t t
       + 2 * (fst t * (p * sum_list (map fst src) - q * sum_list (map snd src) - sum_list (map fst dst))
            + snd t * (q * sum_list (map fst src) + p * sum_list (map snd src) - sum_list (map snd dst)))"
  by (induction src dst rule: list_induct2)
    (simp_all add: misfit_def dist2_def turn_def dot2_def cross2_def power2_eq_square algebra_simps)

lemma sum_list_minus_const: "sum_list (map (\<lambda>x. f x - c) xs) = sum_list (map f xs) - of_nat (length xs) * (c :: real)"
  by (induction xs) (simp_all add: algebra_simps)

lemma centred_sums: "sum_list (map fst (centred ps)) = 0" "sum_list (map snd (centred ps)) = 0"
  by (cases "ps = []"; simp add: centred_def mean_point_def comp_def sum_list_minus_const)+

lemma misfit_centred:
  assumes "length src = length dst"
  shows "misfit p q t src dst =
    misfit p q (fst t + p * fst (mean_point src) - q * snd (mean_point src) - fst (mean_point dst),
                snd t + q * fst (mean_point src) + p * snd (mean_point src) - snd (mean_point dst)) (centred src) (centred dst)"
  unfolding misfit_def centred_def zip_map1 zip_map2 map_map
  by (rule arg_cong [where f = sum_list], rule map_cong [OF refl])
    (simp add: dist2_def turn_def case_prod_unfold algebra_simps)

lemma cos_sin_arctan2:
  "cos (arctan2 b a) * sqrt (a\<^sup>2 + b\<^sup>2) = a" "sin (arctan2 b a) * sqrt (a\<^sup>2 + b\<^sup>2) = b"
proof -
  have "rcis (cmod (Complex a b)) (Arg (Complex a b)) = Complex a b" by (rule rcis_cmod_Arg)
  then have "Re (rcis (cmod (Complex a b)) (Arg (Complex a b))) = a" "Im (rcis (cmod (Complex a b)) (Arg (Complex a b))) = b"
    by simp_all
  then show "cos (arctan2 b a) * sqrt (a\<^sup>2 + b\<^sup>2) = a" "sin (arctan2 b a) * sqrt (a\<^sup>2 + b\<^sup>2) = b"
    by (simp_all add: arctan2_def complex_norm mult.commute)
qed

lemma fit_coefficients:
  fixes src dst :: "point list"
  defines "d \<equiv> (if spread src = 0 then 1 else spread src)"
  shows "sm_cos (fit_similarity dst src) = sum_list (map2 dot2 (centred src) (centred dst)) / d"
    and "sm_sin (fit_similarity dst src) = sum_list (map2 cross2 (centred src) (centred dst)) / d"
    and "(sm_scale (fit_similarity dst src))\<^sup>2 = (sm_cos (fit_similarity dst src))\<^sup>2 + (sm_sin (fit_similarity dst src))\<^sup>2"
    and "sm_src (fit_similarity dst src) = mean_point src" "sm_dst (fit_similarity dst src) = mean_point dst"
proof -
  let ?a = "sum_list (map2 dot2 (centred src) (centred dst))" and ?b = "sum_list (map2 cross2 (centred src) (centred dst))"
  have c: "cos (arctan2 ?b ?a) * (sqrt (?a\<^sup>2 + ?b\<^sup>2) / d) = ?a / d" "sin (arctan2 ?b ?a) * (sqrt (?a\<^sup>2 + ?b\<^sup>2) / d) = ?b / d"
    by (simp_all only: times_divide_eq_right cos_sin_arctan2)
  have f: "sm_cos (fit_similarity dst src) = cos (arctan2 ?b ?a) * (sqrt (?a\<^sup>2 + ?b\<^sup>2) / d)"
    "sm_sin (fit_similarity dst src) = sin (arctan2 ?b ?a) * (sqrt (?a\<^sup>2 + ?b\<^sup>2) / d)"
    by (simp_all add: fit_similarity_def Let_def d_def spread_def)
  show cos: "sm_cos (fit_similarity dst src) = ?a / d" and sin: "sm_sin (fit_similarity dst src) = ?b / d"
    unfolding f by (rule c)+
  have "sm_scale (fit_similarity dst src) = sqrt (?a\<^sup>2 + ?b\<^sup>2) / d"
    by (simp add: fit_similarity_def Let_def d_def spread_def)
  then show "(sm_scale (fit_similarity dst src))\<^sup>2 = (sm_cos (fit_similarity dst src))\<^sup>2 + (sm_sin (fit_similarity dst src))\<^sup>2"
    unfolding cos sin by (simp add: power_divide add_divide_distrib)
  show "sm_src (fit_similarity dst src) = mean_point src" "sm_dst (fit_similarity dst src) = mean_point dst"
    by (simp_all add: fit_similarity_def Let_def)
qed

lemma sum_list_nonneg_zero: "(\<And>x. x \<in> set xs \<Longrightarrow> 0 \<le> f x) \<Longrightarrow> 0 \<le> sum_list (map f xs :: real list)"
  by (induction xs) auto

lemma spread_nonneg: "0 \<le> spread ps"
  unfolding spread_def by (rule sum_list_nonneg_zero) (simp add: dot2_def)

lemma place_misfit:
  assumes "length src = length dst"
  shows "sum_list (map2 (\<lambda>s d. dist2 (place (fit_similarity dst src) s) d) src dst) =
    misfit (sm_cos (fit_similarity dst src)) (sm_sin (fit_similarity dst src)) (0, 0) (centred src) (centred dst)"
  unfolding misfit_def centred_def zip_map1 zip_map2 map_map
  by (rule arg_cong [where f = sum_list], rule map_cong [OF refl])
    (simp add: dist2_def turn_def place_def fit_coefficients(4,5) case_prod_unfold algebra_simps)

lemma fit_least:
  assumes len: "length src = length dst" and sp: "spread src \<noteq> 0"
  shows "sum_list (map2 (\<lambda>s d. dist2 (place (fit_similarity dst src) s) d) src dst) \<le> misfit p q t src dst"
proof -
  let ?u = "centred src" and ?v = "centred dst"
  let ?a = "sum_list (map2 dot2 ?u ?v)" and ?b = "sum_list (map2 cross2 ?u ?v)" and ?D = "spread src"
  let ?E = "sum_list (map (\<lambda>d. dot2 d d) ?v)"
  let ?m = "fit_similarity dst src"
  have D: "0 < ?D" using sp spread_nonneg [of src] by simp
  have lenc: "length ?u = length ?v" using len by (simp add: centred_def)
  have mom: "misfit p q c ?u ?v = (p\<^sup>2 + q\<^sup>2) * ?D - 2 * p * ?a - 2 * q * ?b + ?E + of_nat (length ?u) * dot2 c c" for p q c
    using misfit_moments [OF lenc, of p q c] by (simp add: centred_sums spread_def)
  have co: "sm_cos ?m = ?a / ?D" "sm_sin ?m = ?b / ?D" using fit_coefficients(1,2) [of dst src] sp by simp_all
  have sq: "(p\<^sup>2 + q\<^sup>2) * ?D - 2 * p * ?a - 2 * q * ?b =
      ?D * ((p - ?a / ?D)\<^sup>2 + (q - ?b / ?D)\<^sup>2) - (?a\<^sup>2 + ?b\<^sup>2) / ?D" for p q
    using D by (simp add: power2_eq_square field_simps)
  have "misfit (?a / ?D) (?b / ?D) (0, 0) ?u ?v \<le> misfit p q c ?u ?v" for c
    unfolding mom sq using D by (simp add: dot2_def)
  then show ?thesis
    unfolding place_misfit [OF len] co misfit_centred [OF len, of p q t] .
qed

lemma source_of_place:
  assumes "sm_scale m \<noteq> 0" and "(sm_scale m)\<^sup>2 = (sm_cos m)\<^sup>2 + (sm_sin m)\<^sup>2"
  shows "source_point m (place m s) = s"
proof -
  let ?k = "(sm_cos m)\<^sup>2 + (sm_sin m)\<^sup>2"
  define x where "x = fst s - fst (sm_src m)"
  define y where "y = snd s - snd (sm_src m)"
  have k: "?k \<noteq> 0" using assms by (metis power_not_zero)
  have "sm_cos m * (sm_cos m * x - sm_sin m * y) + sm_sin m * (sm_sin m * x + sm_cos m * y) = ?k * x"
    "- sm_sin m * (sm_cos m * x - sm_sin m * y) + sm_cos m * (sm_sin m * x + sm_cos m * y) = ?k * y"
    by (simp_all add: power2_eq_square algebra_simps)
  then show ?thesis
    using k unfolding source_point_def place_def turn_def assms(2) Let_def
    by (simp add: x_def [symmetric] y_def [symmetric]) (simp add: x_def y_def)
qed

lemma sum_list_zero_iff:
  "(\<And>x. x \<in> set xs \<Longrightarrow> 0 \<le> f x) \<Longrightarrow> sum_list (map f xs) = (0 :: real) \<longleftrightarrow> (\<forall>x \<in> set xs. f x = 0)"
  by (induction xs) (auto simp: add_nonneg_eq_0_iff sum_list_nonneg_zero)

lemma scale_spread:
  assumes "sm_scale (fit_similarity dst src) \<noteq> 0"
  shows "spread src \<noteq> 0"
proof
  assume "spread src = 0"
  then have "\<forall>p \<in> set (centred src). dot2 p p = 0"
    by (subst (asm) spread_def, subst (asm) sum_list_zero_iff) (simp_all add: dot2_def)
  then have z: "p = (0, 0)" if "p \<in> set (centred src)" for p
    using that by (cases p) (auto simp: dot2_def sum_squares_eq_zero_iff)
  have zero: "sum_list (map2 f (centred src) vs) = 0" if "\<And>v. f (0, 0) v = 0" for f :: "point \<Rightarrow> point \<Rightarrow> real" and vs
  proof -
    have "map2 f (centred src) vs = map (\<lambda>_. 0) (zip (centred src) vs)"
      by (rule map_cong [OF refl]) (auto dest!: set_zip_leftD z simp: that)
    then have "sum_list (map2 f (centred src) vs) = sum_list (map (\<lambda>_. 0) (zip (centred src) vs))" by (rule arg_cong)
    then show ?thesis by (simp only: sum_list_0)
  qed
  have "sum_list (map2 dot2 (centred src) (centred dst)) = 0" "sum_list (map2 cross2 (centred src) (centred dst)) = 0"
    by (rule zero; simp add: dot2_def cross2_def)+
  then show False using assms by (simp add: fit_similarity_def Let_def)
qed

lemma grid_map_nth: "y < rows \<Longrightarrow> x < cols \<Longrightarrow> grid_map rows cols f ! y ! x = f (int y) (int x)"
  by (simp add: grid_map_def)

lemma grid_map_size: "img_h (grid_map rows cols f) = int rows" "0 < rows \<Longrightarrow> img_w (grid_map rows cols f) = int cols"
  by (auto simp: grid_map_def img_h_def img_w_def split: list.splits)

text \<open>
  C29. The alignment of a face: of all scalings, rotations and shifts, the one the crop is made
  with puts the landmarks nearest to the template (in the sum of the squared distances); and the
  crop is read back exactly through it, so at the place a landmark is put to, the crop shows the
  landmark's own position.
\<close>

theorem alignment_exact:
  assumes "align_crop im src = Inr out" and "length src = length arcface_ref"
  shows "(let m = fit_similarity arcface_ref src in
    sum_list (map2 (\<lambda>s d. dist2 (place m s) d) src arcface_ref) \<le> misfit p q t src arcface_ref \<and>
    source_point m (place m s) = s \<and>
    (y < 112 \<longrightarrow> x < 112 \<longrightarrow> out ! y ! x = bilinear im (source_point m (of_nat x, of_nat y))))"
proof -
  let ?m = "fit_similarity arcface_ref src"
  have sc: "sm_scale ?m \<noteq> 0" and out: "out = grid_map 112 112 (\<lambda>y x. bilinear im (source_point ?m (of_int x, of_int y)))"
    using assms(1) by (auto simp: align_crop_def Let_def split: if_splits)
  show ?thesis
    unfolding Let_def
    using fit_least [OF assms(2) scale_spread [OF sc]] source_of_place [OF sc fit_coefficients(3)]
    by (simp add: out grid_map_nth)
qed

text \<open>Witness: a face twice as far away from the camera as the template, upright.\<close>

definition halved :: "point list" where
  "halved = map (\<lambda>p. (fst p / 2, snd p / 2)) arcface_ref"

definition dark :: image where "dark = [[[0, 0, 0]]]"

lemma halved_scale: "sm_scale (fit_similarity arcface_ref halved) \<noteq> 0"
proof -
  have "sm_cos (fit_similarity arcface_ref halved) \<noteq> 0"
    unfolding fit_coefficients(1) spread_def
    by (simp add: halved_def arcface_ref_def centred_def mean_point_def dot2_def)
  then show ?thesis
    using fit_coefficients(3) [of arcface_ref halved] by (auto simp: sum_power2_eq_zero_iff)
qed

theorem alignment_exact_witness:
  "let m = fit_similarity arcface_ref halved in
     sum_list (map2 (\<lambda>s d. dist2 (place m s) d) halved arcface_ref) = 0 \<and> source_point m (place m (1, 2)) = (1, 2)"
proof -
  have a: "align_crop dark halved = Inr (grid_map 112 112 (\<lambda>y x. bilinear dark (source_point (fit_similarity arcface_ref halved) (of_int x, of_int y))))"
    by (simp add: align_crop_def Let_def halved_scale)
  have l: "length halved = length arcface_ref" by (simp add: halved_def)
  have z: "misfit 2 0 (0, 0) halved arcface_ref = 0"
    by (simp add: misfit_def halved_def arcface_ref_def turn_def dist2_def)
  have nn: "0 \<le> sum_list (map2 (\<lambda>s d. dist2 (place m s) d) src dst)" for m src dst
    by (rule sum_list_nonneg_zero) (auto simp: dist2_def)
  show ?thesis
    using alignment_exact [OF a l, of 2 0 "(0, 0)" "(1, 2)" 0 0] z nn [of "fit_similarity arcface_ref halved" halved arcface_ref]
    by (simp add: Let_def)
qed

section \<open>What the embedding network sees\<close>

lemma image_okD:
  assumes "image_ok im"
  shows "r \<in> set im \<Longrightarrow> int (length r) = img_w im" "r \<in> set im \<Longrightarrow> p \<in> set r \<Longrightarrow> length p = 3"
    "r \<in> set im \<Longrightarrow> p \<in> set r \<Longrightarrow> v \<in> set p \<Longrightarrow> 0 \<le> v \<and> v \<le> 255"
  using assms by (auto simp: image_ok_def list_all_iff)

lemma px_in:
  assumes "image_ok im" and "0 \<le> y" "y < img_h im" "0 \<le> x" "x < img_w im"
  shows "length (px im y x) = 3" "v \<in> set (px im y x) \<Longrightarrow> 0 \<le> v \<and> v \<le> 255"
proof -
  have r: "im ! nat y \<in> set im" using assms by (simp add: img_h_def)
  then have p: "px im y x \<in> set (im ! nat y)"
    using image_okD(1) [OF assms(1) r] assms by (simp add: px_def)
  show "length (px im y x) = 3" "v \<in> set (px im y x) \<Longrightarrow> 0 \<le> v \<and> v \<le> 255"
    using image_okD(2,3) [OF assms(1) r p] by simp_all
qed

lemma grid_map_ok:
  assumes ok: "\<And>y x. 0 \<le> y \<Longrightarrow> y < int rows \<Longrightarrow> 0 \<le> x \<Longrightarrow> x < int cols \<Longrightarrow> length (f y x) = 3 \<and> (\<forall>v \<in> set (f y x). 0 \<le> v \<and> v \<le> 255)"
    and pos: "0 < rows" "0 < cols"
  shows "image_ok (grid_map rows cols f)"
proof -
  have "length (f (int y) (int x)) = 3 \<and> (\<forall>v \<in> set (f (int y) (int x)). 0 \<le> v \<and> v \<le> 255)" if "y < rows" "x < cols" for y x
    using ok [of "int y" "int x"] that by simp
  then show ?thesis
    using pos by (simp add: image_ok_def grid_map_size) (simp add: grid_map_def list_all_iff)
qed

lemma blend_bounds:
  fixes u v :: real
  assumes "0 \<le> u" "u \<le> 255" "0 \<le> v" "v \<le> 255" "0 \<le> f" "f \<le> 1"
  shows "0 \<le> u * (1 - f) + v * f \<and> u * (1 - f) + v * f \<le> 255"
proof -
  have "u * (1 - f) \<le> 255 * (1 - f)" "v * f \<le> 255 * f" using mult_right_mono [of u 255 "1 - f"] mult_right_mono [of v 255 f] assms by linarith+
  moreover have "0 \<le> u * (1 - f)" "0 \<le> v * f" using assms by simp_all
  moreover have "255 * (1 - f) + 255 * f = 255" by simp
  ultimately show ?thesis by linarith
qed

lemma bilinear_ok:
  assumes "image_ok im"
  shows "length (bilinear im p) = 3 \<and> (\<forall>v \<in> set (bilinear im p). 0 \<le> v \<and> v \<le> 255)"
proof -
  define x0 where "x0 = clip_int 0 (img_w im - 2) \<lfloor>fst p\<rfloor>"
  define y0 where "y0 = clip_int 0 (img_h im - 2) \<lfloor>snd p\<rfloor>"
  define fx where "fx = fst p - of_int \<lfloor>fst p\<rfloor>"
  define fy where "fy = snd p - of_int \<lfloor>snd p\<rfloor>"
  have f: "0 \<le> fx" "fx \<le> 1" "0 \<le> fy" "fy \<le> 1" by (simp_all add: fx_def fy_def) linarith+
  have c: "0 \<le> px im y x ! c \<and> px im y x ! c \<le> 255"
    if "0 \<le> y" "y < img_h im" "0 \<le> x" "x < img_w im" "c < 3" for y x c
    using px_in [OF assms that(1-4)] that(5) nth_mem [of c "px im y x"] by simp
  show ?thesis
  proof (cases "0 \<le> \<lfloor>fst p\<rfloor> \<and> \<lfloor>fst p\<rfloor> < img_w im - 1 \<and> 0 \<le> \<lfloor>snd p\<rfloor> \<and> \<lfloor>snd p\<rfloor> < img_h im - 1")
    case True
    then have i: "0 \<le> x0" "x0 + 1 < img_w im" "0 \<le> y0" "y0 + 1 < img_h im"
      by (simp_all add: x0_def y0_def clip_int_def)
    have e: "bilinear im p = map (\<lambda>c. (px im y0 x0 ! c * (1 - fx) + px im y0 (x0 + 1) ! c * fx) * (1 - fy)
                     + (px im (y0 + 1) x0 ! c * (1 - fx) + px im (y0 + 1) (x0 + 1) ! c * fx) * fy) [0, 1, 2]"
      using True unfolding bilinear_def Let_def x0_def y0_def fx_def fy_def by (simp only: if_True simp_thms)
    have "0 \<le> (px im y0 x0 ! c * (1 - fx) + px im y0 (x0 + 1) ! c * fx) * (1 - fy)
                     + (px im (y0 + 1) x0 ! c * (1 - fx) + px im (y0 + 1) (x0 + 1) ! c * fx) * fy \<and>
          (px im y0 x0 ! c * (1 - fx) + px im y0 (x0 + 1) ! c * fx) * (1 - fy)
                     + (px im (y0 + 1) x0 ! c * (1 - fx) + px im (y0 + 1) (x0 + 1) ! c * fx) * fy \<le> 255" if "c < 3" for c
    proof -
      have "0 \<le> px im y0 x0 ! c * (1 - fx) + px im y0 (x0 + 1) ! c * fx \<and> px im y0 x0 ! c * (1 - fx) + px im y0 (x0 + 1) ! c * fx \<le> 255"
        "0 \<le> px im (y0 + 1) x0 ! c * (1 - fx) + px im (y0 + 1) (x0 + 1) ! c * fx \<and> px im (y0 + 1) x0 ! c * (1 - fx) + px im (y0 + 1) (x0 + 1) ! c * fx \<le> 255"
        using i f that c [of y0 x0 c] c [of y0 "x0 + 1" c] c [of "y0 + 1" x0 c] c [of "y0 + 1" "x0 + 1" c]
        by (intro blend_bounds; simp)+
      then show ?thesis using f by (intro blend_bounds) simp_all
    qed
    then show ?thesis unfolding e by simp
  next
    case False
    then have "bilinear im p = [0, 0, 0]" unfolding bilinear_def Let_def by (simp only: if_False)
    then show ?thesis by simp
  qed
qed

lemma image_ok_rows:
  "image_ok im \<longleftrightarrow> im \<noteq> [] \<and> hd im \<noteq> [] \<and>
     (\<forall>r \<in> set im. length r = length (hd im) \<and> (\<forall>p \<in> set r. length p = 3 \<and> (\<forall>v \<in> set p. 0 \<le> v \<and> v \<le> 255)))"
  by (cases im) (auto simp: image_ok_def img_h_def img_w_def list_all_iff)

lemma sub_image_ok:
  assumes "image_ok im" and sub: "set rows \<subseteq> set im"
    and cut: "\<And>r. r \<in> set rows \<Longrightarrow> set (g r) \<subseteq> set r" "\<And>r r'. length r = length r' \<Longrightarrow> length (g r) = length (g r')"
    and ne: "map g rows \<noteq> []" "hd (map g rows) \<noteq> []"
  shows "image_ok (map g rows)"
proof -
  have h: "hd rows \<in> set im" "rows \<noteq> []" using sub ne by (cases rows; auto)+
  have len: "length (g r) = length (g (hd rows))" if "r \<in> set rows" for r
  proof (rule cut(2))
    have "length r = length (hd im)" "length (hd rows) = length (hd im)"
      using assms(1) that h(1) sub unfolding image_ok_rows by blast+
    then show "length r = length (hd rows)" by simp
  qed
  have px3: "length p = 3 \<and> (\<forall>v \<in> set p. 0 \<le> v \<and> v \<le> 255)" if "r \<in> set rows" "p \<in> set (g r)" for r p
    using that sub cut(1) assms(1) unfolding image_ok_rows by blast
  have "length q = length (g (hd rows)) \<and> (\<forall>p \<in> set q. length p = 3 \<and> (\<forall>v \<in> set p. 0 \<le> v \<and> v \<le> 255))"
    if q: "q \<in> set (map g rows)" for q
  proof -
    obtain r where "r \<in> set rows" "q = g r" using q by auto
    then show ?thesis using len px3 by blast
  qed
  then show ?thesis
    using ne unfolding image_ok_rows hd_map [OF h(2)] by blast
qed

lemma slice_set: "set (slice a b xs) \<subseteq> set xs"
  unfolding slice_def by (meson set_drop_subset set_take_subset subset_trans)

lemma crop_or_corner_ok:
  assumes "image_ok im" and "0 < k"
  shows "image_ok (crop_or_corner k im x0 y0 x1 y1)"
proof -
  have ne: "im \<noteq> []" "hd im \<noteq> []" using assms by (simp_all add: image_ok_rows)
  have fall: "image_ok (map (take k) (take k im))"
  proof (rule sub_image_ok [OF assms(1) set_take_subset set_take_subset])
    show "length (take k r) = length (take k r')" if "length r = length r'" for r r' :: "pixel list"
      using that by simp
    show "map (take k) (take k im) \<noteq> []" using ne assms(2) by simp
    show "hd (map (take k) (take k im)) \<noteq> []" using ne assms(2) by (cases im; cases k) simp_all
  qed
  have crop: "image_ok (map (slice c d) (slice a b im))"
    if "\<not> (map (slice c d) (slice a b im) = [] \<or> hd (map (slice c d) (slice a b im)) = [])" for a b c d
  proof (rule sub_image_ok [OF assms(1) slice_set slice_set])
    show "length (slice c d r) = length (slice c d r')" if "length r = length r'" for r r' :: "pixel list"
      using that by (simp add: slice_def)
    show "map (slice c d) (slice a b im) \<noteq> []" "hd (map (slice c d) (slice a b im)) \<noteq> []"
      using that by blast+
  qed
  show ?thesis
    using fall crop by (simp add: crop_or_corner_def Let_def del: map_is_Nil_conv)
qed

lemma margin_crop_ok: "image_ok im \<Longrightarrow> image_ok (margin_crop im face)"
  by (cases face) (simp add: margin_crop_def Let_def crop_or_corner_ok)

lemma scaled_index: "0 \<le> i \<Longrightarrow> i < 112 \<Longrightarrow> 0 < n \<Longrightarrow> 0 \<le> i * n div 112 \<and> i * n div 112 < (n :: int)"
proof -
  assume a: "0 \<le> i" "i < 112" "0 < n"
  have small: "m < 112 * n \<Longrightarrow> m div 112 < n" for m :: int by presburger
  have "i * n < 112 * n" using a by simp
  then have "i * n div 112 < n" by (rule small)
  then show ?thesis using a by (simp add: pos_imp_zdiv_nonneg_iff)
qed

lemma resize112_ok:
  assumes "image_ok crop"
  shows "image_ok (resize112 crop)"
proof -
  have pos: "0 < img_h crop" "0 < img_w crop" using assms by (simp_all add: image_ok_def)
  show ?thesis
    unfolding resize112_def
  proof (rule grid_map_ok)
    fix y x :: int
    assume "0 \<le> y" "y < int 112" "0 \<le> x" "x < int 112"
    then have i: "0 \<le> y * img_h crop div 112 \<and> y * img_h crop div 112 < img_h crop"
      "0 \<le> x * img_w crop div 112 \<and> x * img_w crop div 112 < img_w crop"
      using pos by (intro scaled_index; simp)+
    show "length (px crop (y * img_h crop div 112) (x * img_w crop div 112)) = 3 \<and>
        (\<forall>v \<in> set (px crop (y * img_h crop div 112) (x * img_w crop div 112)). 0 \<le> v \<and> v \<le> 255)"
      using i px_in [OF assms] by blast
  qed simp_all
qed

lemma face_patch_ok:
  assumes "image_ok im" and "face_patch im face kps = Inr patch"
  shows "image_ok patch \<and> img_h patch = 112 \<and> img_w patch = 112"
proof -
  have g: "image_ok (grid_map 112 112 (\<lambda>y x. bilinear im (p y x)))" for p
    using bilinear_ok [OF assms(1)] by (intro grid_map_ok) simp_all
  show ?thesis
  proof (cases kps)
    case None
    then show ?thesis
      using assms(2) resize112_ok [OF margin_crop_ok [OF assms(1), of face]]
      by (auto simp: face_patch_def resize112_def grid_map_size)
  next
    case (Some ks)
    then show ?thesis
      using assms(2) g by (auto simp: face_patch_def align_crop_def Let_def grid_map_size split: if_splits)
  qed
qed

definition blob_ok :: "nat \<Rightarrow> real list list list \<Rightarrow> bool" where
  \<comment> \<open>three square planes of values between -1 and 1\<close>
  "blob_ok n b \<longleftrightarrow> length b = 3 \<and>
     list_all (\<lambda>plane. length plane = n \<and> list_all (\<lambda>row. length row = n \<and> list_all (\<lambda>v. - 1 \<le> v \<and> v \<le> 1) row) plane) b"

lemma blob_of_ok:
  assumes "image_ok im" and "img_h im = int n" and "img_w im = int n"
  shows "blob_ok n (blob_of im)"
proof -
  have v: "- 1 \<le> (p ! c - 1275/10) / (1275/10) \<and> (p ! c - 1275/10) / (1275/10) \<le> 1"
    if p: "r \<in> set im" "p \<in> set r" and c: "c < 3" for r p c
  proof -
    have "p ! c \<in> set p" using image_okD(2) [OF assms(1) p] c by simp
    then have "0 \<le> p ! c \<and> p ! c \<le> 255" by (rule image_okD(3) [OF assms(1) p])
    then show ?thesis by simp
  qed
  have "length r = n" if "r \<in> set im" for r using image_okD(1) [OF assms(1) that] assms(3) by simp
  then show ?thesis
    using v assms(2) by (simp add: blob_ok_def blob_of_def list_all_iff img_h_def)
qed

lemma normalize_vec_unit: "dot (normalize_vec v) (normalize_vec v) = 1 \<or> list_all (\<lambda>x. x = 0) (normalize_vec v)"
proof (cases "dot v v = 0")
  case True
  have "list_all (\<lambda>x. x = 0) v" if "dot v v = 0" for v :: "real list"
  proof -
    have "list_all (\<lambda>x. x = 0) v \<and> 0 \<le> dot v v \<or> 0 < dot v v" for v :: "real list"
    proof (induction v)
      case (Cons a v)
      have "dot (a # v) (a # v) = a * a + dot v v" by (simp add: dot_def)
      moreover have "0 < a * a \<or> a = 0" by (cases "a = 0") (auto simp: zero_less_mult_iff)
      ultimately show ?case using Cons.IH by (auto intro: add_pos_nonneg)
    qed simp
    then show ?thesis using that by (metis less_irrefl)
  qed
  with True have "list_all (\<lambda>x. x = 0) v" by blast
  then show ?thesis by (auto simp: normalize_vec_def Let_def list_all_iff)
qed (simp add: normalize_unit)

text \<open>
  C23. The embedding of a face: the network sees three planes of 112 by 112 values between -1
  and 1, and what comes out is a vector of length one (or the zero vector). A picture that is
  uploaded is embedded by the face its own detection finds, with that face's landmarks, or by its
  middle when no face is found; then the remembered landmarks are forgotten. A box that is given
  counts only while no landmarks are remembered: the landmarks decide, whichever face they
  belong to.
\<close>

theorem embedding_exact:
  assumes "image_ok im" and "arcface_embed net conf embed_net im face_bbox kps = Inr (v, kps')"
  shows "\<exists>face patch. face_patch im face kps' = Inr patch \<and> v = normalize_vec (embed_net (blob_of patch)) \<and>
    blob_ok 112 (blob_of patch) \<and> (dot v v = 1 \<or> list_all (\<lambda>x. x = 0) v) \<and>
    (case face_bbox of Some b \<Rightarrow> face = b \<and> kps' = kps
     | None \<Rightarrow> (case scrfd_detect net conf im None kps of Inl err \<Rightarrow> False
         | Inr (None, _) \<Rightarrow> face = centered_crop \<and> kps' = None
         | Inr (Some b, best) \<Rightarrow> face = b \<and> kps' = best)) \<and>
    (kps' = None \<or> face_patch im other kps' = Inr patch)"
proof -
  obtain face patch where p: "face_patch im face kps' = Inr patch" "v = normalize_vec (embed_net (blob_of patch))"
    and pick: "(case face_bbox of Some b \<Rightarrow> Inr (b, kps)
        | None \<Rightarrow> bind_ok (scrfd_detect net conf im None kps) (\<lambda>(found, kps1).
            (case found of Some b \<Rightarrow> Inr (b, kps1) | None \<Rightarrow> Inr (centered_crop, None)))) = Inr (face, kps')"
    using assms(2) unfolding arcface_embed_def bind_ok_Inr by (auto simp: bind_ok_Inr)
  have "blob_ok 112 (blob_of patch)"
    using face_patch_ok [OF assms(1) p(1)] by (intro blob_of_ok) simp_all
  moreover have "dot v v = 1 \<or> list_all (\<lambda>x. x = 0) v" unfolding p(2) by (rule normalize_vec_unit)
  moreover have "case face_bbox of Some b \<Rightarrow> face = b \<and> kps' = kps
     | None \<Rightarrow> (case scrfd_detect net conf im None kps of Inl err \<Rightarrow> False
         | Inr (None, _) \<Rightarrow> face = centered_crop \<and> kps' = None
         | Inr (Some b, best) \<Rightarrow> face = b \<and> kps' = best)"
    using pick by (cases face_bbox; cases "scrfd_detect net conf im None kps") (auto split: option.splits)
  moreover have "kps' = None \<or> face_patch im other kps' = Inr patch"
    using p(1) by (cases kps') (simp_all add: face_patch_def)
  ultimately show ?thesis using p by blast
qed

theorem embedding_exact_witness:
  "\<exists>v. arcface_embed (\<lambda>_. []) (1/2) (\<lambda>_. [3, 4]) dark None None = Inr (v, None) \<and> dot v v = 1"
proof -
  have ok: "image_ok dark" by (simp add: image_ok_def dark_def img_h_def img_w_def)
  have n: "normalize_vec [3, 4] = [3/5, 4/5]"
    by (simp add: normalize_vec_def dot_def real_sqrt_unique)
  have e: "arcface_embed (\<lambda>_. []) (1/2) (\<lambda>_. [3, 4]) dark None None = Inr (normalize_vec [3, 4], None)"
    by (simp add: arcface_embed_def scrfd_detect_def scrfd_decode_def face_nms_def sorted_desc_def detect_face_def
        face_patch_def Let_def)
  have "\<not> list_all (\<lambda>x. x = 0) (normalize_vec [3, 4])" unfolding n by simp
  with embedding_exact [OF ok e] e show ?thesis by blast
qed

end
