(* ===== verification/Face_Reference.thy ===== *)
theory Face_Reference
  imports Face_Align
begin

text \<open>
  The pixels behind the reference embedder (\<open>packages/ai/face.py\<close>): decoding of an uploaded picture,
  the crop of the face and its brightness, and the embedding of every kind of frame. The decoder
  process is a parameter, from the picture's bytes to what running it raises or its return code and
  output.
\<close>

section \<open>Decoding\<close>

type_synonym decoder = "int list \<Rightarrow> py_error + int \<times> int list"

definition reshape_rgb :: "nat \<Rightarrow> int list \<Rightarrow> image" where
  \<comment> \<open>\<open>reshape(n, n, 3)\<close>\<close>
  "reshape_rgb n raw = grid_map n n (\<lambda>y x. map (\<lambda>c. of_int (raw ! (nat (y * int n + x) * 3 + c))) [0, 1, 2])"

definition decode_image :: "nat \<Rightarrow> decoder \<Rightarrow> int list \<Rightarrow> py_error + image" where
  \<comment> \<open>scaled to \<open>n\<close> by \<open>n\<close>; a longer output cannot be reshaped\<close>
  "decode_image n ffmpeg data =
     bind_ok (ffmpeg data) (\<lambda>(rc, out).
       if rc \<noteq> 0 \<or> length out < n * n * 3 then Inl ValueError
       else if length out \<noteq> n * n * 3 then Inl ValueError
       else Inr (reshape_rgb n out))"

definition decode_headshot :: "decoder \<Rightarrow> int list \<Rightarrow> py_error + image" where
  "decode_headshot = decode_image 192"

section \<open>The crop of a face\<close>

definition gray :: "pixel \<Rightarrow> int" where
  "gray p = \<lfloor>(299/1000) * p ! 0 + (587/1000) * p ! 1 + (114/1000) * p ! 2\<rfloor>"

definition face_crop :: "image \<Rightarrow> bbox \<Rightarrow> image" where
  "face_crop im face = (case face of (x, y, w, h) \<Rightarrow>
     (let fh = of_int (img_h im); fw = of_int (img_w im);
          x0 = py_trunc (max 0 (min (999/1000) x) * fw); y0 = py_trunc (max 0 (min (999/1000) y) * fh);
          x1 = py_trunc (min 1 (x + max 0 w) * fw); y1 = py_trunc (min 1 (y + max 0 h) * fh)
      in crop_or_corner 1 im x0 y0 x1 y1))"

definition centered_person :: bbox where "centered_person = (3/10, 1/10, 4/10, 6/10)"

datatype media = Pixels image | Upload "int list" | No_pixels

definition crop_bytes :: "image \<Rightarrow> bbox \<Rightarrow> int list \<times> int \<times> int" where
  "crop_bytes im face = (let crop = face_crop im face in (map gray (concat crop), img_w crop, img_h crop))"

definition frame_to_pixels :: "decoder \<Rightarrow> media \<Rightarrow> bbox option \<Rightarrow> py_error + int list \<times> int \<times> int" where
  "frame_to_pixels ffmpeg frame face =
     (case frame of
        Pixels im \<Rightarrow> Inr (crop_bytes im (case face of Some b \<Rightarrow> b | None \<Rightarrow> reference_face centered_person))
      | Upload (b # bs) \<Rightarrow> bind_ok (decode_headshot ffmpeg (b # bs)) (\<lambda>im. Inr (crop_bytes im (reference_face centered_person)))
      | _ \<Rightarrow> (let side = (\<lambda>v. py_trunc (max 1 (v * 128)))
              in Inr (if frame = No_pixels then [0] else [],
                      side (case face of Some (_, _, w, _) \<Rightarrow> w | None \<Rightarrow> 1),
                      side (case face of Some (_, _, _, h) \<Rightarrow> h | None \<Rightarrow> 1))))"

definition embed_frame :: "(int list \<Rightarrow> int list) \<Rightarrow> decoder \<Rightarrow> media \<Rightarrow> bbox option \<Rightarrow> py_error + real list" where
  "embed_frame hash_bytes ffmpeg frame face =
     bind_ok (frame_to_pixels ffmpeg frame face) (\<lambda>(raw, w, h). Inr (reference_embed hash_bytes raw w h))"

section \<open>The pixels are the crop\<close>

lemma reshape_ok:
  assumes "set raw \<subseteq> {0..255}" and "length raw = n * n * 3" and "0 < n"
  shows "image_ok (reshape_rgb n raw)"
  unfolding reshape_rgb_def
proof (rule grid_map_ok [OF _ assms(3) assms(3)])
  fix y x :: int
  assume b: "0 \<le> y" "y < int n" "0 \<le> x" "x < int n"
  have "y * int n + x < (y + 1) * int n" using b by (simp add: algebra_simps)
  also have "\<dots> \<le> int n * int n" using b by (intro mult_right_mono) simp_all
  finally have i: "nat (y * int n + x) < n * n" using b by (simp add: nat_less_iff)
  have byte: "0 \<le> raw ! (nat (y * int n + x) * 3 + c) \<and> raw ! (nat (y * int n + x) * 3 + c) \<le> 255" if "c < 3" for c
  proof -
    have "nat (y * int n + x) * 3 + c < length raw" using i that assms(2) by linarith
    then have "raw ! (nat (y * int n + x) * 3 + c) \<in> set raw" by (rule nth_mem)
    then show ?thesis using assms(1) by auto
  qed
  then show "length (map (\<lambda>c. of_int (raw ! (nat (y * int n + x) * 3 + c)) :: real) [0, 1, 2]) = 3 \<and>
      (\<forall>v \<in> set (map (\<lambda>c. of_int (raw ! (nat (y * int n + x) * 3 + c))) [0, 1, 2]). 0 \<le> v \<and> v \<le> (255 :: real))"
    using byte [of 0] byte [of 1] byte [of 2] by simp
qed

lemma gray_byte:
  assumes "length p = 3" and "\<forall>v \<in> set p. 0 \<le> v \<and> v \<le> (255 :: real)"
  shows "0 \<le> gray p \<and> gray p \<le> 255"
proof -
  have v: "0 \<le> p ! c \<and> p ! c \<le> 255" if "c < 3" for c using assms nth_mem [of c p] that by simp
  from v [of 0] v [of 1] v [of 2] show ?thesis
    by (simp add: gray_def le_floor_iff floor_le_iff)
qed

lemma concat_length: "list_all (\<lambda>r. length r = n) rs \<Longrightarrow> length (concat rs) = n * length rs"
  by (induction rs) simp_all

lemma crop_bytes_ok:
  assumes "image_ok im" and "crop_bytes im face = (raw, w, h)"
  shows "0 < w \<and> 0 < h \<and> int (length raw) = w * h \<and> set raw \<subseteq> {0..255}"
proof -
  define c where "c = face_crop im face"
  have ok: "image_ok c"
    unfolding c_def by (cases face) (simp add: face_crop_def Let_def crop_or_corner_ok assms(1))
  have r: "raw = map gray (concat c)" "w = img_w c" "h = img_h c"
    using assms(2) by (simp_all add: crop_bytes_def c_def Let_def)
  have "list_all (\<lambda>r. length r = nat (img_w c)) c" using ok by (auto simp: image_ok_def list_all_iff)
  then have "length (concat c) = nat (img_w c) * length c" by (rule concat_length)
  moreover have "0 < img_w c" "0 < img_h c" using ok by (simp_all add: image_ok_def)
  moreover have "0 \<le> gray p \<and> gray p \<le> 255" if "r \<in> set c" "p \<in> set r" for r p
    using image_okD(2,3) [OF ok that] by (intro gray_byte) auto
  ultimately show ?thesis by (auto simp: r img_h_def)
qed

lemma decode_image_ok:
  assumes "decode_image n ffmpeg data = Inr im" and "0 < n"
    and "\<And>rc out. ffmpeg data = Inr (rc, out) \<Longrightarrow> set out \<subseteq> {0..255}"
  shows "image_ok im"
  using assms reshape_ok by (auto simp: decode_image_def bind_ok_Inr split: if_splits)



end
