(* ===== verification/Runtimes.thy ===== *)
theory Runtimes
  imports Face_Reference Registry
begin

text \<open>
  The model-backed detectors of \<open>packages/ai/detectors.py\<close>: their session, the preprocessing of a
  frame, the inference of each backend and the detector \<open>build_detector\<close> hands to a camera. What is
  installed on the host, loading a model and running it are parameters.
\<close>

section \<open>Detectors\<close>

datatype backend = ONNX | TensorRT | OpenVINO | TFLite

definition backend_module :: "backend \<Rightarrow> string" where
  "backend_module b = (case b of ONNX \<Rightarrow> ''onnxruntime'' | TensorRT \<Rightarrow> ''tensorrt''
     | OpenVINO \<Rightarrow> ''openvino'' | TFLite \<Rightarrow> ''tflite_runtime'')"

record host =
  ho_installed :: "string list"
  ho_load :: "backend \<Rightarrow> string \<Rightarrow> py_error option"  \<comment> \<open>what loading the file at a path raises\<close>
  ho_run :: "backend \<Rightarrow> string \<Rightarrow> real list list list \<Rightarrow> py_error + tensor"

record runtime_detector =
  rd_backend :: backend
  rd_path :: string
  rd_labels :: "string list"
  rd_conf :: real
  rd_iou :: real
  rd_frame_hw :: "nat \<times> nat"
  rd_session :: bool

definition coco_labels :: "string list" where
  "coco_labels =
    [''person'', ''bicycle'', ''car'', ''motorcycle'', ''airplane'', ''bus'', ''train'', ''truck'',
     ''boat'', ''traffic light'', ''fire hydrant'', ''stop sign'', ''parking meter'', ''bench'',
     ''bird'', ''cat'', ''dog'', ''horse'', ''sheep'', ''cow'', ''elephant'', ''bear'', ''zebra'',
     ''giraffe'', ''backpack'', ''umbrella'', ''handbag'', ''tie'', ''suitcase'', ''frisbee'',
     ''skis'', ''snowboard'', ''sports ball'', ''kite'', ''baseball bat'', ''baseball glove'',
     ''skateboard'', ''surfboard'', ''tennis racket'', ''bottle'', ''wine glass'', ''cup'',
     ''fork'', ''knife'', ''spoon'', ''bowl'', ''banana'', ''apple'', ''sandwich'', ''orange'',
     ''broccoli'', ''carrot'', ''hot dog'', ''pizza'', ''donut'', ''cake'', ''chair'', ''couch'',
     ''potted plant'', ''bed'', ''dining table'', ''toilet'', ''tv'', ''laptop'', ''mouse'',
     ''remote'', ''keyboard'', ''cell phone'', ''microwave'', ''oven'', ''toaster'', ''sink'',
     ''refrigerator'', ''book'', ''clock'', ''vase'', ''scissors'', ''teddy bear'',
     ''hair drier'', ''toothbrush'']"

definition new_detector :: "backend \<Rightarrow> string \<Rightarrow> real \<Rightarrow> runtime_detector" where
  "new_detector b path conf = \<lparr>rd_backend = b, rd_path = path, rd_labels = coco_labels, rd_conf = conf,
     rd_iou = 45/100, rd_frame_hw = (360, 640), rd_session = False\<rparr>"

definition ensure_session :: "host \<Rightarrow> runtime_detector \<Rightarrow> py_error + runtime_detector" where
  \<comment> \<open>the TensorRT detector only remembers the path\<close>
  "ensure_session ho d =
     (if rd_session d then Inr d
      else if backend_module (rd_backend d) \<notin> set (ho_installed ho) then Inl RuntimeError
      else if rd_backend d = TensorRT then Inr (d\<lparr>rd_session := True\<rparr>)
      else (case ho_load ho (rd_backend d) (rd_path d) of
              Some err \<Rightarrow> Inl err | None \<Rightarrow> Inr (d\<lparr>rd_session := True\<rparr>)))"

definition infer :: "host \<Rightarrow> runtime_detector \<Rightarrow> real list list list \<Rightarrow> py_error + tensor" where
  \<comment> \<open>\<open>NotImplementedError\<close> is a \<open>RuntimeError\<close>\<close>
  "infer ho d blob =
     (if rd_backend d = TensorRT then Inl RuntimeError else ho_run ho (rd_backend d) (rd_path d) blob)"

definition decode_raw :: "nat \<times> nat \<Rightarrow> int list \<Rightarrow> py_error + image" where
  "decode_raw hw raw = (case hw of (h, w) \<Rightarrow>
     if length raw < h * w * 3 then Inl ValueError
     else Inr (grid_map h w (\<lambda>y x. map (\<lambda>c. of_int (raw ! (nat (y * int w + x) * 3 + c))) [0, 1, 2])))"

definition preprocess :: "image \<Rightarrow> real list list list" where
  \<comment> \<open>scaled, channels outermost, padded on the right and below\<close>
  "preprocess im =
     (let h = img_h im; w = img_w im
      in map (\<lambda>c. grid_map (nat (padded_dim h)) (nat (padded_dim w))
           (\<lambda>y x. if y < h \<and> x < w then px im y x ! c / 255 else 0)) [0, 1, 2])"

definition frame_image :: "runtime_detector \<Rightarrow> media \<Rightarrow> py_error + image" where
  \<comment> \<open>an array without three axes cannot be unpacked\<close>
  "frame_image d frame = (case frame of Pixels im \<Rightarrow> Inr im | Upload raw \<Rightarrow> decode_raw (rd_frame_hw d) raw
     | No_pixels \<Rightarrow> Inl ValueError)"

definition detector_frame :: "host \<Rightarrow> runtime_detector \<Rightarrow> media \<Rightarrow> (py_error + detection list) \<times> runtime_detector" where
  \<comment> \<open>\<open>_RuntimeDetector.detect\<close>: the result, and the detector with the session it keeps\<close>
  "detector_frame ho d frame =
     (case ensure_session ho d of
        Inl err \<Rightarrow> (Inl err, d)
      | Inr d1 \<Rightarrow>
          (bind_ok (frame_image d1 frame) (\<lambda>im.
             bind_ok (infer ho d1 (preprocess im)) (\<lambda>out.
               postprocess_yolo out (rd_labels d1) (rd_conf d1) (rd_iou d1)
                 (of_int (padded_dim (img_h im)), of_int (padded_dim (img_w im)))
                 (of_nat (fst (rd_frame_hw d1)), of_nat (snd (rd_frame_hw d1))))), d1))"

definition mapped_frame :: "host \<Rightarrow> runtime_detector \<Rightarrow> media \<Rightarrow> (py_error + detection list) \<times> runtime_detector" where
  \<comment> \<open>the same behind \<open>_LabelMappedDetector\<close>\<close>
  "mapped_frame ho d frame =
     (case detector_frame ho d frame of (r, d1) \<Rightarrow> (bind_ok r (\<lambda>ds. Inr (map_labels ds)), d1))"

definition backend_class :: "string \<Rightarrow> backend option" where
  \<comment> \<open>\<open>_BACKENDS\<close>; the reference detector has no model\<close>
  "backend_class b = map_of [(''onnx'', ONNX), (''tensorrt'', TensorRT), (''openvino'', OpenVINO), (''tflite'', TFLite)] b"

section \<open>What a staged detector does\<close>

definition plane_ok :: "int \<Rightarrow> int \<Rightarrow> real list list \<Rightarrow> bool" where
  "plane_ok h w plane \<longleftrightarrow> int (length plane) = h \<and>
     list_all (\<lambda>row. int (length row) = w \<and> list_all (\<lambda>v. 0 \<le> v \<and> v \<le> 1) row) plane"

lemma grid_plane:
  assumes "0 \<le> h" "0 \<le> w" and "\<And>y x. 0 \<le> y \<Longrightarrow> 0 \<le> x \<Longrightarrow> 0 \<le> f y x \<and> f y x \<le> 1"
  shows "plane_ok h w (grid_map (nat h) (nat w) f)"
  using assms by (simp add: plane_ok_def grid_map_def list_all_iff)

lemma preprocess_shape:
  assumes "image_ok im"
  shows "length (preprocess im) = 3 \<and> list_all (plane_ok (padded_dim (img_h im)) (padded_dim (img_w im))) (preprocess im)"
proof -
  have pos: "0 < img_h im" "0 < img_w im" using assms by (simp_all add: image_ok_def)
  then have dims: "0 \<le> padded_dim (img_h im)" "0 \<le> padded_dim (img_w im)"
    using padded_dim_bounds [of "img_h im"] padded_dim_bounds [of "img_w im"] by linarith+
  have v: "0 \<le> px im y x ! c / 255 \<and> px im y x ! c / 255 \<le> 1"
    if "0 \<le> y" "y < img_h im" "0 \<le> x" "x < img_w im" "c < 3" for y x c
    using px_in [OF assms that(1-4)] that(5) nth_mem [of c "px im y x"] by fastforce
  have "plane_ok (padded_dim (img_h im)) (padded_dim (img_w im))
      (grid_map (nat (padded_dim (img_h im))) (nat (padded_dim (img_w im)))
        (\<lambda>y x. if y < img_h im \<and> x < img_w im then px im y x ! c / 255 else 0))" if "c < 3" for c
    using v that by (intro grid_plane dims) (auto split: if_splits)
  from this [of 0] this [of 1] this [of 2] show ?thesis by (simp add: preprocess_def Let_def del: One_nat_def)
qed


definition small_host :: host where
  "small_host = \<lparr>ho_installed = [''onnxruntime''], ho_load = \<lambda>b p. None,
     ho_run = \<lambda>b p blob. Inr (Tensor2 (replicate 6 [16, 16, 32, 32, 9/10, 1/10]))\<rparr>"


end
