(* ===== verification/Rig.thy ===== *)
theory Rig
  imports People Camera_Examples
begin

text \<open>
  The development rig: the secrets scripts write (\<open>scripts/gen_env.py\<close>, and \<open>scripts/local_cctv_rig.py\<close>
  for its own environment), the processes the rig tracks by pid files, the capture command, and the
  registration of its camera through the handlers of the API. Random keys and what the operating
  system makes of a signal are parameters.
\<close>

section \<open>Secrets in files\<close>

abbreviation newline :: char where "newline \<equiv> CHR 0x0A"

definition env_lines :: "string \<Rightarrow> string list" where
  \<comment> \<open>the lines a file is iterated in, without their ends\<close>
  "env_lines s = (let ls = split_on newline s in if last ls = [] then butlast ls else ls)"

definition gen_env :: "string \<Rightarrow> string \<Rightarrow> string option \<Rightarrow> string option \<Rightarrow> nat \<times> string option" where
  \<comment> \<open>two fresh keys, the example file, the file to write: the exit status and the file afterwards\<close>
  "gen_env jwt mek example out =
     (case example of
        None \<Rightarrow> (1, out)
      | Some text \<Rightarrow>
          (if out \<noteq> None then (1, out)
           else (0, Some (join_with [newline] (map (\<lambda>l.
                  if starts_with l ''JWT_SECRET='' then ''JWT_SECRET='' @ jwt
                  else if starts_with l ''MASTER_ENCRYPTION_KEY='' then ''MASTER_ENCRYPTION_KEY='' @ mek
                  else l) (env_lines text)) @ [newline]))))"

definition read_env :: "string \<Rightarrow> (string, string) dict" where
  "read_env s = fold (\<lambda>l d. let t = strip l in
     if CHR ''='' \<in> set t then dict_set (before CHR ''='' t) (after CHR ''='' t) d else d) (env_lines s) []"

definition show_env :: "(string, string) dict \<Rightarrow> string" where
  "show_env d = concat (map (\<lambda>(k, v). k @ ''='' @ v @ [newline]) d)"

definition setdefault :: "string \<Rightarrow> 'v \<Rightarrow> (string, 'v) dict \<Rightarrow> (string, 'v) dict" where
  "setdefault k v d = (case dict_get d k of None \<Rightarrow> dict_set k v d | Some _ \<Rightarrow> d)"

definition missing_key :: "string \<Rightarrow> (string, string) dict \<Rightarrow> bool" where
  "missing_key k d = (case dict_get d k of None \<Rightarrow> True | Some v \<Rightarrow> v = [])"

definition ensure_secrets ::
  "string \<Rightarrow> string \<Rightarrow> string option \<Rightarrow> (string, string) dict \<Rightarrow> (string, string) dict \<times> string option \<times> (string, string) dict" where
  \<comment> \<open>two fresh keys, the file, the process environment: what is stored, the file and the environment afterwards\<close>
  "ensure_secrets jwt mek file environ =
     (let stored = (case file of None \<Rightarrow> [] | Some s \<Rightarrow> read_env s);
          s1 = (if missing_key ''_RIG_JWT'' stored then dict_set ''_RIG_JWT'' jwt stored else stored);
          s2 = (if missing_key ''_RIG_MEK'' s1 then dict_set ''_RIG_MEK'' mek s1 else s1);
          changed = (missing_key ''_RIG_JWT'' stored \<or> missing_key ''_RIG_MEK'' s1)
      in (s2, if changed then Some (show_env s2) else file,
          setdefault ''_RIG_MEK'' (the (dict_get s2 ''_RIG_MEK'')) (setdefault ''_RIG_JWT'' (the (dict_get s2 ''_RIG_JWT'')) environ)))"

definition rig_env :: "int \<Rightarrow> string \<Rightarrow> string \<Rightarrow> string \<Rightarrow> (string, string) dict \<Rightarrow> (string, string option) dict" where
  \<comment> \<open>the API's port, the two directories and the password; a secret that is not there is \<open>None\<close>\<close>
  "rig_env port storage_root live_dir admin_pass environ =
     fold (\<lambda>(k, v). dict_set k v)
       [(''APP_ENV'', Some ''development''), (''DATABASE_URL'', Some ''sqlite:///./localsight.db''),
        (''JWT_SECRET'', dict_get environ ''_RIG_JWT''), (''MASTER_ENCRYPTION_KEY'', dict_get environ ''_RIG_MEK''),
        (''CORS_ALLOW_ORIGINS'', Some (''http://localhost:'' @ str_int port)), (''SSRF_ALLOWLIST'', Some ''127.0.0.0/8''),
        (''STORAGE_BACKEND'', Some ''local''), (''STORAGE_LOCAL_ROOT'', Some storage_root), (''LOCALSIGHT_LIVE_DIR'', Some live_dir),
        (''RECORD_ENABLED'', Some ''true''), (''RECORD_SEGMENT_SECONDS'', Some ''30''), (''RETENTION_RECORDINGS_DAYS'', Some ''2''),
        (''AI_DETECTOR'', Some ''onnx''), (''AI_INFERENCE_FPS'', Some ''5''), (''AI_CONFIDENCE_THRESHOLD'', Some ''0.45''),
        (''AI_MOTION_GATE_ENABLED'', Some ''true''), (''AI_RULES_ENABLED'', Some ''true''),
        (''AI_IDENTITY_RECOGNITION_ENABLED'', Some ''true''), (''AI_SIMILARITY_THRESHOLD'', Some ''0.45''),
        (''LOG_LEVEL'', Some ''INFO''), (''BOOTSTRAP_ADMIN_EMAIL'', Some ''admin@localsight.local''),
        (''BOOTSTRAP_ADMIN_PASSWORD'', Some admin_pass)]
       (map (\<lambda>(k, v). (k, Some v)) environ)"

section \<open>Processes\<close>

text \<open>
  A process has a group and, once it is asked to terminate, as many polls left as it takes;
  one that ignores the request has \<open>None\<close> to take and lives on.
\<close>

record os_proc =
  op_group :: int
  op_takes :: "nat option"
  op_left :: "nat option"

record rig =
  ri_pids :: "(string, string) dict"  \<comment> \<open>pid files\<close>
  ri_procs :: "(int, os_proc) dict"  \<comment> \<open>what runs on the host\<close>
  ri_next :: int

definition spawn :: "string \<Rightarrow> nat option \<Rightarrow> rig \<Rightarrow> int \<times> rig" where
  \<comment> \<open>a leader of its own group\<close>
  "spawn name takes w =
     (let pid = ri_next w in
      (pid, w\<lparr>ri_procs := dict_set pid \<lparr>op_group = pid, op_takes = takes, op_left = None\<rparr> (ri_procs w),
              ri_pids := dict_set name (str_int pid) (ri_pids w), ri_next := pid + 1\<rparr>))"

definition read_pid :: "string \<Rightarrow> rig \<Rightarrow> int option" where
  "read_pid name w = (case dict_get (ri_pids w) name of None \<Rightarrow> None | Some s \<Rightarrow> py_int s)"

definition alive :: "int \<Rightarrow> rig \<Rightarrow> bool" where
  "alive pid w \<longleftrightarrow> pid \<in> set (dict_keys (ri_procs w))"

definition is_running :: "string \<Rightarrow> rig \<Rightarrow> bool \<times> rig" where
  "is_running name w =
     (case read_pid name w of
        None \<Rightarrow> (False, w)
      | Some pid \<Rightarrow> if alive pid w then (True, w) else (False, w\<lparr>ri_pids := dict_del name (ri_pids w)\<rparr>))"

definition terminate_group :: "int \<Rightarrow> rig \<Rightarrow> rig" where
  "terminate_group g w = w\<lparr>ri_procs := map (\<lambda>(p, x).
     (p, if op_group x = g \<and> op_left x = None then x\<lparr>op_left := op_takes x\<rparr> else x)) (ri_procs w)\<rparr>"

definition reap_done :: "rig \<Rightarrow> rig" where
  "reap_done w = w\<lparr>ri_procs := filter (\<lambda>(p, x). op_left x \<noteq> Some 0) (ri_procs w)\<rparr>"

definition tick :: "rig \<Rightarrow> rig" where
  "tick w = w\<lparr>ri_procs := map (\<lambda>(p, x). (p, x\<lparr>op_left := map_option (\<lambda>n. n - 1) (op_left x)\<rparr>)) (ri_procs w)\<rparr>"

fun await_exit :: "nat \<Rightarrow> int \<Rightarrow> rig \<Rightarrow> bool \<times> rig" where
  \<comment> \<open>the polls until the deadline; whether the process was gone before\<close>
  "await_exit 0 pid w = (False, w)"
| "await_exit (Suc n) pid w =
     (let w1 = reap_done w in if \<not> alive pid w1 then (True, w1) else await_exit n pid (tick w1))"

definition stop_named :: "string \<Rightarrow> rig \<Rightarrow> bool \<times> rig" where
  \<comment> \<open>five seconds, a poll every tenth\<close>
  "stop_named name w =
     (case read_pid name w of
        None \<Rightarrow> (False, w)
      | Some pid \<Rightarrow>
          (let w1 = (case dict_get (ri_procs w) pid of None \<Rightarrow> w | Some x \<Rightarrow> terminate_group (op_group x) w);
               (gone, w2) = await_exit 50 pid w1;
               w3 = (if gone then w2 else w2\<lparr>ri_procs := dict_del pid (ri_procs w2)\<rparr>)
           in (True, w3\<lparr>ri_pids := dict_del name (ri_pids w3)\<rparr>)))"

definition rig_names :: "string list" where "rig_names = [''worker'', ''api'', ''capture'', ''mediamtx'']"

definition cmd_stop :: "rig \<Rightarrow> bool \<times> rig" where
  "cmd_stop w = fold (\<lambda>n (any, v). case stop_named n v of (s, v1) \<Rightarrow> (any \<or> s, v1)) rig_names (False, w)"

definition start_tracked :: "string \<Rightarrow> nat option \<Rightarrow> rig \<Rightarrow> rig" where
  \<comment> \<open>\<open>start_worker\<close>, and the start of the others up to their checks\<close>
  "start_tracked name takes w =
     (case is_running name w of (True, w1) \<Rightarrow> w1 | (False, w1) \<Rightarrow> snd (spawn name takes w1))"

section \<open>Capture and registration\<close>

definition rtsp_address :: "int \<Rightarrow> string \<Rightarrow> string" where
  "rtsp_address port path = ''rtsp://127.0.0.1:'' @ str_int port @ ''/'' @ path"

definition encoder_args :: "string list" where
  "encoder_args = [''-c:v'', ''libx264'', ''-preset'', ''veryfast'', ''-tune'', ''zerolatency'', ''-pix_fmt'', ''yuv420p'', ''-g'', ''30'']"

definition capture_args :: "string \<Rightarrow> int \<Rightarrow> string \<Rightarrow> string list" where
  "capture_args ffmpeg port source =
     (let synthetic = (source = ''synthetic'');
          publish = (\<lambda>path. [''-f'', ''rtsp'', ''-rtsp_transport'', ''tcp'', rtsp_address port path])
      in [ffmpeg, ''-hide_banner'', ''-nostdin'', ''-loglevel'', ''warning''] @
         (if synthetic
          then [''-f'', ''lavfi'', ''-i'', ''testsrc2=size=1280x720:rate=30'',
                ''-f'', ''lavfi'', ''-i'', ''life=size=640:360:rate=30:mold=10'']
          else [''-f'', ''avfoundation'', ''-framerate'', ''30'', ''-video_size'', ''1280x720'', ''-i'', ''0:none'']) @
         [''-map'', ''0:v'', ''-an''] @ encoder_args @ [''-b:v'', ''1800k''] @ publish ''cctv_main'' @
         [''-map'', if synthetic then ''1:v'' else ''0:v'', ''-an''] @ (if synthetic then [] else [''-vf'', ''scale=640:360'']) @
         encoder_args @ [''-b:v'', ''500k''] @ publish ''cctv_sub'')"

definition cam_name :: string where "cam_name = ''MacBook CCTV (local rig)''"

definition rig_body :: "int \<Rightarrow> string \<Rightarrow> body" where
  "rig_body port source =
     [(''name'', JStr cam_name), (''stream_url'', JStr (rtsp_address port ''cctv_main'')),
      (''substream_url'', JStr (rtsp_address port ''cctv_sub'')),
      (''resolution'', JStr (if source = ''camera'' then ''1280x720'' else ''1280x720 (synthetic)'')),
      (''fps'', JNum 15), (''timezone'', JStr ''UTC'')]"

definition rig_rules :: "(string \<times> json) list list" where
  "rig_rules =
     [[(''type'', JStr ''line_cross''), (''rule_id'', JStr ''rig-line''),
       (''a'', JList [JNum (5/10), JNum 0]), (''b'', JList [JNum (5/10), JNum 1]), (''direction'', JNum 1)],
      [(''type'', JStr ''loitering''), (''rule_id'', JStr ''rig-loiter''),
       (''zone'', JList [JList [JNum 0, JNum 0], JList [JNum 1, JNum 0], JList [JNum 1, JNum 1], JList [JNum 0, JNum 1]]),
       (''dwell_sec'', JNum 10)]]"

definition register_camera ::
  "api_env \<Rightarrow> settings \<Rightarrow> (string \<Rightarrow> string list option) \<Rightarrow> int \<Rightarrow> string \<Rightarrow> string \<times> user_row \<Rightarrow> request \<Rightarrow> app \<Rightarrow> string outcome" where
  \<comment> \<open>the HTTP library raises for every status from 400 on, which ends the script\<close>
  "register_camera env st dns port source user rq a =
     (case find (\<lambda>v. cv_name v = cam_name) (list_cameras a) of
        Some v \<Rightarrow> (Inr (cv_id v), a)
      | None \<Rightarrow>
          (case create_camera env st dns (rig_body port source) user rq a of
             (Inl err, a1) \<Rightarrow> (Inl err, a1)
           | (Inr cid, a1) \<Rightarrow>
               (case put_rules env cid rig_rules user rq a1 of
                  (Inl err, a2) \<Rightarrow> (Inl err, a2)
                | (Inr _, a2) \<Rightarrow> (Inr cid, a2))))"

section \<open>Secrets are drawn once\<close>

lemma strip_ends: "strip s = [] \<or> \<not> is_space (hd (strip s)) \<and> \<not> is_space (last (strip s))"
proof (cases "strip s = []")
  case False
  define u where "u = lstrip s"
  have st: "strip s = rev (dropWhile is_space (rev u))" by (simp add: strip_def lstrip_def u_def)
  have split: "strip s @ rev (takeWhile is_space (rev u)) = u"
    unfolding st by (metis rev_append rev_rev_ident takeWhile_dropWhile_id)
  then have "hd u = hd (strip s)" using False by (metis hd_append2)
  moreover have "u \<noteq> []" using False split by auto
  then have "\<not> is_space (hd u)" unfolding u_def lstrip_def by (rule hd_dropWhile)
  moreover have "\<not> is_space (last (strip s))"
  proof -
    have "dropWhile is_space (rev u) \<noteq> []" using False unfolding st by simp
    from hd_dropWhile [OF this] show ?thesis unfolding st by (simp only: last_rev simp_thms)
  qed
  ultimately show ?thesis by simp
qed simp

lemma strip_trimmed: "s = [] \<or> \<not> is_space (hd s) \<and> \<not> is_space (last s) \<Longrightarrow> strip s = s"
proof -
  assume s: "s = [] \<or> \<not> is_space (hd s) \<and> \<not> is_space (last s)"
  have id: "t = [] \<or> \<not> is_space (hd t) \<Longrightarrow> lstrip t = t" for t by (cases t) (auto simp: lstrip_def)
  have "lstrip s = s" by (rule id) (use s in blast)
  moreover have "lstrip (rev s) = rev s" by (rule id) (use s in \<open>auto simp: hd_rev\<close>)
  ultimately show ?thesis by (simp add: strip_def)
qed

lemma strip_strip [simp]: "strip (strip s) = strip s"
  by (rule strip_trimmed) (rule strip_ends)

lemma strip_subset: "set (strip s) \<subseteq> set s"
proof -
  have "set (lstrip t) \<subseteq> set t" for t by (auto simp: lstrip_def dest: set_dropWhileD)
  from this [of s] this [of "rev (lstrip s)"] show ?thesis by (auto simp: strip_def)
qed

lemma dict_set_subset: "set (dict_set k v d) \<subseteq> insert (k, v) (set d)"
  by (induction d) (auto simp: dict_set_def)

definition env_entry :: "string \<times> string \<Rightarrow> bool" where
  "env_entry kv = (case kv of (k, v) \<Rightarrow> CHR ''='' \<notin> set k \<and> newline \<notin> set k \<union> set v \<and> strip (k @ ''='' @ v) = k @ ''='' @ v)"

lemma env_entry_fresh:
  assumes "list_all (\<lambda>c. \<not> is_space c \<and> c \<noteq> CHR ''='') k" and "list_all (\<lambda>c. \<not> is_space c) v"
  shows "env_entry (k, v)"
proof -
  have "strip (k @ ''='' @ v) = k @ ''='' @ v"
    using assms by (intro strip_nospace) (auto simp: list_all_iff is_space_def)
  moreover have "is_space newline" by (simp add: is_space_def)
  ultimately show ?thesis using assms by (auto simp: env_entry_def list_all_iff)
qed

lemma before_after: "CHR ''='' \<in> set t \<Longrightarrow> before CHR ''='' t @ ''='' @ after CHR ''='' t = t"
  by (induction t) (auto simp: before_def after_def)

lemma before_no: "CHR ''='' \<notin> set (before CHR ''='' t)"
  by (auto simp: before_def dest: set_takeWhileD)

lemma before_entry: "CHR ''='' \<notin> set k \<Longrightarrow> before CHR ''='' (k @ CHR ''='' # v) = k \<and> after CHR ''='' (k @ CHR ''='' # v) = v"
  by (induction k) (auto simp: before_def after_def)

lemma env_lines_no_newline: "l \<in> set (env_lines s) \<Longrightarrow> newline \<notin> set l"
  using split_on_no_sep [of l newline s] by (auto simp: env_lines_def Let_def dest: in_set_butlastD split: if_splits)

lemma read_env_entries: "(list_all env_entry (read_env s)) \<and> dict_ok (read_env s)"
proof -
  have "list_all env_entry d \<and> dict_ok d \<Longrightarrow> (\<And>l. l \<in> set ls \<Longrightarrow> newline \<notin> set l) \<Longrightarrow>
      (let r = fold (\<lambda>l d. let t = strip l in if CHR ''='' \<in> set t then dict_set (before CHR ''='' t) (after CHR ''='' t) d else d) ls d
       in list_all env_entry r \<and> dict_ok r)" for ls d
  proof (induction ls arbitrary: d)
    case (Cons l ls)
    let ?t = "strip l"
    show ?case
    proof (cases "CHR ''='' \<in> set ?t")
      case True
      have "newline \<notin> set ?t" using Cons.prems(2) [of l] strip_subset by fastforce
      then have e: "env_entry (before CHR ''='' ?t, after CHR ''='' ?t)"
        using before_after [OF True] before_no [of ?t] by (simp add: env_entry_def) (metis UnE Un_iff insertCI set_append list.set(2))
      have "list_all env_entry (dict_set (before CHR ''='' ?t) (after CHR ''='' ?t) d)"
        using Cons.prems(1) e dict_set_subset [of "before CHR ''='' ?t" "after CHR ''='' ?t" d] unfolding list_all_iff by blast
      then show ?thesis using Cons.IH Cons.prems True by (simp add: Let_def)
    next
      case False
      then show ?thesis using Cons.IH [of d] Cons.prems by (simp add: Let_def)
    qed
  qed simp
  from this [of "[]" "env_lines s"] show ?thesis using env_lines_no_newline by (simp add: read_env_def Let_def)
qed

lemma env_lines_show: "list_all env_entry d \<Longrightarrow> env_lines (show_env d) = map (\<lambda>(k, v). k @ ''='' @ v) d"
proof -
  assume "list_all env_entry d"
  then have "split_on newline (show_env d) = map (\<lambda>(k, v). k @ ''='' @ v) d @ [[]]"
  proof (induction d)
    case (Cons kv d)
    obtain k v where kv: "kv = (k, v)" by (cases kv)
    have "newline \<notin> set (k @ ''='' @ v)" using Cons.prems by (auto simp: kv env_entry_def)
    from split_on_append [OF this, of "show_env d"] show ?case using Cons by (simp add: kv show_env_def)
  qed (simp add: show_env_def)
  then show ?thesis by (simp add: env_lines_def Let_def)
qed

lemma read_show_env:
  assumes "list_all env_entry d" and "dict_ok d"
  shows "read_env (show_env d) = d"
proof -
  have "list_all env_entry d \<Longrightarrow> dict_ok (acc @ d) \<Longrightarrow>
    fold (\<lambda>l d. let t = strip l in if CHR ''='' \<in> set t then dict_set (before CHR ''='' t) (after CHR ''='' t) d else d)
      (map (\<lambda>(k, v). k @ ''='' @ v) d) acc = acc @ d" for acc d
  proof (induction d arbitrary: acc)
    case (Cons kv d)
    obtain k v where kv: "kv = (k, v)" by (cases kv)
    have st: "strip (k @ CHR ''='' # v) = k @ CHR ''='' # v" "CHR ''='' \<notin> set k" using Cons.prems(1) by (simp_all add: kv env_entry_def)
    have "k \<notin> set (dict_keys acc)" using Cons.prems(2) by (auto simp: kv dict_ok_def dict_keys_def)
    then have "dict_set k v acc = acc @ [(k, v)]" by (rule dict_set_fresh)
    then show ?case
      using Cons.IH [of "acc @ [(k, v)]"] Cons.prems by (simp add: kv st before_entry Let_def)
  qed simp
  from this [of d "[]"] assms show ?thesis by (simp add: read_env_def env_lines_show)
qed

text \<open>
  The rig's secrets are drawn once. Whatever the file held, the file written reads back as what is
  stored; both secrets are there; what the file had is kept; and a later run, with whatever keys it would
  draw, stores, writes and exports the same again.
\<close>

theorem secrets_stable:
  assumes "ensure_secrets jwt mek file environ = (stored, file1, environ1)"
    and "jwt \<noteq> []" "mek \<noteq> []" "list_all (\<lambda>c. \<not> is_space c) jwt" "list_all (\<lambda>c. \<not> is_space c) mek"
  shows "(case file1 of None \<Rightarrow> False | Some t \<Rightarrow> read_env t = stored) \<and>
    \<not> missing_key ''_RIG_JWT'' stored \<and> \<not> missing_key ''_RIG_MEK'' stored \<and>
    dict_get environ1 ''_RIG_JWT'' \<noteq> None \<and> dict_get environ1 ''_RIG_MEK'' \<noteq> None \<and>
    (case file of None \<Rightarrow> dict_get stored ''_RIG_JWT'' = Some jwt \<and> dict_get stored ''_RIG_MEK'' = Some mek
     | Some t \<Rightarrow> missing_key k (read_env t) \<or> dict_get stored k = dict_get (read_env t) k) \<and>
    ensure_secrets jwt' mek' file1 environ1 = (stored, file1, environ1)"
proof -
  define s0 where "s0 = (case file of None \<Rightarrow> [] | Some t \<Rightarrow> read_env t)"
  define s1 where "s1 = (if missing_key ''_RIG_JWT'' s0 then dict_set ''_RIG_JWT'' jwt s0 else s0)"
  define s2 where "s2 = (if missing_key ''_RIG_MEK'' s1 then dict_set ''_RIG_MEK'' mek s1 else s1)"
  have st: "stored = s2" "file1 = (if missing_key ''_RIG_JWT'' s0 \<or> missing_key ''_RIG_MEK'' s1 then Some (show_env s2) else file)"
    "environ1 = setdefault ''_RIG_MEK'' (the (dict_get s2 ''_RIG_MEK'')) (setdefault ''_RIG_JWT'' (the (dict_get s2 ''_RIG_JWT'')) environ)"
  proof -
    have "(stored, file1, environ1) = (s2, if missing_key ''_RIG_JWT'' s0 \<or> missing_key ''_RIG_MEK'' s1 then Some (show_env s2) else file,
        setdefault ''_RIG_MEK'' (the (dict_get s2 ''_RIG_MEK'')) (setdefault ''_RIG_JWT'' (the (dict_get s2 ''_RIG_JWT'')) environ))"
      unfolding assms(1) [symmetric] ensure_secrets_def Let_def s2_def s1_def s0_def by (rule refl)
    then show "stored = s2" "file1 = (if missing_key ''_RIG_JWT'' s0 \<or> missing_key ''_RIG_MEK'' s1 then Some (show_env s2) else file)"
      "environ1 = setdefault ''_RIG_MEK'' (the (dict_get s2 ''_RIG_MEK'')) (setdefault ''_RIG_JWT'' (the (dict_get s2 ''_RIG_JWT'')) environ)"
      by (simp_all only: prod.inject)
  qed
  have w0: "list_all env_entry s0 \<and> dict_ok s0" using read_env_entries by (simp add: s0_def split: option.splits)
  have new: "env_entry (''_RIG_JWT'', jwt)" "env_entry (''_RIG_MEK'', mek)"
    using assms(4,5) by (auto intro!: env_entry_fresh simp: is_space_def)
  have set: "list_all env_entry d \<and> dict_ok d \<Longrightarrow> env_entry (k, v) \<Longrightarrow> list_all env_entry (dict_set k v d) \<and> dict_ok (dict_set k v d)" for k v d
    using dict_set_subset [of k v d] unfolding list_all_iff by (blast intro: dict_ok_set)
  have w1: "list_all env_entry s1 \<and> dict_ok s1" using w0 set new(1) by (simp add: s1_def)
  have w2: "list_all env_entry s2 \<and> dict_ok s2" using w1 set new(2) by (simp add: s2_def)
  have rd: "read_env (show_env s2) = s2" using w2 read_show_env by blast
  have have_keys: "\<not> missing_key ''_RIG_JWT'' s2" "\<not> missing_key ''_RIG_MEK'' s2"
    using assms(2,3) by (auto simp: s1_def s2_def missing_key_def)
  have kept: "missing_key k s0 \<or> dict_get s2 k = dict_get s0 k" for k
    by (auto simp: s1_def s2_def missing_key_def)
  have f1: "\<exists>t. file1 = Some t \<and> read_env t = s2"
  proof (cases "missing_key ''_RIG_JWT'' s0 \<or> missing_key ''_RIG_MEK'' s1")
    case False
    then have "s1 = s0" by (simp add: s1_def)
    then have "s2 = s0" using False by (simp add: s2_def)
    moreover have "file \<noteq> None"
    proof
      assume "file = None"
      then show False using False by (simp add: s0_def missing_key_def)
    qed
    ultimately show ?thesis using False st(2) by (auto simp: s0_def)
  qed (use st(2) rd in simp)
  then obtain t where t: "file1 = Some t" "read_env t = s2" by blast
  have env: "setdefault ''_RIG_MEK'' v (setdefault ''_RIG_JWT'' u environ1) = environ1" for u v
    by (simp add: st(3) setdefault_def split: option.splits)
  have again: "ensure_secrets jwt' mek' file1 environ1 = (s2, file1, environ1)"
    using have_keys by (simp add: ensure_secrets_def t Let_def env)
  have exported: "dict_get environ1 ''_RIG_JWT'' \<noteq> None \<and> dict_get environ1 ''_RIG_MEK'' \<noteq> None"
    by (simp add: st(3) setdefault_def split: option.splits)
  have first: "file = None \<Longrightarrow> dict_get s2 ''_RIG_JWT'' = Some jwt \<and> dict_get s2 ''_RIG_MEK'' = Some mek"
    by (simp add: s0_def s1_def s2_def missing_key_def)
  have old: "case file of None \<Rightarrow> dict_get s2 ''_RIG_JWT'' = Some jwt \<and> dict_get s2 ''_RIG_MEK'' = Some mek
     | Some t \<Rightarrow> missing_key k (read_env t) \<or> dict_get s2 k = dict_get (read_env t) k"
    using first kept [of k] by (auto simp: s0_def split: option.splits)
  show ?thesis unfolding st(1) using t have_keys old again exported by simp
qed

theorem secrets_stable_witness:
  "fst (ensure_secrets ''k1'' ''k2'' (Some ''A=1'') []) = [(''A'', ''1''), (''_RIG_JWT'', ''k1''), (''_RIG_MEK'', ''k2'')]"
proof -
  obtain s f e where r: "ensure_secrets ''k1'' ''k2'' (Some ''A=1'') [] = (s, f, e)" by (cases "ensure_secrets ''k1'' ''k2'' (Some ''A=1'') []")
  have i: "s = [(''A'', ''1''), (''_RIG_JWT'', ''k1''), (''_RIG_MEK'', ''k2'')]"
    using r by (simp add: ensure_secrets_def Let_def read_env_def env_lines_def strip_def lstrip_def is_space_def before_def after_def
        missing_key_def dict_get_def dict_set_def)
  show ?thesis using secrets_stable [OF r, of "''A''" "''x''" "''y''"] r i by (simp add: is_space_def)
qed

section \<open>Stopping\<close>

lemma reap_keeps: "(p, x) \<in> set (ri_procs w) \<Longrightarrow> op_left x = None \<Longrightarrow> (p, x) \<in> set (ri_procs (reap_done w))"
  by (simp add: reap_done_def)

lemma tick_keeps: "(p, x) \<in> set (ri_procs w) \<Longrightarrow> op_left x = None \<Longrightarrow> (p, x) \<in> set (ri_procs (tick w))"
  by (force simp: tick_def)

lemma await_keeps: "(p, x) \<in> set (ri_procs w) \<Longrightarrow> op_left x = None \<Longrightarrow> (p, x) \<in> set (ri_procs (snd (await_exit n pid w)))"
  by (induction n pid w rule: await_exit.induct) (simp_all add: Let_def reap_keeps tick_keeps)

lemma await_gone: "fst (await_exit n pid w) \<Longrightarrow> \<not> alive pid (snd (await_exit n pid w))"
  by (induction n pid w rule: await_exit.induct) (simp_all add: Let_def split: if_splits)

lemma await_pids [simp]: "ri_pids (snd (await_exit n pid w)) = ri_pids w"
  by (induction n pid w rule: await_exit.induct) (simp_all add: Let_def reap_done_def tick_def)

lemma alive_shrinks:
  "alive p (reap_done w) \<Longrightarrow> alive p w" "alive p (tick w) \<Longrightarrow> alive p w" "alive p (terminate_group g w) \<Longrightarrow> alive p w"
  by (force simp: alive_def dict_keys_def reap_done_def tick_def terminate_group_def)+

lemma await_alive: "alive p (snd (await_exit n pid w)) \<Longrightarrow> alive p w"
  by (induction n pid w rule: await_exit.induct) (auto simp: Let_def split: if_splits dest: alive_shrinks)

lemma stop_named_effect:
  assumes "stop_named name w = (r, w')"
  shows "r \<longleftrightarrow> read_pid name w \<noteq> None"
    and "alive p w' \<Longrightarrow> alive p w"
    and "read_pid name w = Some pid \<Longrightarrow> \<not> alive pid w'"
    and "ri_pids w' = (if read_pid name w = None then ri_pids w else dict_del name (ri_pids w))"
    and "(p, x) \<in> set (ri_procs w) \<Longrightarrow> op_left x = None \<Longrightarrow> op_takes x = None \<Longrightarrow> read_pid name w \<noteq> Some p \<Longrightarrow> (p, x) \<in> set (ri_procs w')"
proof -
  have all: "(r \<longleftrightarrow> read_pid name w \<noteq> None) \<and> (alive p w' \<longrightarrow> alive p w) \<and> (read_pid name w = Some pid \<longrightarrow> \<not> alive pid w') \<and>
    ri_pids w' = (if read_pid name w = None then ri_pids w else dict_del name (ri_pids w)) \<and>
    ((p, x) \<in> set (ri_procs w) \<and> op_left x = None \<and> op_takes x = None \<and> read_pid name w \<noteq> Some p \<longrightarrow> (p, x) \<in> set (ri_procs w'))"
  proof (cases "read_pid name w")
    case None
    then show ?thesis using assms by (simp add: stop_named_def)
  next
    case (Some lead)
    define w1 where "w1 = (case dict_get (ri_procs w) lead of None \<Rightarrow> w | Some y \<Rightarrow> terminate_group (op_group y) w)"
    define w3 where "w3 = (if fst (await_exit 50 lead w1) then snd (await_exit 50 lead w1)
        else (snd (await_exit 50 lead w1))\<lparr>ri_procs := dict_del lead (ri_procs (snd (await_exit 50 lead w1)))\<rparr>)"
    have "(r, w') = (True, w3\<lparr>ri_pids := dict_del name (ri_pids w3)\<rparr>)"
      unfolding assms [symmetric] stop_named_def Some option.case Let_def case_prod_unfold w3_def w1_def by (rule refl)
    then have w': "w' = w3\<lparr>ri_pids := dict_del name (ri_pids w3)\<rparr>" "r" by simp_all
    have pids1: "ri_pids w1 = ri_pids w" by (simp add: w1_def terminate_group_def split: option.splits)
    have a1: "alive p w1 \<Longrightarrow> alive p w" for p using alive_shrinks(3) by (auto simp: w1_def split: option.splits)
    have a3: "alive p w3 \<Longrightarrow> alive p w1" for p
      using await_alive [of p 50 lead w1] by (auto simp: w3_def alive_def split: if_splits)
    have dead: "\<not> alive lead w3" using await_gone [of 50 lead w1] by (simp add: w3_def alive_def)
    have k1: "(p, x) \<in> set (ri_procs w) \<Longrightarrow> op_left x = None \<Longrightarrow> op_takes x = None \<Longrightarrow> (p, x) \<in> set (ri_procs w1)"
      by (force simp: w1_def terminate_group_def split: option.splits)
    have k3: "(p, x) \<in> set (ri_procs w1) \<Longrightarrow> op_left x = None \<Longrightarrow> p \<noteq> lead \<Longrightarrow> (p, x) \<in> set (ri_procs w3)"
      using await_keeps [of p x w1 50 lead] by (auto simp: w3_def dict_del_def AList.delete_eq)
    have "ri_pids w3 = ri_pids w" by (simp add: w3_def pids1)
    then show ?thesis using Some w' a1 a3 dead k1 k3 by (auto simp: alive_def)
  qed
  show "r \<longleftrightarrow> read_pid name w \<noteq> None" "alive p w' \<Longrightarrow> alive p w" "read_pid name w = Some pid \<Longrightarrow> \<not> alive pid w'"
    "ri_pids w' = (if read_pid name w = None then ri_pids w else dict_del name (ri_pids w))"
    "(p, x) \<in> set (ri_procs w) \<Longrightarrow> op_left x = None \<Longrightarrow> op_takes x = None \<Longrightarrow> read_pid name w \<noteq> Some p \<Longrightarrow> (p, x) \<in> set (ri_procs w')"
    using all by blast+
qed

fun stop_each :: "string list \<Rightarrow> rig \<Rightarrow> rig" where
  "stop_each [] w = w"
| "stop_each (n # ns) w = stop_each ns (snd (stop_named n w))"

lemma read_pid_other: "stop_named n w = (r, w') \<Longrightarrow> m \<noteq> n \<Longrightarrow> read_pid m w' = read_pid m w"
  using stop_named_effect(4) [of n w r w'] by (simp add: read_pid_def)

lemma stop_each_effect:
  assumes "distinct ns"
  shows "(alive p (stop_each ns w) \<longrightarrow> alive p w) \<and>
    (m \<notin> set ns \<longrightarrow> dict_get (ri_pids (stop_each ns w)) m = dict_get (ri_pids w) m) \<and>
    (\<forall>n \<in> set ns. (case read_pid n w of None \<Rightarrow> read_pid n (stop_each ns w) = None
      | Some pid \<Rightarrow> \<not> alive pid (stop_each ns w) \<and> dict_get (ri_pids (stop_each ns w)) n = None)) \<and>
    ((p, x) \<in> set (ri_procs w) \<and> op_left x = None \<and> op_takes x = None \<and> (\<forall>n \<in> set ns. read_pid n w \<noteq> Some p) \<longrightarrow>
       (p, x) \<in> set (ri_procs (stop_each ns w)))"
  using assms
proof (induction ns arbitrary: w p m)
  case (Cons n ns)
  obtain r w1 where st: "stop_named n w = (r, w1)" by (cases "stop_named n w")
  have d: "distinct ns" "n \<notin> set ns" using Cons.prems by simp_all
  note IH = Cons.IH [OF d(1), of _ w1]
  have eq: "stop_each (n # ns) w = stop_each ns w1" by (simp add: st)
  have rd: "read_pid m' w1 = read_pid m' w" if "m' \<in> set ns" for m'
    by (rule read_pid_other [OF st]) (use that d(2) in blast)
  have n1: "dict_get (ri_pids (stop_each ns w1)) n = dict_get (ri_pids w1) n" using IH [of p n] d(2) by blast
  have "case read_pid n w of None \<Rightarrow> read_pid n (stop_each ns w1) = None
      | Some pid \<Rightarrow> \<not> alive pid (stop_each ns w1) \<and> dict_get (ri_pids (stop_each ns w1)) n = None"
  proof (cases "read_pid n w")
    case None
    then show ?thesis using n1 stop_named_effect(4) [OF st] by (simp add: read_pid_def)
  next
    case (Some pid)
    then show ?thesis
      using n1 stop_named_effect(3) [OF st Some] stop_named_effect(4) [OF st] IH [of pid m] by auto
  qed
  moreover have "case read_pid m' w of None \<Rightarrow> read_pid m' (stop_each ns w1) = None
      | Some pid \<Rightarrow> \<not> alive pid (stop_each ns w1) \<and> dict_get (ri_pids (stop_each ns w1)) m' = None" if "m' \<in> set ns" for m'
    using IH [of p m] that unfolding rd [OF that, symmetric] by blast
  moreover have "alive p (stop_each ns w1) \<longrightarrow> alive p w" using IH [of p m] stop_named_effect(2) [OF st] by blast
  moreover have "m \<notin> set (n # ns) \<longrightarrow> dict_get (ri_pids (stop_each ns w1)) m = dict_get (ri_pids w) m"
    using IH [of p m] stop_named_effect(4) [OF st] by auto
  moreover have "(p, x) \<in> set (ri_procs w) \<and> op_left x = None \<and> op_takes x = None \<and> (\<forall>n \<in> set (n # ns). read_pid n w \<noteq> Some p) \<longrightarrow>
       (p, x) \<in> set (ri_procs (stop_each ns w1))"
    using IH [of p m] stop_named_effect(5) [OF st, of p x] rd by auto
  ultimately show ?case unfolding eq by simp
qed simp

lemma cmd_stop_each: "snd (cmd_stop w) = stop_each rig_names w"
proof -
  have "snd (fold (\<lambda>n (any, v). case stop_named n v of (s, v1) \<Rightarrow> (any \<or> s, v1)) ns (b, w)) = stop_each ns w" for ns b w
    by (induction ns arbitrary: b w) (simp_all add: case_prod_unfold)
  then show ?thesis by (simp add: cmd_stop_def)
qed

text \<open>
  Stopping the rig: afterwards no tracked name runs, and every process a pid file named is gone
  with its file. Nothing new runs. But only the leaders are killed for good: a process of a leader's
  group that ignores the request to terminate outlives the stop (an ffmpeg child that hangs does).
\<close>

theorem rig_stop_exact:
  "list_all (\<lambda>n. \<not> fst (is_running n (snd (cmd_stop w)))) rig_names \<and>
   (case read_pid name w of None \<Rightarrow> True
    | Some pid \<Rightarrow> if name \<in> set rig_names then \<not> alive pid (snd (cmd_stop w)) \<and> dict_get (ri_pids (snd (cmd_stop w))) name = None else True) \<and>
   (if alive p (snd (cmd_stop w)) then alive p w else True) \<and>
   (if (p, x) \<in> set (ri_procs w) \<and> op_left x = None \<and> op_takes x = None \<and> list_all (\<lambda>n. read_pid n w \<noteq> Some p) rig_names
    then (p, x) \<in> set (ri_procs (snd (cmd_stop w))) else True)"
proof -
  have d: "distinct rig_names" by (simp add: rig_names_def)
  note E = stop_each_effect [OF d, of _ w, folded cmd_stop_each]
  have each: "case read_pid n w of None \<Rightarrow> read_pid n (snd (cmd_stop w)) = None
      | Some pid \<Rightarrow> \<not> alive pid (snd (cmd_stop w)) \<and> dict_get (ri_pids (snd (cmd_stop w))) n = None" if "n \<in> set rig_names" for n
    using E that by blast
  have "\<not> fst (is_running n (snd (cmd_stop w)))" if "n \<in> set rig_names" for n
    using each [OF that] by (cases "read_pid n w") (auto simp: is_running_def read_pid_def split: option.splits)
  moreover have "case read_pid name w of None \<Rightarrow> True
    | Some pid \<Rightarrow> if name \<in> set rig_names then \<not> alive pid (snd (cmd_stop w)) \<and> dict_get (ri_pids (snd (cmd_stop w))) name = None else True"
    using each [of name] by (auto split: option.splits)
  ultimately show ?thesis using E [of p _ x] by (auto simp: list_all_iff)
qed

section \<open>The rig's camera\<close>

lemma rig_address_parsed:
  "path \<in> {''cctv_main'', ''cctv_sub''} \<Longrightarrow> urlparse (rtsp_address 8554 path) =
     Inr \<lparr>pu_scheme = ''rtsp'', pu_netloc = ''127.0.0.1:8554'', pu_hostname = ''127.0.0.1''\<rparr>"
proof -
  assume p: "path \<in> {''cctv_main'', ''cctv_sub''}"
  have n: "str_int 8554 = ''8554''" by (simp add: str_int_def digit_char_def str_nat.simps char_of_def bit_Suc_0_iff)
  have h: "hostname ''127.0.0.1:8554'' = ''127.0.0.1''" by code_simp
  have "urlparse (''rtsp://'' @ ''127.0.0.1:8554'' @ ''/'' @ path) =
      Inr \<lparr>pu_scheme = ''rtsp'', pu_netloc = ''127.0.0.1:8554'', pu_hostname = hostname ''127.0.0.1:8554''\<rparr>"
  proof (rule parse_rtsp)
    show "list_all netloc_char ''127.0.0.1:8554''" by (simp add: netloc_char_def url_safe_def unreserved_def is_digit_def)
    show "list_all (\<lambda>c. c \<notin> {CHR 0x09, CHR 0x0A, CHR 0x0D}) path" using p by auto
  qed
  then show ?thesis by (simp add: rtsp_address_def n h)
qed

lemma loopback: "parse_ip ''127.0.0.1'' = Some (V4 2130706433)"
  by (simp add: parse_simps)

lemma loopback_net: "parse_net ''127.0.0.0/8'' = Inr (Net4 2130706432 8)"
proof -
  have a: "parse_ip ''127.0.0.0'' = Some (V4 2130706432)" by (simp add: parse_simps)
  have n: "nat_of_digits ''8'' = 8" by (simp add: nat_of_digits_def char_digit_def)
  have m: "(2130706432 :: 32 word) AND netmask4 8 = 2130706432"
    by (simp only: netmask4_def word_unat_eq_iff unat_and_not_mask) simp
  show ?thesis by (simp add: parse_net_def a n m is_digit_def)
qed

lemma rig_rules_accepted: "dry_run cid rig_rules = Inr ()"
  by (simp add: rig_rules_def rule_from_dict_def spec_rule_id_def obj_get_def dict_get_def json_truthy_def spec_labels_def
      spec_point_def spec_direction_def spec_zone_def spec_number_def Let_def)

lemma rig_guard:
  assumes "dns ''127.0.0.1'' = Some [''127.0.0.1'']" and "path \<in> {''cctv_main'', ''cctv_sub''}"
  shows "se_ssrf_allowlist st = ''127.0.0.0/8'' \<Longrightarrow> \<exists>p. guard_url dns st (rtsp_address 8554 path) = Inr p"
    and "se_ssrf_allowlist st = [] \<Longrightarrow> guard_url dns st (rtsp_address 8554 path) = Inl UnsafeUrlError"
proof -
  have lw: "lower ''rtsp'' = ''rtsp''" by (simp add: lower_def lower_char_def)
  have m: "(2130706433 :: 32 word) AND netmask4 8 = 2130706432"
    by (simp only: netmask4_def word_unat_eq_iff unat_and_not_mask) simp
  have b: "is_blocked (V4 2130706433)" by (simp add: is_blocked_public public_def)
  note G = guard_url_def validate_egress_url_def rig_address_parsed [OF assms(2)] allowed_schemes_def lw assms(1) loopback
  {
    assume "se_ssrf_allowlist st = ''127.0.0.0/8''"
    then have "ssrf_allowlist_cidrs st = [''127.0.0.0/8'']"
      by (simp add: ssrf_allowlist_cidrs_def comma_list_def strip_def lstrip_def is_space_def)
    moreover have "strip ''127.0.0.0/8'' = ''127.0.0.0/8''" by (simp add: strip_def lstrip_def is_space_def)
    ultimately show "\<exists>p. guard_url dns st (rtsp_address 8554 path) = Inr p"
      by (simp add: G host_in_network_def loopback_net m)
  next
    assume "se_ssrf_allowlist st = []"
    then have "ssrf_allowlist_cidrs st = []" by (simp add: ssrf_allowlist_cidrs_def comma_list_def strip_def lstrip_def)
    then show "guard_url dns st (rtsp_address 8554 path) = Inl UnsafeUrlError" by (simp add: G b)
  }
qed

lemma dict_set_last: "k \<notin> set (dict_keys d) \<Longrightarrow> dict_set k v' (d @ [(k, v)]) = d @ [(k, v')]"
  by (induction d) (auto simp: dict_set_def dict_keys_def)

lemma find_last: "find P xs = None \<Longrightarrow> find P (xs @ [x]) = (if P x then Some x else None)"
  by (induction xs) auto

definition rig_row :: "api_env \<Rightarrow> string \<Rightarrow> timestamp \<Rightarrow> camera_row" where
  "rig_row env source now =
     \<lparr>ca_name = cam_name, ca_uid = None, ca_nvr = None, ca_stream_enc = Some (ae_encrypt env (rtsp_address 8554 ''cctv_main'')),
       ca_substream_enc = Some (ae_encrypt env (rtsp_address 8554 ''cctv_sub'')), ca_status = ''OFFLINE'', ca_health = ''unknown'',
       ca_last_seen = None, ca_resolution = (if source = ''camera'' then ''1280x720'' else ''1280x720 (synthetic)''), ca_fps = 15,
       ca_timezone = ''UTC'', ca_masks = None, ca_retention = None, ca_rules = None, ca_created_at = now\<rparr>"

lemma rig_created:
  assumes "dns ''127.0.0.1'' = Some [''127.0.0.1'']"
  shows "se_ssrf_allowlist st = ''127.0.0.0/8'' \<Longrightarrow> \<exists>a'. create_camera env st dns (rig_body 8554 source) user rq a = (Inr (ae_uuid env (ap_next a)), a') \<and>
      db_cameras (ap_db a') = dict_set (ae_uuid env (ap_next a)) (rig_row env source (rq_now rq)) (db_cameras (ap_db a))"
    and "se_ssrf_allowlist st = [] \<Longrightarrow> create_camera env st dns (rig_body 8554 source) user rq a = (Inl (Http 400), a)"
proof -
  have f: "field (rig_body 8554 source) ''name'' = Some (JStr cam_name)"
    "field (rig_body 8554 source) ''stream_url'' = Some (JStr (rtsp_address 8554 ''cctv_main''))"
    "field (rig_body 8554 source) ''substream_url'' = Some (JStr (rtsp_address 8554 ''cctv_sub''))"
    "field (rig_body 8554 source) ''resolution'' = Some (JStr (if source = ''camera'' then ''1280x720'' else ''1280x720 (synthetic)''))"
    "field (rig_body 8554 source) ''fps'' = Some (JNum 15)" "field (rig_body 8554 source) ''timezone'' = Some (JStr ''UTC'')"
    "field (rig_body 8554 source) ''camera_uid'' = None" "field (rig_body 8554 source) ''nvr_device_id'' = None"
    "field (rig_body 8554 source) ''privacy_masks'' = None" "field (rig_body 8554 source) ''retention'' = None"
    by (simp_all add: field_def rig_body_def)
  have ne: "rtsp_address 8554 p \<noteq> []" "cam_name \<noteq> []" for p by (simp_all add: rtsp_address_def cam_name_def)
  have t: "text_field (rig_body 8554 source) ''name'' = Inr cam_name"
    "text_field (rig_body 8554 source) ''stream_url'' = Inr (rtsp_address 8554 ''cctv_main'')"
    "text_field (rig_body 8554 source) ''substream_url'' = Inr (rtsp_address 8554 ''cctv_sub'')"
    by (simp_all add: text_field_def f)
  have n: "new_camera env (rig_body 8554 source) now cam_name (rtsp_address 8554 ''cctv_main'') (rtsp_address 8554 ''cctv_sub'') a =
      Inr (rig_row env source now)" for now
    by (simp add: new_camera_def nullable_text_def column_text_def fps_field_def json_column_def f ne refers_def rig_row_def py_trunc_def json_truthy_def)
  {
    assume st: "se_ssrf_allowlist st = ''127.0.0.0/8''"
    obtain p q where g: "guard_url dns st (rtsp_address 8554 ''cctv_main'') = Inr p" "guard_url dns st (rtsp_address 8554 ''cctv_sub'') = Inr q"
      using rig_guard(1) [where path = "''cctv_main''" and dns = dns and st = st, OF assms _ st]
        rig_guard(1) [where path = "''cctv_sub''" and dns = dns and st = st, OF assms _ st] by auto
    show "\<exists>a'. create_camera env st dns (rig_body 8554 source) user rq a = (Inr (ae_uuid env (ap_next a)), a') \<and>
      db_cameras (ap_db a') = dict_set (ae_uuid env (ap_next a)) (rig_row env source (rq_now rq)) (db_cameras (ap_db a))"
      by (simp add: create_camera_def t ne g n fresh_id_def Let_def put_camera_def)
  next
    assume st: "se_ssrf_allowlist st = []"
    have g: "guard_url dns st (rtsp_address 8554 ''cctv_main'') = Inl UnsafeUrlError"
      using rig_guard(2) [where path = "''cctv_main''" and dns = dns and st = st, OF assms _ st] by simp
    show "create_camera env st dns (rig_body 8554 source) user rq a = (Inl (Http 400), a)"
      by (simp add: create_camera_def t ne g guard_error_def)
  }
qed

text \<open>
  The rig's camera takes the path of any camera. With the allow-list of the rig's environment, and a
  resolver that answers an address with itself, the camera is created: its two addresses on the
  loopback interface pass the egress guard and are stored encrypted, both demo rules are accepted, and
  the engine a camera thread builds from them has the two rules. Running it again finds the camera
  and changes nothing. Without the allow-list the guard answers 400 and nothing is stored.
\<close>

theorem rig_camera_exact:
  assumes "dns ''127.0.0.1'' = Some [''127.0.0.1'']"
    and "list_all (\<lambda>v. cv_name v \<noteq> cam_name) (list_cameras a)"
    and "ae_uuid env (ap_next a) \<notin> set (dict_keys (db_cameras (ap_db a)))"
  shows "(if se_ssrf_allowlist st = ''127.0.0.0/8''
    then (case register_camera env st dns 8554 source user rq a of
        (Inl err, _) \<Rightarrow> False
      | (Inr cid, a') \<Rightarrow> cid = ae_uuid env (ap_next a) \<and>
          register_camera env st dns 8554 source user' rq' a' = (Inr cid, a') \<and>
          (\<exists>c e. dict_get (db_cameras (ap_db a')) cid = Some c \<and>
             ca_stream_enc c = Some (ae_encrypt env (rtsp_address 8554 ''cctv_main'')) \<and>
             ca_substream_enc c = Some (ae_encrypt env (rtsp_address 8554 ''cctv_sub'')) \<and>
             camera_engine (st\<lparr>se_ai_rules := True\<rparr>) cid c = Inr (Some e) \<and> length (en_rules e) = 2))
    else if se_ssrf_allowlist st = [] then register_camera env st dns 8554 source user rq a = (Inl (Http 400), a)
    else True)"
proof (cases "se_ssrf_allowlist st = ''127.0.0.0/8''")
  case True
  define cid where "cid = ae_uuid env (ap_next a)"
  define row where "row = rig_row env source (rq_now rq)"
  define row2 where "row2 = row\<lparr>ca_rules := Some (JList (map JObj rig_rules))\<rparr>"
  have fresh: "find (\<lambda>v. cv_name v = cam_name) (list_cameras a) = None"
    using assms(2) by (simp add: find_None_iff list_all_iff)
  obtain a1 where c: "create_camera env st dns (rig_body 8554 source) user rq a = (Inr cid, a1)"
    "db_cameras (ap_db a1) = dict_set cid row (db_cameras (ap_db a))"
    using rig_created(1) [where st = st and dns = dns, OF assms(1) True, of env source user rq a] by (auto simp: cid_def row_def)
  obtain a2 where p: "put_rules env cid rig_rules user rq a1 = (Inr (JList (map JObj rig_rules)), a2)"
    "db_cameras (ap_db a2) = dict_set cid row2 (db_cameras (ap_db a1))"
    by (simp add: put_rules_def c(2) rig_rules_accepted Let_def put_camera_def row2_def)
  have r: "register_camera env st dns 8554 source user rq a = (Inr cid, a2)"
    by (simp add: register_camera_def fresh c(1) p(1))
  have new: "dict_set cid row (db_cameras (ap_db a)) = db_cameras (ap_db a) @ [(cid, row)]"
    by (rule dict_set_fresh) (use assms(3) in \<open>simp add: cid_def\<close>)
  have get: "dict_get (db_cameras (ap_db a2)) cid = Some row2" by (simp add: p(2))
  have nm: "ca_name row2 = cam_name" by (simp add: row2_def row_def rig_row_def)
  have "db_cameras (ap_db a2) = db_cameras (ap_db a) @ [(cid, row2)]"
    unfolding p(2) c(2) new using assms(3) by (simp add: dict_set_last cid_def)
  then have "list_cameras a2 = list_cameras a @ [view_camera cid row2]" by (simp add: list_cameras_def)
  then have "find (\<lambda>v. cv_name v = cam_name) (list_cameras a2) = Some (view_camera cid row2)"
    using fresh find_last [of _ "list_cameras a"] by (simp add: view_camera_def nm)
  then have again: "register_camera env st dns 8554 source user' rq' a2 = (Inr cid, a2)"
    by (simp add: register_camera_def view_camera_def)
  obtain e where e: "camera_engine (st\<lparr>se_ai_rules := True\<rparr>) cid row2 = Inr (Some e)" "length (en_rules e) = 2"
    using accepted_engine [OF rig_rules_accepted [of cid], of st row] by (auto simp: row2_def rig_rules_def)
  have "ca_stream_enc row2 = Some (ae_encrypt env (rtsp_address 8554 ''cctv_main''))"
    "ca_substream_enc row2 = Some (ae_encrypt env (rtsp_address 8554 ''cctv_sub''))"
    by (simp_all add: row2_def row_def rig_row_def)
  then show ?thesis using True r again get e by (auto simp: cid_def)
next
  case False
  have fresh: "find (\<lambda>v. cv_name v = cam_name) (list_cameras a) = None"
    using assms(2) by (simp add: find_None_iff list_all_iff)
  then show ?thesis using False rig_created(2) [where dns = dns, OF assms(1)] by (simp add: register_camera_def)
qed

theorem rig_camera_exact_witness:
  "fst (register_camera desk_env (desk_settings\<lparr>se_ssrf_allowlist := ''127.0.0.0/8''\<rparr>) (\<lambda>h. Some [h]) 8554 ''synthetic'' yard_user desk_request desk_app) =
    Inr (ae_uuid desk_env (ap_next desk_app))"
  using rig_camera_exact [of "\<lambda>h. Some [h]" desk_app desk_env "desk_settings\<lparr>se_ssrf_allowlist := ''127.0.0.0/8''\<rparr>" "''synthetic''" yard_user
      desk_request yard_user desk_request]
  by (auto simp: list_cameras_def desk_app_def empty_db_def dict_keys_def split: prod.splits sum.splits)

end
