(* ===== verification/Rig_Boot.thy ===== *)
theory Rig_Boot
  imports Rig Auth_Safety
begin

text \<open>
  Booting the development rig, \<open>scripts/local_cctv_rig.py\<close>: waiting for ports and streams, the login
  that is tried again, and \<open>start\<close> as a whole over the tracked processes of \<open>Rig\<close> and the API's
  login handler. What a probe finds is a parameter, by the number of the probe.
\<close>

section \<open>Waiting\<close>

definition wait_for :: "(nat \<Rightarrow> bool) \<Rightarrow> nat \<Rightarrow> bool" where
  \<comment> \<open>what the predicate says at each poll, and the seconds: a poll every half second\<close>
  "wait_for predicate timeout = list_ex predicate [0..<2 * timeout]"

datatype probe = Got_frame | Failed nat | Timed_out | No_binary  \<comment> \<open>a failure after so many seconds\<close>

fun rtsp_ready :: "(nat \<Rightarrow> probe) \<Rightarrow> nat \<Rightarrow> int \<Rightarrow> nat \<Rightarrow> bool" where
  \<comment> \<open>probes left, seconds left and the number of the probe: a second's pause after each, and eight for one that hangs\<close>
  "rtsp_ready found 0 left k = False"
| "rtsp_ready found (Suc n) left k =
     (if left \<le> 0 then False
      else (case found k of
              Got_frame \<Rightarrow> True
            | No_binary \<Rightarrow> False
            | Failed d \<Rightarrow> rtsp_ready found n (left - int d - 1) (Suc k)
            | Timed_out \<Rightarrow> rtsp_ready found n (left - 9) (Suc k)))"

section \<open>Logging in\<close>

datatype login_reply = Access_token string | Http_error nat | Unreachable

fun rig_login :: "(nat \<Rightarrow> 's \<Rightarrow> login_reply \<times> 's) \<Rightarrow> nat \<Rightarrow> nat \<Rightarrow> 's \<Rightarrow> (py_error + string) \<times> 's" where
  \<comment> \<open>tries left, and the number of the try\<close>
  "rig_login post 0 i s = (Inl RuntimeError, s)"
| "rig_login post (Suc n) i s =
     (case post i s of
        (Access_token t, s1) \<Rightarrow> (Inr t, s1)
      | (Http_error c, s1) \<Rightarrow> if c = 429 then (Inl RuntimeError, s1) else rig_login post n (Suc i) s1
      | (Unreachable, s1) \<Rightarrow> rig_login post n (Suc i) s1)"

definition rig_credentials :: "string \<Rightarrow> login_body" where
  "rig_credentials pass = \<lparr>lb_email = ''admin@localsight.local'', lb_password = pass, lb_mfa_code = None\<rparr>"

definition login_endpoint ::
  "api_env \<Rightarrow> settings \<Rightarrow> real \<Rightarrow> login_body \<Rightarrow> request \<Rightarrow> limiter \<times> app \<Rightarrow> login_reply \<times> (limiter \<times> app)" where
  \<comment> \<open>the endpoint behind its rate limit\<close>
  "login_endpoint env st clock b rq s =
     (case s of (bks, a) \<Rightarrow>
       (case rate_limit ''login'' 1 10 clock rq bks of
          (Inl (Http c), b1) \<Rightarrow> (Http_error c, (b1, a))
        | (Inl (Crash e), b1) \<Rightarrow> (Http_error 500, (b1, a))
        | (Inr _, b1) \<Rightarrow>
            (case login env st b rq a of
               (Inr p, a1) \<Rightarrow> (Access_token (tp_access p), (b1, a1))
             | (Inl (Http c), a1) \<Rightarrow> (Http_error c, (b1, a1))
             | (Inl (Crash e), a1) \<Rightarrow> (Http_error 500, (b1, a1)))))"

definition try_request :: "request \<Rightarrow> nat \<Rightarrow> request" where
  \<comment> \<open>the tries are half a second apart\<close>
  "try_request rq i = rq\<lparr>rq_now := rq_now rq + 500000 * int i\<rparr>"

definition rig_post :: "api_env \<Rightarrow> settings \<Rightarrow> real \<Rightarrow> string \<Rightarrow> request \<Rightarrow> nat \<Rightarrow> limiter \<times> app \<Rightarrow> login_reply \<times> (limiter \<times> app)" where
  "rig_post env st clock pass rq i = login_endpoint env st (clock + of_nat i / 2) (rig_credentials pass) (try_request rq i)"

section \<open>Starting\<close>

datatype boot_end = Fatal string | Refused py_error | Not_registered http_error

record probes =
  pb_port :: "int \<Rightarrow> rig \<Rightarrow> nat \<Rightarrow> bool"
  pb_rtsp :: "rig \<Rightarrow> nat \<Rightarrow> probe"
  pb_api :: "rig \<Rightarrow> nat \<Rightarrow> bool"

definition start_broker :: "probes \<Rightarrow> int \<Rightarrow> nat option \<Rightarrow> rig \<Rightarrow> (boot_end + unit) \<times> rig" where
  "start_broker pb port takes w =
     (case is_running ''mediamtx'' w of
        (True, w1) \<Rightarrow> (Inr (), w1)
      | (False, w1) \<Rightarrow>
          if pb_port pb port w1 0 then (Inr (), w1)
          else (let (pid, w2) = spawn ''mediamtx'' takes w1
                in if wait_for (pb_port pb port w2) 15 then (Inr (), w2) else (Inl (Fatal ''mediamtx failed to open the RTSP port''), w2)))"

definition start_capture :: "probes \<Rightarrow> nat option \<Rightarrow> rig \<Rightarrow> (boot_end + unit) \<times> rig" where
  "start_capture pb takes w =
     (case is_running ''capture'' w of
        (True, w1) \<Rightarrow> (Inr (), w1)
      | (False, w1) \<Rightarrow>
          (let (pid, w2) = spawn ''capture'' takes w1
           in if rtsp_ready (pb_rtsp pb w2) 20 20 0 then (Inr (), w2) else (Inl (Fatal ''capture did not publish within 20 s''), w2)))"

definition start_api :: "probes \<Rightarrow> int \<Rightarrow> nat option \<Rightarrow> rig \<Rightarrow> (boot_end + unit) \<times> rig" where
  "start_api pb port takes w =
     (case is_running ''api'' w of
        (True, w1) \<Rightarrow> (Inr (), w1)
      | (False, w1) \<Rightarrow>
          if pb_port pb port w1 0 then (Inl (Fatal ''port in use by a process the rig does not track''), w1)
          else (let (pid, w2) = spawn ''api'' takes w1
                in if wait_for (pb_api pb w2) 30 then (Inr (), w2) else (Inl (Fatal ''API did not come up''), w2)))"

definition restart_capture :: "probes \<Rightarrow> rig \<Rightarrow> rig" where
  \<comment> \<open>a capture that is alive and does not publish is stopped\<close>
  "restart_capture pb w =
     (case is_running ''capture'' w of
        (False, w1) \<Rightarrow> w1
      | (True, w1) \<Rightarrow> if rtsp_ready (pb_rtsp pb w1) 5 5 0 then w1 else snd (stop_named ''capture'' w1))"

fun boot_then :: "(boot_end + unit) \<times> rig \<Rightarrow> (rig \<Rightarrow> (boot_end + 'a) \<times> rig) \<Rightarrow> (boot_end + 'a) \<times> rig" where
  "boot_then (Inl e, w) f = (Inl e, w)"
| "boot_then (Inr _, w) f = f w"

definition cmd_start ::
  "probes \<Rightarrow> int \<Rightarrow> int \<Rightarrow> (string \<Rightarrow> nat option) \<Rightarrow> (rig \<Rightarrow> py_error + string) \<Rightarrow> (rig \<Rightarrow> string \<Rightarrow> http_error + string) \<Rightarrow> rig
   \<Rightarrow> (boot_end + string) \<times> rig" where
  \<comment> \<open>the two ports, how each process takes a signal, the login and the registration with its token: the camera's id\<close>
  "cmd_start pb rtsp_port api_port takes sign_in enrol w =
     boot_then (start_broker pb rtsp_port (takes ''mediamtx'') w) (\<lambda>w1.
     boot_then (start_capture pb (takes ''capture'') (restart_capture pb w1)) (\<lambda>w2.
     boot_then (start_api pb api_port (takes ''api'') w2) (\<lambda>w3.
       (case sign_in w3 of
          Inl err \<Rightarrow> (Inl (Refused err), w3)
        | Inr token \<Rightarrow>
            (case enrol w3 token of
               Inl err \<Rightarrow> (Inl (Not_registered err), w3)
             | Inr cid \<Rightarrow> (Inr cid, start_tracked ''worker'' (takes ''worker'') w3))))))"

text \<open>As many probes as seconds are enough: the seconds run out first.\<close>

lemma rtsp_ready_fuel: "nat left \<le> n \<Longrightarrow> rtsp_ready found (n + m) left k = rtsp_ready found n left k"
proof (induction n arbitrary: left k)
  case 0
  then show ?case by (cases m) simp_all
next
  case (Suc n)
  then show ?case by (auto split: probe.split intro!: Suc.IH)
qed

section \<open>What a wrong password does\<close>

definition client_of :: "request \<Rightarrow> string" where
  \<comment> \<open>the key of the rate limit\<close>
  "client_of rq = (case rq_client rq of None \<Rightarrow> ''unknown''
     | Some h \<Rightarrow> let f = strip (hd (split_on CHR '','' (rq_forwarded rq))) in if f \<noteq> [] then f else h)"

lemma rate_limit_eq:
  "rate_limit b r c clock (try_request rq i) bks =
     (if fst (allow clock (client_of rq) b r c bks) then Inr () else Inl (Http 429), snd (allow clock (client_of rq) b r c bks))"
  by (simp add: rate_limit_def try_request_def client_of_def Let_def case_prod_unfold split: option.split)

definition bucket_after :: "string \<Rightarrow> real \<Rightarrow> nat \<Rightarrow> limiter \<Rightarrow> bool" where
  \<comment> \<open>the bucket after so many tries\<close>
  "bucket_after ip clock i bks \<longleftrightarrow>
     dict_get bks (ip, ''login'') = (if i = 0 then None else Some (9 - of_nat (i - 1) / 2, clock + of_nat (i - 1) / 2))"

lemma bucket_step:
  assumes "bucket_after ip clock i bks"
  shows "fst (allow (clock + of_nat i / 2) ip ''login'' 1 10 bks) \<longleftrightarrow> i \<le> 18"
    "i \<le> 18 \<Longrightarrow> bucket_after ip clock (Suc i) (snd (allow (clock + of_nat i / 2) ip ''login'' 1 10 bks))"
proof -
  have both: "(fst (allow (clock + of_nat i / 2) ip ''login'' 1 10 bks) \<longleftrightarrow> i \<le> 18) \<and>
    (i \<le> 18 \<longrightarrow> bucket_after ip clock (Suc i) (snd (allow (clock + of_nat i / 2) ip ''login'' 1 10 bks)))"
  proof (cases i)
    case 0
    then show ?thesis using assms by (simp add: bucket_after_def allow_def)
  next
    case (Suc j)
    have "min 10 (9 - of_nat j / 2 + (clock + of_nat i / 2 - (clock + of_nat j / 2)) * 1) = (9 - of_nat j / 2 + 1/2 :: real)"
      by (simp add: Suc add_divide_distrib)
    moreover have "9 - of_nat j / 2 + 1/2 < (1 :: real) \<longleftrightarrow> \<not> i \<le> 18" by (simp add: Suc) linarith
    ultimately show ?thesis
      using assms by (simp add: bucket_after_def allow_def Suc Let_def add_divide_distrib)
  qed
  then show "fst (allow (clock + of_nat i / 2) ip ''login'' 1 10 bks) \<longleftrightarrow> i \<le> 18"
    "i \<le> 18 \<Longrightarrow> bucket_after ip clock (Suc i) (snd (allow (clock + of_nat i / 2) ip ''login'' 1 10 bks))" by blast+
qed

definition locks_at :: "settings \<Rightarrow> request \<Rightarrow> timestamp" where
  \<comment> \<open>counted from the fifth try\<close>
  "locks_at st rq = rq_now rq + 2000000 + se_lockout_minutes st * 60 * 1000000"

definition guessed :: "settings \<Rightarrow> request \<Rightarrow> string \<Rightarrow> string \<Rightarrow> nat \<Rightarrow> app \<Rightarrow> bool" where
  \<comment> \<open>the account of that id and hash after so many wrong tries\<close>
  "guessed st rq uid hashed i a \<longleftrightarrow> dict_ok (db_users (ap_db a)) \<and>
     (\<exists>v. account ''admin@localsight.local'' a = Some (uid, v) \<and> us_password_hash v = hashed \<and>
       (if i < 5 then us_failed_logins v = int i \<and> us_locked_until v = None else us_locked_until v = Some (locks_at st rq)))"

lemma guess_step:
  assumes "guessed st rq uid hashed i a" and "\<not> ae_verify env pass hashed" and "se_max_login_attempts st = 5"
    and "1 \<le> se_lockout_minutes st" and "i < 20"
  shows "\<exists>c b. login env st (rig_credentials pass) (try_request rq i) a = (Inl (Http c), b) \<and> c \<in> {401, 423} \<and> guessed st rq uid hashed (Suc i) b"
proof -
  obtain v where v: "account ''admin@localsight.local'' a = Some (uid, v)" "us_password_hash v = hashed" "dict_ok (db_users (ap_db a))"
    "if i < 5 then us_failed_logins v = int i \<and> us_locked_until v = None else us_locked_until v = Some (locks_at st rq)"
    using assms(1) by (auto simp: guessed_def)
  have k: "knocks env ''admin@localsight.local'' (us_password_hash v) (rig_credentials pass, try_request rq i)"
    using assms(2) v(2) by (simp add: knocks_def rig_credentials_def)
  show ?thesis
  proof (cases "i < 5")
    case True
    then have l: "us_locked_until v = None" using v(4) by simp
    let ?n = "note_failure st (rq_now (try_request rq i)) v"
    from bad_attempt [OF v(1,3) k l, of st] obtain b where b: "login env st (rig_credentials pass) (try_request rq i) a = (Inl (Http 401), b)"
      "account ''admin@localsight.local'' b = Some (uid, ?n)" "dict_ok (db_users (ap_db b))"
      by (cases "login env st (rig_credentials pass) (try_request rq i) a") (auto simp: attempt_def)
    have "i = 4" if "\<not> Suc i < 5" using that True by simp
    then have "guessed st rq uid hashed (Suc i) b"
      using b(2,3) v(2,4) True assms(3) by (auto simp: guessed_def note_failure_def Let_def locks_at_def try_request_def)
    with b(1) show ?thesis by blast
  next
    case False
    then have l: "us_locked_until v = Some (locks_at st rq)" using v(4) by simp
    have "rq_now (try_request rq i) < locks_at st rq" using assms(4,5) by (simp add: try_request_def locks_at_def)
    then have "login env st (rig_credentials pass) (try_request rq i) a =
        (Inl (Http 423), failed_audit env (try_request rq i) None ''admin@localsight.local'' ''login'' ''locked'' a)"
      using v(1) l by (simp add: login_def rig_credentials_def)
    moreover have "guessed st rq uid hashed (Suc i) (failed_audit env (try_request rq i) None ''admin@localsight.local'' ''login'' ''locked'' a)"
      using v l False by (simp add: guessed_def)
    ultimately show ?thesis by blast
  qed
qed

lemma rig_post_step:
  assumes "guessed st rq uid hashed i a" and "\<not> ae_verify env pass hashed" and "se_max_login_attempts st = 5"
    and "1 \<le> se_lockout_minutes st" and "bucket_after (client_of rq) clock i bks" and "i < 20"
  shows "(if i \<le> 18 then \<exists>c b1 b. rig_post env st clock pass rq i (bks, a) = (Http_error c, (b1, b)) \<and> c \<noteq> 429 \<and>
      guessed st rq uid hashed (Suc i) b \<and> bucket_after (client_of rq) clock (Suc i) b1
    else \<exists>b1. rig_post env st clock pass rq i (bks, a) = (Http_error 429, (b1, a)))"
proof (cases "i \<le> 18")
  case True
  obtain c b where "login env st (rig_credentials pass) (try_request rq i) a = (Inl (Http c), b)" "c \<in> {401, 423}" "guessed st rq uid hashed (Suc i) b"
    using guess_step [OF assms(1-4,6)] by blast
  then show ?thesis using True bucket_step [OF assms(5)]
    by (auto simp: rig_post_def login_endpoint_def rate_limit_eq)
next
  case False
  then show ?thesis using bucket_step(1) [OF assms(5)] by (simp add: rig_post_def login_endpoint_def rate_limit_eq)
qed

lemma rig_login_fails:
  assumes "\<not> ae_verify env pass hashed" and "se_max_login_attempts st = 5" and "1 \<le> se_lockout_minutes st"
    and "guessed st rq uid hashed i a" and "bucket_after (client_of rq) clock i bks" and "i + n = 20"
  shows "\<exists>b1 b. rig_login (rig_post env st clock pass rq) n i (bks, a) = (Inl RuntimeError, (b1, b)) \<and> guessed st rq uid hashed 20 b"
  using assms(4-6)
proof (induction n arbitrary: i a bks)
  case (Suc n)
  then have i: "i < 20" by simp
  note step = rig_post_step [OF Suc.prems(1) assms(1-3) Suc.prems(2) i]
  show ?case
  proof (cases "i \<le> 18")
    case True
    with step obtain c b1 b where r: "rig_post env st clock pass rq i (bks, a) = (Http_error c, (b1, b))" "c \<noteq> 429"
      "guessed st rq uid hashed (Suc i) b" "bucket_after (client_of rq) clock (Suc i) b1" by auto
    show ?thesis using Suc.IH [OF r(3,4)] Suc.prems(3) r(1,2) by simp
  next
    case False
    with step obtain b1 where r: "rig_post env st clock pass rq i (bks, a) = (Http_error 429, (b1, a))" by auto
    have "guessed st rq uid hashed 20 a" using Suc.prems(1) False by (simp add: guessed_def)
    with r show ?thesis by simp
  qed
qed simp

text \<open>
  C35. Booting the rig with a password that is not the administrator's does not merely fail: the tries go on until
  the rate limit, the fifth has locked the account, and until that lock has
  passed every login, with the right password as well, is refused.
\<close>

theorem rig_login_locks:
  assumes "account ''admin@localsight.local'' a = Some (uid, u)" and "dict_ok (db_users (ap_db a))"
    and "us_failed_logins u = 0" and "us_locked_until u = None" and "\<not> ae_verify env pass (us_password_hash u)"
    and "se_max_login_attempts st = 5" and "1 \<le> se_lockout_minutes st" and "dict_get bks (client_of rq, ''login'') = None"
    and "rq_now later < rq_now rq + 2000000 + se_lockout_minutes st * 60 * 1000000"
  shows "\<exists>b1 b. rig_login (rig_post env st clock pass rq) 20 0 (bks, a) = (Inl RuntimeError, (b1, b)) \<and>
    fst (login env st (rig_credentials right) later b) = Inl (Http 423)"
proof -
  have "guessed st rq uid (us_password_hash u) 0 a" using assms(1-4) by (simp add: guessed_def)
  moreover have "bucket_after (client_of rq) clock 0 bks" using assms(8) by (simp add: bucket_after_def)
  ultimately obtain b1 b where r: "rig_login (rig_post env st clock pass rq) 20 0 (bks, a) = (Inl RuntimeError, (b1, b))"
    "guessed st rq uid (us_password_hash u) 20 b" using rig_login_fails [OF assms(5-7), of rq uid 0 a clock bks 20] by auto
  then obtain v where "account ''admin@localsight.local'' b = Some (uid, v)" "us_locked_until v = Some (locks_at st rq)"
    by (auto simp: guessed_def)
  then have "fst (login env st (rig_credentials right) later b) = Inl (Http 423)"
    using assms(9) by (simp add: login_def rig_credentials_def locks_at_def)
  with r(1) show ?thesis by blast
qed

lemma rig_login_locks_witness:
  "\<exists>b1 b. rig_login (rig_post desk_env desk_settings 0 ''no'' desk_request) 20 0
      ([], \<lparr>ap_db = empty_db\<lparr>db_users := [(''u'', desk_user\<lparr>us_email := ''admin@localsight.local''\<rparr>)]\<rparr>, ap_next = 0\<rparr>) = (Inl RuntimeError, (b1, b)) \<and>
    fst (login desk_env desk_settings (rig_credentials ''pw'') (desk_request\<lparr>rq_now := 60000000\<rparr>) b) = Inl (Http 423)"
  by (rule rig_login_locks [where uid = "''u''" and u = "desk_user\<lparr>us_email := ''admin@localsight.local''\<rparr>"])
    (simp_all add: find_row_def dict_ok_def dict_keys_def desk_user_def desk_settings_def default_settings_def desk_request_def)

section \<open>What a start leaves running\<close>

definition running :: "string \<Rightarrow> rig \<Rightarrow> bool" where
  "running n w \<longleftrightarrow> (\<exists>pid. read_pid n w = Some pid \<and> alive pid w)"

lemma is_running_yes: "is_running n w = (True, w1) \<Longrightarrow> w1 = w \<and> running n w"
  by (auto simp: is_running_def running_def split: option.splits if_splits)

lemma is_running_no: "is_running n w = (False, w1) \<Longrightarrow> running m w \<Longrightarrow> running m w1"
  by (auto simp: is_running_def running_def read_pid_def alive_def split: option.splits if_splits)

lemma spawn_running: "spawn n takes w = (pid, w1) \<Longrightarrow> running n w1 \<and> (running m w \<longrightarrow> running m w1)"
  by (cases "m = n") (auto simp: spawn_def running_def read_pid_def alive_def Let_def split: option.splits)

lemma start_capture_running: "start_capture pb t w = (Inr u, w1) \<Longrightarrow> running ''capture'' w1"
  by (auto simp: start_capture_def Let_def split: prod.splits bool.splits if_splits dest: is_running_yes spawn_running)

lemma start_api_running: "start_api pb p t w = (Inr u, w1) \<Longrightarrow> running ''api'' w1 \<and> (running m w \<longrightarrow> running m w1)"
  by (auto simp: start_api_def Let_def split: prod.splits bool.splits if_splits dest: is_running_yes is_running_no spawn_running)

lemma start_tracked_running: "running n (start_tracked n t w) \<and> (running m w \<longrightarrow> running m (start_tracked n t w))"
proof -
  obtain b w1 where i: "is_running n w = (b, w1)" by fastforce
  obtain pid w2 where "spawn n t w1 = (pid, w2)" by fastforce
  with i show ?thesis by (cases b) (auto simp: start_tracked_def dest: is_running_yes is_running_no spawn_running)
qed

lemma cmd_start_running:
  assumes "cmd_start pb rp ap takes sign_in enrol w = (Inr cid, w4)"
  shows "running ''capture'' w4 \<and> running ''api'' w4 \<and> running ''worker'' w4"
proof -
  obtain r1 w1 where b: "start_broker pb rp (takes ''mediamtx'') w = (r1, w1)" by fastforce
  obtain r2 w2 where c: "start_capture pb (takes ''capture'') (restart_capture pb w1) = (r2, w2)" by fastforce
  obtain r3 w3 where a: "start_api pb ap (takes ''api'') w2 = (r3, w3)" by fastforce
  have ok: "r2 = Inr ()" "r3 = Inr ()" "w4 = start_tracked ''worker'' (takes ''worker'') w3"
    using assms by (cases r1; cases r2; cases r3; auto simp: cmd_start_def b c a split: sum.splits)+
  show ?thesis using start_capture_running [OF c [unfolded ok]] start_api_running [OF a [unfolded ok]] start_tracked_running ok(3) by blast
qed

end
