(* ===== verification/Otp.thy ===== *)
theory Otp
  imports Auth_Examples Storage
begin

text \<open>
  The rest of \<open>packages/security/mfa.py\<close>: the secret as a Base32 text and the address an authenticator
  reads it from, and how they meet the enrolment handlers of \<open>apps/api/routers/auth.py\<close>. The random
  bytes and HMAC-SHA1 are parameters.
\<close>

section \<open>Base32\<close>

definition byte_bits :: "8 word \<Rightarrow> bool list" where
  \<comment> \<open>most significant first\<close>
  "byte_bits w = map (bit w) (rev [0..<8])"

definition bits_nat :: "bool list \<Rightarrow> nat" where
  "bits_nat bs = foldl (\<lambda>n b. 2 * n + (if b then 1 else 0)) 0 bs"

function chunks :: "nat \<Rightarrow> 'a list \<Rightarrow> 'a list list" where
  "chunks k xs = (if k = 0 \<or> xs = [] then [] else take k xs # chunks k (drop k xs))"
  by pat_completeness auto
termination by (relation "measure (length \<circ> snd)") auto

declare chunks.simps [simp del]

definition b32_alphabet :: string where
  "b32_alphabet = ''ABCDEFGHIJKLMNOPQRSTUVWXYZ234567''"

definition b32encode :: "bytes \<Rightarrow> string" where
  "b32encode bs =
     (let bits = concat (map byte_bits bs);
          cs = map (\<lambda>g. b32_alphabet ! bits_nat g) (chunks 5 (bits @ replicate ((5 - length bits mod 5) mod 5) False))
      in cs @ replicate ((8 - length cs mod 8) mod 8) CHR ''='')"

definition b32_value :: "char \<Rightarrow> nat option" where
  "b32_value c =
     (let n = of_char c in
      if 65 \<le> n \<and> n \<le> 90 then Some (n - 65) else if 50 \<le> n \<and> n \<le> 55 then Some (n - 24) else None)"

definition value_bits :: "nat \<Rightarrow> bool list" where
  "value_bits v = map (\<lambda>i. odd (v div 2 ^ i)) (rev [0..<5])"

definition rstrip_pad :: "string \<Rightarrow> string" where
  "rstrip_pad s = rev (dropWhile (\<lambda>c. c = CHR ''='') (rev s))"

definition b32decode :: "string \<Rightarrow> py_error + bytes" where
  \<comment> \<open>a character outside the alphabet, lower case included, or a padding that cannot be raises a \<open>ValueError\<close>\<close>
  "b32decode s =
     (let body = rstrip_pad s; vs = map b32_value body in
      if length s mod 8 \<noteq> 0 \<or> None \<in> set vs \<or> length s - length body \<notin> {0, 1, 3, 4, 6} then Inl ValueError
      else Inr (map (\<lambda>g. of_nat (bits_nat g)) (filter (\<lambda>g. length g = 8) (chunks 8 (concat (map (value_bits \<circ> the) vs))))))"

section \<open>Secrets\<close>

definition generate_secret :: "bytes \<Rightarrow> string" where
  \<comment> \<open>of twenty random bytes\<close>
  "generate_secret random = rstrip_pad (b32encode random)"

definition int_to_b32 :: "string \<Rightarrow> py_error + bytes" where
  "int_to_b32 secret = b32decode (secret @ replicate ((8 - length secret mod 8) mod 8) CHR ''='')"

definition url_quote :: "string \<Rightarrow> string" where
  \<comment> \<open>\<open>urllib.parse.quote(s)\<close>: a slash stays\<close>
  "url_quote s = concat (map (\<lambda>c. if c = CHR ''/'' then [c] else quote_all [c]) s)"

definition provisioning_uri :: "string \<Rightarrow> string \<Rightarrow> string \<Rightarrow> string" where
  "provisioning_uri secret who issuer =
     ''otpauth://totp/'' @ url_quote (issuer @ '':'' @ who) @ ''?secret='' @ secret @ ''&issuer='' @ url_quote issuer @
     ''&period='' @ str_nat step_const @ ''&digits='' @ str_nat digits_const"

definition secret_hmac :: "(bytes \<Rightarrow> 64 word \<Rightarrow> bytes) \<Rightarrow> string \<Rightarrow> 64 word \<Rightarrow> bytes" where
  \<comment> \<open>HMAC under the bytes a secret stands for\<close>
  "secret_hmac hmac secret c = (case int_to_b32 secret of Inl err \<Rightarrow> [] | Inr k \<Rightarrow> hmac k c)"

definition uri_secret :: "string \<Rightarrow> string" where
  \<comment> \<open>the first parameter, as an authenticator reads it\<close>
  "uri_secret uri = takeWhile (\<lambda>c. c \<noteq> CHR ''&'') (drop (length ''?secret='') (dropWhile (\<lambda>c. c \<noteq> CHR ''?'') uri))"

section \<open>Round trip\<close>

lemma bits_nat_of: "bits_nat (map f (rev [0..<n])) = (\<Sum>i<n. if f i then 2 ^ i else 0)"
proof -
  have gen: "foldl (\<lambda>n b. 2 * n + (if b then 1 else 0)) k (map f (rev [0..<n])) = k * 2 ^ n + (\<Sum>i<n. if f i then 2 ^ i else 0)" for k :: nat
    by (induction n arbitrary: k) (auto simp: algebra_simps)
  show ?thesis by (simp add: bits_nat_def gen)
qed

lemma byte_bits_round: "of_nat (bits_nat (byte_bits w)) = w"
proof -
  have "(of_nat (\<Sum>i<8. if bit w i then 2 ^ i else 0) :: 8 word) = horner_sum of_bool 2 (map (bit w) [0..<8])"
    by (simp add: horner_sum_eq_sum lessThan_atLeast0 if_distrib [where f = of_nat] of_bool_def cong: if_cong) 
      (rule sum.cong, auto simp: push_bit_eq_mult)
  also have "\<dots> = w" by (simp only: horner_sum_bit_eq_take_bit) (simp add: take_bit_length_eq [where 'a = 8, simplified])
  finally show ?thesis by (simp add: byte_bits_def bits_nat_of)
qed

lemma value_bits_round: "length bs = 5 \<Longrightarrow> value_bits (bits_nat bs) = bs"
proof -
  have "list_all (\<lambda>bs. value_bits (bits_nat bs) = bs) (List.n_lists 5 [False, True])" by code_simp
  moreover assume "length bs = 5"
  ultimately show ?thesis by (auto simp: list_all_iff set_n_lists)
qed

lemma bits_nat_bound: "bits_nat bs < 2 ^ length bs"
proof -
  have "foldl (\<lambda>n b. 2 * n + (if b then 1 else 0)) k bs < (k + 1) * 2 ^ length bs" for k :: nat
  proof (induction bs arbitrary: k)
    case (Cons b bs)
    have "(2 * k + (if b then 1 else 0) + 1) * 2 ^ length bs \<le> (k + 1) * 2 ^ length (b # bs)" by simp
    with Cons.IH [of "2 * k + (if b then 1 else 0)"] show ?case unfolding foldl_Cons by (rule order_less_le_trans)
  qed simp
  from this [of 0] show ?thesis by (simp add: bits_nat_def)
qed

lemma alphabet_value: "n < 32 \<Longrightarrow> b32_value (b32_alphabet ! n) = Some n"
proof -
  assume n: "n < 32"
  have "map b32_value b32_alphabet = map Some [0..<32]"
    by (simp add: b32_alphabet_def b32_value_def Let_def upt_conv_Cons)
  then have "map b32_value b32_alphabet ! n = map Some [0..<32] ! n" by simp
  moreover have "length b32_alphabet = 32" by (simp add: b32_alphabet_def)
  ultimately show ?thesis using n by simp
qed

lemma pad_up: "(0 :: nat) < k \<Longrightarrow> k dvd m + (k - m mod k) mod k"
proof (cases "m mod k = 0")
  case False
  moreover assume "0 < k"
  moreover have "m + (k - m mod k) = k * (m div k + 1)"
    using mult_div_mod_eq [of k m] mod_less_divisor [OF \<open>0 < k\<close>, of m] by (simp only: distrib_left mult_1_right)
  ultimately show ?thesis by simp
qed auto

lemma chunks_Nil [simp]: "chunks k [] = []"
  by (subst chunks.simps) simp

lemma chunks_append: "length g = k \<Longrightarrow> 0 < k \<Longrightarrow> chunks k (g @ r) = g # chunks k r"
  by (subst chunks.simps) auto

lemma chunks_short: "xs \<noteq> [] \<Longrightarrow> length xs < k \<Longrightarrow> chunks k xs = [xs]"
  by (subst chunks.simps) auto

lemma chunks_even:
  "length xs = k * n \<Longrightarrow> 0 < k \<Longrightarrow> concat (chunks k xs) = xs \<and> (\<forall>g \<in> set (chunks k xs). length g = k) \<and> length (chunks k xs) = n"
proof (induction n arbitrary: xs)
  case (Suc n)
  then have c: "chunks k xs = take k xs # chunks k (drop k xs)"
    using chunks_append [of "take k xs" k "drop k xs"] by simp
  show ?case using Suc.IH [of "drop k xs"] Suc.prems unfolding c by auto
qed simp

lemma chunks_full:
  assumes "\<forall>g \<in> set gs. length g = k" and "length r < k"
  shows "filter (\<lambda>g. length g = k) (chunks k (concat gs @ r)) = gs"
  using assms(1)
proof (induction gs)
  case Nil
  then show ?case using assms(2) chunks_short [of r k] by (cases "r = []") auto
next
  case (Cons g gs)
  moreover have "0 < k" using assms(2) by simp
  ultimately show ?case using chunks_append [of g k "concat gs @ r"] by auto
qed

lemma rstrip_pad_append: "CHR ''='' \<notin> set cs \<Longrightarrow> rstrip_pad (cs @ replicate n CHR ''='') = cs"
proof -
  assume a: "CHR ''='' \<notin> set cs"
  have "dropWhile (\<lambda>c. c = CHR ''='') (replicate n CHR ''='' @ t) = dropWhile (\<lambda>c. c = CHR ''='') t" for t
    by (induction n) simp_all
  moreover have "dropWhile (\<lambda>c. c = CHR ''='') (rev cs) = rev cs"
    using a by (cases "rev cs") (auto dest: arg_cong [of _ _ set])
  ultimately show ?thesis by (simp add: rstrip_pad_def)
qed

text \<open>The characters of an encoding, before the padding.\<close>

definition b32_chars :: "bytes \<Rightarrow> string" where
  "b32_chars bs =
     (let bits = concat (map byte_bits bs)
      in map (\<lambda>g. b32_alphabet ! bits_nat g) (chunks 5 (bits @ replicate ((5 - length bits mod 5) mod 5) False)))"

lemma b32encode_chars: "b32encode bs = b32_chars bs @ replicate ((8 - length (b32_chars bs) mod 8) mod 8) CHR ''=''"
  by (simp add: b32encode_def b32_chars_def Let_def)

lemma bytes_length: "length (concat (map byte_bits bs)) = 8 * length bs"
  by (induction bs) (simp_all add: byte_bits_def)

lemma b32_chars_exact:
  obtains gs j where "b32_chars bs = map (\<lambda>g. b32_alphabet ! bits_nat g) gs" and "\<forall>g \<in> set gs. length g = 5"
    and "concat gs = concat (map byte_bits bs) @ replicate j False" and "j < 5" and "5 * length gs = 8 * length bs + j"
proof -
  let ?bits = "concat (map byte_bits bs)"
  define j where "j = (5 - length ?bits mod 5) mod 5"
  have "5 dvd 8 * length bs + j" unfolding j_def bytes_length by (rule pad_up) simp
  then obtain n where n: "8 * length bs + j = 5 * n" by blast
  then have "length (?bits @ replicate j False) = 5 * n" by (simp add: bytes_length del: length_concat)
  note c = chunks_even [OF this, simplified]
  show ?thesis
  proof (rule that)
    show "b32_chars bs = map (\<lambda>g. b32_alphabet ! bits_nat g) (chunks 5 (?bits @ replicate j False))"
      by (simp only: b32_chars_def Let_def j_def)
    show "concat (chunks 5 (?bits @ replicate j False)) = ?bits @ replicate j False"
      "\<forall>g \<in> set (chunks 5 (?bits @ replicate j False)). length g = 5" using c by blast+
    show "j < 5" unfolding j_def by simp
    show "5 * length (chunks 5 (?bits @ replicate j False)) = 8 * length bs + j" using c n by argo
  qed
qed

lemma b32_groups: "5 * m = 8 * n + j \<Longrightarrow> j < 5 \<Longrightarrow> m mod 8 \<in> {0, 2, 4, 5, 7 :: nat}"
proof -
  assume a: "5 * m = 8 * n + j" "j < 5"
  then have "5 * (m mod 8) mod 8 < 5" by (simp add: mod_mult_right_eq)
  moreover have "m mod 8 \<in> {0, 1, 2, 3, 4, 5, 6, 7}" using mod_less_divisor [of 8 m] by auto
  ultimately show ?thesis by auto
qed

lemma b32_chars_ok: "c \<in> set (b32_chars bs) \<Longrightarrow> b32_value c \<noteq> None"
proof -
  obtain gs where h: "b32_chars bs = map (\<lambda>g. b32_alphabet ! bits_nat g) gs" "\<forall>g \<in> set gs. length g = 5" by (rule b32_chars_exact [of bs])
  assume "c \<in> set (b32_chars bs)"
  with h obtain g where "c = b32_alphabet ! bits_nat g" "length g = 5" by auto
  then show ?thesis using bits_nat_bound [of g] alphabet_value by simp
qed

lemma b32_chars_plain: "CHR ''='' \<notin> set (b32_chars bs)" "CHR ''&'' \<notin> set (b32_chars bs)"
  using b32_chars_ok [of "CHR ''=''" bs] b32_chars_ok [of "CHR ''&''" bs] by (auto simp: b32_value_def)

lemma b32_round: "b32decode (b32_chars bs @ replicate ((8 - length (b32_chars bs) mod 8) mod 8) CHR ''='') = Inr bs"
proof -
  obtain gs j where h: "b32_chars bs = map (\<lambda>g. b32_alphabet ! bits_nat g) gs" "\<forall>g \<in> set gs. length g = 5"
    "concat gs = concat (map byte_bits bs) @ replicate j False" "j < 5" "5 * length gs = 8 * length bs + j" by (rule b32_chars_exact [of bs])
  have small: "bits_nat g < 32" if "g \<in> set gs" for g using that h(2) bits_nat_bound [of g] by simp
  have vs: "map b32_value (b32_chars bs) = map (Some \<circ> bits_nat) gs"
    using small by (simp add: h(1) alphabet_value)
  have "map (value_bits \<circ> the) (map b32_value (b32_chars bs)) = gs"
    unfolding vs using h(2) by (auto intro!: map_idI simp: value_bits_round)
  then have bits: "concat (map (value_bits \<circ> the) (map b32_value (b32_chars bs))) = concat (map byte_bits bs) @ replicate j False"
    by (simp only: h(3))
  have strip: "rstrip_pad (b32_chars bs @ replicate n CHR ''='') = b32_chars bs" for n
    by (rule rstrip_pad_append) (rule b32_chars_plain)
  have full: "filter (\<lambda>g. length g = 8) (chunks 8 (concat (map byte_bits bs) @ replicate j False)) = map byte_bits bs"
    by (rule chunks_full) (use h(4) in \<open>auto simp: byte_bits_def\<close>)
  have "length gs mod 8 \<in> {0, 2, 4, 5, 7}" using h(4,5) by (intro b32_groups)
  then have "(8 - length gs mod 8) mod 8 \<in> {0, 1, 3, 4, 6}" by auto
  moreover have "(length gs + (8 - length gs mod 8) mod 8) mod 8 = 0" by (rule dvd_imp_mod_0 [OF pad_up]) simp
  moreover have "None \<notin> set (map b32_value (b32_chars bs))" unfolding vs by auto
  moreover have "length (b32_chars bs) = length gs" by (simp only: h(1) length_map)
  ultimately have "\<not> (length (b32_chars bs @ replicate ((8 - length (b32_chars bs) mod 8) mod 8) CHR ''='') mod 8 \<noteq> 0 \<or> None \<in> set (map b32_value (b32_chars bs)) \<or>
    length (b32_chars bs @ replicate ((8 - length (b32_chars bs) mod 8) mod 8) CHR ''='') - length (b32_chars bs) \<notin> {0, 1, 3, 4, 6})"
    by (simp only: length_append length_replicate add_diff_cancel_left' not_not de_Morgan_disj HOL.simp_thms)
  then have "b32decode (b32_chars bs @ replicate ((8 - length (b32_chars bs) mod 8) mod 8) CHR ''='') =
      Inr (map (\<lambda>g. of_nat (bits_nat g)) (map byte_bits bs))"
    unfolding b32decode_def Let_def strip bits full by (simp only: if_False)
  then show ?thesis by (simp only: map_map comp_def byte_bits_round map_ident)
qed

lemma secret_round: "int_to_b32 (generate_secret bs) = Inr bs"
  unfolding int_to_b32_def generate_secret_def b32encode_chars rstrip_pad_append [OF b32_chars_plain(1)] by (rule b32_round)

lemma secret_chars: "generate_secret bs = b32_chars bs"
  unfolding generate_secret_def b32encode_chars by (rule rstrip_pad_append [OF b32_chars_plain(1)])

lemma secret_length: "length bs = 20 \<Longrightarrow> length (generate_secret bs) = 32"
  by (rule b32_chars_exact [of bs]) (simp add: secret_chars)

lemma char_code_bound: "(of_char c :: nat) < 256"
  by (metis nat_of_char_less_256)

lemma url_quote_plain: "CHR ''?'' \<notin> set (url_quote s)"
proof -
  have "list_all (\<lambda>n. hex_upper n \<noteq> CHR ''?'') [0..<16]" "\<not> unreserved CHR ''?''" by code_simp+
  then have h: "hex_upper n \<noteq> CHR ''?''" if "n < 16" for n using that by (simp add: list_all_iff)
  have u: "b < 256" if "b \<in> set (utf8 c)" for b c
    using that char_code_bound [of c] less_mult_imp_div_less [of "of_char c" 4 64] by (auto simp: utf8_def Let_def split: if_splits)
  have "CHR ''?'' \<notin> set (quote_all [c])" for c
  proof (cases "unreserved c")
    case True
    then show ?thesis using \<open>\<not> unreserved CHR ''?''\<close> by (auto simp: quote_all_def)
  next
    case False
    have "CHR ''?'' \<notin> set [CHR ''%'', hex_upper (b div 16), hex_upper (b mod 16)]" if "b \<in> set (utf8 c)" for b
      using h [of "b div 16"] h [of "b mod 16"] u [OF that] by (simp add: less_mult_imp_div_less)
    with False show ?thesis by (auto simp: quote_all_def)
  qed
  then show ?thesis by (auto simp: url_quote_def split: if_splits)
qed

lemma uri_secret_round: "uri_secret (provisioning_uri (generate_secret bs) who issuer) = generate_secret bs"
proof -
  have "dropWhile (\<lambda>c. c \<noteq> CHR ''?'') (''otpauth://totp/'' @ url_quote s @ CHR ''?'' # t) = CHR ''?'' # t" for s t
    using url_quote_plain [of s] by (auto simp: dropWhile_append2 intro!: trans [OF dropWhile_append2])
  moreover have "takeWhile (\<lambda>c. c \<noteq> CHR ''&'') (generate_secret bs @ CHR ''&'' # t) = generate_secret bs" for t
    using b32_chars_plain(2) [of bs] by (auto simp: secret_chars intro!: trans [OF takeWhile_append2])
  ultimately show ?thesis by (simp add: uri_secret_def provisioning_uri_def)
qed

section \<open>Enrolment\<close>

lemma enrolled_code:
  assumes "shown \<noteq> 0" and "totp_counter now + 1 < 2 ^ 64" and "1 \<le> totp_counter now"
    and "\<bar>totp_counter shown - totp_counter now\<bar> \<le> 1"
  shows "\<exists>code. current_code hmac bs (Some shown) now = Inr code \<and> code \<noteq> [] \<and>
    verify_code (secret_hmac hmac) (generate_secret bs) (Some code) 1 now = Inr True"
proof -
  have same: "hotp (secret_hmac hmac) (generate_secret bs) c = hotp hmac bs c" for c
    by (simp add: hotp_def secret_hmac_def secret_round)
  have cur: "current_code (secret_hmac hmac) (generate_secret bs) w t = current_code hmac bs w t" for w t
    by (simp add: current_code_def same)
  obtain code where code: "current_code hmac bs (Some shown) now = Inr code"
    "verify_code (secret_hmac hmac) (generate_secret bs) (Some code) 1 now = Inr True"
    using one_time_codes [of now 1 "secret_hmac hmac" "generate_secret bs" "[]" shown] assms unfolding cur by auto
  moreover have "code \<noteq> []" using code(2) by (auto simp: verify_code_def strip_def lstrip_def)
  ultimately show ?thesis by blast
qed

text \<open>
  C28. Enrolling a second factor works. Over a cipher that opens what it seals, the secret that
  the set-up hands out stands for the twenty random bytes in 32 characters; it is the one an authenticator
  reads from the provisioning address, whatever the account's name holds; and
  the code that the authenticator computes from those bytes, at most one step off the server's clock, is accepted and switches
  the second factor on, while the set-up has switched it off.
\<close>

theorem enrolled_codes_exact:
  assumes "length (random (ap_next a)) = 20"
    and "ae_new_secret env = (\<lambda>n. generate_secret (random n))" and "ae_hmac env = secret_hmac hmac"
    and "ae_encrypt env (generate_secret (random (ap_next a))) \<noteq> []"
    and "ae_decrypt env (ae_encrypt env (generate_secret (random (ap_next a)))) = Some (generate_secret (random (ap_next a)))"
    and "shown \<noteq> 0" and "1 \<le> totp_counter (total_seconds (rq_now rq))"
    and "totp_counter (total_seconds (rq_now rq)) + 1 < 2 ^ 64"
    and "\<bar>totp_counter shown - totp_counter (total_seconds (rq_now rq))\<bar> \<le> 1"
  shows "\<exists>secret b u1 code c. mfa_setup env (uid, u) a = (Inr secret, b) \<and> dict_get (db_users (ap_db b)) uid = Some u1 \<and>
    \<not> us_mfa_enabled u1 \<and> length secret = 32 \<and> uri_secret (provisioning_uri secret (us_email u) ''LocalSight'') = secret \<and>
    int_to_b32 secret = Inr (random (ap_next a)) \<and>
    current_code hmac (random (ap_next a)) (Some shown) (total_seconds (rq_now rq)) = Inr code \<and>
    mfa_verify env (Some code) (uid, u1) rq b = (Inr (), c) \<and>
    dict_get (db_users (ap_db c)) uid = Some (u1\<lparr>us_mfa_enabled := True\<rparr>)"
proof -
  let ?bs = "random (ap_next a)"
  let ?u1 = "u\<lparr>us_mfa_secret_enc := Some (ae_encrypt env (generate_secret ?bs)), us_mfa_enabled := False\<rparr>"
  let ?b = "put_user uid ?u1 (a\<lparr>ap_next := Suc (ap_next a)\<rparr>)"
  have handed: "mfa_setup env (uid, u) a = (Inr (generate_secret ?bs), ?b)" by (simp add: mfa_setup_def assms(2) Let_def)
  obtain code where code: "current_code hmac ?bs (Some shown) (total_seconds (rq_now rq)) = Inr code" "code \<noteq> []"
    "verify_code (secret_hmac hmac) (generate_secret ?bs) (Some code) 1 (total_seconds (rq_now rq)) = Inr True"
    using enrolled_code assms(6-9) by blast
  then have "verify_user_mfa env (rq_now rq) ?u1 code = Inr True"
    using assms(3-5) by (simp add: verify_user_mfa_def)
  then have "mfa_verify env (Some code) (uid, ?u1) rq ?b = (Inr (), put_user uid (?u1\<lparr>us_mfa_enabled := True\<rparr>) ?b)"
    using assms(4) by (simp add: mfa_verify_def)
  with handed code(1) show ?thesis
    by (intro exI [of _ "generate_secret ?bs"] exI [of _ ?b] exI [of _ ?u1] exI [of _ code]
        exI [of _ "put_user uid (?u1\<lparr>us_mfa_enabled := True\<rparr>) ?b"] conjI)
      (simp_all add: put_user_def secret_length [OF assms(1)] uri_secret_round secret_round)
qed

definition echo_bytes :: "bytes \<Rightarrow> 64 word \<Rightarrow> bytes" where
  "echo_bytes k c = replicate 20 (ucast c)"

lemma enrolled_codes_exact_witness:
  "\<exists>secret b u1 code c. mfa_setup (desk_env\<lparr>ae_hmac := secret_hmac echo_bytes, ae_new_secret := \<lambda>n. generate_secret (replicate 20 7)\<rparr>)
      (''u'', desk_user) desk_app = (Inr secret, b) \<and> length secret = 32 \<and> dict_get (db_users (ap_db b)) ''u'' = Some u1 \<and>
    mfa_verify (desk_env\<lparr>ae_hmac := secret_hmac echo_bytes, ae_new_secret := \<lambda>n. generate_secret (replicate 20 7)\<rparr>)
      (Some code) (''u'', u1) (desk_request\<lparr>rq_now := 61000000\<rparr>) b = (Inr (), c)"
proof -
  let ?env = "desk_env\<lparr>ae_hmac := secret_hmac echo_bytes, ae_new_secret := \<lambda>n. generate_secret (replicate 20 7)\<rparr>"
  have k: "totp_counter 61 = 2" "totp_counter 59 = 1" by code_simp+
  have t: "total_seconds (rq_now (desk_request\<lparr>rq_now := 61000000\<rparr>)) = 61" by (simp add: total_seconds_def)
  have l: "length (generate_secret (replicate 20 7)) = 32" by (rule secret_length) simp
  then have "generate_secret (replicate 20 7) \<noteq> []" by (metis list.size(3) zero_neq_numeral)
  then have e: "ae_encrypt ?env (generate_secret (replicate 20 7)) \<noteq> []"
    "ae_decrypt ?env (ae_encrypt ?env (generate_secret (replicate 20 7))) = Some (generate_secret (replicate 20 7))"
    by (simp_all add: desk_env_def)
  show ?thesis
    using enrolled_codes_exact [where random = "\<lambda>n. replicate 20 7" and a = desk_app and env = ?env and hmac = echo_bytes
        and shown = 59 and rq = "desk_request\<lparr>rq_now := 61000000\<rparr>" and uid = "''u''" and u = desk_user, OF _ _ _ e, unfolded t k]
    by (elim meta_impE exE) (simp_all, blast)
qed

end
