(* ===== verification/Scene.thy ===== *)
theory Scene
  imports Matching Anpr Storage
begin

text \<open>
  The reference backends that hash what they are given: the scene embedder of \<open>packages/ai/vlm.py\<close>
  and the plate reader of \<open>packages/ai/anpr.py\<close>. SHA-256 is a parameter, on bytes.
\<close>

section \<open>The scene embedder\<close>

definition scene_dimension :: nat where "scene_dimension = 128"

definition utf8_bytes :: "string \<Rightarrow> bytes" where
  "utf8_bytes s = concat (map (\<lambda>c. map of_nat (utf8 c)) s)"

definition byte_floats :: "bytes \<Rightarrow> real list" where
  "byte_floats b = map (\<lambda>x. of_nat (unat x) / 255 - 1/2) b"

partial_function (option) scene_fill :: "(bytes \<Rightarrow> bytes) \<Rightarrow> real list \<Rightarrow> bytes \<Rightarrow> real list option" where
  \<comment> \<open>the loop of \<open>_vec\<close>: \<open>None\<close> when it never ends\<close>
  "scene_fill sha256 vec buf =
     (if length vec < scene_dimension then scene_fill sha256 (vec @ byte_floats (sha256 buf)) (sha256 buf) else Some vec)"

definition scene_vec :: "(bytes \<Rightarrow> bytes) \<Rightarrow> bytes \<Rightarrow> real list option" where
  "scene_vec sha256 seed =
     (case scene_fill sha256 [] seed of
        None \<Rightarrow> None
      | Some vec \<Rightarrow>
          (let vec = take scene_dimension vec; s = sqrt (sum_list (map (\<lambda>v. v * v) vec)); norm = (if s = 0 then 1 else s)
           in Some (map (\<lambda>v. v / norm) vec)))"

definition embed_scene_text :: "(bytes \<Rightarrow> bytes) \<Rightarrow> string \<Rightarrow> real list option" where
  "embed_scene_text sha256 query = scene_vec sha256 (utf8_bytes query)"

definition embed_scene_image :: "(bytes \<Rightarrow> bytes) \<Rightarrow> bytes + string \<Rightarrow> real list option" where
  \<comment> \<open>bytes, or the text of anything else\<close>
  "embed_scene_image sha256 crop = scene_vec sha256 (case crop of Inl b \<Rightarrow> b | Inr s \<Rightarrow> utf8_bytes s)"

section \<open>The plate reader\<close>

definition hex_lower :: "nat \<Rightarrow> char" where
  "hex_lower n = (if n < 10 then digit_char n else char_of (87 + n))"

definition hexdigest :: "bytes \<Rightarrow> string" where
  "hexdigest b = concat (map (\<lambda>x. [hex_lower (unat x div 16), hex_lower (unat x mod 16)]) b)"

definition reference_plate_ocr :: "(bytes \<Rightarrow> bytes) \<Rightarrow> string \<Rightarrow> bytes option \<Rightarrow> bbox \<Rightarrow> timestamp \<Rightarrow> string option" where
  \<comment> \<open>the plate it is seeded with, for a crop that is not bytes\<close>
  "reference_plate_ocr sha256 seed crop rect ts =
     (case crop of None \<Rightarrow> Some seed
      | Some b \<Rightarrow> Some (''REF-'' @ map upper_char (take 6 (hexdigest (sha256 b)))))"

datatype py_frame = Raw_bytes bytes | Pixel_array "8 word list list list"  \<comment> \<open>rows of pixels\<close>

definition crop_vehicle :: "py_frame \<Rightarrow> bbox \<Rightarrow> py_frame" where
  \<comment> \<open>\<open>_crop_vehicle\<close> of the pipeline; the frame itself when nothing would be left\<close>
  "crop_vehicle frame box =
     (case frame of Raw_bytes b \<Rightarrow> frame
      | Pixel_array pixels \<Rightarrow>
          (case box of (x, y, bw, bh) \<Rightarrow>
            (let h = int (length pixels); w = (if pixels = [] then 0 else int (length (hd pixels)));
                 x1 = max 0 (py_trunc (x * of_int w)); y1 = max 0 (py_trunc (y * of_int h));
                 x2 = min w (py_trunc ((x + bw) * of_int w)); y2 = min h (py_trunc ((y + bh) * of_int h))
             in if x2 \<le> x1 \<or> y2 \<le> y1 then frame
                else Pixel_array (map (\<lambda>r. take (nat (x2 - x1)) (drop (nat x1) r)) (take (nat (y2 - y1)) (drop (nat y1) pixels))))))"

definition frame_bytes :: "py_frame \<Rightarrow> bytes option" where
  \<comment> \<open>what the reader hashes: an array is not bytes\<close>
  "frame_bytes frame = (case frame of Raw_bytes b \<Rightarrow> Some b | Pixel_array pixels \<Rightarrow> None)"

definition vehicle_plate :: "(bytes \<Rightarrow> bytes) \<Rightarrow> py_frame \<Rightarrow> bbox \<Rightarrow> timestamp \<Rightarrow> plate_reading option" where
  \<comment> \<open>the reader as the worker builds it, on the crop of a vehicle\<close>
  "vehicle_plate sha256 frame box ts =
     read_plate reference_plate_rect (\<lambda>crop. reference_plate_ocr sha256 ''ABC123'' (frame_bytes crop)) (crop_vehicle frame box) ts"

section \<open>What they give\<close>

lemma byte_float_nonzero: "of_nat (unat (x :: 8 word)) / 255 - 1/2 \<noteq> (0 :: real)"
proof
  assume "of_nat (unat x) / 255 - 1/2 = (0 :: real)"
  then have "of_nat (2 * unat x) = (of_nat 255 :: real)" by simp
  then have "2 * unat x = 255" by (simp only: of_nat_eq_iff)
  then have "even (255 :: nat)" by (metis dvd_triv_left)
  then show False by simp
qed

lemma scene_fill_rounds:
  assumes "\<forall>b. length (sha256 b) = 32" and "length vec = 32 * k" and "k \<le> 4"
  shows "scene_fill sha256 vec buf = Some (vec @ concat (map (\<lambda>i. byte_floats ((sha256 ^^ Suc i) buf)) [0..<4 - k]))"
  using assms(2,3)
proof (induction "4 - k" arbitrary: k vec buf)
  case 0
  then show ?case by (subst scene_fill.simps) (simp add: scene_dimension_def)
next
  case (Suc n)
  have l: "length (vec @ byte_floats (sha256 buf)) = 32 * Suc k" using Suc.prems assms(1) by (simp add: byte_floats_def)
  have "n = 4 - Suc k" "Suc k \<le> 4" using Suc.hyps(2) by simp_all
  note IH = Suc.hyps(1) [OF this(1) l this(2), of "sha256 buf"]
  have upt: "[0..<4 - k] = 0 # map Suc [0..<4 - Suc k]"
    unfolding Suc.hyps(2) [symmetric] \<open>n = 4 - Suc k\<close> [symmetric] by (simp add: map_Suc_upt upt_conv_Cons del: upt_Suc)
  have "length vec < scene_dimension" using Suc.prems Suc.hyps(2) by (simp add: scene_dimension_def)
  then have "scene_fill sha256 vec buf = scene_fill sha256 (vec @ byte_floats (sha256 buf)) (sha256 buf)"
    by (subst scene_fill.simps) simp
  also have "\<dots> = Some ((vec @ byte_floats (sha256 buf)) @ concat (map (\<lambda>i. byte_floats ((sha256 ^^ Suc (Suc i)) buf)) [0..<4 - Suc k]))"
    unfolding IH by (simp add: funpow_swap1)
  finally show ?case unfolding upt by (simp add: comp_def)
qed

lemma dot_scaled: "dot (map (\<lambda>v. v / c) xs) (map (\<lambda>v. v / c) xs) = dot xs xs / (c * c)"
  by (induction xs) (simp_all add: add_divide_distrib)

lemma sum_squares_dot: "sum_list (map (\<lambda>v. v * v) xs) = dot xs xs"
  by (induction xs) simp_all

lemma unit_length: "dot w w \<noteq> 0 \<Longrightarrow> dot (map (\<lambda>v. v / sqrt (dot w w)) w) (map (\<lambda>v. v / sqrt (dot w w)) w) = 1"
  by (simp add: dot_scaled)

lemma scene_vec_of:
  "scene_fill sha256 [] seed = Some w \<Longrightarrow> length w = 128 \<Longrightarrow> dot w w \<noteq> 0 \<Longrightarrow>
    scene_vec sha256 seed = Some (map (\<lambda>v. v / sqrt (dot w w)) w)"
  by (simp add: scene_vec_def scene_dimension_def sum_squares_dot Let_def)

lemma scene_vec_unit:
  assumes "\<forall>b. length (sha256 b) = 32"
  shows "\<exists>v. scene_vec sha256 seed = Some v \<and> length v = 128 \<and> dot v v = 1"
proof -
  let ?w = "concat (map (\<lambda>i. byte_floats ((sha256 ^^ Suc i) seed)) [0..<4])"
  have "length ((sha256 ^^ Suc i) seed) = 32" for i using assms by simp
  then have l: "length ?w = 128" by (simp add: length_concat comp_def byte_floats_def upt_conv_Cons del: funpow.simps)
  have fill: "scene_fill sha256 [] seed = Some ?w" using scene_fill_rounds [OF assms, of "[]" 0] by simp
  have "\<forall>x \<in> set ?w. x \<noteq> 0" using byte_float_nonzero by (auto simp: byte_floats_def)
  moreover have "0 < length ?w" unfolding l by simp
  then have "hd ?w \<in> set ?w" by (intro hd_in_set length_greater_0_conv [THEN iffD1])
  ultimately have "dot ?w ?w \<noteq> 0" unfolding dot_self_zero by blast
  then have "scene_vec sha256 seed = Some (map (\<lambda>v. v / sqrt (dot ?w ?w)) ?w)"
    "dot (map (\<lambda>v. v / sqrt (dot ?w ?w)) ?w) (map (\<lambda>v. v / sqrt (dot ?w ?w)) ?w) = 1"
    by (rule scene_vec_of [OF fill l], rule unit_length)
  moreover have "length (map (\<lambda>v. v / sqrt (dot ?w ?w)) ?w) = 128" using l by (simp only: length_map)
  ultimately show ?thesis by blast
qed

lemma hexdigest_chars: "c \<in> set (map upper_char (hexdigest b)) \<Longrightarrow> plate_char c"
proof -
  have "list_all (\<lambda>n. plate_char (upper_char (hex_lower n))) [0..<16]"
    by (simp add: upt_conv_Cons hex_lower_def digit_char_def plate_char_def upper_char_def is_digit_def)
  then have "plate_char (upper_char (hex_lower n))" if "n < 16" for n using that by (simp add: list_all_iff)
  moreover have "unat x div 16 < 16" for x :: "8 word" using unsigned_less [of x, where 'a = nat] by (simp add: less_mult_imp_div_less)
  ultimately show "c \<in> set (map upper_char (hexdigest b)) \<Longrightarrow> ?thesis" by (auto simp: hexdigest_def)
qed

text \<open>Every crop of bytes is read as a plate: the reference reader never gives nothing.\<close>

lemma reference_plate_read:
  assumes "length (sha256 b) = 32"
  shows "\<exists>r. read_plate reference_plate_rect (reference_plate_ocr sha256 seed) (Some b) ts = Some r \<and>
    pl_plate r = ''REF'' @ map upper_char (take 6 (hexdigest (sha256 b)))"
proof -
  let ?h = "map upper_char (take 6 (hexdigest (sha256 b)))"
  have "length (hexdigest x) = 2 * length x" for x by (induction x) (simp_all add: hexdigest_def)
  then have l: "length ?h = 6" using assms by simp
  have h: "\<forall>c \<in> set ?h. plate_char c" using hexdigest_chars [of _ "sha256 b"] by (auto dest: in_set_takeD)
  then have up: "map upper_char ?h = ?h" by (intro map_idI upper_plate_char) blast
  have "plate_char CHR ''R'' \<and> plate_char CHR ''E'' \<and> plate_char CHR ''F'' \<and> \<not> plate_char CHR ''-''" by (simp add: plate_char_def is_digit_def)
  then have n: "normalize_plate (''REF-'' @ ?h) = ''REF'' @ ?h"
    unfolding normalize_plate_def map_append up filter_append using h by (simp add: filter_id_conv upper_char_def)
  have ocr: "reference_plate_rect (Some b) ts = Some (25/100, 55/100, 5/10, 25/100)"
    "reference_plate_ocr sha256 seed (Some b) rect ts = Some (''REF-'' @ ?h)" for rect
    by (simp_all add: reference_plate_rect_def reference_plate_ocr_def)
  have "length (normalize_plate (''REF-'' @ ?h)) = 9" unfolding n length_append l by simp
  then have "read_plate reference_plate_rect (reference_plate_ocr sha256 seed) (Some b) ts =
      Some \<lparr>pl_plate = normalize_plate (''REF-'' @ ?h), pl_confidence = 9/10, pl_rect = (25/100, 55/100, 5/10, 25/100)\<rparr>"
    using read_plate_normal [THEN conjunct2, rule_format, of reference_plate_rect "Some b" ts "(25/100, 55/100, 5/10, 25/100)"
        "reference_plate_ocr sha256 seed" "''REF-'' @ ?h"] ocr by simp
  then show ?thesis unfolding n by simp
qed

text \<open>A crop of an array has pixels, and no more of them than the frame.\<close>

lemma crop_vehicle_inside:
  assumes "pixels \<noteq> []" and "\<forall>r \<in> set pixels. length r = n" and "0 < n"
  shows "\<exists>c. crop_vehicle (Pixel_array pixels) box = Pixel_array c \<and> c \<noteq> [] \<and> length c \<le> length pixels \<and>
    (\<forall>r \<in> set c. r \<noteq> [] \<and> length r \<le> n)"
proof -
  obtain x y bw bh where box: "box = (x, y, bw, bh)" by (cases box)
  define x1 y1 x2 y2 where d: "x1 = max 0 (py_trunc (x * of_int (int n)))" "y1 = max 0 (py_trunc (y * of_int (int (length pixels))))"
    "x2 = min (int n) (py_trunc ((x + bw) * of_int (int n)))" "y2 = min (int (length pixels)) (py_trunc ((y + bh) * of_int (int (length pixels))))"
  have n: "length (hd pixels) = n" using assms(1,2) by simp
  let ?c = "map (\<lambda>r. take (nat (x2 - x1)) (drop (nat x1) r)) (take (nat (y2 - y1)) (drop (nat y1) pixels))"
  have eq: "crop_vehicle (Pixel_array pixels) box = (if x2 \<le> x1 \<or> y2 \<le> y1 then Pixel_array pixels else Pixel_array ?c)"
    using assms(1) by (simp add: crop_vehicle_def box Let_def n d)
  show ?thesis
  proof (cases "x2 \<le> x1 \<or> y2 \<le> y1")
    case True
    then show ?thesis using assms by (auto simp: eq)
  next
    case False
    have b: "0 \<le> x1" "0 \<le> y1" "x2 \<le> int n" "y2 \<le> int (length pixels)" by (simp_all add: d)
    then have "?c \<noteq> []" "length ?c \<le> length pixels" using False by auto
    moreover have "r \<noteq> [] \<and> length r \<le> n" if m: "r \<in> set ?c" for r
    proof -
      obtain r' where r': "r' \<in> set (take (nat (y2 - y1)) (drop (nat y1) pixels))" "r = take (nat (x2 - x1)) (drop (nat x1) r')"
        using m by auto
      have "r' \<in> set pixels" using in_set_dropD [OF in_set_takeD [OF r'(1)]] .
      then have "length r' = n" using assms(2) by blast
      then show ?thesis using r'(2) b(1,3) False by auto
    qed
    ultimately show ?thesis using False eq by auto
  qed
qed

text \<open>Every vehicle of an array is read as the plate the reader is seeded with.\<close>

lemma array_plates: "vehicle_plate sha256 (Pixel_array pixels) box ts = Some \<lparr>pl_plate = ''ABC123'', pl_confidence = 9/10, pl_rect = (25/100, 55/100, 5/10, 25/100)\<rparr>"
proof -
  obtain c where c: "crop_vehicle (Pixel_array pixels) box = Pixel_array c"
    by (cases "crop_vehicle (Pixel_array pixels) box"; cases box) (auto simp: crop_vehicle_def Let_def split: if_splits)
  have n: "normalize_plate ''ABC123'' = ''ABC123''"
    by (simp add: normalize_plate_def upper_char_def plate_char_def is_digit_def)
  have "plate_re ''ABC123''" by (simp add: plate_re_def plate_char_def is_digit_def)
  then show ?thesis
    by (simp add: vehicle_plate_def c read_plate_def reference_plate_rect_def reference_plate_ocr_def frame_bytes_def n)
qed



end
