(* ===== verification/Worker_Main.thy ===== *)
theory Worker_Main
  imports Worker
begin

text \<open>
  The process of \<open>apps/worker/main.py\<close>: a thread for every camera, the alert sender and the
  retention loop, all daemons, and a main thread that sleeps. A step relation over the signals it gets
  and the threads that end.
\<close>

section \<open>The process\<close>

datatype worker_thread = Camera_thread string | Sender_thread | Retention_thread

record worker_proc =
  wp_stop :: bool  \<comment> \<open>the event every thread looks at\<close>
  wp_alive :: "worker_thread list"
  wp_exited :: bool

datatype happening =
    Second  \<comment> \<open>the main thread sleeps again\<close>
  | Sigterm
  | Interrupt nat  \<comment> \<open>\<open>KeyboardInterrupt\<close>, and the seconds that joining the threads takes\<close>
  | Thread_ends worker_thread

definition worker_main :: "db \<Rightarrow> worker_proc" where
  \<comment> \<open>once everything is started\<close>
  "worker_main d = \<lparr>wp_stop = False, wp_alive = map Camera_thread (dict_keys (db_cameras d)) @ [Sender_thread, Retention_thread],
     wp_exited = False\<rparr>"

definition may_end :: "worker_proc \<Rightarrow> worker_thread \<Rightarrow> bool" where
  \<comment> \<open>a camera's thread also ends when its models cannot be loaded or it raises; the other two loop
      until they are told to stop\<close>
  "may_end w t = (case t of Camera_thread cid \<Rightarrow> True | Sender_thread \<Rightarrow> wp_stop w | Retention_thread \<Rightarrow> wp_stop w)"

inductive worker_step :: "worker_proc \<Rightarrow> happening \<Rightarrow> worker_proc \<Rightarrow> bool" where
  sleeps: "\<not> wp_exited w \<Longrightarrow> worker_step w Second w"
| terminated: "\<not> wp_exited w \<Longrightarrow> worker_step w Sigterm (w\<lparr>wp_stop := True\<rparr>)"
| interrupted: "\<not> wp_exited w \<Longrightarrow> d \<le> 5 * length (wp_alive w) \<Longrightarrow>
    worker_step w (Interrupt d) (w\<lparr>wp_stop := True, wp_alive := [], wp_exited := True\<rparr>)"
| ends: "\<not> wp_exited w \<Longrightarrow> t \<in> set (wp_alive w) \<Longrightarrow> may_end w t \<Longrightarrow>
    worker_step w (Thread_ends t) (w\<lparr>wp_alive := remove1 t (wp_alive w)\<rparr>)"

inductive worker_runs :: "worker_proc \<Rightarrow> happening list \<Rightarrow> worker_proc \<Rightarrow> bool" where
  started: "worker_runs w [] w"
| happens: "worker_runs w es w1 \<Longrightarrow> worker_step w1 e w2 \<Longrightarrow> worker_runs w (es @ [e]) w2"

inductive_cases worker_step_E: "worker_step w e w2"

section \<open>What signals do\<close>

definition interrupts :: "happening list \<Rightarrow> nat list" where
  "interrupts es = List.map_filter (\<lambda>e. case e of Interrupt d \<Rightarrow> Some d | _ \<Rightarrow> None) es"

definition worker_ok :: "nat \<Rightarrow> happening list \<Rightarrow> worker_proc \<Rightarrow> bool" where
  "worker_ok n es w \<longleftrightarrow>
     (wp_exited w \<longleftrightarrow> interrupts es \<noteq> []) \<and> length (interrupts es) \<le> 1 \<and> list_all (\<lambda>d. d \<le> 5 * n) (interrupts es) \<and>
     (wp_stop w \<longleftrightarrow> Sigterm \<in> set es \<or> wp_exited w) \<and> length (wp_alive w) \<le> n \<and> (if wp_exited w then wp_alive w = [] else True) \<and>
     (if wp_stop w then True else {Sender_thread, Retention_thread} \<subseteq> set (wp_alive w))"

lemma interrupts_snoc [simp]: "interrupts (es @ [e]) = interrupts es @ (case e of Interrupt d \<Rightarrow> [d] | _ \<Rightarrow> [])"
  by (simp add: interrupts_def List.map_filter_def split: happening.split)

lemma worker_ok_step:
  assumes "worker_ok n es w" and "worker_step w e w2"
  shows "worker_ok n (es @ [e]) w2"
  using assms(2)
proof (cases rule: worker_step.cases)
  case (ends t)
  have "set (remove1 t (wp_alive w)) \<supseteq> set (wp_alive w) - {t}" by (metis Diff_subset_conv insert_is_Un set_remove1_subset subset_insertI2 subset_refl subsetI Diff_iff in_set_remove1 singletonI)
  then show ?thesis using assms(1) ends by (auto simp: worker_ok_def may_end_def length_remove1 split: worker_thread.splits)
qed (use assms(1) in \<open>auto simp: worker_ok_def\<close>)

lemma worker_run_ok: "worker_runs w es w2 \<Longrightarrow> worker_ok n [] w \<Longrightarrow> worker_ok n es w2"
  by (induction rule: worker_runs.induct) (auto intro: worker_ok_step)

lemma worker_main_ok: "worker_ok (length (db_cameras d) + 2) [] (worker_main d)"
  by (simp add: worker_ok_def worker_main_def interrupts_def dict_keys_def List.map_filter_def)

lemma worker_runs_append: "worker_runs w1 es' w2 \<Longrightarrow> worker_runs w es w1 \<Longrightarrow> worker_runs w (es @ es') w2"
  by (induction rule: worker_runs.induct) (auto simp flip: append_assoc intro: worker_runs.happens)

lemma worker_drains:
  assumes "wp_stop w" and "\<not> wp_exited w"
  shows "\<exists>es w2. worker_runs w es w2 \<and> wp_alive w2 = [] \<and> \<not> wp_exited w2"
  using assms
proof (induction "length (wp_alive w)" arbitrary: w)
  case 0
  then show ?case using worker_runs.started by fastforce
next
  case (Suc n)
  let ?t = "hd (wp_alive w)" and ?w = "w\<lparr>wp_alive := remove1 (hd (wp_alive w)) (wp_alive w)\<rparr>"
  have t: "?t \<in> set (wp_alive w)" using Suc.hyps(2) by (intro hd_in_set) auto
  have step: "worker_step w (Thread_ends ?t) ?w"
    using Suc.prems t by (intro worker_step.ends) (simp_all add: may_end_def split: worker_thread.split)
  have "n = length (wp_alive ?w)" using t Suc.hyps(2) by (simp add: length_remove1)
  then obtain es w2 where run: "worker_runs ?w es w2" "wp_alive w2 = []" "\<not> wp_exited w2"
    using Suc.hyps(1) [of ?w] Suc.prems by auto
  have "worker_runs w [Thread_ends ?t] ?w" using worker_runs.happens [OF worker_runs.started step] by simp
  from worker_runs_append [OF run(1) this] show ?case using run(2,3) by blast
qed



end
