(* ===== verification/Capacity.thy ===== *)
theory Capacity
  imports Prelude
begin

text \<open>
  The estimate of \<open>scripts/capacity.py\<close>, over real numbers; the printing of it is not modelled.
\<close>

record camera_plan =
  cp_recording_mbps :: real
  cp_ai_mbps :: real
  cp_total_mbps :: real
  cp_daily_gb :: real

record fleet_plan =
  fp_cameras :: int
  fp_mbps :: real
  fp_gbps :: real
  fp_daily_gb :: real
  fp_video_gb :: real
  fp_metadata_gb :: real
  fp_frame_load :: int

definition gigabyte :: real where "gigabyte = 1024 ^ 3"

definition daily_bytes :: "real \<Rightarrow> int" where
  \<comment> \<open>of a camera recording at a rate in Mbit/s, with ten percent for the file system\<close>
  "daily_bytes main_bitrate_mbps = py_trunc (main_bitrate_mbps * 1000000 * 86400 / 8 * (110 / 100))"

definition estimate ::
  "int \<Rightarrow> int \<Rightarrow> real \<Rightarrow> int \<Rightarrow> real \<Rightarrow> int \<Rightarrow> int \<Rightarrow> int \<Rightarrow> int \<Rightarrow> camera_plan \<times> fleet_plan" where
  \<comment> \<open>cameras, main rate and bit rate, sub rate and bit rate, AI rate, days of video, days of events, events a day\<close>
  "estimate cameras main_fps main_mbps sub_fps sub_mbps ai_fps days event_days events_per_day =
     (let daily = daily_bytes main_mbps; meta = events_per_day * 2048; per_cam = main_mbps + sub_mbps;
          total_daily = (daily + meta) * cameras; stored = daily * cameras * days; meta_stored = meta * cameras * event_days
      in (\<lparr>cp_recording_mbps = round_to 3 main_mbps, cp_ai_mbps = round_to 3 sub_mbps, cp_total_mbps = round_to 3 per_cam,
           cp_daily_gb = round_to 3 (of_int daily / gigabyte)\<rparr>,
          \<lparr>fp_cameras = cameras, fp_mbps = round_to 2 (per_cam * of_int cameras), fp_gbps = round_to 3 (per_cam * of_int cameras / 1000),
           fp_daily_gb = round_to 2 (of_int total_daily / gigabyte), fp_video_gb = round_to 2 (of_int stored / gigabyte),
           fp_metadata_gb = round_to 3 (of_int meta_stored / gigabyte), fp_frame_load = ai_fps * cameras\<rparr>))"

lemma round_half_even_near: "\<bar>of_int (round_half_even x) - x\<bar> \<le> 1/2"
  unfolding round_half_even_def Let_def by (auto split: if_splits)

lemma round_to_near: "\<bar>round_to n x - x\<bar> \<le> 1 / (2 * 10 ^ n)"
proof -
  have "\<bar>of_int (round_half_even (x * 10 ^ n)) - x * 10 ^ n\<bar> / 10 ^ n \<le> (1/2) / 10 ^ n"
    by (rule divide_right_mono [OF round_half_even_near]) simp
  moreover have "(of_int (round_half_even (x * 10 ^ n)) - x * 10 ^ n) / 10 ^ n = round_to n x - x"
    by (simp add: round_to_def diff_divide_distrib)
  then have "\<bar>of_int (round_half_even (x * 10 ^ n)) - x * 10 ^ n\<bar> / 10 ^ n = \<bar>round_to n x - x\<bar>"
    by (metis abs_divide abs_numeral power_abs)
  ultimately show ?thesis by simp
qed

lemma abs_chain: "\<bar>x - y\<bar> \<le> p \<Longrightarrow> \<bar>y - z\<bar> \<le> q \<Longrightarrow> \<bar>x - z\<bar> \<le> q + (p :: real)"
  by linarith

text \<open>The video that is planned for is the documented formula, up to rounding.\<close>

lemma planned_video:
  assumes "0 \<le> main_mbps" and "0 \<le> cameras" and "0 \<le> days"
  shows "\<bar>fp_video_gb (snd (estimate cameras mf main_mbps sf sub_mbps af days ed ev)) * gigabyte -
    main_mbps * 1000000 * 86400 / 8 * (110/100) * of_int (cameras * days)\<bar> \<le> of_int (cameras * days) + gigabyte / 200"
proof -
  let ?r = "main_mbps * 1000000 * 86400 / 8 * (110/100)" and ?n = "of_int (cameras * days) :: real"
  let ?x = "of_int (daily_bytes main_mbps * cameras * days) / gigabyte"
  have g: "0 < gigabyte" by (simp add: gigabyte_def)
  have "\<bar>of_int (daily_bytes main_mbps) - ?r\<bar> \<le> 1" using assms(1) by (simp add: daily_bytes_def py_trunc_def) linarith
  moreover have n: "0 \<le> ?n" using assms(2,3) by simp
  ultimately have "\<bar>of_int (daily_bytes main_mbps) - ?r\<bar> * ?n \<le> 1 * ?n" by (intro mult_right_mono)
  moreover have x: "?x * gigabyte = of_int (daily_bytes main_mbps) * ?n" using g by simp
  ultimately have a: "\<bar>?x * gigabyte - ?r * ?n\<bar> \<le> ?n"
    unfolding x left_diff_distrib [symmetric] abs_mult abs_of_nonneg [OF n] by simp
  have "\<bar>round_to 2 ?x - ?x\<bar> * gigabyte \<le> 1/200 * gigabyte"
    using round_to_near [of 2 ?x] g by (intro mult_right_mono) simp_all
  then have "\<bar>round_to 2 ?x * gigabyte - ?x * gigabyte\<bar> \<le> gigabyte / 200"
    using g unfolding left_diff_distrib [symmetric] abs_mult by simp
  moreover have "fp_video_gb (snd (estimate cameras mf main_mbps sf sub_mbps af days ed ev)) = round_to 2 ?x"
    by (simp add: estimate_def Let_def)
  ultimately show ?thesis by (simp only:) (rule abs_chain [OF _ a])
qed

end
