(* ===== verification/Spec2Isabelle.thy ===== *)
theory Spec2Isabelle
  imports Presence Tracking Rule_Alarms Matching Detectors Registry Face_Onnx Anpr Data_Model Pipeline_Runs Analytics Access
    Auth_Examples Camera_Examples Crypto Notify Metrics Gateway Recorder Retention Alerts Worker Live
    Event_Examples People_Examples Alert_Api Insights Middleware Startup Onvif Runtimes Rig_Boot
    Demo Otp Scene Worker_Main Capacity
begin

text \<open>
  The verification of LocalSight, a local video intelligence platform: an API server, one worker
  process that runs the cameras, and scripts around them. This theory gathers the development; every
  other theory opens with what it holds, and models the file of \<open>src\<close> named there.

  \<^bold>\<open>The program and its parts.\<close> The API (\<open>apps/api\<close>) serves a database and an object store to operators.
  A request passes the middleware, the route table and its guards (bearer token, permission, rate limit) and
  reaches a handler, which reads and writes the tables, seals secrets with the cipher, checks addresses with
  the egress guard and leaves audit records. The worker (\<open>apps/worker\<close>) starts a thread for each camera in the same
  database: the gateway keeps a frame source alive, the pipeline turns each frame into detections, tracks,
  events, alarms and number plates, the recorder stores the main stream in segments, alerts go through a
  queue to the notification channels, and an hourly sweep deletes what has expired. The two processes meet only in the
  database and the store: what a handler accepts (stream addresses, rules, masks, enrolments, alert
  routes) is what a camera thread loads.

  \<^bold>\<open>How code becomes definitions.\<close> A table or class with fields is a record, an enumeration a datatype, a
  dictionary an association list in insertion order (\<open>dict\<close>, in \<open>Prelude\<close>). A handler is a
  function from its arguments and the state \<open>app\<close> (the database and the number of ids drawn) to an HTTP
  error or a result and the state after it (\<open>outcome\<close>, in \<open>Platform\<close>); an exception is a value of \<open>py_error\<close>, and
  \<open>Crash\<close> is what the server answers with 500. Code that runs in several threads is a step relation with its
  interleavings (\<open>Live\<close>, \<open>Worker_Main\<close>) or a sequence of atomic calls (the rate limiter, the metrics). Floats
  are real numbers, timestamps whole microseconds; codes and hashes work on machine words.

  \<^bold>\<open>The theories.\<close>
  \<^item> Shared: \<open>Prelude\<close> (built-ins of the language, dictionaries, reachable states and the locales for
    invariants of runs), \<open>Platform\<close> (settings of \<open>config.py\<close>, seeding, audit, requests), \<open>Listings\<close> (ordering and paging
    of tables), \<open>Data_Model\<close> (\<open>domain/models.py\<close> with the effect of its foreign keys).
  \<^item> Seeing (\<open>packages/ai\<close>): \<open>Geometry\<close>, \<open>Detectors\<close>, \<open>Runtimes\<close>, \<open>Tracking\<close>, \<open>Face_Onnx\<close>, \<open>Face_Align\<close>,
    \<open>Face_Reference\<close>, \<open>Matching\<close>, \<open>Scene\<close>, \<open>Anpr\<close>, \<open>Registry\<close>, \<open>Rule_Engine\<close> with \<open>Rule_Alarms\<close>, and \<open>Pipeline\<close>,
    which composes them as \<open>process_frame\<close> does, with \<open>Pipeline_Safety\<close> and \<open>Pipeline_Runs\<close>.
  \<^item> Video (\<open>packages/video\<close>): \<open>Stream_Urls\<close>, \<open>Onvif\<close>, \<open>Gateway\<close>, \<open>Recorder\<close>.
  \<^item> Security and storage (\<open>packages/security\<close>, \<open>packages/storage\<close>): \<open>Access\<close>, \<open>Otp\<close>, \<open>Egress\<close>, \<open>Crypto\<close>, \<open>Storage\<close>.
  \<^item> The API (\<open>apps/api\<close>): \<open>Auth\<close> with \<open>Auth_Safety\<close>, \<open>Cameras\<close> with \<open>Camera_Safety\<close>, \<open>People\<close> (identities and
    rules), \<open>Event_Api\<close> (events, timeline, audit), \<open>Alert_Api\<close>, \<open>Insights\<close>, \<open>Live\<close>, \<open>Api\<close> (the routes and their guards), \<open>Middleware\<close>,
    \<open>Startup\<close>.
  \<^item> The worker: \<open>Worker\<close> (a camera thread), \<open>Worker_Main\<close> (the process), \<open>Alerts\<close>, \<open>Notify\<close>, \<open>Retention\<close>, \<open>Metrics\<close>.
  \<^item> Domain and scripts: \<open>Presence\<close>, \<open>Analytics\<close>, \<open>Rig\<close> and \<open>Rig_Boot\<close>, \<open>Demo\<close>, \<open>Capacity\<close>.
  \<^item> Theories whose name ends in \<open>_Examples\<close> hold concrete runs of the theorems of the theory they are named after.

  \<^bold>\<open>Interfaces.\<close> A locale states each contract, with an interpretation on the program's own
  definitions: \<open>safe_run\<close> and \<open>safe_system\<close> (an invariant kept by every operation; the account handlers, the camera
  handlers, the tracker, the frames of a pipeline, the live view), \<open>overlap_measure\<close> (the three functions for
  the overlap of boxes), \<open>suppression\<close> (the two suppressions of overlapping boxes), \<open>object_store\<close> (what a client may rely on;
  the local provider), \<open>ordered_listing\<close> (the order of the listing endpoints).

  \<^bold>\<open>What the theorems show.\<close> Each property stands behind a text that states it. Along a frame: masked detections
  leave no trace, presence events open, merge and close as specified, samples are written when they are due, dwell
  alarms come exactly when the specification over the trajectory has them. Around accounts: who can log in, what locks an
  account, a refresh token works once, which role reaches which route, a second factor that is set up is
  accepted. Around data: signed addresses, keys that stay inside the store, sealing and opening, erasing a person, pages and
  exports that lose nothing, retention that deletes what has expired and nothing else. Around
  processes: transcodes without orphans, reconnection, cooldown windows, the fate of every frame, and what a signal to the
  worker does. Between components: rules and enrolments that the API accepts are those a camera uses, stored
  stream addresses have passed the egress guard, an uploaded picture is embedded like a frame. Where the code does not do what it
  means to, the theorem states what it does.

  \<^bold>\<open>Bounds and loops.\<close> Loops that follow their data are recursive functions with a measure. \<open>buckets\<close> (the
  occupancy trend) and \<open>scene_fill\<close> (the scene embedder) are partial functions, with proofs that they return. Where the code itself
  has a bound, it is the fuel: 50 polls in five seconds in \<open>stop_named\<close>, 20 tries of \<open>rig_login\<close>, two polls a second in
  \<open>wait_for\<close>; \<open>rtsp_ready\<close> has as many probes as seconds, and more change nothing (\<open>rtsp_ready_fuel\<close>). The sweep's chunks of
  500 rows, the delays of the gateway and the cooldown windows are the constants of the code.

  \<^bold>\<open>Parameters.\<close> What is not in the repository is an argument: the neural networks and their runtimes, the
  number plate and face models, ffmpeg and ffprobe, sockets, HTTP, SMTP and MQTT clients, the S3 client, name
  resolution, password hashing (the two calls of \<open>passwords.py\<close>), the token signer, Fernet, HMAC and
  SHA-256, clocks, randomness, processes. A law that a theorem needs of one is a named hypothesis of it, and its witness
  instantiates the parameter.

  \<^bold>\<open>Not modelled.\<close> Rounding, infinities and NaN of floats. The declarations of \<open>domain/schemas.py\<close> other than those that
  decide what a handler does. The framework's own parts: the CORS middleware (a parameter), static files, sessions of
  the database and their isolation, the indexes and column defaults of the schema, the set-up of logging. A failing commit, other
  than the integrity errors the code relies on. The scripts \<open>ui_audit\<close>, \<open>ui_design_metrics\<close>, \<open>ui_maturity_scan\<close> and
  \<open>ui_probe_*\<close>, which drive a browser and print; the printing and argument parsing of the other scripts, and of the rig the
  commands that install tools, report its state and follow its logs. The dashboard under \<open>ui\<close>, the tests, and the files for
  deployment.
\<close>

end
